(* ===== verification/Aleth_Prelude.thy ===== *)
theory Aleth_Prelude
  imports Main "HOL-Library.Word"
begin

section \<open>Shared types, error handling and generic lemmas\<close>

text \<open>
  This theory holds what every component of the development shares: the names of the
  machine types of \<open>libdevcore/Common.h\<close> (\<open>byte\<close>, \<open>bytes\<close>, \<open>u256\<close>, \<open>h256\<close>, \<open>Address\<close>),
  sequencing of computations that may throw (\<open>andThen\<close>, over the sum type with the
  exception on the left), the wrap-around of 64-bit counters, and lemmas on lists, sums and
  words that the component proofs use through the collections declared here.
\<close>

unbundle bit_operations_syntax

subsection \<open>Types\<close>

type_synonym byte = "8 word"
type_synonym bytes = "byte list"
type_synonym u256 = "256 word"
type_synonym u512 = "512 word"
type_synonym h256 = "256 word"
type_synonym address = "160 word"

subsection \<open>Collections used by the component proofs\<close>

named_theorems err_simps \<open>equations of computations that may throw\<close>
named_theorems rlp_simps \<open>equations of the RLP reader and writer\<close>
named_theorems vm_simps \<open>equations of the interpreter's helper functions\<close>
named_theorems state_simps \<open>equations of the state and its accounts\<close>

subsection \<open>Computations that may throw\<close>

text \<open>
  A C++ function that may throw is a function into \<open>'e + 'a\<close>: \<open>Inl e\<close> is the exception,
  \<open>Inr x\<close> the value returned. \<open>andThen\<close> runs a second computation on the value of the
  first and lets an exception through, as a statement after a throwing call does.
\<close>

definition andThen :: "'e + 'a \<Rightarrow> ('a \<Rightarrow> 'e + 'b) \<Rightarrow> 'e + 'b" where
  "andThen m f = (case m of Inl e \<Rightarrow> Inl e | Inr x \<Rightarrow> f x)"

definition throwIf :: "bool \<Rightarrow> 'e \<Rightarrow> 'e + unit" where
  "throwIf c e = (if c then Inl e else Inr ())"

lemma andThen_Inl [simp, err_simps]: "andThen (Inl e) f = Inl e"
  by (simp add: andThen_def)

lemma andThen_Inr [simp, err_simps]: "andThen (Inr x) f = f x"
  by (simp add: andThen_def)

lemma andThen_eq_Inr [err_simps]: "andThen m f = Inr y \<longleftrightarrow> (\<exists>x. m = Inr x \<and> f x = Inr y)"
  by (cases m) auto

lemma andThen_eq_Inl [err_simps]:
  "andThen m f = Inl e \<longleftrightarrow> m = Inl e \<or> (\<exists>x. m = Inr x \<and> f x = Inl e)"
  by (cases m) auto

lemma andThen_assoc: "andThen (andThen m f) g = andThen m (\<lambda>x. andThen (f x) g)"
  by (cases m) auto

lemma andThen_cong [fundef_cong]:
  "m = m' \<Longrightarrow> (\<And>x. m' = Inr x \<Longrightarrow> f x = g x) \<Longrightarrow> andThen m f = andThen m' g"
  by (cases m') auto

lemma throwIf_simps [simp, err_simps]:
  "throwIf True e = Inl e" "throwIf False e = Inr ()"
  by (simp_all add: throwIf_def)

lemma throwIf_eq [err_simps]:
  "throwIf c e = Inr u \<longleftrightarrow> \<not> c" "throwIf c e = Inl e' \<longleftrightarrow> c \<and> e' = e"
  by (auto simp: throwIf_def)

text \<open>Mapping a throwing function over a list stops at the first exception.\<close>

fun mapErr :: "('a \<Rightarrow> 'e + 'b) \<Rightarrow> 'a list \<Rightarrow> 'e + 'b list" where
  "mapErr f [] = Inr []"
| "mapErr f (x # xs) = andThen (f x) (\<lambda>y. andThen (mapErr f xs) (\<lambda>ys. Inr (y # ys)))"

lemma mapErr_all_Inr: "(\<And>x. x \<in> set xs \<Longrightarrow> f x = Inr (g x)) \<Longrightarrow> mapErr f xs = Inr (map g xs)"
  by (induction xs) auto

lemma mapErr_cong [fundef_cong]:
  "xs = ys \<Longrightarrow> (\<And>x. x \<in> set ys \<Longrightarrow> f x = g x) \<Longrightarrow> mapErr f xs = mapErr g ys"
proof (induction ys arbitrary: xs)
  case Nil
  then show ?case by simp
next
  case (Cons y ys)
  have "mapErr f ys = mapErr g ys" by (rule Cons.IH [OF refl]) (simp add: Cons.prems(2))
  with Cons.prems show ?case by simp
qed

lemma mapErr_length: "mapErr f xs = Inr ys \<Longrightarrow> length ys = length xs"
  by (induction xs arbitrary: ys) (auto simp: err_simps)

subsection \<open>Computations that return\<close>

text \<open>What a returned value satisfies; an exception satisfies it vacuously.\<close>

definition returns :: "('e + 'a) \<Rightarrow> ('a \<Rightarrow> bool) \<Rightarrow> bool" where
  "returns r Q \<longleftrightarrow> (\<forall>x. r = Inr x \<longrightarrow> Q x)"

lemma returns_Inr [simp]: "returns (Inr x) Q \<longleftrightarrow> Q x"
  by (simp add: returns_def)

lemma returns_Inl [simp]: "returns (Inl e) Q"
  by (simp add: returns_def)

lemma returns_andThen [simp]: "returns (andThen m f) Q \<longleftrightarrow> returns m (\<lambda>x. returns (f x) Q)"
  by (cases m) simp_all

lemma returns_mono: "returns m R \<Longrightarrow> (\<And>x. R x \<Longrightarrow> Q x) \<Longrightarrow> returns m Q"
  by (simp add: returns_def)

lemma returns_bind:
  "returns m R \<Longrightarrow> (\<And>x. R x \<Longrightarrow> returns (f x) Q) \<Longrightarrow> returns (andThen m f) Q"
  by (cases m) simp_all

lemma andThen_Inr_right [simp]: "andThen m Inr = m"
  by (cases m) simp_all

text \<open>Both ends of a computation whose exception carries the state it left behind.\<close>

definition outcome :: "'e \<times> 's + 'a \<Rightarrow> ('e \<Rightarrow> 's \<Rightarrow> bool) \<Rightarrow> ('a \<Rightarrow> bool) \<Rightarrow> bool" where
  "outcome r E Q \<longleftrightarrow> (case r of Inl (x, s) \<Rightarrow> E x s | Inr y \<Rightarrow> Q y)"

lemma outcome_simps [simp]:
  "outcome (Inl (x, s)) E Q \<longleftrightarrow> E x s" "outcome (Inr y) E Q \<longleftrightarrow> Q y"
  by (simp_all add: outcome_def)

lemma outcome_bind:
  "outcome m E R \<Longrightarrow> (\<And>y. R y \<Longrightarrow> outcome (f y) E Q) \<Longrightarrow> outcome (andThen m f) E Q"
  by (cases m) (simp_all add: outcome_def)

lemma outcome_mono:
  "outcome r E Q \<Longrightarrow> (\<And>x s. E x s \<Longrightarrow> E' x s) \<Longrightarrow> (\<And>y. Q y \<Longrightarrow> Q' y) \<Longrightarrow> outcome r E' Q'"
  by (auto simp: outcome_def split: sum.splits)

lemma outcome_conj: "outcome r E Q \<Longrightarrow> outcome r E' Q' \<Longrightarrow> outcome r (\<lambda>x s. E x s \<and> E' x s) (\<lambda>y. Q y \<and> Q' y)"
  by (auto simp: outcome_def split: sum.splits)

subsection \<open>64-bit counters\<close>

text \<open>
  A \<open>uint64_t\<close> or \<open>size_t\<close> is a natural number below \<open>2 ^ 64\<close>. \<open>wrap64\<close> is written where an
  addition may reach that bound; elsewhere a lemma shows that it cannot.
\<close>

definition wrap64 :: "nat \<Rightarrow> nat" where
  "wrap64 n = n mod 2 ^ 64"

lemma wrap64_id [simp]: "n < 2 ^ 64 \<Longrightarrow> wrap64 n = n"
  by (simp add: wrap64_def)

lemma wrap64_less [simp]: "wrap64 n < 2 ^ 64"
  by (simp add: wrap64_def)

lemma wrap64_le: "wrap64 n \<le> n"
  by (simp add: wrap64_def)

subsection \<open>Bytes and lists\<close>

lemma unat_byte_less [simp]: "unat (b :: byte) < 256"
  using unsigned_less [of b] by simp

lemma unat_byte_le [simp]: "unat (b :: byte) \<le> 255"
  using unat_byte_less [of b] by linarith

lemma unat_byte_of_nat [simp]: "n < 256 \<Longrightarrow> unat (word_of_nat n :: byte) = n"
  by (simp add: unat_of_nat)

lemma unat_byte_of_nat_mod: "unat (word_of_nat n :: byte) = n mod 256"
  by (simp add: unat_of_nat)

lemma byte_of_nat_unat [simp]: "(word_of_nat (unat b) :: byte) = b"
  by simp

lemma unat_byte_div16 [simp]: "unat (b :: byte) div 16 < 16"
  using unat_byte_less [of b] by (simp add: less_mult_imp_div_less)

lemma take_drop_append_middle [simp]:
  "take (length ys) (drop (length xs) (xs @ ys @ zs)) = ys"
  by simp

lemma take_length_take: "take (length (take k xs)) xs = take k xs"
  by (simp add: min_def)

lemma hd_conv_nth0: "xs \<noteq> [] \<Longrightarrow> hd xs = xs ! 0"
  by (cases xs) simp_all

end
