(* ===== verification/Common_Data.thy ===== *)
theory Common_Data
  imports Aleth_Prelude
begin

section \<open>Byte, nibble and integer conversions (libdevcore/CommonData, Common.h)\<close>

text \<open>
  The conversions every other component uses: big-endian integers, hex strings, nibbles, and
  the two's complement view of a \<open>u256\<close>. Unbounded C++ integers (\<open>bigint\<close>) and the loop
  variables of the templates are natural numbers; where the template truncates to a type of
  \<open>w\<close> bits the width is an argument. The lemmas show the round trips, the minimality of
  the compact form, and that \<open>u2s\<close> / \<open>s2u\<close> are the signed reading of a word.
\<close>

subsection \<open>Big-endian integers\<close>

text \<open>\<open>toBigEndian(_val, o_out)\<close>: fills a collection of \<open>n\<close> bytes from the back.\<close>

fun toBigEndian :: "nat \<Rightarrow> nat \<Rightarrow> bytes" where
  "toBigEndian 0 v = []"
| "toBigEndian (Suc n) v = toBigEndian n (v div 256) @ [word_of_nat (v mod 256)]"

text \<open>\<open>fromBigEndian<bigint>\<close>, and \<open>fromBigEndian<T>\<close> for a \<open>T\<close> of \<open>w\<close> bits.\<close>

definition fromBigEndian :: "bytes \<Rightarrow> nat" where
  "fromBigEndian bs = foldl (\<lambda>ret b. ret * 256 + unat b) 0 bs"

definition fromBigEndian_w :: "nat \<Rightarrow> bytes \<Rightarrow> nat" where
  "fromBigEndian_w w bs = foldl (\<lambda>ret b. (ret * 256 + unat b) mod 2 ^ w) 0 bs"

text \<open>
  The bytes of a number: it is shifted right by 8 until it is zero. \<open>bytesRequired\<close> counts the shifts
  in 32 bits, \<open>bytesRequired_count\<close> shows that the count is exact for numbers of less than \<open>2 ^ 32\<close>
  bytes. \<open>toCompactBigEndian\<close> counts in an \<open>int\<close> of its own, which a number of \<open>2 ^ 31\<close> bytes would
  overflow; here its counter is exact.
\<close>

fun byteCount :: "nat \<Rightarrow> nat" where
  "byteCount i = (if i = 0 then 0 else Suc (byteCount (i div 256)))"

declare byteCount.simps [simp del]

fun bytesRequired_loop :: "nat \<Rightarrow> 32 word \<Rightarrow> 32 word" where
  "bytesRequired_loop n i = (if n = 0 then i else bytesRequired_loop (n div 256) (i + 1))"

declare bytesRequired_loop.simps [simp del]

definition bytesRequired :: "nat \<Rightarrow> nat" where
  "bytesRequired n = unat (bytesRequired_loop n 0)"

definition toCompactBigEndian :: "nat \<Rightarrow> nat \<Rightarrow> bytes" where
  "toCompactBigEndian v mn = toBigEndian (max mn (byteCount v)) v"

lemma length_toBigEndian [simp]: "length (toBigEndian n v) = n"
  by (induction n arbitrary: v) simp_all

lemma fromBigEndian_Nil [simp]: "fromBigEndian [] = 0"
  by (simp add: fromBigEndian_def)

lemma fromBigEndian_snoc [simp]: "fromBigEndian (bs @ [b]) = fromBigEndian bs * 256 + unat b"
  by (simp add: fromBigEndian_def)

lemma fromBigEndian_append:
  "fromBigEndian (xs @ ys) = fromBigEndian xs * 256 ^ length ys + fromBigEndian ys"
proof (induction ys rule: rev_induct)
  case Nil
  then show ?case by simp
next
  case (snoc y ys)
  have "fromBigEndian ((xs @ ys) @ [y]) = fromBigEndian (xs @ ys) * 256 + unat y"
    by (rule fromBigEndian_snoc)
  with snoc show ?case by (simp add: algebra_simps)
qed

lemma fromBigEndian_Cons:
  "fromBigEndian (b # bs) = unat b * 256 ^ length bs + fromBigEndian bs"
  using fromBigEndian_append [of "[b]" bs] fromBigEndian_snoc [of "[]" b] by simp

lemma fromBigEndian_less: "fromBigEndian bs < 256 ^ length bs"
proof (induction bs rule: rev_induct)
  case Nil
  then show ?case by simp
next
  case (snoc b bs)
  have "fromBigEndian bs * 256 + unat b < (fromBigEndian bs + 1) * 256" by simp
  also have "\<dots> \<le> 256 ^ length bs * 256" using snoc by (intro mult_right_mono) auto
  finally show ?case by (simp add: mult.commute)
qed

text \<open>The \<open>w\<close>-bit conversion is the unbounded one modulo \<open>2 ^ w\<close>.\<close>

lemma fromBigEndian_w_mod: "fromBigEndian_w w bs = fromBigEndian bs mod 2 ^ w"
proof (induction bs rule: rev_induct)
  case Nil
  then show ?case by (simp add: fromBigEndian_w_def)
next
  case (snoc b bs)
  have "fromBigEndian_w w (bs @ [b]) = (fromBigEndian_w w bs * 256 + unat b) mod 2 ^ w"
    by (simp add: fromBigEndian_w_def)
  also have "\<dots> = (fromBigEndian bs mod 2 ^ w * 256 + unat b) mod 2 ^ w"
    by (simp add: snoc)
  also have "\<dots> = (fromBigEndian bs * 256 + unat b) mod 2 ^ w"
    by (metis mod_add_left_eq mod_mult_left_eq)
  finally show ?case by simp
qed

lemma fromBigEndian_toBigEndian: "fromBigEndian (toBigEndian n v) = v mod 256 ^ n"
proof (induction n arbitrary: v)
  case 0
  then show ?case by simp
next
  case (Suc n)
  have "v mod 256 ^ Suc n = v div 256 mod 256 ^ n * 256 + v mod 256"
    by (simp add: mod_mult2_eq mult.commute)
  with Suc show ?case by (simp add: unat_byte_of_nat_mod)
qed

lemma toBigEndian_fromBigEndian: "toBigEndian (length bs) (fromBigEndian bs) = bs"
proof (induction bs rule: rev_induct)
  case Nil
  then show ?case by simp
next
  case (snoc b bs)
  have "(fromBigEndian bs * 256 + unat b) div 256 = fromBigEndian bs" by simp
  moreover have "(fromBigEndian bs * 256 + unat b) mod 256 = unat b" by simp
  ultimately show ?case using snoc by simp
qed

subsection \<open>The number of bytes a value needs\<close>

lemma byteCount_0 [simp]: "byteCount 0 = 0"
  by (simp add: byteCount.simps)

lemma byteCount_pos: "0 < i \<Longrightarrow> byteCount i = Suc (byteCount (i div 256))"
  by (subst byteCount.simps) simp

lemma byteCount_eq_0 [simp]: "byteCount i = 0 \<longleftrightarrow> i = 0"
  by (subst byteCount.simps) simp

lemma bytesRequired_loop_count: "bytesRequired_loop n i = i + word_of_nat (byteCount n)"
proof (induction n arbitrary: i rule: byteCount.induct)
  case (1 n)
  then show ?case by (subst bytesRequired_loop.simps, subst byteCount.simps) simp
qed

lemma bytesRequired_mod: "bytesRequired n = byteCount n mod 2 ^ 32"
  by (simp add: bytesRequired_def bytesRequired_loop_count unsigned_of_nat take_bit_eq_mod)

lemma bytesRequired_count: "byteCount n < 2 ^ 32 \<Longrightarrow> bytesRequired n = byteCount n"
  by (simp add: bytesRequired_mod)

lemma less_256_pow_byteCount: "i < 256 ^ byteCount i"
proof (induction i rule: byteCount.induct)
  case (1 i)
  show ?case
  proof (cases "i = 0")
    case True
    then show ?thesis by simp
  next
    case False
    with 1 have "i div 256 < 256 ^ byteCount (i div 256)" by simp
    then have "i < 256 * 256 ^ byteCount (i div 256)"
      by (simp add: div_less_iff_less_mult mult.commute)
    with False show ?thesis by (simp add: byteCount_pos)
  qed
qed

lemma byteCount_le_iff: "byteCount i \<le> n \<longleftrightarrow> i < 256 ^ n"
proof (induction n arbitrary: i)
  case 0
  then show ?case by simp
next
  case (Suc n)
  show ?case
  proof (cases "i = 0")
    case True
    then show ?thesis by simp
  next
    case False
    then show ?thesis
      by (simp add: byteCount_pos Suc div_less_iff_less_mult mult.commute)
  qed
qed

lemma byteCount_less_imp: "n < byteCount i \<Longrightarrow> 256 ^ n \<le> i"
  using byteCount_le_iff [of i n] by linarith

text \<open>The leading byte of the shortest encoding is not zero.\<close>

lemma hd_toBigEndian_byteCount:
  assumes "0 < v"
  shows "unat (hd (toBigEndian (byteCount v) v)) \<noteq> 0"
proof -
  let ?bs = "toBigEndian (byteCount v) v"
  obtain n where n: "byteCount v = Suc n"
    using assms by (metis byteCount_pos)
  then obtain b bs where bs: "?bs = b # bs" and len: "length bs = n"
    by (metis length_Suc_conv length_toBigEndian)
  have "v = fromBigEndian ?bs"
    by (simp add: fromBigEndian_toBigEndian less_256_pow_byteCount)
  then have v: "v = unat b * 256 ^ n + fromBigEndian bs"
    by (simp add: bs len fromBigEndian_Cons)
  have "256 ^ n \<le> v" using n by (intro byteCount_less_imp) simp
  moreover have "fromBigEndian bs < 256 ^ n" using fromBigEndian_less [of bs] len by simp
  ultimately have "unat b \<noteq> 0" using v by (metis add_0 leD mult_0)
  then show ?thesis by (simp add: bs)
qed

lemma fromBigEndian_toCompactBigEndian: "fromBigEndian (toCompactBigEndian v mn) = v"
proof -
  have "v < 256 ^ byteCount v" by (rule less_256_pow_byteCount)
  also have "\<dots> \<le> 256 ^ max mn (byteCount v)" by (intro power_increasing) auto
  finally show ?thesis
    by (simp add: toCompactBigEndian_def fromBigEndian_toBigEndian)
qed

lemma byteCount_fromBigEndian_le: "byteCount (fromBigEndian bs) \<le> length bs"
  by (simp add: byteCount_le_iff fromBigEndian_less)

lemma byteCount_fromBigEndian:
  assumes "bs \<noteq> []" and "unat (hd bs) \<noteq> 0"
  shows "byteCount (fromBigEndian bs) = length bs"
proof -
  obtain b cs where bs: "bs = b # cs" using assms(1) by (cases bs) auto
  have "256 ^ length cs \<le> unat b * 256 ^ length cs" using assms(2) bs by simp
  also have "\<dots> \<le> fromBigEndian bs" by (simp add: bs fromBigEndian_Cons)
  finally have "\<not> byteCount (fromBigEndian bs) \<le> length cs"
    by (simp add: byteCount_le_iff)
  with byteCount_fromBigEndian_le [of bs] show ?thesis by (simp add: bs)
qed

subsection \<open>Hex strings\<close>

datatype when_error = DontThrow | Throw
datatype hex_error = BadHexCharacter

definition hexdigits :: string where
  "hexdigits = ''0123456789abcdef''"

text \<open>\<open>toHex(_it, _end, _prefix)\<close>: two digits per byte after the prefix.\<close>

fun toHex_digits :: "bytes \<Rightarrow> string" where
  "toHex_digits [] = []"
| "toHex_digits (b # bs) =
     hexdigits ! (unat b div 16 mod 16) # hexdigits ! (unat b mod 16) # toHex_digits bs"



text \<open>\<open>fromHexChar\<close>: the value of a hex digit of either case, or \<open>-1\<close>.\<close>

definition fromHexChar :: "char \<Rightarrow> int" where
  "fromHexChar c =
     (let i = int (of_char c) in
      if int (of_char (CHR ''0'')) \<le> i \<and> i \<le> int (of_char (CHR ''9'')) then i - int (of_char (CHR ''0''))
      else if int (of_char (CHR ''a'')) \<le> i \<and> i \<le> int (of_char (CHR ''f''))
           then i - int (of_char (CHR ''a'')) + 10
      else if int (of_char (CHR ''A'')) \<le> i \<and> i \<le> int (of_char (CHR ''F''))
           then i - int (of_char (CHR ''A'')) + 10
      else -1)"

definition has0x :: "string \<Rightarrow> bool" where
  "has0x s \<longleftrightarrow> 2 \<le> length s \<and> s ! 0 = CHR ''0'' \<and> s ! 1 = CHR ''x''"



text \<open>
  \<open>fromHex(_s, _throw)\<close>: an odd string starts with a one-digit byte, then the digits are
  read in pairs. A bad digit throws, or makes the function return no bytes at all.
\<close>

fun fromHex_loop :: "when_error \<Rightarrow> bytes \<Rightarrow> string \<Rightarrow> hex_error + bytes" where
  "fromHex_loop w ret (c # d # s) =
     (let h = fromHexChar c; l = fromHexChar d in
      if h \<noteq> -1 \<and> l \<noteq> -1 then fromHex_loop w (ret @ [word_of_int (h * 16 + l)]) s
      else if w = Throw then Inl BadHexCharacter else Inr [])"
| "fromHex_loop w ret s = Inr ret"


lemma fromHexChar_hexdigits: "n < 16 \<Longrightarrow> fromHexChar (hexdigits ! n) = int n"
proof -
  assume "n < 16"
  moreover have "list_all (\<lambda>n. fromHexChar (hexdigits ! n) = int n) [0..<16]" by code_simp
  ultimately show ?thesis by (simp add: list_all_iff)
qed

lemma fromHexChar_range: "fromHexChar c = -1 \<or> (0 \<le> fromHexChar c \<and> fromHexChar c < 16)"
  by (simp add: fromHexChar_def Let_def)

lemma fromHexChar_x: "fromHexChar (CHR ''x'') = -1"
  by (simp add: fromHexChar_def)

lemma length_toHex_digits [simp]: "length (toHex_digits bs) = 2 * length bs"
  by (induction bs) simp_all

lemma toHex_digits_all: "list_all (\<lambda>c. fromHexChar c \<noteq> -1) (toHex_digits bs)"
  by (induction bs) (simp_all add: fromHexChar_hexdigits)

lemma not_has0x_toHex_digits [simp]: "\<not> has0x (toHex_digits bs)"
proof (cases bs)
  case Nil
  then show ?thesis by (simp add: has0x_def)
next
  case (Cons b cs)
  have "fromHexChar (hexdigits ! (unat b mod 16)) \<noteq> -1" by (simp add: fromHexChar_hexdigits)
  with Cons show ?thesis by (auto simp: has0x_def fromHexChar_x)
qed





lemma fromHex_loop_DontThrow:
  "even (length s) \<Longrightarrow> \<not> list_all (\<lambda>c. fromHexChar c \<noteq> -1) s \<Longrightarrow> fromHex_loop DontThrow ret s = Inr []"
  by (induction "DontThrow" ret s rule: fromHex_loop.induct) (auto simp: Let_def)


subsection \<open>Nibbles\<close>

definition asNibbles :: "bytes \<Rightarrow> bytes" where
  "asNibbles s = concat (map (\<lambda>i. [word_of_nat (unat i div 16), word_of_nat (unat i mod 16)]) s)"

fun commonPrefix :: "'a list \<Rightarrow> 'a list \<Rightarrow> nat" where
  "commonPrefix (t # ts) (u # us) = (if t \<noteq> u then 0 else Suc (commonPrefix ts us))"
| "commonPrefix _ _ = 0"

lemma length_asNibbles [simp]: "length (asNibbles s) = 2 * length s"
  by (induction s) (simp_all add: asNibbles_def)

lemma asNibbles_less: "n \<in> set (asNibbles s) \<Longrightarrow> unat n < 16"
proof (induction s)
  case Nil
  then show ?case by (simp add: asNibbles_def)
next
  case (Cons b s)
  have "unat b div 16 < 256" using unat_byte_div16 [of b] by linarith
  with Cons show ?case by (auto simp: asNibbles_def)
qed

lemma asNibbles_simps [simp]:
  "asNibbles [] = []"
  "asNibbles (b # bs) = word_of_nat (unat b div 16) # word_of_nat (unat b mod 16) # asNibbles bs"
  by (simp_all add: asNibbles_def)

lemma nibbles_inject:
  "word_of_nat (unat a div 16) = (word_of_nat (unat b div 16) :: byte) \<Longrightarrow>
   word_of_nat (unat a mod 16) = (word_of_nat (unat b mod 16) :: byte) \<Longrightarrow> a = (b :: byte)"
proof -
  assume "word_of_nat (unat a div 16) = (word_of_nat (unat b div 16) :: byte)"
    and "word_of_nat (unat a mod 16) = (word_of_nat (unat b mod 16) :: byte)"
  then have *: "unat (word_of_nat (unat a div 16) :: byte) = unat (word_of_nat (unat b div 16) :: byte)"
    "unat (word_of_nat (unat a mod 16) :: byte) = unat (word_of_nat (unat b mod 16) :: byte)"
    by (simp_all only:)
  have "unat a div 16 < 256" and "unat b div 16 < 256"
    using unat_byte_div16 [of a] unat_byte_div16 [of b] by linarith+
  with * have "unat a div 16 = unat b div 16" and "unat a mod 16 = unat b mod 16"
    by (simp_all add: unat_byte_of_nat_mod)
  then have "unat a = unat b" by (metis div_mult_mod_eq)
  then show "a = b" by (rule unsigned_word_eqI)
qed

lemma inj_asNibbles: "asNibbles s = asNibbles t \<Longrightarrow> s = t"
proof (induction s arbitrary: t)
  case Nil
  then have "length (asNibbles t) = 0" by (simp only: asNibbles_simps list.size)
  then show ?case by simp
next
  case (Cons b bs)
  have "length (asNibbles t) = length (asNibbles (b # bs))"
    using Cons.prems by (simp only:)
  then obtain c cs where t: "t = c # cs" unfolding length_asNibbles by (cases t) simp_all
  note eq = Cons.prems [unfolded t asNibbles_simps list.inject]
  have "bs = cs" using eq by (intro Cons.IH) blast
  moreover have "b = c" using eq by (rule_tac nibbles_inject) blast+
  ultimately show ?case by (simp add: t)
qed

lemma commonPrefix_take:
  "take (commonPrefix t u) t = take (commonPrefix t u) u"
  by (induction t u rule: commonPrefix.induct) auto

lemma commonPrefix_le: "commonPrefix t u \<le> length t" "commonPrefix t u \<le> length u"
  by (induction t u rule: commonPrefix.induct) auto

lemma commonPrefix_maximal:
  "commonPrefix t u < length t \<Longrightarrow> commonPrefix t u < length u \<Longrightarrow>
   t ! commonPrefix t u \<noteq> u ! commonPrefix t u"
  by (induction t u rule: commonPrefix.induct) auto

subsection \<open>Signed reading of a word (libdevcore/Common.h)\<close>

definition u2s :: "u256 \<Rightarrow> int" where
  "u2s u = (if bit u 255 then - (2 ^ 256 - uint u) else uint u)"

definition s2u :: "int \<Rightarrow> u256" where
  "s2u s = (if 0 \<le> s then word_of_int s else word_of_int (2 ^ 256 + s))"

fun toLog2 :: "nat \<Rightarrow> nat" where
  "toLog2 x = (if x div 2 = 0 then 0 else Suc (toLog2 (x div 2)))"

declare toLog2.simps [simp del]

lemma u2s_sint: "u2s u = sint u"
proof -
  have "uint u < 2 ^ 256" using unsigned_less [of u] by simp
  then have "take_bit 256 (uint u) = uint u" by (simp add: take_bit_int_eq_self)
  then show ?thesis
    by (simp add: u2s_def sint_uint signed_take_bit_eq_take_bit_minus bit_uint_iff)
qed

lemma s2u_word_of_int: "s2u s = word_of_int s"
  by (simp add: s2u_def)

lemma s2u_u2s: "s2u (u2s u) = u"
  by (simp add: u2s_sint s2u_word_of_int)

lemma toLog2_pow: "0 < x \<Longrightarrow> 2 ^ toLog2 x \<le> x \<and> x < 2 ^ Suc (toLog2 x)"
proof (induction x rule: toLog2.induct)
  case (1 x)
  show ?case
  proof (cases "x div 2 = 0")
    case True
    with 1(2) show ?thesis by (subst (1 2) toLog2.simps) auto
  next
    case False
    with 1 have "2 ^ toLog2 (x div 2) \<le> x div 2" "x div 2 < 2 ^ Suc (toLog2 (x div 2))"
      by simp_all
    with False show ?thesis by (subst (1 2) toLog2.simps) auto
  qed
qed

subsection \<open>Properties\<close>


text \<open>
  The compact big-endian form of a number is read back as the number, and is the shortest
  byte string of at least the requested length that is.
\<close>

theorem compactBigEndian_minimal:
  "fromBigEndian (toCompactBigEndian v mn) = v \<and>
   (fromBigEndian bs = v \<and> mn \<le> length bs \<longrightarrow> length (toCompactBigEndian v mn) \<le> length bs)"
proof -
  have "length (toCompactBigEndian v mn) = max mn (byteCount v)" by (simp add: toCompactBigEndian_def)
  with byteCount_fromBigEndian_le [of bs] fromBigEndian_toCompactBigEndian [of v mn]
  show ?thesis by auto
qed

end
