(* ===== verification/Rlp.thy ===== *)
theory Rlp
  imports Common_Data
begin

section \<open>Reading RLP (libdevcore/RLP.h and RLP.cpp, class RLP)\<close>

text \<open>
  An RLP object refers to bytes (\<open>m_data\<close>) and keeps a cache for indexed access. The members
  that only look at \<open>m_data\<close> are functions of the bytes; the constructor, \<open>operator[]\<close> and the
  iterator work on records. Every throw is a value of \<open>rlp_error\<close>; \<open>OutOfBoundsRead\<close> stands
  for the reads that are undefined behaviour in C++ (a read past the bytes referred to).
  Bytes are compared as numbers. The lemmas show what a successful construction guarantees,
  that indexed access and iteration agree with the list of items of the payload, and that
  counting the items terminates.
\<close>

subsection \<open>Constants, flags and errors\<close>

definition c_rlpMaxLengthBytes :: nat where "c_rlpMaxLengthBytes = 8"
definition c_rlpDataImmLenStart :: nat where "c_rlpDataImmLenStart = 0x80"
definition c_rlpListStart :: nat where "c_rlpListStart = 0xc0"
definition c_rlpDataImmLenCount :: nat where
  "c_rlpDataImmLenCount = c_rlpListStart - c_rlpDataImmLenStart - c_rlpMaxLengthBytes"
definition c_rlpDataIndLenZero :: nat where
  "c_rlpDataIndLenZero = c_rlpDataImmLenStart + c_rlpDataImmLenCount - 1"
definition c_rlpListImmLenCount :: nat where
  "c_rlpListImmLenCount = 256 - c_rlpListStart - c_rlpMaxLengthBytes"
definition c_rlpListIndLenZero :: nat where
  "c_rlpListIndLenZero = c_rlpListStart + c_rlpListImmLenCount - 1"

lemma rlp_consts [simp, rlp_simps]:
  "c_rlpMaxLengthBytes = 8" "c_rlpDataImmLenStart = 128" "c_rlpListStart = 192"
  "c_rlpDataImmLenCount = 56" "c_rlpDataIndLenZero = 183"
  "c_rlpListImmLenCount = 56" "c_rlpListIndLenZero = 247"
  by (simp_all add: c_rlpMaxLengthBytes_def c_rlpDataImmLenStart_def c_rlpListStart_def
      c_rlpDataImmLenCount_def c_rlpDataIndLenZero_def c_rlpListImmLenCount_def
      c_rlpListIndLenZero_def)

datatype rlp_error =
  BadCast | BadRLP | OversizeRLP | UndersizeRLP | RLPException | OutOfBoundsRead

text \<open>The strictness flags are bits of an integer.\<close>

type_synonym strictness = nat

definition AllowNonCanon :: strictness where "AllowNonCanon = 1"
definition ThrowOnFail :: strictness where "ThrowOnFail = 4"
definition FailIfTooBig :: strictness where "FailIfTooBig = 8"
definition FailIfTooSmall :: strictness where "FailIfTooSmall = 16"
definition Strict :: strictness where "Strict = ThrowOnFail OR FailIfTooBig"
definition VeryStrict :: strictness where
  "VeryStrict = ThrowOnFail OR FailIfTooBig OR FailIfTooSmall"
definition LaissezFaire :: strictness where "LaissezFaire = AllowNonCanon"

definition hasFlag :: "strictness \<Rightarrow> strictness \<Rightarrow> bool" where
  "hasFlag s f \<longleftrightarrow> s AND f \<noteq> 0"

lemma hasFlag_simps [simp, rlp_simps]:
  "hasFlag VeryStrict ThrowOnFail" "hasFlag VeryStrict FailIfTooBig"
  "hasFlag VeryStrict FailIfTooSmall" "\<not> hasFlag VeryStrict AllowNonCanon"
  "hasFlag Strict ThrowOnFail" "hasFlag Strict FailIfTooBig"
  "\<not> hasFlag Strict FailIfTooSmall" "\<not> hasFlag Strict AllowNonCanon"
  "hasFlag LaissezFaire AllowNonCanon" "\<not> hasFlag LaissezFaire ThrowOnFail"
  "\<not> hasFlag LaissezFaire FailIfTooBig" "\<not> hasFlag LaissezFaire FailIfTooSmall"
  "hasFlag (ThrowOnFail OR FailIfTooSmall) ThrowOnFail"
  "hasFlag (ThrowOnFail OR FailIfTooSmall) FailIfTooSmall"
  "\<not> hasFlag (ThrowOnFail OR FailIfTooSmall) FailIfTooBig"
  by (simp_all add: hasFlag_def VeryStrict_def Strict_def LaissezFaire_def AllowNonCanon_def
      ThrowOnFail_def FailIfTooBig_def FailIfTooSmall_def)

subsection \<open>Members that look at the bytes\<close>

abbreviation byteAt :: "bytes \<Rightarrow> nat \<Rightarrow> nat" where
  "byteAt d i \<equiv> unat (d ! i)"

text \<open>\<open>vector_ref::cropped\<close>: the empty reference when the range goes out of bounds.\<close>

definition cropped :: "bytes \<Rightarrow> nat \<Rightarrow> nat \<Rightarrow> bytes" where
  "cropped d begin count =
     (if begin \<le> length d \<and> count \<le> length d \<and> begin + count \<le> length d
      then take count (drop begin d) else [])"

definition cropped_from :: "bytes \<Rightarrow> nat \<Rightarrow> bytes" where
  "cropped_from d begin = (if begin \<le> length d then drop begin d else [])"

definition isNull :: "bytes \<Rightarrow> bool" where
  "isNull d \<longleftrightarrow> length d = 0"

definition isEmpty :: "bytes \<Rightarrow> bool" where
  "isEmpty d \<longleftrightarrow> \<not> isNull d \<and> (byteAt d 0 = c_rlpDataImmLenStart \<or> byteAt d 0 = c_rlpListStart)"

definition isData :: "bytes \<Rightarrow> bool" where
  "isData d \<longleftrightarrow> \<not> isNull d \<and> byteAt d 0 < c_rlpListStart"

definition isList :: "bytes \<Rightarrow> bool" where
  "isList d \<longleftrightarrow> \<not> isNull d \<and> byteAt d 0 \<ge> c_rlpListStart"

definition isSingleByte :: "bytes \<Rightarrow> bool" where
  "isSingleByte d \<longleftrightarrow> \<not> isNull d \<and> byteAt d 0 < c_rlpDataImmLenStart"

definition requireGood :: "bytes \<Rightarrow> rlp_error + unit" where
  "requireGood d =
     (if isNull d then Inl BadRLP
      else if byteAt d 0 \<noteq> c_rlpDataImmLenStart + 1 then Inr ()
      else if length d < 2 then Inl BadRLP
      else if byteAt d 1 < c_rlpDataImmLenStart then Inl BadRLP
      else Inr ())"

definition isInt :: "bytes \<Rightarrow> rlp_error + bool" where
  "isInt d =
     (if isNull d then Inr False
      else andThen (requireGood d) (\<lambda>_.
        let n = byteAt d 0 in
        if n < c_rlpDataImmLenStart then Inr (n \<noteq> 0)
        else if n = c_rlpDataImmLenStart then Inr True
        else if n \<le> c_rlpDataIndLenZero
             then if length d \<le> 1 then Inl BadRLP else Inr (byteAt d 1 \<noteq> 0)
        else if n < c_rlpListStart
             then if length d \<le> 1 + n - c_rlpDataIndLenZero then Inl BadRLP
                  else Inr (byteAt d (1 + n - c_rlpDataIndLenZero) \<noteq> 0)
        else Inr False))"

text \<open>
  The two long forms of \<open>length()\<close>: \<open>lengthSize\<close> bytes after the first hold the length,
  which has no leading zero, is at least \<open>least\<close>, and leaves room for the header.
\<close>

definition indirectLength :: "bytes \<Rightarrow> nat \<Rightarrow> nat \<Rightarrow> rlp_error + nat" where
  "indirectLength d indLenZero least =
     (let lengthSize = byteAt d 0 - indLenZero in
      if length d \<le> lengthSize then Inl BadRLP
      else if length d > 1 \<and> byteAt d 1 = 0 then Inl BadRLP
      else if lengthSize > 8 then Inl UndersizeRLP
      else if byteAt d 1 = 0 then Inl BadRLP
      else (let ret = fromBigEndian_w 64 (take lengthSize (drop 1 d)) in
            if ret < least then Inl BadRLP
            else if ret \<ge> 2 ^ 64 - 1 - 0x100 then Inl UndersizeRLP
            else Inr ret))"

definition rlp_length :: "bytes \<Rightarrow> rlp_error + nat" where
  "rlp_length d =
     (if isNull d then Inr 0
      else andThen (requireGood d) (\<lambda>_.
        let n = byteAt d 0 in
        if n < c_rlpDataImmLenStart then Inr 1
        else if n \<le> c_rlpDataIndLenZero then Inr (n - c_rlpDataImmLenStart)
        else if n < c_rlpListStart
             then indirectLength d c_rlpDataIndLenZero
                    (c_rlpListStart - c_rlpDataImmLenStart - c_rlpMaxLengthBytes)
        else if n \<le> c_rlpListIndLenZero then Inr (n - c_rlpListStart)
        else indirectLength d c_rlpListIndLenZero
               (0x100 - c_rlpListStart - c_rlpMaxLengthBytes)))"

definition lengthSize :: "bytes \<Rightarrow> nat" where
  "lengthSize d =
     (if isData d \<and> byteAt d 0 > c_rlpDataIndLenZero then byteAt d 0 - c_rlpDataIndLenZero
      else if isList d \<and> byteAt d 0 > c_rlpListIndLenZero then byteAt d 0 - c_rlpListIndLenZero
      else 0)"

definition payloadOffset :: "bytes \<Rightarrow> nat" where
  "payloadOffset d = (if isSingleByte d then 0 else 1 + lengthSize d)"

definition actualSize :: "bytes \<Rightarrow> rlp_error + nat" where
  "actualSize d =
     (if isNull d then Inr 0
      else if isSingleByte d then Inr 1
      else if isData d \<or> isList d
           then andThen (rlp_length d) (\<lambda>l. Inr (payloadOffset d + l))
      else Inr 0)"

definition payload :: "bytes \<Rightarrow> rlp_error + bytes" where
  "payload d =
     andThen (rlp_length d) (\<lambda>l.
       if l > length d then Inl BadRLP else Inr (cropped d (payloadOffset d) l))"

subsection \<open>Construction\<close>

record rlp =
  m_data :: bytes
  m_lastIndex :: nat
  m_lastEnd :: nat
  m_lastItem :: bytes

text \<open>The cache starts at index \<open>(size_t)-1\<close>.\<close>

definition freshRLP :: "bytes \<Rightarrow> rlp" where
  "freshRLP d = \<lparr>m_data = d, m_lastIndex = 2 ^ 64 - 1, m_lastEnd = 0, m_lastItem = []\<rparr>"

definition checkTooBig :: "bytes \<Rightarrow> strictness \<Rightarrow> rlp_error + bytes" where
  "checkTooBig d s =
     (if hasFlag s FailIfTooBig
      then andThen (actualSize d) (\<lambda>a.
             if a < length d
             then if hasFlag s ThrowOnFail then Inl OversizeRLP else Inr []
             else Inr d)
      else Inr d)"

definition checkTooSmall :: "nat \<Rightarrow> bytes \<Rightarrow> strictness \<Rightarrow> rlp_error + bytes" where
  "checkTooSmall given d s =
     (if hasFlag s FailIfTooSmall
      then andThen (actualSize d) (\<lambda>a.
             if a > given
             then if hasFlag s ThrowOnFail then Inl UndersizeRLP else Inr []
             else Inr d)
      else Inr d)"

definition mkRLP :: "bytes \<Rightarrow> strictness \<Rightarrow> rlp_error + rlp" where
  "mkRLP d s =
     andThen (checkTooBig d s) (\<lambda>m.
     andThen (checkTooSmall (length d) m s) (\<lambda>m'.
     Inr (freshRLP m')))"

definition sizeAsEncoded :: "bytes \<Rightarrow> rlp_error + nat" where
  "sizeAsEncoded d =
     andThen (mkRLP d (ThrowOnFail OR FailIfTooSmall)) (\<lambda>r. actualSize (m_data r))"

subsection \<open>What a size guarantees\<close>

lemma isList_or_isData: "d \<noteq> [] \<Longrightarrow> isData d \<or> isList d"
  by (auto simp: isData_def isList_def isNull_def)

lemma actualSize_Nil [simp]: "actualSize [] = Inr 0"
  by (simp add: actualSize_def isNull_def)

lemma actualSize_pos:
  assumes "actualSize d = Inr a" and "d \<noteq> []"
  shows "0 < a"
proof (cases "isSingleByte d")
  case True
  with assms show ?thesis by (simp add: actualSize_def isNull_def)
next
  case False
  with assms isList_or_isData [OF assms(2)] show ?thesis
    by (auto simp: actualSize_def isNull_def payloadOffset_def andThen_eq_Inr)
qed

lemma checkTooSmall_Inr:
  "checkTooSmall n d (ThrowOnFail OR FailIfTooSmall) = Inr m \<longleftrightarrow>
   m = d \<and> (\<exists>a. actualSize d = Inr a \<and> a \<le> n)"
  by (cases "actualSize d") (auto simp: checkTooSmall_def)

lemma mkRLP_lenient:
  "mkRLP d (ThrowOnFail OR FailIfTooSmall) = Inr r \<longleftrightarrow>
   r = freshRLP d \<and> (\<exists>a. actualSize d = Inr a \<and> a \<le> length d)"
  by (cases "actualSize d") (auto simp: mkRLP_def checkTooBig_def checkTooSmall_def)

lemma m_data_freshRLP [simp]: "m_data (freshRLP d) = d"
  by (simp add: freshRLP_def)

lemma sizeAsEncoded_Inr: "sizeAsEncoded d = Inr a \<longleftrightarrow> actualSize d = Inr a \<and> a \<le> length d"
  by (auto simp: sizeAsEncoded_def andThen_eq_Inr mkRLP_lenient)

lemma sizeAsEncoded_Nil [simp]: "sizeAsEncoded [] = Inr 0"
  by (simp add: sizeAsEncoded_Inr)

lemma sizeAsEncoded_bounds:
  "sizeAsEncoded d = Inr a \<Longrightarrow> a \<le> length d"
  "sizeAsEncoded d = Inr a \<Longrightarrow> d \<noteq> [] \<Longrightarrow> 0 < a"
  using actualSize_pos by (auto simp: sizeAsEncoded_Inr)

lemma mkRLP_VeryStrict:
  "mkRLP d VeryStrict = Inr r \<longleftrightarrow> r = freshRLP d \<and> actualSize d = Inr (length d)"
  by (cases "actualSize d") (auto simp: mkRLP_def checkTooBig_def checkTooSmall_def)

text \<open>A strictly constructed object's payload is the rest of its bytes after the header.\<close>

lemma actualSize_split:
  "actualSize d = Inr a \<Longrightarrow> d \<noteq> [] \<Longrightarrow> \<exists>l. rlp_length d = Inr l \<and> a = payloadOffset d + l"
proof (cases "isSingleByte d")
  case True
  assume a: "actualSize d = Inr a" "d \<noteq> []"
  have "rlp_length d = Inr 1"
    using True by (simp add: rlp_length_def isSingleByte_def requireGood_def)
  with a True show ?thesis by (simp add: actualSize_def isNull_def payloadOffset_def)
next
  case False
  assume a: "actualSize d = Inr a" "d \<noteq> []"
  with isList_or_isData [of d] False show ?thesis
    by (auto simp: actualSize_def isNull_def andThen_eq_Inr)
qed

lemma payload_exact:
  assumes "actualSize d = Inr (length d)"
  shows "payload d = Inr (drop (payloadOffset d) d)"
proof (cases "d = []")
  case True
  then show ?thesis
    by (simp add: payload_def rlp_length_def isNull_def cropped_def payloadOffset_def isSingleByte_def)
next
  case False
  from actualSize_split [OF assms False] obtain l where
    l: "rlp_length d = Inr l" "length d = payloadOffset d + l" by blast
  then show ?thesis by (simp add: payload_def cropped_def)
qed

lemma payload_in_bounds:
  assumes "actualSize d = Inr a" and "a \<le> length d" and "d \<noteq> []"
  shows "payload d = Inr (take (a - payloadOffset d) (drop (payloadOffset d) d)) \<and> payloadOffset d \<le> a"
proof -
  from actualSize_split [OF assms(1,3)] obtain l where
    l: "rlp_length d = Inr l" "a = payloadOffset d + l" by blast
  with assms(2) show ?thesis by (simp add: payload_def cropped_def)
qed

lemma rlp_length_payload_size:
  assumes "actualSize d = Inr a" and "a \<le> length d"
  shows "\<exists>p. payload d = Inr p \<and> rlp_length d = Inr (length p)"
proof (cases "d = []")
  case True
  then show ?thesis
    by (simp add: payload_def rlp_length_def isNull_def cropped_def payloadOffset_def isSingleByte_def)
next
  case False
  from actualSize_split [OF assms(1) False] obtain l where
    l: "rlp_length d = Inr l" "a = payloadOffset d + l" by blast
  with assms(2) show ?thesis by (simp add: payload_def cropped_def)
qed

subsection \<open>Counting and listing the items of a list\<close>

lemma cropped_from_less:
  "sizeAsEncoded d = Inr n \<Longrightarrow> d \<noteq> [] \<Longrightarrow> length (cropped_from d n) < length d"
  using sizeAsEncoded_bounds [of d n] by (simp add: cropped_from_def)

text \<open>The loop of \<open>items()\<close>.\<close>

function countItems :: "bytes \<Rightarrow> rlp_error + nat" where
  "countItems d =
     (if d = [] then Inr 0
      else andThen (sizeAsEncoded d) (\<lambda>n.
           andThen (countItems (cropped_from d n)) (\<lambda>i. Inr (Suc i))))"
  by pat_completeness auto
termination
  by (relation "measure length") (auto simp: cropped_from_less)

declare countItems.simps [simp del]

definition items :: "bytes \<Rightarrow> rlp_error + nat" where
  "items d = (if isList d then andThen (payload d) countItems else Inr 0)"

definition itemCount :: "bytes \<Rightarrow> rlp_error + nat" where
  "itemCount d = (if isList d then items d else Inr 0)"

definition itemCountStrict :: "bytes \<Rightarrow> rlp_error + nat" where
  "itemCountStrict d = (if \<not> isList d then Inl BadCast else items d)"

definition rlp_size :: "bytes \<Rightarrow> rlp_error + nat" where
  "rlp_size d = (if isData d then rlp_length d else Inr 0)"

definition sizeStrict :: "bytes \<Rightarrow> rlp_error + nat" where
  "sizeStrict d = (if \<not> isData d then Inl BadCast else rlp_length d)"

text \<open>Specification: the items of a payload, each with exactly the bytes it encodes to.\<close>

function splitItems :: "bytes \<Rightarrow> rlp_error + bytes list" where
  "splitItems d =
     (if d = [] then Inr []
      else andThen (sizeAsEncoded d) (\<lambda>n.
           andThen (splitItems (drop n d)) (\<lambda>xs. Inr (take n d # xs))))"
  by pat_completeness auto
termination
proof (relation "measure length")
  fix d :: bytes and n
  assume "d \<noteq> []" and "sizeAsEncoded d = Inr n"
  then show "(drop n d, d) \<in> measure length"
    using sizeAsEncoded_bounds [of d n] by auto
qed auto

declare splitItems.simps [simp del]

lemma splitItems_Nil [simp]: "splitItems [] = Inr []"
  by (simp add: splitItems.simps)

lemma countItems_splitItems:
  "countItems d = andThen (splitItems d) (\<lambda>xs. Inr (length xs))"
proof (induction d rule: countItems.induct)
  case (1 d)
  show ?case
  proof (cases "d = []")
    case True
    then show ?thesis by (simp add: countItems.simps)
  next
    case False
    show ?thesis
    proof (cases "sizeAsEncoded d")
      case (Inl e)
      with False show ?thesis by (subst countItems.simps, subst splitItems.simps) simp
    next
      case (Inr n)
      then have "cropped_from d n = drop n d"
        using sizeAsEncoded_bounds(1) [OF Inr] by (simp add: cropped_from_def)
      with 1 [OF False Inr] False Inr show ?thesis
        by (subst countItems.simps, subst splitItems.simps) (simp add: andThen_assoc)
    qed
  qed
qed

lemma splitItems_Cons:
  assumes "splitItems d = Inr (x # xs)"
  shows "d \<noteq> []" and "sizeAsEncoded d = Inr (length x)" and "x = take (length x) d"
    and "splitItems (drop (length x) d) = Inr xs" and "x \<noteq> []"
proof -
  from assms show ne: "d \<noteq> []" by auto
  from assms ne obtain n where n: "sizeAsEncoded d = Inr n" and x: "x = take n d"
    and xs: "splitItems (drop n d) = Inr xs"
    by (subst (asm) splitItems.simps) (auto simp: andThen_eq_Inr)
  have "length x = n" using sizeAsEncoded_bounds(1) [OF n] x by simp
  with n x xs sizeAsEncoded_bounds(2) [OF n ne]
  show "sizeAsEncoded d = Inr (length x)" "x = take (length x) d"
    "splitItems (drop (length x) d) = Inr xs" "x \<noteq> []"
    by auto
qed

lemma splitItems_eq_Nil: "splitItems d = Inr [] \<longleftrightarrow> d = []"
  by (subst splitItems.simps) (auto simp: andThen_eq_Inr)

lemma splitItems_concat: "splitItems d = Inr xs \<Longrightarrow> concat xs = d"
proof (induction xs arbitrary: d)
  case Nil
  then show ?case by (simp add: splitItems_eq_Nil)
next
  case (Cons x xs)
  note c = splitItems_Cons [OF Cons.prems]
  have "concat xs = drop (length x) d" by (rule Cons.IH [OF c(4)])
  with c(3) show ?case by (metis append_take_drop_id concat.simps(2))
qed

subsection \<open>Indexed access\<close>

text \<open>
  \<open>operator[]\<close> moves a cached position forward, or restarts it at the first item. The result
  is a pair of the value (or exception) and the object with its updated cache, since an
  exception leaves what was assigned before it.
\<close>

definition rlp_restart :: "rlp \<Rightarrow> (rlp_error + unit) \<times> rlp" where
  "rlp_restart r =
     (case andThen (payload (m_data r)) sizeAsEncoded of
        Inl e \<Rightarrow> (Inl e, r)
      | Inr n \<Rightarrow>
          (case payload (m_data r) of
             Inl e \<Rightarrow> (Inl e, r\<lparr>m_lastEnd := n\<rparr>)
           | Inr p \<Rightarrow> (Inr (), r\<lparr>m_lastEnd := n, m_lastItem := cropped p 0 n, m_lastIndex := 0\<rparr>)))"

function rlp_advance :: "rlp \<Rightarrow> nat \<Rightarrow> (rlp_error + unit) \<times> rlp" where
  "rlp_advance r i =
     (if m_lastIndex r < i \<and> m_lastItem r \<noteq> []
      then (case payload (m_data r) of
              Inl e \<Rightarrow> (Inl e, r)
            | Inr p \<Rightarrow>
                (let rest = cropped_from p (m_lastEnd r) in
                 case sizeAsEncoded rest of
                   Inl e \<Rightarrow> (Inl e, r\<lparr>m_lastItem := rest\<rparr>)
                 | Inr n \<Rightarrow>
                     (let item = cropped rest 0 n in
                      rlp_advance (r\<lparr>m_lastItem := item, m_lastEnd := m_lastEnd r + length item,
                                     m_lastIndex := Suc (m_lastIndex r)\<rparr>) i)))
      else (Inr (), r))"
  by pat_completeness auto
termination
  by (relation "measure (\<lambda>(r, i). i - m_lastIndex r)") auto

declare rlp_advance.simps [simp del]

definition rlp_at :: "rlp \<Rightarrow> nat \<Rightarrow> (rlp_error + rlp) \<times> rlp" where
  "rlp_at r i =
     (case (if i < m_lastIndex r then rlp_restart r else (Inr (), r)) of
        (Inl e, r1) \<Rightarrow> (Inl e, r1)
      | (Inr _, r1) \<Rightarrow>
          (case rlp_advance r1 i of
             (Inl e, r2) \<Rightarrow> (Inl e, r2)
           | (Inr _, r2) \<Rightarrow> (mkRLP (m_lastItem r2) (ThrowOnFail OR FailIfTooSmall), r2)))"

text \<open>
  The cache holds a position in the list of items: the item at \<open>m_lastIndex\<close>, and the offset
  at which it ends; past the end the item is empty.
\<close>

definition cache_at :: "bytes list \<Rightarrow> rlp \<Rightarrow> bool" where
  "cache_at xs r \<longleftrightarrow>
     (let k = m_lastIndex r in
      m_lastItem r = (if k < length xs then xs ! k else []) \<and>
      m_lastEnd r = length (concat (take (Suc k) xs)))"

definition cache_ok :: "bytes list \<Rightarrow> rlp \<Rightarrow> bool" where
  "cache_ok xs r \<longleftrightarrow> m_lastIndex r = 2 ^ 64 - 1 \<or> cache_at xs r"

lemma cache_ok_fresh: "cache_ok xs (freshRLP d)"
  by (simp add: cache_ok_def freshRLP_def)

lemma splitItems_drop:
  "splitItems p = Inr xs \<Longrightarrow> splitItems (drop (length (concat (take k xs))) p) = Inr (drop k xs)"
proof (induction xs arbitrary: p k)
  case Nil
  then show ?case by (simp add: splitItems_eq_Nil)
next
  case (Cons x xs)
  show ?case
  proof (cases k)
    case 0
    with Cons.prems show ?thesis by simp
  next
    case (Suc j)
    from Cons.IH [OF splitItems_Cons(4) [OF Cons.prems], of j] show ?thesis
      by (simp add: Suc add.commute)
  qed
qed

lemma splitItems_item_nonempty: "splitItems p = Inr xs \<Longrightarrow> x \<in> set xs \<Longrightarrow> x \<noteq> []"
proof (induction xs arbitrary: p)
  case (Cons y ys)
  with splitItems_Cons(4,5) [OF Cons.prems(1)] show ?case by auto
qed simp

text \<open>
  The length of an item is read from its own bytes: two byte strings that agree on the bytes
  of the item give the same length, whatever follows.
\<close>

lemma indirectLength_agree:
  assumes l: "indirectLength d z least = Inr l"
    and ls: "k = byteAt d 0 - z" "0 < k"
    and len: "k < length e"
    and agree: "take (Suc k) e = take (Suc k) d"
  shows "indirectLength e z least = Inr l"
proof -
  from l ls have lend: "k < length d" by (auto simp: indirectLength_def Let_def split: if_splits)
  have nth: "e ! i = d ! i" if "i \<le> k" for i
  proof -
    have "take (Suc k) e ! i = take (Suc k) d ! i" using agree by simp
    with that show ?thesis by simp
  qed
  have "take k (drop 1 e) = drop 1 (take (Suc k) e)" by (simp add: drop_take)
  also have "\<dots> = take k (drop 1 d)" using agree by (simp add: drop_take)
  finally have tk: "take k (drop 1 e) = take k (drop 1 d)" .
  have e0: "e ! 0 = d ! 0" and e1: "e ! 1 = d ! 1" using nth ls by simp_all
  have "1 < length d" "1 < length e" using ls len lend by simp_all
  with l lend len tk show ?thesis
    unfolding indirectLength_def Let_def e0 e1 ls(1) [symmetric]
    by (simp add: split: if_splits)
qed

lemma indirectLength_least: "indirectLength d z least = Inr l \<Longrightarrow> least \<le> l"
  by (auto simp: indirectLength_def Let_def split: if_splits)

lemma indirectLength_bound: "indirectLength d z least = Inr l \<Longrightarrow> l < 2 ^ 64 - 257"
  by (auto simp: indirectLength_def Let_def split: if_splits)

lemma rlp_length_agree:
  assumes l: "rlp_length d = Inr l" and d: "d \<noteq> []"
    and m: "m = payloadOffset d + l" "m \<le> length e"
    and agree: "take m e = take m d"
  shows "rlp_length e = Inr l" and "payloadOffset e = payloadOffset d"
proof -
  let ?n = "byteAt d 0"
  have nd: "\<not> isNull d" using d by (simp add: isNull_def)
  have m0: "0 < m"
    using l m(1) nd by (cases "isSingleByte d")
      (auto simp: rlp_length_def payloadOffset_def isSingleByte_def requireGood_def)
  have ne: "\<not> isNull e" "e \<noteq> []" using m(2) m0 by (auto simp: isNull_def)
  have lend: "m \<le> length d"
  proof (rule ccontr)
    assume "\<not> m \<le> length d"
    then have "length (take m d) < m" by simp
    moreover have "length (take m e) = m" using m(2) by simp
    ultimately show False using agree by simp
  qed
  have nth: "e ! i = d ! i" if "i < m" for i
    using that agree by (metis nth_take)
  have e0: "byteAt e 0 = ?n" using nth [OF m0] by simp
  have single: "isSingleByte e = isSingleByte d" and data: "isData e = isData d"
    and lst: "isList e = isList d"
    using nd ne e0 by (simp_all add: isSingleByte_def isData_def isList_def)
  show off: "payloadOffset e = payloadOffset d"
    using single data lst e0 by (simp add: payloadOffset_def lengthSize_def)
  consider (single) "?n < 128" | (empty) "?n = 128" | (one) "?n = 129"
    | (short) "129 < ?n" "?n \<le> 183" | (long) "183 < ?n" "?n < 192"
    | (lshort) "192 \<le> ?n" "?n \<le> 247" | (llong) "247 < ?n" by linarith
  then show "rlp_length e = Inr l"
  proof cases
    case single
    with l nd ne e0 show ?thesis by (simp add: rlp_length_def requireGood_def)
  next
    case empty
    with l nd ne e0 show ?thesis by (simp add: rlp_length_def requireGood_def)
  next
    case one
    have "l = 1" using l nd one by (auto simp: rlp_length_def andThen_eq_Inr)
    moreover have "payloadOffset d = 1"
      using nd one by (simp add: payloadOffset_def isSingleByte_def lengthSize_def isData_def isList_def)
    ultimately have "m = 2" using m(1) by simp
    with nth [of 1] have "e ! 1 = d ! 1" and "2 \<le> length e" and "2 \<le> length d"
      using m(2) lend by simp_all
    with l nd ne e0 one show ?thesis
      by (auto simp: rlp_length_def requireGood_def andThen_eq_Inr split: if_splits)
  next
    case short
    with l nd ne e0 show ?thesis by (simp add: rlp_length_def requireGood_def)
  next
    case long
    have off: "payloadOffset d = Suc (?n - 183)"
      using nd long by (simp add: payloadOffset_def isSingleByte_def lengthSize_def isData_def)
    have il: "indirectLength d 183 56 = Inr l"
      using l nd long by (simp add: rlp_length_def requireGood_def)
    have "indirectLength e 183 56 = Inr l"
    proof (rule indirectLength_agree [OF il refl])
      show "0 < ?n - 183" using long by simp
      show "?n - 183 < length e" using m off by simp
      have "take (Suc (?n - 183)) (take m e) = take (Suc (?n - 183)) (take m d)"
        by (simp only: agree)
      then show "take (Suc (?n - 183)) e = take (Suc (?n - 183)) d"
        using m(1) off by (simp add: min_absorb1)
    qed
    with nd ne e0 long show ?thesis by (simp add: rlp_length_def requireGood_def)
  next
    case lshort
    with l nd ne e0 show ?thesis by (simp add: rlp_length_def requireGood_def)
  next
    case llong
    have off: "payloadOffset d = Suc (?n - 247)"
      using nd llong by (simp add: payloadOffset_def isSingleByte_def lengthSize_def isData_def isList_def)
    have il: "indirectLength d 247 56 = Inr l"
      using l nd llong by (simp add: rlp_length_def requireGood_def)
    have "indirectLength e 247 56 = Inr l"
    proof (rule indirectLength_agree [OF il refl])
      show "0 < ?n - 247" using llong by simp
      show "?n - 247 < length e" using m off by simp
      have "take (Suc (?n - 247)) (take m e) = take (Suc (?n - 247)) (take m d)"
        by (simp only: agree)
      then show "take (Suc (?n - 247)) e = take (Suc (?n - 247)) d"
        using m(1) off by (simp add: min_absorb1)
    qed
    with nd ne e0 llong show ?thesis by (simp add: rlp_length_def requireGood_def)
  qed
qed

lemma actualSize_agree:
  assumes a: "actualSize d = Inr a" and d: "d \<noteq> []" and len: "a \<le> length e"
    and agree: "take a e = take a d"
  shows "actualSize e = Inr a"
proof -
  from actualSize_split [OF a d] obtain l where
    l: "rlp_length d = Inr l" "a = payloadOffset d + l" by blast
  note e = rlp_length_agree [OF l(1) d l(2) len agree]
  have "0 < a" using actualSize_pos [OF a d] .
  with len have ne: "e \<noteq> []" by auto
  have "isSingleByte e \<Longrightarrow> a = 1"
  proof -
    assume s: "isSingleByte e"
    then have "rlp_length e = Inr 1" by (simp add: rlp_length_def isSingleByte_def requireGood_def)
    moreover have "payloadOffset e = 0" using s by (simp add: payloadOffset_def)
    ultimately show "a = 1" using e l(2) by simp
  qed
  with e l ne isList_or_isData [OF ne] show ?thesis
    by (auto simp: actualSize_def isNull_def)
qed

lemma actualSize_take:
  assumes "actualSize d = Inr a" and "a \<le> length d"
  shows "actualSize (take a d) = Inr a"
proof (cases "d = []")
  case True
  with assms show ?thesis by simp
next
  case False
  with assms(2) show ?thesis by (rule_tac actualSize_agree [OF assms(1)]) simp_all
qed

lemma actualSize_append:
  assumes "actualSize d = Inr a" and "a \<le> length d" and "d \<noteq> []"
  shows "actualSize (d @ z) = Inr a"
  using assms(2,3) by (rule_tac actualSize_agree [OF assms(1)]) simp_all

lemma splitItems_item:
  assumes "splitItems p = Inr xs" and "x \<in> set xs"
  shows "actualSize x = Inr (length x)"
  using assms
proof (induction xs arbitrary: p)
  case Nil
  then show ?case by simp
next
  case (Cons y ys)
  note c = splitItems_Cons [OF Cons.prems(1)]
  show ?case
  proof (cases "x = y")
    case True
    have "actualSize p = Inr (length y)" "length y \<le> length p"
      using c(2) by (auto simp: sizeAsEncoded_Inr)
    then have "actualSize (take (length y) p) = Inr (length y)" by (rule actualSize_take)
    then show ?thesis unfolding True using c(3) by simp
  next
    case False
    with Cons.prems(2) have "x \<in> set ys" by simp
    then show ?thesis by (rule Cons.IH [OF c(4)])
  qed
qed

lemma mkRLP_item:
  assumes "splitItems p = Inr xs" and "x \<in> set xs"
  shows "mkRLP x (ThrowOnFail OR FailIfTooSmall) = Inr (freshRLP x)"
    and "mkRLP x VeryStrict = Inr (freshRLP x)"
  using splitItems_item [OF assms] by (auto simp: mkRLP_lenient mkRLP_VeryStrict)

lemma rlp_restart_ok:
  assumes p: "payload (m_data r) = Inr p" and xs: "splitItems p = Inr xs"
  shows "\<exists>r'. rlp_restart r = (Inr (), r') \<and> cache_at xs r' \<and> m_lastIndex r' = 0 \<and> m_data r' = m_data r"
proof (cases xs)
  case Nil
  with xs have "p = []" by (simp add: splitItems_eq_Nil)
  with p Nil show ?thesis by (simp add: rlp_restart_def cache_at_def cropped_def)
next
  case (Cons x ys)
  note c = splitItems_Cons [OF xs [unfolded Cons]]
  have "length x \<le> length p" using sizeAsEncoded_bounds(1) [OF c(2)] .
  with p c(2,3) Cons show ?thesis by (simp add: rlp_restart_def cache_at_def cropped_def)
qed

lemma concat_take_Suc:
  "k < length xs \<Longrightarrow> length (concat (take (Suc k) xs)) = length (concat (take k xs)) + length (xs ! k)"
  by (simp add: take_Suc_conv_app_nth)

lemma length_concat_take_le: "length (concat (take k xs)) \<le> length (concat xs)"
  by (metis append_take_drop_id concat_append le_add1 length_append)

lemma rlp_advance_ok:
  assumes "payload (m_data r) = Inr p" and "splitItems p = Inr xs"
    and "cache_at xs r" and "m_lastIndex r \<le> i"
  shows "\<exists>r'. rlp_advance r i = (Inr (), r') \<and> cache_at xs r' \<and> m_data r' = m_data r \<and>
              m_lastIndex r' \<le> i \<and> m_lastItem r' = (if i < length xs then xs ! i else [])"
  using assms
proof (induction r i rule: rlp_advance.induct)
  case (1 r i)
  note p = 1(2) and xs = 1(3) and cache = 1(4) and le = 1(5)
  let ?k = "m_lastIndex r"
  have item: "m_lastItem r = (if ?k < length xs then xs ! ?k else [])"
    and end': "m_lastEnd r = length (concat (take (Suc ?k) xs))"
    using cache by (simp_all add: cache_at_def Let_def)
  show ?case
  proof (cases "?k < i \<and> m_lastItem r \<noteq> []")
    case False
    then have "rlp_advance r i = (Inr (), r)" by (subst rlp_advance.simps) auto
    moreover have "m_lastItem r = (if i < length xs then xs ! i else [])"
    proof (cases "?k = i")
      case True
      with item show ?thesis by simp
    next
      case False
      with \<open>\<not> (?k < i \<and> m_lastItem r \<noteq> [])\<close> le have "m_lastItem r = []" by simp
      then have "\<not> ?k < length xs" using item splitItems_item_nonempty [OF xs] by (metis nth_mem)
      with le \<open>m_lastItem r = []\<close> show ?thesis by simp
    qed
    ultimately show ?thesis using cache le by simp
  next
    case True
    let ?rest = "drop (m_lastEnd r) p"
    have kx: "?k < length xs" using True item by (auto split: if_splits)
    have "m_lastEnd r \<le> length p"
      using length_concat_take_le [of "Suc ?k" xs] splitItems_concat [OF xs] end' by simp
    then have cf: "cropped_from p (m_lastEnd r) = ?rest" by (simp add: cropped_from_def)
    have rest: "splitItems ?rest = Inr (drop (Suc ?k) xs)"
      unfolding end' by (rule splitItems_drop [OF xs])
    obtain n where n: "sizeAsEncoded ?rest = Inr n"
      and itm: "cropped ?rest 0 n = (if Suc ?k < length xs then xs ! Suc ?k else [])"
    proof (cases "Suc ?k < length xs")
      case True
      then have "drop (Suc ?k) xs = xs ! Suc ?k # drop (Suc (Suc ?k)) xs"
        by (simp add: Cons_nth_drop_Suc)
      note c = splitItems_Cons [OF rest [unfolded this]]
      have "length (xs ! Suc ?k) \<le> length ?rest" by (rule sizeAsEncoded_bounds(1) [OF c(2)])
      with c(3) have "cropped ?rest 0 (length (xs ! Suc ?k)) = xs ! Suc ?k"
        by (simp add: cropped_def)
      with True c(2) show ?thesis by (intro that) auto
    next
      case False
      with rest have "?rest = []" by (simp add: splitItems_eq_Nil)
      with False show ?thesis by (intro that [of 0]) (simp_all add: cropped_def)
    qed
    let ?item = "cropped ?rest 0 n"
    let ?r' = "r\<lparr>m_lastItem := ?item, m_lastEnd := m_lastEnd r + length ?item, m_lastIndex := Suc ?k\<rparr>"
    have step: "rlp_advance r i = rlp_advance ?r' i"
      using True p n cf by (subst rlp_advance.simps) (simp add: Let_def)
    have "length (concat (take (Suc (Suc ?k)) xs)) = m_lastEnd r + length ?item"
    proof (cases "Suc ?k < length xs")
      case True
      then show ?thesis using concat_take_Suc [OF True] itm end' by simp
    next
      case False
      then show ?thesis using itm end' by simp
    qed
    then have cache': "cache_at xs ?r'" using itm by (simp add: cache_at_def Let_def)
    have "\<exists>r'. rlp_advance ?r' i = (Inr (), r') \<and> cache_at xs r' \<and> m_data r' = m_data ?r' \<and>
              m_lastIndex r' \<le> i \<and> m_lastItem r' = (if i < length xs then xs ! i else [])"
      using 1(1) [OF True p refl [of "cropped_from p (m_lastEnd r)"] _ refl] n cf p xs cache' True
      by simp
    with step show ?thesis by simp
  qed
qed

text \<open>
  Indexed access returns the item at the index, or the null object past the end, for any
  order of accesses: the cache stays a position in the same list.
\<close>

lemma rlp_at_items:
  assumes p: "payload (m_data r) = Inr p" and xs: "splitItems p = Inr xs"
    and cache: "cache_ok xs r" and i: "i < 2 ^ 64 - 1"
  shows "\<exists>r'. rlp_at r i = (Inr (freshRLP (if i < length xs then xs ! i else [])), r') \<and>
              cache_ok xs r' \<and> m_data r' = m_data r"
proof -
  obtain r1 where r1: "(if i < m_lastIndex r then rlp_restart r else (Inr (), r)) = (Inr (), r1)"
    and c1: "cache_at xs r1" "m_lastIndex r1 \<le> i" "m_data r1 = m_data r"
  proof (cases "i < m_lastIndex r")
    case True
    with rlp_restart_ok [OF p xs] show ?thesis by (auto intro: that)
  next
    case False
    with i cache have "cache_at xs r" by (auto simp: cache_ok_def)
    with False show ?thesis by (intro that) auto
  qed
  have p1: "payload (m_data r1) = Inr p" using p c1 by simp
  obtain r2 where r2: "rlp_advance r1 i = (Inr (), r2)" "cache_at xs r2" "m_data r2 = m_data r1"
    "m_lastItem r2 = (if i < length xs then xs ! i else [])"
    using rlp_advance_ok [OF p1 xs c1(1,2)] by blast
  have "mkRLP (m_lastItem r2) (ThrowOnFail OR FailIfTooSmall) = Inr (freshRLP (m_lastItem r2))"
    using mkRLP_item(1) [OF xs] r2(4) by (auto simp: mkRLP_lenient)
  with r1 r2 c1 show ?thesis by (simp add: rlp_at_def cache_ok_def)
qed

subsection \<open>Iteration\<close>

text \<open>
  An iterator is a position in memory: the current item, the \<open>m_remaining\<close> bytes that follow
  it (\<open>it_rest\<close>), and the bytes of the object behind its payload (\<open>it_tail\<close>), which decide
  whether the position can reach \<open>end()\<close>, the end of the object's bytes. \<open>it_null\<close> is the null
  reference that \<open>cropped\<close> gives for a payload that goes past the bytes.
\<close>

record rlp_iter =
  it_current :: bytes
  it_rest :: bytes
  it_tail :: bytes
  it_null :: bool

definition beginIter :: "bytes \<Rightarrow> rlp_error + rlp_iter" where
  "beginIter d =
     (if isList d
      then andThen (payload d) (\<lambda>pl.
           andThen (sizeAsEncoded pl) (\<lambda>n.
           andThen (rlp_length d) (\<lambda>l.
           Inr \<lparr>it_current = cropped pl 0 n, it_rest = drop (length (cropped pl 0 n)) pl,
                it_tail = drop (payloadOffset d + l) d,
                it_null = (payloadOffset d + l > length d)\<rparr>)))
      else Inr \<lparr>it_current = [], it_rest = [], it_tail = [], it_null = False\<rparr>)"

definition atEnd :: "rlp_iter \<Rightarrow> bool" where
  "atEnd it \<longleftrightarrow> it_current it = [] \<and> it_rest it = [] \<and> it_tail it = [] \<and> \<not> it_null it"

definition nextIter :: "rlp_iter \<Rightarrow> rlp_error + rlp_iter" where
  "nextIter it =
     (if it_rest it \<noteq> []
      then andThen (sizeAsEncoded (it_rest it)) (\<lambda>n.
           (let c = cropped (it_rest it) 0 n in
            Inr (it\<lparr>it_current := c, it_rest := drop (length c) (it_rest it)\<rparr>)))
      else Inr (it\<lparr>it_current := []\<rparr>))"

text \<open>
  \<open>for (auto i: rlp)\<close>, collecting the items. \<open>None\<close> is "still running" when the fuel, the
  number of iterations looked at, is used up.
\<close>

fun iterate :: "nat \<Rightarrow> rlp_iter \<Rightarrow> (rlp_error + rlp list) option" where
  "iterate 0 it = None"
| "iterate (Suc n) it =
     (if atEnd it then Some (Inr [])
      else case mkRLP (it_current it) VeryStrict of
             Inl e \<Rightarrow> Some (Inl e)
           | Inr r \<Rightarrow>
               (case nextIter it of
                  Inl e \<Rightarrow> Some (Inl e)
                | Inr it' \<Rightarrow> map_option (\<lambda>res. andThen res (\<lambda>rs. Inr (r # rs))) (iterate n it')))"

definition rangeFor :: "nat \<Rightarrow> bytes \<Rightarrow> (rlp_error + rlp list) option" where
  "rangeFor n d = (case beginIter d of Inl e \<Rightarrow> Some (Inl e) | Inr it \<Rightarrow> iterate n it)"

lemma iterate_items:
  assumes "splitItems (it_current it @ it_rest it) = Inr xs" and "it_tail it = []" and "\<not> it_null it"
    and "it_current it = [] \<longrightarrow> it_rest it = []"
    and "xs \<noteq> [] \<longrightarrow> it_current it = hd xs"
    and "length xs < n"
  shows "iterate n it = Some (Inr (map freshRLP xs))"
  using assms
proof (induction n arbitrary: it xs)
  case 0
  then show ?case by simp
next
  case (Suc n)
  show ?case
  proof (cases xs)
    case Nil
    with Suc.prems(1) have "it_current it @ it_rest it = []" by (simp add: splitItems_eq_Nil)
    with Suc.prems Nil show ?thesis by (simp add: atEnd_def)
  next
    case (Cons x ys)
    note c = splitItems_Cons [OF Suc.prems(1) [unfolded Cons]]
    have cur: "it_current it = x" using Suc.prems(5) Cons by simp
    have rest: "splitItems (it_rest it) = Inr ys" using c(4) cur by simp
    have mk: "mkRLP x VeryStrict = Inr (freshRLP x)"
      by (rule mkRLP_item(2) [OF Suc.prems(1)]) (simp add: Cons)
    obtain it' where it': "nextIter it = Inr it'" "it_tail it' = []" "\<not> it_null it'"
      "splitItems (it_current it' @ it_rest it') = Inr ys" "it_current it' = [] \<longrightarrow> it_rest it' = []"
      "ys \<noteq> [] \<longrightarrow> it_current it' = hd ys"
    proof (cases ys)
      case Nil
      with rest have "it_rest it = []" by (simp add: splitItems_eq_Nil)
      with Nil Suc.prems(2,3) show ?thesis
        by (intro that [of "it\<lparr>it_current := []\<rparr>"]) (simp_all add: nextIter_def)
    next
      case (Cons y zs)
      note d = splitItems_Cons [OF rest [unfolded Cons]]
      have "length y \<le> length (it_rest it)" by (rule sizeAsEncoded_bounds(1) [OF d(2)])
      then have crop: "cropped (it_rest it) 0 (length y) = y" using d(3) by (simp add: cropped_def)
      have "y @ drop (length y) (it_rest it) = it_rest it" by (metis append_take_drop_id d(3))
      with crop d Cons rest Suc.prems(2,3) show ?thesis
        by (intro that [of "it\<lparr>it_current := y, it_rest := drop (length y) (it_rest it)\<rparr>"])
          (simp_all add: nextIter_def Let_def)
    qed
    have "iterate n it' = Some (Inr (map freshRLP ys))"
      using Suc.prems(6) Cons it' by (intro Suc.IH) simp_all
    moreover have "\<not> atEnd it" using c(5) cur by (simp add: atEnd_def)
    ultimately show ?thesis using cur mk it'(1) Cons by simp
  qed
qed

lemma length_items_le: "splitItems p = Inr xs \<Longrightarrow> length xs \<le> length p"
proof (induction xs arbitrary: p)
  case Nil
  then show ?case by simp
next
  case (Cons x xs)
  note c = splitItems_Cons [OF Cons.prems]
  have "length xs \<le> length (drop (length x) p)" by (rule Cons.IH [OF c(4)])
  moreover have "1 \<le> length x" using c(5) by (cases x) simp_all
  moreover have "length x \<le> length p" by (rule sizeAsEncoded_bounds(1) [OF c(2)])
  ultimately show ?case unfolding length_drop list.size by linarith
qed

lemma beginIter_items:
  assumes list: "isList d" and size: "actualSize d = Inr a" "a \<le> length d"
    and p: "payload d = Inr p" and xs: "splitItems p = Inr xs"
  shows "\<exists>it. beginIter d = Inr it \<and> it_current it @ it_rest it = p \<and> it_tail it = drop a d \<and>
              \<not> it_null it \<and> it_current it = (if xs = [] then [] else hd xs) \<and>
              (it_current it = [] \<longrightarrow> it_rest it = [])"
proof -
  have "d \<noteq> []" using list by (auto simp: isList_def isNull_def)
  from actualSize_split [OF size(1) this] obtain l where
    l: "rlp_length d = Inr l" "a = payloadOffset d + l" by blast
  show ?thesis
  proof (cases xs)
    case Nil
    with xs have "p = []" by (simp add: splitItems_eq_Nil)
    with list size p l Nil show ?thesis by (simp add: beginIter_def cropped_def)
  next
    case (Cons x ys)
    note c = splitItems_Cons [OF xs [unfolded Cons]]
    have "length x \<le> length p" by (rule sizeAsEncoded_bounds(1) [OF c(2)])
    then have crop: "cropped p 0 (length x) = x" using c(3) by (simp add: cropped_def)
    have "x @ drop (length x) p = p" by (metis append_take_drop_id c(3))
    with list size p l Cons c(2,5) crop show ?thesis by (simp add: beginIter_def)
  qed
qed

text \<open>
  Iterating a list that was constructed strictly visits exactly the items, and stops.
\<close>

lemma rangeFor_items:
  assumes list: "isList d" and size: "actualSize d = Inr (length d)"
    and p: "payload d = Inr p" and xs: "splitItems p = Inr xs"
    and fuel: "length d \<le> n"
  shows "rangeFor n d = Some (Inr (map freshRLP xs))"
proof -
  from beginIter_items [OF list size _ p xs] obtain it where
    it: "beginIter d = Inr it" "it_current it @ it_rest it = p" "it_tail it = []" "\<not> it_null it"
      "it_current it = (if xs = [] then [] else hd xs)" "it_current it = [] \<longrightarrow> it_rest it = []"
    by auto
  have "d \<noteq> []" using list by (auto simp: isList_def isNull_def)
  have "length xs \<le> length p" by (rule length_items_le [OF xs])
  moreover have "length p < length d"
  proof -
    have "0 < payloadOffset d" using list by (auto simp: payloadOffset_def isSingleByte_def isList_def)
    moreover have "p = drop (payloadOffset d) d" using payload_exact [OF size] p by simp
    moreover have "0 < length d" using \<open>d \<noteq> []\<close> by simp
    ultimately show ?thesis by simp
  qed
  ultimately have "length xs < n" using fuel by linarith
  with it xs have "iterate n it = Some (Inr (map freshRLP xs))"
    by (intro iterate_items) auto
  with it(1) show ?thesis by (simp add: rangeFor_def)
qed

text \<open>
  With bytes left over behind the list, which the strictness without \<open>FailIfTooBig\<close> accepts,
  the iterator never equals \<open>end()\<close>: the loop does not stop however long it runs.
\<close>

lemma iterate_tail:
  assumes "splitItems (it_current it @ it_rest it) = Inr xs" and "it_tail it \<noteq> []"
    and "it_current it = [] \<longrightarrow> it_rest it = []"
    and "xs \<noteq> [] \<longrightarrow> it_current it = hd xs"
  shows "iterate n it = None"
  using assms
proof (induction n arbitrary: it xs)
  case 0
  then show ?case by simp
next
  case (Suc n)
  have not_end: "\<not> atEnd it" using Suc.prems(2) by (simp add: atEnd_def)
  show ?case
  proof (cases xs)
    case Nil
    with Suc.prems(1) have e: "it_current it = []" "it_rest it = []" by (auto simp: splitItems_eq_Nil)
    have mk: "mkRLP [] VeryStrict = Inr (freshRLP [])" by (simp add: mkRLP_VeryStrict)
    have "nextIter it = Inr (it\<lparr>it_current := []\<rparr>)" using e by (simp add: nextIter_def)
    moreover have "iterate n (it\<lparr>it_current := []\<rparr>) = None"
      using Suc.prems(2) e by (intro Suc.IH [of _ "[]"]) simp_all
    ultimately show ?thesis using not_end mk e by simp
  next
    case (Cons x ys)
    note c = splitItems_Cons [OF Suc.prems(1) [unfolded Cons]]
    have cur: "it_current it = x" using Suc.prems(4) Cons by simp
    have rest: "splitItems (it_rest it) = Inr ys" using c(4) cur by simp
    have mk: "mkRLP x VeryStrict = Inr (freshRLP x)"
      by (rule mkRLP_item(2) [OF Suc.prems(1)]) (simp add: Cons)
    obtain it' where it': "nextIter it = Inr it'" "it_tail it' \<noteq> []"
      "splitItems (it_current it' @ it_rest it') = Inr ys" "it_current it' = [] \<longrightarrow> it_rest it' = []"
      "ys \<noteq> [] \<longrightarrow> it_current it' = hd ys"
    proof (cases ys)
      case Nil
      with rest have "it_rest it = []" by (simp add: splitItems_eq_Nil)
      with Nil Suc.prems(2) show ?thesis
        by (intro that [of "it\<lparr>it_current := []\<rparr>"]) (simp_all add: nextIter_def)
    next
      case (Cons y zs)
      note d = splitItems_Cons [OF rest [unfolded Cons]]
      have "length y \<le> length (it_rest it)" by (rule sizeAsEncoded_bounds(1) [OF d(2)])
      then have crop: "cropped (it_rest it) 0 (length y) = y" using d(3) by (simp add: cropped_def)
      have "y @ drop (length y) (it_rest it) = it_rest it" by (metis append_take_drop_id d(3))
      with crop d Cons rest Suc.prems(2) show ?thesis
        by (intro that [of "it\<lparr>it_current := y, it_rest := drop (length y) (it_rest it)\<rparr>"])
          (simp_all add: nextIter_def Let_def)
    qed
    have "iterate n it' = None" using it' by (intro Suc.IH)
    with not_end cur mk it'(1) show ?thesis by simp
  qed
qed

subsection \<open>Conversions\<close>

definition toBytes :: "bytes \<Rightarrow> strictness \<Rightarrow> rlp_error + bytes" where
  "toBytes d flags =
     (if \<not> isData d then (if hasFlag flags ThrowOnFail then Inl BadCast else Inr [])
      else andThen (payload d) (\<lambda>p.
           andThen (rlp_length d) (\<lambda>l.
           if l \<le> length p then Inr (take l p) else Inl OutOfBoundsRead)))"

definition toString :: "bytes \<Rightarrow> strictness \<Rightarrow> rlp_error + bytes" where
  "toString d flags =
     (if \<not> isData d then (if hasFlag flags ThrowOnFail then Inl BadCast else Inr [])
      else andThen (payload d) (\<lambda>p.
           andThen (rlp_length d) (\<lambda>l. Inr (cropped p 0 l))))"

text \<open>
  \<open>toInt<_T>\<close> for an unsigned \<open>_T\<close> of \<open>maxSize\<close> bytes; \<open>None\<close> is \<open>bigint\<close>, whose \<open>maxSize\<close> is the
  largest \<open>unsigned\<close>.
\<close>

definition toInt :: "nat option \<Rightarrow> bytes \<Rightarrow> strictness \<Rightarrow> rlp_error + nat" where
  "toInt maxSize d flags =
     andThen (requireGood d) (\<lambda>_.
     andThen (isInt d) (\<lambda>int_ok.
       if (\<not> int_ok \<and> \<not> hasFlag flags AllowNonCanon) \<or> isList d \<or> isNull d
       then (if hasFlag flags ThrowOnFail then Inl BadCast else Inr 0)
       else andThen (payload d) (\<lambda>p.
         if length p > (case maxSize of None \<Rightarrow> 2 ^ 32 - 1 | Some sz \<Rightarrow> sz) \<and> hasFlag flags FailIfTooBig
         then (if hasFlag flags ThrowOnFail then Inl BadCast else Inr 0)
         else (case maxSize of None \<Rightarrow> Inr (fromBigEndian p)
               | Some sz \<Rightarrow> Inr (fromBigEndian_w (8 * sz) p)))))"

text \<open>\<open>toInt<int64_t>\<close> reads the 64 bits as a signed number.\<close>

definition toPositiveInt64 :: "bytes \<Rightarrow> strictness \<Rightarrow> rlp_error + int" where
  "toPositiveInt64 d flags =
     andThen (toInt (Some 8) d flags) (\<lambda>n.
       let i = (if n < 2 ^ 63 then int n else int n - 2 ^ 64) in
       if hasFlag flags ThrowOnFail \<and> i < 0 then Inl BadCast else Inr i)"

definition toHash :: "nat \<Rightarrow> bytes \<Rightarrow> strictness \<Rightarrow> rlp_error + bytes" where
  "toHash sz d flags =
     andThen (requireGood d) (\<lambda>_.
     andThen (payload d) (\<lambda>p.
       let l = length p in
       if \<not> isData d \<or> (l > sz \<and> hasFlag flags FailIfTooBig) \<or> (l < sz \<and> hasFlag flags FailIfTooSmall)
       then (if hasFlag flags ThrowOnFail then Inl BadCast else Inr (replicate sz 0))
       else (let s = min sz l in Inr (replicate (sz - s) 0 @ take s p))))"

text \<open>The container conversions take the conversion of an element as an argument.\<close>

definition toVector ::
  "nat \<Rightarrow> (bytes \<Rightarrow> rlp_error + 'a) \<Rightarrow> bytes \<Rightarrow> strictness \<Rightarrow> (rlp_error + 'a list) option" where
  "toVector n conv d flags =
     (if isList d
      then (case itemCount d of
              Inl e \<Rightarrow> Some (Inl e)
            | Inr _ \<Rightarrow> map_option (\<lambda>res. andThen res (\<lambda>rs. mapErr (\<lambda>r. conv (m_data r)) rs)) (rangeFor n d))
      else if hasFlag flags ThrowOnFail then Some (Inl BadCast) else Some (Inr []))"

definition toPair ::
  "(bytes \<Rightarrow> rlp_error + 'a) \<Rightarrow> (bytes \<Rightarrow> rlp_error + 'b) \<Rightarrow> 'a \<times> 'b \<Rightarrow> rlp \<Rightarrow> strictness \<Rightarrow>
   rlp_error + 'a \<times> 'b" where
  "toPair conv1 conv2 zero r flags =
     andThen (itemCountStrict (m_data r)) (\<lambda>n.
       if n \<noteq> 2 then (if hasFlag flags ThrowOnFail then Inl BadCast else Inr zero)
       else (case rlp_at r 0 of
               (Inl e, _) \<Rightarrow> Inl e
             | (Inr x, r1) \<Rightarrow>
                 andThen (conv1 (m_data x)) (\<lambda>a.
                 case rlp_at r1 1 of
                   (Inl e, _) \<Rightarrow> Inl e
                 | (Inr y, _) \<Rightarrow> andThen (conv2 (m_data y)) (\<lambda>b. Inr (a, b)))))"

fun toArray_loop :: "(bytes \<Rightarrow> rlp_error + 'a) \<Rightarrow> rlp \<Rightarrow> nat list \<Rightarrow> rlp_error + 'a list" where
  "toArray_loop conv r [] = Inr []"
| "toArray_loop conv r (i # js) =
     (case rlp_at r i of
        (Inl e, _) \<Rightarrow> Inl e
      | (Inr x, r') \<Rightarrow>
          andThen (conv (m_data x)) (\<lambda>a.
          andThen (toArray_loop conv r' js) (\<lambda>rest. Inr (a # rest))))"

definition toArray ::
  "(bytes \<Rightarrow> rlp_error + 'a) \<Rightarrow> 'a \<Rightarrow> nat \<Rightarrow> rlp \<Rightarrow> strictness \<Rightarrow> rlp_error + 'a list" where
  "toArray conv zero n r flags =
     andThen (itemCount (m_data r)) (\<lambda>k.
       if k \<noteq> n then (if hasFlag flags ThrowOnFail then Inl BadCast else Inr (replicate n zero))
       else toArray_loop conv r [0..<n])"

lemma toArray_loop_items:
  assumes "payload (m_data r) = Inr p" and "splitItems p = Inr xs" and "cache_ok xs r"
    and "\<forall>i\<in>set js. i < length xs \<and> i < 2 ^ 64 - 1"
  shows "toArray_loop conv r js = mapErr (\<lambda>i. conv (xs ! i)) js"
  using assms
proof (induction js arbitrary: r)
  case Nil
  then show ?case by simp
next
  case (Cons i js)
  from rlp_at_items [OF Cons.prems(1-3), of i] Cons.prems(4) obtain r' where
    r': "rlp_at r i = (Inr (freshRLP (xs ! i)), r')" "cache_ok xs r'" "m_data r' = m_data r"
    by auto
  have "toArray_loop conv r' js = mapErr (\<lambda>i. conv (xs ! i)) js"
    using Cons.prems r' by (intro Cons.IH) simp_all
  with r'(1) show ?case by simp
qed

lemma mapErr_map: "mapErr f (map g xs) = mapErr (\<lambda>x. f (g x)) xs"
  by (induction xs) simp_all

text \<open>
  Converting a strictly constructed list to a vector, by iterating, and to an array, by
  indexing, give the same elements or the same exception.
\<close>

lemma toVector_toArray:
  assumes list: "isList d" and size: "actualSize d = Inr (length d)"
    and p: "payload d = Inr p" and xs: "splitItems p = Inr xs"
    and fuel: "length d \<le> n" and small: "length d < 2 ^ 64 - 1"
  shows "toVector n conv d flags = Some (toArray conv zero (length xs) (freshRLP d) flags)"
proof -
  have cnt: "itemCount d = Inr (length xs)"
    using list p xs by (simp add: itemCount_def items_def countItems_splitItems)
  have len: "length xs < 2 ^ 64 - 1"
  proof -
    have "length p \<le> length d" using payload_exact [OF size] p by simp
    with length_items_le [OF xs] small show ?thesis by linarith
  qed
  have "toVector n conv d flags = Some (mapErr conv xs)"
    using list cnt rangeFor_items [OF list size p xs fuel] by (simp add: toVector_def mapErr_map)
  also have "mapErr conv xs = mapErr (\<lambda>i. conv (xs ! i)) [0..<length xs]"
    using mapErr_map [of conv "\<lambda>i. xs ! i" "[0..<length xs]"] by (simp add: map_nth)
  also have "\<dots> = toArray_loop conv (freshRLP d) [0..<length xs]"
    using p xs len by (intro toArray_loop_items [symmetric]) (auto simp: cache_ok_fresh)
  also have "\<dots> = toArray conv zero (length xs) (freshRLP d) flags"
    using cnt by (simp add: toArray_def)
  finally show ?thesis .
qed

subsection \<open>Properties\<close>

text \<open>A small strictly readable list, [1, 2], for the witnesses.\<close>

definition twoItems :: bytes where "twoItems = [0xc2, 1, 2]"

lemma twoItems_facts:
  "isList twoItems" "actualSize twoItems = Inr (length twoItems)" "payload twoItems = Inr [1, 2]"
  "splitItems [1, 2] = Inr [[1], [2]]" "length twoItems = 3"
proof -
  show "isList twoItems" "actualSize twoItems = Inr (length twoItems)" "payload twoItems = Inr [1, 2]"
    "length twoItems = 3"
    by (simp_all add: twoItems_def isList_def isNull_def actualSize_def isSingleByte_def isData_def
        rlp_length_def requireGood_def payloadOffset_def lengthSize_def payload_def cropped_def)
  have single: "unat b < 128 \<Longrightarrow> sizeAsEncoded (b # z) = Inr 1" for b z
    by (simp add: sizeAsEncoded_Inr actualSize_def isNull_def isSingleByte_def)
  show "splitItems [1, 2] = Inr [[1], [2]]"
    by (simp add: splitItems.simps single)
qed

text \<open>
  C18: Reading data from a strictly constructed object, or from one constructed with
  \<open>ThrowOnFail | FailIfTooSmall\<close>, never touches a byte outside the bytes it was given: the
  payload lies inside them and \<open>toBytes\<close> returns it whole.
\<close>

theorem toBytes_in_bounds:
  assumes "mkRLP d s = Inr r" and "s = VeryStrict \<or> s = (ThrowOnFail OR FailIfTooSmall)"
  shows "toBytes (m_data r) flags \<noteq> Inl OutOfBoundsRead \<and>
         (\<exists>a p. actualSize d = Inr a \<and> a \<le> length d \<and> payload (m_data r) = Inr p \<and>
                p = take (length p) (drop (payloadOffset d) d))"
proof -
  obtain a where a: "r = freshRLP d" "actualSize d = Inr a" "a \<le> length d"
    using assms by (auto simp: mkRLP_VeryStrict mkRLP_lenient)
  obtain p where p: "payload d = Inr p" "rlp_length d = Inr (length p)"
    using rlp_length_payload_size [OF a(2,3)] by blast
  have "p = take (length p) (drop (payloadOffset d) d)"
  proof (cases "d = []")
    case True
    with p show ?thesis by (simp add: payload_def rlp_length_def isNull_def cropped_def)
  next
    case False
    from payload_in_bounds [OF a(2,3) False] p
    have "p = take (a - payloadOffset d) (drop (payloadOffset d) d)" by simp
    then show ?thesis by (simp only: take_length_take)
  qed
  with a p show ?thesis by (simp add: toBytes_def)
qed

theorem toBytes_in_bounds_witness:
  "toBytes (m_data (freshRLP twoItems)) VeryStrict \<noteq> Inl OutOfBoundsRead"
  using toBytes_in_bounds [of twoItems VeryStrict "freshRLP twoItems" VeryStrict]
  by (simp add: mkRLP_VeryStrict twoItems_facts)

text \<open>
  C16: Indexed access is correct whatever indexes were accessed before: reading any sequence of
  valid indexes of a list, forwards, backwards or repeated, through the cache of
  \<open>operator[]\<close>, gives the items of the list at those indexes.
\<close>

theorem rlp_indexing_correct:
  assumes "payload d = Inr p" and "splitItems p = Inr xs" and "\<forall>i\<in>set js. i < length xs \<and> i < 2 ^ 64 - 1"
  shows "toArray_loop conv (freshRLP d) js = mapErr (\<lambda>i. conv (xs ! i)) js"
  by (rule toArray_loop_items) (use assms in \<open>simp_all add: cache_ok_fresh\<close>)

theorem rlp_indexing_correct_witness:
  "toArray_loop Inr (freshRLP twoItems) [1, 0, 1, 1, 0] = Inr [[2], [1], [2], [2], [1]]"
proof -
  have "toArray_loop Inr (freshRLP twoItems) [1, 0, 1, 1, 0] =
        mapErr (\<lambda>i. Inr ([[1], [2]] ! i)) [1, 0, 1, 1, 0]"
    by (rule rlp_indexing_correct [OF twoItems_facts(3,4)]) simp
  then show ?thesis by simp
qed

text \<open>
  C19: Converting a strictly constructed list to a vector (a range-for loop over the iterator)
  stops, and gives the same elements, or the same exception, as converting it to an array (by
  \<open>operator[]\<close>).
\<close>

theorem rlp_vector_array_agree:
  assumes "isList d" and "actualSize d = Inr (length d)"
    and "payload d = Inr p" and "splitItems p = Inr xs"
    and "length d \<le> n" and "length d < 2 ^ 64 - 1"
  shows "toVector n conv d flags = Some (toArray conv zero (length xs) (freshRLP d) flags)"
  using assms by (rule toVector_toArray)

theorem rlp_vector_array_agree_witness:
  "toVector 3 Inr twoItems 0 = Some (toArray Inr [] 2 (freshRLP twoItems) 0)"
proof -
  have "toVector 3 Inr twoItems 0 = Some (toArray Inr [] (length [[1], [2::byte]]) (freshRLP twoItems) 0)"
    by (rule rlp_vector_array_agree [OF twoItems_facts(1,2,3,4)]) (simp_all add: twoItems_facts(5))
  then show ?thesis by (simp only: list.size One_nat_def Suc_1 add_Suc_right add_0 numeral_2_eq_2 add_0_right)
qed

text \<open>
  C20: A range-for loop over a list that carries bytes behind its end, which the constructor
  accepts without \<open>FailIfTooBig\<close>, never reaches \<open>end()\<close>: however many rounds it runs, it has
  not stopped.
\<close>

theorem rlp_loop_trailing_bytes:
  assumes "isList d" and "actualSize d = Inr a" and "a < length d"
    and "payload d = Inr p" and "splitItems p = Inr xs"
  shows "rangeFor n d = None"
proof -
  from beginIter_items [OF assms(1,2) _ assms(4,5)] assms(3) obtain it where
    it: "beginIter d = Inr it" "it_current it @ it_rest it = p" "it_tail it = drop a d"
      "it_current it = (if xs = [] then [] else hd xs)" "it_current it = [] \<longrightarrow> it_rest it = []"
    by auto
  have "iterate n it = None"
    by (rule iterate_tail [of it xs]) (use it assms(3,5) in auto)
  with it(1) show ?thesis by (simp add: rangeFor_def)
qed

theorem rlp_loop_trailing_bytes_witness: "rangeFor 1000000 [0xc0, 0] = None"
  by (rule rlp_loop_trailing_bytes [of _ 1 "[]" "[]"])
    (simp_all add: isList_def isNull_def actualSize_def isSingleByte_def isData_def
        rlp_length_def requireGood_def payloadOffset_def lengthSize_def payload_def cropped_def)

end
