(* ===== verification/Rlp_Stream.thy ===== *)
theory Rlp_Stream
  imports Rlp
begin

section \<open>Writing RLP (libdevcore/RLP.h and RLP.cpp, class RLPStream)\<close>

text \<open>
  The writer keeps the bytes written so far and a stack of open lists: how many items each
  still expects and where its payload starts. Closing a list moves its payload to make room
  for the header. The specification is the encoding \<open>enc\<close> of a tree of byte strings and
  lists; the lemmas show that the writer's appends, in any nesting, produce exactly \<open>enc\<close>,
  that the reader of theory \<open>Rlp\<close> gives the tree back, and that the strict reader accepts no
  other bytes (the encoding is canonical).
\<close>

subsection \<open>The writer\<close>

record rlp_stream =
  m_out :: bytes
  m_listStack :: "(nat \<times> nat) list"

definition emptyStream :: rlp_stream where
  "emptyStream = \<lparr>m_out = [], m_listStack = []\<rparr>"

text \<open>The part of \<open>noteAppended\<close> that closes a list whose payload starts at \<open>p\<close>.\<close>

definition closeList :: "bytes \<Rightarrow> nat \<Rightarrow> rlp_error + bytes" where
  "closeList out p =
     (let s = length out - p; brs = bytesRequired s in
      if s < c_rlpListImmLenCount
      then Inr (take p out @ [word_of_nat (c_rlpListStart + s)] @ drop p out)
      else if c_rlpListIndLenZero + brs \<le> 0xff
      then Inr (take p out @ [word_of_nat (c_rlpListIndLenZero + brs)] @ toBigEndian brs s @ drop p out)
      else Inl RLPException)"

fun noteAppended_loop :: "bytes \<Rightarrow> (nat \<times> nat) list \<Rightarrow> nat \<Rightarrow> rlp_error + rlp_stream" where
  "noteAppended_loop out [] cnt = Inr \<lparr>m_out = out, m_listStack = []\<rparr>"
| "noteAppended_loop out ((n, p) # st) cnt =
     (if n < cnt then Inl RLPException
      else if n - cnt \<noteq> 0 then Inr \<lparr>m_out = out, m_listStack = (n - cnt, p) # st\<rparr>
      else andThen (closeList out p) (\<lambda>out'. noteAppended_loop out' st 1))"

definition noteAppended :: "rlp_stream \<Rightarrow> nat \<Rightarrow> rlp_error + rlp_stream" where
  "noteAppended s cnt =
     (if cnt = 0 then Inr s else noteAppended_loop (m_out s) (m_listStack s) cnt)"

definition appendRaw :: "rlp_stream \<Rightarrow> bytes \<Rightarrow> nat \<Rightarrow> rlp_error + rlp_stream" where
  "appendRaw s bs cnt = noteAppended (s\<lparr>m_out := m_out s @ bs\<rparr>) cnt"

text \<open>
  \<open>pushInt\<close> grows the output by \<open>br\<close> zero bytes and writes all bytes of the value backwards from its
  end.
\<close>

definition pushInt :: "bytes \<Rightarrow> nat \<Rightarrow> nat \<Rightarrow> bytes" where
  "pushInt out i br =
     (let out' = out @ replicate br 0; k = byteCount i in
      take (length out' - k) out' @ toBigEndian k i)"

definition pushCount :: "rlp_stream \<Rightarrow> nat \<Rightarrow> nat \<Rightarrow> rlp_error + rlp_stream" where
  "pushCount s count base =
     (let br = bytesRequired count in
      if br + base > 0xff then Inl RLPException
      else Inr (s\<lparr>m_out := pushInt (m_out s @ [word_of_nat (br + base)]) count br\<rparr>))"

definition push_back :: "rlp_stream \<Rightarrow> nat \<Rightarrow> rlp_stream" where
  "push_back s b = s\<lparr>m_out := m_out s @ [word_of_nat b]\<rparr>"

text \<open>\<open>append(bytesConstRef, _compact)\<close>; compact drops leading zero bytes.\<close>

definition append_bytes :: "rlp_stream \<Rightarrow> bytes \<Rightarrow> bool \<Rightarrow> rlp_error + rlp_stream" where
  "append_bytes s bs compact =
     (let d = (if compact then dropWhile (\<lambda>b. b = 0) bs else bs); n = length d in
      andThen
        (if n = 1 \<and> byteAt d 0 < c_rlpDataImmLenStart then Inr (push_back s (byteAt d 0))
         else andThen (if n < c_rlpDataImmLenCount then Inr (push_back s (n + c_rlpDataImmLenStart))
                       else pushCount s n c_rlpDataIndLenZero)
                (\<lambda>s. appendRaw s d 0))
        (\<lambda>s. noteAppended s 1))"

definition append_bigint :: "rlp_stream \<Rightarrow> nat \<Rightarrow> rlp_error + rlp_stream" where
  "append_bigint s i =
     andThen
       (if i = 0 then Inr (push_back s c_rlpDataImmLenStart)
        else if i < c_rlpDataImmLenStart then Inr (push_back s i)
        else (let br = bytesRequired i in
              andThen (if br < c_rlpDataImmLenCount then Inr (push_back s (br + c_rlpDataImmLenStart))
                       else (let brbr = bytesRequired br in
                             if c_rlpDataIndLenZero + brbr > 0xff then Inl RLPException
                             else Inr ((push_back s (c_rlpDataIndLenZero + brbr))
                                    \<lparr>m_out := pushInt (m_out (push_back s (c_rlpDataIndLenZero + brbr))) br brbr\<rparr>)))
                (\<lambda>s. Inr (s\<lparr>m_out := pushInt (m_out s) i br\<rparr>))))
       (\<lambda>s. noteAppended s 1)"

definition appendList_raw :: "rlp_stream \<Rightarrow> bytes \<Rightarrow> rlp_error + rlp_stream" where
  "appendList_raw s rlp =
     andThen (if length rlp < c_rlpListImmLenCount then Inr (push_back s (length rlp + c_rlpListStart))
              else pushCount s (length rlp) c_rlpListIndLenZero)
       (\<lambda>s. appendRaw s rlp 1)"

definition appendList :: "rlp_stream \<Rightarrow> nat \<Rightarrow> rlp_error + rlp_stream" where
  "appendList s n =
     (if n \<noteq> 0 then Inr (s\<lparr>m_listStack := (n, length (m_out s)) # m_listStack s\<rparr>)
      else appendList_raw s [])"

definition stream_out :: "rlp_stream \<Rightarrow> rlp_error + bytes" where
  "stream_out s = (if m_listStack s \<noteq> [] then Inl RLPException else Inr (m_out s))"

text \<open>
  Values of nested containers of byte strings, and the appends that the container overloads
  (\<open>append(std::vector<_T>)\<close> and its kin) make for them: \<open>appendList\<close> of the size, then each
  element.
\<close>

datatype rlp_item = Str bytes | Lst "rlp_item list"

fun append_item :: "rlp_stream \<Rightarrow> rlp_item \<Rightarrow> rlp_error + rlp_stream"
  and append_items :: "rlp_stream \<Rightarrow> rlp_item list \<Rightarrow> rlp_error + rlp_stream" where
  "append_item s (Str bs) = append_bytes s bs False"
| "append_item s (Lst xs) = andThen (appendList s (length xs)) (\<lambda>s'. append_items s' xs)"
| "append_items s [] = Inr s"
| "append_items s (x # xs) = andThen (append_item s x) (\<lambda>s'. append_items s' xs)"

definition rlp_of :: "rlp_item \<Rightarrow> rlp_error + bytes" where
  "rlp_of it = andThen (append_item emptyStream it) stream_out"

definition rlp_of_int :: "nat \<Rightarrow> rlp_error + bytes" where
  "rlp_of_int n = andThen (append_bigint emptyStream n) stream_out"

subsection \<open>The encoding\<close>

definition header :: "nat \<Rightarrow> nat \<Rightarrow> nat \<Rightarrow> bytes" where
  "header short long n =
     (if n < 56 then [word_of_nat (short + n)]
      else word_of_nat (long + byteCount n) # toBigEndian (byteCount n) n)"

definition encStr :: "bytes \<Rightarrow> bytes" where
  "encStr bs = (if length bs = 1 \<and> byteAt bs 0 < 128 then bs else header 128 183 (length bs) @ bs)"

fun enc :: "rlp_item \<Rightarrow> bytes" where
  "enc (Str bs) = encStr bs"
| "enc (Lst xs) = (let p = concat (map enc xs) in header 192 247 (length p) @ p)"

text \<open>All payloads are short enough for the 64-bit lengths the reader and writer use.\<close>

fun fits :: "rlp_item \<Rightarrow> bool" where
  "fits (Str bs) \<longleftrightarrow> length bs < 2 ^ 64 - 257"
| "fits (Lst xs) \<longleftrightarrow> (\<forall>x\<in>set xs. fits x) \<and> length (concat (map enc xs)) < 2 ^ 64 - 257"

subsection \<open>The writer produces the encoding\<close>

lemma pushInt_exact: "pushInt out i (byteCount i) = out @ toBigEndian (byteCount i) i"
  by (simp add: pushInt_def)

lemma byteCount_64: "n < 2 ^ 64 \<Longrightarrow> byteCount n \<le> 8"
proof -
  assume "n < 2 ^ 64"
  moreover have "(2::nat) ^ 64 = 256 ^ 8" by simp
  ultimately show ?thesis by (simp add: byteCount_le_iff del: power_numeral)
qed

lemma bytesRequired_64: "n < 2 ^ 64 \<Longrightarrow> bytesRequired n = byteCount n"
  using byteCount_64 [of n] by (simp add: bytesRequired_count)

lemma closeList_header:
  assumes "length body < 2 ^ 64"
  shows "closeList (out @ body) (length out) = Inr (out @ header 192 247 (length body) @ body)"
  using byteCount_64 [OF assms] by (simp add: closeList_def header_def Let_def bytesRequired_64 [OF assms])

lemma append_bytes_enc:
  assumes "length bs < 2 ^ 64"
  shows "append_bytes s bs False = noteAppended (s\<lparr>m_out := m_out s @ encStr bs\<rparr>) 1"
proof -
  consider (one) "length bs = 1 \<and> byteAt bs 0 < 128" | (short) "\<not> (length bs = 1 \<and> byteAt bs 0 < 128)" "length bs < 56"
    | (long) "56 \<le> length bs" by linarith
  then show ?thesis
  proof cases
    case one
    then have "bs = [bs ! 0]" by (auto simp: length_Suc_conv)
    then have "[word_of_nat (byteAt bs 0)] = bs" by simp
    with one show ?thesis by (simp add: append_bytes_def push_back_def encStr_def Let_def)
  next
    case short
    then show ?thesis
      by (auto simp: append_bytes_def push_back_def encStr_def header_def Let_def appendRaw_def
          noteAppended_def add.commute)
  next
    case long
    with byteCount_64 [OF assms] show ?thesis
      by (simp add: append_bytes_def push_back_def encStr_def header_def Let_def appendRaw_def
          noteAppended_def pushCount_def pushInt_exact bytesRequired_64 [OF assms] add.commute)
  qed
qed

lemma append_items_enc:
  assumes item: "\<And>x s. x \<in> set xs \<Longrightarrow> append_item s x = noteAppended (s\<lparr>m_out := m_out s @ enc x\<rparr>) 1"
    and ne: "xs \<noteq> []"
    and small: "length (body @ concat (map enc xs)) < 2 ^ 64"
  shows "append_items \<lparr>m_out = out @ body, m_listStack = (length xs, length out) # st\<rparr> xs =
         noteAppended_loop (out @ header 192 247 (length (body @ concat (map enc xs))) @
                            body @ concat (map enc xs)) st 1"
  using assms
proof (induction xs arbitrary: body)
  case Nil
  then show ?case by simp
next
  case (Cons x xs)
  let ?s = "\<lparr>m_out = out @ body, m_listStack = (length (x # xs), length out) # st\<rparr>"
  have x: "append_item ?s x = noteAppended_loop (out @ body @ enc x) ((length (x # xs), length out) # st) 1"
    using Cons.prems(1) [of x ?s] by (simp add: noteAppended_def)
  show ?case
  proof (cases "xs = []")
    case True
    have "append_item ?s x = noteAppended_loop
        (out @ header 192 247 (length (body @ enc x)) @ body @ enc x) st 1"
      using x True closeList_header [of "body @ enc x" out] Cons.prems(3) by simp
    then show ?thesis using True by (cases "append_item ?s x") simp_all
  next
    case False
    have "append_item ?s x = Inr \<lparr>m_out = out @ (body @ enc x), m_listStack = (length xs, length out) # st\<rparr>"
      using x False by simp
    then show ?thesis
      using False Cons.prems by (simp add: Cons.IH [of "body @ enc x"])
  qed
qed

lemma append_item_enc: "fits it \<Longrightarrow> append_item s it = noteAppended (s\<lparr>m_out := m_out s @ enc it\<rparr>) 1"
proof (induction it arbitrary: s)
  case (Str bs)
  then show ?case by (simp add: append_bytes_enc)
next
  case (Lst xs)
  show ?case
  proof (cases "xs = []")
    case True
    then show ?thesis
      by (simp add: appendList_def appendList_raw_def push_back_def appendRaw_def header_def)
  next
    case False
    have "append_items \<lparr>m_out = m_out s @ [], m_listStack = (length xs, length (m_out s)) # m_listStack s\<rparr> xs =
         noteAppended_loop (m_out s @ header 192 247 (length ([] @ concat (map enc xs))) @
                            [] @ concat (map enc xs)) (m_listStack s) 1"
      using Lst False by (intro append_items_enc) auto
    then show ?thesis
      using False by (cases s) (simp add: appendList_def noteAppended_def Let_def)
  qed
qed

lemma rlp_of_enc: "fits it \<Longrightarrow> rlp_of it = Inr (enc it)"
  by (simp add: rlp_of_def append_item_enc noteAppended_def emptyStream_def stream_out_def)

subsection \<open>Reading back what was written\<close>

lemma length_header:
  "length (header sh lg n) = (if n < 56 then 1 else 1 + byteCount n)"
  by (simp add: header_def)

lemma byteAt_header:
  assumes "n < 2 ^ 64" and "sh + 55 < 256" and "lg + 8 < 256"
  shows "byteAt (header sh lg n @ z) 0 = (if n < 56 then sh + n else lg + byteCount n)"
  using byteCount_64 [OF assms(1)] assms(2,3) by (simp add: header_def del: of_nat_add)

lemma indirectLength_header:
  assumes n: "56 \<le> n" "n < 2 ^ 64 - 257" and lg: "lg + 8 < 256"
  shows "indirectLength (word_of_nat (lg + byteCount n) # toBigEndian (byteCount n) n @ z) lg 56 = Inr n"
proof -
  have n64: "n < 2 ^ 64" using n(2) by simp
  note br = byteCount_64 [OF n64]
  have pos: "0 < byteCount n" using n(1) by (cases "byteCount n") auto
  have b0: "unat (word_of_nat (lg + byteCount n) :: byte) = lg + byteCount n"
    using br lg by (intro unat_byte_of_nat) linarith
  obtain b bs where bs: "toBigEndian (byteCount n) n = b # bs"
    using pos by (metis Suc_pred' length_Suc_conv length_toBigEndian)
  have b: "unat b \<noteq> 0" using hd_toBigEndian_byteCount [of n] n(1) bs by simp
  have val: "fromBigEndian_w 64 (toBigEndian (byteCount n) n) = n"
    using n64 by (simp add: fromBigEndian_w_mod fromBigEndian_toBigEndian less_256_pow_byteCount)
  have "length (toBigEndian (byteCount n) n) = byteCount n" by simp
  then have len: "byteCount n = Suc (length bs)" unfolding bs by simp
  have "take (byteCount n) (b # bs @ z) = b # bs" by (simp add: len)
  with val bs have v: "fromBigEndian_w 64 (take (byteCount n) (b # bs @ z)) = n" by simp
  have "\<not> Suc (Suc (length bs + length z)) \<le> byteCount n" using len by simp
  then show ?thesis
    using b n br unfolding indirectLength_def bs
    by (simp add: b0 v Let_def del: of_nat_add)
qed

lemma header_long: "56 \<le> n \<Longrightarrow> header sh lg n @ z = word_of_nat (lg + byteCount n) # toBigEndian (byteCount n) n @ z"
  by (simp add: header_def)

lemma read_data_header:
  assumes n: "n < 2 ^ 64 - 257" and one: "n = 1 \<Longrightarrow> z \<noteq> [] \<and> 128 \<le> byteAt z 0"
  shows "rlp_length (header 128 183 n @ z) = Inr n"
    and "payloadOffset (header 128 183 n @ z) = length (header 128 183 n)"
    and "isData (header 128 183 n @ z)"
proof -
  let ?d = "header 128 183 n @ z"
  have n64: "n < 2 ^ 64" using n by simp
  note br = byteCount_64 [OF n64]
  note b0 = byteAt_header [OF n64, of 128 183 z, simplified]
  have nn: "\<not> isNull ?d" by (simp add: isNull_def length_header)
  have d1: "n = 1 \<Longrightarrow> ?d ! 1 = z ! 0 \<and> 2 \<le> length ?d"
    using one by (cases z) (auto simp: header_def)
  have good: "requireGood ?d = Inr ()"
    using nn b0 d1 one br by (auto simp: requireGood_def)
  show "isData ?d" using nn b0 br by (simp add: isData_def)
  show "payloadOffset ?d = length (header 128 183 n)"
    using nn b0 br by (simp add: payloadOffset_def isSingleByte_def lengthSize_def isData_def isList_def length_header)
  show "rlp_length ?d = Inr n"
  proof (cases "n < 56")
    case True
    with nn good b0 show ?thesis by (simp add: rlp_length_def)
  next
    case False
    then have "indirectLength ?d 183 56 = Inr n"
      using indirectLength_header [of n 183 z] n by (simp add: header_long)
    with False nn good b0 br show ?thesis by (simp add: rlp_length_def)
  qed
qed

lemma read_list_header:
  assumes n: "n < 2 ^ 64 - 257"
  shows "rlp_length (header 192 247 n @ z) = Inr n"
    and "payloadOffset (header 192 247 n @ z) = length (header 192 247 n)"
    and "isList (header 192 247 n @ z)"
proof -
  let ?d = "header 192 247 n @ z"
  have n64: "n < 2 ^ 64" using n by simp
  note br = byteCount_64 [OF n64]
  note b0 = byteAt_header [OF n64, of 192 247 z, simplified]
  have nn: "\<not> isNull ?d" by (simp add: isNull_def length_header)
  have good: "requireGood ?d = Inr ()"
    using nn b0 br by (auto simp: requireGood_def)
  show "isList ?d" using nn b0 br by (simp add: isList_def)
  show "payloadOffset ?d = length (header 192 247 n)"
    using nn b0 br by (simp add: payloadOffset_def isSingleByte_def lengthSize_def isData_def isList_def length_header)
  show "rlp_length ?d = Inr n"
  proof (cases "n < 56")
    case True
    with nn good b0 show ?thesis by (simp add: rlp_length_def)
  next
    case False
    then have "indirectLength ?d 247 56 = Inr n"
      using indirectLength_header [of n 247 z] n by (simp add: header_long)
    with False nn good b0 br show ?thesis by (simp add: rlp_length_def)
  qed
qed

lemma actualSize_data_header:
  "n < 2 ^ 64 - 257 \<Longrightarrow> (n = 1 \<Longrightarrow> z \<noteq> [] \<and> 128 \<le> byteAt z 0) \<Longrightarrow>
   actualSize (header 128 183 n @ z) = Inr (length (header 128 183 n) + n)"
  using read_data_header [of n z]
  by (simp add: actualSize_def isNull_def length_header payloadOffset_def split: if_splits)

lemma actualSize_list_header:
  "n < 2 ^ 64 - 257 \<Longrightarrow> actualSize (header 192 247 n @ z) = Inr (length (header 192 247 n) + n)"
  using read_list_header [of n z]
  by (simp add: actualSize_def isNull_def length_header payloadOffset_def split: if_splits)

lemma singleByte_Cons: "unat b < 128 \<Longrightarrow> isSingleByte (b # z)"
  by (simp add: isSingleByte_def isNull_def)

lemma enc_nonempty: "enc it \<noteq> []"
  by (cases it) (auto simp: encStr_def header_def Let_def)

lemma append_items_append: "append_items s (xs @ ys) = andThen (append_items s xs) (\<lambda>s. append_items s ys)"
  by (induction xs arbitrary: s) (simp_all add: andThen_assoc)

lemma actualSize_enc:
  assumes "fits it"
  shows "actualSize (enc it @ z) = Inr (length (enc it))"
proof (cases it)
  case (Str bs)
  show ?thesis
  proof (cases "length bs = 1 \<and> byteAt bs 0 < 128")
    case True
    then obtain b where "bs = [b]" by (auto simp: length_Suc_conv)
    with True Str show ?thesis by (simp add: encStr_def actualSize_def isNull_def singleByte_Cons)
  next
    case False
    then have "length bs = 1 \<Longrightarrow> bs @ z \<noteq> [] \<and> 128 \<le> byteAt (bs @ z) 0"
      by (cases bs) auto
    with actualSize_data_header [of "length bs" "bs @ z"] assms Str False show ?thesis
      by (auto simp: encStr_def)
  qed
next
  case (Lst xs)
  with assms actualSize_list_header [of "length (concat (map enc xs))" "concat (map enc xs) @ z"]
  show ?thesis by (simp add: Let_def)
qed

lemma splitItems_enc: "\<forall>x\<in>set xs. fits x \<Longrightarrow> splitItems (concat (map enc xs)) = Inr (map enc xs)"
proof (induction xs)
  case Nil
  then show ?case by simp
next
  case (Cons x xs)
  let ?d = "enc x @ concat (map enc xs)"
  have "actualSize ?d = Inr (length (enc x))" using Cons.prems by (simp add: actualSize_enc)
  then have "sizeAsEncoded ?d = Inr (length (enc x))" by (simp add: sizeAsEncoded_Inr)
  moreover have "?d \<noteq> []" using enc_nonempty [of x] by simp
  ultimately have "splitItems ?d = Inr (map enc (x # xs))"
    using Cons by (subst splitItems.simps) simp
  then show ?case by simp
qed

lemma toBytes_enc: "fits (Str bs) \<Longrightarrow> toBytes (enc (Str bs)) f = Inr bs"
proof -
  assume f: "fits (Str bs)"
  have sz: "actualSize (enc (Str bs)) = Inr (length (enc (Str bs)))"
    using actualSize_enc [OF f, of "[]"] by simp
  note p = payload_exact [OF sz]
  show ?thesis
  proof (cases "length bs = 1 \<and> byteAt bs 0 < 128")
    case True
    then obtain b where b: "bs = [b]" by (auto simp: length_Suc_conv)
    with True have "isData [b]" "rlp_length [b] = Inr 1" "payloadOffset [b] = 0"
      by (simp_all add: isData_def isNull_def rlp_length_def requireGood_def payloadOffset_def isSingleByte_def)
    with p True b show ?thesis by (simp add: toBytes_def encStr_def)
  next
    case False
    then have "length bs = 1 \<Longrightarrow> bs \<noteq> [] \<and> 128 \<le> byteAt bs 0" by (cases bs) auto
    with read_data_header [of "length bs" bs] f p False show ?thesis
      by (auto simp: toBytes_def encStr_def)
  qed
qed


subsection \<open>A strict decoder and its canonicity\<close>

text \<open>
  \<open>readItem\<close> reads a whole tree with the strict constructor: an item is data or a list of
  items, and nothing may follow it.
\<close>

lemma length_in_concat: "x \<in> set xs \<Longrightarrow> length x \<le> length (concat xs)"
  by (induction xs) auto

function readItem :: "bytes \<Rightarrow> rlp_error + rlp_item" where
  "readItem d =
     andThen (mkRLP d VeryStrict) (\<lambda>_.
       if isNull d then Inl BadRLP
       else if isData d then andThen (toBytes d VeryStrict) (\<lambda>bs. Inr (Str bs))
       else andThen (andThen (payload d) splitItems) (\<lambda>ds.
            andThen (mapErr readItem ds) (\<lambda>xs. Inr (Lst xs))))"
  by pat_completeness auto
termination
proof (relation "measure length")
  fix d r ds x
  assume r: "mkRLP d VeryStrict = Inr r" and d: "\<not> isNull d" "\<not> isData d"
    and ds: "andThen (payload d) splitItems = Inr ds" and x: "x \<in> set ds"
  from ds obtain p where p: "payload d = Inr p" "splitItems p = Inr ds" by (auto simp: andThen_eq_Inr)
  have "p = drop (payloadOffset d) d" using r payload_exact [of d] p by (simp add: mkRLP_VeryStrict)
  moreover have "0 < payloadOffset d" "0 < length d"
    using d by (auto simp: payloadOffset_def isSingleByte_def isData_def isNull_def)
  ultimately have "length p < length d" by simp
  moreover have "length x \<le> length p"
    using splitItems_concat [OF p(2)] length_in_concat [OF x] by simp
  ultimately show "(x, d) \<in> measure length" by simp
qed auto

declare readItem.simps [simp del]

lemma readItem_enc: "fits it \<Longrightarrow> readItem (enc it) = Inr it"
proof (induction it)
  case (Str bs)
  have sz: "actualSize (enc (Str bs)) = Inr (length (enc (Str bs)))"
    using actualSize_enc [OF Str, of "[]"] by simp
  have "isData (enc (Str bs))"
    using toBytes_enc [OF Str, of VeryStrict] by (auto simp: toBytes_def split: if_splits)
  moreover have "mkRLP (enc (Str bs)) VeryStrict = Inr (freshRLP (enc (Str bs)))"
    using sz by (simp add: mkRLP_VeryStrict)
  ultimately show ?case
    using toBytes_enc [OF Str] by (subst readItem.simps) (simp add: isData_def)
next
  case (Lst xs)
  let ?p = "concat (map enc xs)" and ?d = "enc (Lst xs)"
  have sz: "actualSize ?d = Inr (length ?d)"
    using actualSize_enc [OF Lst.prems, of "[]"] by simp
  have n: "length ?p < 2 ^ 64 - 257" using Lst.prems by simp
  have d: "?d = header 192 247 (length ?p) @ ?p" by (simp add: Let_def)
  note h = read_list_header [OF n, of ?p, folded d]
  have "payload ?d = Inr ?p" using payload_exact [OF sz] h(2) d by simp
  moreover have "splitItems ?p = Inr (map enc xs)" using Lst.prems by (intro splitItems_enc) simp
  moreover have "mapErr readItem (map enc xs) = Inr xs"
  proof -
    have "mapErr (\<lambda>x. readItem (enc x)) xs = Inr (map id xs)"
      using Lst.IH Lst.prems by (intro mapErr_all_Inr) auto
    then show ?thesis by (simp add: mapErr_map)
  qed
  moreover have "mkRLP ?d VeryStrict = Inr (freshRLP ?d)" using sz by (simp add: mkRLP_VeryStrict)
  ultimately show ?case
    using h(3) by (subst readItem.simps) (simp add: isData_def isList_def del: enc.simps)
qed

text \<open>The bytes behind the first are those \<open>header\<close> writes: no other header is accepted.\<close>

lemma indirectLength_inv:
  assumes l: "indirectLength d z 56 = Inr l" and k: "k = byteAt d 0 - z" "0 < k"
  shows "k = byteCount l" and "take k (drop 1 d) = toBigEndian (byteCount l) l"
    and "56 \<le> l" and "l < 2 ^ 64 - 257"
proof -
  let ?bs = "take k (drop 1 d)"
  from l k have *: "k < length d" "k \<le> 8" "byteAt d 1 \<noteq> 0" "l = fromBigEndian_w 64 ?bs"
    by (auto simp: indirectLength_def Let_def split: if_splits)
  show "56 \<le> l" "l < 2 ^ 64 - 257" using indirectLength_least [OF l] indirectLength_bound [OF l] .
  have len: "length ?bs = k" using * by simp
  have "fromBigEndian ?bs < 256 ^ k" using fromBigEndian_less [of ?bs] len by simp
  also have "(256::nat) ^ k \<le> 256 ^ 8" using *(2) by (intro power_increasing) auto
  finally have lv: "l = fromBigEndian ?bs" using *(4) by (simp add: fromBigEndian_w_mod)
  have ne: "?bs \<noteq> []" using len k(2) by auto
  have "hd ?bs = d ! 1" using ne * by (simp add: hd_conv_nth)
  then have br: "byteCount l = k"
    using byteCount_fromBigEndian [OF ne] *(3) len lv by simp
  show "k = byteCount l" using br by simp
  have "toBigEndian (length ?bs) (fromBigEndian ?bs) = ?bs" by (rule toBigEndian_fromBigEndian)
  then have "toBigEndian k l = ?bs" unfolding len lv [symmetric] .
  then show "?bs = toBigEndian (byteCount l) l" unfolding br by (rule sym)
qed

lemma byte_eq_of_nat: "unat (b :: byte) = n \<Longrightarrow> b = word_of_nat n"
  by auto

lemma header_inv_long:
  assumes l: "indirectLength d lg 56 = Inr l" and k: "lg < byteAt d 0" "k = byteAt d 0 - lg"
    and d: "d \<noteq> []"
  shows "take (Suc k) d = header sh lg l" and "length (header sh lg l) = Suc k"
    and "l < 2 ^ 64 - 257"
proof -
  have k0: "0 < k" using k by simp
  note i = indirectLength_inv [OF l k(2) k0]
  show "l < 2 ^ 64 - 257" by (rule i(4))
  show "length (header sh lg l) = Suc k" using i by (simp add: length_header)
  have "d ! 0 = word_of_nat (lg + k)" using k by (intro byte_eq_of_nat) simp
  moreover have "take (Suc k) d = d ! 0 # take k (drop 1 d)" using d by (cases d) simp_all
  ultimately show "take (Suc k) d = header sh lg l" using i by (simp add: header_def)
qed

lemma data_header_inv:
  assumes l: "rlp_length d = Inr l" and d: "isData d" "\<not> isSingleByte d"
  shows "take (payloadOffset d) d = header 128 183 l" and "l < 2 ^ 64 - 257"
    and "payloadOffset d = length (header 128 183 l)" 
    and "l = 1 \<Longrightarrow> 2 \<le> length d \<and> 128 \<le> byteAt d 1 \<and> payloadOffset d = 1"
proof -
  have ne: "d \<noteq> []" "\<not> isNull d" using d by (auto simp: isData_def isNull_def)
  have b: "128 \<le> byteAt d 0" "byteAt d 0 < 192" using d ne by (auto simp: isData_def isSingleByte_def)
  from l ne b have g: "requireGood d = Inr ()" by (auto simp: rlp_length_def andThen_eq_Inr)
  have "take (payloadOffset d) d = header 128 183 l \<and> l < 2 ^ 64 - 257 \<and>
        payloadOffset d = length (header 128 183 l) \<and>
        (l = 1 \<longrightarrow> 2 \<le> length d \<and> 128 \<le> byteAt d 1 \<and> payloadOffset d = 1)"
  proof (cases "byteAt d 0 \<le> 183")
    case True
    then have ll: "l = byteAt d 0 - 128" using l ne b g by (simp add: rlp_length_def)
    have off: "payloadOffset d = 1"
      using ne b True by (simp add: payloadOffset_def isSingleByte_def lengthSize_def isList_def)
    have "d ! 0 = word_of_nat (128 + l)" using ll b by (intro byte_eq_of_nat) simp
    moreover have "l < 56" using ll True b by linarith
    moreover have "take 1 d = [d ! 0]" using ne by (cases d) simp_all
    ultimately have "take 1 d = header 128 183 l" by (simp add: header_def)
    moreover have "l = 1 \<Longrightarrow> 2 \<le> length d \<and> 128 \<le> byteAt d 1"
      using g ll ne b by (auto simp: requireGood_def split: if_splits)
    ultimately show ?thesis using off ll True by (simp add: length_header)
  next
    case False
    then have il: "indirectLength d 183 56 = Inr l" using l ne b g by (simp add: rlp_length_def)
    have off: "payloadOffset d = Suc (byteAt d 0 - 183)"
      using ne b False d by (simp add: payloadOffset_def isSingleByte_def lengthSize_def)
    from False have "183 < byteAt d 0" by simp
    note h = header_inv_long(1,2) [OF il this refl ne(1), where sh = 128] header_inv_long(3) [OF il this refl ne(1)]
    have "56 \<le> l" by (rule indirectLength_least [OF il])
    with h off show ?thesis by simp
  qed
  then show "take (payloadOffset d) d = header 128 183 l" and "l < 2 ^ 64 - 257"
    and "payloadOffset d = length (header 128 183 l)" 
    and "l = 1 \<Longrightarrow> 2 \<le> length d \<and> 128 \<le> byteAt d 1 \<and> payloadOffset d = 1"
    by blast+
qed

lemma list_header_inv:
  assumes l: "rlp_length d = Inr l" and d: "isList d"
  shows "take (payloadOffset d) d = header 192 247 l \<and> l < 2 ^ 64 - 257"
proof -
  have ne: "d \<noteq> []" "\<not> isNull d" using d by (auto simp: isList_def isNull_def)
  have b: "192 \<le> byteAt d 0" using d ne by (auto simp: isList_def)
  from l ne b have g: "requireGood d = Inr ()" by (auto simp: rlp_length_def andThen_eq_Inr)
  show ?thesis
  proof (cases "byteAt d 0 \<le> 247")
    case True
    then have ll: "l = byteAt d 0 - 192" using l ne b g by (simp add: rlp_length_def)
    have off: "payloadOffset d = 1"
      using ne b True by (simp add: payloadOffset_def isSingleByte_def lengthSize_def isData_def)
    have "d ! 0 = word_of_nat (192 + l)" using ll b by (intro byte_eq_of_nat) simp
    moreover have "l < 56" using ll True b by linarith
    moreover have "take 1 d = [d ! 0]" using ne by (cases d) simp_all
    ultimately have "take 1 d = header 192 247 l" by (simp add: header_def)
    then show ?thesis using off ll True by simp
  next
    case False
    then have il: "indirectLength d 247 56 = Inr l" using l ne b g by (simp add: rlp_length_def)
    have off: "payloadOffset d = Suc (byteAt d 0 - 247)"
      using ne b False d by (simp add: payloadOffset_def isSingleByte_def lengthSize_def isData_def)
    from False have "247 < byteAt d 0" by simp
    note h = header_inv_long(1,2) [OF il this refl ne(1), where sh = 192] header_inv_long(3) [OF il this refl ne(1)]
    with off show ?thesis by simp
  qed
qed

lemma enc_toBytes:
  assumes sz: "actualSize d = Inr (length d)" and d: "isData d" and bs: "toBytes d f = Inr bs"
  shows "encStr bs = d" and "length bs < 2 ^ 64 - 257"
proof -
  have ne: "d \<noteq> []" "\<not> isNull d" using d by (auto simp: isData_def isNull_def)
  from actualSize_split [OF sz ne(1)] obtain l where
    l: "rlp_length d = Inr l" "length d = payloadOffset d + l" by blast
  note p = payload_exact [OF sz]
  have bsd: "bs = drop (payloadOffset d) d" "length bs = l"
    using bs d l p by (auto simp: toBytes_def split: if_splits)
  have "encStr bs = d \<and> l < 2 ^ 64 - 257"
  proof (cases "isSingleByte d")
    case True
    then have "l = 1" "payloadOffset d = 0" "byteAt d 0 < 128"
      using l by (auto simp: rlp_length_def isSingleByte_def requireGood_def payloadOffset_def)
    with bsd l show ?thesis by (simp add: encStr_def)
  next
    case False
    note h = data_header_inv [OF l(1) d False]
    have "\<not> (l = 1 \<and> byteAt bs 0 < 128)" using h(4) bsd l(2) by auto
    then have "encStr bs = header 128 183 l @ bs" using bsd(2) by (auto simp: encStr_def)
    also have "\<dots> = d" using h(1) bsd(1) by (metis append_take_drop_id)
    finally show ?thesis using h(2) by simp
  qed
  then show "encStr bs = d" "length bs < 2 ^ 64 - 257" using bsd(2) by simp_all
qed

lemma readItem_inv: "readItem d = Inr it \<Longrightarrow> enc it = d \<and> fits it"
proof (induction d arbitrary: it rule: readItem.induct)
  case (1 d)
  from "1.prems" obtain r where r: "mkRLP d VeryStrict = Inr r" and nn: "\<not> isNull d"
    by (subst (asm) readItem.simps) (auto simp: andThen_eq_Inr split: if_splits)
  then have sz: "actualSize d = Inr (length d)" by (simp add: mkRLP_VeryStrict)
  show ?case
  proof (cases "isData d")
    case True
    with "1.prems" r nn obtain bs where "toBytes d VeryStrict = Inr bs" "it = Str bs"
      by (subst (asm) readItem.simps) (auto simp: andThen_eq_Inr)
    with enc_toBytes [OF sz True] show ?thesis by simp
  next
    case False
    with "1.prems" r nn obtain ds xs where
      ds: "andThen (payload d) splitItems = Inr ds" and xs: "mapErr readItem ds = Inr xs"
      and it: "it = Lst xs"
      by (subst (asm) readItem.simps) (auto simp: andThen_eq_Inr)
    have list: "isList d" using False nn by (simp add: isList_def isData_def)
    have IH: "x \<in> set ds \<Longrightarrow> readItem x = Inr y \<Longrightarrow> enc y = x \<and> fits y" for x y
      by (rule "1.IH" [OF r nn False ds])
    have "map enc xs = ds \<and> (\<forall>x\<in>set xs. fits x)"
      using xs IH
    proof (induction ds arbitrary: xs)
      case Nil
      then show ?case by simp
    next
      case (Cons d ds)
      from Cons.prems(1) obtain y ys where y: "readItem d = Inr y" "mapErr readItem ds = Inr ys" "xs = y # ys"
        by (auto simp: andThen_eq_Inr)
      have "map enc ys = ds \<and> (\<forall>x\<in>set ys. fits x)" using y Cons by auto
      with y Cons.prems(2) [of d y] show ?case by simp
    qed
    moreover from ds obtain p where p: "payload d = Inr p" "splitItems p = Inr ds"
      by (auto simp: andThen_eq_Inr)
    moreover have "concat ds = p" by (rule splitItems_concat [OF p(2)])
    ultimately have m: "concat (map enc xs) = p" "\<forall>x\<in>set xs. fits x" by auto
    from nn have ne: "d \<noteq> []" by (auto simp: isNull_def)
    from actualSize_split [OF sz ne] obtain l where
      l: "rlp_length d = Inr l" "length d = payloadOffset d + l" by blast
    have pd: "p = drop (payloadOffset d) d" using payload_exact [OF sz] p by simp
    with l have "length p = l" by simp
    with list_header_inv [OF l(1) list] pd have "header 192 247 (length p) @ p = d" "length p < 2 ^ 64 - 257"
      by (metis append_take_drop_id, blast)
    with m it show ?thesis by (simp add: Let_def)
  qed
qed

lemma readItem_iff: "readItem d = Inr it \<longleftrightarrow> enc it = d \<and> fits it"
  using readItem_inv readItem_enc by blast

subsection \<open>Integers\<close>

lemma rlp_of_int_enc:
  assumes "byteCount n < 2 ^ 32"
  shows "rlp_of_int n = Inr (enc (Str (toBigEndian (byteCount n) n)))"
proof -
  have "byteCount n < 2 ^ 64" using assms by simp
  note brbr = byteCount_64 [OF this] and count = bytesRequired_count [OF assms] bytesRequired_64 [OF this]
  consider (zero) "n = 0" | (small) "0 < n" "n < 128" | (mid) "128 \<le> n" "byteCount n < 56"
    | (big) "128 \<le> n" "56 \<le> byteCount n" by linarith
  then show ?thesis
  proof cases
    case zero
    then show ?thesis
      by (simp add: rlp_of_int_def append_bigint_def emptyStream_def push_back_def noteAppended_def
          stream_out_def encStr_def header_def)
  next
    case small
    then have "byteCount n = 1" by (simp add: byteCount_pos)
    with small show ?thesis
      by (simp add: rlp_of_int_def count append_bigint_def emptyStream_def push_back_def noteAppended_def
          stream_out_def encStr_def)
  next
    case mid
    have "\<not> (byteCount n = 1 \<and> byteAt (toBigEndian (byteCount n) n) 0 < 128)"
    proof
      assume a: "byteCount n = 1 \<and> byteAt (toBigEndian (byteCount n) n) 0 < 128"
      then have "n < 256 ^ 1" using less_256_pow_byteCount [of n] by simp
      moreover have "byteAt (toBigEndian (Suc 0) n) 0 < 128" using a by (metis One_nat_def)
      ultimately show False using mid(1) by simp
    qed
    with mid show ?thesis
      by (simp add: rlp_of_int_def append_bigint_def emptyStream_def push_back_def noteAppended_def
          stream_out_def encStr_def header_def pushInt_exact count Let_def add.commute)
  next
    case big
    with brbr show ?thesis
      by (simp add: rlp_of_int_def append_bigint_def emptyStream_def push_back_def noteAppended_def
          stream_out_def encStr_def header_def pushInt_exact count Let_def add.commute)
  qed
qed

lemma enc_Str_payload:
  assumes "fits (Str bs)"
  shows "payload (enc (Str bs)) = Inr bs" and "isData (enc (Str bs))"
proof -
  show "isData (enc (Str bs))"
    using toBytes_enc [OF assms, of VeryStrict] by (auto simp: toBytes_def split: if_splits)
  with toBytes_enc [OF assms, of 0] obtain p l where
    p: "payload (enc (Str bs)) = Inr p" "rlp_length (enc (Str bs)) = Inr l" "l \<le> length p" "take l p = bs"
    by (auto simp: toBytes_def andThen_eq_Inr split: if_splits)
  have "actualSize (enc (Str bs)) = Inr (length (enc (Str bs)))"
    using actualSize_enc [OF assms, of "[]"] by simp
  from rlp_length_payload_size [OF this] p have "length p = l" by auto
  with p show "payload (enc (Str bs)) = Inr bs" by simp
qed

lemma requireGood_enc_Str: "fits (Str bs) \<Longrightarrow> requireGood (enc (Str bs)) = Inr ()"
proof -
  assume "fits (Str bs)"
  from enc_Str_payload(1) [OF this] have "\<exists>l. rlp_length (enc (Str bs)) = Inr l"
    by (auto simp: payload_def andThen_eq_Inr)
  moreover have "\<not> isNull (enc (Str bs))" using enc_nonempty [of "Str bs"] by (simp add: isNull_def)
  ultimately show ?thesis by (auto simp: rlp_length_def andThen_eq_Inr)
qed

lemma isInt_enc_Str:
  assumes "fits (Str bs)" and "bs \<noteq> [] \<Longrightarrow> hd bs \<noteq> 0"
  shows "isInt (enc (Str bs)) = Inr True"
proof -
  note g = requireGood_enc_Str [OF assms(1)]
  have nn: "\<not> isNull (enc (Str bs))" using enc_nonempty [of "Str bs"] by (simp add: isNull_def)
  have n64: "length bs < 2 ^ 64" "length bs < 2 ^ 64 - 257" using assms(1) by simp_all
  show ?thesis
  proof (cases "length bs = 1 \<and> byteAt bs 0 < 128")
    case True
    then obtain b where "bs = [b]" by (auto simp: length_Suc_conv)
    with True assms(2) g nn show ?thesis by (simp add: isInt_def encStr_def unsigned_eq_0_iff)
  next
    case False
    then have e: "enc (Str bs) = header 128 183 (length bs) @ bs" by (auto simp: encStr_def)
    note b0 = byteAt_header [OF n64(1), of 128 183 bs, simplified]
    have br: "byteCount (length bs) \<le> 8" by (rule byteCount_64 [OF n64(1)])
    show ?thesis
    proof (cases "bs = []")
      case True
      with g nn b0 e show ?thesis by (simp add: isInt_def)
    next
      case ne: False
      then have hb: "byteAt bs 0 \<noteq> 0" using assms(2) by (simp add: hd_conv_nth0 unsigned_eq_0_iff)
      have nth: "(header 128 183 (length bs) @ bs) ! length (header 128 183 (length bs)) = bs ! 0"
        using ne by (simp add: nth_append)
      show ?thesis
      proof (cases "length bs < 56")
        case True
        then have "length (header 128 183 (length bs)) = 1" by (simp add: length_header)
        with True g nn b0 e nth hb ne show ?thesis by (simp add: isInt_def Let_def)
      next
        case False
        then have "length (header 128 183 (length bs)) = Suc (byteCount (length bs))"
          by (simp add: length_header)
        moreover have "byteCount (length bs) \<noteq> 0" using ne by simp
        ultimately show ?thesis using False g nn b0 e nth hb ne br by (simp add: isInt_def Let_def)
      qed
    qed
  qed
qed

lemma toInt_enc_Str:
  assumes f: "fits (Str bs)" and hd: "bs \<noteq> [] \<Longrightarrow> hd bs \<noteq> 0"
    and sz: "case sz of None \<Rightarrow> length bs < 2 ^ 32 | Some k \<Rightarrow> length bs \<le> k"
  shows "toInt sz (enc (Str bs)) flags = Inr (fromBigEndian bs)"
proof -
  have "\<not> isList (enc (Str bs))" "\<not> isNull (enc (Str bs))"
    using enc_Str_payload(2) [OF f] by (auto simp: isData_def isList_def)
  moreover have "fromBigEndian_w (8 * k) bs = fromBigEndian bs" if "length bs \<le> k" for k
  proof -
    have "fromBigEndian bs < 256 ^ length bs" by (rule fromBigEndian_less)
    also have "(256::nat) ^ length bs \<le> 256 ^ k" using that by (intro power_increasing) auto
    also have "(256::nat) ^ k = 2 ^ (8 * k)" by (simp add: power_mult)
    finally show ?thesis by (simp add: fromBigEndian_w_mod)
  qed
  ultimately show ?thesis
    using requireGood_enc_Str [OF f] isInt_enc_Str [OF f hd] enc_Str_payload(1) [OF f] sz
    by (auto simp: toInt_def split: option.splits)
qed

lemma toInt_rlp_of_int:
  assumes "byteCount n < 2 ^ 32" and "case sz of None \<Rightarrow> True | Some k \<Rightarrow> n < 256 ^ k"
  shows "andThen (rlp_of_int n) (\<lambda>d. toInt sz d flags) = Inr n"
proof -
  let ?bs = "toBigEndian (byteCount n) n"
  have "toInt sz (enc (Str ?bs)) flags = Inr (fromBigEndian ?bs)"
  proof (rule toInt_enc_Str)
    show "fits (Str ?bs)" using assms(1) by simp
    show "hd ?bs \<noteq> 0" if "?bs \<noteq> []"
    proof -
      have "0 < n" using that by (cases "n = 0") simp_all
      from hd_toBigEndian_byteCount [OF this] show ?thesis by (simp add: unsigned_eq_0_iff)
    qed
    show "case sz of None \<Rightarrow> length ?bs < 2 ^ 32 | Some k \<Rightarrow> length ?bs \<le> k"
      using assms by (simp add: byteCount_le_iff split: option.splits)
  qed
  also have "fromBigEndian ?bs = n"
    by (simp add: fromBigEndian_toBigEndian less_256_pow_byteCount)
  finally show ?thesis using assms(1) by (simp add: rlp_of_int_enc del: enc.simps)
qed

subsection \<open>Properties\<close>

text \<open>
  C11: The strict reader and the writer are inverse to each other. Reading a byte string as a
  tree of data and lists succeeds exactly when the byte string is what the writer produces for
  that tree, so every tree has one encoding and every encoding one tree (the length bounds of
  \<open>fits\<close> are those of the reader's 64-bit lengths).
\<close>

theorem rlp_canonical: "readItem d = Inr it \<longleftrightarrow> fits it \<and> rlp_of it = Inr d"
  using rlp_of_enc [of it] by (auto simp: readItem_iff)

text \<open>
  C17: An integer of less than \<open>2 ^ 32\<close> bytes written by the writer is read back unchanged, at every
  strictness, into \<open>bigint\<close> and into every unsigned type that is wide enough for it. (The counters
  of the writer and the limit of \<open>bigint\<close> in the reader are 32-bit numbers.)
\<close>

theorem rlp_int_roundtrip:
  assumes "byteCount n < 2 ^ 32" and "case sz of None \<Rightarrow> True | Some k \<Rightarrow> n < 256 ^ k"
  shows "andThen (rlp_of_int n) (\<lambda>d. toInt sz d flags) = Inr n"
  using assms by (rule toInt_rlp_of_int)

theorem rlp_int_roundtrip_witness:
  "andThen (rlp_of_int 1024) (\<lambda>d. toInt (Some 32) d VeryStrict) = Inr 1024 \<and>
   rlp_of_int 1024 = Inr [0x82, 4, 0]"
proof
  have b: "byteCount 1024 = 2" by (simp add: byteCount.simps)
  have t: "toBigEndian 2 1024 = [4, 0]" by (simp add: numeral_2_eq_2)
  show "andThen (rlp_of_int 1024) (\<lambda>d. toInt (Some 32) d VeryStrict) = Inr 1024"
    by (rule rlp_int_roundtrip) (simp_all add: b)
  show "rlp_of_int 1024 = Inr [0x82, 4, 0]"
    by (simp add: rlp_of_int_enc b t encStr_def header_def)
qed

text \<open>
  C15: Appending a tree at any point of a stream, inside any nesting of open lists, adds exactly
  the encoding of the tree to the output and counts as one item of the innermost open list,
  whose header is put in place when its last item arrives.
\<close>

theorem append_item_correct:
  assumes "fits it"
  shows "append_item s it = noteAppended (s\<lparr>m_out := m_out s @ enc it\<rparr>) 1"
  using assms by (rule append_item_enc)

theorem append_item_correct_witness:
  "append_item \<lparr>m_out = [7], m_listStack = [(1, 0)]\<rparr> (Lst [Str [1], Str [200]]) =
   Inr \<lparr>m_out = [0xc5, 7, 0xc3, 1, 0x81, 200], m_listStack = []\<rparr>"
  by (subst append_item_correct)
    (simp_all add: encStr_def header_def noteAppended_def closeList_def Let_def)

end
