(* ===== verification/Evm_Schedule.thy ===== *)
theory Evm_Schedule
  imports Aleth_Prelude
begin

section \<open>Gas schedules (libethcore/EVMSchedule.h)\<close>

text \<open>
  The prices and feature switches of the virtual machine, with the schedule of each fork
  derived from the one before it as the code derives it. The lemmas at the end collect what
  the interpreter's proofs need of a schedule: every instruction that lets the program go on
  costs at least one unit of gas, and the additions to \<open>m_runGas\<close> stay below \<open>2 ^ 64\<close>.
\<close>

record EVMSchedule =
  exceptionalFailedCodeDeposit :: bool
  haveDelegateCall :: bool
  eip150Mode :: bool
  eip158Mode :: bool
  eip1283Mode :: bool
  haveBitwiseShifting :: bool
  haveRevert :: bool
  haveReturnData :: bool
  haveStaticCall :: bool
  haveCreate2 :: bool
  haveExtcodehash :: bool
  tierStepGas :: "nat list"
  expGas :: nat
  expByteGas :: nat
  sha3Gas :: nat
  sha3WordGas :: nat
  sloadGas :: nat
  sstoreSetGas :: nat
  sstoreResetGas :: nat
  sstoreUnchangedGas :: nat
  sstoreRefundGas :: nat
  sstoreRefundNonzeroGas :: nat
  jumpdestGas :: nat
  logGas :: nat
  logDataGas :: nat
  logTopicGas :: nat
  createGas :: nat
  callGas :: nat
  callStipend :: nat
  callValueTransferGas :: nat
  callNewAccountGas :: nat
  suicideRefundGas :: nat
  memoryGas :: nat
  quadCoeffDiv :: nat
  createDataGas :: nat
  txGas :: nat
  txCreateGas :: nat
  txDataZeroGas :: nat
  txDataNonZeroGas :: nat
  copyGas :: nat
  extcodesizeGas :: nat
  extcodecopyGas :: nat
  extcodehashGas :: nat
  balanceGas :: nat
  suicideGas :: nat
  blockhashGas :: nat
  maxCodeSize :: nat
  blockRewardOverwrite :: "u256 option"

definition staticCallDepthLimit :: "EVMSchedule \<Rightarrow> bool" where
  "staticCallDepthLimit s \<longleftrightarrow> \<not> eip150Mode s"

definition suicideChargesNewAccountGas :: "EVMSchedule \<Rightarrow> bool" where
  "suicideChargesNewAccountGas s \<longleftrightarrow> eip150Mode s"

definition emptinessIsNonexistence :: "EVMSchedule \<Rightarrow> bool" where
  "emptinessIsNonexistence s \<longleftrightarrow> eip158Mode s"

definition zeroValueTransferChargesNewAccountGas :: "EVMSchedule \<Rightarrow> bool" where
  "zeroValueTransferChargesNewAccountGas s \<longleftrightarrow> \<not> eip158Mode s"

subsection \<open>The forks\<close>

definition DefaultSchedule :: EVMSchedule where
  "DefaultSchedule =
     \<lparr>exceptionalFailedCodeDeposit = True, haveDelegateCall = True, eip150Mode = False,
      eip158Mode = False, eip1283Mode = False, haveBitwiseShifting = False, haveRevert = False,
      haveReturnData = False, haveStaticCall = False, haveCreate2 = False, haveExtcodehash = False,
      tierStepGas = [0, 2, 3, 5, 8, 10, 20, 0], expGas = 10, expByteGas = 10, sha3Gas = 30,
      sha3WordGas = 6, sloadGas = 50, sstoreSetGas = 20000, sstoreResetGas = 5000,
      sstoreUnchangedGas = 200, sstoreRefundGas = 15000, sstoreRefundNonzeroGas = 4800,
      jumpdestGas = 1, logGas = 375, logDataGas = 8, logTopicGas = 375, createGas = 32000,
      callGas = 40, callStipend = 2300, callValueTransferGas = 9000, callNewAccountGas = 25000,
      suicideRefundGas = 24000, memoryGas = 3, quadCoeffDiv = 512, createDataGas = 200,
      txGas = 21000, txCreateGas = 53000, txDataZeroGas = 4, txDataNonZeroGas = 68, copyGas = 3,
      extcodesizeGas = 20, extcodecopyGas = 20, extcodehashGas = 400, balanceGas = 20,
      suicideGas = 0, blockhashGas = 20, maxCodeSize = 2 ^ 32 - 1, blockRewardOverwrite = None\<rparr>"

definition mkSchedule :: "bool \<Rightarrow> bool \<Rightarrow> nat \<Rightarrow> EVMSchedule" where
  "mkSchedule efcd hdc txCreate =
     DefaultSchedule\<lparr>exceptionalFailedCodeDeposit := efcd, haveDelegateCall := hdc,
                     txCreateGas := txCreate\<rparr>"

definition FrontierSchedule :: EVMSchedule where
  "FrontierSchedule = mkSchedule False False 21000"

definition HomesteadSchedule :: EVMSchedule where
  "HomesteadSchedule = mkSchedule True True 53000"

definition EIP150Schedule :: EVMSchedule where
  "EIP150Schedule =
     HomesteadSchedule\<lparr>eip150Mode := True, extcodesizeGas := 700, extcodecopyGas := 700,
                       balanceGas := 400, sloadGas := 200, callGas := 700, suicideGas := 5000\<rparr>"

definition EIP158Schedule :: EVMSchedule where
  "EIP158Schedule = EIP150Schedule\<lparr>expByteGas := 50, eip158Mode := True, maxCodeSize := 0x6000\<rparr>"

definition ether :: u256 where
  "ether = 10 ^ 18"

definition ByzantiumSchedule :: EVMSchedule where
  "ByzantiumSchedule =
     EIP158Schedule\<lparr>haveRevert := True, haveReturnData := True, haveStaticCall := True,
                    blockRewardOverwrite := Some (3 * ether)\<rparr>"

definition EWASMSchedule :: EVMSchedule where
  "EWASMSchedule = ByzantiumSchedule\<lparr>maxCodeSize := 2 ^ 32 - 1\<rparr>"

definition ConstantinopleSchedule :: EVMSchedule where
  "ConstantinopleSchedule =
     ByzantiumSchedule\<lparr>haveCreate2 := True, haveBitwiseShifting := True, haveExtcodehash := True,
                       eip1283Mode := True, blockRewardOverwrite := Some (2 * ether)\<rparr>"

definition ConstantinopleFixSchedule :: EVMSchedule where
  "ConstantinopleFixSchedule = ConstantinopleSchedule\<lparr>eip1283Mode := False\<rparr>"

definition ExperimentalSchedule :: EVMSchedule where
  "ExperimentalSchedule = ConstantinopleSchedule\<lparr>blockhashGas := 800\<rparr>"

definition forkSchedules :: "EVMSchedule list" where
  "forkSchedules =
     [DefaultSchedule, FrontierSchedule, HomesteadSchedule, EIP150Schedule, EIP158Schedule,
      ByzantiumSchedule, EWASMSchedule, ConstantinopleSchedule, ConstantinopleFixSchedule,
      ExperimentalSchedule]"

lemmas schedule_defs =
  DefaultSchedule_def mkSchedule_def FrontierSchedule_def HomesteadSchedule_def EIP150Schedule_def
  EIP158Schedule_def ByzantiumSchedule_def EWASMSchedule_def ConstantinopleSchedule_def
  ConstantinopleFixSchedule_def ExperimentalSchedule_def

subsection \<open>What the interpreter needs of a schedule\<close>

text \<open>
  The prices that keep a program from running for ever, and the bounds that keep the gas of
  one instruction inside 64 bits: prices are 32-bit numbers (\<open>unsigned\<close>), and those that are
  multiplied by a size are below \<open>2 ^ 4\<close>.
\<close>

definition positivePrices :: "EVMSchedule \<Rightarrow> bool" where
  "positivePrices s \<longleftrightarrow>
     list_all (\<lambda>p. 0 < p)
       [expGas s, sha3Gas s, sloadGas s, sstoreSetGas s, sstoreResetGas s, sstoreUnchangedGas s,
        logGas s, createGas s, callGas s, extcodesizeGas s, extcodecopyGas s, extcodehashGas s,
        balanceGas s, blockhashGas s, quadCoeffDiv s]
     \<and> callStipend s \<le> callValueTransferGas s
     \<and> tierStepGas s = [0, 2, 3, 5, 8, 10, 20, 0]"

definition boundedPrices :: "EVMSchedule \<Rightarrow> bool" where
  "boundedPrices s \<longleftrightarrow>
     list_all (\<lambda>p. p < 2 ^ 32)
       [expGas s, expByteGas s, sha3Gas s, sloadGas s, sstoreSetGas s, sstoreResetGas s,
        sstoreUnchangedGas s, logGas s, logTopicGas s, createGas s, callGas s, extcodesizeGas s,
        extcodecopyGas s, extcodehashGas s, balanceGas s, blockhashGas s, suicideGas s,
        callNewAccountGas s, callValueTransferGas s, callStipend s, memoryGas s, quadCoeffDiv s]
     \<and> list_all (\<lambda>p. p < 16) [sha3WordGas s, logDataGas s, copyGas s]"

definition schedule_ok :: "EVMSchedule \<Rightarrow> bool" where
  "schedule_ok s \<longleftrightarrow> positivePrices s \<and> boundedPrices s"

lemma forkSchedules_ok: "list_all schedule_ok forkSchedules"
  by (simp add: forkSchedules_def schedule_defs schedule_ok_def positivePrices_def boundedPrices_def)

end
