(* ===== verification/Evm_Instruction.thy ===== *)
theory Evm_Instruction
  imports Evm_Schedule
begin

section \<open>Instructions of the virtual machine (libevm/Instruction.h, Instruction.cpp)\<close>

text \<open>
  The opcodes as datatypes, one for each row of the enumeration \<open>Instruction\<close> (arithmetic,
  comparison and bit operations, environment, block, storage and flow, the synthetic opcodes of
  the optimiser, system operations). Families of opcodes (\<open>PUSH1\<close> to \<open>PUSH32\<close>, \<open>DUP\<close>, \<open>SWAP\<close>, \<open>LOG\<close>)
  are one constructor with their number; the subroutine and SIMD opcodes, which the default
  build only rejects, carry their byte, and so do the bytes that are no instruction.
  \<open>c_instructionInfo\<close> is the table of names, stack effects and price tiers, \<open>jumpTable\<close> the
  dispatch table of the GCC build. The lemmas show that the table covers exactly the defined
  opcodes and that the two ways of dispatching differ only on bytes that are rejected either way.
\<close>

datatype arith_op =
    ADD | MUL | SUB | DIV | SDIV | MOD | SMOD | ADDMOD | MULMOD | EXP | SIGNEXTEND

datatype logic_op =
    LT | GT | SLT | SGT | EQ | ISZERO | opAND | opOR | opXOR | opNOT | BYTE | SHL | SHR | SAR

datatype env_op =
    ADDRESS | BALANCE | ORIGIN | CALLER | CALLVALUE | CALLDATALOAD | CALLDATASIZE |
    CALLDATACOPY | CODESIZE | CODECOPY | GASPRICE | EXTCODESIZE | EXTCODECOPY | RETURNDATASIZE |
    RETURNDATACOPY | EXTCODEHASH

datatype block_op =
    BLOCKHASH | COINBASE | TIMESTAMP | NUMBER | DIFFICULTY | GASLIMIT

datatype store_op =
    POP | MLOAD | MSTORE | MSTORE8 | SLOAD | SSTORE | JUMP | JUMPI | PC | MSIZE | GAS | JUMPDEST

datatype synth_op =
    PUSHC | JUMPC | JUMPCI

datatype system_op =
    CREATE | CALL | CALLCODE | RETURN | DELEGATECALL | CREATE2 | STATICCALL | REVERT | INVALID |
    SUICIDE

datatype instruction =
    STOP | SHA3 | Arith arith_op | Logic logic_op | Env env_op | Block block_op |
    Store store_op | Synth synth_op | System system_op | PUSH nat | DUP nat | SWAP nat |
    LOG nat | SUBROUTINE nat | SIMD nat | UNDEFINED nat

datatype tier = Zero | Base | VeryLow | Low | Mid | High | Ext | Special | Invalid

text \<open>The number of a tier, its index in \<open>tierStepGas\<close>.\<close>

fun tierIndex :: "tier \<Rightarrow> nat" where
  "tierIndex Zero = 0"
| "tierIndex Base = 1"
| "tierIndex VeryLow = 2"
| "tierIndex Low = 3"
| "tierIndex Mid = 4"
| "tierIndex High = 5"
| "tierIndex Ext = 6"
| "tierIndex Special = 7"
| "tierIndex Invalid = 8"

subsection \<open>Opcodes\<close>

fun arith_opcode :: "arith_op \<Rightarrow> nat" where
  "arith_opcode ADD = 0x01"
| "arith_opcode MUL = 0x02"
| "arith_opcode SUB = 0x03"
| "arith_opcode DIV = 0x04"
| "arith_opcode SDIV = 0x05"
| "arith_opcode MOD = 0x06"
| "arith_opcode SMOD = 0x07"
| "arith_opcode ADDMOD = 0x08"
| "arith_opcode MULMOD = 0x09"
| "arith_opcode EXP = 0x0a"
| "arith_opcode SIGNEXTEND = 0x0b"

fun logic_opcode :: "logic_op \<Rightarrow> nat" where
  "logic_opcode LT = 0x10"
| "logic_opcode GT = 0x11"
| "logic_opcode SLT = 0x12"
| "logic_opcode SGT = 0x13"
| "logic_opcode EQ = 0x14"
| "logic_opcode ISZERO = 0x15"
| "logic_opcode opAND = 0x16"
| "logic_opcode opOR = 0x17"
| "logic_opcode opXOR = 0x18"
| "logic_opcode opNOT = 0x19"
| "logic_opcode BYTE = 0x1a"
| "logic_opcode SHL = 0x1b"
| "logic_opcode SHR = 0x1c"
| "logic_opcode SAR = 0x1d"

fun env_opcode :: "env_op \<Rightarrow> nat" where
  "env_opcode ADDRESS = 0x30"
| "env_opcode BALANCE = 0x31"
| "env_opcode ORIGIN = 0x32"
| "env_opcode CALLER = 0x33"
| "env_opcode CALLVALUE = 0x34"
| "env_opcode CALLDATALOAD = 0x35"
| "env_opcode CALLDATASIZE = 0x36"
| "env_opcode CALLDATACOPY = 0x37"
| "env_opcode CODESIZE = 0x38"
| "env_opcode CODECOPY = 0x39"
| "env_opcode GASPRICE = 0x3a"
| "env_opcode EXTCODESIZE = 0x3b"
| "env_opcode EXTCODECOPY = 0x3c"
| "env_opcode RETURNDATASIZE = 0x3d"
| "env_opcode RETURNDATACOPY = 0x3e"
| "env_opcode EXTCODEHASH = 0x3f"

fun block_opcode :: "block_op \<Rightarrow> nat" where
  "block_opcode BLOCKHASH = 0x40"
| "block_opcode COINBASE = 0x41"
| "block_opcode TIMESTAMP = 0x42"
| "block_opcode NUMBER = 0x43"
| "block_opcode DIFFICULTY = 0x44"
| "block_opcode GASLIMIT = 0x45"

fun store_opcode :: "store_op \<Rightarrow> nat" where
  "store_opcode POP = 0x50"
| "store_opcode MLOAD = 0x51"
| "store_opcode MSTORE = 0x52"
| "store_opcode MSTORE8 = 0x53"
| "store_opcode SLOAD = 0x54"
| "store_opcode SSTORE = 0x55"
| "store_opcode JUMP = 0x56"
| "store_opcode JUMPI = 0x57"
| "store_opcode PC = 0x58"
| "store_opcode MSIZE = 0x59"
| "store_opcode GAS = 0x5a"
| "store_opcode JUMPDEST = 0x5b"

fun synth_opcode :: "synth_op \<Rightarrow> nat" where
  "synth_opcode PUSHC = 0xac"
| "synth_opcode JUMPC = 0xad"
| "synth_opcode JUMPCI = 0xae"

fun system_opcode :: "system_op \<Rightarrow> nat" where
  "system_opcode CREATE = 0xf0"
| "system_opcode CALL = 0xf1"
| "system_opcode CALLCODE = 0xf2"
| "system_opcode RETURN = 0xf3"
| "system_opcode DELEGATECALL = 0xf4"
| "system_opcode CREATE2 = 0xf5"
| "system_opcode STATICCALL = 0xfa"
| "system_opcode REVERT = 0xfd"
| "system_opcode INVALID = 0xfe"
| "system_opcode SUICIDE = 0xff"

fun opcode :: "instruction \<Rightarrow> nat" where
  "opcode STOP = 0"
| "opcode SHA3 = 0x20"
| "opcode (Arith x) = arith_opcode x"
| "opcode (Logic x) = logic_opcode x"
| "opcode (Env x) = env_opcode x"
| "opcode (Block x) = block_opcode x"
| "opcode (Store x) = store_opcode x"
| "opcode (Synth x) = synth_opcode x"
| "opcode (System x) = system_opcode x"
| "opcode (PUSH n) = 0x5f + n"
| "opcode (DUP n) = 0x7f + n"
| "opcode (SWAP n) = 0x8f + n"
| "opcode (LOG n) = 0xa0 + n"
| "opcode (SUBROUTINE n) = n"
| "opcode (SIMD n) = n"
| "opcode (UNDEFINED n) = n"

text \<open>\<open>Instruction(b)\<close>: the enumerator with value \<open>b\<close>.\<close>

definition enum_low :: "instruction list" where
  "enum_low =
    [STOP, Arith ADD, Arith MUL, Arith SUB, Arith DIV, Arith SDIV, Arith MOD, Arith SMOD,
     Arith ADDMOD, Arith MULMOD, Arith EXP, Arith SIGNEXTEND, UNDEFINED 0x0c, UNDEFINED 0x0d,
     UNDEFINED 0x0e, UNDEFINED 0x0f, Logic LT, Logic GT, Logic SLT, Logic SGT, Logic EQ,
     Logic ISZERO, Logic opAND, Logic opOR, Logic opXOR, Logic opNOT, Logic BYTE, Logic SHL,
     Logic SHR, Logic SAR, UNDEFINED 0x1e, UNDEFINED 0x1f, SHA3, UNDEFINED 0x21, UNDEFINED 0x22,
     UNDEFINED 0x23, UNDEFINED 0x24, UNDEFINED 0x25, UNDEFINED 0x26, UNDEFINED 0x27,
     UNDEFINED 0x28, UNDEFINED 0x29, UNDEFINED 0x2a, UNDEFINED 0x2b, UNDEFINED 0x2c,
     UNDEFINED 0x2d, UNDEFINED 0x2e, UNDEFINED 0x2f, Env ADDRESS, Env BALANCE, Env ORIGIN,
     Env CALLER, Env CALLVALUE, Env CALLDATALOAD, Env CALLDATASIZE, Env CALLDATACOPY,
     Env CODESIZE, Env CODECOPY, Env GASPRICE, Env EXTCODESIZE, Env EXTCODECOPY,
     Env RETURNDATASIZE, Env RETURNDATACOPY, Env EXTCODEHASH, Block BLOCKHASH, Block COINBASE,
     Block TIMESTAMP, Block NUMBER, Block DIFFICULTY, Block GASLIMIT, UNDEFINED 0x46,
     UNDEFINED 0x47, UNDEFINED 0x48, UNDEFINED 0x49, UNDEFINED 0x4a, UNDEFINED 0x4b,
     UNDEFINED 0x4c, UNDEFINED 0x4d, UNDEFINED 0x4e, UNDEFINED 0x4f, Store POP, Store MLOAD,
     Store MSTORE, Store MSTORE8, Store SLOAD, Store SSTORE, Store JUMP, Store JUMPI, Store PC,
     Store MSIZE, Store GAS, Store JUMPDEST, UNDEFINED 0x5c, UNDEFINED 0x5d, UNDEFINED 0x5e,
     UNDEFINED 0x5f, PUSH 1, PUSH 2, PUSH 3, PUSH 4, PUSH 5, PUSH 6, PUSH 7, PUSH 8, PUSH 9,
     PUSH 10, PUSH 11, PUSH 12, PUSH 13, PUSH 14, PUSH 15, PUSH 16, PUSH 17, PUSH 18, PUSH 19,
     PUSH 20, PUSH 21, PUSH 22, PUSH 23, PUSH 24, PUSH 25, PUSH 26, PUSH 27, PUSH 28, PUSH 29,
     PUSH 30, PUSH 31, PUSH 32]"

definition enum_high :: "instruction list" where
  "enum_high =
    [DUP 1, DUP 2, DUP 3, DUP 4, DUP 5, DUP 6, DUP 7, DUP 8, DUP 9, DUP 10, DUP 11, DUP 12,
     DUP 13, DUP 14, DUP 15, DUP 16, SWAP 1, SWAP 2, SWAP 3, SWAP 4, SWAP 5, SWAP 6, SWAP 7,
     SWAP 8, SWAP 9, SWAP 10, SWAP 11, SWAP 12, SWAP 13, SWAP 14, SWAP 15, SWAP 16, LOG 0, LOG 1,
     LOG 2, LOG 3, LOG 4, UNDEFINED 0xa5, UNDEFINED 0xa6, UNDEFINED 0xa7, UNDEFINED 0xa8,
     UNDEFINED 0xa9, UNDEFINED 0xaa, UNDEFINED 0xab, Synth PUSHC, Synth JUMPC, Synth JUMPCI,
     UNDEFINED 0xaf, SUBROUTINE 0xb0, SUBROUTINE 0xb1, SUBROUTINE 0xb2, SUBROUTINE 0xb3,
     SUBROUTINE 0xb4, SUBROUTINE 0xb5, SUBROUTINE 0xb6, SUBROUTINE 0xb7, SUBROUTINE 0xb8,
     SUBROUTINE 0xb9, UNDEFINED 0xba, UNDEFINED 0xbb, UNDEFINED 0xbc, UNDEFINED 0xbd,
     UNDEFINED 0xbe, UNDEFINED 0xbf, UNDEFINED 0xc0, SIMD 0xc1, SIMD 0xc2, SIMD 0xc3, SIMD 0xc4,
     SIMD 0xc5, SIMD 0xc6, SIMD 0xc7, UNDEFINED 0xc8, UNDEFINED 0xc9, UNDEFINED 0xca,
     UNDEFINED 0xcb, UNDEFINED 0xcc, UNDEFINED 0xcd, UNDEFINED 0xce, UNDEFINED 0xcf, SIMD 0xd0,
     SIMD 0xd1, SIMD 0xd2, SIMD 0xd3, SIMD 0xd4, SIMD 0xd5, SIMD 0xd6, SIMD 0xd7, SIMD 0xd8,
     SIMD 0xd9, UNDEFINED 0xda, SIMD 0xdb, SIMD 0xdc, SIMD 0xdd, SIMD 0xde, SIMD 0xdf, SIMD 0xe0,
     SIMD 0xe1, SIMD 0xe2, UNDEFINED 0xe3, SIMD 0xe4, SIMD 0xe5, SIMD 0xe6, SIMD 0xe7, SIMD 0xe8,
     SIMD 0xe9, SIMD 0xea, SIMD 0xeb, UNDEFINED 0xec, UNDEFINED 0xed, UNDEFINED 0xee,
     UNDEFINED 0xef, System CREATE, System CALL, System CALLCODE, System RETURN,
     System DELEGATECALL, System CREATE2, UNDEFINED 0xf6, UNDEFINED 0xf7, UNDEFINED 0xf8,
     UNDEFINED 0xf9, System STATICCALL, UNDEFINED 0xfb, UNDEFINED 0xfc, System REVERT,
     System INVALID, System SUICIDE]"

definition decodeNat :: "nat \<Rightarrow> instruction" where
  "decodeNat n = (if n < 128 then enum_low ! n else enum_high ! (n - 128))"

definition decode :: "byte \<Rightarrow> instruction" where
  "decode b = decodeNat (unat b)"

subsection \<open>Names, stack effects and price tiers\<close>

record InstructionInfo =
  info_name :: string
  info_args :: nat
  info_ret :: nat
  info_tier :: tier

definition c_instructionInfo :: "(instruction \<times> string \<times> nat \<times> nat \<times> tier) list" where
  "c_instructionInfo =
    [(STOP, ''STOP'', 0, 0, Zero), (Arith ADD, ''ADD'', 2, 1, VeryLow),
     (Arith SUB, ''SUB'', 2, 1, VeryLow), (Arith MUL, ''MUL'', 2, 1, Low),
     (Arith DIV, ''DIV'', 2, 1, Low), (Arith SDIV, ''SDIV'', 2, 1, Low),
     (Arith MOD, ''MOD'', 2, 1, Low), (Arith SMOD, ''SMOD'', 2, 1, Low),
     (Arith EXP, ''EXP'', 2, 1, Special), (Logic opNOT, ''NOT'', 1, 1, VeryLow),
     (Logic LT, ''LT'', 2, 1, VeryLow), (Logic GT, ''GT'', 2, 1, VeryLow),
     (Logic SLT, ''SLT'', 2, 1, VeryLow), (Logic SGT, ''SGT'', 2, 1, VeryLow),
     (Logic EQ, ''EQ'', 2, 1, VeryLow), (Logic ISZERO, ''ISZERO'', 1, 1, VeryLow),
     (Logic opAND, ''AND'', 2, 1, VeryLow), (Logic opOR, ''OR'', 2, 1, VeryLow),
     (Logic opXOR, ''XOR'', 2, 1, VeryLow), (Logic BYTE, ''BYTE'', 2, 1, VeryLow),
     (Logic SHL, ''SHL'', 2, 1, VeryLow), (Logic SHR, ''SHR'', 2, 1, VeryLow),
     (Logic SAR, ''SAR'', 2, 1, VeryLow), (Arith ADDMOD, ''ADDMOD'', 3, 1, Mid),
     (Arith MULMOD, ''MULMOD'', 3, 1, Mid), (Arith SIGNEXTEND, ''SIGNEXTEND'', 2, 1, Low),
     (SHA3, ''SHA3'', 2, 1, Special), (Env ADDRESS, ''ADDRESS'', 0, 1, Base),
     (Env BALANCE, ''BALANCE'', 1, 1, Special), (Env ORIGIN, ''ORIGIN'', 0, 1, Base),
     (Env CALLER, ''CALLER'', 0, 1, Base), (Env CALLVALUE, ''CALLVALUE'', 0, 1, Base),
     (Env CALLDATALOAD, ''CALLDATALOAD'', 1, 1, VeryLow),
     (Env CALLDATASIZE, ''CALLDATASIZE'', 0, 1, Base),
     (Env CALLDATACOPY, ''CALLDATACOPY'', 3, 0, VeryLow),
     (Env CODESIZE, ''CODESIZE'', 0, 1, Base), (Env CODECOPY, ''CODECOPY'', 3, 0, VeryLow),
     (Env GASPRICE, ''GASPRICE'', 0, 1, Base), (Env EXTCODESIZE, ''EXTCODESIZE'', 1, 1, Special),
     (Env EXTCODECOPY, ''EXTCODECOPY'', 4, 0, Special),
     (Env RETURNDATASIZE, ''RETURNDATASIZE'', 0, 1, Base),
     (Env RETURNDATACOPY, ''RETURNDATACOPY'', 3, 0, VeryLow),
     (Env EXTCODEHASH, ''EXTCODEHASH'', 1, 1, Special),
     (Block BLOCKHASH, ''BLOCKHASH'', 1, 1, Special), (Block COINBASE, ''COINBASE'', 0, 1, Base),
     (Block TIMESTAMP, ''TIMESTAMP'', 0, 1, Base), (Block NUMBER, ''NUMBER'', 0, 1, Base),
     (Block DIFFICULTY, ''DIFFICULTY'', 0, 1, Base), (Block GASLIMIT, ''GASLIMIT'', 0, 1, Base),
     (Store POP, ''POP'', 1, 0, Base), (Store MLOAD, ''MLOAD'', 1, 1, VeryLow),
     (Store MSTORE, ''MSTORE'', 2, 0, VeryLow), (Store MSTORE8, ''MSTORE8'', 2, 0, VeryLow),
     (Store SLOAD, ''SLOAD'', 1, 1, Special), (Store SSTORE, ''SSTORE'', 2, 0, Special),
     (Store JUMP, ''JUMP'', 1, 0, Mid), (Store JUMPI, ''JUMPI'', 2, 0, High),
     (Store PC, ''PC'', 0, 1, Base), (Store MSIZE, ''MSIZE'', 0, 1, Base),
     (Store GAS, ''GAS'', 0, 1, Base), (Store JUMPDEST, ''JUMPDEST'', 0, 0, Special),
     (PUSH 1, ''PUSH1'', 0, 1, VeryLow), (PUSH 2, ''PUSH2'', 0, 1, VeryLow),
     (PUSH 3, ''PUSH3'', 0, 1, VeryLow), (PUSH 4, ''PUSH4'', 0, 1, VeryLow),
     (PUSH 5, ''PUSH5'', 0, 1, VeryLow), (PUSH 6, ''PUSH6'', 0, 1, VeryLow),
     (PUSH 7, ''PUSH7'', 0, 1, VeryLow), (PUSH 8, ''PUSH8'', 0, 1, VeryLow),
     (PUSH 9, ''PUSH9'', 0, 1, VeryLow), (PUSH 10, ''PUSH10'', 0, 1, VeryLow),
     (PUSH 11, ''PUSH11'', 0, 1, VeryLow), (PUSH 12, ''PUSH12'', 0, 1, VeryLow),
     (PUSH 13, ''PUSH13'', 0, 1, VeryLow), (PUSH 14, ''PUSH14'', 0, 1, VeryLow),
     (PUSH 15, ''PUSH15'', 0, 1, VeryLow), (PUSH 16, ''PUSH16'', 0, 1, VeryLow),
     (PUSH 17, ''PUSH17'', 0, 1, VeryLow), (PUSH 18, ''PUSH18'', 0, 1, VeryLow),
     (PUSH 19, ''PUSH19'', 0, 1, VeryLow), (PUSH 20, ''PUSH20'', 0, 1, VeryLow),
     (PUSH 21, ''PUSH21'', 0, 1, VeryLow), (PUSH 22, ''PUSH22'', 0, 1, VeryLow),
     (PUSH 23, ''PUSH23'', 0, 1, VeryLow), (PUSH 24, ''PUSH24'', 0, 1, VeryLow),
     (PUSH 25, ''PUSH25'', 0, 1, VeryLow), (PUSH 26, ''PUSH26'', 0, 1, VeryLow),
     (PUSH 27, ''PUSH27'', 0, 1, VeryLow), (PUSH 28, ''PUSH28'', 0, 1, VeryLow),
     (PUSH 29, ''PUSH29'', 0, 1, VeryLow), (PUSH 30, ''PUSH30'', 0, 1, VeryLow),
     (PUSH 31, ''PUSH31'', 0, 1, VeryLow), (PUSH 32, ''PUSH32'', 0, 1, VeryLow),
     (DUP 1, ''DUP1'', 1, 2, VeryLow), (DUP 2, ''DUP2'', 2, 3, VeryLow),
     (DUP 3, ''DUP3'', 3, 4, VeryLow), (DUP 4, ''DUP4'', 4, 5, VeryLow),
     (DUP 5, ''DUP5'', 5, 6, VeryLow), (DUP 6, ''DUP6'', 6, 7, VeryLow),
     (DUP 7, ''DUP7'', 7, 8, VeryLow), (DUP 8, ''DUP8'', 8, 9, VeryLow),
     (DUP 9, ''DUP9'', 9, 10, VeryLow), (DUP 10, ''DUP10'', 10, 11, VeryLow),
     (DUP 11, ''DUP11'', 11, 12, VeryLow), (DUP 12, ''DUP12'', 12, 13, VeryLow),
     (DUP 13, ''DUP13'', 13, 14, VeryLow), (DUP 14, ''DUP14'', 14, 15, VeryLow),
     (DUP 15, ''DUP15'', 15, 16, VeryLow), (DUP 16, ''DUP16'', 16, 17, VeryLow),
     (SWAP 1, ''SWAP1'', 2, 2, VeryLow), (SWAP 2, ''SWAP2'', 3, 3, VeryLow),
     (SWAP 3, ''SWAP3'', 4, 4, VeryLow), (SWAP 4, ''SWAP4'', 5, 5, VeryLow),
     (SWAP 5, ''SWAP5'', 6, 6, VeryLow), (SWAP 6, ''SWAP6'', 7, 7, VeryLow),
     (SWAP 7, ''SWAP7'', 8, 8, VeryLow), (SWAP 8, ''SWAP8'', 9, 9, VeryLow),
     (SWAP 9, ''SWAP9'', 10, 10, VeryLow), (SWAP 10, ''SWAP10'', 11, 11, VeryLow),
     (SWAP 11, ''SWAP11'', 12, 12, VeryLow), (SWAP 12, ''SWAP12'', 13, 13, VeryLow),
     (SWAP 13, ''SWAP13'', 14, 14, VeryLow), (SWAP 14, ''SWAP14'', 15, 15, VeryLow),
     (SWAP 15, ''SWAP15'', 16, 16, VeryLow), (SWAP 16, ''SWAP16'', 17, 17, VeryLow),
     (LOG 0, ''LOG0'', 2, 0, Special), (LOG 1, ''LOG1'', 3, 0, Special),
     (LOG 2, ''LOG2'', 4, 0, Special), (LOG 3, ''LOG3'', 5, 0, Special),
     (LOG 4, ''LOG4'', 6, 0, Special), (SUBROUTINE 0xb0, ''JUMPTO'', 1, 0, VeryLow),
     (SUBROUTINE 0xb1, ''JUMPIF'', 2, 0, Low), (SUBROUTINE 0xb3, ''JUMPV'', 1, 0, Mid),
     (SUBROUTINE 0xb2, ''JUMPSUB'', 1, 0, Low), (SUBROUTINE 0xb4, ''JUMPSUBV'', 1, 0, Mid),
     (SUBROUTINE 0xb5, ''BEGINSUB'', 0, 0, Special),
     (SUBROUTINE 0xb6, ''BEGINDATA'', 0, 0, Special),
     (SUBROUTINE 0xb7, ''RETURNSUB'', 1, 0, Mid), (SUBROUTINE 0xb8, ''PUTLOCAL'', 1, 0, VeryLow),
     (SUBROUTINE 0xb9, ''GETLOCAL'', 0, 1, VeryLow), (SIMD 0xc1, ''XADD'', 0, 0, Special),
     (SIMD 0xc2, ''XMUL'', 2, 1, Special), (SIMD 0xc3, ''XSUB'', 2, 1, Special),
     (SIMD 0xc4, ''XDIV'', 2, 1, Special), (SIMD 0xc5, ''XSDIV'', 2, 1, Special),
     (SIMD 0xc6, ''XMOD'', 2, 1, Special), (SIMD 0xc7, ''XSMOD'', 2, 1, Special),
     (SIMD 0xd0, ''XLT'', 2, 1, Special), (SIMD 0xd1, ''XGT'', 2, 1, Special),
     (SIMD 0xd2, ''XSLT'', 2, 1, Special), (SIMD 0xd3, ''XSGT'', 2, 1, Special),
     (SIMD 0xd4, ''XEQ'', 2, 1, Special), (SIMD 0xd5, ''XISZERO'', 2, 1, Special),
     (SIMD 0xd6, ''XAND'', 1, 1, Special), (SIMD 0xd7, ''XOOR'', 2, 1, Special),
     (SIMD 0xd8, ''XXOR'', 2, 1, Special), (SIMD 0xd9, ''XNOT'', 2, 1, Special),
     (SIMD 0xdb, ''XSHL'', 2, 1, Special), (SIMD 0xdc, ''XSHR'', 2, 1, Special),
     (SIMD 0xdd, ''XSAR'', 2, 1, Special), (SIMD 0xde, ''XROL'', 2, 1, Special),
     (SIMD 0xdf, ''XROR'', 2, 1, Special), (SIMD 0xe0, ''XPUSH'', 1, 1, VeryLow),
     (SIMD 0xe1, ''XMLOAD'', 1, 1, VeryLow), (SIMD 0xe2, ''XMSTORE'', 2, 0, VeryLow),
     (SIMD 0xe4, ''XSLOAD'', 1, 1, Special), (SIMD 0xe5, ''XSSTORE'', 2, 0, Special),
     (SIMD 0xe6, ''XVTOWIDE'', 1, 1, VeryLow), (SIMD 0xe7, ''XWIDETOV'', 1, 1, VeryLow),
     (SIMD 0xe9, ''XPUT'', 3, 1, Special), (SIMD 0xe8, ''XGET'', 2, 1, Special),
     (SIMD 0xea, ''XSWIZZLE'', 2, 1, Special), (SIMD 0xeb, ''XSHUFFLE'', 3, 1, Special),
     (System CREATE, ''CREATE'', 3, 1, Special), (System CREATE2, ''CREATE2'', 4, 1, Special),
     (System CALL, ''CALL'', 7, 1, Special), (System CALLCODE, ''CALLCODE'', 7, 1, Special),
     (System RETURN, ''RETURN'', 2, 0, Zero), (System STATICCALL, ''STATICCALL'', 6, 1, Special),
     (System DELEGATECALL, ''DELEGATECALL'', 6, 1, Special),
     (System REVERT, ''REVERT'', 2, 0, Special), (System INVALID, ''INVALID'', 0, 0, Zero),
     (System SUICIDE, ''SUICIDE'', 1, 0, Special), (Synth PUSHC, ''PUSHC'', 0, 1, VeryLow),
     (Synth JUMPC, ''JUMPC'', 1, 0, Mid), (Synth JUMPCI, ''JUMPCI'', 2, 0, High)]"

definition instructionInfo :: "instruction \<Rightarrow> InstructionInfo" where
  "instructionInfo op =
     (case map_of c_instructionInfo op of
        Some (nm, a, r, t) \<Rightarrow> \<lparr>info_name = nm, info_args = a, info_ret = r, info_tier = t\<rparr>
      | None \<Rightarrow> \<lparr>info_name = [], info_args = 0, info_ret = 0, info_tier = Invalid\<rparr>)"

text \<open>\<open>c_instructionNames\<close> is the table turned round; a later entry would replace an earlier one.\<close>

definition c_instructionNames :: "(string \<times> instruction) list" where
  "c_instructionNames = rev (map (\<lambda>(op, nm, _). (nm, op)) c_instructionInfo)"

definition instructionFromName :: "string \<Rightarrow> instruction" where
  "instructionFromName nm =
     (case map_of c_instructionNames nm of Some op \<Rightarrow> op | None \<Rightarrow> System INVALID)"

subsection \<open>The dispatch table\<close>

definition jumpTable_low :: "instruction list" where
  "jumpTable_low =
    [STOP, Arith ADD, Arith MUL, Arith SUB, Arith DIV, Arith SDIV, Arith MOD, Arith SMOD,
     Arith ADDMOD, Arith MULMOD, Arith EXP, Arith SIGNEXTEND, System INVALID, System INVALID,
     System INVALID, System INVALID, Logic LT, Logic GT, Logic SLT, Logic SGT, Logic EQ,
     Logic ISZERO, Logic opAND, Logic opOR, Logic opXOR, Logic opNOT, Logic BYTE, Logic SHL,
     Logic SHR, Logic SAR, System INVALID, System INVALID, SHA3, System INVALID, System INVALID,
     System INVALID, System INVALID, System INVALID, System INVALID, System INVALID,
     System INVALID, System INVALID, System INVALID, System INVALID, System INVALID,
     System INVALID, System INVALID, System INVALID, Env ADDRESS, Env BALANCE, Env ORIGIN,
     Env CALLER, Env CALLVALUE, Env CALLDATALOAD, Env CALLDATASIZE, Env CALLDATACOPY,
     Env CODESIZE, Env CODECOPY, Env GASPRICE, Env EXTCODESIZE, Env EXTCODECOPY,
     Env RETURNDATASIZE, Env RETURNDATACOPY, Env EXTCODEHASH, Block BLOCKHASH, Block COINBASE,
     Block TIMESTAMP, Block NUMBER, Block DIFFICULTY, Block GASLIMIT, System INVALID,
     System INVALID, System INVALID, System INVALID, System INVALID, System INVALID,
     System INVALID, System INVALID, System INVALID, System INVALID, Store POP, Store MLOAD,
     Store MSTORE, Store MSTORE8, Store SLOAD, Store SSTORE, Store JUMP, Store JUMPI, Store PC,
     Store MSIZE, Store GAS, Store JUMPDEST, SUBROUTINE 0xb6, SUBROUTINE 0xb5, System INVALID,
     System INVALID, PUSH 1, PUSH 2, PUSH 3, PUSH 4, PUSH 5, PUSH 6, PUSH 7, PUSH 8, PUSH 9,
     PUSH 10, PUSH 11, PUSH 12, PUSH 13, PUSH 14, PUSH 15, PUSH 16, PUSH 17, PUSH 18, PUSH 19,
     PUSH 20, PUSH 21, PUSH 22, PUSH 23, PUSH 24, PUSH 25, PUSH 26, PUSH 27, PUSH 28, PUSH 29,
     PUSH 30, PUSH 31, PUSH 32]"

definition jumpTable_high :: "instruction list" where
  "jumpTable_high =
    [DUP 1, DUP 2, DUP 3, DUP 4, DUP 5, DUP 6, DUP 7, DUP 8, DUP 9, DUP 10, DUP 11, DUP 12,
     DUP 13, DUP 14, DUP 15, DUP 16, SWAP 1, SWAP 2, SWAP 3, SWAP 4, SWAP 5, SWAP 6, SWAP 7,
     SWAP 8, SWAP 9, SWAP 10, SWAP 11, SWAP 12, SWAP 13, SWAP 14, SWAP 15, SWAP 16, LOG 0, LOG 1,
     LOG 2, LOG 3, LOG 4, System INVALID, System INVALID, System INVALID, System INVALID,
     System INVALID, System INVALID, System INVALID, Synth PUSHC, Synth JUMPC, Synth JUMPCI,
     System INVALID, SUBROUTINE 0xb0, SUBROUTINE 0xb1, SUBROUTINE 0xb2, SUBROUTINE 0xb3,
     SUBROUTINE 0xb4, SUBROUTINE 0xb5, SUBROUTINE 0xb6, SUBROUTINE 0xb7, SUBROUTINE 0xb8,
     SUBROUTINE 0xb9, System INVALID, System INVALID, System INVALID, System INVALID,
     System INVALID, System INVALID, System INVALID, SIMD 0xc1, SIMD 0xc2, SIMD 0xc3, SIMD 0xc4,
     SIMD 0xc5, SIMD 0xc6, SIMD 0xc7, System INVALID, System INVALID, System INVALID,
     System INVALID, System INVALID, System INVALID, System INVALID, System INVALID, SIMD 0xd0,
     SIMD 0xd1, SIMD 0xd2, SIMD 0xd3, SIMD 0xd4, SIMD 0xd5, SIMD 0xd6, SIMD 0xd7, SIMD 0xd8,
     SIMD 0xd9, System INVALID, SIMD 0xdb, SIMD 0xdc, SIMD 0xdd, SIMD 0xde, SIMD 0xdf, SIMD 0xe0,
     SIMD 0xe1, SIMD 0xe2, System INVALID, SIMD 0xe4, SIMD 0xe5, SIMD 0xe6, SIMD 0xe7, SIMD 0xe8,
     SIMD 0xe9, SIMD 0xea, SIMD 0xeb, System INVALID, System INVALID, System INVALID,
     System INVALID, System CREATE, System CALL, System CALLCODE, System RETURN,
     System DELEGATECALL, System CREATE2, System INVALID, System INVALID, System INVALID,
     System INVALID, System STATICCALL, System INVALID, System INVALID, System REVERT,
     System INVALID, System SUICIDE]"

definition jumpTable :: "byte \<Rightarrow> instruction" where
  "jumpTable b = (jumpTable_low @ jumpTable_high) ! unat b"

subsection \<open>The table by constructor\<close>

text \<open>
  \<open>c_metrics\<close> is filled from the table once; by constructor its entries are these.
\<close>

fun arith_metric :: "arith_op \<Rightarrow> nat \<times> nat \<times> tier" where
  "arith_metric ADD = (2, 1, VeryLow)"
| "arith_metric MUL = (2, 1, Low)"
| "arith_metric SUB = (2, 1, VeryLow)"
| "arith_metric DIV = (2, 1, Low)"
| "arith_metric SDIV = (2, 1, Low)"
| "arith_metric MOD = (2, 1, Low)"
| "arith_metric SMOD = (2, 1, Low)"
| "arith_metric ADDMOD = (3, 1, Mid)"
| "arith_metric MULMOD = (3, 1, Mid)"
| "arith_metric EXP = (2, 1, Special)"
| "arith_metric SIGNEXTEND = (2, 1, Low)"

fun logic_metric :: "logic_op \<Rightarrow> nat \<times> nat \<times> tier" where
  "logic_metric LT = (2, 1, VeryLow)"
| "logic_metric GT = (2, 1, VeryLow)"
| "logic_metric SLT = (2, 1, VeryLow)"
| "logic_metric SGT = (2, 1, VeryLow)"
| "logic_metric EQ = (2, 1, VeryLow)"
| "logic_metric ISZERO = (1, 1, VeryLow)"
| "logic_metric opAND = (2, 1, VeryLow)"
| "logic_metric opOR = (2, 1, VeryLow)"
| "logic_metric opXOR = (2, 1, VeryLow)"
| "logic_metric opNOT = (1, 1, VeryLow)"
| "logic_metric BYTE = (2, 1, VeryLow)"
| "logic_metric SHL = (2, 1, VeryLow)"
| "logic_metric SHR = (2, 1, VeryLow)"
| "logic_metric SAR = (2, 1, VeryLow)"

fun env_metric :: "env_op \<Rightarrow> nat \<times> nat \<times> tier" where
  "env_metric ADDRESS = (0, 1, Base)"
| "env_metric BALANCE = (1, 1, Special)"
| "env_metric ORIGIN = (0, 1, Base)"
| "env_metric CALLER = (0, 1, Base)"
| "env_metric CALLVALUE = (0, 1, Base)"
| "env_metric CALLDATALOAD = (1, 1, VeryLow)"
| "env_metric CALLDATASIZE = (0, 1, Base)"
| "env_metric CALLDATACOPY = (3, 0, VeryLow)"
| "env_metric CODESIZE = (0, 1, Base)"
| "env_metric CODECOPY = (3, 0, VeryLow)"
| "env_metric GASPRICE = (0, 1, Base)"
| "env_metric EXTCODESIZE = (1, 1, Special)"
| "env_metric EXTCODECOPY = (4, 0, Special)"
| "env_metric RETURNDATASIZE = (0, 1, Base)"
| "env_metric RETURNDATACOPY = (3, 0, VeryLow)"
| "env_metric EXTCODEHASH = (1, 1, Special)"

fun block_metric :: "block_op \<Rightarrow> nat \<times> nat \<times> tier" where
  "block_metric BLOCKHASH = (1, 1, Special)"
| "block_metric COINBASE = (0, 1, Base)"
| "block_metric TIMESTAMP = (0, 1, Base)"
| "block_metric NUMBER = (0, 1, Base)"
| "block_metric DIFFICULTY = (0, 1, Base)"
| "block_metric GASLIMIT = (0, 1, Base)"

fun store_metric :: "store_op \<Rightarrow> nat \<times> nat \<times> tier" where
  "store_metric POP = (1, 0, Base)"
| "store_metric MLOAD = (1, 1, VeryLow)"
| "store_metric MSTORE = (2, 0, VeryLow)"
| "store_metric MSTORE8 = (2, 0, VeryLow)"
| "store_metric SLOAD = (1, 1, Special)"
| "store_metric SSTORE = (2, 0, Special)"
| "store_metric JUMP = (1, 0, Mid)"
| "store_metric JUMPI = (2, 0, High)"
| "store_metric PC = (0, 1, Base)"
| "store_metric MSIZE = (0, 1, Base)"
| "store_metric GAS = (0, 1, Base)"
| "store_metric JUMPDEST = (0, 0, Special)"

fun synth_metric :: "synth_op \<Rightarrow> nat \<times> nat \<times> tier" where
  "synth_metric PUSHC = (0, 1, VeryLow)"
| "synth_metric JUMPC = (1, 0, Mid)"
| "synth_metric JUMPCI = (2, 0, High)"

fun system_metric :: "system_op \<Rightarrow> nat \<times> nat \<times> tier" where
  "system_metric CREATE = (3, 1, Special)"
| "system_metric CALL = (7, 1, Special)"
| "system_metric CALLCODE = (7, 1, Special)"
| "system_metric RETURN = (2, 0, Zero)"
| "system_metric DELEGATECALL = (6, 1, Special)"
| "system_metric CREATE2 = (4, 1, Special)"
| "system_metric STATICCALL = (6, 1, Special)"
| "system_metric REVERT = (2, 0, Special)"
| "system_metric INVALID = (0, 0, Zero)"
| "system_metric SUICIDE = (1, 0, Special)"

fun metric :: "instruction \<Rightarrow> nat \<times> nat \<times> tier" where
  "metric STOP = (0, 0, Zero)"
| "metric SHA3 = (2, 1, Special)"
| "metric (Arith x) = arith_metric x"
| "metric (Logic x) = logic_metric x"
| "metric (Env x) = env_metric x"
| "metric (Block x) = block_metric x"
| "metric (Store x) = store_metric x"
| "metric (Synth x) = synth_metric x"
| "metric (System x) = system_metric x"
| "metric (PUSH n) = (0, 1, VeryLow)"
| "metric (DUP n) = (n, n + 1, VeryLow)"
| "metric (SWAP n) = (n + 1, n + 1, VeryLow)"
| "metric (LOG n) = (n + 2, 0, Special)"
| "metric (SUBROUTINE n) =
     [(1, 0, VeryLow), (2, 0, Low), (1, 0, Low), (1, 0, Mid), (1, 0, Mid), (0, 0, Special),
      (0, 0, Special), (1, 0, Mid), (1, 0, VeryLow), (0, 1, VeryLow)] ! (n - 0xb0)"
| "metric (SIMD n) =
     (if n = 0xc1 then (0, 0, Special)
      else if n = 0xd6 then (1, 1, Special)
      else if n = 0xe2 then (2, 0, VeryLow)
      else if n = 0xe5 then (2, 0, Special)
      else if n = 0xe4 then (1, 1, Special)
      else if n = 0xe0 \<or> n = 0xe1 \<or> n = 0xe6 \<or> n = 0xe7 then (1, 1, VeryLow)
      else if n = 0xe9 \<or> n = 0xeb then (3, 1, Special)
      else (2, 1, Special))"
| "metric (UNDEFINED n) = (0, 0, Invalid)"

definition isUndefined :: "instruction \<Rightarrow> bool" where
  "isUndefined op \<longleftrightarrow> (case op of UNDEFINED _ \<Rightarrow> True | _ \<Rightarrow> False)"

lemma length_enum [simp]: "length enum_low = 128" "length enum_high = 128"
  by (simp_all add: enum_low_def enum_high_def)

lemma decodeNat_nth: "n < 256 \<Longrightarrow> decodeNat n = (enum_low @ enum_high) ! n"
  by (simp add: decodeNat_def nth_append)

lemma opcode_enum: "map opcode (enum_low @ enum_high) = [0..<256]"
proof -
  have "map opcode enum_low = 0 # 1 # [2..<128]" by (simp add: enum_low_def upt_rec_numeral)
  moreover have "map opcode enum_high = [128..<256]" by (simp add: enum_high_def upt_rec_numeral)
  moreover have "0 # 1 # [2..<128] @ [128..<256] = [0::nat..<256]"
  proof -
    have "[0::nat..<256] = [0..<2] @ [2..<128] @ [128..<256]"
      using upt_add_eq_append [of 0 2 254] upt_add_eq_append [of 2 128 128] by simp
    moreover have "[0::nat..<2] = [0, 1]" by (simp add: upt_rec)
    ultimately show ?thesis by (simp del: upt_rec_numeral)
  qed
  ultimately show ?thesis by simp
qed

lemma opcode_decodeNat: "n < 256 \<Longrightarrow> opcode (decodeNat n) = n"
proof -
  assume n: "n < 256"
  then have "map opcode (enum_low @ enum_high) ! n = opcode (decodeNat n)"
    by (simp add: decodeNat_nth del: map_append)
  with n show ?thesis unfolding opcode_enum by simp
qed

lemma opcode_decode: "opcode (decode b) = unat b"
  by (simp add: decode_def opcode_decodeNat)

text \<open>
  Every entry of the table is an enumerator with its own opcode and the stack effect and tier
  of \<open>metric\<close>; and every opcode of the enumeration has an entry.
\<close>

lemma table_entries:
  "list_all (\<lambda>(op, nm, a, r, t). metric op = (a, r, t) \<and> decodeNat (opcode op) = op) c_instructionInfo"
  by (simp add: c_instructionInfo_def decodeNat_def enum_low_def enum_high_def)

lemma table_opcodes:
  "map (\<lambda>e. opcode (fst e)) c_instructionInfo =
    [0, 1, 0x3, 0x2, 0x4, 0x5, 0x6, 0x7, 0xa, 0x19, 0x10, 0x11, 0x12, 0x13, 0x14, 0x15, 0x16,
     0x17, 0x18, 0x1a, 0x1b, 0x1c, 0x1d, 0x8, 0x9, 0xb, 0x20, 0x30, 0x31, 0x32, 0x33, 0x34, 0x35,
     0x36, 0x37, 0x38, 0x39, 0x3a, 0x3b, 0x3c, 0x3d, 0x3e, 0x3f, 0x40, 0x41, 0x42, 0x43, 0x44,
     0x45, 0x50, 0x51, 0x52, 0x53, 0x54, 0x55, 0x56, 0x57, 0x58, 0x59, 0x5a, 0x5b, 0x60, 0x61,
     0x62, 0x63, 0x64, 0x65, 0x66, 0x67, 0x68, 0x69, 0x6a, 0x6b, 0x6c, 0x6d, 0x6e, 0x6f, 0x70,
     0x71, 0x72, 0x73, 0x74, 0x75, 0x76, 0x77, 0x78, 0x79, 0x7a, 0x7b, 0x7c, 0x7d, 0x7e, 0x7f,
     0x80, 0x81, 0x82, 0x83, 0x84, 0x85, 0x86, 0x87, 0x88, 0x89, 0x8a, 0x8b, 0x8c, 0x8d, 0x8e,
     0x8f, 0x90, 0x91, 0x92, 0x93, 0x94, 0x95, 0x96, 0x97, 0x98, 0x99, 0x9a, 0x9b, 0x9c, 0x9d,
     0x9e, 0x9f, 0xa0, 0xa1, 0xa2, 0xa3, 0xa4, 0xb0, 0xb1, 0xb3, 0xb2, 0xb4, 0xb5, 0xb6, 0xb7,
     0xb8, 0xb9, 0xc1, 0xc2, 0xc3, 0xc4, 0xc5, 0xc6, 0xc7, 0xd0, 0xd1, 0xd2, 0xd3, 0xd4, 0xd5,
     0xd6, 0xd7, 0xd8, 0xd9, 0xdb, 0xdc, 0xdd, 0xde, 0xdf, 0xe0, 0xe1, 0xe2, 0xe4, 0xe5, 0xe6,
     0xe7, 0xe9, 0xe8, 0xea, 0xeb, 0xf0, 0xf5, 0xf1, 0xf2, 0xf3, 0xfa, 0xf4, 0xfd, 0xfe, 0xff,
     0xac, 0xad, 0xae]"
  by (simp add: c_instructionInfo_def)

lemma enum_opcodes:
  "map opcode (filter (\<lambda>op. \<not> isUndefined op) (enum_low @ enum_high)) =
    [0, 1, 0x2, 0x3, 0x4, 0x5, 0x6, 0x7, 0x8, 0x9, 0xa, 0xb, 0x10, 0x11, 0x12, 0x13, 0x14, 0x15,
     0x16, 0x17, 0x18, 0x19, 0x1a, 0x1b, 0x1c, 0x1d, 0x20, 0x30, 0x31, 0x32, 0x33, 0x34, 0x35,
     0x36, 0x37, 0x38, 0x39, 0x3a, 0x3b, 0x3c, 0x3d, 0x3e, 0x3f, 0x40, 0x41, 0x42, 0x43, 0x44,
     0x45, 0x50, 0x51, 0x52, 0x53, 0x54, 0x55, 0x56, 0x57, 0x58, 0x59, 0x5a, 0x5b, 0x60, 0x61,
     0x62, 0x63, 0x64, 0x65, 0x66, 0x67, 0x68, 0x69, 0x6a, 0x6b, 0x6c, 0x6d, 0x6e, 0x6f, 0x70,
     0x71, 0x72, 0x73, 0x74, 0x75, 0x76, 0x77, 0x78, 0x79, 0x7a, 0x7b, 0x7c, 0x7d, 0x7e, 0x7f,
     0x80, 0x81, 0x82, 0x83, 0x84, 0x85, 0x86, 0x87, 0x88, 0x89, 0x8a, 0x8b, 0x8c, 0x8d, 0x8e,
     0x8f, 0x90, 0x91, 0x92, 0x93, 0x94, 0x95, 0x96, 0x97, 0x98, 0x99, 0x9a, 0x9b, 0x9c, 0x9d,
     0x9e, 0x9f, 0xa0, 0xa1, 0xa2, 0xa3, 0xa4, 0xac, 0xad, 0xae, 0xb0, 0xb1, 0xb2, 0xb3, 0xb4,
     0xb5, 0xb6, 0xb7, 0xb8, 0xb9, 0xc1, 0xc2, 0xc3, 0xc4, 0xc5, 0xc6, 0xc7, 0xd0, 0xd1, 0xd2,
     0xd3, 0xd4, 0xd5, 0xd6, 0xd7, 0xd8, 0xd9, 0xdb, 0xdc, 0xdd, 0xde, 0xdf, 0xe0, 0xe1, 0xe2,
     0xe4, 0xe5, 0xe6, 0xe7, 0xe8, 0xe9, 0xea, 0xeb, 0xf0, 0xf1, 0xf2, 0xf3, 0xf4, 0xf5, 0xfa,
     0xfd, 0xfe, 0xff]"
  by (simp add: enum_low_def enum_high_def isUndefined_def)

lemma table_complete:
  "set (map (\<lambda>e. opcode (fst e)) c_instructionInfo) =
   set (map opcode (filter (\<lambda>op. \<not> isUndefined op) (enum_low @ enum_high)))"
  unfolding table_opcodes enum_opcodes by (simp add: insert_commute)

lemma instructionInfo_metric:
  assumes "n < 256"
  shows "metric (decodeNat n) =
         (info_args (instructionInfo (decodeNat n)), info_ret (instructionInfo (decodeNat n)),
          info_tier (instructionInfo (decodeNat n)))"
proof (cases "map_of c_instructionInfo (decodeNat n)")
  case None
  have "isUndefined (decodeNat n)"
  proof (rule ccontr)
    assume "\<not> isUndefined (decodeNat n)"
    moreover have "decodeNat n \<in> set (enum_low @ enum_high)"
      using assms by (simp only: decodeNat_nth) (simp add: nth_mem del: set_append)
    ultimately have "opcode (decodeNat n) \<in> set (map (\<lambda>e. opcode (fst e)) c_instructionInfo)"
      unfolding table_complete by auto
    then obtain e where e: "e \<in> set c_instructionInfo" "opcode (decodeNat n) = opcode (fst e)" by auto
    have "decodeNat (opcode (fst e)) = fst e" using table_entries e(1) by (auto simp: list_all_iff)
    with e(2) assms have "decodeNat n = fst e" by (simp add: opcode_decodeNat)
    with e(1) None show False by (simp add: map_of_eq_None_iff)
  qed
  then have "metric (decodeNat n) = (0, 0, Invalid)"
    by (auto simp: isUndefined_def split: instruction.splits)
  with None show ?thesis by (simp add: instructionInfo_def)
next
  case (Some e)
  then have "(decodeNat n, e) \<in> set c_instructionInfo" by (rule map_of_SomeD)
  with table_entries Some show ?thesis by (auto simp: list_all_iff instructionInfo_def)
qed

text \<open>The dispatch table: a label other than the enumerator is one that is rejected anyway.\<close>

definition rejected :: "instruction \<Rightarrow> bool" where
  "rejected op \<longleftrightarrow>
     (case op of SUBROUTINE _ \<Rightarrow> True | SIMD _ \<Rightarrow> True | UNDEFINED _ \<Rightarrow> True
      | System x \<Rightarrow> x = INVALID | _ \<Rightarrow> False)"

lemma jumpTable_enum:
  "list_all2 (\<lambda>l op. l = op \<or> rejected l \<and> rejected op)
     (jumpTable_low @ jumpTable_high) (enum_low @ enum_high)"
  by (simp add: jumpTable_low_def jumpTable_high_def enum_low_def enum_high_def rejected_def)

lemma jumpTable_decode: "jumpTable b = decode b \<or> rejected (jumpTable b) \<and> rejected (decode b)"
  using list_all2_nthD [OF jumpTable_enum, of "unat b"] unat_byte_less [of b]
  by (simp add: jumpTable_def decode_def decodeNat_nth jumpTable_low_def jumpTable_high_def)

subsection \<open>Properties\<close>

text \<open>
  C21: The instruction table is right for every byte: the metrics cached in \<open>c_metrics\<close> (stack
  items taken and put, price tier) are those of \<open>instructionInfo\<close>, decoding a byte and taking
  the value of the enumerator gives the byte back, and the dispatch table of the GCC build
  jumps to the label of that enumerator, or else both are rejected.
\<close>

theorem decode_correct:
  "metric (decode b) = (info_args (instructionInfo (decode b)), info_ret (instructionInfo (decode b)),
                        info_tier (instructionInfo (decode b))) \<and>
   opcode (decode b) = unat b \<and>
   (jumpTable b = decode b \<or> (rejected (jumpTable b) \<and> rejected (decode b)))"
  using instructionInfo_metric [of "unat b"] opcode_decode [of b] jumpTable_decode [of b]
  by (simp add: decode_def)

end
