(* ===== verification/Legacy_VM_State.thy ===== *)
theory Legacy_VM_State
  imports Evm_Instruction Common_Data
begin

section \<open>State and helpers of the interpreter (libevm/LegacyVM.h, LegacyVM.cpp, ExtVMFace.h)\<close>

text \<open>
  The interface the interpreter has to the outside (\<open>ExtVMFace\<close>: the execution context and the
  operations on the world state), the interpreter's own state, and the helpers every
  instruction is built from: stack adjustment, gas and memory accounting, memory access.
  The world state is a type parameter \<open>'w\<close>; the virtual functions of \<open>ExtVMFace\<close> are the fields
  of the record \<open>host\<close>, which theory \<open>Ext_VM\<close> fills with the client's own implementation.
  The data stack is the list of its cells with the top first: \<open>m_SP\<close> the cells when the
  instruction was fetched, \<open>m_SPP\<close> those of the adjusted pointer, which shares the cells it has
  in common with \<open>m_SP\<close>. An exception is a value together with the state it left.
\<close>

subsection \<open>The execution context\<close>

record LogEntry =
  le_address :: address
  le_topics :: "h256 list"
  le_data :: bytes

text \<open>
  The counter of refunds is an \<open>int64_t\<close>: what does not fit its 64 bits wraps (the language leaves that
  undefined).
\<close>

definition int64 :: "int \<Rightarrow> int" where
  "int64 i = signed_take_bit 63 i"

record SubState =
  suicides :: "address set"
  logs :: "LogEntry list"
  refunds :: int

definition emptySubState :: SubState where
  "emptySubState = \<lparr>suicides = {}, logs = [], refunds = 0\<rparr>"

text \<open>\<open>SubState::operator+=\<close>.\<close>

definition addSubState :: "SubState \<Rightarrow> SubState \<Rightarrow> SubState" where
  "addSubState a b =
     \<lparr>suicides = suicides a \<union> suicides b, logs = logs a @ logs b, refunds = int64 (refunds a + refunds b)\<rparr>"

record CallParameters =
  senderAddress :: address
  codeAddress :: address
  receiveAddress :: address
  valueTransfer :: u256
  apparentValue :: u256
  cp_gas :: u256
  cp_data :: bytes
  cp_staticCall :: bool

record EnvInfo =
  env_number :: int
  env_author :: address
  env_timestamp :: int
  env_difficulty :: u256
  env_gasLimit :: u256
  env_gasUsed :: u256
  env_parentHash :: h256

text \<open>\<open>world\<close> is the state behind the interface, the rest the public members of \<open>ExtVMFace\<close>.\<close>

record 'w ext =
  world :: 'w
  envInfo :: EnvInfo
  myAddress :: address
  caller :: address
  origin :: address
  ext_value :: u256
  gasPrice :: u256
  ext_data :: bytes
  ext_code :: bytes
  codeHash :: h256
  sub :: SubState
  depth :: nat
  isCreate :: bool
  staticCall :: bool

text \<open>
  The virtual functions of \<open>ExtVMFace\<close>. \<open>create\<close> and \<open>call\<close> return the context they leave, the
  gas left over, and the result (address and output; success flag and output); \<open>blockHash\<close> returns
  the hash and the context it leaves, since the client may run a contract for it. The last three
  fields are not part of the interface: the hash function, whether the build defines
  \<open>EVM_OPTIMIZE\<close>, and the number found behind the end of the array \<open>tierStepGas\<close>.
\<close>

record 'w host =
  h_store :: "'w ext \<Rightarrow> u256 \<Rightarrow> u256"
  h_setStore :: "'w ext \<Rightarrow> u256 \<Rightarrow> u256 \<Rightarrow> 'w ext"
  h_originalStorageValue :: "'w ext \<Rightarrow> u256 \<Rightarrow> u256"
  h_balance :: "'w ext \<Rightarrow> address \<Rightarrow> u256"
  h_codeAt :: "'w ext \<Rightarrow> address \<Rightarrow> bytes"
  h_codeSizeAt :: "'w ext \<Rightarrow> address \<Rightarrow> nat"
  h_codeHashAt :: "'w ext \<Rightarrow> address \<Rightarrow> h256"
  h_exists :: "'w ext \<Rightarrow> address \<Rightarrow> bool"
  h_suicide :: "'w ext \<Rightarrow> address \<Rightarrow> 'w ext"
  h_create :: "'w ext \<Rightarrow> u256 \<Rightarrow> u256 \<Rightarrow> bytes \<Rightarrow> system_op \<Rightarrow> u256 \<Rightarrow> 'w ext \<times> u256 \<times> address \<times> bytes"
  h_call :: "'w ext \<Rightarrow> CallParameters \<Rightarrow> 'w ext \<times> u256 \<times> bool \<times> bytes"
  h_blockHash :: "'w ext \<Rightarrow> u256 \<Rightarrow> h256 \<times> 'w ext"
  h_evmSchedule :: "'w ext \<Rightarrow> EVMSchedule"
  h_sha3 :: "bytes \<Rightarrow> h256"
  evm_optimize :: bool
  oobStepGas :: nat

text \<open>\<open>ExtVMFace::log\<close>.\<close>

definition ext_log :: "h256 list \<Rightarrow> bytes \<Rightarrow> 'w ext \<Rightarrow> 'w ext" where
  "ext_log topics dat e =
     e\<lparr>sub := (sub e)\<lparr>logs := logs (sub e) @ [\<lparr>le_address = myAddress e, le_topics = topics, le_data = dat\<rparr>]\<rparr>\<rparr>"

definition addRefunds :: "int \<Rightarrow> 'w ext \<Rightarrow> 'w ext" where
  "addRefunds r e = e\<lparr>sub := (sub e)\<lparr>refunds := int64 (refunds (sub e) + r)\<rparr>\<rparr>"

definition asAddress :: "u256 \<Rightarrow> address" where
  "asAddress v = ucast v"

definition fromAddress :: "address \<Rightarrow> u256" where
  "fromAddress a = ucast a"

subsection \<open>The state of the interpreter\<close>

datatype vm_exception =
  OutOfGas | BadInstruction | BadJumpDestination | OutOfStack | StackUnderflow
  | DisallowedStateChange | BufferOverrun | RevertInstruction bytes

text \<open>
  \<open>m_bounce\<close>: the member function the trampoline runs next, \<open>Finished\<close> for a null pointer. The
  first one, \<open>initEntry\<close>, runs once before the loop of the model.
\<close>

datatype bounce = InterpretCases | CaseCreate | CaseCall | Finished

record 'w vm =
  m_io_gas :: nat
  m_ext :: "'w ext"
  m_bounce :: bounce
  m_schedule :: EVMSchedule
  m_output :: bytes
  m_mem :: bytes
  m_returnData :: bytes
  m_OP :: instruction
  m_PC :: nat
  m_SP :: "u256 list"
  m_SPP :: "u256 list"
  m_runGas :: nat
  m_newMemSize :: nat
  m_copyMemSize :: nat

text \<open>
  The members that \<open>initEntry\<close> sets and the rest of the run only reads: the extended and
  possibly rewritten code, the constant pool, and the table of jump destinations.
\<close>

record program =
  m_code :: bytes
  m_pool :: "u256 list"
  m_jumpDests :: "nat list"

type_synonym ('w, 'a) vm_result = "vm_exception \<times> 'w vm + 'a"

abbreviation SP :: "'w vm \<Rightarrow> nat \<Rightarrow> u256" where
  "SP vm i \<equiv> m_SP vm ! i"

definition throwVM :: "vm_exception \<Rightarrow> 'w vm \<Rightarrow> ('w, 'a) vm_result" where
  "throwVM e vm = Inl (e, vm)"

text \<open>A guard in front of a throw: the computation goes on only when the condition is false.\<close>

definition throwWhen :: "bool \<Rightarrow> vm_exception \<Rightarrow> 'w vm \<Rightarrow> ('w, 'w vm) vm_result" where
  "throwWhen c e vm = (if c then Inl (e, vm) else Inr vm)"

definition toInt63 :: "'w vm \<Rightarrow> nat \<Rightarrow> ('w, nat) vm_result" where
  "toInt63 vm v = (if v > 0x7FFFFFFFFFFFFFFF then throwVM OutOfGas vm else Inr v)"

subsection \<open>Stack\<close>

text \<open>
  \<open>adjustStack\<close>: the cells that the new pointer shares with the old one keep their contents;
  a cell gained above them holds whatever the array held, here zero, and is written before it
  is read.
\<close>

definition adjustStack :: "nat \<Rightarrow> nat \<Rightarrow> 'w vm \<Rightarrow> ('w, 'w vm) vm_result" where
  "adjustStack removed added vm =
     (let old = m_SPP vm; vm1 = vm\<lparr>m_SP := old\<rparr> in
      if length old < removed then throwVM StackUnderflow vm1
      else if length old - removed + added > 1024 then throwVM OutOfStack vm1
      else Inr (vm1\<lparr>m_SPP := (if added \<le> removed then drop (removed - added) old
                              else replicate (added - removed) 0 @ old)\<rparr>))"

text \<open>\<open>m_SPP[0] = v\<close>.\<close>

definition setSPP0 :: "u256 \<Rightarrow> 'w vm \<Rightarrow> 'w vm" where
  "setSPP0 v vm = vm\<lparr>m_SPP := (m_SPP vm)[0 := v]\<rparr>"

text \<open>\<open>NEXT\<close>.\<close>

definition next_op :: "'w vm \<Rightarrow> 'w vm" where
  "next_op vm = vm\<lparr>m_PC := m_PC vm + 1\<rparr>"

subsection \<open>Gas and memory\<close>

definition memNeed :: "'w vm \<Rightarrow> u256 \<Rightarrow> u256 \<Rightarrow> ('w, nat) vm_result" where
  "memNeed vm offset sz = toInt63 vm (if sz \<noteq> 0 then unat offset + unat sz else 0)"

definition gasForMem :: "'w vm \<Rightarrow> nat \<Rightarrow> ('w, nat) vm_result" where
  "gasForMem vm sz =
     (let s = sz div 32 in
      toInt63 vm (memoryGas (m_schedule vm) * s + s * s div quadCoeffDiv (m_schedule vm)))"

definition updateIOGas :: "'w vm \<Rightarrow> ('w, 'w vm) vm_result" where
  "updateIOGas vm =
     (if m_io_gas vm < m_runGas vm then throwVM OutOfGas vm
      else Inr (vm\<lparr>m_io_gas := m_io_gas vm - m_runGas vm\<rparr>))"

definition addMemGas :: "'w vm \<Rightarrow> ('w, 'w vm) vm_result" where
  "addMemGas vm =
     (if m_newMemSize vm > length (m_mem vm)
      then andThen (gasForMem vm (m_newMemSize vm)) (\<lambda>a.
           andThen (gasForMem vm (length (m_mem vm))) (\<lambda>b.
           andThen (toInt63 vm (a - b)) (\<lambda>d.
           Inr (vm\<lparr>m_runGas := wrap64 (m_runGas vm + d)\<rparr>))))
      else Inr vm)"

definition updateGas :: "'w vm \<Rightarrow> ('w, 'w vm) vm_result" where
  "updateGas vm =
     andThen (addMemGas vm) (\<lambda>vm.
       let copy = wrap64 (copyGas (m_schedule vm) * (wrap64 (m_copyMemSize vm + 31) div 32));
           vm = vm\<lparr>m_runGas := wrap64 (m_runGas vm + copy)\<rparr> in
       if m_io_gas vm < m_runGas vm then throwVM OutOfGas vm else Inr vm)"

text \<open>\<open>m_mem.resize(n)\<close> fills new bytes with zero.\<close>

definition resizeMem :: "nat \<Rightarrow> bytes \<Rightarrow> bytes" where
  "resizeMem n mem = (if n > length mem then mem @ replicate (n - length mem) 0 else mem)"

definition updateMem :: "nat \<Rightarrow> 'w vm \<Rightarrow> ('w, 'w vm) vm_result" where
  "updateMem newMem vm =
     andThen (updateGas (vm\<lparr>m_newMemSize := wrap64 (newMem + 31) div 32 * 32\<rparr>)) (\<lambda>vm.
     Inr (vm\<lparr>m_mem := resizeMem (m_newMemSize vm) (m_mem vm)\<rparr>))"

text \<open>Reading \<open>sz\<close> bytes at an offset, and writing bytes at an offset.\<close>

definition readMem :: "bytes \<Rightarrow> nat \<Rightarrow> nat \<Rightarrow> bytes" where
  "readMem mem off sz = take sz (drop off mem)"

definition writeMem :: "bytes \<Rightarrow> nat \<Rightarrow> bytes \<Rightarrow> bytes" where
  "writeMem mem off bs = take off mem @ bs @ drop (off + length bs) mem"

text \<open>\<open>uint64_t(v)\<close> and \<open>(unsigned)v\<close> of a \<open>u256\<close> keep the low bits.\<close>

definition low64 :: "u256 \<Rightarrow> nat" where
  "low64 v = unat v mod 2 ^ 64"

definition low32 :: "u256 \<Rightarrow> nat" where
  "low32 v = unat v mod 2 ^ 32"

text \<open>
  \<open>index\<close>, the low 64 bits of \<open>bigIndex\<close>, is only used where \<open>bigIndex\<close> is at most \<open>_data.size()\<close>,
  a \<open>size_t\<close>, and so is \<open>bigIndex\<close> itself.
\<close>

definition copyDataToMemory :: "bytes \<Rightarrow> u256 list \<Rightarrow> bytes \<Rightarrow> bytes" where
  "copyDataToMemory dat sp mem =
     (let offset = low64 (sp ! 0); index = unat (sp ! 1); sz = low64 (sp ! 2);
          sizeToBeCopied = (if index + sz > length dat
                            then (if length dat < index then 0 else length dat - index)
                            else sz);
          mem1 = (if sizeToBeCopied > 0 then writeMem mem offset (readMem dat index sizeToBeCopied) else mem)
      in if sz > sizeToBeCopied
         then writeMem mem1 (offset + sizeToBeCopied) (replicate (sz - sizeToBeCopied) 0)
         else mem1)"

subsection \<open>Gas of SSTORE and LOG\<close>

definition updateSSGasPreEIP1283 :: "u256 \<Rightarrow> u256 \<Rightarrow> 'w vm \<Rightarrow> ('w, 'w vm) vm_result" where
  "updateSSGasPreEIP1283 currentValue newValue vm =
     (let sch = m_schedule vm in
      if currentValue = 0 \<and> newValue \<noteq> 0
      then andThen (toInt63 vm (sstoreSetGas sch)) (\<lambda>g. Inr (vm\<lparr>m_runGas := g\<rparr>))
      else if currentValue \<noteq> 0 \<and> newValue = 0
      then andThen (toInt63 vm (sstoreResetGas sch)) (\<lambda>g.
           Inr (vm\<lparr>m_runGas := g, m_ext := addRefunds (int (sstoreRefundGas sch)) (m_ext vm)\<rparr>))
      else andThen (toInt63 vm (sstoreResetGas sch)) (\<lambda>g. Inr (vm\<lparr>m_runGas := g\<rparr>)))"

definition updateSSGasEIP1283 :: "'w host \<Rightarrow> u256 \<Rightarrow> u256 \<Rightarrow> 'w vm \<Rightarrow> 'w vm" where
  "updateSSGasEIP1283 H currentValue newValue vm =
     (let sch = m_schedule vm in
      if currentValue = newValue then vm\<lparr>m_runGas := sstoreUnchangedGas sch\<rparr>
      else
        (let originalValue = h_originalStorageValue H (m_ext vm) (SP vm 0) in
         if originalValue = currentValue
         then (if originalValue = 0 then vm\<lparr>m_runGas := sstoreSetGas sch\<rparr>
               else (let vm = vm\<lparr>m_runGas := sstoreResetGas sch\<rparr> in
                     if newValue = 0
                     then vm\<lparr>m_ext := addRefunds (int (sstoreRefundGas sch)) (m_ext vm)\<rparr>
                     else vm))
         else
           (let vm = vm\<lparr>m_runGas := sstoreUnchangedGas sch\<rparr>;
                vm = (if originalValue \<noteq> 0 \<and> currentValue = 0
                      then vm\<lparr>m_ext := addRefunds (- int (sstoreRefundGas sch)) (m_ext vm)\<rparr> else vm);
                vm = (if originalValue \<noteq> 0 \<and> newValue = 0
                      then vm\<lparr>m_ext := addRefunds (int (sstoreRefundGas sch)) (m_ext vm)\<rparr> else vm)
            in if originalValue = newValue
               then (if originalValue = 0
                     then vm\<lparr>m_ext := addRefunds (int (sstoreRefundGas sch + sstoreRefundNonzeroGas sch)) (m_ext vm)\<rparr>
                     else vm\<lparr>m_ext := addRefunds (int (sstoreRefundNonzeroGas sch)) (m_ext vm)\<rparr>)
               else vm)))"

definition updateSSGas :: "'w host \<Rightarrow> 'w vm \<Rightarrow> ('w, 'w vm) vm_result" where
  "updateSSGas H vm =
     (let currentValue = h_store H (m_ext vm) (SP vm 0); newValue = SP vm 1 in
      if eip1283Mode (m_schedule vm)
      then Inr (updateSSGasEIP1283 H currentValue newValue vm)
      else updateSSGasPreEIP1283 currentValue newValue vm)"

definition logGasMem :: "nat \<Rightarrow> 'w vm \<Rightarrow> ('w, 'w vm) vm_result" where
  "logGasMem n vm =
     (let sch = m_schedule vm in
      andThen (toInt63 vm (logGas sch + logTopicGas sch * n + logDataGas sch * unat (SP vm 1))) (\<lambda>g.
      let vm = vm\<lparr>m_runGas := g\<rparr> in
      andThen (memNeed vm (SP vm 0) (SP vm 1)) (\<lambda>need.
      updateMem need vm)))"

subsection \<open>Fetching an instruction\<close>

text \<open>
  \<open>tierStepGas\<close> has eight entries; the tier of an undefined opcode has number eight, so the
  read goes past the end (\<open>oobStepGas\<close>). The opcode is rejected afterwards.
\<close>

definition stepGas :: "'w host \<Rightarrow> EVMSchedule \<Rightarrow> tier \<Rightarrow> nat" where
  "stepGas H sch t =
     (if tierIndex t < length (tierStepGas sch) then tierStepGas sch ! tierIndex t else oobStepGas H)"

definition fetchInstruction :: "'w host \<Rightarrow> program \<Rightarrow> 'w vm \<Rightarrow> ('w, 'w vm) vm_result" where
  "fetchInstruction H P vm =
     (let op = decode (m_code P ! m_PC vm); (args, ret, t) = metric op in
      andThen (adjustStack args ret (vm\<lparr>m_OP := op\<rparr>)) (\<lambda>vm.
      andThen (toInt63 vm (stepGas H (m_schedule vm) t)) (\<lambda>g.
      Inr (vm\<lparr>m_runGas := g, m_newMemSize := length (m_mem vm), m_copyMemSize := 0\<rparr>))))"

text \<open>\<open>m_runGas = toInt63(g)\<close>.\<close>

definition setRunGas :: "nat \<Rightarrow> 'w vm \<Rightarrow> ('w, 'w vm) vm_result" where
  "setRunGas g vm = andThen (toInt63 vm g) (\<lambda>g. Inr (vm\<lparr>m_runGas := g\<rparr>))"

text \<open>An instruction that only pays its price and writes one result, and one with its own price.\<close>

definition simpleOp :: "('w vm \<Rightarrow> u256) \<Rightarrow> 'w vm \<Rightarrow> ('w, 'w vm) vm_result" where
  "simpleOp f vm = andThen (updateIOGas vm) (\<lambda>vm. Inr (next_op (setSPP0 (f vm) vm)))"

definition pricedOp :: "nat \<Rightarrow> ('w vm \<Rightarrow> u256) \<Rightarrow> 'w vm \<Rightarrow> ('w, 'w vm) vm_result" where
  "pricedOp g f vm = andThen (setRunGas g vm) (simpleOp f)"

text \<open>The place of the first bit set, counted from the most significant one.\<close>

fun leadingZeros :: "nat \<Rightarrow> byte \<Rightarrow> nat" where
  "leadingZeros 0 d = 0"
| "leadingZeros (Suc k) d = (if bit d 7 then 0 else Suc (leadingZeros k (push_bit 1 d)))"

fun firstBitSet :: "bytes \<Rightarrow> nat" where
  "firstBitSet [] = 0"
| "firstBitSet (d # ds) = (if d \<noteq> 0 then leadingZeros 8 d else 8 + firstBitSet ds)"

subsection \<open>What the helpers return\<close>

lemma returns_throwVM [simp]: "returns (throwVM e vm) Q"
  by (simp add: throwVM_def)

lemma returns_throwWhen [simp]: "returns (throwWhen c e vm) Q \<longleftrightarrow> (\<not> c \<longrightarrow> Q vm)"
  by (simp add: throwWhen_def)

lemma returns_toInt63 [simp]: "returns (toInt63 vm n) Q \<longleftrightarrow> (n < 2 ^ 63 \<longrightarrow> Q n)"
  by (simp add: toInt63_def not_less)

lemma returns_setRunGas [simp]:
  "returns (setRunGas g vm) Q \<longleftrightarrow> (g < 2 ^ 63 \<longrightarrow> Q (vm\<lparr>m_runGas := g\<rparr>))"
  by (simp add: setRunGas_def)

lemma returns_updateIOGas [simp]:
  "returns (updateIOGas vm) Q \<longleftrightarrow>
   (m_runGas vm \<le> m_io_gas vm \<longrightarrow> Q (vm\<lparr>m_io_gas := m_io_gas vm - m_runGas vm\<rparr>))"
  by (simp add: updateIOGas_def not_less)

lemma returns_simpleOp [simp]:
  "returns (simpleOp f vm) Q \<longleftrightarrow>
   (m_runGas vm \<le> m_io_gas vm \<longrightarrow>
    (let vm1 = vm\<lparr>m_io_gas := m_io_gas vm - m_runGas vm\<rparr> in Q (next_op (setSPP0 (f vm1) vm1))))"
  by (simp add: simpleOp_def Let_def)

lemma returns_pricedOp [simp]:
  "returns (pricedOp g f vm) Q \<longleftrightarrow> (g < 2 ^ 63 \<longrightarrow> returns (simpleOp f (vm\<lparr>m_runGas := g\<rparr>)) Q)"
  by (simp add: pricedOp_def)

lemma returns_memNeed [simp]:
  "returns (memNeed vm off sz) Q \<longleftrightarrow>
   ((if sz \<noteq> 0 then unat off + unat sz else 0) < 2 ^ 63 \<longrightarrow> Q (if sz \<noteq> 0 then unat off + unat sz else 0))"
  by (simp add: memNeed_def)

subsection \<open>Memory accounting\<close>

definition memCost :: "EVMSchedule \<Rightarrow> nat \<Rightarrow> nat" where
  "memCost sch n = memoryGas sch * (n div 32) + n div 32 * (n div 32) div quadCoeffDiv sch"

definition roundUp32 :: "nat \<Rightarrow> nat" where
  "roundUp32 n = (n + 31) div 32 * 32"

text \<open>The memory is a whole number of words and its price was payable.\<close>

definition mem_ok :: "'w vm \<Rightarrow> bool" where
  "mem_ok vm \<longleftrightarrow> length (m_mem vm) mod 32 = 0 \<and> memCost (m_schedule vm) (length (m_mem vm)) < 2 ^ 63"

lemma gasForMem_memCost: "gasForMem vm n = toInt63 vm (memCost (m_schedule vm) n)"
  by (simp add: gasForMem_def memCost_def Let_def)

lemma memCost_mono: "m \<le> n \<Longrightarrow> memCost sch m \<le> memCost sch n"
  unfolding memCost_def by (intro add_mono mult_mono div_le_mono) auto

lemma memCost_bound:
  assumes "schedule_ok sch" and "memCost sch n < 2 ^ 63"
  shows "n < 2 ^ 54"
proof -
  let ?s = "n div 32"
  have q: "0 < quadCoeffDiv sch" "quadCoeffDiv sch < 2 ^ 32"
    using assms(1) by (simp_all add: schedule_ok_def positivePrices_def boundedPrices_def)
  have "?s * ?s div quadCoeffDiv sch < 2 ^ 63" using assms(2) by (simp add: memCost_def)
  then have "?s * ?s < 2 ^ 63 * quadCoeffDiv sch" using q(1) by (simp only: div_less_iff_less_mult)
  also have "\<dots> < 2 ^ 63 * 2 ^ 32" using q(2) by simp
  finally have lt: "?s * ?s < 2 ^ 95" by simp
  have "?s < 2 ^ 48"
  proof (rule ccontr)
    assume "\<not> ?s < 2 ^ 48"
    then have "(2::nat) ^ 48 * 2 ^ 48 \<le> ?s * ?s" by (intro mult_le_mono) simp_all
    with lt show False by simp
  qed
  then show ?thesis by simp
qed

lemma roundUp32_ge: "n \<le> roundUp32 n" and roundUp32_mod: "roundUp32 n mod 32 = 0"
  unfolding roundUp32_def by presburger+

lemma length_resizeMem [simp]: "length (resizeMem n mem) = max n (length mem)"
  by (simp add: resizeMem_def)

text \<open>
  What \<open>updateMem\<close> does when it returns: the price is the old one plus the price of the growth
  and of the words to copy, exactly (no addition wraps), it can be paid, and the memory covers
  the bytes asked for.
\<close>

lemma returns_updateMem:
  assumes ok: "schedule_ok (m_schedule vm)" "mem_ok vm"
    and n: "n < 2 ^ 63 + 32" and copy: "m_copyMemSize vm \<le> n"
    and run: "m_runGas vm \<le> 2 ^ 40 + 16 * n"
    and Q: "\<And>g mem. \<lbrakk>mem = resizeMem (roundUp32 n) (m_mem vm); n \<le> length mem; length mem mod 32 = 0;
               memCost (m_schedule vm) (length mem) < 2 ^ 63;
               g = m_runGas vm + (memCost (m_schedule vm) (length mem) - memCost (m_schedule vm) (length (m_mem vm)))
                   + copyGas (m_schedule vm) * ((m_copyMemSize vm + 31) div 32);
               m_runGas vm \<le> g; g \<le> m_io_gas vm\<rbrakk>
             \<Longrightarrow> Q (vm\<lparr>m_newMemSize := roundUp32 n, m_runGas := g, m_mem := mem\<rparr>)"
  shows "returns (updateMem n vm) Q"
  unfolding returns_def
proof (intro allI impI)
  fix vm'
  assume res: "updateMem n vm = Inr vm'"
  let ?sch = "m_schedule vm" and ?m = "length (m_mem vm)" and ?new = "roundUp32 n"
  have new: "wrap64 (n + 31) div 32 * 32 = ?new" using n by (simp add: roundUp32_def wrap64_def)
  define d where "d = (if ?new > ?m then memCost ?sch ?new - memCost ?sch ?m else 0)"
  let ?vm1 = "vm\<lparr>m_newMemSize := ?new, m_runGas := wrap64 (m_runGas vm + d)\<rparr>"
  have m: "memCost ?sch ?m < 2 ^ 63" "?m mod 32 = 0" using ok(2) by (simp_all add: mem_ok_def)
  have r64: "m_runGas vm < 2 ^ 64" if "n < 2 ^ 54" using run that by simp
  have "returns (addMemGas (vm\<lparr>m_newMemSize := ?new\<rparr>))
          (\<lambda>x. n < 2 ^ 54 \<and> memCost ?sch (max ?new ?m) < 2 ^ 63 \<and> d < 2 ^ 63 \<and> x = ?vm1)"
  proof (cases "?new > ?m")
    case True
    then show ?thesis
      using memCost_bound [OF ok(1), of ?new] roundUp32_ge [of n]
      by (auto simp: addMemGas_def gasForMem_memCost d_def)
  next
    case False
    have "?m < 2 ^ 54" by (rule memCost_bound [OF ok(1) m(1)])
    with False roundUp32_ge [of n] have "n < 2 ^ 54" by linarith
    with False m r64 show ?thesis by (simp add: addMemGas_def d_def)
  qed
  moreover obtain x where x: "addMemGas (vm\<lparr>m_newMemSize := ?new\<rparr>) = Inr x"
    using res by (auto simp: updateMem_def updateGas_def new andThen_eq_Inr)
  ultimately have n54: "n < 2 ^ 54" and mc: "memCost ?sch (max ?new ?m) < 2 ^ 63"
    and dlt: "d < 2 ^ 63" and x1: "x = ?vm1"
    by (simp_all add: returns_def)
  have cg: "copyGas ?sch < 16" using ok(1) by (simp add: schedule_ok_def boundedPrices_def)
  have words: "(m_copyMemSize vm + 31) div 32 < 2 ^ 50" using copy n54 by simp
  have "copyGas ?sch * ((m_copyMemSize vm + 31) div 32) < 16 * 2 ^ 50"
    using cg words by (intro mult_strict_mono) simp_all
  then have cp: "copyGas ?sch * ((m_copyMemSize vm + 31) div 32) < 2 ^ 54" by simp
  have w1: "wrap64 (m_copyMemSize vm + 31) = m_copyMemSize vm + 31" using copy n54 by simp
  have rg: "m_runGas vm < 2 ^ 60" using run n54 by simp
  let ?run = "m_runGas vm + d + copyGas ?sch * ((m_copyMemSize vm + 31) div 32)"
  have w2: "wrap64 (m_runGas vm + d) = m_runGas vm + d" using rg dlt by (intro wrap64_id) simp
  have w3: "wrap64 (copyGas ?sch * ((m_copyMemSize vm + 31) div 32)) = copyGas ?sch * ((m_copyMemSize vm + 31) div 32)"
    using cp by (intro wrap64_id) simp
  have w4: "wrap64 ?run = ?run" using rg dlt cp by (intro wrap64_id) simp
  have upd: "updateGas (vm\<lparr>m_newMemSize := ?new\<rparr>) =
      (if m_io_gas vm < ?run then throwVM OutOfGas (vm\<lparr>m_newMemSize := ?new, m_runGas := ?run\<rparr>)
       else Inr (vm\<lparr>m_newMemSize := ?new, m_runGas := ?run\<rparr>))"
    unfolding updateGas_def x x1 by (simp only: w1 w2 w3 w4 andThen_Inr Let_def) (simp add: w1 w2 w3 w4)
  have pay: "?run \<le> m_io_gas vm" 
    and vm': "vm' = vm\<lparr>m_newMemSize := ?new, m_runGas := ?run, m_mem := resizeMem ?new (m_mem vm)\<rparr>"
    using res by (auto simp: updateMem_def new upd throwVM_def split: if_splits)
  let ?mem = "resizeMem ?new (m_mem vm)"
  have len: "length ?mem = max ?new ?m" by simp
  have 1: "length ?mem mod 32 = 0" using m(2) roundUp32_mod [of n] by (simp add: max_def)
  have 2: "n \<le> length ?mem" using roundUp32_ge [of n] by simp
  have 3: "memCost ?sch (length ?mem) < 2 ^ 63" using mc by simp
  have 4: "?run = m_runGas vm + (memCost ?sch (length ?mem) - memCost ?sch ?m)
      + copyGas ?sch * ((m_copyMemSize vm + 31) div 32)"
    by (simp add: d_def max_def)
  show "Q vm'" unfolding vm' by (rule Q [OF refl 2 1 3 4 _ pay]) simp
qed

end
