(* ===== verification/Legacy_VM_Calls.thy ===== *)
theory Legacy_VM_Calls
  imports Legacy_VM_State
begin

section \<open>Instructions that call out (libevm/LegacyVMCalls.cpp)\<close>

text \<open>
  \<open>CREATE\<close> and \<open>CREATE2\<close> (\<open>caseCreate\<close>) and the four call instructions (\<open>caseCall\<close> with
  \<open>caseCallSetup\<close>). They run as a step of their own, when the trampoline gets to them.
\<close>

definition createOp :: "'w vm \<Rightarrow> system_op" where
  "createOp vm = (case m_OP vm of System op \<Rightarrow> op | _ \<Rightarrow> CREATE)"

text \<open>\<open>m_runGas += toInt63(g)\<close> under a condition.\<close>

definition addRunGasIf :: "bool \<Rightarrow> nat \<Rightarrow> 'w vm \<Rightarrow> ('w, 'w vm) vm_result" where
  "addRunGasIf c n vm =
     (if c then andThen (toInt63 vm n) (\<lambda>g. Inr (vm\<lparr>m_runGas := wrap64 (m_runGas vm + g)\<rparr>)) else Inr vm)"

text \<open>The charges of a creation, up to the point where the arguments have been paid for.\<close>

definition createCharge :: "'w vm \<Rightarrow> ('w, 'w vm) vm_result" where
  "createCharge vm =
     andThen (setRunGas (createGas (m_schedule vm)) (vm\<lparr>m_bounce := InterpretCases\<rparr>)) (\<lambda>vm.
     andThen (addRunGasIf (createOp vm = CREATE2)
                ((unat (SP vm 2) + 31) div 32 * sha3WordGas (m_schedule vm)) vm) (\<lambda>vm.
     andThen (memNeed vm (SP vm 1) (SP vm 2)) (\<lambda>need.
     andThen (updateMem need vm) updateIOGas)))"

text \<open>The gas a creation passes on: all, or all but one 64th.\<close>

definition createGasLimit :: "'w vm \<Rightarrow> u256" where
  "createGasLimit vm =
     (let io_gas = word_of_nat (m_io_gas vm) in
      if staticCallDepthLimit (m_schedule vm) then io_gas else io_gas - io_gas div 64)"

definition createSalt :: "'w vm \<Rightarrow> u256" where
  "createSalt vm = (if createOp vm = CREATE2 then SP vm 3 else 0)"

definition finishCreate :: "'w host \<Rightarrow> 'w vm \<Rightarrow> 'w vm" where
  "finishCreate H vm =
     (if h_balance H (m_ext vm) (myAddress (m_ext vm)) \<ge> SP vm 0 \<and> depth (m_ext vm) < 1024
      then
        (let initCode = readMem (m_mem vm) (low64 (SP vm 1)) (low64 (SP vm 2));
             (ext', gas, addr, out) =
               h_create H (m_ext vm) (SP vm 0) (createGasLimit vm) initCode (createOp vm) (createSalt vm)
         in setSPP0 (fromAddress addr)
              (vm\<lparr>m_returnData := out, m_ext := ext',
                  m_io_gas := low64 (word_of_nat (m_io_gas vm) - (createGasLimit vm - gas))\<rparr>))
      else setSPP0 0 (vm\<lparr>m_returnData := []\<rparr>))"

definition caseCreate :: "'w host \<Rightarrow> 'w vm \<Rightarrow> ('w, 'w vm) vm_result" where
  "caseCreate H vm = andThen (createCharge vm) (\<lambda>vm. Inr (next_op (finishCreate H vm)))"

definition haveValueArg :: "system_op \<Rightarrow> bool" where
  "haveValueArg op \<longleftrightarrow> op = CALL \<or> op = CALLCODE"

definition sizesOffset :: "system_op \<Rightarrow> nat" where
  "sizesOffset op = (if haveValueArg op then 3 else 2)"

text \<open>The static charges of a call, with the memory for its input and output.\<close>

definition callCharge :: "'w host \<Rightarrow> 'w vm \<Rightarrow> ('w, 'w vm) vm_result" where
  "callCharge H vm =
     (let op = createOp vm; off = sizesOffset op in
      andThen (setRunGas (callGas (m_schedule vm)) vm) (\<lambda>vm.
      andThen (addRunGasIf (op = CALL \<and> \<not> h_exists H (m_ext vm) (asAddress (SP vm 1))
                            \<and> (SP vm 2 > 0 \<or> zeroValueTransferChargesNewAccountGas (m_schedule vm)))
                 (callNewAccountGas (m_schedule vm)) vm) (\<lambda>vm.
      andThen (addRunGasIf (haveValueArg op \<and> SP vm 2 > 0) (callValueTransferGas (m_schedule vm)) vm) (\<lambda>vm.
      andThen (memNeed vm (SP vm off) (SP vm (off + 1))) (\<lambda>inputMemNeed.
      andThen (memNeed vm (SP vm (off + 2)) (SP vm (off + 3))) (\<lambda>outputMemNeed.
      andThen (updateMem (max inputMemNeed outputMemNeed)
                 (vm\<lparr>m_newMemSize := max inputMemNeed outputMemNeed\<rparr>)) updateIOGas))))))"

text \<open>The gas passed on: what was asked for, from \<open>EIP150\<close> on at most all but one 64th.\<close>

definition callGasLimit :: "'w vm \<Rightarrow> u256" where
  "callGasLimit vm =
     (if staticCallDepthLimit (m_schedule vm) then SP vm 0
      else min (SP vm 0) (word_of_nat (m_io_gas vm - m_io_gas vm div 64)))"

definition callParams :: "u256 \<Rightarrow> 'w vm \<Rightarrow> CallParameters" where
  "callParams gas vm =
     (let op = createOp vm; off = sizesOffset op; e = m_ext vm;
          transfer = (if haveValueArg op then SP vm 2 else 0) in
      \<lparr>senderAddress = (if op = DELEGATECALL then caller e else myAddress e),
       codeAddress = asAddress (SP vm 1),
       receiveAddress = (if op = CALL \<or> op = STATICCALL then asAddress (SP vm 1) else myAddress e),
       valueTransfer = transfer,
       apparentValue = (if op = DELEGATECALL then ext_value e else transfer),
       cp_gas = (if haveValueArg op \<and> SP vm 2 > 0
                 then gas + word_of_nat (callStipend (m_schedule vm)) else gas),
       cp_data = readMem (m_mem vm) (low64 (SP vm off)) (low64 (SP vm (off + 1))),
       cp_staticCall = (op = STATICCALL \<or> staticCall e)\<rparr>)"

text \<open>
  \<open>caseCallSetup\<close>: the parameters of the call, and where its output goes in memory; no place
  when the balance or the depth forbids the call.
\<close>

definition caseCallSetup ::
  "'w host \<Rightarrow> 'w vm \<Rightarrow> ('w, 'w vm \<times> CallParameters \<times> (nat \<times> nat) option) vm_result" where
  "caseCallSetup H vm =
     andThen (callCharge H vm) (\<lambda>vm.
     let gas = callGasLimit vm in
     andThen (setRunGas (unat gas) vm) (\<lambda>vm.
     andThen (updateIOGas vm) (\<lambda>vm.
     let params = callParams gas vm; off = sizesOffset (createOp vm); e = m_ext vm in
     Inr (vm, params,
          if h_balance H e (myAddress e) \<ge> valueTransfer params \<and> depth e < 1024
          then Some (low64 (SP vm (off + 2)), low64 (SP vm (off + 3))) else None))))"

definition finishCall :: "'w host \<Rightarrow> 'w vm \<times> CallParameters \<times> (nat \<times> nat) option \<Rightarrow> 'w vm" where
  "finishCall H =
     (\<lambda>(vm, params, place).
       case place of
         Some (outOff, outSize) \<Rightarrow>
           (let (ext', gas, success, out) = h_call H (m_ext vm) params in
            setSPP0 (if success then 1 else 0)
              (vm\<lparr>m_returnData := out, m_ext := ext',
                  m_mem := writeMem (m_mem vm) outOff (take (min (length out) outSize) out),
                  m_io_gas := wrap64 (m_io_gas vm + low64 gas)\<rparr>))
       | None \<Rightarrow> setSPP0 0 (vm\<lparr>m_io_gas := wrap64 (m_io_gas vm + low64 (cp_gas params))\<rparr>))"

definition caseCall :: "'w host \<Rightarrow> 'w vm \<Rightarrow> ('w, 'w vm) vm_result" where
  "caseCall H vm =
     andThen (caseCallSetup H (vm\<lparr>m_bounce := InterpretCases, m_returnData := []\<rparr>))
       (\<lambda>r. Inr (next_op (finishCall H r)))"

end
