(* ===== verification/Legacy_VM_Cases.thy ===== *)
theory Legacy_VM_Cases
  imports Legacy_VM_Opt Legacy_VM_Calls "HOL-Library.Signed_Division"
begin

section \<open>The instructions (libevm/LegacyVM.cpp, interpretCases)\<close>

text \<open>
  One function per row of the opcode enumeration, each case in the order of the code: its
  guards, its price, the memory it needs, the payment (\<open>updateIOGas\<close>), and its effect. An
  instruction that ends the run sets \<open>m_bounce\<close> to \<open>Finished\<close>, one that calls out sets it to the
  function that makes the call.
\<close>

subsection \<open>Arithmetic\<close>

definition divWorkaround :: "int \<Rightarrow> int \<Rightarrow> int" where
  "divWorkaround a b = a sdiv b"

definition modWorkaround :: "int \<Rightarrow> int \<Rightarrow> int" where
  "modWorkaround a b = a smod b"

definition signExtend :: "u256 \<Rightarrow> u256 \<Rightarrow> u256" where
  "signExtend pos number =
     (if pos < 31
      then (let testBit = unat pos * 8 + 7; mask = push_bit testBit 1 - 1 in
            if bit number testBit then number OR NOT mask else number AND mask)
      else number)"

fun arithValue :: "arith_op \<Rightarrow> u256 list \<Rightarrow> u256" where
  "arithValue ADD sp = sp ! 0 + sp ! 1"
| "arithValue MUL sp = sp ! 0 * sp ! 1"
| "arithValue SUB sp = sp ! 0 - sp ! 1"
| "arithValue DIV sp =
     (if sp ! 1 \<noteq> 0 then word_of_int (divWorkaround (uint (sp ! 0)) (uint (sp ! 1))) else 0)"
| "arithValue SDIV sp = (if sp ! 1 \<noteq> 0 then s2u (divWorkaround (u2s (sp ! 0)) (u2s (sp ! 1))) else 0)"
| "arithValue MOD sp =
     (if sp ! 1 \<noteq> 0 then word_of_int (modWorkaround (uint (sp ! 0)) (uint (sp ! 1))) else 0)"
| "arithValue SMOD sp = (if sp ! 1 \<noteq> 0 then s2u (modWorkaround (u2s (sp ! 0)) (u2s (sp ! 1))) else 0)"
| "arithValue ADDMOD sp =
     (if sp ! 2 \<noteq> 0 then ucast ((ucast (sp ! 0) + ucast (sp ! 1) :: u512) mod ucast (sp ! 2)) else 0)"
| "arithValue MULMOD sp =
     (if sp ! 2 \<noteq> 0 then ucast ((ucast (sp ! 0) * ucast (sp ! 1) :: u512) mod ucast (sp ! 2)) else 0)"
| "arithValue EXP sp = exp256 (sp ! 0) (sp ! 1)"
| "arithValue SIGNEXTEND sp = signExtend (sp ! 0) (sp ! 1)"

definition expPrice :: "EVMSchedule \<Rightarrow> u256 \<Rightarrow> nat" where
  "expPrice sch expon =
     expGas sch + expByteGas sch * (32 - firstBitSet (toBigEndian 32 (unat expon)) div 8)"

definition caseArith :: "arith_op \<Rightarrow> 'w vm \<Rightarrow> ('w, 'w vm) vm_result" where
  "caseArith op vm =
     (if op = EXP then pricedOp (expPrice (m_schedule vm) (SP vm 1)) (\<lambda>vm. arithValue EXP (m_SP vm)) vm
      else simpleOp (\<lambda>vm. arithValue op (m_SP vm)) vm)"

subsection \<open>Comparison and bit operations\<close>

definition boolWord :: "bool \<Rightarrow> u256" where
  "boolWord b = (if b then 1 else 0)"

definition sarValue :: "u256 \<Rightarrow> u256 \<Rightarrow> u256" where
  "sarValue shift shiftee =
     (let hibit = push_bit 255 1; allbits = - 1 in
      if shift \<ge> 256 then (if shiftee AND hibit \<noteq> 0 then allbits else 0)
      else (let amount = unat shift; v = drop_bit amount shiftee in
            if shiftee AND hibit \<noteq> 0 then v OR push_bit (256 - amount) allbits else v))"

fun logicValue :: "logic_op \<Rightarrow> u256 list \<Rightarrow> u256" where
  "logicValue LT sp = boolWord (sp ! 0 < sp ! 1)"
| "logicValue GT sp = boolWord (sp ! 0 > sp ! 1)"
| "logicValue SLT sp = boolWord (u2s (sp ! 0) < u2s (sp ! 1))"
| "logicValue SGT sp = boolWord (u2s (sp ! 0) > u2s (sp ! 1))"
| "logicValue EQ sp = boolWord (sp ! 0 = sp ! 1)"
| "logicValue ISZERO sp = (if sp ! 0 \<noteq> 0 then 0 else 1)"
| "logicValue opAND sp = sp ! 0 AND sp ! 1"
| "logicValue opOR sp = sp ! 0 OR sp ! 1"
| "logicValue opXOR sp = sp ! 0 XOR sp ! 1"
| "logicValue opNOT sp = NOT (sp ! 0)"
| "logicValue BYTE sp =
     (if sp ! 0 < 32 then drop_bit (unat (8 * (31 - sp ! 0))) (sp ! 1) AND 0xff else 0)"
| "logicValue SHL sp = (if sp ! 0 \<ge> 256 then 0 else push_bit (unat (sp ! 0)) (sp ! 1))"
| "logicValue SHR sp = (if sp ! 0 \<ge> 256 then 0 else drop_bit (unat (sp ! 0)) (sp ! 1))"
| "logicValue SAR sp = sarValue (sp ! 0) (sp ! 1)"

definition isShift :: "logic_op \<Rightarrow> bool" where
  "isShift op \<longleftrightarrow> op = SHL \<or> op = SHR \<or> op = SAR"

definition caseLogic :: "logic_op \<Rightarrow> 'w vm \<Rightarrow> ('w, 'w vm) vm_result" where
  "caseLogic op vm =
     andThen (throwWhen (isShift op \<and> \<not> haveBitwiseShifting (m_schedule vm)) BadInstruction vm)
       (simpleOp (\<lambda>vm. logicValue op (m_SP vm)))"

subsection \<open>Hashing and logging\<close>

definition caseSha3 :: "'w host \<Rightarrow> 'w vm \<Rightarrow> ('w, 'w vm) vm_result" where
  "caseSha3 H vm =
     (let sch = m_schedule vm in
      andThen (setRunGas (sha3Gas sch + (unat (SP vm 1) + 31) div 32 * sha3WordGas sch) vm) (\<lambda>vm.
      andThen (memNeed vm (SP vm 0) (SP vm 1)) (\<lambda>need.
      andThen (updateMem need vm)
        (simpleOp (\<lambda>vm. h_sha3 H (readMem (m_mem vm) (low64 (SP vm 0)) (low64 (SP vm 1))))))))"

definition caseLog :: "nat \<Rightarrow> 'w vm \<Rightarrow> ('w, 'w vm) vm_result" where
  "caseLog n vm =
     andThen (throwWhen (staticCall (m_ext vm)) DisallowedStateChange vm) (\<lambda>vm.
     andThen (logGasMem n vm) (\<lambda>vm.
     andThen (updateIOGas vm) (\<lambda>vm.
     Inr (next_op (vm\<lparr>m_ext := ext_log (take n (drop 2 (m_SP vm)))
                          (readMem (m_mem vm) (low64 (SP vm 0)) (low64 (SP vm 1))) (m_ext vm)\<rparr>)))))"

subsection \<open>Environment\<close>

text \<open>\<open>CALLDATALOAD\<close>: 32 bytes of the input, with zeros behind its end.\<close>

definition callDataLoad :: "bytes \<Rightarrow> u256 \<Rightarrow> u256" where
  "callDataLoad dat pos =
     (if unat pos + 31 < length dat
      then word_of_nat (fromBigEndian (readMem dat (unat pos) 32))
      else if unat pos \<ge> length dat then 0
      else word_of_nat (fromBigEndian
             (map (\<lambda>j. if low64 pos + j < length dat then dat ! (low64 pos + j) else 0) [0..<32])))"

text \<open>The three instructions that copy a byte string to memory.\<close>

definition copyOp :: "bytes \<Rightarrow> nat \<Rightarrow> 'w vm \<Rightarrow> ('w, 'w vm) vm_result" where
  "copyOp dat k vm =
     andThen (toInt63 vm (unat (SP vm (k + 2)))) (\<lambda>n.
     let vm = vm\<lparr>m_copyMemSize := n\<rparr> in
     andThen (memNeed vm (SP vm k) (SP vm (k + 2))) (\<lambda>need.
     andThen (updateMem need vm) (\<lambda>vm.
     andThen (updateIOGas vm) (\<lambda>vm.
     Inr (next_op (vm\<lparr>m_mem := copyDataToMemory dat (drop k (m_SP vm)) (m_mem vm)\<rparr>))))))"

fun caseEnv :: "'w host \<Rightarrow> env_op \<Rightarrow> 'w vm \<Rightarrow> ('w, 'w vm) vm_result" where
  "caseEnv H ADDRESS vm = simpleOp (\<lambda>vm. fromAddress (myAddress (m_ext vm))) vm"
| "caseEnv H BALANCE vm =
     pricedOp (balanceGas (m_schedule vm)) (\<lambda>vm. h_balance H (m_ext vm) (asAddress (SP vm 0))) vm"
| "caseEnv H ORIGIN vm = simpleOp (\<lambda>vm. fromAddress (origin (m_ext vm))) vm"
| "caseEnv H CALLER vm = simpleOp (\<lambda>vm. fromAddress (caller (m_ext vm))) vm"
| "caseEnv H CALLVALUE vm = simpleOp (\<lambda>vm. ext_value (m_ext vm)) vm"
| "caseEnv H CALLDATALOAD vm = simpleOp (\<lambda>vm. callDataLoad (ext_data (m_ext vm)) (SP vm 0)) vm"
| "caseEnv H CALLDATASIZE vm = simpleOp (\<lambda>vm. word_of_nat (length (ext_data (m_ext vm)))) vm"
| "caseEnv H CALLDATACOPY vm = copyOp (ext_data (m_ext vm)) 0 vm"
| "caseEnv H CODESIZE vm = simpleOp (\<lambda>vm. word_of_nat (length (ext_code (m_ext vm)))) vm"
| "caseEnv H CODECOPY vm = copyOp (ext_code (m_ext vm)) 0 vm"
| "caseEnv H GASPRICE vm = simpleOp (\<lambda>vm. gasPrice (m_ext vm)) vm"
| "caseEnv H EXTCODESIZE vm =
     pricedOp (extcodesizeGas (m_schedule vm))
       (\<lambda>vm. word_of_nat (h_codeSizeAt H (m_ext vm) (asAddress (SP vm 0)))) vm"
| "caseEnv H EXTCODECOPY vm =
     andThen (setRunGas (extcodecopyGas (m_schedule vm)) vm) (\<lambda>vm.
     copyOp (h_codeAt H (m_ext vm) (asAddress (SP vm 0))) 1 vm)"
| "caseEnv H RETURNDATASIZE vm =
     andThen (throwWhen (\<not> haveReturnData (m_schedule vm)) BadInstruction vm)
       (simpleOp (\<lambda>vm. word_of_nat (length (m_returnData vm))))"
| "caseEnv H RETURNDATACOPY vm =
     andThen (throwWhen (\<not> haveReturnData (m_schedule vm)) BadInstruction vm) (\<lambda>vm.
     andThen (throwWhen (length (m_returnData vm) < unat (SP vm 1) + unat (SP vm 2)) BufferOverrun vm)
       (\<lambda>vm. copyOp (m_returnData vm) 0 vm))"
| "caseEnv H EXTCODEHASH vm =
     andThen (throwWhen (\<not> haveExtcodehash (m_schedule vm)) BadInstruction vm) (\<lambda>vm.
     pricedOp (extcodehashGas (m_schedule vm))
       (\<lambda>vm. h_codeHashAt H (m_ext vm) (asAddress (SP vm 0))) vm)"

fun caseBlock :: "'w host \<Rightarrow> block_op \<Rightarrow> 'w vm \<Rightarrow> ('w, 'w vm) vm_result" where
  "caseBlock H BLOCKHASH vm =
     andThen (setRunGas (blockhashGas (m_schedule vm)) vm) (\<lambda>vm.
     andThen (updateIOGas vm) (\<lambda>vm.
     let (h, e) = h_blockHash H (m_ext vm) (SP vm 0) in Inr (next_op (setSPP0 h (vm\<lparr>m_ext := e\<rparr>)))))"
| "caseBlock H COINBASE vm = simpleOp (\<lambda>vm. fromAddress (env_author (envInfo (m_ext vm)))) vm"
| "caseBlock H TIMESTAMP vm = simpleOp (\<lambda>vm. word_of_int (env_timestamp (envInfo (m_ext vm)))) vm"
| "caseBlock H NUMBER vm = simpleOp (\<lambda>vm. word_of_int (env_number (envInfo (m_ext vm)))) vm"
| "caseBlock H DIFFICULTY vm = simpleOp (\<lambda>vm. env_difficulty (envInfo (m_ext vm))) vm"
| "caseBlock H GASLIMIT vm = simpleOp (\<lambda>vm. env_gasLimit (envInfo (m_ext vm))) vm"

subsection \<open>Memory, storage and flow\<close>

text \<open>The memory charge of \<open>MLOAD\<close>, \<open>MSTORE\<close> and \<open>MSTORE8\<close>.\<close>

definition touchMem :: "nat \<Rightarrow> 'w vm \<Rightarrow> ('w, 'w vm) vm_result" where
  "touchMem n vm =
     andThen (toInt63 vm (unat (SP vm 0))) (\<lambda>a. andThen (updateMem (a + n) vm) updateIOGas)"

definition jumpTo :: "program \<Rightarrow> 'w vm \<Rightarrow> ('w, 'w vm) vm_result" where
  "jumpTo P vm = andThen (verifyJumpDest P (SP vm 0) vm) (\<lambda>pc. Inr (vm\<lparr>m_PC := pc\<rparr>))"

fun caseStore :: "'w host \<Rightarrow> program \<Rightarrow> store_op \<Rightarrow> 'w vm \<Rightarrow> ('w, 'w vm) vm_result" where
  "caseStore H P POP vm = andThen (updateIOGas vm) (\<lambda>vm. Inr (next_op vm))"
| "caseStore H P MLOAD vm =
     andThen (touchMem 32 vm) (\<lambda>vm.
     Inr (next_op (setSPP0 (word_of_nat (fromBigEndian (readMem (m_mem vm) (low32 (SP vm 0)) 32))) vm)))"
| "caseStore H P MSTORE vm =
     andThen (touchMem 32 vm) (\<lambda>vm.
     Inr (next_op (vm\<lparr>m_mem := writeMem (m_mem vm) (low32 (SP vm 0)) (toBigEndian 32 (unat (SP vm 1)))\<rparr>)))"
| "caseStore H P MSTORE8 vm =
     andThen (touchMem 1 vm) (\<lambda>vm.
     Inr (next_op (vm\<lparr>m_mem := writeMem (m_mem vm) (low32 (SP vm 0)) [ucast (SP vm 1 AND 0xff)]\<rparr>)))"
| "caseStore H P SLOAD vm =
     pricedOp (sloadGas (m_schedule vm)) (\<lambda>vm. h_store H (m_ext vm) (SP vm 0)) vm"
| "caseStore H P SSTORE vm =
     andThen (throwWhen (staticCall (m_ext vm)) DisallowedStateChange vm) (\<lambda>vm.
     andThen (updateSSGas H vm) (\<lambda>vm.
     andThen (updateIOGas vm) (\<lambda>vm.
     Inr (next_op (vm\<lparr>m_ext := h_setStore H (m_ext vm) (SP vm 0) (SP vm 1)\<rparr>)))))"
| "caseStore H P JUMP vm = andThen (updateIOGas vm) (jumpTo P)"
| "caseStore H P JUMPI vm =
     andThen (updateIOGas vm) (\<lambda>vm. if SP vm 1 \<noteq> 0 then jumpTo P vm else Inr (next_op vm))"
| "caseStore H P PC vm = simpleOp (\<lambda>vm. word_of_nat (m_PC vm)) vm"
| "caseStore H P MSIZE vm = simpleOp (\<lambda>vm. word_of_nat (length (m_mem vm))) vm"
| "caseStore H P GAS vm = simpleOp (\<lambda>vm. word_of_nat (m_io_gas vm)) vm"
| "caseStore H P JUMPDEST vm =
     andThen (updateIOGas (vm\<lparr>m_runGas := 1\<rparr>)) (\<lambda>vm. Inr (next_op vm))"

text \<open>The synthetic opcodes exist only when the code was optimised.\<close>

fun caseSynth :: "'w host \<Rightarrow> program \<Rightarrow> synth_op \<Rightarrow> 'w vm \<Rightarrow> ('w, 'w vm) vm_result" where
  "caseSynth H P PUSHC vm =
     andThen (throwWhen (\<not> evm_optimize H) BadInstruction vm) (\<lambda>vm.
     andThen (updateIOGas vm) (\<lambda>vm.
     let pc = m_PC vm; off = unat (m_code P ! (pc + 1)) * 256 + unat (m_code P ! (pc + 2));
         pc' = pc + 3 + unat (m_code P ! (pc + 3))
     in Inr (setSPP0 (m_pool P ! off) (vm\<lparr>m_PC := pc'\<rparr>))))"
| "caseSynth H P JUMPC vm =
     andThen (throwWhen (\<not> evm_optimize H) BadInstruction vm) (\<lambda>vm.
     andThen (updateIOGas vm) (\<lambda>vm. Inr (vm\<lparr>m_PC := low64 (SP vm 0)\<rparr>)))"
| "caseSynth H P JUMPCI vm =
     andThen (throwWhen (\<not> evm_optimize H) BadInstruction vm) (\<lambda>vm.
     andThen (updateIOGas vm) (\<lambda>vm.
     if SP vm 1 \<noteq> 0 then Inr (vm\<lparr>m_PC := low64 (SP vm 0)\<rparr>) else Inr (next_op vm)))"

definition casePush :: "program \<Rightarrow> nat \<Rightarrow> 'w vm \<Rightarrow> ('w, 'w vm) vm_result" where
  "casePush P n vm =
     andThen (updateIOGas vm) (\<lambda>vm.
     let v = (if n = 1 then ucast (m_code P ! (m_PC vm + 1))
              else foldl shiftIn 0 (take n (drop (m_PC vm + 1) (m_code P))))
     in Inr (setSPP0 v (vm\<lparr>m_PC := m_PC vm + n + 1\<rparr>)))"

definition caseDup :: "nat \<Rightarrow> 'w vm \<Rightarrow> ('w, 'w vm) vm_result" where
  "caseDup n vm = simpleOp (\<lambda>vm. SP vm (n - 1)) vm"

definition caseSwap :: "nat \<Rightarrow> 'w vm \<Rightarrow> ('w, 'w vm) vm_result" where
  "caseSwap n vm =
     andThen (updateIOGas vm) (\<lambda>vm.
     Inr (next_op (vm\<lparr>m_SPP := (m_SPP vm)[0 := SP vm n, n := SP vm 0]\<rparr>)))"

subsection \<open>System operations\<close>

fun caseSystem :: "'w host \<Rightarrow> system_op \<Rightarrow> 'w vm \<Rightarrow> ('w, 'w vm) vm_result" where
  "caseSystem H CREATE2 vm =
     andThen (throwWhen (\<not> haveCreate2 (m_schedule vm)) BadInstruction vm) (\<lambda>vm.
     andThen (throwWhen (staticCall (m_ext vm)) DisallowedStateChange vm) (\<lambda>vm.
     Inr (vm\<lparr>m_bounce := CaseCreate\<rparr>)))"
| "caseSystem H CREATE vm =
     andThen (throwWhen (staticCall (m_ext vm)) DisallowedStateChange vm) (\<lambda>vm.
     Inr (vm\<lparr>m_bounce := CaseCreate\<rparr>))"
| "caseSystem H DELEGATECALL vm =
     andThen (throwWhen (\<not> haveDelegateCall (m_schedule vm)) BadInstruction vm) (\<lambda>vm.
     Inr (vm\<lparr>m_bounce := CaseCall\<rparr>))"
| "caseSystem H STATICCALL vm =
     andThen (throwWhen (\<not> haveStaticCall (m_schedule vm)) BadInstruction vm) (\<lambda>vm.
     Inr (vm\<lparr>m_bounce := CaseCall\<rparr>))"
| "caseSystem H CALL vm =
     andThen (throwWhen (staticCall (m_ext vm) \<and> SP vm 2 \<noteq> 0) DisallowedStateChange vm) (\<lambda>vm.
     Inr (vm\<lparr>m_bounce := CaseCall\<rparr>))"
| "caseSystem H CALLCODE vm = Inr (vm\<lparr>m_bounce := CaseCall\<rparr>)"
| "caseSystem H RETURN vm =
     andThen (memNeed vm (SP vm 0) (SP vm 1)) (\<lambda>need.
     andThen (updateMem need (vm\<lparr>m_copyMemSize := 0\<rparr>)) (\<lambda>vm.
     andThen (updateIOGas vm) (\<lambda>vm.
     Inr (vm\<lparr>m_output := readMem (m_mem vm) (low64 (SP vm 0)) (low64 (SP vm 1)), m_mem := [],
             m_bounce := Finished\<rparr>))))"
| "caseSystem H REVERT vm =
     andThen (throwWhen (\<not> haveRevert (m_schedule vm)) BadInstruction vm) (\<lambda>vm.
     andThen (memNeed vm (SP vm 0) (SP vm 1)) (\<lambda>need.
     andThen (updateMem need (vm\<lparr>m_copyMemSize := 0\<rparr>)) (\<lambda>vm.
     andThen (updateIOGas vm) (\<lambda>vm.
     throwVM (RevertInstruction (readMem (m_mem vm) (low64 (SP vm 0)) (low64 (SP vm 1)))) vm))))"
| "caseSystem H SUICIDE vm =
     andThen (throwWhen (staticCall (m_ext vm)) DisallowedStateChange vm) (\<lambda>vm.
     andThen (setRunGas (suicideGas (m_schedule vm)) vm) (\<lambda>vm.
     let e = m_ext vm; sch = m_schedule vm; dest = asAddress (SP vm 0);
         vm = (if (h_balance H e (myAddress e) > 0 \<or> zeroValueTransferChargesNewAccountGas sch)
                  \<and> suicideChargesNewAccountGas sch \<and> \<not> h_exists H e dest
               then vm\<lparr>m_runGas := wrap64 (m_runGas vm + callNewAccountGas sch)\<rparr> else vm)
     in andThen (updateIOGas vm) (\<lambda>vm.
        Inr (vm\<lparr>m_ext := h_suicide H (m_ext vm) dest, m_bounce := Finished\<rparr>))))"
| "caseSystem H INVALID vm = throwVM BadInstruction vm"

subsection \<open>The switch\<close>

text \<open>The opcodes of \<open>EIP_615\<close> and \<open>EIP_616\<close>, which are not compiled in.\<close>

definition caseSubroutine :: "'w vm \<Rightarrow> ('w, 'w vm) vm_result" where
  "caseSubroutine vm = throwVM BadInstruction vm"

definition caseSimd :: "'w vm \<Rightarrow> ('w, 'w vm) vm_result" where
  "caseSimd vm = throwVM BadInstruction vm"

fun caseOf :: "'w host \<Rightarrow> program \<Rightarrow> instruction \<Rightarrow> 'w vm \<Rightarrow> ('w, 'w vm) vm_result" where
  "caseOf H P STOP vm = andThen (updateIOGas vm) (\<lambda>vm. Inr (vm\<lparr>m_bounce := Finished\<rparr>))"
| "caseOf H P SHA3 vm = caseSha3 H vm"
| "caseOf H P (Arith op) vm = caseArith op vm"
| "caseOf H P (Logic op) vm = caseLogic op vm"
| "caseOf H P (Env op) vm = caseEnv H op vm"
| "caseOf H P (Block op) vm = caseBlock H op vm"
| "caseOf H P (Store op) vm = caseStore H P op vm"
| "caseOf H P (Synth op) vm = caseSynth H P op vm"
| "caseOf H P (System op) vm = caseSystem H op vm"
| "caseOf H P (PUSH n) vm = casePush P n vm"
| "caseOf H P (DUP n) vm = caseDup n vm"
| "caseOf H P (SWAP n) vm = caseSwap n vm"
| "caseOf H P (LOG n) vm = caseLog n vm"
| "caseOf H P (SUBROUTINE n) vm = caseSubroutine vm"
| "caseOf H P (SIMD n) vm = caseSimd vm"
| "caseOf H P (UNDEFINED n) vm = throwVM BadInstruction vm"

end
