(* ===== verification/Legacy_VM.thy ===== *)
theory Legacy_VM
  imports Legacy_VM_Cases
begin

section \<open>Running the interpreter (libevm/LegacyVM.cpp, exec)\<close>

subsection \<open>The loop\<close>

text \<open>
  \<open>interpretCases\<close> runs one instruction here; the loop inside it and the trampoline of \<open>exec\<close>
  are the one loop of \<open>runVM\<close>, which goes on as long as \<open>m_bounce\<close> says.
\<close>

definition interpretCases :: "'w host \<Rightarrow> program \<Rightarrow> 'w vm \<Rightarrow> ('w, 'w vm) vm_result" where
  "interpretCases H P vm =
     andThen (fetchInstruction H P vm) (\<lambda>vm. caseOf H P (m_OP vm) vm)"

text \<open>The same with the dispatch table of the GCC build.\<close>

definition interpretTable :: "'w host \<Rightarrow> program \<Rightarrow> 'w vm \<Rightarrow> ('w, 'w vm) vm_result" where
  "interpretTable H P vm =
     andThen (fetchInstruction H P vm) (\<lambda>vm'. caseOf H P (jumpTable (m_code P ! m_PC vm)) vm')"

definition bounceStep :: "'w host \<Rightarrow> program \<Rightarrow> 'w vm \<Rightarrow> ('w, 'w vm) vm_result" where
  "bounceStep H P vm =
     (case m_bounce vm of
        InterpretCases \<Rightarrow> interpretCases H P vm
      | CaseCreate \<Rightarrow> caseCreate H vm
      | CaseCall \<Rightarrow> caseCall H vm
      | Finished \<Rightarrow> Inr vm)"

fun runVM :: "nat \<Rightarrow> 'w host \<Rightarrow> program \<Rightarrow> 'w vm \<Rightarrow> ('w, 'w vm) vm_result option" where
  "runVM 0 H P vm = None"
| "runVM (Suc n) H P vm =
     (case bounceStep H P vm of
        Inl x \<Rightarrow> Some (Inl x)
      | Inr vm' \<Rightarrow> if m_bounce vm' = Finished then Some (Inr vm') else runVM n H P vm')"

definition initVM :: "'w host \<Rightarrow> 'w ext \<Rightarrow> u256 \<Rightarrow> 'w vm" where
  "initVM H e io_gas =
     \<lparr>m_io_gas = low64 io_gas, m_ext = e, m_bounce = InterpretCases, m_schedule = h_evmSchedule H e,
      m_output = [], m_mem = [], m_returnData = [], m_OP = STOP, m_PC = 0, m_SP = [], m_SPP = [],
      m_runGas = 0, m_newMemSize = 0, m_copyMemSize = 0\<rparr>"

text \<open>
  The result of \<open>exec\<close>: the output or the exception, the gas left in \<open>_io_gas\<close> (written on
  both paths), and the context. The fuel is twice the gas and three: see \<open>exec_terminates\<close>.
\<close>

definition exec :: "'w host \<Rightarrow> 'w ext \<Rightarrow> u256 \<Rightarrow> ((vm_exception + bytes) \<times> u256 \<times> 'w ext) option" where
  "exec H e io_gas =
     (let vm = initVM H e io_gas; P = optimize (evm_optimize H) (ext_code e) in
      map_option
        (\<lambda>r. case r of
               Inl (x, vm) \<Rightarrow> (Inl x, word_of_nat (m_io_gas vm), m_ext vm)
             | Inr vm \<Rightarrow> (Inr (m_output vm), word_of_nat (m_io_gas vm), m_ext vm))
        (runVM (2 * m_io_gas vm + 3) H P vm))"

subsection \<open>Steps as a relation\<close>

inductive vm_step :: "'w host \<Rightarrow> program \<Rightarrow> 'w vm \<Rightarrow> 'w vm \<Rightarrow> bool" for H P where
  vm_step: "m_bounce vm \<noteq> Finished \<Longrightarrow> bounceStep H P vm = Inr vm' \<Longrightarrow> vm_step H P vm vm'"

inductive_cases vm_stepE: "vm_step H P vm vm'"
inductive_simps vm_step_iff: "vm_step H P vm vm'"

inductive reachable :: "'w host \<Rightarrow> program \<Rightarrow> 'w vm \<Rightarrow> 'w vm \<Rightarrow> bool" for H P vm where
  reachable_refl: "reachable H P vm vm"
| reachable_step: "reachable H P vm vm1 \<Longrightarrow> vm_step H P vm1 vm2 \<Longrightarrow> reachable H P vm vm2"

text \<open>What a run returns was reached by steps, and so was what it threw from.\<close>

lemma runVM_reachable:
  "runVM n H P vm = Some (Inr vm') \<Longrightarrow> reachable H P vm0 vm \<Longrightarrow> m_bounce vm \<noteq> Finished \<Longrightarrow>
   reachable H P vm0 vm'"
proof (induction n arbitrary: vm)
  case 0
  then show ?case by simp
next
  case (Suc n)
  from Suc.prems(1) obtain vm1 where vm1: "bounceStep H P vm = Inr vm1"
    by (auto split: sum.splits)
  have r: "reachable H P vm0 vm1"
    using Suc.prems(2) vm_step [OF Suc.prems(3) vm1] by (rule reachable_step)
  show ?case
  proof (cases "m_bounce vm1 = Finished")
    case True
    with Suc.prems(1) vm1 r show ?thesis by simp
  next
    case False
    with Suc.prems(1) vm1 have "runVM n H P vm1 = Some (Inr vm')" by simp
    from this r False show ?thesis by (rule Suc.IH)
  qed
qed

subsection \<open>The interface to the outside\<close>

text \<open>
  \<open>same_context\<close>: the parts of the context that stay the same during a run. The locale \<open>ext_vm\<close>
  is the contract between the interpreter and \<open>ExtVMFace\<close>: the operations change only the world
  and the substate, calls and creations do not return more gas than they were given, and the
  schedule is one of the forks' (its prices are sane).
\<close>

definition same_context :: "'w ext \<Rightarrow> 'w ext \<Rightarrow> bool" where
  "same_context e e' \<longleftrightarrow> e' = e\<lparr>world := world e', sub := sub e'\<rparr>"

lemma same_context_refl [simp]: "same_context e e"
  by (simp add: same_context_def)

lemma same_context_trans: "same_context e1 e2 \<Longrightarrow> same_context e2 e3 \<Longrightarrow> same_context e1 e3"
  by (cases e1; cases e2; cases e3) (simp add: same_context_def)

lemma same_context_sub [simp]:
  "same_context e (addRefunds r e)" "same_context e (ext_log ts bs e)"
  by (cases e; simp add: same_context_def addRefunds_def ext_log_def)+

locale ext_vm =
  fixes H :: "'w host"
  assumes setStore_context: "same_context e (h_setStore H e k v)"
    and suicide_context: "same_context e (h_suicide H e a)"
    and create_context: "h_create H e v g c op s = (e', g', a, out) \<Longrightarrow> same_context e e'"
    and call_context: "h_call H e p = (e', g', ok, out) \<Longrightarrow> same_context e e'"
    and blockHash_context: "h_blockHash H e n = (h, e') \<Longrightarrow> same_context e e'"
    and create_gas: "h_create H e v g c op s = (e', g', a, out) \<Longrightarrow> g' \<le> g"
    and call_gas: "h_call H e p = (e', g', ok, out) \<Longrightarrow> g' \<le> cp_gas p"
    and schedule: "schedule_ok (h_evmSchedule H e)"

subsection \<open>What an instruction keeps\<close>

text \<open>
  The state when an instruction starts: it has its operands, room for its result, a price
  from its tier, and a well-formed memory.
\<close>

definition fetched :: "instruction \<Rightarrow> 'w vm \<Rightarrow> bool" where
  "fetched op vm \<longleftrightarrow>
     (case metric op of (args, ret, t) \<Rightarrow>
        m_OP vm = op \<and> args \<le> length (m_SP vm) \<and> length (m_SPP vm) = length (m_SP vm) - args + ret \<and>
        length (m_SPP vm) \<le> 1024 \<and> m_copyMemSize vm = 0 \<and>
        (t \<noteq> Invalid \<longrightarrow> m_runGas vm = [0, 2, 3, 5, 8, 10, 20, 0] ! tierIndex t) \<and>
        schedule_ok (m_schedule vm) \<and> mem_ok vm)"

definition kept :: "'w vm \<Rightarrow> 'w vm \<Rightarrow> bool" where
  "kept vm vm' \<longleftrightarrow>
     m_schedule vm' = m_schedule vm \<and> mem_ok vm' \<and> length (m_SPP vm') = length (m_SPP vm) \<and>
     same_context (m_ext vm) (m_ext vm')"

definition goesOn :: "'w vm \<Rightarrow> 'w vm \<Rightarrow> bool" where
  "goesOn vm vm' \<longleftrightarrow> kept vm vm' \<and> m_bounce vm' = m_bounce vm \<and> m_io_gas vm' < m_io_gas vm"

lemma schedule_okD:
  assumes "schedule_ok s"
  shows "0 < expGas s" "0 < sha3Gas s" "0 < sloadGas s" "0 < sstoreSetGas s" "0 < sstoreResetGas s"
    "0 < sstoreUnchangedGas s" "0 < logGas s" "0 < createGas s" "0 < callGas s" "0 < extcodesizeGas s"
    "0 < extcodecopyGas s" "0 < extcodehashGas s" "0 < balanceGas s" "0 < blockhashGas s"
    "callStipend s \<le> callValueTransferGas s" "tierStepGas s = [0, 2, 3, 5, 8, 10, 20, 0]"
  using assms by (simp_all add: schedule_ok_def positivePrices_def)

lemma schedule_ok_bounds:
  assumes "schedule_ok s"
  shows "sha3Gas s < 2 ^ 32" "logGas s < 2 ^ 32" "logTopicGas s < 2 ^ 32" "createGas s < 2 ^ 32"
    "callGas s < 2 ^ 32" "extcodecopyGas s < 2 ^ 32" "callNewAccountGas s < 2 ^ 32"
    "callValueTransferGas s < 2 ^ 32" "callStipend s < 2 ^ 32" "suicideGas s < 2 ^ 32"
    "sha3WordGas s < 16" "logDataGas s < 16"
  using assms by (simp_all add: schedule_ok_def boundedPrices_def)

lemmas vm_frame = next_op_def setSPP0_def goesOn_def kept_def mem_ok_def Let_def

lemma simpleOp_goesOn:
  assumes "mem_ok vm" and "0 < m_runGas vm"
  shows "returns (simpleOp f vm) (goesOn vm)"
  using assms by (auto simp: vm_frame)

lemma pricedOp_goesOn:
  assumes "mem_ok vm" and "0 < g"
  shows "returns (pricedOp g f vm) (goesOn vm)"
  using assms by (auto simp: vm_frame)

end
