(* ===== verification/Legacy_VM_Gas.thy ===== *)
theory Legacy_VM_Gas
  imports Legacy_VM
begin

section \<open>Gas, memory and termination of the interpreter\<close>

text \<open>
  Every instruction pays before it acts. The lemmas follow the pattern of the code: the
  instruction is fetched (\<open>fetched\<close>), its price is set (\<open>ready\<close>), it is paid (\<open>goesOn\<close>), and the
  effects keep what was paid for. Calls and creations return at most the gas they were given,
  by the laws of the locale \<open>ext_vm\<close>, so every instruction that does not end the run leaves
  less gas than it found, and the run ends.
\<close>

subsection \<open>Prices\<close>

lemma growth_run_bound:
  assumes "schedule_ok s" 
  shows "sha3Gas s + (n + 31) div 32 * sha3WordGas s \<le> 2 ^ 40 + 16 * n"
    and "k \<le> 4 \<Longrightarrow> logGas s + logTopicGas s * k + logDataGas s * n \<le> 2 ^ 40 + 16 * n"
    and "createGas s + (n + 31) div 32 * sha3WordGas s \<le> 2 ^ 40 + 16 * n"
proof -
  note b = schedule_ok_bounds [OF assms]
  have w: "(n + 31) div 32 * sha3WordGas s \<le> 16 * n + 16"
  proof -
    have "(n + 31) div 32 * sha3WordGas s \<le> (n + 1) * 16" using b(11) by (intro mult_le_mono) linarith+
    then show ?thesis by simp
  qed
  show "sha3Gas s + (n + 31) div 32 * sha3WordGas s \<le> 2 ^ 40 + 16 * n" using w b(1) by simp
  show "createGas s + (n + 31) div 32 * sha3WordGas s \<le> 2 ^ 40 + 16 * n" using w b(4) by simp
  assume k: "k \<le> 4"
  have "logTopicGas s * k \<le> 2 ^ 32 * 4" using b(3) k by (intro mult_le_mono) linarith+
  moreover have "logDataGas s * n \<le> 16 * n" using b(12) by (intro mult_le_mono) linarith+
  moreover have "(2::nat) ^ 32 + 2 ^ 32 * 4 \<le> 2 ^ 40" by simp
  ultimately show "logGas s + logTopicGas s * k + logDataGas s * n \<le> 2 ^ 40 + 16 * n"
    using b(2) by linarith
qed

subsection \<open>From the fetched state to the paid one\<close>

text \<open>
  Before the payment an instruction is \<open>ready\<close>: only its price and the memory have changed.
  After it the run goes on with less gas, and the effects keep that.
\<close>

definition ready :: "'w vm \<Rightarrow> 'w vm \<Rightarrow> bool" where
  "ready vm v \<longleftrightarrow> kept vm v \<and> m_bounce v = m_bounce vm \<and> m_io_gas v = m_io_gas vm"

lemma ready_refl [simp]: "mem_ok vm \<Longrightarrow> ready vm vm"
  by (simp add: ready_def kept_def)

lemma ready_update [simp]:
  "ready vm (v\<lparr>m_runGas := g\<rparr>) \<longleftrightarrow> ready vm v"
  "ready vm (v\<lparr>m_newMemSize := n\<rparr>) \<longleftrightarrow> ready vm v"
  "ready vm (v\<lparr>m_copyMemSize := n\<rparr>) \<longleftrightarrow> ready vm v"
  by (simp_all add: ready_def kept_def mem_ok_def)

lemma ready_ext [simp]:
  "ready vm v \<Longrightarrow> same_context (m_ext v) e \<Longrightarrow> ready vm (v\<lparr>m_ext := e\<rparr>)"
  by (auto simp: ready_def kept_def mem_ok_def intro: same_context_trans)

lemma goesOn_update [simp]:
  "goesOn vm (next_op v) \<longleftrightarrow> goesOn vm v"
  "goesOn vm (setSPP0 x v) \<longleftrightarrow> goesOn vm v"
  "goesOn vm (v\<lparr>m_PC := pc\<rparr>) \<longleftrightarrow> goesOn vm v"
  "goesOn vm (v\<lparr>m_SPP := (m_SPP v)[i := x]\<rparr>) \<longleftrightarrow> goesOn vm v"
  "goesOn vm (v\<lparr>m_SPP := (m_SPP v)[i := x, j := y]\<rparr>) \<longleftrightarrow> goesOn vm v"
  by (simp_all add: vm_frame)

lemma goesOn_mem [simp]: "length m = length (m_mem v) \<Longrightarrow> goesOn vm (v\<lparr>m_mem := m\<rparr>) \<longleftrightarrow> goesOn vm v"
  by (simp add: vm_frame)

lemma goesOn_ext [simp]:
  "goesOn vm v \<Longrightarrow> same_context (m_ext v) e \<Longrightarrow> goesOn vm (v\<lparr>m_ext := e\<rparr>)"
  by (auto simp: vm_frame intro: same_context_trans)

definition paidFrame :: "'w vm \<Rightarrow> 'w vm \<Rightarrow> bool" where
  "paidFrame v v' \<longleftrightarrow>
     m_ext v' = m_ext v \<and> m_SP v' = m_SP v \<and> m_SPP v' = m_SPP v \<and> m_OP v' = m_OP v \<and>
     m_PC v' = m_PC v \<and> m_returnData v' = m_returnData v \<and> m_bounce v' = m_bounce v \<and>
     m_schedule v' = m_schedule v"

lemma pay:
  assumes "ready vm v" "0 < m_runGas v"
    and "\<And>v'. \<lbrakk>goesOn vm v'; m_mem v' = m_mem v; paidFrame v v'\<rbrakk> \<Longrightarrow> returns (f v') Q"
  shows "returns (andThen (updateIOGas v) f) Q"
  unfolding returns_andThen returns_updateIOGas
  using assms by (auto simp: vm_frame ready_def paidFrame_def)

lemma goesOn_paid:
  "ready vm v \<Longrightarrow> 0 < m_runGas v \<Longrightarrow> m_runGas v \<le> m_io_gas v \<Longrightarrow>
   goesOn vm (v\<lparr>m_io_gas := m_io_gas v - m_runGas v\<rparr>)"
  by (auto simp: vm_frame ready_def)

lemma simpleOp_pay:
  "ready vm v \<Longrightarrow> 0 < m_runGas v \<Longrightarrow> returns (simpleOp f v) (goesOn vm)"
  unfolding simpleOp_def by (rule pay) simp_all

lemma pricedOp_pay:
  "ready vm v \<Longrightarrow> 0 < g \<Longrightarrow> returns (pricedOp g f v) (goesOn vm)"
  unfolding pricedOp_def by (subst returns_andThen) (simp add: simpleOp_pay del: returns_simpleOp)

lemma updateMem_pay:
  assumes "schedule_ok (m_schedule vm)" "ready vm v" "n < 2 ^ 63 + 32" "m_copyMemSize v \<le> n"
    "m_runGas v \<le> 2 ^ 40 + 16 * n" "0 < m_runGas v"
    and "\<And>v'. \<lbrakk>goesOn vm v'; n \<le> length (m_mem v'); m_SP v' = m_SP v; paidFrame v v'\<rbrakk> \<Longrightarrow> returns (f v') Q"
  shows "returns (andThen (updateMem n v) (\<lambda>v. andThen (updateIOGas v) f)) Q"
proof -
  have s: "schedule_ok (m_schedule v)" "mem_ok v" using assms(1,2) by (simp_all add: ready_def kept_def)
  have "returns (updateMem n v) (\<lambda>v'. returns (andThen (updateIOGas v') f) Q)"
  proof (rule returns_updateMem [OF s assms(3-5)])
    fix g and mem :: bytes
    assume a: "n \<le> length mem" "length mem mod 32 = 0" "memCost (m_schedule v) (length mem) < 2 ^ 63"
      "m_runGas v \<le> g" "g \<le> m_io_gas v"
    let ?v = "v\<lparr>m_newMemSize := roundUp32 n, m_runGas := g, m_mem := mem\<rparr>"
    have "ready vm ?v" using assms(2) a by (simp add: ready_def kept_def mem_ok_def)
    moreover have "0 < m_runGas ?v" using assms(6) a(4) by simp
    ultimately show "returns (andThen (updateIOGas ?v) f) Q"
    proof (rule pay)
      fix v'
      assume "goesOn vm v'" "m_mem v' = m_mem ?v" "paidFrame ?v v'"
      with a(1) show "returns (f v') Q" by (intro assms(7)) (simp_all add: paidFrame_def)
    qed
  qed
  then show ?thesis by (subst returns_andThen)
qed

text \<open>With the offset and size of the memory taken from the stack.\<close>

definition need :: "u256 \<Rightarrow> u256 \<Rightarrow> nat" where
  "need off sz = (if sz \<noteq> 0 then unat off + unat sz else 0)"

lemma size_le_need: "unat sz \<le> need off sz"
  by (simp add: need_def)

lemma memNeed_pay:
  assumes "schedule_ok (m_schedule vm)" "ready vm v" "m_copyMemSize v \<le> need off sz"
    "m_runGas v \<le> 2 ^ 40 + 16 * need off sz" "0 < m_runGas v"
    and "\<And>v'. \<lbrakk>goesOn vm v'; need off sz \<le> length (m_mem v'); m_SP v' = m_SP v; paidFrame v v'\<rbrakk> \<Longrightarrow> returns (f v') Q"
  shows "returns (andThen (memNeed v off sz) (\<lambda>n. andThen (updateMem n v) (\<lambda>v. andThen (updateIOGas v) f))) Q"
proof (subst returns_andThen, simp only: returns_memNeed need_def [symmetric], rule impI)
  assume "need off sz < 2 ^ 63"
  then show "returns (andThen (updateMem (need off sz) v) (\<lambda>v. andThen (updateIOGas v) f)) Q"
    by (rule_tac updateMem_pay [OF assms(1,2)]) (use assms(3-6) in simp_all)
qed

lemma run_bound_mono: "g \<le> 2 ^ 40 + 16 * unat sz \<Longrightarrow> g \<le> 2 ^ 40 + 16 * need off sz"
  using size_le_need [of sz off] by linarith

lemma fetchedD:
  assumes "fetched op vm"
  shows "schedule_ok (m_schedule vm)" "mem_ok vm" "m_copyMemSize vm = 0" "m_OP vm = op"
  using assms by (auto simp: fetched_def split: prod.splits)

lemma caseSha3_goesOn:
  assumes "fetched SHA3 vm"
  shows "returns (caseSha3 H vm) (goesOn vm)"
proof -
  note f = fetchedD [OF assms]
  show ?thesis
    unfolding caseSha3_def Let_def simpleOp_def
    using f schedule_okD(2) [OF f(1)]
      run_bound_mono [OF growth_run_bound(1) [OF f(1)], of "SP vm 1" "SP vm 0"]
    by (subst returns_andThen) (auto simp del: returns_andThen intro!: memNeed_pay)
qed


lemma caseLog_goesOn:
  assumes "fetched (LOG n) vm" and n: "n \<le> 4"
  shows "returns (caseLog n vm) (goesOn vm)"
proof -
  note f = fetchedD [OF assms(1)]
  show ?thesis
    unfolding caseLog_def logGasMem_def Let_def andThen_assoc
    using f schedule_okD(7) [OF f(1)]
      run_bound_mono [OF growth_run_bound(2) [OF f(1) n], of "SP vm 1" "SP vm 0"]
    by (subst returns_andThen, simp only: returns_throwWhen, subst returns_andThen)
      (auto simp del: returns_andThen intro!: memNeed_pay)
qed

lemma metric_runGas:
  "fetched op vm \<Longrightarrow> metric op = (a, r, t) \<Longrightarrow> t \<noteq> Invalid \<Longrightarrow>
   m_runGas vm = [0, 2, 3, 5, 8, 10, 20, 0] ! tierIndex t"
  by (simp add: fetched_def)

lemma caseArith_goesOn:
  assumes "fetched (Arith op) vm"
  shows "returns (caseArith op vm) (goesOn vm)"
proof (cases "op = EXP")
  case True
  have "0 < expPrice (m_schedule vm) e" for e
    using schedule_okD(1) [OF fetchedD(1) [OF assms]] by (simp add: expPrice_def)
  with True fetchedD [OF assms] show ?thesis
    by (simp add: caseArith_def pricedOp_pay del: returns_pricedOp)
next
  case False
  then have "0 < m_runGas vm" using assms by (cases op) (simp_all add: fetched_def)
  with False fetchedD [OF assms] show ?thesis
    by (simp add: caseArith_def simpleOp_pay del: returns_simpleOp)
qed

lemma caseLogic_goesOn:
  assumes "fetched (Logic op) vm"
  shows "returns (caseLogic op vm) (goesOn vm)"
proof -
  have "0 < m_runGas vm" using assms by (cases op) (simp_all add: fetched_def)
  with fetchedD [OF assms] show ?thesis
    by (simp add: caseLogic_def simpleOp_pay del: returns_simpleOp)
qed

lemma length_writeMem: "off + length bs \<le> length mem \<Longrightarrow> length (writeMem mem off bs) = length mem"
  by (simp add: writeMem_def)

lemma low64_le: "low64 v \<le> unat v" and low32_le: "low32 v \<le> unat v"
  by (simp_all add: low64_def low32_def)

text \<open>
  Copying writes the bytes from the index on, with zeros where the data has none, and nothing
  else; with the memory paid for, nothing is written behind its end.
\<close>

lemma copyData_writeMem:
  assumes "need (sp ! 0) (sp ! 2) \<le> length mem"
  shows "copyDataToMemory dat sp mem =
         writeMem mem (low64 (sp ! 0))
           (let s = low64 (sp ! 2); d = take s (drop (unat (sp ! 1)) dat) in d @ replicate (s - length d) 0)"
    and "low64 (sp ! 2) = 0 \<or> low64 (sp ! 0) + low64 (sp ! 2) \<le> length mem"
proof -
  let ?o = "low64 (sp ! 0)" and ?s = "low64 (sp ! 2)" and ?i = "unat (sp ! 1)"
  show n: "?s = 0 \<or> ?o + ?s \<le> length mem"
    using assms low64_le [of "sp ! 0"] low64_le [of "sp ! 2"]
    by (cases "sp ! 2 = 0") (auto simp: need_def low64_def)
  define c where "c = (if ?i + ?s > length dat then (if length dat < ?i then 0 else length dat - ?i) else ?s)"
  have c: "c \<le> ?s" "take ?s (drop ?i dat) = readMem dat ?i c" "length (readMem dat ?i c) = c"
    by (auto simp: c_def readMem_def)
  show "copyDataToMemory dat sp mem = writeMem mem ?o
           (let s = ?s; d = take s (drop ?i dat) in d @ replicate (s - length d) 0)"
  proof (cases "?s = 0")
    case True
    with c(1) have "c = 0" by simp
    with True show ?thesis by (simp add: copyDataToMemory_def Let_def c_def [symmetric] writeMem_def)
  next
    case False
    with n have "?o + ?s \<le> length mem" by simp
    with c False show ?thesis
      unfolding copyDataToMemory_def Let_def c_def [symmetric] c(2)
      by (auto simp: writeMem_def readMem_def add.commute)
  qed
qed

lemma length_copyData:
  assumes "need (sp ! 0) (sp ! 2) \<le> length mem"
  shows "length (copyDataToMemory dat sp mem) = length mem"
  using copyData_writeMem(1) [OF assms, of dat] copyData_writeMem(2) [OF assms]
  by (auto simp: writeMem_def Let_def)

lemma copyOp_goesOn:
  assumes "schedule_ok (m_schedule vm)" "ready vm v" "0 < m_runGas v" "m_runGas v \<le> 2 ^ 32"
    "k \<le> length (m_SP v)"
  shows "returns (copyOp dat k v) (goesOn vm)"
  unfolding copyOp_def Let_def
  using assms size_le_need [of "SP v (k + 2)" "SP v k"]
  by (subst returns_andThen)
    (auto simp: length_copyData simp del: returns_andThen intro!: memNeed_pay)

lemma caseEnv_goesOn:
  assumes "fetched (Env op) vm"
  shows "returns (caseEnv H op vm) (goesOn vm)"
proof -
  note f = fetchedD [OF assms] and p = schedule_okD [OF fetchedD(1) [OF assms]]
  note b = schedule_ok_bounds [OF f(1)]
  show ?thesis
  proof (cases op)
    case EXTCODECOPY
    with f p b assms show ?thesis by (auto simp: fetched_def intro!: copyOp_goesOn)
  next
    case CALLDATACOPY
    with f assms show ?thesis by (auto simp: fetched_def intro!: copyOp_goesOn)
  next
    case CODECOPY
    with f assms show ?thesis by (auto simp: fetched_def intro!: copyOp_goesOn)
  next
    case RETURNDATACOPY
    with f assms show ?thesis by (auto simp: fetched_def intro!: copyOp_goesOn)
  qed (use f p assms in \<open>auto simp: fetched_def simpleOp_pay pricedOp_pay simp del: returns_simpleOp returns_pricedOp\<close>)
qed

lemma touchMem_pay:
  assumes "schedule_ok (m_schedule vm)" "ready vm v" "m_copyMemSize v = 0" "0 < m_runGas v"
    "m_runGas v \<le> 2 ^ 32" "n \<le> 32"
    and "\<And>v'. \<lbrakk>goesOn vm v'; unat (SP v 0) + n \<le> length (m_mem v'); m_SP v' = m_SP v; paidFrame v v'\<rbrakk> \<Longrightarrow> returns (f v') Q"
  shows "returns (andThen (touchMem n v) f) Q"
proof -
  have "returns (andThen (updateMem (unat (SP v 0) + n) v) (\<lambda>v. andThen (updateIOGas v) f)) Q"
    if "unat (SP v 0) < 2 ^ 63"
    by (rule updateMem_pay [OF assms(1,2)]) (use assms that in auto)
  then show ?thesis by (simp add: touchMem_def andThen_assoc del: returns_andThen) (subst returns_andThen, simp del: returns_andThen)
qed

lemma casePush_goesOn:
  assumes "fetched (PUSH n) vm"
  shows "returns (casePush P n vm) (goesOn vm)"
  using assms fetchedD [OF assms] unfolding casePush_def Let_def
  by (intro pay) (auto simp: fetched_def)

lemma caseDup_goesOn:
  assumes "fetched (DUP n) vm"
  shows "returns (caseDup n vm) (goesOn vm)"
  using assms fetchedD [OF assms] unfolding caseDup_def
  by (intro simpleOp_pay) (auto simp: fetched_def)

lemma caseSwap_goesOn:
  assumes "fetched (SWAP n) vm"
  shows "returns (caseSwap n vm) (goesOn vm)"
  using assms fetchedD [OF assms] unfolding caseSwap_def
  by (intro pay) (auto simp: fetched_def)

lemma caseSynth_goesOn:
  assumes "fetched (Synth op) vm"
  shows "returns (caseSynth H P op vm) (goesOn vm)"
proof -
  note f = fetchedD [OF assms]
  have "0 < m_runGas vm" using assms by (cases op) (simp_all add: fetched_def)
  with f show ?thesis
    by (cases op) (auto simp: Let_def goesOn_paid)
qed


lemma same_context_addRefunds [simp]: "same_context e (addRefunds r e') \<longleftrightarrow> same_context e e'"
  by (cases e; cases e') (simp add: same_context_def addRefunds_def)

lemma jumpTo_goesOn:
  "goesOn vm v \<Longrightarrow> returns (jumpTo P v) (goesOn vm)"
  by (simp add: jumpTo_def verifyJumpDest_def split: option.splits)

lemma updateSSGas_ready:
  assumes "schedule_ok (m_schedule vm)" "ready vm v"
  shows "returns (updateSSGas H v) (\<lambda>v'. ready vm v' \<and> 0 < m_runGas v')"
proof -
  have "m_schedule v = m_schedule vm" using assms(2) by (simp add: ready_def kept_def)
  with assms schedule_okD [OF assms(1)] show ?thesis
    by (simp add: updateSSGas_def updateSSGasPreEIP1283_def updateSSGasEIP1283_def Let_def)
qed

lemma low32_room: "unat (SP v 0) + n \<le> length mem \<Longrightarrow> low32 (SP v 0) + n \<le> length mem"
  using low32_le [of "SP v 0"] by linarith

definition sameFrame :: "'w vm \<Rightarrow> 'w vm \<Rightarrow> bool" where
  "sameFrame v v' \<longleftrightarrow>
     m_ext v' = m_ext v \<and> m_io_gas v' = m_io_gas v \<and> m_SP v' = m_SP v \<and> m_SPP v' = m_SPP v \<and>
     m_bounce v' = m_bounce v \<and> m_OP v' = m_OP v \<and> m_PC v' = m_PC v \<and>
     m_returnData v' = m_returnData v \<and> m_schedule v' = m_schedule v"

lemma addMemGas_frame: "returns (addMemGas v) (sameFrame v)"
proof (cases "m_newMemSize v > length (m_mem v)")
  case True
  then show ?thesis by (simp add: addMemGas_def gasForMem_memCost sameFrame_def)
next
  case False
  then show ?thesis by (simp add: addMemGas_def sameFrame_def)
qed

lemma updateGas_frame: "returns (updateGas v) (sameFrame v)"
  unfolding updateGas_def returns_andThen Let_def
  by (rule returns_mono [OF addMemGas_frame]) (simp add: sameFrame_def throwVM_def)

text \<open>Growing the memory touches nothing else, whatever the state.\<close>

lemma updateMem_frame: "returns (updateMem n v) (sameFrame v)"
  unfolding updateMem_def returns_andThen
  by (rule returns_mono [OF updateGas_frame]) (simp add: sameFrame_def)

lemma length_writeMem_byte: "Suc (unat v) \<le> length mem \<Longrightarrow> length (writeMem mem (low32 v) [b]) = length mem"
  using low32_le [of v] by (simp add: length_writeMem)

context ext_vm
begin

lemma caseBlock_goesOn:
  assumes "fetched (Block op) vm"
  shows "returns (caseBlock H op vm) (goesOn vm)"
proof (cases "op = BLOCKHASH")
  case True
  note f = fetchedD [OF assms] and p = schedule_okD [OF fetchedD(1) [OF assms]]
  let ?f = "\<lambda>vm. let (h, e) = h_blockHash H (m_ext vm) (SP vm 0) in Inr (next_op (setSPP0 h (vm\<lparr>m_ext := e\<rparr>)))"
  have "returns (andThen (updateIOGas (vm\<lparr>m_runGas := blockhashGas (m_schedule vm)\<rparr>)) ?f) (goesOn vm)"
    by (rule pay) (use f p in \<open>auto split: prod.split intro!: goesOn_ext intro: blockHash_context\<close>)
  then show ?thesis unfolding True caseBlock.simps by (subst returns_andThen) (simp del: returns_andThen)
next
  case False
  with fetchedD [OF assms] assms show ?thesis
    by (cases op) (auto simp: fetched_def simpleOp_pay simp del: returns_simpleOp)
qed

lemma caseStore_goesOn:
  assumes "fetched (Store op) vm"
  shows "returns (caseStore H P op vm) (goesOn vm)"
proof -
  note f = fetchedD [OF assms] and p = schedule_okD [OF fetchedD(1) [OF assms]]
  show ?thesis
  proof (cases op)
    case MLOAD
    with f assms show ?thesis
      by (auto simp: fetched_def simp del: returns_andThen intro!: touchMem_pay)
  next
    case MSTORE
    with f assms show ?thesis
      by (auto simp: fetched_def length_writeMem low32_room simp del: returns_andThen intro!: touchMem_pay)
  next
    case MSTORE8
    with f assms show ?thesis
      by (auto simp: fetched_def length_writeMem_byte simp del: returns_andThen intro!: touchMem_pay)
  next
    case SSTORE
    have "returns (andThen (updateSSGas H vm) (\<lambda>vm. andThen (updateIOGas vm)
            (\<lambda>vm. Inr (next_op (vm\<lparr>m_ext := h_setStore H (m_ext vm) (SP vm 0) (SP vm 1)\<rparr>))))) (goesOn vm)"
      unfolding returns_andThen [of "updateSSGas H vm"]
      by (rule returns_mono [OF updateSSGas_ready [OF f(1) ready_refl [OF f(2)]]], rule pay)
        (auto simp: setStore_context)
    with SSTORE show ?thesis by simp
  next
    case JUMP
    with f assms show ?thesis
      by (auto simp: fetched_def simp del: returns_andThen returns_updateIOGas intro!: pay jumpTo_goesOn)
  next
    case POP
    with f assms show ?thesis by (auto simp: fetched_def vm_frame)
  next
    case JUMPDEST
    with f assms show ?thesis by (auto simp: vm_frame)
  next
    case JUMPI
    with f assms show ?thesis
      by (auto simp: fetched_def simp del: returns_andThen returns_updateIOGas intro!: pay jumpTo_goesOn)
  qed (use f p assms in \<open>auto simp: fetched_def goesOn_paid simpleOp_pay pricedOp_pay
         simp del: returns_simpleOp returns_pricedOp\<close>)
qed

text \<open>The system operations: they end the run, or leave the rest to the trampoline.\<close>

lemma caseSystem_returns:
  assumes "fetched (System op) vm"
  shows "returns (caseSystem H op vm) (\<lambda>vm'.
           (m_bounce vm' = Finished \<and> m_schedule vm' = m_schedule vm \<and> same_context (m_ext vm) (m_ext vm') \<and> m_io_gas vm' \<le> m_io_gas vm) \<or>
           (vm' = vm\<lparr>m_bounce := CaseCreate\<rparr> \<and> (op = CREATE \<or> op = CREATE2) \<and> \<not> staticCall (m_ext vm)) \<or>
           (vm' = vm\<lparr>m_bounce := CaseCall\<rparr> \<and> op \<in> {CALL, CALLCODE, DELEGATECALL, STATICCALL} \<and>
              (staticCall (m_ext vm) \<longrightarrow> op = CALL \<longrightarrow> SP vm 2 = 0)))"
proof (cases op)
  case RETURN
  note * = updateMem_frame
  show ?thesis
    unfolding RETURN caseSystem.simps returns_andThen returns_memNeed
    by (intro impI, rule returns_mono [OF *]) (auto simp: sameFrame_def)
next
  case REVERT
  show ?thesis unfolding REVERT caseSystem.simps returns_andThen returns_throwVM by (simp add: returns_def throwVM_def)
next
  case SUICIDE
  then show ?thesis by (simp add: Let_def suicide_context)
qed (simp_all add: throwVM_def)

text \<open>The calls: they are paid for and return at most the gas they took, so some is gone.\<close>

lemma returns_addRunGasIf:
  assumes "m_runGas w < 2 ^ 40" "Q (w\<lparr>m_runGas := m_runGas w + (if c then n else 0)\<rparr>)"
  shows "returns (addRunGasIf c n w) Q"
proof -
  have "wrap64 (m_runGas w + n) = m_runGas w + n" if "n < 2 ^ 63"
    using that assms(1) by (intro wrap64_id) simp
  with assms(2) show ?thesis by (auto simp: addRunGasIf_def)
qed

lemma createOp_update [simp]:
  "createOp (v\<lparr>m_bounce := x\<rparr>) = createOp v" "createOp (v\<lparr>m_runGas := g\<rparr>) = createOp v"
  "createOp (v\<lparr>m_newMemSize := n\<rparr>) = createOp v" "createOp (v\<lparr>m_returnData := bs\<rparr>) = createOp v"
  by (simp_all add: createOp_def)

lemma createCharge_returns:
  assumes "fetched (System op) v" "op = CREATE \<or> op = CREATE2"
  shows "returns (createCharge (v\<lparr>m_bounce := CaseCreate\<rparr>)) (goesOn (v\<lparr>m_bounce := InterpretCases\<rparr>))"
proof -
  let ?v = "v\<lparr>m_bounce := InterpretCases\<rparr>" and ?s = "m_schedule v"
  note f = fetchedD [OF assms(1)]
  have r: "ready ?v ?v" using f by (simp add: mem_ok_def)
  note b = growth_run_bound(3) [OF f(1), of "unat (SP v 2)"] schedule_ok_bounds(4) [OF f(1)]
  have key: "returns (andThen (memNeed w (SP w 1) (SP w 2)) (\<lambda>need. andThen (updateMem need w) updateIOGas)) (goesOn ?v)"
    if w: "w = ?v\<lparr>m_runGas := g\<rparr>" and g: "0 < g" "g \<le> 2 ^ 40 + 16 * unat (SP v 2)" for w g
  proof -
    have "returns (andThen (memNeed w (SP w 1) (SP w 2))
        (\<lambda>need. andThen (updateMem need w) (\<lambda>x. andThen (updateIOGas x) Inr))) (goesOn ?v)"
      by (rule memNeed_pay) (use w g r f run_bound_mono [OF g(2), of "SP v 1"] in simp_all)
    then show ?thesis by simp
  qed
  have pos: "0 < createGas ?s" using schedule_okD(8) [OF f(1)] .
  let ?h = "(unat (SP v 2) + 31) div 32 * sha3WordGas ?s"
  have h: "createGas ?s + (if c then ?h else 0) \<le> 2 ^ 40 + 16 * unat (SP v 2)" for c using b by simp
  show ?thesis
    unfolding createCharge_def
  proof (rule returns_bind [where R = "\<lambda>w. w = ?v\<lparr>m_runGas := createGas ?s\<rparr>"])
    fix w
    assume w: "w = ?v\<lparr>m_runGas := createGas ?s\<rparr>"
    have "returns (addRunGasIf (createOp w = CREATE2) ((unat (SP w 2) + 31) div 32 * sha3WordGas (m_schedule w)) w)
       (\<lambda>x. x = ?v\<lparr>m_runGas := createGas ?s + (if createOp v = CREATE2 then ?h else 0)\<rparr>)"
      using b(2) by (intro returns_addRunGasIf) (simp_all add: w)
    then show "returns (andThen (addRunGasIf (createOp w = CREATE2)
         ((unat (SP w 2) + 31) div 32 * sha3WordGas (m_schedule w)) w) (\<lambda>vm.
       andThen (memNeed vm (SP vm 1) (SP vm 2)) (\<lambda>need. andThen (updateMem need vm) updateIOGas))) (goesOn ?v)"
      by (rule returns_bind)
        (rule key [where g = "createGas ?s + (if createOp v = CREATE2 then ?h else 0)"],
         use pos h [of "createOp v = CREATE2"] in simp_all)
  qed simp
qed

text \<open>\<open>returned\<close>: the state after a call, back in the interpreter with less gas.\<close>

definition returned :: "'w vm \<Rightarrow> 'w vm \<Rightarrow> bool" where
  "returned vm vm' \<longleftrightarrow> kept vm vm' \<and> m_bounce vm' = InterpretCases \<and> m_io_gas vm' < m_io_gas vm"

lemma returned_update [simp]:
  "returned vm (next_op v) \<longleftrightarrow> returned vm v" "returned vm (setSPP0 x v) \<longleftrightarrow> returned vm v"
  by (simp_all add: returned_def vm_frame)

lemma returned_call:
  "goesOn (v\<lparr>m_bounce := InterpretCases\<rparr>) w \<Longrightarrow> g \<le> m_io_gas w \<Longrightarrow> same_context (m_ext w) e \<Longrightarrow>
   returned v (w\<lparr>m_returnData := out, m_ext := e, m_io_gas := g\<rparr>)"
  by (auto simp: returned_def vm_frame intro: same_context_trans)

lemma createGasLimit_le: "createGasLimit w \<le> word_of_nat (m_io_gas w)"
proof -
  let ?io = "word_of_nat (m_io_gas w) :: u256"
  have "unat ?io div 64 \<le> unat ?io" by simp
  then have "?io div 64 \<le> ?io" by (simp add: word_le_nat_alt unat_div)
  then show ?thesis by (simp add: createGasLimit_def Let_def word_sub_le)
qed

lemma create_spent:
  assumes "g \<le> createGasLimit w"
  shows "low64 (word_of_nat (m_io_gas w) - (createGasLimit w - g)) \<le> m_io_gas w"
proof -
  let ?io = "word_of_nat (m_io_gas w) :: u256"
  have "createGasLimit w - g \<le> createGasLimit w" by (rule word_sub_le [OF assms])
  then have "createGasLimit w - g \<le> ?io" using createGasLimit_le by (rule order_trans)
  then have "?io - (createGasLimit w - g) \<le> ?io" by (rule word_sub_le)
  then have "unat (?io - (createGasLimit w - g)) \<le> unat ?io" by (simp add: word_le_nat_alt)
  also have "\<dots> \<le> m_io_gas w" by (simp add: unat_of_nat)
  finally show ?thesis using low64_le [of "?io - (createGasLimit w - g)"] by linarith
qed

lemma caseCreate_returns:
  assumes "fetched (System op) v" "op = CREATE \<or> op = CREATE2"
  shows "returns (caseCreate H (v\<lparr>m_bounce := CaseCreate\<rparr>)) (returned v)"
  unfolding caseCreate_def
proof (rule returns_bind [OF createCharge_returns [OF assms]])
  fix w
  assume w: "goesOn (v\<lparr>m_bounce := InterpretCases\<rparr>) w"
  obtain e' g a out where hc: "h_create H (m_ext w) (SP w 0) (createGasLimit w)
      (readMem (m_mem w) (low64 (SP w 1)) (low64 (SP w 2))) (createOp w) (createSalt w) = (e', g, a, out)"
    by (metis prod_cases4)
  have "returned v (w\<lparr>m_returnData := out, m_ext := e',
      m_io_gas := low64 (word_of_nat (m_io_gas w) - (createGasLimit w - g))\<rparr>)"
    using w create_spent [OF create_gas [OF hc]] create_context [OF hc] by (rule returned_call)
  moreover have "returned v (w\<lparr>m_returnData := []\<rparr>)" using w by (auto simp: returned_def vm_frame)
  ultimately show "returns (Inr (next_op (finishCreate H w))) (returned v)"
    unfolding finishCreate_def Let_def hc by simp
qed

text \<open>A call pays its price and the gas it passes on; the stipend is covered by the price of the value.\<close>

definition callBase :: "'w vm \<Rightarrow> nat" where
  "callBase v = callGas (m_schedule v) +
     (if haveValueArg (createOp v) \<and> SP v 2 > 0 then callValueTransferGas (m_schedule v) else 0)"

definition callPaid :: "'w vm \<Rightarrow> 'w vm \<Rightarrow> bool" where
  "callPaid v w \<longleftrightarrow>
     goesOn (v\<lparr>m_bounce := InterpretCases\<rparr>) w \<and> paidFrame (v\<lparr>m_bounce := InterpretCases, m_returnData := []\<rparr>) w \<and>
     need (SP v (sizesOffset (createOp v) + 2)) (SP v (sizesOffset (createOp v) + 3)) \<le> length (m_mem w) \<and>
     m_io_gas w + callBase v \<le> m_io_gas v"

lemma callCharge_returns:
  assumes f: "fetched (System op) v" and op: "createOp v = op"
  defines "vb \<equiv> v\<lparr>m_bounce := InterpretCases, m_returnData := []\<rparr>"
  shows "returns (callCharge H vb) (callPaid v)"
proof -
  let ?s = "m_schedule v" and ?off = "sizesOffset op"
  let ?val = "haveValueArg op \<and> SP v 2 > 0"
  let ?new = "op = CALL \<and> \<not> h_exists H (m_ext v) (asAddress (SP v 1)) \<and>
     (SP v 2 > 0 \<or> zeroValueTransferChargesNewAccountGas ?s)"
  let ?g1 = "callGas ?s + (if ?new then callNewAccountGas ?s else 0)"
  let ?g2 = "?g1 + (if ?val then callValueTransferGas ?s else 0)"
  let ?n = "max (need (SP v ?off) (SP v (?off + 1))) (need (SP v (?off + 2)) (SP v (?off + 3)))"
  note fd = fetchedD [OF f]
  note p = schedule_okD [OF fd(1)] and b = schedule_ok_bounds [OF fd(1)]
  have r: "ready (v\<lparr>m_bounce := InterpretCases\<rparr>) vb"
    using fd by (simp add: vb_def ready_def kept_def mem_ok_def)
  have cop: "createOp vb = op" using op by (simp add: vb_def)
  have v: "m_schedule vb = ?s" "m_SP vb = m_SP v" "m_ext vb = m_ext v" "m_copyMemSize vb = 0"
    using fd by (simp_all add: vb_def)
  have final: "returns (andThen (updateMem ?n (vb\<lparr>m_runGas := ?g2, m_newMemSize := ?n\<rparr>)) updateIOGas) (callPaid v)"
    if n: "?n < 2 ^ 63"
    unfolding returns_andThen
  proof (rule returns_updateMem)
    fix g and mem :: bytes
    assume a: "?n \<le> length mem" "length mem mod 32 = 0"
      "memCost (m_schedule (vb\<lparr>m_runGas := ?g2, m_newMemSize := ?n\<rparr>)) (length mem) < 2 ^ 63"
      "m_runGas (vb\<lparr>m_runGas := ?g2, m_newMemSize := ?n\<rparr>) \<le> g"
    have "callBase v \<le> g" using a(4) op by (auto simp: callBase_def)
    moreover have "0 < g" using a(4) p(9) by simp
    ultimately show "returns (updateIOGas
        (vb\<lparr>m_runGas := ?g2, m_newMemSize := ?n, m_newMemSize := roundUp32 ?n, m_runGas := g, m_mem := mem\<rparr>)) (callPaid v)"
      using a(1-3) r op by (auto simp: callPaid_def vm_frame ready_def paidFrame_def vb_def)
  qed (use fd n b v r in \<open>simp_all add: ready_def kept_def mem_ok_def\<close>)
  show ?thesis
    unfolding callCharge_def Let_def cop
    apply (rule returns_bind [where R = "\<lambda>w. w = vb\<lparr>m_runGas := callGas ?s\<rparr>"])
     apply (simp add: v)
    apply (rule returns_bind [where R = "\<lambda>w. w = vb\<lparr>m_runGas := ?g1\<rparr>"])
     apply (rule returns_addRunGasIf)
      apply (use b in \<open>simp add: v\<close>)
     apply (auto simp: v) [1]
    apply (rule returns_bind [where R = "\<lambda>w. w = vb\<lparr>m_runGas := ?g2\<rparr>"])
     apply (rule returns_addRunGasIf)
      apply (use b in \<open>simp add: v\<close>)
     apply (auto simp: v) [1]
    apply (rule returns_bind [where R = "\<lambda>n. n = need (SP v ?off) (SP v (?off + 1)) \<and> n < 2 ^ 63"])
     apply (simp add: v need_def)
    apply (rule returns_bind [where R = "\<lambda>n. n = need (SP v (?off + 2)) (SP v (?off + 3)) \<and> n < 2 ^ 63"])
     apply (simp add: v need_def)
    apply (use final in \<open>simp add: v del: returns_andThen\<close>)
    done
qed

lemma length_writeMem_out:
  assumes "need a b \<le> length mem"
  shows "length (writeMem mem (low64 a) (take (min (length out) (low64 b)) out)) = length mem"
proof -
  have "low64 b \<le> unat b" "low64 a \<le> unat a" by (simp_all add: low64_def)
  moreover have "low64 b = 0" if "b = 0" using that by (simp add: low64_def)
  ultimately have "low64 b = 0 \<or> low64 a + low64 b \<le> length mem"
    using assms by (auto simp: need_def split: if_splits)
  then show ?thesis by (cases "low64 b = 0") (simp_all add: writeMem_def)
qed

lemma returned_finishCall:
  assumes w: "callPaid v w" and p: "schedule_ok (m_schedule v)"
    and gas: "unat gas < 2 ^ 63" "unat gas \<le> m_io_gas w"
    and w1: "w1 = w\<lparr>m_runGas := unat gas, m_io_gas := m_io_gas w - unat gas\<rparr>"
    and place: "place = Some (low64 (SP v (sizesOffset (createOp v) + 2)), low64 (SP v (sizesOffset (createOp v) + 3)))
       \<or> place = None"
  shows "returned v (finishCall H (w1, callParams gas w1, place))"
proof -
  let ?p = "callParams gas w1" and ?val = "haveValueArg (createOp v) \<and> SP v 2 > 0"
  note b = schedule_ok_bounds(9) [OF p] schedule_okD(9,15) [OF p]
  have c: "goesOn (v\<lparr>m_bounce := InterpretCases\<rparr>) w" "m_io_gas w + callBase v \<le> m_io_gas v"
    "m_SP w1 = m_SP v" "createOp w1 = createOp v" "m_schedule w1 = m_schedule v"
    "need (SP v (sizesOffset (createOp v) + 2)) (SP v (sizesOffset (createOp v) + 3)) \<le> length (m_mem w)"
    using w by (simp_all add: callPaid_def paidFrame_def w1 createOp_def)
  have stip: "unat (cp_gas ?p) \<le> unat gas + (if ?val then callStipend (m_schedule v) else 0)"
    using gas(1) b(1) c by (auto simp: callParams_def Let_def unat_word_ariths unat_of_nat)
  have spent: "wrap64 (m_io_gas w - unat gas + low64 g) < m_io_gas v" if "g \<le> cp_gas ?p" for g
  proof -
    have "low64 g \<le> unat (cp_gas ?p)" using that using low64_le [of g] by (simp add: word_le_nat_alt)
    with stip have "m_io_gas w - unat gas + low64 g \<le> m_io_gas w + (if ?val then callStipend (m_schedule v) else 0)"
      using gas(2) by linarith
    also have "\<dots> < m_io_gas w + callBase v" using b by (auto simp: callBase_def)
    finally have "m_io_gas w - unat gas + low64 g < m_io_gas v" using c(2) by linarith
    moreover have "wrap64 x \<le> x" for x by (simp add: wrap64_def)
    ultimately show ?thesis using order.strict_trans1 by blast
  qed
  obtain e' g ok out where hc: "h_call H (m_ext w1) ?p = (e', g, ok, out)" by (metis prod_cases4)
  note call = call_context [OF hc] call_gas [OF hc]
  from place show ?thesis
  proof
    assume pl: "place = None"
    show ?thesis using c(1) spent [of "cp_gas ?p"]
      by (auto simp: pl finishCall_def w1 returned_def vm_frame)
  next
    assume pl: "place = Some (low64 (SP v (sizesOffset (createOp v) + 2)), low64 (SP v (sizesOffset (createOp v) + 3)))"
    show ?thesis unfolding pl finishCall_def case_prod_conv option.case Let_def hc
      using c(1) spent [OF call(2)] call(1) length_writeMem_out [OF c(6)]
      by (auto simp: w1 returned_def vm_frame intro: same_context_trans)
  qed
qed

lemma caseCall_returns:
  assumes f: "fetched (System op) v"
  shows "returns (caseCall H (v\<lparr>m_bounce := CaseCall\<rparr>)) (returned v)"
proof -
  have op: "createOp v = op" using fetchedD(4) [OF f] by (simp add: createOp_def)
  note p = fetchedD(1) [OF f]
  show ?thesis
    unfolding caseCall_def caseCallSetup_def andThen_assoc Let_def
  proof (rule returns_bind [where R = "callPaid v"], goal_cases)
    case 1
    then show ?case using callCharge_returns [OF f op] by simp
  next
    case (2 w)
    have c: "m_SP w = m_SP v" "createOp w = createOp v"
      using 2 by (simp_all add: callPaid_def paidFrame_def createOp_def)
    then have c': "createOp (w\<lparr>m_runGas := g, m_io_gas := h\<rparr>) = createOp v" for g h by (simp add: createOp_def)
    show ?case
      by (auto simp: not_less c c' intro!: returned_finishCall [OF 2 p])
  qed
qed

end

subsection \<open>Fetching, and one step\<close>

lemma decode_operand:
  "(decode b = LOG n \<longrightarrow> n \<le> 4) \<and> (decode b = PUSH n \<longrightarrow> 1 \<le> n \<and> n \<le> 32) \<and>
   (decode b = DUP n \<longrightarrow> 1 \<le> n \<and> n \<le> 16) \<and> (decode b = SWAP n \<longrightarrow> 1 \<le> n \<and> n \<le> 16)"
proof -
  define ok where "ok op = (case op of LOG n \<Rightarrow> n \<le> 4 | PUSH n \<Rightarrow> 1 \<le> n \<and> n \<le> 32
     | DUP n \<Rightarrow> 1 \<le> n \<and> n \<le> 16 | SWAP n \<Rightarrow> 1 \<le> n \<and> n \<le> 16 | _ \<Rightarrow> True)" for op
  have "list_all ok (enum_low @ enum_high)" by (simp add: enum_low_def enum_high_def ok_def)
  moreover have "decode b \<in> set (enum_low @ enum_high)"
    unfolding decode_def decodeNat_nth [OF unat_byte_less] by (intro nth_mem) simp
  ultimately have "ok (decode b)" by (simp only: list_all_iff)
  then show ?thesis by (simp add: ok_def split: instruction.splits)
qed

text \<open>Fetching checks the stack and prices the instruction.\<close>

definition fetchFrame :: "'w vm \<Rightarrow> 'w vm \<Rightarrow> bool" where
  "fetchFrame vm v \<longleftrightarrow>
     m_io_gas v = m_io_gas vm \<and> m_ext v = m_ext vm \<and> m_bounce v = m_bounce vm \<and> m_PC v = m_PC vm \<and>
     m_mem v = m_mem vm \<and> m_schedule v = m_schedule vm \<and> m_returnData v = m_returnData vm \<and>
     m_SP v = m_SPP vm"

lemma fetchInstruction_returns:
  assumes "schedule_ok (m_schedule vm)" "mem_ok vm"
  shows "returns (fetchInstruction H P vm) (\<lambda>v. fetched (decode (m_code P ! m_PC vm)) v \<and> fetchFrame vm v)"
proof -
  obtain a r t where m: "metric (decode (m_code P ! m_PC vm)) = (a, r, t)" by (metis prod_cases3)
  have step: "stepGas H (m_schedule vm) t = [0, 2, 3, 5, 8, 10, 20, 0] ! tierIndex t" if "t \<noteq> Invalid"
    using that schedule_okD(16) [OF assms(1)] by (cases t) (simp_all add: stepGas_def)
  show ?thesis
    using assms step
    by (auto simp: fetchInstruction_def m adjustStack_def Let_def fetched_def fetchFrame_def mem_ok_def throwVM_def)
qed

definition vm_inv :: "'w vm \<Rightarrow> bool" where
  "vm_inv vm \<longleftrightarrow> schedule_ok (m_schedule vm) \<and>
     (case m_bounce vm of
        InterpretCases \<Rightarrow> mem_ok vm \<and> length (m_SPP vm) \<le> 1024
      | CaseCreate \<Rightarrow> \<not> staticCall (m_ext vm) \<and> (\<exists>op. (op = CREATE \<or> op = CREATE2) \<and> fetched (System op) vm)
      | CaseCall \<Rightarrow> (\<exists>op. fetched (System op) vm \<and> (staticCall (m_ext vm) \<longrightarrow> op = CALL \<longrightarrow> SP vm 2 = 0))
      | Finished \<Rightarrow> True)"

definition vm_measure :: "'w vm \<Rightarrow> nat" where
  "vm_measure vm = 2 * m_io_gas vm + (if m_bounce vm = InterpretCases then 1 else 0)"

lemma vm_id: "m_bounce vm = b \<Longrightarrow> vm\<lparr>m_bounce := b\<rparr> = vm"
  by (cases vm) simp

definition progress :: "'w vm \<Rightarrow> 'w vm \<Rightarrow> bool" where
  "progress vm vm' \<longleftrightarrow> vm_inv vm' \<and> same_context (m_ext vm) (m_ext vm') \<and> m_schedule vm' = m_schedule vm \<and>
     m_io_gas vm' \<le> m_io_gas vm \<and> (m_bounce vm' \<noteq> Finished \<longrightarrow> vm_measure vm' < vm_measure vm)"

lemma progress_goesOn:
  assumes "fetched op v" "m_bounce v = InterpretCases" "goesOn v v'"
  shows "progress v v'"
  using assms
  by (auto simp: progress_def vm_inv_def vm_measure_def goesOn_def kept_def fetched_def split: prod.splits)

context ext_vm
begin

lemma caseOf_progress:
  assumes f: "fetched (decode b) v" and b: "m_bounce v = InterpretCases"
  shows "returns (caseOf H P (decode b) v) (progress v)"
proof -
  note go = returns_mono [OF _ progress_goesOn [OF f b]]
  show ?thesis
  proof (cases "decode b")
    case STOP
    then show ?thesis using fetchedD [OF f] by (simp add: progress_def vm_inv_def)
  next
    case (System op)
    have f': "fetched (System op) v" using f System by simp
    show ?thesis unfolding System caseOf.simps
      by (rule returns_mono [OF caseSystem_returns [OF f']], elim disjE conjE)
        (use f' fetchedD [OF f'] b in \<open>auto simp: progress_def vm_inv_def vm_measure_def fetched_def mem_ok_def\<close>)
  qed (use f decode_operand [of b] in \<open>auto intro!: go caseSha3_goesOn caseArith_goesOn caseLogic_goesOn
     caseEnv_goesOn caseBlock_goesOn caseStore_goesOn caseSynth_goesOn casePush_goesOn caseDup_goesOn
     caseSwap_goesOn caseLog_goesOn simp: caseSubroutine_def caseSimd_def\<close>)
qed

lemma bounceStep_progress:
  assumes inv: "vm_inv vm"
  shows "returns (bounceStep H P vm) (\<lambda>vm'. m_bounce vm \<noteq> Finished \<longrightarrow> progress vm vm')"
proof (cases "m_bounce vm")
  case InterpretCases
  then have ok: "schedule_ok (m_schedule vm)" "mem_ok vm" using inv by (simp_all add: vm_inv_def)
  have "returns (interpretCases H P vm) (progress vm)"
    unfolding interpretCases_def
  proof (rule returns_bind [OF fetchInstruction_returns [OF ok]], elim conjE)
    fix v
    assume f: "fetched (decode (m_code P ! m_PC vm)) v" and fr: "fetchFrame vm v"
    have "m_bounce v = InterpretCases" using fr InterpretCases by (simp add: fetchFrame_def)
    from caseOf_progress [OF f this, of P] have "returns (caseOf H P (m_OP v) v) (progress v)"
      using fetchedD(4) [OF f] by simp
    then show "returns (caseOf H P (m_OP v) v) (progress vm)"
      by (rule returns_mono) (use fr in \<open>simp add: progress_def fetchFrame_def vm_measure_def\<close>)
  qed
  with InterpretCases show ?thesis by (simp add: bounceStep_def)
next
  case CaseCreate
  then obtain op where "op = CREATE \<or> op = CREATE2" "fetched (System op) vm"
    using inv by (auto simp: vm_inv_def)
  from caseCreate_returns [OF this(2,1)] have "returns (caseCreate H vm) (returned vm)"
    using CaseCreate by (simp add: vm_id)
  then have "returns (caseCreate H vm) (progress vm)"
    by (rule returns_mono) (use \<open>fetched (System op) vm\<close> CaseCreate in
       \<open>auto simp: progress_def vm_inv_def vm_measure_def returned_def kept_def fetched_def split: prod.splits\<close>)
  with CaseCreate show ?thesis by (simp add: bounceStep_def)
next
  case CaseCall
  then obtain op where f: "fetched (System op) vm" using inv by (auto simp: vm_inv_def)
  from caseCall_returns [OF f] have "returns (caseCall H vm) (returned vm)"
    using CaseCall by (simp add: vm_id)
  then have "returns (caseCall H vm) (progress vm)"
    by (rule returns_mono) (use f CaseCall in
       \<open>auto simp: progress_def vm_inv_def vm_measure_def returned_def kept_def fetched_def split: prod.splits\<close>)
  with CaseCall show ?thesis by (simp add: bounceStep_def)
next
  case Finished
  then show ?thesis by (simp add: returns_def)
qed

text \<open>The fuel of \<open>exec\<close> is enough, and the rest of the result follows from the invariant.\<close>

lemma runVM_terminates:
  "vm_inv vm \<Longrightarrow> m_bounce vm \<noteq> Finished \<Longrightarrow> vm_measure vm < n \<Longrightarrow> runVM n H P vm \<noteq> None"
proof (induction n arbitrary: vm)
  case 0
  then show ?case by simp
next
  case (Suc n)
  have *: "returns (bounceStep H P vm) (progress vm)"
    using bounceStep_progress [OF Suc.prems(1), of P] Suc.prems(2) by simp
  show ?case
  proof (cases "bounceStep H P vm")
    case (Inl x)
    then show ?thesis by simp
  next
    case (Inr vm1)
    with * have pr: "progress vm vm1" by simp
    show ?thesis
    proof (cases "m_bounce vm1 = Finished")
      case False
      with pr Suc.prems(3) have "runVM n H P vm1 \<noteq> None"
        by (intro Suc.IH) (auto simp: progress_def)
      with Inr False show ?thesis by simp
    qed (simp add: Inr)
  qed
qed

lemma vm_inv_init: "vm_inv (initVM H e g)"
  by (simp add: vm_inv_def initVM_def schedule mem_ok_def memCost_def)

lemma exec_returns: "exec H e g \<noteq> None"
  unfolding exec_def Let_def
  using runVM_terminates [OF vm_inv_init, of e g] by (simp add: vm_measure_def initVM_def)

lemma reachable_progress:
  assumes "reachable H P vm0 vm" "vm_inv vm0"
  shows "vm_inv vm \<and> same_context (m_ext vm0) (m_ext vm) \<and> m_io_gas vm \<le> m_io_gas vm0 \<and>
         m_schedule vm = m_schedule vm0"
  using assms
proof (induction rule: reachable.induct)
  case (reachable_step vm1 vm2)
  then have "progress vm1 vm2"
    using bounceStep_progress [of vm1 P] by (auto simp: vm_step_iff)
  with reachable_step show ?case by (auto simp: progress_def intro: same_context_trans)
qed simp

end

end
