(* ===== verification/Legacy_VM_Frame.thy ===== *)
theory Legacy_VM_Frame
  imports Legacy_VM_Gas
begin

section \<open>What a run does to its surroundings\<close>

text \<open>
  A relation on contexts that every operation of the interface keeps (locale \<open>ext_rel\<close>) relates
  the context before a run to the one after it, whether the run returns, reverts or throws, at
  whatever instruction. The operations that change the state are assumed to keep the relation
  only where the code may reach them: never in a static call, creations and calls only with the
  balance and depth that were checked. A run that reverts leaves no more gas than it was given.
\<close>

subsection \<open>Both ends of a computation\<close>


definition isRevert :: "vm_exception \<Rightarrow> bool" where
  "isRevert x \<longleftrightarrow> (case x of RevertInstruction _ \<Rightarrow> True | _ \<Rightarrow> False)"

lemma isRevert_simps [simp]:
  "isRevert (RevertInstruction bs)" "\<not> isRevert OutOfGas" "\<not> isRevert BadInstruction"
  "\<not> isRevert BadJumpDestination" "\<not> isRevert OutOfStack" "\<not> isRevert StackUnderflow"
  "\<not> isRevert DisallowedStateChange" "\<not> isRevert BufferOverrun"
  by (simp_all add: isRevert_def)

lemma outcome_throwVM [simp]: "outcome (throwVM x v) E Q \<longleftrightarrow> E x v"
  by (simp add: throwVM_def)

lemma andThen_throwVM [simp]: "andThen (throwVM x v) f = throwVM x v"
  by (simp add: throwVM_def)

text \<open>A silent computation touches neither the context nor the operands, and does not revert.\<close>

definition untouched :: "'w vm \<Rightarrow> 'w vm \<Rightarrow> bool" where
  "untouched vm v \<longleftrightarrow> m_ext v = m_ext vm \<and> m_SP v = m_SP vm \<and> m_OP v = m_OP vm \<and> m_io_gas v \<le> m_io_gas vm"

definition silent :: "'w vm \<Rightarrow> ('w, 'w vm) vm_result \<Rightarrow> bool" where
  "silent vm r \<longleftrightarrow> outcome r (\<lambda>x v. m_ext v = m_ext vm \<and> \<not> isRevert x) (untouched vm)"

definition silentN :: "'w vm \<Rightarrow> ('w, nat) vm_result \<Rightarrow> bool" where
  "silentN vm r \<longleftrightarrow> outcome r (\<lambda>x v. m_ext v = m_ext vm \<and> \<not> isRevert x) (\<lambda>_. True)"

lemma untouched_refl [simp]: "untouched vm vm"
  by (simp add: untouched_def)

lemma untouched_trans: "untouched a b \<Longrightarrow> untouched b c \<Longrightarrow> untouched a c"
  by (simp add: untouched_def)

lemma untouched_update [simp]:
  "untouched vm (next_op v) \<longleftrightarrow> untouched vm v" "untouched vm (setSPP0 x v) \<longleftrightarrow> untouched vm v"
  "untouched vm (v\<lparr>m_runGas := g\<rparr>) \<longleftrightarrow> untouched vm v" "untouched vm (v\<lparr>m_newMemSize := n\<rparr>) \<longleftrightarrow> untouched vm v"
  "untouched vm (v\<lparr>m_copyMemSize := n\<rparr>) \<longleftrightarrow> untouched vm v" "untouched vm (v\<lparr>m_mem := m\<rparr>) \<longleftrightarrow> untouched vm v"
  "untouched vm (v\<lparr>m_PC := n\<rparr>) \<longleftrightarrow> untouched vm v" "untouched vm (v\<lparr>m_SPP := xs\<rparr>) \<longleftrightarrow> untouched vm v"
  "untouched vm (v\<lparr>m_bounce := b\<rparr>) \<longleftrightarrow> untouched vm v" "untouched vm (v\<lparr>m_output := bs\<rparr>) \<longleftrightarrow> untouched vm v"
  "untouched vm (v\<lparr>m_returnData := bs\<rparr>) \<longleftrightarrow> untouched vm v"
  by (simp_all add: untouched_def next_op_def setSPP0_def)

lemma silent_Inr [simp]: "silent vm (Inr v) \<longleftrightarrow> untouched vm v"
  by (simp add: silent_def)

lemma silent_throw [simp]:
  "silent vm (throwVM x v) \<longleftrightarrow> m_ext v = m_ext vm \<and> \<not> isRevert x"
  "silent vm (Inl (x, v)) \<longleftrightarrow> m_ext v = m_ext vm \<and> \<not> isRevert x"
  "silentN vm (throwVM x v) \<longleftrightarrow> m_ext v = m_ext vm \<and> \<not> isRevert x"
  "silentN vm (Inr n)"
  by (simp_all add: silent_def silentN_def)

lemma silent_bind:
  assumes "silent vm m" and f: "\<And>v. untouched vm v \<Longrightarrow> silent v (f v)"
  shows "silent vm (andThen m f)"
  unfolding silent_def
proof (rule outcome_bind [OF assms(1) [unfolded silent_def]])
  fix v assume v: "untouched vm v"
  from f [OF v] show "outcome (f v) (\<lambda>x v. m_ext v = m_ext vm \<and> \<not> isRevert x) (untouched vm)"
    unfolding silent_def by (rule outcome_mono) (use v untouched_trans in \<open>auto simp: untouched_def\<close>)
qed

lemma silentN_bind:
  "silentN vm m \<Longrightarrow> (\<And>n. silent vm (f n)) \<Longrightarrow> silent vm (andThen m f)"
  unfolding silent_def silentN_def by (rule outcome_bind)

lemma silentN_bindN:
  "silentN vm m \<Longrightarrow> (\<And>n. silentN vm (f n)) \<Longrightarrow> silentN vm (andThen m f)"
  unfolding silentN_def by (rule outcome_bind)

lemma silent_update:
  assumes "silent v r" "untouched vm v"
  shows "silent vm r"
  using assms(1) unfolding silent_def by (rule outcome_mono) (use assms(2) untouched_trans in \<open>auto simp: untouched_def\<close>)

lemma silentN_helpers [simp]:
  "silentN vm (toInt63 vm n)" "silentN vm (memNeed vm a b)" "silentN vm (gasForMem vm n)"
  "silentN vm (verifyJumpDest P d vm)"
  by (simp_all add: toInt63_def memNeed_def gasForMem_def Let_def verifyJumpDest_def split: option.splits)

lemma silentN_ext: "m_ext v = m_ext vm \<Longrightarrow> silentN v r \<Longrightarrow> silentN vm r"
  by (simp add: silentN_def)

lemma silent_setRunGas [simp]: "silent vm (setRunGas g vm)"
  unfolding setRunGas_def by (rule silentN_bind) simp_all

lemma silent_throwWhen [simp]: "silent vm (throwWhen c x vm) \<longleftrightarrow> (c \<longrightarrow> \<not> isRevert x)"
  by (simp add: throwWhen_def)

lemma silent_updateIOGas [simp]: "silent vm (updateIOGas vm)"
  by (simp add: updateIOGas_def untouched_def)

lemma silent_updateMem [simp]: "silent vm (updateMem n vm)"
proof -
  have "silent v (addMemGas v)" for v :: "'a vm"
    unfolding addMemGas_def by (auto intro!: silentN_bind)
  then have "silent v (updateGas v)" for v :: "'a vm"
    unfolding updateGas_def Let_def by (intro silent_bind) simp_all
  then have *: "silent v (updateGas (v\<lparr>m_newMemSize := k\<rparr>))" for v :: "'a vm" and k
    by (rule silent_update) simp
  show ?thesis unfolding updateMem_def by (rule silent_bind [OF *]) simp
qed

lemma silent_simpleOp [simp]: "silent vm (simpleOp f vm)"
  unfolding simpleOp_def by (rule silent_bind) simp_all

lemma silent_pricedOp [simp]: "silent vm (pricedOp g f vm)"
  unfolding pricedOp_def by (rule silent_bind) simp_all

lemma silent_touchMem [simp]: "silent vm (touchMem n vm)"
  unfolding touchMem_def by (intro silentN_bind silent_bind) simp_all

lemma silent_jumpTo [simp]: "silent vm (jumpTo P vm)"
  unfolding jumpTo_def by (intro silentN_bind) simp_all

lemma silent_copyOp [simp]: "silent vm (copyOp dat k vm)"
proof -
  have "silent v (andThen (memNeed v a b) (\<lambda>need. andThen (updateMem need v) (\<lambda>vm. andThen (updateIOGas vm)
     (\<lambda>vm. Inr (next_op (vm\<lparr>m_mem := g vm\<rparr>))))))" for v :: "'a vm" and a b g
    by (intro silentN_bind silent_bind) simp_all
  then have "silent vm (andThen (memNeed (vm\<lparr>m_copyMemSize := n\<rparr>) a b) (\<lambda>need.
     andThen (updateMem need (vm\<lparr>m_copyMemSize := n\<rparr>)) (\<lambda>vm. andThen (updateIOGas vm)
     (\<lambda>vm. Inr (next_op (vm\<lparr>m_mem := g vm\<rparr>))))))" for n a b g
    by (rule silent_update) simp
  then show ?thesis unfolding copyOp_def Let_def by (rule silentN_bind [rotated]) simp_all
qed

lemma silent_cases [simp]:
  "silent vm (caseArith aop vm)" "silent vm (caseLogic lop vm)" "silent vm (caseSha3 H vm)"
  "silent vm (caseEnv H eop vm)" "silent vm (caseSynth H P sop vm)"
  "silent vm (casePush P n vm)" "silent vm (caseDup n vm)" "silent vm (caseSwap n vm)"
proof -
  show "silent vm (caseArith aop vm)" by (simp add: caseArith_def)
  show "silent vm (caseLogic lop vm)" unfolding caseLogic_def by (rule silent_bind) simp_all
  show "silent vm (caseSha3 H vm)" unfolding caseSha3_def Let_def by (intro silent_bind silentN_bind) simp_all
  show "silent vm (caseEnv H eop vm)" by (cases eop) (auto intro!: silent_bind)
  show "silent vm (caseSynth H P sop vm)" by (cases sop) (auto simp: Let_def intro!: silent_bind)
  show "silent vm (casePush P n vm)" unfolding casePush_def Let_def by (rule silent_bind) simp_all
  show "silent vm (caseDup n vm)" by (simp add: caseDup_def)
  show "silent vm (caseSwap n vm)" unfolding caseSwap_def by (rule silent_bind) simp_all
qed

lemma silent_caseBlock: "bop \<noteq> BLOCKHASH \<Longrightarrow> silent vm (caseBlock H bop vm)"
  by (cases bop) simp_all

lemma silent_caseStore: "sop \<noteq> SSTORE \<Longrightarrow> silent vm (caseStore H P sop vm)"
  by (cases sop) (auto intro!: silent_bind silent_update [OF silent_updateIOGas])

subsection \<open>Relations that every call to the outside keeps\<close>

locale ext_rel = ext_vm H for H :: "'w host" +
  fixes R :: "'w ext \<Rightarrow> 'w ext \<Rightarrow> bool"
  assumes R_refl: "R e e"
    and R_trans: "R e1 e2 \<Longrightarrow> R e2 e3 \<Longrightarrow> R e1 e3"
    and R_setStore: "\<not> staticCall e \<Longrightarrow> R e (h_setStore H e k v)"
    and R_suicide: "\<not> staticCall e \<Longrightarrow> R e (h_suicide H e a)"
    and R_log: "\<not> staticCall e \<Longrightarrow> R e (ext_log ts bs e)"
    and R_refunds: "\<not> staticCall e \<Longrightarrow> R e (addRefunds r e)"
    and R_blockHash: "h_blockHash H e n = (h, e') \<Longrightarrow> R e e'"
    and R_create: "\<lbrakk>\<not> staticCall e; v \<le> h_balance H e (myAddress e); depth e < 1024;
        op = CREATE \<or> op = CREATE2; h_create H e v g c op s = (e', g', a, out)\<rbrakk> \<Longrightarrow> R e e'"
    and R_call: "\<lbrakk>staticCall e \<Longrightarrow> cp_staticCall p \<and> (valueTransfer p = 0 \<or> receiveAddress p = myAddress e);
        valueTransfer p = 0 \<or> senderAddress p = myAddress e;
        valueTransfer p \<le> h_balance H e (myAddress e); depth e < 1024;
        h_call H e p = (e', g', ok, out)\<rbrakk> \<Longrightarrow> R e e'"
begin

text \<open>Both ends of an instruction are related to its start; a revert has not gained gas.\<close>

definition tracked :: "'w vm \<Rightarrow> ('w, 'w vm) vm_result \<Rightarrow> bool" where
  "tracked vm r \<longleftrightarrow> outcome r
     (\<lambda>x v. R (m_ext vm) (m_ext v) \<and> (isRevert x \<longrightarrow> m_io_gas v \<le> m_io_gas vm)) (\<lambda>v. R (m_ext vm) (m_ext v))"

lemma tracked_silent: "silent vm r \<Longrightarrow> tracked vm r"
  unfolding silent_def tracked_def by (erule outcome_mono) (auto simp: untouched_def R_refl)

lemma tracked_Inr [simp]: "tracked vm (Inr v) \<longleftrightarrow> R (m_ext vm) (m_ext v)"
  by (simp add: tracked_def)

lemma tracked_throw: "m_ext v = m_ext vm \<Longrightarrow> m_io_gas v \<le> m_io_gas vm \<Longrightarrow> tracked vm (throwVM x v)"
  by (simp add: tracked_def R_refl)

lemma tracked_bind:
  assumes "silent vm m" and f: "\<And>v. untouched vm v \<Longrightarrow> tracked v (f v)"
  shows "tracked vm (andThen m f)"
  unfolding tracked_def
proof (rule outcome_bind)
  show "outcome m (\<lambda>x v. R (m_ext vm) (m_ext v) \<and> (isRevert x \<longrightarrow> m_io_gas v \<le> m_io_gas vm)) (untouched vm)"
    using assms(1) unfolding silent_def by (rule outcome_mono) (auto simp: R_refl)
  fix v assume v: "untouched vm v"
  from f [OF v] show "outcome (f v) (\<lambda>x v. R (m_ext vm) (m_ext v) \<and> (isRevert x \<longrightarrow> m_io_gas v \<le> m_io_gas vm))
      (\<lambda>v. R (m_ext vm) (m_ext v))"
    unfolding tracked_def by (rule outcome_mono) (use v in \<open>auto simp: untouched_def\<close>)
qed

lemma tracked_bindN:
  assumes "silentN vm m" and "\<And>n. tracked vm (f n)"
  shows "tracked vm (andThen m f)"
  unfolding tracked_def
  by (rule outcome_bind [where R = "\<lambda>_. True"], rule outcome_mono [OF assms(1) [unfolded silentN_def]])
    (use assms(2) in \<open>auto simp: R_refl tracked_def\<close>)

lemma tracked_update: "tracked v r \<Longrightarrow> untouched vm v \<Longrightarrow> tracked vm r"
  unfolding tracked_def by (erule outcome_mono) (auto simp: untouched_def)

lemma tracked_guard:
  "\<not> isRevert x \<Longrightarrow> (\<not> c \<Longrightarrow> tracked vm (f vm)) \<Longrightarrow> tracked vm (andThen (throwWhen c x vm) f)"
  by (simp add: throwWhen_def tracked_def R_refl)

lemma R_updateSSGas:
  assumes s: "\<not> staticCall (m_ext vm)"
  shows "outcome (updateSSGas H vm) (\<lambda>x v. m_ext v = m_ext vm \<and> \<not> isRevert x)
     (\<lambda>v. R (m_ext vm) (m_ext v) \<and> staticCall (m_ext v) = staticCall (m_ext vm))"
proof -
  have st [simp]: "staticCall (addRefunds r e) = staticCall e" for r and e :: "'a ext" by (simp add: addRefunds_def)
  have R1: "R (m_ext vm) (addRefunds r (m_ext vm))" for r by (rule R_refunds [OF s])
  have R2: "R (m_ext vm) (addRefunds r2 (addRefunds r1 (m_ext vm)))" for r1 r2
    by (rule R_trans [OF R1 R_refunds]) (simp add: s)
  have R3: "R (m_ext vm) (addRefunds r3 (addRefunds r2 (addRefunds r1 (m_ext vm))))" for r1 r2 r3
    by (rule R_trans [OF R2 R_refunds]) (simp add: s)
  show ?thesis
    by (simp add: updateSSGas_def updateSSGasPreEIP1283_def updateSSGasEIP1283_def toInt63_def Let_def
        R_refl R1 R2 R3)
qed

lemma tracked_SSTORE: "tracked vm (caseStore H P SSTORE vm)"
  unfolding caseStore.simps
proof (rule tracked_guard, simp)
  assume s: "\<not> staticCall (m_ext vm)"
  have "outcome (updateSSGas H vm)
     (\<lambda>x v. R (m_ext vm) (m_ext v) \<and> (isRevert x \<longrightarrow> m_io_gas v \<le> m_io_gas vm))
     (\<lambda>v. R (m_ext vm) (m_ext v) \<and> \<not> staticCall (m_ext v))"
    by (rule outcome_mono [OF R_updateSSGas [OF s]]) (auto simp: R_refl s)
  then show "tracked vm (andThen (updateSSGas H vm) (\<lambda>vm. andThen (updateIOGas vm)
      (\<lambda>vm. Inr (next_op (vm\<lparr>m_ext := h_setStore H (m_ext vm) (SP vm 0) (SP vm 1)\<rparr>)))))"
    unfolding tracked_def
  proof (rule outcome_bind)
    fix v :: "'w vm" assume "R (m_ext vm) (m_ext v) \<and> \<not> staticCall (m_ext v)"
    then show "outcome (andThen (updateIOGas v) (\<lambda>vm. Inr (next_op (vm\<lparr>m_ext := h_setStore H (m_ext vm) (SP vm 0) (SP vm 1)\<rparr>))))
       (\<lambda>x v. R (m_ext vm) (m_ext v) \<and> (isRevert x \<longrightarrow> m_io_gas v \<le> m_io_gas vm)) (\<lambda>v. R (m_ext vm) (m_ext v))"
      using R_trans R_setStore by (simp add: updateIOGas_def next_op_def) blast
  qed
qed

lemma tracked_LOG: "tracked vm (caseLog n vm)"
  unfolding caseLog_def
proof (rule tracked_guard, simp)
  assume s: "\<not> staticCall (m_ext vm)"
  have q: "silent v (logGasMem n v)" for v :: "'a vm"
  proof -
    have "silent v (andThen (memNeed v a b) (\<lambda>need. updateMem need v))" for v :: "'a vm" and a b
      by (rule silentN_bind) simp_all
    then have "silent v (andThen (memNeed (v\<lparr>m_runGas := g\<rparr>) a b) (\<lambda>need. updateMem need (v\<lparr>m_runGas := g\<rparr>)))" for v :: "'a vm" and g a b
      by (rule silent_update) simp
    then show ?thesis unfolding logGasMem_def Let_def by (rule silentN_bind [rotated]) simp_all
  qed
  show "tracked vm (andThen (logGasMem n vm) (\<lambda>vm. andThen (updateIOGas vm) (\<lambda>vm. Inr (next_op
      (vm\<lparr>m_ext := ext_log (take n (drop 2 (m_SP vm))) (readMem (m_mem vm) (low64 (SP vm 0)) (low64 (SP vm 1))) (m_ext vm)\<rparr>)))))"
    by (intro tracked_bind q) (auto simp: untouched_def next_op_def s intro!: R_log)
qed

lemma tracked_caseBlock: "tracked vm (caseBlock H bop vm)"
proof (cases "bop = BLOCKHASH")
  case True
  show ?thesis
    unfolding True caseBlock.simps
    by (rule tracked_bind [OF silent_setRunGas], rule tracked_bind [OF silent_updateIOGas])
      (auto simp: next_op_def setSPP0_def split: prod.split intro: R_blockHash)
qed (rule tracked_silent [OF silent_caseBlock])

lemma tracked_caseStore: "tracked vm (caseStore H P sop vm)"
  using tracked_SSTORE tracked_silent [OF silent_caseStore] by (cases "sop = SSTORE") auto

lemma tracked_caseSystem: "tracked vm (caseSystem H sop vm)"
proof (cases sop)
  case SUICIDE
  show ?thesis unfolding SUICIDE caseSystem.simps
  proof (rule tracked_guard, simp)
    assume s: "\<not> staticCall (m_ext vm)"
    have *: "tracked v (andThen (updateIOGas v) (\<lambda>vm. Inr (vm\<lparr>m_ext := h_suicide H (m_ext vm) d, m_bounce := Finished\<rparr>)))"
      if "\<not> staticCall (m_ext v)" for v d
      by (rule tracked_bind) (use that in \<open>auto simp: untouched_def intro!: R_suicide\<close>)
    show "tracked vm (andThen (setRunGas (suicideGas (m_schedule vm)) vm) (\<lambda>vm.
       let e = m_ext vm; sch = m_schedule vm; dest = asAddress (SP vm 0);
         vm = (if (h_balance H e (myAddress e) > 0 \<or> zeroValueTransferChargesNewAccountGas sch)
                  \<and> suicideChargesNewAccountGas sch \<and> \<not> h_exists H e dest
               then vm\<lparr>m_runGas := wrap64 (m_runGas vm + callNewAccountGas sch)\<rparr> else vm)
       in andThen (updateIOGas vm) (\<lambda>vm. Inr (vm\<lparr>m_ext := h_suicide H (m_ext vm) dest, m_bounce := Finished\<rparr>))))"
      unfolding Let_def
      by (rule tracked_bind) (use s in \<open>auto intro!: tracked_update [OF *] simp: untouched_def\<close>)
  qed
next
  case RETURN
  have *: "tracked v (andThen (memNeed v a b) (\<lambda>need. andThen (updateMem need (v\<lparr>m_copyMemSize := 0\<rparr>)) (\<lambda>vm.
     andThen (updateIOGas vm) (\<lambda>vm. Inr (vm\<lparr>m_output := f vm, m_mem := [], m_bounce := Finished\<rparr>)))))" for v a b f
    by (rule tracked_bindN, simp, rule tracked_silent, rule silent_bind, rule silent_update [OF silent_updateMem])
      (auto intro!: silent_bind)
  show ?thesis unfolding RETURN caseSystem.simps by (rule *)
next
  case REVERT
  have *: "tracked v (andThen (memNeed v a b) (\<lambda>need. andThen (updateMem need (v\<lparr>m_copyMemSize := 0\<rparr>)) (\<lambda>vm.
     andThen (updateIOGas vm) (\<lambda>vm. throwVM (RevertInstruction (f vm)) vm))))" for v a b f
    by (rule tracked_bindN, simp, rule tracked_bind, rule silent_update [OF silent_updateMem])
      (auto intro!: tracked_bind tracked_throw)
  show ?thesis unfolding REVERT caseSystem.simps by (rule tracked_guard) (simp_all add: *)
qed (auto intro!: tracked_guard simp: R_refl tracked_throw)

lemma tracked_caseOf: "tracked vm (caseOf H P op vm)"
proof (cases op)
  case STOP
  show ?thesis unfolding STOP caseOf.simps by (rule tracked_silent, rule silent_bind) simp_all
qed (simp_all add: tracked_silent tracked_caseBlock tracked_caseStore tracked_caseSystem tracked_LOG tracked_throw
    caseSubroutine_def caseSimd_def)

lemma silent_addRunGasIf [simp]: "silent vm (addRunGasIf c n vm)"
  unfolding addRunGasIf_def by (auto intro: silentN_bind)

lemma silent_createCharge: "silent vm (createCharge vm)"
proof -
  have 1: "silent v (setRunGas g (v\<lparr>m_bounce := b\<rparr>))" for v :: "'a vm" and g b
    by (rule silent_update [OF silent_setRunGas]) simp
  show ?thesis unfolding createCharge_def
    by (rule silent_bind [OF 1], rule silent_bind [OF silent_addRunGasIf], rule silentN_bind, simp,
        rule silent_bind [OF silent_updateMem], rule silent_updateIOGas)
qed

lemma tracked_caseCreate:
  assumes s: "\<not> staticCall (m_ext vm)" and op: "m_OP vm = System op" "op = CREATE \<or> op = CREATE2"
  shows "tracked vm (caseCreate H vm)"
  unfolding caseCreate_def
proof (rule tracked_bind [OF silent_createCharge])
  fix w assume w: "untouched vm w"
  obtain e' g a out where hc: "h_create H (m_ext w) (SP w 0) (createGasLimit w)
      (readMem (m_mem w) (low64 (SP w 1)) (low64 (SP w 2))) (createOp w) (createSalt w) = (e', g, a, out)"
    by (metis prod_cases4)
  have op': "createOp w = CREATE \<or> createOp w = CREATE2" using w op by (simp add: untouched_def createOp_def)
  have "R (m_ext w) e'" if "SP w 0 \<le> h_balance H (m_ext w) (myAddress (m_ext w))" "depth (m_ext w) < 1024"
    using w s by (intro R_create [OF _ that op' hc]) (simp add: untouched_def)
  then show "tracked w (Inr (next_op (finishCreate H w)))"
    unfolding finishCreate_def Let_def hc by (simp add: next_op_def setSPP0_def R_refl)
qed

lemma silent_callCharge: "silent vm (callCharge H vm)"
proof -
  have *: "silent v (updateMem n (v\<lparr>m_newMemSize := k\<rparr>))" for v :: "'a vm" and n k
    by (rule silent_update [OF silent_updateMem]) simp
  show ?thesis unfolding callCharge_def Let_def
    by (rule silent_bind [OF silent_setRunGas], rule silent_bind [OF silent_addRunGasIf],
        rule silent_bind [OF silent_addRunGasIf], rule silentN_bind, simp, rule silentN_bind, simp,
        rule silent_bind [OF *], rule silent_updateIOGas)
qed

lemma m_ext_next: "m_ext (next_op v) = m_ext v"
  by (simp add: next_op_def)

lemma R_finishCall:
  assumes s: "staticCall (m_ext w) \<longrightarrow> createOp w = CALL \<longrightarrow> SP w 2 = 0"
    and place: "place \<noteq> None \<Longrightarrow> valueTransfer (callParams gas w) \<le> h_balance H (m_ext w) (myAddress (m_ext w))
                 \<and> depth (m_ext w) < 1024"
  shows "R (m_ext w) (m_ext (finishCall H (w, callParams gas w, place)))"
proof (cases place)
  case None
  then show ?thesis by (simp add: finishCall_def setSPP0_def R_refl)
next
  case (Some os)
  obtain o1 sz where os: "os = (o1, sz)" by (cases os)
  obtain e' g ok out where hc: "h_call H (m_ext w) (callParams gas w) = (e', g, ok, out)" by (metis prod_cases4)
  have "R (m_ext w) e'"
    by (rule R_call [OF _ _ _ _ hc]) (use place Some s in \<open>auto simp: callParams_def Let_def haveValueArg_def\<close>)
  then show ?thesis unfolding Some os finishCall_def case_prod_conv option.case Let_def hc
    by (simp add: setSPP0_def)
qed

lemma tracked_caseCall:
  assumes s: "staticCall (m_ext vm) \<longrightarrow> op = CALL \<longrightarrow> SP vm 2 = 0" and op: "m_OP vm = System op"
  shows "tracked vm (caseCall H vm)"
proof -
  let ?vb = "vm\<lparr>m_bounce := InterpretCases, m_returnData := []\<rparr>"
  have cop: "createOp v = op" if "untouched vm v" for v using that op by (simp add: untouched_def createOp_def)
  have sv: "staticCall (m_ext v) \<longrightarrow> createOp v = CALL \<longrightarrow> SP v 2 = 0" if "untouched vm v" for v
    using s cop [OF that] that by (simp add: untouched_def)
  have "tracked ?vb (andThen (callCharge H ?vb) (\<lambda>vm. andThen (setRunGas (unat (callGasLimit vm)) vm)
     (\<lambda>vm'. andThen (updateIOGas vm') (\<lambda>x. Inr (next_op (finishCall H (x, callParams (callGasLimit vm) x,
        if h_balance H (m_ext x) (myAddress (m_ext x)) \<ge> valueTransfer (callParams (callGasLimit vm) x) \<and> depth (m_ext x) < 1024
        then Some (low64 (SP x (sizesOffset (createOp x) + 2)), low64 (SP x (sizesOffset (createOp x) + 3)))
        else None)))))))"
  proof (rule tracked_bind [OF silent_callCharge], rule tracked_bind [OF silent_setRunGas],
         rule tracked_bind [OF silent_updateIOGas], unfold tracked_Inr)
    fix v v1 v2 :: "'w vm"
    assume "untouched ?vb v" "untouched v v1" "untouched v1 v2"
    then have "untouched vm v2" by (simp add: untouched_def)
    note fc = R_finishCall [OF sv [OF this]]
    show "R (m_ext v2) (m_ext (next_op (finishCall H (v2, callParams (callGasLimit v) v2,
        if h_balance H (m_ext v2) (myAddress (m_ext v2)) \<ge> valueTransfer (callParams (callGasLimit v) v2) \<and> depth (m_ext v2) < 1024
        then Some (low64 (SP v2 (sizesOffset (createOp v2) + 2)), low64 (SP v2 (sizesOffset (createOp v2) + 3)))
        else None))))"
      unfolding m_ext_next by (rule fc) (simp split: if_splits)
  qed
  then show ?thesis
    unfolding caseCall_def caseCallSetup_def andThen_assoc Let_def andThen_Inr
    by (rule tracked_update) simp
qed

text \<open>One step, and the whole run.\<close>

lemma tracked_bounceStep:
  assumes inv: "vm_inv vm"
  shows "tracked vm (bounceStep H P vm)"
proof (cases "m_bounce vm")
  case InterpretCases
  let ?same = "\<lambda>v :: 'w vm. m_ext v = m_ext vm \<and> m_io_gas v = m_io_gas vm"
  obtain a r t where m: "metric (decode (m_code P ! m_PC vm)) = (a, r, t)" by (metis prod_cases3)
  have "outcome (fetchInstruction H P vm) (\<lambda>x v. R (m_ext vm) (m_ext v) \<and> (isRevert x \<longrightarrow> m_io_gas v \<le> m_io_gas vm)) ?same"
    by (simp add: fetchInstruction_def m adjustStack_def toInt63_def Let_def R_refl)
  then have "tracked vm (andThen (fetchInstruction H P vm) (\<lambda>vm. caseOf H P (m_OP vm) vm))"
    unfolding tracked_def
  proof (rule outcome_bind)
    fix v :: "'w vm" assume "?same v"
    then show "outcome (caseOf H P (m_OP v) v) (\<lambda>x v. R (m_ext vm) (m_ext v) \<and> (isRevert x \<longrightarrow> m_io_gas v \<le> m_io_gas vm))
        (\<lambda>v. R (m_ext vm) (m_ext v))"
      using tracked_caseOf [of v P "m_OP v"] by (simp add: tracked_def)
  qed
  with InterpretCases show ?thesis by (simp add: bounceStep_def interpretCases_def)
next
  case CaseCreate
  with inv tracked_caseCreate [of vm] fetchedD(4) [of _ vm] show ?thesis
    by (auto simp: bounceStep_def vm_inv_def)
next
  case CaseCall
  with inv tracked_caseCall [of vm] fetchedD(4) [of _ vm] show ?thesis
    by (auto simp: bounceStep_def vm_inv_def)
next
  case Finished
  then show ?thesis by (simp add: bounceStep_def R_refl)
qed

lemma runVM_related:
  "vm_inv vm \<Longrightarrow> m_bounce vm \<noteq> Finished \<Longrightarrow> runVM n H P vm = Some r \<Longrightarrow>
   outcome r (\<lambda>x v. R (m_ext vm) (m_ext v) \<and> (isRevert x \<longrightarrow> m_io_gas v \<le> m_io_gas vm))
     (\<lambda>v. R (m_ext vm) (m_ext v) \<and> m_io_gas v \<le> m_io_gas vm)"
proof (induction n arbitrary: vm)
  case 0
  then show ?case by simp
next
  case (Suc n)
  note tr = tracked_bounceStep [OF Suc.prems(1), of P]
  show ?case
  proof (cases "bounceStep H P vm")
    case (Inl y)
    with Suc.prems(3) tr show ?thesis by (cases y) (auto simp: tracked_def)
  next
    case (Inr vm1)
    have pr: "progress vm vm1" and R1: "R (m_ext vm) (m_ext vm1)"
      using bounceStep_progress [OF Suc.prems(1), of P] Suc.prems(2) tr Inr by simp_all
    show ?thesis
    proof (cases "m_bounce vm1 = Finished")
      case True
      with Suc.prems(3) Inr pr R1 show ?thesis by (auto simp: progress_def)
    next
      case False
      with Suc.prems(3) Inr have "runVM n H P vm1 = Some r" by simp
      from pr have "vm_inv vm1" by (simp add: progress_def)
      from Suc.IH [OF this False \<open>runVM n H P vm1 = Some r\<close>] show ?thesis
        by (rule outcome_mono) (use pr in \<open>auto simp: progress_def intro: R_trans [OF R1]\<close>)
    qed
  qed
qed

lemma exec_related:
  assumes "exec H e g = Some (r, g', e')"
  shows "R e e'" and "r = Inr out \<Longrightarrow> g' \<le> g" and "r = Inl x \<Longrightarrow> isRevert x \<Longrightarrow> g' \<le> g"
proof -
  let ?vm = "initVM H e g"
  obtain s where s: "runVM (2 * m_io_gas ?vm + 3) H (optimize (evm_optimize H) (ext_code e)) ?vm = Some s"
    and res: "(r, g', e') = (case s of Inl (x, v) \<Rightarrow> (Inl x, word_of_nat (m_io_gas v), m_ext v)
          | Inr v \<Rightarrow> (Inr (m_output v), word_of_nat (m_io_gas v), m_ext v))"
    using assms by (auto simp: exec_def Let_def)
  have i: "m_ext ?vm = e" "m_io_gas ?vm \<le> unat g" "m_bounce ?vm \<noteq> Finished"
    by (simp_all add: initVM_def low64_le)
  have le: "word_of_nat m \<le> g" if "m \<le> m_io_gas ?vm" for m
    using that i(2) unsigned_less [of g] by (simp add: word_le_nat_alt unat_of_nat)
  note o = runVM_related [OF vm_inv_init i(3) s, unfolded i(1)]
  show "R e e'" using o res by (auto split: sum.splits)
  show "g' \<le> g" if "r = Inr out" using o res that le by (auto split: sum.splits)
  show "g' \<le> g" if "r = Inl x" "isRevert x" using o res that le by (auto split: sum.splits)
qed

end

text \<open>What \<open>ext_vm\<close> already promises is such a relation.\<close>

sublocale ext_vm \<subseteq> frame: ext_rel H same_context
  by unfold_locales (auto intro: same_context_trans setStore_context suicide_context blockHash_context create_context call_context)

context ext_vm
begin

lemma exec_frame:
  assumes "exec H e g = Some (r, g', e')"
  shows "same_context e e'" and "r = Inr out \<Longrightarrow> g' \<le> g" and "r = Inl x \<Longrightarrow> isRevert x \<Longrightarrow> g' \<le> g"
  using frame.exec_related [OF assms] by simp_all

lemma charges_silent: "silent vm (createCharge vm)" "silent vm (callCharge H vm)"
  by (rule frame.silent_createCharge, rule frame.silent_callCharge)

end



end
