(* ===== verification/World_State.thy ===== *)
theory World_State
  imports Rlp_Stream
begin

section \<open>Accounts and the world state (libethereum/Account.h, State.h, State.cpp)\<close>

text \<open>
  \<open>State\<close> keeps the accounts it has touched in a cache over the committed trie, and a log of the
  changes that \<open>rollback\<close> undoes. The tries are modelled by their contents: the state trie is
  the map from addresses to the four fields of an account, a storage trie the map from keys to
  values found under its root, and the code database the bytes found under a hash; the hashes
  themselves are functions of the record \<open>crypto\<close>. Every accessor of the code may fill a cache,
  so every query returns the state it leaves.
\<close>

subsection \<open>Hashes and the random engine\<close>

record crypto =
  c_sha3 :: "bytes \<Rightarrow> h256"
  c_storageRoot :: "(u256 \<Rightarrow> u256) \<Rightarrow> h256"
  c_stateRoot :: "(address \<Rightarrow> (u256 \<times> u256 \<times> h256 \<times> h256) option) \<Rightarrow> h256"
  c_random :: "nat \<Rightarrow> nat"

definition EmptySHA3 :: "crypto \<Rightarrow> h256" where
  "EmptySHA3 C = c_sha3 C []"

text \<open>\<open>sha3(rlp(""))\<close>: the encoding of the empty string is the byte \<open>0x80\<close>.\<close>

definition EmptyTrie :: "crypto \<Rightarrow> h256" where
  "EmptyTrie C = c_sha3 C [0x80]"

subsection \<open>Accounts\<close>

record Account =
  m_isAlive :: bool
  m_isUnchanged :: bool
  m_hasNewCode :: bool
  m_nonce :: u256
  m_balance :: u256
  m_storageRoot :: h256
  m_codeHash :: h256
  m_storageOverlay :: "u256 \<Rightarrow> u256 option"
  m_storageOriginal :: "u256 \<Rightarrow> u256 option"
  m_codeCache :: bytes

text \<open>The default constructor, and the two others.\<close>

definition deadAccount :: "crypto \<Rightarrow> Account" where
  "deadAccount C =
     \<lparr>m_isAlive = False, m_isUnchanged = False, m_hasNewCode = False, m_nonce = 0, m_balance = 0,
      m_storageRoot = EmptyTrie C, m_codeHash = EmptySHA3 C, m_storageOverlay = Map.empty,
      m_storageOriginal = Map.empty, m_codeCache = []\<rparr>"

definition newAccount :: "crypto \<Rightarrow> u256 \<Rightarrow> u256 \<Rightarrow> Account" where
  "newAccount C nonce bal = (deadAccount C)\<lparr>m_isAlive := True, m_nonce := nonce, m_balance := bal\<rparr>"

definition loadedAccount :: "u256 \<times> u256 \<times> h256 \<times> h256 \<Rightarrow> Account" where
  "loadedAccount = (\<lambda>(nonce, bal, root, hash).
     \<lparr>m_isAlive = True, m_isUnchanged = True, m_hasNewCode = False, m_nonce = nonce, m_balance = bal,
      m_storageRoot = root, m_codeHash = hash, m_storageOverlay = Map.empty,
      m_storageOriginal = Map.empty, m_codeCache = []\<rparr>)"

definition isDirty :: "Account \<Rightarrow> bool" where
  "isDirty a \<longleftrightarrow> \<not> m_isUnchanged a"

definition acc_isEmpty :: "crypto \<Rightarrow> Account \<Rightarrow> bool" where
  "acc_isEmpty C a \<longleftrightarrow> m_nonce a = 0 \<and> m_balance a = 0 \<and> m_codeHash a = EmptySHA3 C"

definition acc_changed :: "Account \<Rightarrow> Account" where
  "acc_changed a = a\<lparr>m_isUnchanged := False\<rparr>"

definition acc_untouch :: "Account \<Rightarrow> Account" where
  "acc_untouch a = a\<lparr>m_isUnchanged := True\<rparr>"

definition acc_kill :: "crypto \<Rightarrow> Account \<Rightarrow> Account" where
  "acc_kill C a = acc_changed (a\<lparr>m_isAlive := False, m_storageOverlay := Map.empty, m_storageOriginal := Map.empty,
     m_codeHash := EmptySHA3 C, m_storageRoot := EmptyTrie C, m_balance := 0, m_nonce := 0\<rparr>)"

definition acc_addBalance :: "u256 \<Rightarrow> Account \<Rightarrow> Account" where
  "acc_addBalance v a = acc_changed (a\<lparr>m_balance := m_balance a + v\<rparr>)"

definition acc_incNonce :: "Account \<Rightarrow> Account" where
  "acc_incNonce a = acc_changed (a\<lparr>m_nonce := m_nonce a + 1\<rparr>)"

definition acc_setNonce :: "u256 \<Rightarrow> Account \<Rightarrow> Account" where
  "acc_setNonce n a = acc_changed (a\<lparr>m_nonce := n\<rparr>)"

definition acc_setStorage :: "u256 \<Rightarrow> u256 \<Rightarrow> Account \<Rightarrow> Account" where
  "acc_setStorage k v a = acc_changed (a\<lparr>m_storageOverlay := (m_storageOverlay a)(k \<mapsto> v)\<rparr>)"

definition acc_setStorageRoot :: "h256 \<Rightarrow> Account \<Rightarrow> Account" where
  "acc_setStorageRoot root a =
     acc_changed (a\<lparr>m_storageOverlay := Map.empty, m_storageOriginal := Map.empty, m_storageRoot := root\<rparr>)"

definition acc_clearStorage :: "crypto \<Rightarrow> Account \<Rightarrow> Account" where
  "acc_clearStorage C a =
     acc_changed (a\<lparr>m_storageOverlay := Map.empty, m_storageOriginal := Map.empty, m_storageRoot := EmptyTrie C\<rparr>)"

text \<open>\<open>setCode\<close> does not call \<open>changed()\<close>.\<close>

definition acc_setCode :: "crypto \<Rightarrow> bytes \<Rightarrow> Account \<Rightarrow> Account" where
  "acc_setCode C c a = a\<lparr>m_codeCache := c, m_hasNewCode := True, m_codeHash := c_sha3 C c\<rparr>"

definition acc_noteCode :: "bytes \<Rightarrow> Account \<Rightarrow> Account" where
  "acc_noteCode c a = a\<lparr>m_codeCache := c\<rparr>"

subsection \<open>The state\<close>

datatype change =
  ChBalance address u256
| ChStorage address u256 u256
| ChStorageRoot address h256
| ChNonce address u256
| ChCreate address
| ChCode address bytes
| ChTouch address

fun changeAddress :: "change \<Rightarrow> address" where
  "changeAddress (ChBalance a v) = a"
| "changeAddress (ChStorage a k v) = a"
| "changeAddress (ChStorageRoot a r) = a"
| "changeAddress (ChNonce a n) = a"
| "changeAddress (ChCreate a) = a"
| "changeAddress (ChCode a c) = a"
| "changeAddress (ChTouch a) = a"

record State =
  m_cache :: "address \<Rightarrow> Account option"
  m_unchangedCacheEntries :: "address list"
  m_nonExistingAccountsCache :: "address set"
  m_touched :: "address set"
  m_accountStartNonce :: u256
  m_changeLog :: "change list"
  m_state :: "address \<Rightarrow> (u256 \<times> u256 \<times> h256 \<times> h256) option"
  m_dbStorage :: "h256 \<Rightarrow> u256 \<Rightarrow> u256"
  m_dbCode :: "h256 \<Rightarrow> bytes"
  m_engine :: nat

datatype state_exception = NotEnoughCash | InvalidAccountStartNonceInState | IncorrectAccountStartNonceInState

type_synonym 'a st_result = "state_exception \<times> State + 'a"

definition Invalid256 :: u256 where
  "Invalid256 = - 1"

definition requireAccountStartNonce :: "State \<Rightarrow> u256 st_result" where
  "requireAccountStartNonce S =
     (if m_accountStartNonce S = Invalid256 then Inl (InvalidAccountStartNonceInState, S)
      else Inr (m_accountStartNonce S))"

definition noteAccountStartNonce :: "u256 \<Rightarrow> State \<Rightarrow> State st_result" where
  "noteAccountStartNonce actual S =
     (if m_accountStartNonce S = Invalid256 then Inr (S\<lparr>m_accountStartNonce := actual\<rparr>)
      else if m_accountStartNonce S \<noteq> actual then Inl (IncorrectAccountStartNonceInState, S)
      else Inr S)"

text \<open>\<open>m_changeLog.emplace_back\<close>, and writing through the pointer that \<open>account\<close> returned.\<close>

definition logChange :: "change \<Rightarrow> State \<Rightarrow> State" where
  "logChange c S = S\<lparr>m_changeLog := m_changeLog S @ [c]\<rparr>"

definition putAccount :: "address \<Rightarrow> Account \<Rightarrow> State \<Rightarrow> State" where
  "putAccount a acc S = S\<lparr>m_cache := (m_cache S)(a \<mapsto> acc)\<rparr>"

text \<open>\<open>m_cache[a]\<close>, which makes a dead account where there is none.\<close>

definition cacheAt :: "crypto \<Rightarrow> State \<Rightarrow> address \<Rightarrow> Account" where
  "cacheAt C S a = (case m_cache S a of Some acc \<Rightarrow> acc | None \<Rightarrow> deadAccount C)"

text \<open>
  Purging the cache: entries are drawn at random from those noted as unchanged and removed when
  still unchanged. \<open>uniform_int_distribution(0, n - 1)\<close> gives some index below \<open>n\<close>.
\<close>

function clearCacheIfTooLarge :: "crypto \<Rightarrow> State \<Rightarrow> State" where
  "clearCacheIfTooLarge C S =
     (let entries = m_unchangedCacheEntries S; n = length entries in
      if n > 1000
      then (let randomIndex = c_random C (m_engine S) mod n;
                addr = entries ! randomIndex;
                rest = butlast (entries[randomIndex := last entries]);
                cache = (case m_cache S addr of
                           Some acc \<Rightarrow> if isDirty acc then m_cache S else (m_cache S)(addr := None)
                         | None \<Rightarrow> m_cache S)
            in clearCacheIfTooLarge C
                 (S\<lparr>m_unchangedCacheEntries := rest, m_cache := cache, m_engine := m_engine S + 1\<rparr>))
      else S)"
  by pat_completeness auto
termination
  by (relation "measure (\<lambda>(C, S). length (m_unchangedCacheEntries S))") (auto simp: Let_def)

declare clearCacheIfTooLarge.simps [simp del]

definition account :: "crypto \<Rightarrow> address \<Rightarrow> State \<Rightarrow> Account option \<times> State" where
  "account C a S =
     (case m_cache S a of
        Some acc \<Rightarrow> (Some acc, S)
      | None \<Rightarrow>
          if a \<in> m_nonExistingAccountsCache S then (None, S)
          else (case m_state S a of
                  None \<Rightarrow> (None, S\<lparr>m_nonExistingAccountsCache := insert a (m_nonExistingAccountsCache S)\<rparr>)
                | Some entry \<Rightarrow>
                    (let S = clearCacheIfTooLarge C S; acc = loadedAccount entry in
                     (Some acc, (putAccount a acc S)
                        \<lparr>m_unchangedCacheEntries := m_unchangedCacheEntries S @ [a]\<rparr>))))"

subsection \<open>Queries\<close>

definition addressInUse :: "crypto \<Rightarrow> address \<Rightarrow> State \<Rightarrow> bool \<times> State" where
  "addressInUse C a S = (let (acc, S) = account C a S in (acc \<noteq> None, S))"

definition accountNonemptyAndExisting :: "crypto \<Rightarrow> address \<Rightarrow> State \<Rightarrow> bool \<times> State" where
  "accountNonemptyAndExisting C a S =
     (let (acc, S) = account C a S in
      (case acc of Some x \<Rightarrow> \<not> acc_isEmpty C x | None \<Rightarrow> False, S))"

definition addressHasCode :: "crypto \<Rightarrow> address \<Rightarrow> State \<Rightarrow> bool \<times> State" where
  "addressHasCode C a S =
     (let (acc, S) = account C a S in
      (case acc of Some x \<Rightarrow> m_codeHash x \<noteq> EmptySHA3 C | None \<Rightarrow> False, S))"

definition balanceOf :: "crypto \<Rightarrow> address \<Rightarrow> State \<Rightarrow> u256 \<times> State" where
  "balanceOf C a S =
     (let (acc, S) = account C a S in (case acc of Some x \<Rightarrow> m_balance x | None \<Rightarrow> 0, S))"

definition getNonce :: "crypto \<Rightarrow> address \<Rightarrow> State \<Rightarrow> u256 \<times> State" where
  "getNonce C a S =
     (let (acc, S) = account C a S in
      (case acc of Some x \<Rightarrow> m_nonce x | None \<Rightarrow> m_accountStartNonce S, S))"

definition codeHashOf :: "crypto \<Rightarrow> address \<Rightarrow> State \<Rightarrow> h256 \<times> State" where
  "codeHashOf C a S =
     (let (acc, S) = account C a S in
      (case acc of Some x \<Rightarrow> m_codeHash x | None \<Rightarrow> EmptySHA3 C, S))"

text \<open>\<open>Account::originalStorageValue\<close> and \<open>storageValue\<close> remember what they read from the trie.\<close>

definition acc_originalStorageValue :: "State \<Rightarrow> u256 \<Rightarrow> Account \<Rightarrow> u256 \<times> Account" where
  "acc_originalStorageValue S k acc =
     (case m_storageOriginal acc k of
        Some v \<Rightarrow> (v, acc)
      | None \<Rightarrow> (let v = m_dbStorage S (m_storageRoot acc) k in
                 (v, acc\<lparr>m_storageOriginal := (m_storageOriginal acc)(k \<mapsto> v)\<rparr>)))"

definition acc_storageValue :: "State \<Rightarrow> u256 \<Rightarrow> Account \<Rightarrow> u256 \<times> Account" where
  "acc_storageValue S k acc =
     (case m_storageOverlay acc k of Some v \<Rightarrow> (v, acc) | None \<Rightarrow> acc_originalStorageValue S k acc)"

definition storageAt :: "crypto \<Rightarrow> address \<Rightarrow> u256 \<Rightarrow> State \<Rightarrow> u256 \<times> State" where
  "storageAt C a k S =
     (let (acc, S) = account C a S in
      case acc of
        Some x \<Rightarrow> (let (v, x') = acc_storageValue S k x in (v, putAccount a x' S))
      | None \<Rightarrow> (0, S))"

definition originalStorageAt :: "crypto \<Rightarrow> address \<Rightarrow> u256 \<Rightarrow> State \<Rightarrow> u256 \<times> State" where
  "originalStorageAt C a k S =
     (let (acc, S) = account C a S in
      case acc of
        Some x \<Rightarrow> (let (v, x') = acc_originalStorageValue S k x in (v, putAccount a x' S))
      | None \<Rightarrow> (0, S))"

text \<open>\<open>code\<close>: loaded from the database where the account has none in memory.\<close>

definition codeOf :: "crypto \<Rightarrow> address \<Rightarrow> State \<Rightarrow> bytes \<times> State" where
  "codeOf C a S =
     (let (acc, S) = account C a S in
      case acc of
        None \<Rightarrow> ([], S)
      | Some x \<Rightarrow>
          if m_codeHash x = EmptySHA3 C then ([], S)
          else if m_codeCache x = []
          then (let c = m_dbCode S (m_codeHash x) in (c, putAccount a (acc_noteCode c x) S))
          else (m_codeCache x, S))"

text \<open>The process-wide \<open>CodeSizeCache\<close> only remembers sizes of code already read.\<close>

definition codeSizeOf :: "crypto \<Rightarrow> address \<Rightarrow> State \<Rightarrow> nat \<times> State" where
  "codeSizeOf C a S =
     (let (acc, S) = account C a S in
      case acc of
        None \<Rightarrow> (0, S)
      | Some x \<Rightarrow> if m_hasNewCode x then (length (m_codeCache x), S)
                 else (let (c, S) = codeOf C a S in (length c, S)))"

subsection \<open>Changes\<close>

definition createAccount :: "address \<Rightarrow> Account \<Rightarrow> State \<Rightarrow> State" where
  "createAccount a acc S =
     logChange (ChCreate a)
       ((putAccount a acc S)\<lparr>m_nonExistingAccountsCache := m_nonExistingAccountsCache S - {a}\<rparr>)"

definition createContract :: "crypto \<Rightarrow> address \<Rightarrow> State \<Rightarrow> State st_result" where
  "createContract C a S =
     andThen (requireAccountStartNonce S) (\<lambda>n. Inr (createAccount a (newAccount C n 0) S))"

definition incNonce :: "crypto \<Rightarrow> address \<Rightarrow> State \<Rightarrow> State st_result" where
  "incNonce C a S =
     (let (acc, S) = account C a S in
      case acc of
        Some x \<Rightarrow> Inr (logChange (ChNonce a (m_nonce x)) (putAccount a (acc_incNonce x) S))
      | None \<Rightarrow> andThen (requireAccountStartNonce S) (\<lambda>n. Inr (createAccount a (newAccount C (n + 1) 0) S)))"

definition setNonce :: "crypto \<Rightarrow> address \<Rightarrow> u256 \<Rightarrow> State \<Rightarrow> State" where
  "setNonce C a n S =
     (let (acc, S) = account C a S in
      case acc of
        Some x \<Rightarrow> logChange (ChNonce a (m_nonce x)) (putAccount a (acc_setNonce n x) S)
      | None \<Rightarrow> createAccount a (newAccount C n 0) S)"

definition addBalance :: "crypto \<Rightarrow> address \<Rightarrow> u256 \<Rightarrow> State \<Rightarrow> State st_result" where
  "addBalance C a amount S =
     (let (acc, S) = account C a S in
      andThen
        (case acc of
           Some x \<Rightarrow>
             (let S = (if \<not> isDirty x \<and> acc_isEmpty C x then logChange (ChTouch a) S else S)
              in Inr (putAccount a (acc_addBalance amount x) S))
         | None \<Rightarrow> andThen (requireAccountStartNonce S) (\<lambda>n. Inr (createAccount a (newAccount C n amount) S)))
        (\<lambda>S. Inr (if amount \<noteq> 0 then logChange (ChBalance a amount) S else S)))"

definition subBalance :: "crypto \<Rightarrow> address \<Rightarrow> u256 \<Rightarrow> State \<Rightarrow> State st_result" where
  "subBalance C a v S =
     (if v = 0 then Inr S
      else (let (acc, S) = account C a S in
            if (case acc of None \<Rightarrow> True | Some x \<Rightarrow> m_balance x < v) then Inl (NotEnoughCash, S)
            else addBalance C a (0 - v) S))"

definition setBalance :: "crypto \<Rightarrow> address \<Rightarrow> u256 \<Rightarrow> State \<Rightarrow> State st_result" where
  "setBalance C a v S =
     (let (acc, S) = account C a S; original = (case acc of Some x \<Rightarrow> m_balance x | None \<Rightarrow> 0)
      in addBalance C a (v - original) S)"

definition transferBalance :: "crypto \<Rightarrow> address \<Rightarrow> address \<Rightarrow> u256 \<Rightarrow> State \<Rightarrow> State st_result" where
  "transferBalance C src dst v S = andThen (subBalance C src v S) (addBalance C dst v)"

definition killAccount :: "crypto \<Rightarrow> address \<Rightarrow> State \<Rightarrow> State" where
  "killAccount C a S =
     (let (acc, S) = account C a S in
      case acc of Some x \<Rightarrow> putAccount a (acc_kill C x) S | None \<Rightarrow> S)"

definition setStorage :: "crypto \<Rightarrow> address \<Rightarrow> u256 \<Rightarrow> u256 \<Rightarrow> State \<Rightarrow> State" where
  "setStorage C a k v S =
     (let (old, S) = storageAt C a k S; S = logChange (ChStorage a k old) S
      in putAccount a (acc_setStorage k v (cacheAt C S a)) S)"

definition clearStorage :: "crypto \<Rightarrow> address \<Rightarrow> State \<Rightarrow> State" where
  "clearStorage C a S =
     (let acc = cacheAt C S a; S = putAccount a acc S; oldHash = m_storageRoot acc in
      if oldHash = EmptyTrie C then S
      else putAccount a (acc_clearStorage C acc) (logChange (ChStorageRoot a oldHash) S))"

definition setCode :: "crypto \<Rightarrow> address \<Rightarrow> bytes \<Rightarrow> State \<Rightarrow> State" where
  "setCode C a c S =
     (let (old, S) = codeOf C a S; S = logChange (ChCode a old) S
      in putAccount a (acc_setCode C c (cacheAt C S a)) S)"

subsection \<open>Savepoints and commits\<close>

definition savepoint :: "State \<Rightarrow> nat" where
  "savepoint S = length (m_changeLog S)"

definition undo :: "crypto \<Rightarrow> change \<Rightarrow> State \<Rightarrow> State" where
  "undo C c S =
     (let a = changeAddress c; acc = cacheAt C S a in
      case c of
        ChStorage _ k v \<Rightarrow> putAccount a (acc_setStorage k v acc) S
      | ChStorageRoot _ r \<Rightarrow> putAccount a (acc_setStorageRoot r acc) S
      | ChBalance _ v \<Rightarrow> putAccount a (acc_addBalance (0 - v) acc) S
      | ChNonce _ n \<Rightarrow> putAccount a (acc_setNonce n acc) S
      | ChCreate _ \<Rightarrow> S\<lparr>m_cache := (m_cache S)(a := None)\<rparr>
      | ChCode _ old \<Rightarrow> putAccount a (acc_setCode C old acc) S
      | ChTouch _ \<Rightarrow> (putAccount a (acc_untouch acc) S)
                        \<lparr>m_unchangedCacheEntries := m_unchangedCacheEntries S @ [a]\<rparr>)"

text \<open>
  \<open>rollback\<close> pops the log until it has the length of the savepoint. A savepoint beyond the end
  of the log would make the code pop an empty vector; the model leaves the state then.
\<close>

function rollback :: "crypto \<Rightarrow> nat \<Rightarrow> State \<Rightarrow> State" where
  "rollback C sp S =
     (if length (m_changeLog S) \<le> sp then S
      else rollback C sp ((undo C (last (m_changeLog S)) S)\<lparr>m_changeLog := butlast (m_changeLog S)\<rparr>))"
  by pat_completeness auto
termination
  by (relation "measure (\<lambda>(C, sp, S). length (m_changeLog S))") auto

declare rollback.simps [simp del]

definition removeEmptyAccounts :: "crypto \<Rightarrow> State \<Rightarrow> State" where
  "removeEmptyAccounts C S =
     S\<lparr>m_cache := (\<lambda>a. map_option (\<lambda>acc. if isDirty acc \<and> acc_isEmpty C acc then acc_kill C acc else acc) (m_cache S a))\<rparr>"

text \<open>
  \<open>dev::eth::commit\<close> runs over the cache, an \<open>unordered_map\<close>, in the order \<open>order\<close>. A storage
  trie gets the overlay written over its base, zeros removed; \<open>c_storageRoot\<close> is the root of the
  trie with the given contents.
\<close>

definition storageContents :: "State \<Rightarrow> Account \<Rightarrow> u256 \<Rightarrow> u256" where
  "storageContents S acc k =
     (case m_storageOverlay acc k of Some v \<Rightarrow> v | None \<Rightarrow> m_dbStorage S (m_storageRoot acc) k)"

definition committedRoot :: "crypto \<Rightarrow> State \<Rightarrow> Account \<Rightarrow> h256" where
  "committedRoot C S acc =
     (if m_storageOverlay acc = Map.empty then m_storageRoot acc else c_storageRoot C (storageContents S acc))"

definition commitOne :: "crypto \<Rightarrow> address \<Rightarrow> State \<Rightarrow> State" where
  "commitOne C a S =
     (case m_cache S a of
        None \<Rightarrow> S
      | Some acc \<Rightarrow>
          if \<not> isDirty acc then S
          else if \<not> m_isAlive acc
          then S\<lparr>m_state := (m_state S)(a := None), m_touched := insert a (m_touched S)\<rparr>
          else (let root = committedRoot C S acc in
                S\<lparr>m_dbStorage := (if m_storageOverlay acc = Map.empty then m_dbStorage S
                                 else (m_dbStorage S)(root := storageContents S acc)),
                  m_dbCode := (if m_hasNewCode acc then (m_dbCode S)(m_codeHash acc := m_codeCache acc)
                              else m_dbCode S),
                  m_state := (m_state S)(a \<mapsto> (m_nonce acc, m_balance acc, root, m_codeHash acc)),
                  m_touched := insert a (m_touched S)\<rparr>))"

definition commitCache :: "crypto \<Rightarrow> address list \<Rightarrow> State \<Rightarrow> State" where
  "commitCache C order S = fold (commitOne C) order S"

datatype CommitBehaviour = KeepEmptyAccounts | RemoveEmptyAccounts

definition commit :: "crypto \<Rightarrow> address list \<Rightarrow> CommitBehaviour \<Rightarrow> State \<Rightarrow> State" where
  "commit C order behaviour S =
     (let S = (if behaviour = RemoveEmptyAccounts then removeEmptyAccounts C S else S)
      in (commitCache C order S)\<lparr>m_changeLog := [], m_cache := Map.empty, m_unchangedCacheEntries := []\<rparr>)"

definition rootHash :: "crypto \<Rightarrow> State \<Rightarrow> h256" where
  "rootHash C S = c_stateRoot C (m_state S)"

end
