(* ===== verification/World_Rollback.thy ===== *)
theory World_Rollback
  imports World_State
begin

section \<open>Savepoints and rollback of the world state\<close>

text \<open>
  What a state shows is \<open>viewOf\<close>: the account found at an address, whether cached or in the trie,
  without the bookkeeping of the caches. The invariant \<open>base_ok\<close> says that the caches agree with
  the trie and that the log can be undone; a state is \<open>consistent\<close> when every state that
  \<open>rollback\<close> can reach from it satisfies it. \<open>grows\<close> is what every operation of \<open>State\<close> does:
  it extends the log, and rolling back to the old length shows the old state again.
\<close>

subsection \<open>Views\<close>

record AccountView =
  v_alive :: bool
  v_nonce :: u256
  v_balance :: u256
  v_root :: h256
  v_codeHash :: h256
  v_code :: bytes
  v_storage :: "u256 \<Rightarrow> u256"

definition acc_code :: "crypto \<Rightarrow> State \<Rightarrow> Account \<Rightarrow> bytes" where
  "acc_code C S acc =
     (if m_codeHash acc = EmptySHA3 C then []
      else if m_codeCache acc = [] then m_dbCode S (m_codeHash acc) else m_codeCache acc)"

definition accView :: "crypto \<Rightarrow> State \<Rightarrow> Account \<Rightarrow> AccountView" where
  "accView C S acc =
     \<lparr>v_alive = m_isAlive acc, v_nonce = m_nonce acc, v_balance = m_balance acc,
      v_root = m_storageRoot acc, v_codeHash = m_codeHash acc, v_code = acc_code C S acc,
      v_storage = storageContents S acc\<rparr>"

definition eff :: "State \<Rightarrow> address \<Rightarrow> Account option" where
  "eff S a = (case m_cache S a of Some acc \<Rightarrow> Some acc | None \<Rightarrow> map_option loadedAccount (m_state S a))"

definition viewOf :: "crypto \<Rightarrow> State \<Rightarrow> address \<Rightarrow> AccountView option" where
  "viewOf C S a = map_option (accView C S) (eff S a)"

text \<open>The databases under the cache, and the log; equal in states that show the same.\<close>

definition sameBase :: "State \<Rightarrow> State \<Rightarrow> bool" where
  "sameBase S T \<longleftrightarrow>
     m_state T = m_state S \<and> m_dbStorage T = m_dbStorage S \<and> m_dbCode T = m_dbCode S \<and>
     m_accountStartNonce T = m_accountStartNonce S"

definition sim :: "crypto \<Rightarrow> State \<Rightarrow> State \<Rightarrow> bool" where
  "sim C S T \<longleftrightarrow> sameBase S T \<and> m_changeLog T = m_changeLog S \<and> viewOf C T = viewOf C S"

lemma sim_refl [simp]: "sim C S S"
  by (simp add: sim_def sameBase_def)

lemma sim_sym: "sim C S T \<Longrightarrow> sim C T S"
  by (simp add: sim_def sameBase_def)

lemma sim_trans: "sim C S T \<Longrightarrow> sim C T U \<Longrightarrow> sim C S U"
  by (simp add: sim_def sameBase_def)

lemma storageContents_base: "sameBase S T \<Longrightarrow> storageContents T x = storageContents S x"
  by (simp add: sameBase_def storageContents_def fun_eq_iff split: option.split)

lemma accView_base: "sameBase S T \<Longrightarrow> accView C T = accView C S"
  by (rule ext) (simp add: accView_def acc_code_def storageContents_base, simp add: sameBase_def)

text \<open>The operations of \<open>Account\<close> act on views.\<close>

lemma storageContents_setStorage:
  "storageContents S (acc_setStorage k v x) = (storageContents S x)(k := v)"
  by (simp add: storageContents_def acc_setStorage_def acc_changed_def fun_eq_iff split: option.split)

lemma storageContents_update [simp]:
  "storageContents S (x\<lparr>m_balance := b\<rparr>) = storageContents S x"
  "storageContents S (x\<lparr>m_nonce := b\<rparr>) = storageContents S x"
  "storageContents S (x\<lparr>m_isUnchanged := u\<rparr>) = storageContents S x"
  "storageContents S (x\<lparr>m_hasNewCode := u\<rparr>) = storageContents S x"
  "storageContents S (x\<lparr>m_codeHash := h\<rparr>) = storageContents S x"
  "storageContents S (x\<lparr>m_codeCache := c\<rparr>) = storageContents S x"
  "storageContents S (x\<lparr>m_storageOriginal := f\<rparr>) = storageContents S x"
  "storageContents S (x\<lparr>m_storageOverlay := Map.empty, m_storageOriginal := f, m_storageRoot := r\<rparr>) = m_dbStorage S r"
  by (simp_all add: storageContents_def fun_eq_iff split: option.split)

lemma accView_ops [simp]:
  "accView C S (acc_addBalance v x) = (accView C S x)\<lparr>v_balance := m_balance x + v\<rparr>"
  "accView C S (acc_incNonce x) = (accView C S x)\<lparr>v_nonce := m_nonce x + 1\<rparr>"
  "accView C S (acc_setNonce n x) = (accView C S x)\<lparr>v_nonce := n\<rparr>"
  "accView C S (acc_untouch x) = accView C S x"
  "accView C S (acc_setStorageRoot r x) = (accView C S x)\<lparr>v_root := r, v_storage := m_dbStorage S r\<rparr>"
  "accView C S (acc_setCode C c x) =
     (accView C S x)\<lparr>v_codeHash := c_sha3 C c, v_code := (if c_sha3 C c = EmptySHA3 C then [] else c)\<rparr>"
  "accView C S (acc_setStorage k v x) = (accView C S x)\<lparr>v_storage := (v_storage (accView C S x))(k := v)\<rparr>"
  by (simp_all add: accView_def acc_code_def storageContents_setStorage acc_addBalance_def acc_incNonce_def
      acc_setNonce_def acc_untouch_def acc_setStorageRoot_def acc_setCode_def acc_changed_def EmptySHA3_def)
    (simp_all add: acc_setStorage_def acc_changed_def)

lemma dirty_ops [simp]:
  "isDirty (acc_addBalance v x)" "isDirty (acc_incNonce x)" "isDirty (acc_setNonce n x)"
  "isDirty (acc_setStorageRoot r x)" "isDirty (acc_setStorage k v x)" "isDirty (acc_clearStorage C x)"
  "\<not> isDirty (acc_untouch x)" "isDirty (acc_setCode C c x) = isDirty x" "isDirty (newAccount C n b)"
  "isDirty (deadAccount C)" "\<not> isDirty (loadedAccount e)"
  by (simp_all add: isDirty_def acc_addBalance_def acc_incNonce_def acc_setNonce_def acc_setStorageRoot_def
      acc_setStorage_def acc_clearStorage_def acc_untouch_def acc_setCode_def acc_changed_def newAccount_def
      deadAccount_def loadedAccount_def split: prod.splits)

subsection \<open>The invariant\<close>

definition acc_ok :: "crypto \<Rightarrow> State \<Rightarrow> Account \<Rightarrow> bool" where
  "acc_ok C S acc \<longleftrightarrow>
     (\<forall>k v. m_storageOriginal acc k = Some v \<longrightarrow> v = m_dbStorage S (m_storageRoot acc) k) \<and>
     (m_codeHash acc \<noteq> EmptySHA3 C \<longrightarrow> c_sha3 C (acc_code C S acc) = m_codeHash acc) \<and>
     (m_isAlive acc \<and> m_hasNewCode acc \<longrightarrow> c_sha3 C (m_codeCache acc) = m_codeHash acc) \<and>
     (m_isAlive acc \<and> \<not> m_hasNewCode acc \<and> m_codeHash acc \<noteq> EmptySHA3 C \<longrightarrow>
        c_sha3 C (m_dbCode S (m_codeHash acc)) = m_codeHash acc)"

definition firstChange :: "change \<Rightarrow> bool" where
  "firstChange c \<longleftrightarrow> (case c of ChCreate _ \<Rightarrow> True | ChTouch _ \<Rightarrow> True | _ \<Rightarrow> False)"

fun freshRev :: "change list \<Rightarrow> bool" where
  "freshRev [] = True"
| "freshRev (c # cs) \<longleftrightarrow> (firstChange c \<longrightarrow> changeAddress c \<notin> changeAddress ` set cs) \<and> freshRev cs"

text \<open>An unchanged account shows what the trie holds.\<close>

definition asCommitted :: "crypto \<Rightarrow> State \<Rightarrow> address \<Rightarrow> Account \<Rightarrow> bool" where
  "asCommitted C S a acc \<longleftrightarrow>
     (\<exists>e. m_state S a = Some e \<and> accView C S acc = accView C S (loadedAccount e))"

definition db_ok :: "crypto \<Rightarrow> State \<Rightarrow> bool" where
  "db_ok C S \<longleftrightarrow>
     (\<forall>a n b r h. m_state S a = Some (n, b, r, h) \<longrightarrow> h \<noteq> EmptySHA3 C \<longrightarrow> c_sha3 C (m_dbCode S h) = h)"

definition log_ok :: "State \<Rightarrow> bool" where
  "log_ok S \<longleftrightarrow>
     (\<forall>c \<in> set (m_changeLog S). \<exists>acc. m_cache S (changeAddress c) = Some acc \<and> isDirty acc) \<and>
     (\<forall>a. ChCreate a \<in> set (m_changeLog S) \<longrightarrow> m_state S a = None) \<and>
     freshRev (rev (m_changeLog S))"

definition cache_ok :: "crypto \<Rightarrow> State \<Rightarrow> bool" where
  "cache_ok C S \<longleftrightarrow>
     (\<forall>a acc. m_cache S a = Some acc \<longrightarrow> acc_ok C S acc \<and> (\<not> isDirty acc \<longrightarrow> asCommitted C S a acc))"

definition base_ok :: "crypto \<Rightarrow> State \<Rightarrow> bool" where
  "base_ok C S \<longleftrightarrow>
     db_ok C S \<and> log_ok S \<and> cache_ok C S \<and> (\<forall>a \<in> m_nonExistingAccountsCache S. m_state S a = None)"

lemma base_okD:
  assumes "base_ok C S"
  shows "db_ok C S" "log_ok S" "cache_ok C S" "a \<in> m_nonExistingAccountsCache S \<Longrightarrow> m_state S a = None"
  using assms by (simp_all add: base_ok_def)

lemma logged_cached:
  assumes "base_ok C S" "c \<in> set (m_changeLog S)"
  obtains acc where "m_cache S (changeAddress c) = Some acc" "isDirty acc" "acc_ok C S acc"
  using assms by (auto simp: base_ok_def log_ok_def cache_ok_def)

lemma acc_ok_base: "sameBase S T \<Longrightarrow> acc_ok C T acc = acc_ok C S acc"
  by (simp add: acc_ok_def acc_code_def sameBase_def)

lemma asCommitted_base: "sameBase S T \<Longrightarrow> asCommitted C T a acc = asCommitted C S a acc"
  by (simp add: asCommitted_def accView_base) (simp add: sameBase_def)

lemma acc_ok_ops [simp]:
  "acc_ok C S x \<Longrightarrow> acc_ok C S (acc_addBalance v x)" "acc_ok C S x \<Longrightarrow> acc_ok C S (acc_incNonce x)"
  "acc_ok C S x \<Longrightarrow> acc_ok C S (acc_setNonce n x)" "acc_ok C S x \<Longrightarrow> acc_ok C S (acc_untouch x)"
  "acc_ok C S x \<Longrightarrow> acc_ok C S (acc_setStorageRoot r x)" "acc_ok C S x \<Longrightarrow> acc_ok C S (acc_clearStorage C x)"
  "acc_ok C S x \<Longrightarrow> acc_ok C S (acc_setStorage k v x)" "acc_ok C S x \<Longrightarrow> acc_ok C S (acc_setCode C c x)"
  "acc_ok C S (newAccount C n b)" "acc_ok C S (deadAccount C)"
  by (auto simp: acc_ok_def acc_code_def acc_addBalance_def acc_incNonce_def acc_setNonce_def acc_untouch_def
      acc_setStorageRoot_def acc_clearStorage_def acc_setStorage_def acc_setCode_def acc_changed_def
      newAccount_def deadAccount_def EmptySHA3_def)

lemma acc_ok_loaded: "db_ok C S \<Longrightarrow> m_state S a = Some e \<Longrightarrow> acc_ok C S (loadedAccount e)"
  by (cases e) (auto simp: acc_ok_def acc_code_def loadedAccount_def db_ok_def)

subsection \<open>Undoing one change\<close>

definition undo1 :: "crypto \<Rightarrow> State \<Rightarrow> State" where
  "undo1 C S = (undo C (last (m_changeLog S)) S)\<lparr>m_changeLog := butlast (m_changeLog S)\<rparr>"

lemma rollback_stop: "length (m_changeLog S) \<le> n \<Longrightarrow> rollback C n S = S"
  by (subst rollback.simps) simp

lemma rollback_undo1: "n < length (m_changeLog S) \<Longrightarrow> rollback C n S = rollback C n (undo1 C S)"
  by (subst rollback.simps) (simp add: undo1_def)

lemma undo_base [simp]:
  "m_state (undo C c S) = m_state S" "m_dbStorage (undo C c S) = m_dbStorage S" "m_dbCode (undo C c S) = m_dbCode S"
  "m_accountStartNonce (undo C c S) = m_accountStartNonce S" "m_changeLog (undo C c S) = m_changeLog S"
  "m_nonExistingAccountsCache (undo C c S) = m_nonExistingAccountsCache S"
  by (cases c; simp add: undo_def putAccount_def Let_def)+

lemma sameBase_undo1 [simp]: "sameBase S (undo1 C S)"
  by (simp add: sameBase_def undo1_def)

lemma undo1_base [simp]:
  "m_state (undo1 C S) = m_state S" "m_dbStorage (undo1 C S) = m_dbStorage S" "m_dbCode (undo1 C S) = m_dbCode S"
  "m_accountStartNonce (undo1 C S) = m_accountStartNonce S"
  by (simp_all add: undo1_def)

lemma log_undo1 [simp]: "m_changeLog (undo1 C S) = butlast (m_changeLog S)"
  by (simp add: undo1_def)

text \<open>The account that undoing a change leaves, and the view of it.\<close>

fun undoAccount :: "crypto \<Rightarrow> change \<Rightarrow> Account \<Rightarrow> Account option" where
  "undoAccount C (ChStorage _ k v) acc = Some (acc_setStorage k v acc)"
| "undoAccount C (ChStorageRoot _ r) acc = Some (acc_setStorageRoot r acc)"
| "undoAccount C (ChBalance _ v) acc = Some (acc_addBalance (0 - v) acc)"
| "undoAccount C (ChNonce _ n) acc = Some (acc_setNonce n acc)"
| "undoAccount C (ChCreate _) acc = None"
| "undoAccount C (ChCode _ old) acc = Some (acc_setCode C old acc)"
| "undoAccount C (ChTouch _) acc = Some (acc_untouch acc)"

lemma cache_undo: "m_cache (undo C c S) = (m_cache S)(changeAddress c := undoAccount C c (cacheAt C S (changeAddress c)))"
  by (cases c) (simp_all add: undo_def putAccount_def Let_def)

lemma cache_undo1:
  "m_cache (undo1 C S) =
   (let c = last (m_changeLog S) in (m_cache S)(changeAddress c := undoAccount C c (cacheAt C S (changeAddress c))))"
  by (simp add: undo1_def cache_undo Let_def)

lemma undoAccount_view:
  assumes "accView C S x = accView C S y"
  shows "map_option (accView C S) (undoAccount C c x) = map_option (accView C S) (undoAccount C c y)"
proof -
  have "m_balance x = m_balance y" using assms by (simp add: accView_def)
  with assms show ?thesis by (cases c) simp_all
qed

lemma undoAccount_ok: "acc_ok C S x \<Longrightarrow> undoAccount C c x = Some y \<Longrightarrow> acc_ok C S y"
  by (cases c) auto

lemma undoAccount_dirty:
  "undoAccount C c x = Some y \<Longrightarrow> isDirty x \<Longrightarrow> \<not> isDirty y \<Longrightarrow> \<exists>a. c = ChTouch a \<and> y = acc_untouch x"
  by (cases c) auto

definition touch_ok :: "crypto \<Rightarrow> State \<Rightarrow> bool" where
  "touch_ok C S \<longleftrightarrow>
     (\<forall>a. last (m_changeLog S) = ChTouch a \<longrightarrow> asCommitted C S a (cacheAt C S a))"

lemma base_ok_undo1:
  assumes ok: "base_ok C S" and ne: "m_changeLog S \<noteq> []" and t: "touch_ok C S"
  shows "base_ok C (undo1 C S)"
proof -
  obtain L c where L: "m_changeLog S = L @ [c]" using ne by (metis append_butlast_last_id)
  let ?T = "undo1 C S" and ?a = "changeAddress c"
  obtain x where x: "m_cache S ?a = Some x" "isDirty x" "acc_ok C S x"
    using logged_cached [OF ok, of c] L by auto
  have cache: "m_cache ?T = (m_cache S)(?a := undoAccount C c x)"
    by (simp add: cache_undo1 L x(1) cacheAt_def)
  note base = acc_ok_base [OF sameBase_undo1] asCommitted_base [OF sameBase_undo1]
  have lo: "log_ok S" and co: "cache_ok C S" using ok by (simp_all add: base_ok_def)
  have "log_ok ?T" unfolding log_ok_def
  proof (intro conjI ballI)
    fix d assume d: "d \<in> set (m_changeLog ?T)"
    then have dL: "d \<in> set L" by (simp add: L)
    show "\<exists>acc. m_cache ?T (changeAddress d) = Some acc \<and> isDirty acc"
    proof (cases "changeAddress d = ?a")
      case False
      with lo dL show ?thesis by (auto simp: log_ok_def L cache)
    next
      case True
      have "?a \<in> changeAddress ` set L" using dL True by (metis image_eqI)
      then have "\<not> firstChange c" using lo by (auto simp: log_ok_def L)
      then have "\<exists>y. undoAccount C c x = Some y \<and> isDirty y"
        using x(2) by (cases c) (auto simp: firstChange_def)
      with True show ?thesis by (simp add: cache)
    qed
  qed (use lo in \<open>auto simp: log_ok_def L undo1_def\<close>)
  moreover have "cache_ok C ?T" unfolding cache_ok_def base
  proof (intro allI impI)
    fix a acc assume a: "m_cache ?T a = Some acc"
    show "acc_ok C S acc \<and> (\<not> isDirty acc \<longrightarrow> asCommitted C S a acc)"
    proof (cases "a = ?a")
      case False
      with a co show ?thesis by (simp add: cache cache_ok_def)
    next
      case True
      with a have u: "undoAccount C c x = Some acc" by (simp add: cache)
      have "asCommitted C S a acc" if nd: "\<not> isDirty acc"
      proof -
        obtain b where b: "c = ChTouch b" "acc = acc_untouch x" using undoAccount_dirty [OF u x(2) nd] by blast
        with t x(1) True show ?thesis by (simp add: touch_ok_def L cacheAt_def asCommitted_def)
      qed
      with undoAccount_ok [OF x(3) u] show ?thesis by simp
    qed
  qed
  ultimately show ?thesis using ok by (simp add: base_ok_def db_ok_def undo1_def)
qed

lemma viewOf_undo1:
  assumes ok: "base_ok C S" and ne: "m_changeLog S \<noteq> []"
  shows "\<exists>x. m_cache S (changeAddress (last (m_changeLog S))) = Some x \<and>
    viewOf C (undo1 C S) = (viewOf C S)(changeAddress (last (m_changeLog S)) :=
      (case undoAccount C (last (m_changeLog S)) x of
         Some y \<Rightarrow> Some (accView C S y)
       | None \<Rightarrow> map_option (accView C S \<circ> loadedAccount) (m_state S (changeAddress (last (m_changeLog S))))))"
proof -
  obtain x where x: "m_cache S (changeAddress (last (m_changeLog S))) = Some x"
    using logged_cached [OF ok last_in_set [OF ne]] by blast
  have "viewOf C (undo1 C S) = (viewOf C S)(changeAddress (last (m_changeLog S)) :=
      (case undoAccount C (last (m_changeLog S)) x of
         Some y \<Rightarrow> Some (accView C S y)
       | None \<Rightarrow> map_option (accView C S \<circ> loadedAccount) (m_state S (changeAddress (last (m_changeLog S))))))"
    unfolding viewOf_def eff_def cache_undo1 accView_base [OF sameBase_undo1] Let_def undo1_base cacheAt_def x
    by (rule ext) (simp add: option.map_comp split: option.splits)
  with x show ?thesis by blast
qed

lemma sim_undo1:
  assumes s: "sim C S T" and ok: "base_ok C S" "base_ok C T" "base_ok C (undo1 C S)" and ne: "m_changeLog S \<noteq> []"
  shows "sim C (undo1 C S) (undo1 C T)" and "base_ok C (undo1 C T)"
proof -
  let ?c = "last (m_changeLog S)" let ?a = "changeAddress ?c"
  have log: "m_changeLog T = m_changeLog S" and sb: "sameBase S T" and v: "viewOf C T = viewOf C S"
    using s by (simp_all add: sim_def)
  obtain x where x: "m_cache S ?a = Some x"
    and vS: "viewOf C (undo1 C S) = (viewOf C S)(?a := (case undoAccount C ?c x of Some z \<Rightarrow> Some (accView C S z)
       | None \<Rightarrow> map_option (accView C S \<circ> loadedAccount) (m_state S ?a)))"
    using viewOf_undo1 [OF ok(1) ne] by blast
  obtain y where y: "m_cache T ?a = Some y"
    and vT: "viewOf C (undo1 C T) = (viewOf C T)(?a := (case undoAccount C ?c y of Some z \<Rightarrow> Some (accView C T z)
       | None \<Rightarrow> map_option (accView C T \<circ> loadedAccount) (m_state T ?a)))"
    using viewOf_undo1 [OF ok(2)] ne unfolding log by blast
  note av = accView_base [OF sb]
  have "viewOf C T ?a = viewOf C S ?a" by (simp add: v)
  then have xy: "accView C S y = accView C S x" by (simp add: viewOf_def eff_def x y av)
  have "sameBase (undo1 C S) (undo1 C T)" using sb by (simp add: sameBase_def undo1_def)
  moreover have "viewOf C (undo1 C T) = viewOf C (undo1 C S)"
    unfolding vS vT v av using undoAccount_view [OF xy, of ?c] sb
    by (auto simp: sameBase_def split: option.splits)
  ultimately show "sim C (undo1 C S) (undo1 C T)" by (simp add: sim_def log)
  show "base_ok C (undo1 C T)"
  proof (rule base_ok_undo1 [OF ok(2)])
    show "m_changeLog T \<noteq> []" using ne log by simp
    show "touch_ok C T" unfolding touch_ok_def log
    proof (intro allI impI)
      fix a assume a: "?c = ChTouch a"
      then have "m_cache (undo1 C S) a = Some (acc_untouch x)" using x by (simp add: cache_undo1 cacheAt_def)
      with ok(3) have "asCommitted C (undo1 C S) a (acc_untouch x)"
        by (auto simp: base_ok_def cache_ok_def)
      then have "asCommitted C S a x"
        unfolding asCommitted_base [OF sameBase_undo1] by (simp add: asCommitted_def)
      with xy have "asCommitted C S a y" by (simp add: asCommitted_def)
      with y a show "asCommitted C T a (cacheAt C T a)"
        by (simp add: cacheAt_def asCommitted_base [OF sb])
    qed
  qed
qed

subsection \<open>Rolling back\<close>

lemma rollback_base:
  "sameBase S (rollback C n S) \<and> m_changeLog (rollback C n S) = take n (m_changeLog S)"
proof (induction "length (m_changeLog S)" arbitrary: S)
  case 0
  then show ?case by (simp add: rollback_stop sameBase_def)
next
  case (Suc k)
  show ?case
  proof (cases "n < length (m_changeLog S)")
    case True
    have "k = length (m_changeLog (undo1 C S))" using Suc(2) by simp
    from Suc(1) [OF this] have "sameBase (undo1 C S) (rollback C n (undo1 C S))"
      "m_changeLog (rollback C n (undo1 C S)) = take n (m_changeLog (undo1 C S))" by simp_all
    then show ?thesis using True
      by (simp add: rollback_undo1 take_butlast) (simp add: sameBase_def)
  next
    case False
    then show ?thesis by (simp add: rollback_stop sameBase_def)
  qed
qed

lemma log_rollback [simp]: "m_changeLog (rollback C n S) = take n (m_changeLog S)"
  using rollback_base by blast

lemma rollback_rollback: "m \<le> n \<Longrightarrow> rollback C m (rollback C n S) = rollback C m S"
proof (induction "length (m_changeLog S)" arbitrary: S)
  case 0
  then show ?case by (simp add: rollback_stop)
next
  case (Suc k)
  show ?case
  proof (cases "n < length (m_changeLog S)")
    case True
    have "k = length (m_changeLog (undo1 C S))" using Suc(2) by simp
    from Suc(1) [OF this Suc(3)] True Suc(3) show ?thesis by (simp add: rollback_undo1)
  next
    case False
    then show ?thesis by (simp add: rollback_stop)
  qed
qed

definition consistent :: "crypto \<Rightarrow> State \<Rightarrow> bool" where
  "consistent C S \<longleftrightarrow> (\<forall>n. base_ok C (rollback C n S))"

lemma consistent_base: "consistent C S \<Longrightarrow> base_ok C S"
  using rollback_stop [of S "length (m_changeLog S)"] by (metis consistent_def order_refl)

lemma consistent_rollback: "consistent C S \<Longrightarrow> consistent C (rollback C n S)"
proof -
  assume c: "consistent C S"
  have "base_ok C (rollback C m (rollback C n S))" for m
  proof (cases "m \<le> n")
    case True
    with c show ?thesis by (simp add: rollback_rollback consistent_def)
  next
    case False
    then have "rollback C m (rollback C n S) = rollback C n S" by (intro rollback_stop) simp
    with c show ?thesis by (simp add: consistent_def)
  qed
  then show ?thesis by (simp add: consistent_def)
qed

lemma consistent_undo1:
  assumes "consistent C S" "m_changeLog S \<noteq> []"
  shows "consistent C (undo1 C S)"
proof -
  have "rollback C (length (m_changeLog S) - 1) S = undo1 C S"
    using assms(2) by (simp add: rollback_undo1 rollback_stop)
  with consistent_rollback [OF assms(1)] show ?thesis by metis
qed

text \<open>States that show the same can be rolled back alike.\<close>

lemma sim_rollback:
  "\<lbrakk>consistent C S; sim C S T; base_ok C T\<rbrakk> \<Longrightarrow>
   sim C (rollback C n S) (rollback C n T) \<and> base_ok C (rollback C n T)"
proof (induction "length (m_changeLog S)" arbitrary: S T)
  case 0
  then show ?case by (simp add: rollback_stop sim_def)
next
  case (Suc k)
  have log: "m_changeLog T = m_changeLog S" using Suc.prems(2) by (simp add: sim_def)
  show ?case
  proof (cases "n < length (m_changeLog S)")
    case True
    have ne: "m_changeLog S \<noteq> []" using True by auto
    have c1: "consistent C (undo1 C S)" by (rule consistent_undo1 [OF Suc.prems(1) ne])
    have k: "k = length (m_changeLog (undo1 C S))" using Suc(2) by simp
    note u = sim_undo1 [OF Suc.prems(2) consistent_base [OF Suc.prems(1)] Suc.prems(3) consistent_base [OF c1] ne]
    from Suc.hyps(1) [OF k c1 u] show ?thesis using True by (simp add: rollback_undo1 log)
  next
    case False
    with Suc.prems show ?thesis by (simp add: rollback_stop log)
  qed
qed

lemma consistent_sim: "consistent C S \<Longrightarrow> sim C S T \<Longrightarrow> base_ok C T \<Longrightarrow> consistent C T"
  using sim_rollback by (simp add: consistent_def)

subsection \<open>What every operation does\<close>

definition grows :: "crypto \<Rightarrow> State \<Rightarrow> State \<Rightarrow> bool" where
  "grows C S T \<longleftrightarrow>
     (consistent C S \<longrightarrow>
        consistent C T \<and> sameBase S T \<and> savepoint S \<le> savepoint T \<and> sim C S (rollback C (savepoint S) T))"

lemma grows_refl [simp]: "grows C S S"
  by (simp add: grows_def sameBase_def rollback_stop savepoint_def)

lemma grows_trans:
  assumes 1: "grows C S T" and 2: "grows C T U"
  shows "grows C S U"
  unfolding grows_def
proof (intro impI)
  assume S: "consistent C S"
  with 1 have T: "consistent C T" "sameBase S T" "savepoint S \<le> savepoint T" "sim C S (rollback C (savepoint S) T)"
    by (simp_all add: grows_def)
  with 2 have U: "consistent C U" "sameBase T U" "savepoint T \<le> savepoint U" "sim C T (rollback C (savepoint T) U)"
    by (simp_all add: grows_def)
  have "base_ok C (rollback C (savepoint T) U)" using U(1) by (simp add: consistent_def)
  from sim_rollback [OF T(1) U(4) this, of "savepoint S"] T(3)
  have "sim C (rollback C (savepoint S) T) (rollback C (savepoint S) U)" by (simp add: rollback_rollback)
  with T(4) have "sim C S (rollback C (savepoint S) U)" by (rule sim_trans)
  with T U show "consistent C U \<and> sameBase S U \<and> savepoint S \<le> savepoint U \<and> sim C S (rollback C (savepoint S) U)"
    by (auto simp: sameBase_def)
qed

lemma grows_rollback: "grows C S T \<Longrightarrow> grows C S (rollback C (savepoint S) T)"
  unfolding grows_def
  using rollback_base [of T C "savepoint S"] consistent_rollback [of C T "savepoint S"] rollback_rollback [of "savepoint S" "savepoint S" C T]
  by (auto simp: savepoint_def sameBase_def)

text \<open>A step that logs nothing, and one that logs one change.\<close>

lemma grows_quiet:
  assumes "base_ok C S \<Longrightarrow> sim C S T \<and> base_ok C T"
  shows "grows C S T"
  unfolding grows_def
proof (intro impI)
  assume c: "consistent C S"
  have s: "sim C S T" "base_ok C T" using assms [OF consistent_base [OF c]] by simp_all
  then have "m_changeLog T = m_changeLog S" "sameBase S T" by (simp_all add: sim_def)
  with s consistent_sim [OF c s] show "consistent C T \<and> sameBase S T \<and> savepoint S \<le> savepoint T \<and> sim C S (rollback C (savepoint S) T)"
    by (simp add: savepoint_def rollback_stop)
qed

lemma grows_logged:
  assumes "base_ok C S \<Longrightarrow> base_ok C T \<and> touch_ok C T \<and> m_changeLog T = m_changeLog S @ [c] \<and>
      sameBase S T \<and> viewOf C (undo1 C T) = viewOf C S"
  shows "grows C S T"
  unfolding grows_def
proof (intro impI)
  assume cS: "consistent C S"
  have T: "base_ok C T" "touch_ok C T" "m_changeLog T = m_changeLog S @ [c]" "sameBase S T"
    and v: "viewOf C (undo1 C T) = viewOf C S"
    using assms [OF consistent_base [OF cS]] by simp_all
  have ne: "m_changeLog T \<noteq> []" using T(3) by simp
  have b1: "base_ok C (undo1 C T)" by (rule base_ok_undo1 [OF T(1) ne T(2)])
  have s1: "sim C S (undo1 C T)" using T(3,4) v by (simp add: sim_def sameBase_def)
  have c1: "consistent C (undo1 C T)" by (rule consistent_sim [OF cS s1 b1])
  have "base_ok C (rollback C n T)" for n
    using c1 T(1) by (cases "n < length (m_changeLog T)") (simp_all add: rollback_undo1 rollback_stop consistent_def)
  then have "consistent C T" by (simp add: consistent_def)
  moreover have "rollback C (savepoint S) T = undo1 C T"
    using T(3) by (simp add: rollback_undo1 rollback_stop savepoint_def)
  ultimately show "consistent C T \<and> sameBase S T \<and> savepoint S \<le> savepoint T \<and> sim C S (rollback C (savepoint S) T)"
    using s1 T(3,4) by (simp add: savepoint_def)
qed

subsection \<open>Reading accounts\<close>

lemma viewOf_cached: "m_cache S a = Some x \<Longrightarrow> viewOf C S a = Some (accView C S x)"
  by (simp add: viewOf_def eff_def)

lemma viewOf_uncached:
  "m_cache S a = None \<Longrightarrow> viewOf C S a = map_option (accView C S \<circ> loadedAccount) (m_state S a)"
  by (simp add: viewOf_def eff_def option.map_comp)

lemma viewOf_eqI:
  assumes "sameBase S T" "m_cache T a = m_cache S a"
  shows "viewOf C T a = viewOf C S a"
  using assms accView_base [OF assms(1)]
  by (cases "m_cache S a") (simp_all add: viewOf_cached viewOf_uncached, simp add: sameBase_def)

lemma viewOf_same: "sameBase S T \<Longrightarrow> m_cache T = m_cache S \<Longrightarrow> viewOf C T = viewOf C S"
  by (rule ext) (simp add: viewOf_eqI)

lemma viewOf_updated:
  assumes "sameBase S T" "m_cache T = (m_cache S)(a \<mapsto> x)"
  shows "viewOf C T = (viewOf C S)(a \<mapsto> accView C S x)"
proof
  fix b show "viewOf C T b = ((viewOf C S)(a \<mapsto> accView C S x)) b"
    using assms viewOf_eqI [OF assms(1), of b] accView_base [OF assms(1)]
    by (cases "b = a") (simp_all add: viewOf_cached)
qed

lemma viewOf_dropped:
  assumes "sameBase S T" "m_cache T = (m_cache S)(a := None)"
  shows "viewOf C T = (viewOf C S)(a := map_option (accView C S \<circ> loadedAccount) (m_state S a))"
proof
  fix b show "viewOf C T b = ((viewOf C S)(a := map_option (accView C S \<circ> loadedAccount) (m_state S a))) b"
    using assms viewOf_eqI [OF assms(1), of b] accView_base [OF assms(1)]
    by (cases "b = a") (simp_all add: viewOf_uncached, simp add: sameBase_def)
qed

lemma purge_ok:
  assumes ok: "base_ok C S" and x: "m_cache S a = Some x" "\<not> isDirty x"
  shows "sim C S (S\<lparr>m_unchangedCacheEntries := es, m_cache := (m_cache S)(a := None), m_engine := k\<rparr>) \<and>
         base_ok C (S\<lparr>m_unchangedCacheEntries := es, m_cache := (m_cache S)(a := None), m_engine := k\<rparr>)"
proof -
  let ?T = "S\<lparr>m_unchangedCacheEntries := es, m_cache := (m_cache S)(a := None), m_engine := k\<rparr>"
  have sb: "sameBase S ?T" by (simp add: sameBase_def)
  have com: "asCommitted C S a x" using ok x by (auto simp: base_ok_def cache_ok_def)
  have nl: "changeAddress c \<noteq> a" if "c \<in> set (m_changeLog S)" for c
    using logged_cached [OF ok that] x by force
  have "viewOf C ?T = viewOf C S"
    using viewOf_dropped [OF sb, of a] com viewOf_cached [OF x(1)]
    by (auto simp: asCommitted_def fun_eq_iff)
  then have "sim C S ?T" using sb by (simp add: sim_def)
  moreover have "base_ok C ?T"
    using ok nl by (auto simp: base_ok_def db_ok_def log_ok_def cache_ok_def acc_ok_base [OF sb] asCommitted_base [OF sb])
  ultimately show ?thesis by simp
qed

lemma entries_ok:
  assumes ok: "base_ok C S"
  shows "sim C S (S\<lparr>m_unchangedCacheEntries := es, m_engine := k\<rparr>) \<and> base_ok C (S\<lparr>m_unchangedCacheEntries := es, m_engine := k\<rparr>)"
proof -
  have sb: "sameBase S (S\<lparr>m_unchangedCacheEntries := es, m_engine := k\<rparr>)" by (simp add: sameBase_def)
  show ?thesis using ok sb
    by (simp add: sim_def viewOf_same [OF sb] base_ok_def db_ok_def log_ok_def cache_ok_def
        acc_ok_base [OF sb] asCommitted_base [OF sb])
qed

lemma clearCache_ok:
  "base_ok C S \<Longrightarrow> sim C S (clearCacheIfTooLarge C S) \<and> base_ok C (clearCacheIfTooLarge C S) \<and>
     (m_cache S a = None \<longrightarrow> m_cache (clearCacheIfTooLarge C S) a = None)"
proof (induction C S rule: clearCacheIfTooLarge.induct)
  case (1 C S)
  let ?es = "m_unchangedCacheEntries S"
  let ?i = "c_random C (m_engine S) mod length ?es"
  define addr where "addr = ?es ! ?i"
  define rest where "rest = butlast (?es[?i := last ?es])"
  define cache where "cache = (case m_cache S addr of Some acc \<Rightarrow> if isDirty acc then m_cache S else (m_cache S)(addr := None)
     | None \<Rightarrow> m_cache S)"
  let ?T = "S\<lparr>m_unchangedCacheEntries := rest, m_cache := cache, m_engine := m_engine S + 1\<rparr>"
  show ?case
  proof (cases "length ?es > 1000")
    case True
    have T: "sim C S ?T \<and> base_ok C ?T \<and> (m_cache S a = None \<longrightarrow> m_cache ?T a = None)"
    proof (cases "\<exists>x. m_cache S addr = Some x \<and> \<not> isDirty x")
      case True
      then obtain x where x: "m_cache S addr = Some x" "\<not> isDirty x" by blast
      then have "cache = (m_cache S)(addr := None)" by (simp add: cache_def)
      with purge_ok [OF 1(2) x, where es = rest and k = "m_engine S + 1"] show ?thesis by simp
    next
      case False
      then have "cache = m_cache S" by (auto simp: cache_def split: option.splits)
      then have "?T = S\<lparr>m_unchangedCacheEntries := rest, m_engine := m_engine S + 1\<rparr>" by simp
      with entries_ok [OF 1(2), where es = rest and k = "m_engine S + 1"] show ?thesis by simp
    qed
    have eq: "clearCacheIfTooLarge C S = clearCacheIfTooLarge C ?T"
      using True clearCacheIfTooLarge.simps [of C S]
      unfolding addr_def rest_def cache_def Let_def by (simp only: if_True)
    have "sim C ?T (clearCacheIfTooLarge C ?T) \<and> base_ok C (clearCacheIfTooLarge C ?T) \<and>
       (m_cache ?T a = None \<longrightarrow> m_cache (clearCacheIfTooLarge C ?T) a = None)"
      by (rule 1(1) [OF refl refl True refl addr_def [unfolded atomize_eq] rest_def cache_def]) (use T in simp)
    with T show ?thesis unfolding eq by (meson sim_trans)
  next
    case False
    then have "clearCacheIfTooLarge C S = S" by (subst clearCacheIfTooLarge.simps) simp
    with 1(2) show ?thesis by simp
  qed
qed

lemma viewOf_put [simp]: "viewOf C (putAccount a x S) = (viewOf C S)(a \<mapsto> accView C S x)"
  by (rule viewOf_updated) (simp_all add: putAccount_def sameBase_def)

lemma put_base [simp]:
  "sameBase S (putAccount a x T) \<longleftrightarrow> sameBase S T" "sameBase S (logChange c T) \<longleftrightarrow> sameBase S T"
  "m_changeLog (putAccount a x T) = m_changeLog T" "m_changeLog (logChange c T) = m_changeLog T @ [c]"
  "m_cache (putAccount a x T) = (m_cache T)(a \<mapsto> x)" "m_cache (logChange c T) = m_cache T"
  "m_state (putAccount a x T) = m_state T" "m_state (logChange c T) = m_state T"
  "m_dbStorage (putAccount a x T) = m_dbStorage T" "m_dbStorage (logChange c T) = m_dbStorage T"
  "m_dbCode (putAccount a x T) = m_dbCode T" "m_dbCode (logChange c T) = m_dbCode T"
  "m_accountStartNonce (putAccount a x T) = m_accountStartNonce T" "m_accountStartNonce (logChange c T) = m_accountStartNonce T"
  "m_nonExistingAccountsCache (putAccount a x T) = m_nonExistingAccountsCache T"
  "m_nonExistingAccountsCache (logChange c T) = m_nonExistingAccountsCache T"
  by (simp_all add: putAccount_def logChange_def sameBase_def)

lemma viewOf_log [simp]: "viewOf C (logChange c S) = viewOf C S"
  by (rule viewOf_same) (simp_all add: sameBase_def)

lemma sameBase_refl [simp]: "sameBase S S"
  by (simp add: sameBase_def)

text \<open>Replacing a cached account by one that is as good.\<close>

lemma put_ok:
  assumes ok: "base_ok C S" and y: "acc_ok C S y" "\<not> isDirty y \<longrightarrow> asCommitted C S a y"
    and d: "\<And>x. m_cache S a = Some x \<Longrightarrow> isDirty x \<Longrightarrow> isDirty y"
  shows "base_ok C (putAccount a y S)"
proof -
  have sb: "sameBase S (putAccount a y S)" by simp
  have "\<exists>acc. ((m_cache S)(a \<mapsto> y)) (changeAddress c) = Some acc \<and> isDirty acc" if "c \<in> set (m_changeLog S)" for c
  proof -
    obtain z where "m_cache S (changeAddress c) = Some z" "isDirty z" using logged_cached [OF ok \<open>c \<in> set (m_changeLog S)\<close>] by blast
    with d show ?thesis by (cases "changeAddress c = a") auto
  qed
  with ok y show ?thesis
    by (auto simp: base_ok_def db_ok_def log_ok_def cache_ok_def acc_ok_base [OF sb] asCommitted_base [OF sb])
qed

lemma quiet_put:
  assumes ok: "base_ok C S" and x: "m_cache S a = Some x"
    and y: "accView C S y = accView C S x" "acc_ok C S y" "isDirty y = isDirty x"
  shows "sim C S (putAccount a y S) \<and> base_ok C (putAccount a y S)"
proof -
  have "viewOf C S a = Some (accView C S x)" by (simp add: viewOf_def eff_def x)
  then have "sim C S (putAccount a y S)" using y(1) by (simp add: sim_def fun_eq_iff)
  moreover have "asCommitted C S a y" if "\<not> isDirty y"
    using that y ok x by (auto simp: base_ok_def cache_ok_def asCommitted_def)
  then have "base_ok C (putAccount a y S)" by (intro put_ok [OF ok y(2)]) (use x y(3) in auto)
  ultimately show ?thesis by simp
qed

lemma account_ok:
  assumes ok: "base_ok C S" and acc: "account C a S = (r, T)"
  shows "sim C S T" "base_ok C T" "m_cache T a = r" "map_option (accView C S) r = viewOf C S a"
    "r = None \<Longrightarrow> m_state T a = None"
proof -
  have "sim C S T \<and> base_ok C T \<and> m_cache T a = r \<and> map_option (accView C S) r = viewOf C S a \<and> (r = None \<longrightarrow> m_state T a = None)"
  proof (cases "m_cache S a")
    case (Some x)
    then have "r = Some x" "T = S" using acc by (simp_all add: account_def)
    with Some ok show ?thesis by (simp add: viewOf_cached)
  next
    case None
    show ?thesis
    proof (cases "a \<in> m_nonExistingAccountsCache S \<or> m_state S a = None")
      case True
      then have st: "m_state S a = None" using ok by (auto simp: base_ok_def)
      let ?T = "S\<lparr>m_nonExistingAccountsCache := insert a (m_nonExistingAccountsCache S)\<rparr>"
      have sb: "sameBase S ?T" by (simp add: sameBase_def)
      have "T = S \<or> T = ?T" "r = None" using True None st acc by (auto simp: account_def split: if_splits)
      moreover have "sim C S ?T" using sb by (simp add: sim_def viewOf_same [OF sb])
      moreover have "base_ok C ?T"
        using ok st by (auto simp: base_ok_def db_ok_def log_ok_def cache_ok_def acc_ok_base [OF sb] asCommitted_base [OF sb])
      ultimately show ?thesis using st None ok viewOf_uncached [OF None] by auto
    next
      case False
      then obtain e where e: "m_state S a = Some e" by auto
      let ?U = "clearCacheIfTooLarge C S" and ?x = "loadedAccount e"
      have U: "sim C S ?U" "base_ok C ?U" "m_cache ?U a = None" using clearCache_ok [OF ok, of a] None by simp_all
      then have sb: "sameBase S ?U" by (simp add: sim_def)
      then have eU: "m_state ?U a = Some e" using e by (simp add: sameBase_def)
      let ?V = "putAccount a ?x ?U"
      have r: "r = Some ?x" and T: "T = ?V\<lparr>m_unchangedCacheEntries := m_unchangedCacheEntries ?U @ [a]\<rparr>"
        using acc None False e by (auto simp: account_def Let_def)
      have vx: "viewOf C S a = Some (accView C S ?x)" using None e by (simp add: viewOf_uncached)
      have "base_ok C ?V"
      proof (rule put_ok [OF U(2)])
        show "acc_ok C ?U ?x" using U(2) eU by (auto simp: base_ok_def intro: acc_ok_loaded)
      qed (use U(3) eU in \<open>auto simp: asCommitted_def\<close>)
      moreover have "sim C ?U ?V"
        using U(1) vx by (simp add: sim_def accView_base [OF sb] fun_eq_iff)
      ultimately have "sim C S ?V \<and> base_ok C ?V" using sim_trans [OF U(1)] by blast
      moreover have "sim C ?V T \<and> base_ok C T"
      proof -
        have "T = ?V\<lparr>m_unchangedCacheEntries := m_unchangedCacheEntries ?U @ [a], m_engine := m_engine ?V\<rparr>" by (simp add: T)
        with entries_ok [of C ?V, where es = "m_unchangedCacheEntries ?U @ [a]" and k = "m_engine ?V"] \<open>base_ok C ?V\<close> show ?thesis by simp
      qed
      ultimately show ?thesis using sim_trans vx by (auto simp: r T)
    qed
  qed
  then show "sim C S T" "base_ok C T" "m_cache T a = r" "map_option (accView C S) r = viewOf C S a"
    "r = None \<Longrightarrow> m_state T a = None" by simp_all
qed

subsection \<open>Writing accounts\<close>

lemma db_ok_base: "sameBase S T \<Longrightarrow> db_ok C T = db_ok C S"
  by (simp add: db_ok_def sameBase_def)

lemma logged_put:
  assumes ok: "base_ok C S" and x: "m_cache S a = Some x" and y: "acc_ok C S y" "isDirty y"
    and c: "changeAddress c = a" "\<not> firstChange c"
    and u: "map_option (accView C S) (undoAccount C c y) = Some (accView C S x)"
  shows "grows C S (logChange c (putAccount a y S))"
proof (rule grows_logged, intro conjI)
  let ?T = "logChange c (putAccount a y S)"
  have b: "base_ok C (putAccount a y S)" by (rule put_ok [OF ok y(1)]) (use y(2) in auto)
  have sb: "sameBase S ?T" "sameBase (putAccount a y S) ?T" by simp_all
  then show "sameBase S ?T" by simp
  show "base_ok C ?T" using b c y(2)
    by (auto simp: base_ok_def db_ok_def log_ok_def cache_ok_def acc_ok_base [OF sb(2)] asCommitted_base [OF sb(2)]
        firstChange_def)
  show "touch_ok C ?T" using c(2) by (auto simp: touch_ok_def firstChange_def)
  show "m_changeLog ?T = m_changeLog S @ [c]" by simp
  obtain z where z: "undoAccount C c y = Some z" "accView C S z = accView C S x" using u by auto
  have "m_cache (undo1 C ?T) = (m_cache S)(a \<mapsto> z)" by (simp add: cache_undo1 c(1) cacheAt_def z(1))
  then have "viewOf C (undo1 C ?T) = (viewOf C S)(a \<mapsto> accView C S z)"
    by (intro viewOf_updated) (simp_all add: sameBase_def)
  with viewOf_cached [OF x] z(2) show "viewOf C (undo1 C ?T) = viewOf C S" by (simp add: fun_upd_idem_iff)
qed

lemma grows_createAccount:
  assumes ok: "base_ok C S" and none: "m_cache S a = None" "m_state S a = None"
    and y: "acc_ok C S y" "isDirty y"
  shows "grows C S (createAccount a y S)" and "viewOf C (createAccount a y S) = (viewOf C S)(a \<mapsto> accView C S y)"
proof -
  let ?T = "createAccount a y S"
  have T: "m_cache ?T = (m_cache S)(a \<mapsto> y)" "m_changeLog ?T = m_changeLog S @ [ChCreate a]" "m_state ?T = m_state S"
    "m_nonExistingAccountsCache ?T = m_nonExistingAccountsCache S - {a}" "sameBase S ?T"
    by (simp_all add: createAccount_def sameBase_def)
  have nl: "a \<notin> changeAddress ` set (m_changeLog S)" using logged_cached [OF ok] none(1) by force
  show "viewOf C ?T = (viewOf C S)(a \<mapsto> accView C S y)" by (rule viewOf_updated [OF T(5,1)])
  show "grows C S ?T"
  proof (rule grows_logged, intro conjI)
    show "sameBase S ?T" "m_changeLog ?T = m_changeLog S @ [ChCreate a]" by (rule T)+
    show "touch_ok C ?T" by (simp add: touch_ok_def T)
    have b: "base_ok C (putAccount a y S)" by (rule put_ok [OF ok y(1)]) (use y(2) in auto)
    have sb: "sameBase (putAccount a y S) ?T" using T(5) by (simp add: sameBase_def)
    show "base_ok C ?T" using b y(2) none(2) nl
      by (auto simp: base_ok_def db_ok_base [OF sb] log_ok_def cache_ok_def T
          acc_ok_base [OF sb] asCommitted_base [OF sb])
    have "m_cache (undo1 C ?T) = (m_cache S)(a := None)" by (simp add: cache_undo1 T)
    then have "viewOf C (undo1 C ?T) = (viewOf C S)(a := map_option (accView C S \<circ> loadedAccount) (m_state S a))"
      by (intro viewOf_dropped) (use T(5) in \<open>simp_all add: sameBase_def\<close>)
    then show "viewOf C (undo1 C ?T) = viewOf C S"
      using viewOf_uncached [OF none(1)] by (simp add: fun_upd_idem_iff none(2))
  qed
qed

lemma grows_touch:
  assumes ok: "base_ok C S" and x: "m_cache S a = Some x" "\<not> isDirty x"
  shows "grows C S (logChange (ChTouch a) (putAccount a (acc_addBalance 0 x) S))"
proof (rule grows_logged, intro conjI)
  let ?y = "acc_addBalance 0 x"
  let ?T = "logChange (ChTouch a) (putAccount a ?y S)"
  have xo: "acc_ok C S x" "asCommitted C S a x" using ok x by (auto simp: base_ok_def cache_ok_def)
  have view: "accView C S ?y = accView C S x" unfolding accView_ops by (simp add: accView_def)
  have nl: "a \<notin> changeAddress ` set (m_changeLog S)" using logged_cached [OF ok] x by force
  have b: "base_ok C (putAccount a ?y S)" by (rule put_ok [OF ok]) (use xo in auto)
  have sb: "sameBase S ?T" "sameBase (putAccount a ?y S) ?T" by simp_all
  show "sameBase S ?T" "m_changeLog ?T = m_changeLog S @ [ChTouch a]" by simp_all
  show "base_ok C ?T" using b nl
    by (auto simp: base_ok_def db_ok_def log_ok_def cache_ok_def acc_ok_base [OF sb(2)] asCommitted_base [OF sb(2)])
  show "touch_ok C ?T" using xo(2) view by (simp add: touch_ok_def cacheAt_def asCommitted_base [OF sb(1)]) (simp add: asCommitted_def)
  have "m_cache (undo1 C ?T) = (m_cache S)(a \<mapsto> acc_untouch ?y)" by (simp add: cache_undo1 cacheAt_def)
  then have "viewOf C (undo1 C ?T) = (viewOf C S)(a \<mapsto> accView C S (acc_untouch ?y))"
    by (intro viewOf_updated) (simp_all add: sameBase_def)
  with viewOf_cached [OF x(1)] view show "viewOf C (undo1 C ?T) = viewOf C S" by (simp add: fun_upd_idem_iff)
qed

lemma growsI: "(base_ok C S \<Longrightarrow> grows C S T) \<Longrightarrow> grows C S T"
  using consistent_base by (auto simp: grows_def)

lemma grows_account:
  assumes "account C a S = (r, T)"
  shows "grows C S T"
  using account_ok [OF _ assms] by (intro grows_quiet) simp

text \<open>What an operation does to the view.\<close>

definition freshView :: "crypto \<Rightarrow> u256 \<Rightarrow> u256 \<Rightarrow> AccountView" where
  "freshView C n b =
     \<lparr>v_alive = True, v_nonce = n, v_balance = b, v_root = EmptyTrie C, v_codeHash = EmptySHA3 C, v_code = [],
      v_storage = (\<lambda>_. 0)\<rparr>"

definition db_empty :: "crypto \<Rightarrow> State \<Rightarrow> bool" where
  "db_empty C S \<longleftrightarrow> m_dbStorage S (EmptyTrie C) = (\<lambda>_. 0)"

lemma accView_newAccount [simp]: "db_empty C S \<Longrightarrow> accView C S (newAccount C n b) = freshView C n b"
  by (simp add: accView_def newAccount_def deadAccount_def freshView_def acc_code_def storageContents_def fun_eq_iff db_empty_def)

end
