(* ===== verification/World_Ops.thy ===== *)
theory World_Ops
  imports World_Rollback
begin

section \<open>The operations of the world state and their specification\<close>

text \<open>
  Each operation of \<open>State\<close> is specified as an operation on the view, a map from addresses to
  accounts that knows no cache and no log, and shown to implement it, wherever the account is:
  in the cache, in the trie, or nowhere. Every operation \<open>grows\<close>, so that rollback undoes it.
\<close>

subsection \<open>Operations on views\<close>

type_synonym view = "address \<Rightarrow> AccountView option"

definition w_update :: "crypto \<Rightarrow> u256 \<Rightarrow> u256 \<Rightarrow> (AccountView \<Rightarrow> AccountView) \<Rightarrow> address \<Rightarrow> view \<Rightarrow> view" where
  "w_update C n b f a W = W(a \<mapsto> (case W a of Some x \<Rightarrow> f x | None \<Rightarrow> freshView C n b))"

definition w_balance :: "view \<Rightarrow> address \<Rightarrow> u256" where
  "w_balance W a = (case W a of Some x \<Rightarrow> v_balance x | None \<Rightarrow> 0)"

definition w_nonce :: "u256 \<Rightarrow> view \<Rightarrow> address \<Rightarrow> u256" where
  "w_nonce n0 W a = (case W a of Some x \<Rightarrow> v_nonce x | None \<Rightarrow> n0)"

definition w_storage :: "view \<Rightarrow> address \<Rightarrow> u256 \<Rightarrow> u256" where
  "w_storage W a k = (case W a of Some x \<Rightarrow> v_storage x k | None \<Rightarrow> 0)"

definition w_code :: "view \<Rightarrow> address \<Rightarrow> bytes" where
  "w_code W a = (case W a of Some x \<Rightarrow> v_code x | None \<Rightarrow> [])"

definition w_codeHash :: "crypto \<Rightarrow> view \<Rightarrow> address \<Rightarrow> h256" where
  "w_codeHash C W a = (case W a of Some x \<Rightarrow> v_codeHash x | None \<Rightarrow> EmptySHA3 C)"

definition w_addBalance :: "crypto \<Rightarrow> u256 \<Rightarrow> address \<Rightarrow> u256 \<Rightarrow> view \<Rightarrow> view" where
  "w_addBalance C n0 a v = w_update C n0 v (\<lambda>x. x\<lparr>v_balance := v_balance x + v\<rparr>) a"

definition w_incNonce :: "crypto \<Rightarrow> u256 \<Rightarrow> address \<Rightarrow> view \<Rightarrow> view" where
  "w_incNonce C n0 a = w_update C (n0 + 1) 0 (\<lambda>x. x\<lparr>v_nonce := v_nonce x + 1\<rparr>) a"

definition w_setNonce :: "crypto \<Rightarrow> address \<Rightarrow> u256 \<Rightarrow> view \<Rightarrow> view" where
  "w_setNonce C a n = w_update C n 0 (\<lambda>x. x\<lparr>v_nonce := n\<rparr>) a"

subsection \<open>Queries\<close>

lemma account_cases:
  assumes ok: "base_ok C S"
  obtains (some) x T where "account C a S = (Some x, T)" "m_cache T a = Some x" "base_ok C T" "sim C S T"
      "viewOf C S a = Some (accView C S x)" "acc_ok C T x"
  | (none) T where "account C a S = (None, T)" "m_cache T a = None" "m_state T a = None" "base_ok C T" "sim C S T"
      "viewOf C S a = None"
proof -
  obtain r T where e: "account C a S = (r, T)" by (cases "account C a S")
  note f = account_ok [OF ok e]
  show thesis
  proof (cases r)
    case (Some x)
    with f have "m_cache T a = Some x" "acc_ok C T x" by (auto simp: base_ok_def cache_ok_def)
    with Some e f show thesis by (intro some [of x T]) auto
  next
    case None
    with e f show thesis by (intro none [of T]) auto
  qed
qed

lemma accView_fields [simp]:
  "v_alive (accView C S x) = m_isAlive x" "v_nonce (accView C S x) = m_nonce x"
  "v_balance (accView C S x) = m_balance x" "v_root (accView C S x) = m_storageRoot x"
  "v_codeHash (accView C S x) = m_codeHash x" "v_code (accView C S x) = acc_code C S x"
  "v_storage (accView C S x) = storageContents S x"
  by (simp_all add: accView_def)

lemma undo_views [simp]:
  "accView C S (acc_addBalance (- v) (acc_addBalance v x)) = accView C S x"
  "accView C S (acc_setNonce (m_nonce x) (acc_incNonce x)) = accView C S x"
  "accView C S (acc_setNonce (m_nonce x) (acc_setNonce n x)) = accView C S x"
  "accView C S (acc_setStorage k (storageContents S x k) (acc_setStorage k v x)) = accView C S x"
  by (simp_all, simp_all add: accView_def acc_addBalance_def acc_changed_def)

lemma undo_setCode: "acc_ok C S x \<Longrightarrow> accView C S (acc_setCode C (acc_code C S x) (acc_setCode C c x)) = accView C S x"
  by (cases "m_codeHash x = EmptySHA3 C") (auto simp: acc_ok_def acc_code_def accView_def acc_setCode_def EmptySHA3_def)

lemma simD: "sim C S T \<Longrightarrow> viewOf C T = viewOf C S" "sim C S T \<Longrightarrow> sameBase S T"
  "sim C S T \<Longrightarrow> m_accountStartNonce T = m_accountStartNonce S" "sim C S T \<Longrightarrow> m_changeLog T = m_changeLog S"
  by (simp_all add: sim_def sameBase_def)

lemma noteOriginal [simp]:
  "acc_ok C S x \<Longrightarrow> acc_ok C S (x\<lparr>m_storageOriginal := (m_storageOriginal x)(k \<mapsto> m_dbStorage S (m_storageRoot x) k)\<rparr>)"
  "accView C S (x\<lparr>m_storageOriginal := f\<rparr>) = accView C S x" "isDirty (x\<lparr>m_storageOriginal := f\<rparr>) = isDirty x"
proof -
  have c: "acc_code C S (x\<lparr>m_storageOriginal := g\<rparr>) = acc_code C S x" for g by (simp add: acc_code_def)
  show "acc_ok C S x \<Longrightarrow> acc_ok C S (x\<lparr>m_storageOriginal := (m_storageOriginal x)(k \<mapsto> m_dbStorage S (m_storageRoot x) k)\<rparr>)"
    by (simp add: acc_ok_def c)
qed (simp_all add: accView_def acc_code_def isDirty_def)

lemma acc_originalStorageValue_ok:
  assumes ok: "acc_ok C S x" and v: "acc_originalStorageValue S k x = (v, y)"
  shows "v = m_dbStorage S (m_storageRoot x) k" "accView C S y = accView C S x" "acc_ok C S y" "isDirty y = isDirty x"
proof -
  have "m_storageOriginal x k = Some w \<Longrightarrow> w = m_dbStorage S (m_storageRoot x) k" for w
    using ok by (simp add: acc_ok_def)
  with ok v show "v = m_dbStorage S (m_storageRoot x) k" "accView C S y = accView C S x" "acc_ok C S y" "isDirty y = isDirty x"
    by (auto simp: acc_originalStorageValue_def Let_def simp del: accView_fields split: option.splits)
qed

lemma acc_storageValue_ok:
  assumes ok: "acc_ok C S x" and v: "acc_storageValue S k x = (v, y)"
  shows "v = storageContents S x k" "accView C S y = accView C S x" "acc_ok C S y" "isDirty y = isDirty x"
proof -
  have "v = storageContents S x k \<and> accView C S y = accView C S x \<and> acc_ok C S y \<and> isDirty y = isDirty x"
  proof (cases "m_storageOverlay x k")
    case None
    with v have "acc_originalStorageValue S k x = (v, y)" by (simp add: acc_storageValue_def)
    from acc_originalStorageValue_ok [OF ok this] None show ?thesis by (simp add: storageContents_def)
  qed (use ok v in \<open>auto simp: acc_storageValue_def storageContents_def\<close>)
  then show "v = storageContents S x k" "accView C S y = accView C S x" "acc_ok C S y" "isDirty y = isDirty x" by simp_all
qed

text \<open>A query answers from the view, and leaves a state that shows the same.\<close>

definition answers :: "crypto \<Rightarrow> State \<Rightarrow> 'a \<times> State \<Rightarrow> 'a \<Rightarrow> bool" where
  "answers C S r v \<longleftrightarrow> fst r = v \<and> sim C S (snd r) \<and> base_ok C (snd r)"

lemma queries:
  assumes ok: "base_ok C S"
  shows "answers C S (balanceOf C a S) (w_balance (viewOf C S) a)"
    and "answers C S (getNonce C a S) (w_nonce (m_accountStartNonce S) (viewOf C S) a)"
    and "answers C S (codeHashOf C a S) (w_codeHash C (viewOf C S) a)"
    and "answers C S (addressInUse C a S) (viewOf C S a \<noteq> None)"
    and "answers C S (addressHasCode C a S) (w_codeHash C (viewOf C S) a \<noteq> EmptySHA3 C)"
    and "answers C S (storageAt C a k S) (w_storage (viewOf C S) a k)"
    and "answers C S (codeOf C a S) (w_code (viewOf C S) a)"
proof -
  show "answers C S (balanceOf C a S) (w_balance (viewOf C S) a)"
    by (rule account_cases [OF ok, of a]) (simp_all add: answers_def balanceOf_def w_balance_def accView_def)
  show "answers C S (getNonce C a S) (w_nonce (m_accountStartNonce S) (viewOf C S) a)"
    by (rule account_cases [OF ok, of a]) (simp_all add: answers_def getNonce_def w_nonce_def accView_def simD(3))
  show "answers C S (codeHashOf C a S) (w_codeHash C (viewOf C S) a)"
    by (rule account_cases [OF ok, of a]) (simp_all add: answers_def codeHashOf_def w_codeHash_def accView_def)
  show "answers C S (addressInUse C a S) (viewOf C S a \<noteq> None)"
    by (rule account_cases [OF ok, of a]) (simp_all add: answers_def addressInUse_def)
  show "answers C S (addressHasCode C a S) (w_codeHash C (viewOf C S) a \<noteq> EmptySHA3 C)"
    by (rule account_cases [OF ok, of a]) (simp_all add: answers_def addressHasCode_def w_codeHash_def accView_def)
  show "answers C S (storageAt C a k S) (w_storage (viewOf C S) a k)"
  proof (rule account_cases [OF ok, of a])
    fix x T assume a: "account C a S = (Some x, T)" "m_cache T a = Some x" "base_ok C T" "sim C S T"
      "viewOf C S a = Some (accView C S x)" "acc_ok C T x"
    obtain v y where v: "acc_storageValue T k x = (v, y)" by (cases "acc_storageValue T k x")
    note f = acc_storageValue_ok [OF a(6) v]
    have "sim C T (putAccount a y T) \<and> base_ok C (putAccount a y T)"
      by (rule quiet_put [OF a(3,2) f(2-4)])
    with a v f(1) sim_trans show ?thesis
      by (auto simp: answers_def storageAt_def w_storage_def accView_def storageContents_base [OF simD(2) [OF a(4)]])
  qed (simp add: answers_def storageAt_def w_storage_def)
  show "answers C S (codeOf C a S) (w_code (viewOf C S) a)"
  proof (rule account_cases [OF ok, of a])
    fix x T assume a: "account C a S = (Some x, T)" "m_cache T a = Some x" "base_ok C T" "sim C S T"
      "viewOf C S a = Some (accView C S x)" "acc_ok C T x"
    let ?y = "acc_noteCode (m_dbCode T (m_codeHash x)) x"
    have sb: "m_dbCode T = m_dbCode S" using simD(2) [OF a(4)] by (simp add: sameBase_def)
    have y: "accView C T ?y = accView C T x" "acc_ok C T ?y" "isDirty ?y = isDirty x"
      if "m_codeHash x \<noteq> EmptySHA3 C" "m_codeCache x = []"
      using that a(6) by (auto simp: acc_noteCode_def accView_def acc_code_def acc_ok_def isDirty_def)
    have "sim C T (putAccount a ?y T) \<and> base_ok C (putAccount a ?y T)"
      if "m_codeHash x \<noteq> EmptySHA3 C" "m_codeCache x = []"
      by (rule quiet_put [OF a(3,2) y [OF that]])
    with a sim_trans show ?thesis
      by (auto simp: answers_def codeOf_def w_code_def accView_def acc_code_def Let_def sb)
  qed (simp add: answers_def codeOf_def w_code_def)
qed

subsection \<open>Changes\<close>

text \<open>The state left, at either end, grows; on return it shows the new view.\<close>

definition implements :: "crypto \<Rightarrow> State \<Rightarrow> State st_result \<Rightarrow> (view \<Rightarrow> view) \<Rightarrow> bool" where
  "implements C S r f \<longleftrightarrow> outcome r (\<lambda>e T. grows C S T \<and> viewOf C T = viewOf C S)
     (\<lambda>T. grows C S T \<and> viewOf C T = f (viewOf C S))"

lemma implements_addBalance:
  assumes ok: "base_ok C S" and db: "db_empty C S"
  shows "implements C S (addBalance C a v S) (w_addBalance C (m_accountStartNonce S) a v)"
proof (rule account_cases [OF ok, of a])
  fix x T
  assume a: "account C a S = (Some x, T)" "m_cache T a = Some x" "base_ok C T" "sim C S T"
    "viewOf C S a = Some (accView C S x)" "acc_ok C T x"
  have gT: "grows C S T" by (rule grows_account [OF a(1)])
  let ?y = "acc_addBalance v x"
  have view: "viewOf C (putAccount a ?y T) = w_addBalance C (m_accountStartNonce S) a v (viewOf C S)"
    using a(5) simD(1) [OF a(4)] accView_base [OF simD(2) [OF a(4)]]
    by (simp add: w_addBalance_def w_update_def)
  have g1: "grows C T (if v \<noteq> 0 then logChange (ChBalance a v) (putAccount a ?y T) else putAccount a ?y T)"
    if d: "isDirty x \<or> \<not> acc_isEmpty C x"
  proof (cases "v = 0")
    case True
    have "grows C T (putAccount a ?y T)"
    proof (rule grows_quiet)
      have eq: "accView C T ?y = accView C T x" unfolding accView_ops True by (simp add: accView_def)
      have "base_ok C (putAccount a ?y T)" by (rule put_ok [OF a(3)]) (use a(6) in auto)
      moreover have "sim C T (putAccount a ?y T)" using viewOf_cached [OF a(2)] eq by (simp add: sim_def fun_upd_idem_iff)
      ultimately show "sim C T (putAccount a ?y T) \<and> base_ok C (putAccount a ?y T)" by simp
    qed
    with True show ?thesis by simp
  next
    case False
    have "grows C T (logChange (ChBalance a v) (putAccount a ?y T))"
      by (rule logged_put [OF a(3,2)]) (use a(6) in \<open>simp_all add: firstChange_def del: accView_ops\<close>)
    with False show ?thesis by simp
  qed
  show ?thesis
  proof (cases "isDirty x \<or> \<not> acc_isEmpty C x")
    case True
    then have "addBalance C a v S = Inr (if v \<noteq> 0 then logChange (ChBalance a v) (putAccount a ?y T) else putAccount a ?y T)"
      by (auto simp: addBalance_def a(1) Let_def)
    with grows_trans [OF gT g1 [OF True]] view show ?thesis by (cases "v = 0") (simp_all add: implements_def)
  next
    case False
    let ?T1 = "logChange (ChTouch a) (putAccount a (acc_addBalance 0 x) T)"
    have g2: "grows C T ?T1" by (rule grows_touch [OF a(3,2)]) (use False in simp)
    let ?U = "if v \<noteq> 0 then logChange (ChBalance a v) (logChange (ChTouch a) (putAccount a ?y T))
              else logChange (ChTouch a) (putAccount a ?y T)"
    have add: "addBalance C a v S = Inr ?U" 
      using False by (simp add: addBalance_def a(1) Let_def) (simp add: putAccount_def logChange_def)
    have "grows C T ?U"
    proof (cases "v = 0")
      case True
      with g2 show ?thesis by simp
    next
      case v: False
      let ?z = "acc_addBalance 0 x"
      have sb: "sameBase T ?T1" by simp
      have "grows C ?T1 (logChange (ChBalance a v) (putAccount a (acc_addBalance v ?z) ?T1))"
      proof (rule growsI)
        assume b: "base_ok C ?T1"
        show "grows C ?T1 (logChange (ChBalance a v) (putAccount a (acc_addBalance v ?z) ?T1))"
          by (rule logged_put [OF b, where x = ?z])
            (use a(6) in \<open>simp_all add: firstChange_def acc_ok_base [OF sb] del: accView_ops\<close>)
      qed
      moreover have "acc_addBalance v ?z = ?y" by (simp add: acc_addBalance_def acc_changed_def)
      ultimately have "grows C ?T1 (logChange (ChBalance a v) (putAccount a ?y ?T1))" by simp
      moreover have "logChange (ChBalance a v) (putAccount a ?y ?T1) = ?U" using v by (simp add: putAccount_def logChange_def)
      ultimately show ?thesis using grows_trans [OF g2] by simp
    qed
    with grows_trans [OF gT] view show ?thesis unfolding implements_def add by (cases "v = 0") simp_all
  qed
next
  fix T
  assume a: "account C a S = (None, T)" "m_cache T a = None" "m_state T a = None" "base_ok C T" "sim C S T" "viewOf C S a = None"
  have gT: "grows C S T" by (rule grows_account [OF a(1)])
  have n: "m_accountStartNonce T = m_accountStartNonce S" by (rule simD(3) [OF a(5)])
  have dbT: "db_empty C T" using db simD(2) [OF a(5)] by (simp add: db_empty_def sameBase_def)
  show ?thesis
  proof (cases "m_accountStartNonce S = Invalid256")
    case True
    with gT simD(1) [OF a(5)] show ?thesis
      by (simp add: implements_def addBalance_def a(1) requireAccountStartNonce_def n)
  next
    case False
    let ?n = "m_accountStartNonce S"
    let ?T1 = "createAccount a (newAccount C ?n v) T"
    have c: "addBalance C a v S = Inr (if v \<noteq> 0 then logChange (ChBalance a v) ?T1 else ?T1)"
      using False by (simp add: addBalance_def a(1) requireAccountStartNonce_def n)
    have view: "viewOf C ?T1 = w_addBalance C ?n a v (viewOf C S)"
      using grows_createAccount(2) [OF a(4,2,3), of "newAccount C ?n v"] simD(1) [OF a(5)] a(6) dbT
      by (simp add: w_addBalance_def w_update_def)
    have gc: "grows C T (createAccount a (newAccount C ?n b) T)" for b
      by (rule grows_createAccount(1) [OF a(4,2,3)]) simp_all
    have "grows C T (if v \<noteq> 0 then logChange (ChBalance a v) ?T1 else ?T1)"
    proof (cases "v = 0")
      case False
      let ?T0 = "createAccount a (newAccount C ?n 0) T"
      let ?z = "newAccount C ?n 0"
      have "grows C ?T0 (logChange (ChBalance a v) (putAccount a (acc_addBalance v ?z) ?T0))"
      proof (rule growsI)
        assume b: "base_ok C ?T0"
        show "grows C ?T0 (logChange (ChBalance a v) (putAccount a (acc_addBalance v ?z) ?T0))"
          by (rule logged_put [OF b, where x = ?z])
            (simp_all add: firstChange_def createAccount_def del: accView_ops)
      qed
      moreover have "acc_addBalance v ?z = newAccount C ?n v"
        by (simp add: acc_addBalance_def acc_changed_def newAccount_def deadAccount_def)
      ultimately have "grows C ?T0 (logChange (ChBalance a v) (putAccount a (newAccount C ?n v) ?T0))" by simp
      moreover have "logChange (ChBalance a v) (putAccount a (newAccount C ?n v) ?T0) = logChange (ChBalance a v) ?T1"
        by (simp add: createAccount_def putAccount_def logChange_def)
      ultimately show ?thesis using grows_trans [OF gc] False by simp
    qed (simp add: gc)
    with grows_trans [OF gT] view show ?thesis unfolding implements_def c by (cases "v = 0") simp_all
  qed
qed

lemma implements_mono: "implements C S r f \<Longrightarrow> (\<And>W. W = viewOf C S \<Longrightarrow> f W = g W) \<Longrightarrow> implements C S r g"
  by (simp add: implements_def)

lemma implements_bind:
  assumes m: "implements C S m f" and g: "\<And>T. grows C S T \<Longrightarrow> viewOf C T = f (viewOf C S) \<Longrightarrow> implements C T (k T) g"
    and undone: "\<And>T e U. m = Inr T \<Longrightarrow> k T = Inl (e, U) \<Longrightarrow> viewOf C U = viewOf C S"
  shows "implements C S (andThen m k) (g \<circ> f)"
proof (cases m)
  case (Inl p)
  with m show ?thesis by (cases p) (simp add: implements_def)
next
  case (Inr T)
  with m have T: "grows C S T" "viewOf C T = f (viewOf C S)" by (simp_all add: implements_def)
  from g [OF this] undone [OF Inr] Inr T grows_trans [OF T(1)] show ?thesis
    by (cases "k T") (auto simp: implements_def)
qed

lemma account_grown:
  assumes "grows C S T" "consistent C S" shows "base_ok C T" "sameBase S T" "db_empty C S \<Longrightarrow> db_empty C T"
  using assms consistent_base by (auto simp: grows_def db_empty_def sameBase_def)

lemma implements_subBalance:
  assumes ok: "base_ok C S" and db: "db_empty C S"
  shows "implements C S (subBalance C a v S) (\<lambda>W. if v = 0 then W else w_addBalance C (m_accountStartNonce S) a (- v) W)"
    and "subBalance C a v S = Inl (e, T) \<Longrightarrow> e = NotEnoughCash \<and> w_balance (viewOf C S) a < v"
    and "subBalance C a v S = Inr T \<Longrightarrow> v \<le> w_balance (viewOf C S) a"
proof -
  have *: "implements C S (subBalance C a v S) (\<lambda>W. if v = 0 then W else w_addBalance C (m_accountStartNonce S) a (- v) W) \<and>
    (subBalance C a v S = Inl (e, T) \<longrightarrow> e = NotEnoughCash \<and> w_balance (viewOf C S) a < v) \<and>
    (subBalance C a v S = Inr T \<longrightarrow> v \<le> w_balance (viewOf C S) a)"
  proof (cases "v = 0")
    case True
    then show ?thesis by (simp add: subBalance_def implements_def)
  next
    case v: False
    show ?thesis
    proof (rule account_cases [OF ok, of a])
      fix x U
      assume a: "account C a S = (Some x, U)" "m_cache U a = Some x" "base_ok C U" "sim C S U"
        "viewOf C S a = Some (accView C S x)"
      have gU: "grows C S U" by (rule grows_account [OF a(1)])
      have n: "m_accountStartNonce U = m_accountStartNonce S" by (rule simD(3) [OF a(4)])
      have dbU: "db_empty C U" using db simD(2) [OF a(4)] by (simp add: db_empty_def sameBase_def)
      have sub: "subBalance C a v S = (if m_balance x < v then Inl (NotEnoughCash, U) else addBalance C a (0 - v) U)"
        using v by (simp add: subBalance_def a(1))
      have ret: "\<exists>V. addBalance C a w U = Inr V" for w
        by (simp add: addBalance_def account_def a(2))
      have "implements C S (addBalance C a (- v) U) (w_addBalance C (m_accountStartNonce S) a (- v))"
        using implements_addBalance [OF a(3) dbU, of a "- v"] simD(1) [OF a(4)] grows_trans [OF gU] n
        by (auto simp: implements_def elim: outcome_mono)
      moreover have "implements C S (Inl (NotEnoughCash, U)) f" for f
        using gU simD(1) [OF a(4)] by (simp add: implements_def)
      ultimately show ?thesis using v a(5) ret [of "- v"] by (auto simp: sub w_balance_def not_less)
    next
      fix U
      assume a: "account C a S = (None, U)" "viewOf C S a = None" "sim C S U"
      have gU: "grows C S U" by (rule grows_account [OF a(1)])
      have "0 < v" using v by (simp add: word_neq_0_conv)
      then show ?thesis using v a(2) gU simD(1) [OF a(3)]
        by (simp add: subBalance_def a(1) implements_def w_balance_def)
    qed
  qed
  then show "implements C S (subBalance C a v S) (\<lambda>W. if v = 0 then W else w_addBalance C (m_accountStartNonce S) a (- v) W)"
    "subBalance C a v S = Inl (e, T) \<Longrightarrow> e = NotEnoughCash \<and> w_balance (viewOf C S) a < v"
    "subBalance C a v S = Inr T \<Longrightarrow> v \<le> w_balance (viewOf C S) a" by simp_all
qed

lemma implements_setBalance:
  assumes ok: "base_ok C S" and db: "db_empty C S"
  shows "implements C S (setBalance C a v S)
     (w_update C (m_accountStartNonce S) v (\<lambda>x. x\<lparr>v_balance := v\<rparr>) a)"
proof -
  obtain r U where a: "account C a S = (r, U)" by (cases "account C a S")
  note f = account_ok [OF ok a]
  have gU: "grows C S U" by (rule grows_account [OF a])
  have dbU: "db_empty C U" using db simD(2) [OF f(1)] by (simp add: db_empty_def sameBase_def)
  let ?o = "case r of Some x \<Rightarrow> m_balance x | None \<Rightarrow> 0"
  have o: "?o = w_balance (viewOf C S) a"
    using f(4) by (cases r) (auto simp: w_balance_def split: option.splits)
  have "implements C S (addBalance C a (v - ?o) U) (w_addBalance C (m_accountStartNonce S) a (v - ?o))"
    using implements_addBalance [OF f(2) dbU, of a "v - ?o"] simD [OF f(1)] grows_trans [OF gU]
    by (auto simp: implements_def elim: outcome_mono)
  then have "implements C S (setBalance C a v S) (w_addBalance C (m_accountStartNonce S) a (v - ?o))"
    by (simp add: setBalance_def a)
  then show ?thesis
    by (rule implements_mono) (auto simp: o w_addBalance_def w_update_def w_balance_def split: option.splits)
qed

lemma implements_incNonce:
  assumes ok: "base_ok C S" and db: "db_empty C S"
  shows "implements C S (incNonce C a S) (w_incNonce C (m_accountStartNonce S) a)"
proof (rule account_cases [OF ok, of a])
  fix x T
  assume a: "account C a S = (Some x, T)" "m_cache T a = Some x" "base_ok C T" "sim C S T"
    "viewOf C S a = Some (accView C S x)" "acc_ok C T x"
  have "grows C T (logChange (ChNonce a (m_nonce x)) (putAccount a (acc_incNonce x) T))"
    by (rule logged_put [OF a(3,2)]) (use a(6) in \<open>simp_all add: firstChange_def del: accView_ops\<close>)
  with grows_trans [OF grows_account [OF a(1)]] a(5) simD(1) [OF a(4)] accView_base [OF simD(2) [OF a(4)]]
  show ?thesis by (simp add: implements_def incNonce_def a(1) w_incNonce_def w_update_def)
next
  fix T
  assume a: "account C a S = (None, T)" "m_cache T a = None" "m_state T a = None" "base_ok C T" "sim C S T" "viewOf C S a = None"
  have dbT: "db_empty C T" using db simD(2) [OF a(5)] by (simp add: db_empty_def sameBase_def)
  note c = grows_createAccount [OF a(4,2,3), of "newAccount C (m_accountStartNonce S + 1) 0"]
  show ?thesis using grows_trans [OF grows_account [OF a(1)]] grows_account [OF a(1)] simD [OF a(5)] c dbT a(6)
    by (auto simp: implements_def incNonce_def a(1) requireAccountStartNonce_def w_incNonce_def w_update_def)
qed

lemma implements_setNonce:
  assumes ok: "base_ok C S" and db: "db_empty C S"
  shows "grows C S (setNonce C a n S) \<and> viewOf C (setNonce C a n S) = w_setNonce C a n (viewOf C S)"
proof (rule account_cases [OF ok, of a])
  fix x T
  assume a: "account C a S = (Some x, T)" "m_cache T a = Some x" "base_ok C T" "sim C S T"
    "viewOf C S a = Some (accView C S x)" "acc_ok C T x"
  have "grows C T (logChange (ChNonce a (m_nonce x)) (putAccount a (acc_setNonce n x) T))"
    by (rule logged_put [OF a(3,2)]) (use a(6) in \<open>simp_all add: firstChange_def del: accView_ops\<close>)
  with grows_trans [OF grows_account [OF a(1)]] a(5) simD(1) [OF a(4)] accView_base [OF simD(2) [OF a(4)]]
  show ?thesis by (simp add: setNonce_def a(1) w_setNonce_def w_update_def)
next
  fix T
  assume a: "account C a S = (None, T)" "m_cache T a = None" "m_state T a = None" "base_ok C T" "sim C S T" "viewOf C S a = None"
  have dbT: "db_empty C T" using db simD(2) [OF a(5)] by (simp add: db_empty_def sameBase_def)
  note c = grows_createAccount [OF a(4,2,3), of "newAccount C n 0"]
  show ?thesis using grows_trans [OF grows_account [OF a(1)] c(1)] simD [OF a(5)] c dbT a(6)
    by (simp add: setNonce_def a(1) w_setNonce_def w_update_def)
qed

text \<open>Storage and code are only written at accounts that exist; code only at a changed one.\<close>

lemma implements_setStorage:
  assumes ok: "base_ok C S" and e: "viewOf C S a = Some w"
  shows "grows C S (setStorage C a k v S)"
    and "viewOf C (setStorage C a k v S) = (viewOf C S)(a \<mapsto> w\<lparr>v_storage := (v_storage w)(k := v)\<rparr>)"
proof -
  obtain old T where st: "storageAt C a k S = (old, T)" by (cases "storageAt C a k S")
  with queries(6) [OF ok, of a k] have T: "old = v_storage w k" "sim C S T" "base_ok C T"
    by (simp_all add: answers_def w_storage_def e)
  obtain x where x: "m_cache T a = Some x"
    using st e by (rule_tac account_cases [OF ok, of a]) (auto simp: storageAt_def split: prod.splits)
  have xo: "acc_ok C T x" using T(3) x by (auto simp: base_ok_def cache_ok_def)
  have w: "w = accView C T x" using viewOf_cached [OF x, of C] simD(1) [OF T(2)] e by auto
  have "setStorage C a k v S = logChange (ChStorage a k old) (putAccount a (acc_setStorage k v x) T)"
    by (simp add: setStorage_def st Let_def cacheAt_def x) (simp add: logChange_def putAccount_def)
  moreover have "grows C T (logChange (ChStorage a k old) (putAccount a (acc_setStorage k v x) T))"
    by (rule logged_put [OF T(3) x]) (use xo T(1) w in \<open>simp_all add: firstChange_def del: accView_ops\<close>)
  moreover have "grows C S T" by (rule grows_quiet) (use T in simp)
  ultimately show "grows C S (setStorage C a k v S)" using grows_trans by metis
  show "viewOf C (setStorage C a k v S) = (viewOf C S)(a \<mapsto> w\<lparr>v_storage := (v_storage w)(k := v)\<rparr>)"
    using \<open>setStorage C a k v S = _\<close> simD(1) [OF T(2)] w by simp
qed

lemma implements_setCode:
  assumes ok: "base_ok C S" and e: "viewOf C S a = Some w" and d: "a \<in> changeAddress ` set (m_changeLog S)"
  shows "grows C S (setCode C a c S)"
    and "viewOf C (setCode C a c S) =
      (viewOf C S)(a \<mapsto> w\<lparr>v_codeHash := c_sha3 C c, v_code := (if c_sha3 C c = EmptySHA3 C then [] else c)\<rparr>)"
proof -
  obtain old T where st: "codeOf C a S = (old, T)" by (cases "codeOf C a S")
  with queries(7) [OF ok, of a] have T: "old = v_code w" "sim C S T" "base_ok C T"
    by (simp_all add: answers_def w_code_def e)
  obtain x where x: "m_cache T a = Some x" "isDirty x" "acc_ok C T x"
    using d simD(4) [OF T(2)] logged_cached [OF T(3)] by (auto simp: image_iff) 
  have w: "w = accView C T x" using viewOf_cached [OF x(1), of C] simD(1) [OF T(2)] e by auto
  have "setCode C a c S = logChange (ChCode a old) (putAccount a (acc_setCode C c x) T)"
    by (simp add: setCode_def st Let_def cacheAt_def x) (simp add: logChange_def putAccount_def)
  moreover have "grows C T (logChange (ChCode a old) (putAccount a (acc_setCode C c x) T))"
    by (rule logged_put [OF T(3) x(1)])
      (use x T(1) w undo_setCode [OF x(3)] in \<open>simp_all add: firstChange_def del: accView_ops\<close>)
  moreover have "grows C S T" by (rule grows_quiet) (use T in simp)
  ultimately show "grows C S (setCode C a c S)" using grows_trans by metis
  show "viewOf C (setCode C a c S) =
      (viewOf C S)(a \<mapsto> w\<lparr>v_codeHash := c_sha3 C c, v_code := (if c_sha3 C c = EmptySHA3 C then [] else c)\<rparr>)"
    using \<open>setCode C a c S = _\<close> simD(1) [OF T(2)] w by simp
qed

end
