(* ===== verification/World_Steps.thy ===== *)
theory World_Steps
  imports World_Ops
begin

section \<open>Transitions of the world state: what rollback and commit promise\<close>

text \<open>
  The operations of \<open>State\<close> as a transition relation, the runs between a savepoint and its
  rollback, and the properties of \<open>rollback\<close>, of the operations against their specification on
  views, of transfers and of \<open>commit\<close>.
\<close>

subsection \<open>Steps and runs\<close>

text \<open>
  One operation of \<open>State\<close> between a savepoint and a rollback, as its callers use it. All queries
  and all changes of balances and nonces are steps at every address. Four operations have a guard:
  \<^item> \<open>createContract\<close> is a step at an address that shows no account and has none in the cache;
  \<^item> \<open>setStorage\<close> goes through \<open>m_cache[a]\<close>, and is a step at an account that exists;
  \<^item> \<open>setCode\<close> is a step at an account that exists and has an entry in the change log -- the new
    contract, whose creation is logged;
  \<^item> \<open>clearStorage\<close> is a step at a cached account whose storage trie is empty or that has no storage
    write pending; elsewhere rolling it back loses those writes, as shown at the end of this theory.
  \<open>kill\<close> is no step: it writes nothing to the change log, so no rollback undoes it. The code calls
  it only in \<open>Executive::finalize\<close>, after the last rollback of a transaction. \<open>commit\<close> and \<open>setRoot\<close>,
  which end the life of the log, are no steps either.
\<close>

inductive state_step :: "crypto \<Rightarrow> State \<Rightarrow> State \<Rightarrow> bool" for C where
  "balanceOf C a S = (n, T) \<Longrightarrow> state_step C S T"
| "getNonce C a S = (n, T) \<Longrightarrow> state_step C S T"
| "codeHashOf C a S = (h, T) \<Longrightarrow> state_step C S T"
| "addressInUse C a S = (b, T) \<Longrightarrow> state_step C S T"
| "addressHasCode C a S = (b, T) \<Longrightarrow> state_step C S T"
| "storageAt C a k S = (n, T) \<Longrightarrow> state_step C S T"
| "originalStorageAt C a k S = (n, T) \<Longrightarrow> state_step C S T"
| "codeOf C a S = (c, T) \<Longrightarrow> state_step C S T"
| "codeSizeOf C a S = (l, T) \<Longrightarrow> state_step C S T"
| "addBalance C a v S = Inr T \<or> addBalance C a v S = Inl (e, T) \<Longrightarrow> state_step C S T"
| "subBalance C a v S = Inr T \<or> subBalance C a v S = Inl (e, T) \<Longrightarrow> state_step C S T"
| "setBalance C a v S = Inr T \<or> setBalance C a v S = Inl (e, T) \<Longrightarrow> state_step C S T"
| "transferBalance C a b v S = Inr T \<or> transferBalance C a b v S = Inl (e, T) \<Longrightarrow> state_step C S T"
| "incNonce C a S = Inr T \<or> incNonce C a S = Inl (e, T) \<Longrightarrow> state_step C S T"
| "state_step C S (setNonce C a n S)"
| "viewOf C S a = None \<Longrightarrow> createContract C a S = Inr T \<Longrightarrow> m_cache S a = None \<Longrightarrow> state_step C S T"
| "viewOf C S a \<noteq> None \<Longrightarrow> state_step C S (setStorage C a k v S)"
| "viewOf C S a \<noteq> None \<Longrightarrow> a \<in> changeAddress ` set (m_changeLog S) \<Longrightarrow> state_step C S (setCode C a c S)"
| "m_cache S a = Some x \<Longrightarrow> m_storageRoot x = EmptyTrie C \<or> m_storageOverlay x = Map.empty \<Longrightarrow>
     state_step C S (clearStorage C a S)"

inductive state_run :: "crypto \<Rightarrow> State \<Rightarrow> State \<Rightarrow> bool" for C where
  run_refl: "state_run C S S"
| run_step: "state_run C S T \<Longrightarrow> state_step C T U \<Longrightarrow> state_run C S U"
| run_rollback: "state_run C S T \<Longrightarrow> state_run C T U \<Longrightarrow> state_run C S (rollback C (savepoint T) U)"

text \<open>A state just opened on a database: nothing cached, nothing logged.\<close>

definition opened :: "crypto \<Rightarrow> State \<Rightarrow> bool" where
  "opened C S \<longleftrightarrow> m_cache S = Map.empty \<and> m_changeLog S = [] \<and> m_nonExistingAccountsCache S = {} \<and>
     db_ok C S \<and> db_empty C S"

lemma opened_consistent: "opened C S \<Longrightarrow> consistent C S"
  by (simp add: opened_def consistent_def rollback_stop base_ok_def log_ok_def cache_ok_def)

subsection \<open>Every step grows\<close>

lemma answers_grows: "(base_ok C S \<Longrightarrow> answers C S r v) \<Longrightarrow> r = (x, T) \<Longrightarrow> grows C S T"
  by (intro grows_quiet) (auto simp: answers_def)

lemma originalStorageAt_answers:
  assumes ok: "base_ok C S"
  shows "answers C S (originalStorageAt C a k S)
    (case viewOf C S a of Some x \<Rightarrow> m_dbStorage S (v_root x) k | None \<Rightarrow> 0)"
proof (rule account_cases [OF ok, of a])
  fix x T assume a: "account C a S = (Some x, T)" "m_cache T a = Some x" "base_ok C T" "sim C S T"
    "viewOf C S a = Some (accView C S x)" "acc_ok C T x"
  obtain v y where v: "acc_originalStorageValue T k x = (v, y)" by (cases "acc_originalStorageValue T k x")
  note f = acc_originalStorageValue_ok [OF a(6) v]
  have "sim C T (putAccount a y T) \<and> base_ok C (putAccount a y T)"
    by (rule quiet_put [OF a(3,2) f(2-4)])
  moreover have "m_dbStorage T = m_dbStorage S" using simD(2) [OF a(4)] by (simp add: sameBase_def)
  ultimately show ?thesis using a v f(1) sim_trans
    by (auto simp: answers_def originalStorageAt_def)
qed (simp add: answers_def originalStorageAt_def)

lemma codeSizeOf_grows: "codeSizeOf C a S = (l, T) \<Longrightarrow> grows C S T"
proof -
  assume s: "codeSizeOf C a S = (l, T)"
  obtain r U where a: "account C a S = (r, U)" by (cases "account C a S")
  obtain c V where c: "codeOf C a U = (c, V)" by (cases "codeOf C a U")
  have "grows C U V" by (rule answers_grows [OF queries(7) c])
  with s a c grows_account [OF a] show ?thesis
    by (auto simp: codeSizeOf_def split: option.splits if_splits intro: grows_trans)
qed

lemma query_grows:
  "balanceOf C a S = (n, T) \<Longrightarrow> grows C S T" "getNonce C a S = (n, T) \<Longrightarrow> grows C S T"
  "codeHashOf C a S = (h, T) \<Longrightarrow> grows C S T" "addressInUse C a S = (b, T) \<Longrightarrow> grows C S T"
  "addressHasCode C a S = (b, T) \<Longrightarrow> grows C S T" "storageAt C a k S = (n, T) \<Longrightarrow> grows C S T"
  "codeOf C a S = (c, T) \<Longrightarrow> grows C S T"
  by (rule answers_grows, erule queries, assumption)+

lemma implements_grows:
  assumes "consistent C S \<Longrightarrow> implements C S r f" and "r = Inr T \<or> r = Inl (e, T)"
  shows "grows C S T"
  using assms by (cases "consistent C S") (auto simp: implements_def grows_def)

lemma transfer_implements:
  assumes c: "consistent C S" and db: "db_empty C S" and t: "transferBalance C a b v S = Inr T \<or> transferBalance C a b v S = Inl (e, T)"
  shows "grows C S T"
proof -
  note ok = consistent_base [OF c]
  have sub: "implements C S (subBalance C a v S) (\<lambda>W. if v = 0 then W else w_addBalance C (m_accountStartNonce S) a (- v) W)"
    by (rule implements_subBalance(1) [OF ok db])
  show ?thesis
  proof (cases "subBalance C a v S")
    case (Inl p)
    with t sub show ?thesis by (cases p) (auto simp: transferBalance_def implements_def)
  next
    case (Inr U)
    with sub have U: "grows C S U" by (simp add: implements_def)
    then have "implements C U (addBalance C b v U) (w_addBalance C (m_accountStartNonce U) b v)"
      using account_grown [OF U c] db by (intro implements_addBalance) simp_all
    then have "grows C U T" using t Inr by (intro implements_grows) (auto simp: transferBalance_def)
    with U show ?thesis by (rule grows_trans)
  qed
qed


lemma clearStorage_grows:
  assumes ok: "base_ok C S" and db: "db_empty C S" and x: "m_cache S a = Some x"
    and e: "m_storageRoot x = EmptyTrie C \<or> m_storageOverlay x = Map.empty"
  shows "grows C S (clearStorage C a S)"
proof -
  have put: "putAccount a x S = S" using x by (simp add: putAccount_def fun_upd_idem)
  show ?thesis
  proof (cases "m_storageRoot x = EmptyTrie C")
    case True
    then show ?thesis using x by (simp add: clearStorage_def cacheAt_def put)
  next
    case False
    have eq: "clearStorage C a S = logChange (ChStorageRoot a (m_storageRoot x)) (putAccount a (acc_clearStorage C x) S)"
      using False x by (simp add: clearStorage_def cacheAt_def put Let_def) (simp add: putAccount_def logChange_def)
    have xo: "acc_ok C S x" using ok x by (auto simp: base_ok_def cache_ok_def)
    have "accView C S (acc_setStorageRoot (m_storageRoot x) (acc_clearStorage C x)) = accView C S x"
      using e False by (simp add: accView_def acc_code_def storageContents_def fun_eq_iff acc_setStorageRoot_def
          acc_clearStorage_def acc_changed_def)
    moreover have "acc_ok C S (acc_clearStorage C x)"
      using xo by (auto simp: acc_ok_def acc_clearStorage_def acc_changed_def acc_code_def split: if_splits)
    ultimately show ?thesis unfolding eq
      by (intro logged_put [OF ok x]) (simp_all add: firstChange_def del: accView_ops)
  qed
qed

lemma createContract_grows:
  assumes ok: "base_ok C S" and "viewOf C S a = None" "m_cache S a = None" "createContract C a S = Inr T"
  shows "grows C S T" "db_empty C S \<Longrightarrow> viewOf C T = (viewOf C S)(a \<mapsto> freshView C (m_accountStartNonce S) 0)"
proof -
  have m: "m_state S a = None" using assms(2,3) by (simp add: viewOf_uncached)
  have T: "T = createAccount a (newAccount C (m_accountStartNonce S) 0) S"
    using assms(4) by (auto simp: createContract_def requireAccountStartNonce_def split: if_splits)
  show "grows C S T" unfolding T by (rule grows_createAccount(1) [OF ok assms(3) m]) simp_all
  show "viewOf C T = (viewOf C S)(a \<mapsto> freshView C (m_accountStartNonce S) 0)" if "db_empty C S"
    unfolding T using grows_createAccount(2) [OF ok assms(3) m, of "newAccount C (m_accountStartNonce S) 0"] that by simp
qed

lemma step_grows:
  assumes "state_step C S T" and c: "consistent C S" and db: "db_empty C S"
  shows "grows C S T"
  using assms(1)
proof cases
  case (7 a k n)
  then show ?thesis by (intro answers_grows [OF originalStorageAt_answers])
next
  case (9 a l)
  then show ?thesis by (rule codeSizeOf_grows)
next
  case (10 a v e)
  then show ?thesis by (intro implements_grows [OF implements_addBalance [OF consistent_base db]])
next
  case (11 a v e)
  then show ?thesis by (intro implements_grows [OF implements_subBalance(1) [OF consistent_base db]])
next
  case (12 a v e)
  then show ?thesis by (intro implements_grows [OF implements_setBalance [OF consistent_base db]])
next
  case (13 a b v e)
  then show ?thesis by (intro transfer_implements [OF c db])
next
  case (14 a e)
  then show ?thesis by (intro implements_grows [OF implements_incNonce [OF consistent_base db]])
next
  case (15 a n)
  then show ?thesis using implements_setNonce [OF consistent_base [OF c] db] by simp
next
  case (16 a)
  then show ?thesis by (intro createContract_grows(1) [OF consistent_base [OF c]])
next
  case (17 a k v)
  then show ?thesis using implements_setStorage(1) [OF consistent_base [OF c]] by auto
next
  case (18 a c')
  then show ?thesis using implements_setCode(1) [OF consistent_base [OF c]] by auto
next
  case (19 a x)
  then show ?thesis using clearStorage_grows [OF consistent_base [OF c] db] by simp
qed (auto intro: query_grows)

lemma run_grows:
  assumes "state_run C S T" and "consistent C S" and "db_empty C S"
  shows "grows C S T"
  using assms
proof induction
  case (run_step S T U)
  then have g: "grows C S T" by simp
  with run_step account_grown [OF g] have "grows C T U" by (intro step_grows) (simp_all add: grows_def)
  with g show ?case by (rule grows_trans)
next
  case (run_rollback S T U)
  then have g: "grows C S T" by simp
  with run_rollback account_grown [OF g] have "grows C T U" by (simp add: grows_def)
  then show ?case using grows_rollback grows_trans [OF g] by blast
qed simp

text \<open>C3: A rollback restores the savepoint. The operations that may have run since are the queries,
  \<open>addBalance\<close>, \<open>subBalance\<close>, \<open>setBalance\<close>, \<open>transferBalance\<close>, \<open>incNonce\<close> and \<open>setNonce\<close> at any address,
  \<open>createContract\<close> where there is no account, \<open>setStorage\<close> at existing accounts, \<open>setCode\<close> at existing
  accounts with a logged change, \<open>clearStorage\<close> at cached accounts without pending storage writes (or
  with an empty storage trie), and nested rollbacks, in any order and number: these are the steps of
  \<open>state_run\<close>. \<open>kill\<close>, which is not logged, and \<open>clearStorage\<close> over pending writes are not among them,
  and would not be undone. After such a run, rolling back to the savepoint restores what the state
  shows of every address -- balance, nonce, code and storage -- and the change log, and leaves the
  database alone.\<close>

theorem rollback_restores:
  assumes "opened C S0" and "state_run C S0 S" and "state_run C S T"
  shows "viewOf C (rollback C (savepoint S) T) = viewOf C S \<and>
    m_changeLog (rollback C (savepoint S) T) = m_changeLog S \<and>
    rootHash C (rollback C (savepoint S) T) = rootHash C S"
proof -
  have 0: "consistent C S0" "db_empty C S0" using assms(1) opened_consistent by (auto simp: opened_def)
  from run_grows [OF assms(2) 0] have S: "consistent C S" "db_empty C S"
    using account_grown 0 by (auto simp: grows_def)
  from run_grows [OF assms(3) S] S have "sim C S (rollback C (savepoint S) T)" by (simp add: grows_def)
  then show ?thesis by (simp add: sim_def sameBase_def rootHash_def)
qed


subsection \<open>A concrete world for the witnesses\<close>

text \<open>A hash that counts, and a trie with one account: 100 wei, code and storage.\<close>

definition countCrypto :: crypto where
  "countCrypto = \<lparr>c_sha3 = (\<lambda>bs. of_nat (length bs)), c_storageRoot = (\<lambda>f. f 0 + 7),
     c_stateRoot = (\<lambda>_. 0), c_random = (\<lambda>n. n)\<rparr>"

definition sampleState :: State where
  "sampleState = \<lparr>m_cache = Map.empty, m_unchangedCacheEntries = [], m_nonExistingAccountsCache = {}, m_touched = {},
     m_accountStartNonce = 0, m_changeLog = [], m_state = [1 \<mapsto> (3, 100, 16, 2)],
     m_dbStorage = (\<lambda>r. if r = 16 then (\<lambda>k. if k = 0 then 9 else 0) else (\<lambda>_. 0)), m_dbCode = (\<lambda>h. if h = 2 then [0x60, 0] else []),
     m_engine = 0\<rparr>"

lemma sample_opened: "opened countCrypto sampleState"
  by (auto simp: opened_def sampleState_def db_ok_def db_empty_def countCrypto_def EmptyTrie_def EmptySHA3_def split: if_splits)

lemmas sample_simps = sampleState_def countCrypto_def addBalance_def subBalance_def account_def putAccount_def logChange_def
  loadedAccount_def acc_isEmpty_def EmptySHA3_def isDirty_def acc_addBalance_def acc_changed_def clearCacheIfTooLarge.simps
  createAccount_def newAccount_def deadAccount_def requireAccountStartNonce_def Invalid256_def savepoint_def
  transferBalance_def EmptyTrie_def Let_def

lemma sample_step: "\<exists>T. addBalance countCrypto 1 5 sampleState = Inr T \<and> savepoint T = 1"
  by (simp add: sample_simps)

lemma rollback_restores_witness:
  "\<exists>S T. state_run countCrypto sampleState S \<and> state_run countCrypto S T \<and> savepoint T = 2 \<and> savepoint S = 1 \<and>
     viewOf countCrypto (rollback countCrypto (savepoint S) T) = viewOf countCrypto S"
proof -
  obtain S where S: "addBalance countCrypto 1 5 sampleState = Inr S" "savepoint S = 1" using sample_step by blast
  have r: "state_run countCrypto sampleState S"
    by (rule run_step [OF run_refl state_step.intros(10)]) (use S in blast)
  let ?T = "setNonce countCrypto 1 8 S"
  have s: "state_run countCrypto S ?T" by (rule run_step [OF run_refl state_step.intros(15)])
  have "savepoint ?T = 2" using S by (auto simp: sample_simps setNonce_def)
  with r s S rollback_restores [OF sample_opened r s] show ?thesis by blast
qed

subsection \<open>The operations refine operations on views\<close>

text \<open>What is known of a state that a run reached.\<close>

definition reached :: "crypto \<Rightarrow> State \<Rightarrow> bool" where
  "reached C S \<longleftrightarrow> (\<exists>S0. opened C S0 \<and> state_run C S0 S)"

lemma reached_consistent: "reached C S \<Longrightarrow> consistent C S \<and> base_ok C S \<and> db_empty C S"
proof -
  assume "reached C S"
  then obtain S0 where "opened C S0" "state_run C S0 S" by (auto simp: reached_def)
  then have 0: "consistent C S0" "db_empty C S0" "grows C S0 S"
    using opened_consistent run_grows by (auto simp: opened_def)
  with account_grown [OF 0(3,1)] consistent_base show ?thesis by (auto simp: grows_def)
qed

lemma sample_reached: "reached countCrypto sampleState"
  using sample_opened run_refl by (auto simp: reached_def)

text \<open>C4: In every state that a run reaches, the operations refine operations on a plain map of
  accounts, whatever is cached, purged or still in the trie: the queries answer from the map and
  do not change it, and every change of a balance, nonce, storage cell or code does to the map
  what its specification says -- an absent account is created with the start nonce -- or leaves
  it as it was where the operation fails.\<close>

theorem state_refines:
  assumes "reached C S"
  shows "answers C S (balanceOf C a S) (w_balance (viewOf C S) a) \<and>
    answers C S (getNonce C a S) (w_nonce (m_accountStartNonce S) (viewOf C S) a) \<and>
    answers C S (addressHasCode C a S) (w_codeHash C (viewOf C S) a \<noteq> EmptySHA3 C) \<and>
    answers C S (storageAt C a k S) (w_storage (viewOf C S) a k) \<and>
    answers C S (codeOf C a S) (w_code (viewOf C S) a) \<and>
    implements C S (addBalance C a v S) (w_addBalance C (m_accountStartNonce S) a v) \<and>
    implements C S (setBalance C a v S) (w_update C (m_accountStartNonce S) v (\<lambda>x. x\<lparr>v_balance := v\<rparr>) a) \<and>
    implements C S (incNonce C a S) (w_incNonce C (m_accountStartNonce S) a) \<and>
    viewOf C (setNonce C a v S) = w_setNonce C a v (viewOf C S) \<and>
    (\<forall>x. viewOf C S a = Some x \<longrightarrow>
       viewOf C (setStorage C a k v S) = (viewOf C S)(a \<mapsto> x\<lparr>v_storage := (v_storage x)(k := v)\<rparr>) \<and>
       (a \<in> changeAddress ` set (m_changeLog S) \<longrightarrow>
          viewOf C (setCode C a c S) =
            (viewOf C S)(a \<mapsto> x\<lparr>v_codeHash := c_sha3 C c, v_code := (if c_sha3 C c = EmptySHA3 C then [] else c)\<rparr>)))"
proof -
  have ok: "base_ok C S" and db: "db_empty C S" using reached_consistent [OF assms] by simp_all
  show ?thesis
    using queries [OF ok, of a] implements_addBalance [OF ok db] implements_setBalance [OF ok db]
      implements_incNonce [OF ok db] implements_setNonce [OF ok db] implements_setStorage(2) [OF ok]
      implements_setCode(2) [OF ok] by simp
qed

lemma state_refines_witness:
  "answers countCrypto sampleState (balanceOf countCrypto 1 sampleState) 100 \<and>
   viewOf countCrypto (setStorage countCrypto 1 0 5 sampleState) =
     (viewOf countCrypto sampleState)(1 \<mapsto>
        \<lparr>v_alive = True, v_nonce = 3, v_balance = 100, v_root = 16, v_codeHash = 2, v_code = [0x60, 0],
         v_storage = (\<lambda>k. if k = 0 then 5 else 0)\<rparr>)"
proof -
  have v: "viewOf countCrypto sampleState 1 =
      Some \<lparr>v_alive = True, v_nonce = 3, v_balance = 100, v_root = 16, v_codeHash = 2, v_code = [0x60, 0],
         v_storage = (\<lambda>k. if k = 0 then 9 else 0)\<rparr>"
    by (simp add: viewOf_def eff_def sample_simps accView_def acc_code_def storageContents_def fun_eq_iff)
  have "(\<lambda>k::u256. if k = 0 then 9 else 0)(0 := 5) = (\<lambda>k. if k = 0 then 5 else (0::u256))" by auto
  with state_refines [OF sample_reached, where a = 1 and k = 0 and v = 5] v show ?thesis by (simp add: w_balance_def)
qed

subsection \<open>Transfers\<close>

lemma w_balance_add [simp]:
  "w_balance (w_addBalance C n a v W) c = w_balance W c + (if c = a then v else 0)"
  by (simp add: w_balance_def w_addBalance_def w_update_def freshView_def split: option.split)

text \<open>C14: A transfer of value between any two accounts conserves value: it debits the sender and
  credits the recipient by the same amount, touches no other balance, and is refused, with
  nothing changed, exactly when the sender has less.\<close>

theorem transfer_conserves:
  assumes "reached C S" and "m_accountStartNonce S \<noteq> Invalid256"
  shows "case transferBalance C a b v S of
      Inr T \<Rightarrow> v \<le> w_balance (viewOf C S) a \<and>
        (\<forall>c. w_balance (viewOf C T) c =
           w_balance (viewOf C S) c - (if c = a then v else 0) + (if c = b then v else 0))
    | Inl (e, T) \<Rightarrow> e = NotEnoughCash \<and> w_balance (viewOf C S) a < v \<and> viewOf C T = viewOf C S"
proof -
  have ok: "base_ok C S" and db: "db_empty C S" and c: "consistent C S" using reached_consistent [OF assms(1)] by simp_all
  note sub = implements_subBalance [OF ok db, of a v]
  show ?thesis
  proof (cases "subBalance C a v S")
    case (Inl p)
    with sub(1,2) show ?thesis by (cases p) (simp add: transferBalance_def implements_def)
  next
    case (Inr U)
    with sub have U: "grows C S U" "v \<le> w_balance (viewOf C S) a"
      "viewOf C U = (if v = 0 then viewOf C S else w_addBalance C (m_accountStartNonce S) a (- v) (viewOf C S))"
      by (simp_all add: implements_def)
    have n: "m_accountStartNonce U \<noteq> Invalid256" using account_grown(2) [OF U(1) c] assms(2) by (simp add: sameBase_def)
    have "implements C U (addBalance C b v U) (w_addBalance C (m_accountStartNonce U) b v)"
      using account_grown [OF U(1) c] db by (intro implements_addBalance) simp_all
    moreover have "\<exists>T. addBalance C b v U = Inr T"
      using n by (auto simp: addBalance_def account_def requireAccountStartNonce_def Let_def split: option.split prod.split if_splits)
    ultimately show ?thesis using Inr U by (auto simp: transferBalance_def implements_def)
  qed
qed

lemma transfer_conserves_witness:
  "\<exists>T. transferBalance countCrypto 1 2 30 sampleState = Inr T \<and> w_balance (viewOf countCrypto T) 1 = 70 \<and>
       w_balance (viewOf countCrypto T) 2 = 30"
proof -
  have w: "w_balance (viewOf countCrypto sampleState) 1 = 100" "w_balance (viewOf countCrypto sampleState) 2 = 0"
    by (simp_all add: w_balance_def viewOf_def eff_def sample_simps accView_def)
  obtain T where T: "transferBalance countCrypto 1 2 30 sampleState = Inr T"
    by (simp add: sample_simps)
  have "m_accountStartNonce sampleState \<noteq> Invalid256" by (simp add: sampleState_def Invalid256_def)
  from transfer_conserves [OF sample_reached this, where a = 1 and b = 2 and v = 30] w show ?thesis by (simp add: T)
qed

subsection \<open>Reverting \<open>clearStorage\<close>\<close>

text \<open>C23: Rolling back \<open>clearStorage\<close> gives the account its old storage root, but not the storage
  writes that were pending when it was cleared: a cell shows the value of the trie again, whatever
  was written to it before the savepoint.\<close>

theorem clearStorage_loses_writes:
  assumes "m_cache S a = Some x" and "m_storageRoot x \<noteq> EmptyTrie C"
  shows "w_storage (viewOf C (rollback C (savepoint S) (clearStorage C a S))) a k = m_dbStorage S (m_storageRoot x) k"
proof -
  have put: "putAccount a x S = S" using assms(1) by (simp add: putAccount_def fun_upd_idem)
  have eq: "clearStorage C a S = putAccount a (acc_clearStorage C x) (logChange (ChStorageRoot a (m_storageRoot x)) S)"
    using assms by (simp add: clearStorage_def cacheAt_def put Let_def)
  have "rollback C (savepoint S) (clearStorage C a S) = undo1 C (clearStorage C a S)"
    by (simp add: rollback_undo1 rollback_stop savepoint_def eq)
  moreover have "m_cache (undo1 C (clearStorage C a S)) a = Some (acc_setStorageRoot (m_storageRoot x) (acc_clearStorage C x))"
    by (simp add: cache_undo1 eq cacheAt_def)
  ultimately show ?thesis
    by (simp add: w_storage_def viewOf_cached eq)
qed

lemma clearStorage_loses_writes_witness:
  "\<exists>S. w_storage (viewOf countCrypto S) 1 0 = 5 \<and>
     w_storage (viewOf countCrypto (rollback countCrypto (savepoint S) (clearStorage countCrypto 1 S))) 1 0 = 9"
proof -
  let ?S = "setStorage countCrypto 1 0 5 sampleState"
  have x: "\<exists>x. m_cache ?S 1 = Some x \<and> m_storageRoot x = 16 \<and> storageContents ?S x 0 = 5"
    by (simp add: setStorage_def storageAt_def sample_simps acc_storageValue_def acc_originalStorageValue_def
        acc_setStorage_def cacheAt_def storageContents_def)
  then obtain x where x: "m_cache ?S 1 = Some x" "m_storageRoot x = 16" "storageContents ?S x 0 = 5" by blast
  have "m_dbStorage ?S 16 0 = 9"
    by (simp add: setStorage_def storageAt_def sample_simps acc_storageValue_def acc_originalStorageValue_def cacheAt_def)
  moreover have "m_storageRoot x \<noteq> EmptyTrie countCrypto" by (simp add: x EmptyTrie_def countCrypto_def)
  ultimately show ?thesis using clearStorage_loses_writes [OF x(1), of countCrypto 0] x
    by (intro exI [of _ ?S]) (simp add: w_storage_def viewOf_cached)
qed

end
