(* ===== verification/World_Commit.thy ===== *)
theory World_Commit
  imports World_Steps
begin

section \<open>Committing the world state\<close>

text \<open>
  \<open>dev::eth::commit\<close> writes every changed account of the cache to the tries, in the order in which
  the hash map happens to enumerate it. The hypotheses name what the code relies on: no two
  storages or codes of the accounts at hand collide under the hash.
\<close>

definition live :: "State \<Rightarrow> Account set" where
  "live S = {x. \<exists>a. eff S a = Some x}"

definition no_collisions :: "crypto \<Rightarrow> State \<Rightarrow> bool" where
  "no_collisions C S \<longleftrightarrow>
     (\<forall>x \<in> live S. \<forall>y \<in> live S.
        (c_storageRoot C (storageContents S x) = c_storageRoot C (storageContents S y) \<longrightarrow>
           storageContents S x = storageContents S y) \<and>
        (c_storageRoot C (storageContents S x) = m_storageRoot y \<longrightarrow>
           storageContents S x = m_dbStorage S (m_storageRoot y)) \<and>
        (m_codeHash x = m_codeHash y \<longrightarrow> acc_code C S x = acc_code C S y) \<and>
        (c_sha3 C (m_dbCode S (m_codeHash x)) = m_codeHash x \<longrightarrow> m_dbCode S (m_codeHash x) = acc_code C S x))"

text \<open>What the trie holds for an account after the commit, and what it shows.\<close>

definition entryOf :: "crypto \<Rightarrow> State \<Rightarrow> Account \<Rightarrow> (u256 \<times> u256 \<times> h256 \<times> h256) option" where
  "entryOf C S x = (if m_isAlive x then Some (m_nonce x, m_balance x, committedRoot C S x, m_codeHash x) else None)"

definition committedView :: "crypto \<Rightarrow> State \<Rightarrow> address \<Rightarrow> AccountView option" where
  "committedView C S a =
     (case eff S a of
        None \<Rightarrow> None
      | Some x \<Rightarrow> if isDirty x \<and> \<not> m_isAlive x then None
                  else Some ((accView C S x)\<lparr>v_root := if isDirty x then committedRoot C S x else m_storageRoot x\<rparr>))"

text \<open>The databases hold the storage and the code of an account.\<close>

definition hasCode :: "crypto \<Rightarrow> State \<Rightarrow> State \<Rightarrow> Account \<Rightarrow> bool" where
  "hasCode C S T x \<longleftrightarrow> (m_codeHash x \<noteq> EmptySHA3 C \<longrightarrow> m_dbCode T (m_codeHash x) = acc_code C S x)"

definition stored :: "crypto \<Rightarrow> State \<Rightarrow> State \<Rightarrow> Account \<Rightarrow> bool" where
  "stored C S T x \<longleftrightarrow> m_dbStorage T (committedRoot C S x) = storageContents S x \<and> hasCode C S T x"

text \<open>The tries after the accounts \<open>A\<close> of the cache have been written.\<close>

definition written :: "crypto \<Rightarrow> State \<Rightarrow> address set \<Rightarrow> State \<Rightarrow> bool" where
  "written C S A T \<longleftrightarrow>
     m_cache T = m_cache S \<and>
     (\<forall>x \<in> live S. m_dbStorage T (m_storageRoot x) = m_dbStorage S (m_storageRoot x)) \<and>
     (\<forall>x \<in> live S. \<not> (isDirty x \<and> m_hasNewCode x) \<longrightarrow> m_isAlive x \<longrightarrow> hasCode C S T x) \<and>
     (\<forall>a \<in> A. \<forall>x. m_cache S a = Some x \<longrightarrow> isDirty x \<longrightarrow> m_isAlive x \<longrightarrow> stored C S T x) \<and>
     (\<forall>a. m_state T a = (case m_cache S a of
        Some x \<Rightarrow> if isDirty x \<and> a \<in> A then entryOf C S x else m_state S a
      | None \<Rightarrow> m_state S a))"

lemma live_cached: "m_cache S a = Some x \<Longrightarrow> x \<in> live S"
  by (auto simp: live_def eff_def intro: exI [of _ a])

lemma live_loaded: "m_cache S a = None \<Longrightarrow> m_state S a = Some e \<Longrightarrow> loadedAccount e \<in> live S"
  by (auto simp: live_def eff_def intro!: exI [of _ a])

lemma no_coll:
  assumes "no_collisions C S" "x \<in> live S"
  shows "y \<in> live S \<Longrightarrow> c_storageRoot C (storageContents S x) = c_storageRoot C (storageContents S y) \<Longrightarrow>
      storageContents S x = storageContents S y"
    and "y \<in> live S \<Longrightarrow> c_storageRoot C (storageContents S x) = m_storageRoot y \<Longrightarrow>
      storageContents S x = m_dbStorage S (m_storageRoot y)"
    and "y \<in> live S \<Longrightarrow> m_codeHash x = m_codeHash y \<Longrightarrow> acc_code C S x = acc_code C S y"
    and "c_sha3 C (m_dbCode S (m_codeHash x)) = m_codeHash x \<Longrightarrow> m_dbCode S (m_codeHash x) = acc_code C S x"
  using assms unfolding no_collisions_def by blast+

lemma cached_committed:
  assumes "base_ok C S" "m_cache S a = Some x" "\<not> isDirty x"
  obtains e where "m_state S a = Some e" "accView C S x = accView C S (loadedAccount e)"
proof -
  have "asCommitted C S a x" using assms by (simp add: base_ok_def cache_ok_def)
  with that show ?thesis unfolding asCommitted_def by (elim exE conjE) 
qed

lemma db_code: "base_ok C S \<Longrightarrow> m_state S a = Some (n, b, r, h) \<Longrightarrow> h \<noteq> EmptySHA3 C \<Longrightarrow> c_sha3 C (m_dbCode S h) = h"
  unfolding base_ok_def db_ok_def by simp

lemma cached_acc_ok: "base_ok C S \<Longrightarrow> m_cache S a = Some x \<Longrightarrow> acc_ok C S x"
  by (simp add: base_ok_def cache_ok_def)

lemma loaded_simps [simp]:
  "m_codeHash (loadedAccount (n, b, r, h)) = h" "m_storageRoot (loadedAccount (n, b, r, h)) = r"
  "m_isAlive (loadedAccount e)"
  "accView C S (loadedAccount (n, b, r, h)) =
     \<lparr>v_alive = True, v_nonce = n, v_balance = b, v_root = r, v_codeHash = h,
      v_code = (if h = EmptySHA3 C then [] else m_dbCode S h), v_storage = m_dbStorage S r\<rparr>"
  by (simp_all add: loadedAccount_def split: prod.split) (simp_all add: accView_def acc_code_def storageContents_def fun_eq_iff)

lemma live_code:
  assumes ok: "base_ok C S" and nc: "no_collisions C S" and x: "x \<in> live S" "\<not> (isDirty x \<and> m_hasNewCode x)" "m_isAlive x"
  shows "hasCode C S S x"
proof -
  have "c_sha3 C (m_dbCode S (m_codeHash x)) = m_codeHash x" if h: "m_codeHash x \<noteq> EmptySHA3 C"
  proof -
    obtain a where a: "eff S a = Some x" using x(1) by (auto simp: live_def)
    show ?thesis
    proof (cases "m_cache S a")
      case None
      with a obtain e where e: "m_state S a = Some e" "x = loadedAccount e" by (auto simp: eff_def)
      with db_code [OF ok] h show ?thesis by (cases e) simp
    next
      case (Some y)
      with a have y: "m_cache S a = Some x" by (simp add: eff_def)
      show ?thesis
      proof (cases "m_hasNewCode x")
        case False
        with cached_acc_ok [OF ok y] x(3) h show ?thesis by (simp add: acc_ok_def)
      next
        case True
        with x(2) have "\<not> isDirty x" by simp
        then obtain e where e: "m_state S a = Some e" "accView C S x = accView C S (loadedAccount e)"
          by (rule cached_committed [OF ok y])
        from arg_cong [OF e(2), of v_codeHash] have "m_codeHash x = m_codeHash (loadedAccount e)" by simp
        with db_code [OF ok] h e(1) show ?thesis by (cases e) simp
      qed
    qed
  qed
  with no_coll(4) [OF nc x(1)] show ?thesis by (simp add: hasCode_def)
qed

lemma written_start: "base_ok C S \<Longrightarrow> no_collisions C S \<Longrightarrow> written C S {} S"
  using live_code by (auto simp: written_def split: option.split)

lemma new_code: "acc_ok C S x \<Longrightarrow> m_isAlive x \<Longrightarrow> m_hasNewCode x \<Longrightarrow> m_codeHash x \<noteq> EmptySHA3 C \<Longrightarrow> acc_code C S x = m_codeCache x"
  unfolding acc_ok_def by (cases "m_codeCache x = []") (simp_all add: acc_code_def EmptySHA3_def)

lemma written_step:
  assumes ok: "base_ok C S" and nc: "no_collisions C S" and w: "written C S A T"
  shows "written C S (insert a A) (commitOne C a T)"
proof (cases "m_cache S a")
  case None
  with w have "commitOne C a T = T" by (simp add: commitOne_def written_def)
  with w None show ?thesis by (auto simp: written_def split: option.splits)
next
  case (Some x)
  have cx: "m_cache T a = Some x" using w Some by (simp add: written_def)
  have lx: "x \<in> live S" by (rule live_cached [OF Some])
  have xo: "acc_ok C S x" by (rule cached_acc_ok [OF ok Some])
  show ?thesis
  proof (cases "isDirty x \<and> m_isAlive x")
    case False
    then have "commitOne C a T = (if isDirty x then T\<lparr>m_state := (m_state T)(a := None), m_touched := insert a (m_touched T)\<rparr> else T)"
      using cx by (simp add: commitOne_def)
    with w Some False show ?thesis
      by (auto simp: written_def stored_def hasCode_def entryOf_def split: option.splits)
  next
    case True
    have base: "m_dbStorage T (m_storageRoot x) = m_dbStorage S (m_storageRoot x)" using w lx by (simp add: written_def)
    have con: "storageContents T x = storageContents S x" by (simp add: storageContents_def base fun_eq_iff split: option.split)
    have root: "committedRoot C T x = committedRoot C S x" by (simp add: committedRoot_def con)
    let ?U = "commitOne C a T"
    let ?n = "m_storageOverlay x \<noteq> Map.empty"
    have U: "m_cache ?U = m_cache S" "m_state ?U = (m_state T)(a := entryOf C S x)"
      "m_dbStorage ?U = (if ?n then (m_dbStorage T)(c_storageRoot C (storageContents S x) := storageContents S x) else m_dbStorage T)"
      "m_dbCode ?U = (if m_hasNewCode x then (m_dbCode T)(m_codeHash x := m_codeCache x) else m_dbCode T)"
      using True cx w by (auto simp: commitOne_def Let_def root con entryOf_def committedRoot_def written_def)
    have sto: "m_dbStorage ?U (m_storageRoot y) = m_dbStorage S (m_storageRoot y)" if y: "y \<in> live S" for y
    proof (cases "?n \<and> m_storageRoot y = c_storageRoot C (storageContents S x)")
      case True
      with no_coll(2) [OF nc lx y] show ?thesis by (simp add: U(3))
    next
      case False
      with w y show ?thesis by (auto simp: U(3) written_def)
    qed
    have sto2: "m_dbStorage ?U (committedRoot C S y) = storageContents S y"
      if y: "y \<in> live S" and s: "m_dbStorage T (committedRoot C S y) = storageContents S y \<or> y = x" for y
    proof (cases "m_storageOverlay y = Map.empty")
      case True
      then have "storageContents S y = m_dbStorage S (m_storageRoot y)" "committedRoot C S y = m_storageRoot y"
        by (simp_all add: storageContents_def committedRoot_def fun_eq_iff)
      with sto [OF y] show ?thesis by simp
    next
      case False
      then have "committedRoot C S y = c_storageRoot C (storageContents S y)" by (simp add: committedRoot_def)
      then show ?thesis using s no_coll(1) [OF nc lx y] False
        by (cases "c_storageRoot C (storageContents S x) = c_storageRoot C (storageContents S y)") (auto simp: U(3))
    qed
    have code: "hasCode C S ?U y" if y: "y \<in> live S" and h: "hasCode C S T y \<or> y = x \<and> m_hasNewCode x" for y
    proof -
      from h True new_code [OF xo] no_coll(3) [OF nc lx y] show ?thesis
        by (cases "m_codeHash x = m_codeHash y") (auto simp: U(4) hasCode_def)
    qed
    have "stored C S ?U x"
    proof -
      have "hasCode C S T x \<or> m_hasNewCode x" using w lx True by (auto simp: written_def)
      with code [OF lx] sto2 [OF lx] show ?thesis by (auto simp: stored_def)
    qed
    moreover have "stored C S ?U y" if "b \<in> A" "m_cache S b = Some y" "isDirty y" "m_isAlive y" for b y
    proof -
      have "stored C S T y" using w that by (auto simp: written_def)
      with code sto2 live_cached [OF that(2)] show ?thesis by (auto simp: stored_def)
    qed
    moreover have "hasCode C S ?U y" if "y \<in> live S" "\<not> (isDirty y \<and> m_hasNewCode y)" "m_isAlive y" for y
      using w that code by (auto simp: written_def)
    moreover have "m_state ?U b = (case m_cache S b of
        Some y \<Rightarrow> if isDirty y \<and> b \<in> insert a A then entryOf C S y else m_state S b | None \<Rightarrow> m_state S b)" for b
      using w Some True by (cases "b = a") (auto simp: U(2) written_def split: option.split)
    ultimately show ?thesis using Some sto unfolding written_def U(1) by auto
  qed
qed

lemma written_fold:
  "base_ok C S \<Longrightarrow> no_collisions C S \<Longrightarrow> written C S A T \<Longrightarrow> written C S (set order \<union> A) (fold (commitOne C) order T)"
proof (induction order arbitrary: A T)
  case (Cons a order)
  from Cons.IH [OF Cons.prems(1,2) written_step [OF Cons.prems]] show ?case by (simp add: Un_commute)
qed simp

lemma written_view:
  assumes ok: "base_ok C S" and nc: "no_collisions C S" and w: "written C S A T" and A: "A = dom (m_cache S)"
    and U: "m_cache U = Map.empty" "m_state U = m_state T" "m_dbStorage U = m_dbStorage T" "m_dbCode U = m_dbCode T"
  shows "viewOf C U a = committedView C S a"
proof -
  have view: "viewOf C U a = map_option (accView C U \<circ> loadedAccount) (m_state T a)"
    using U by (simp add: viewOf_uncached)
  have same: "accView C U (loadedAccount e) = accView C S x"
    if e: "accView C S x = accView C S (loadedAccount e)" and x: "x \<in> live S" "\<not> isDirty x" for e x
  proof -
    have al: "m_isAlive x" using arg_cong [OF e, of v_alive] by simp
    have "hasCode C S T x" using w x al by (simp add: written_def)
    moreover have "m_dbStorage T (m_storageRoot x) = m_dbStorage S (m_storageRoot x)" using w x by (simp add: written_def)
    moreover obtain n b r h where eq: "e = (n, b, r, h)" by (cases e)
    moreover have "m_codeHash x = h" "m_storageRoot x = r" "acc_code C S x = (if h = EmptySHA3 C then [] else m_dbCode S h)"
      using arg_cong [OF e, of v_codeHash] arg_cong [OF e, of v_root] arg_cong [OF e, of v_code] eq by simp_all
    ultimately show ?thesis unfolding e by (simp add: hasCode_def U)
  qed
  show ?thesis
  proof (cases "m_cache S a")
    case None
    then have "m_state T a = m_state S a" using w by (simp add: written_def)
    with None view same live_loaded show ?thesis
      by (cases "m_state S a") (auto simp: committedView_def eff_def)
  next
    case (Some x)
    have lx: "x \<in> live S" by (rule live_cached [OF Some])
    show ?thesis
    proof (cases "isDirty x")
      case False
      then obtain e where e: "m_state S a = Some e" "accView C S x = accView C S (loadedAccount e)"
        by (rule cached_committed [OF ok Some])
      have "m_state T a = Some e" using w Some False e by (simp add: written_def)
      with view same [OF e(2) lx False] Some False show ?thesis
        by (simp add: committedView_def eff_def)
    next
      case True
      have st: "m_state T a = entryOf C S x" using w Some True A by (simp add: written_def domI)
      show ?thesis
      proof (cases "m_isAlive x")
        case True
        then have "stored C S T x" using w Some \<open>isDirty x\<close> A by (auto simp: written_def)
        with True st view Some \<open>isDirty x\<close> show ?thesis
          by (simp add: committedView_def eff_def entryOf_def accView_def loadedAccount_def acc_code_def stored_def
              hasCode_def U storageContents_def fun_eq_iff)
      qed (use st view Some True in \<open>simp add: committedView_def eff_def entryOf_def\<close>)
    qed
  qed
qed

subsection \<open>Killed and empty accounts\<close>

lemma acc_kill_ok [simp]: "acc_ok C S (acc_kill C x)" "isDirty (acc_kill C x)" "\<not> m_isAlive (acc_kill C x)"
  by (simp_all add: acc_ok_def acc_kill_def acc_changed_def isDirty_def)

lemma kill_ok: "base_ok C S \<Longrightarrow> base_ok C (killAccount C a S)"
  by (rule account_cases [of C S a]) (auto simp: killAccount_def intro!: put_ok)

lemma kills_ok: "base_ok C S \<Longrightarrow> base_ok C (fold (killAccount C) as S)"
  by (induction as arbitrary: S) (simp_all add: kill_ok)

lemma removeEmpty_ok:
  assumes ok: "base_ok C S"
  shows "base_ok C (removeEmptyAccounts C S)"
proof -
  let ?T = "removeEmptyAccounts C S"
  let ?f = "\<lambda>acc. if isDirty acc \<and> acc_isEmpty C acc then acc_kill C acc else acc"
  have sb: "sameBase S ?T" by (simp add: sameBase_def removeEmptyAccounts_def)
  have T: "m_cache ?T = (\<lambda>a. map_option ?f (m_cache S a))" "m_changeLog ?T = m_changeLog S"
    "m_nonExistingAccountsCache ?T = m_nonExistingAccountsCache S" "m_state ?T = m_state S"
    by (simp_all add: removeEmptyAccounts_def)
  have d: "isDirty (?f x) = isDirty x" for x by simp
  have "cache_ok C ?T"
    using ok unfolding cache_ok_def T acc_ok_base [OF sb] asCommitted_base [OF sb]
    by (auto simp: base_ok_def cache_ok_def)
  moreover have "log_ok ?T"
  proof -
    have l: "log_ok S" using ok by (simp add: base_ok_def)
    have "\<exists>acc. map_option ?f (m_cache S (changeAddress c)) = Some acc \<and> isDirty acc" if c: "c \<in> set (m_changeLog S)" for c
      by (rule logged_cached [OF ok c]) (auto intro: exI [of _ "acc_kill C z" for z])
    with l show ?thesis unfolding log_ok_def T by blast
  qed
  moreover have "db_ok C ?T" using ok db_ok_base [OF sb] by (simp add: base_ok_def)
  moreover have "\<forall>a \<in> m_nonExistingAccountsCache ?T. m_state ?T a = None" using ok by (simp add: base_ok_def T)
  ultimately show ?thesis by (simp add: base_ok_def)
qed

lemma committed_removeEmpty:
  "committedView C (removeEmptyAccounts C S) a =
     (case eff S a of
        Some x \<Rightarrow> if isDirty x \<and> acc_isEmpty C x then None else committedView C S a
      | None \<Rightarrow> None)"
proof -
  let ?T = "removeEmptyAccounts C S"
  have sb: "sameBase S ?T" by (simp add: sameBase_def removeEmptyAccounts_def)
  have r: "committedRoot C ?T = committedRoot C S"
    by (simp add: committedRoot_def storageContents_base [OF sb] fun_eq_iff)
  have st: "m_state ?T = m_state S" and
    ca: "m_cache ?T a = map_option (\<lambda>acc. if isDirty acc \<and> acc_isEmpty C acc then acc_kill C acc else acc) (m_cache S a)"
    by (simp_all add: removeEmptyAccounts_def)
  show ?thesis
    by (cases "m_cache S a"; cases "m_state S a")
      (simp_all add: committedView_def eff_def r st ca accView_base [OF sb])
qed

text \<open>C5: Committing writes to the tries exactly what the state shows: afterwards, with the cache
  emptied, every account shows its balance, nonce, code and storage as before, under the storage
  root of its new contents; accounts killed, and the empty ones among the changed where these are
  removed, are gone; and the order in which the cache is enumerated does not matter.\<close>

theorem commit_writes_view:
  assumes "reached C S0" and "S = fold (killAccount C) suicides S0"
    and "no_collisions C (if behaviour = RemoveEmptyAccounts then removeEmptyAccounts C S else S)"
    and "set order = dom (m_cache S)"
  shows "viewOf C (commit C order behaviour S) =
    (\<lambda>a. case eff S a of
       None \<Rightarrow> None
     | Some x \<Rightarrow>
         if isDirty x \<and> (\<not> m_isAlive x \<or> behaviour = RemoveEmptyAccounts \<and> acc_isEmpty C x) then None
         else Some ((accView C S x)\<lparr>v_root := if isDirty x then committedRoot C S x else m_storageRoot x\<rparr>))"
proof
  fix a
  have ok: "base_ok C S" using kills_ok reached_consistent [OF assms(1)] by (simp add: assms(2))
  define T where "T = (if behaviour = RemoveEmptyAccounts then removeEmptyAccounts C S else S)"
  have okT: "base_ok C T" using ok removeEmpty_ok by (simp add: T_def)
  have nc: "no_collisions C T" using assms(3) by (simp add: T_def)
  have "dom (m_cache (removeEmptyAccounts C S)) = dom (m_cache S)"
    unfolding removeEmptyAccounts_def dom_def by (simp del: not_None_eq)
  then have dT: "dom (m_cache T) = dom (m_cache S)" by (simp add: T_def)
  have w: "written C T (set order) (commitCache C order T)"
    using written_fold [OF okT nc written_start [OF okT nc]] by (simp add: commitCache_def)
  have "viewOf C (commit C order behaviour S) a = committedView C T a"
    by (rule written_view [OF okT nc w assms(4) [folded dT]]) (simp_all add: commit_def T_def Let_def)
  also have "\<dots> = (case eff S a of
       None \<Rightarrow> None
     | Some x \<Rightarrow>
         if isDirty x \<and> (\<not> m_isAlive x \<or> behaviour = RemoveEmptyAccounts \<and> acc_isEmpty C x) then None
         else Some ((accView C S x)\<lparr>v_root := if isDirty x then committedRoot C S x else m_storageRoot x\<rparr>))"
  proof (cases behaviour)
    case RemoveEmptyAccounts
    then have T: "T = removeEmptyAccounts C S" by (simp add: T_def)
    show ?thesis unfolding T committed_removeEmpty
      using RemoveEmptyAccounts by (cases "eff S a") (auto simp: committedView_def)
  qed (simp add: T_def committedView_def split: option.split)
  finally show "viewOf C (commit C order behaviour S) a = \<dots>" .
qed

lemma commit_writes_view_witness:
  "\<exists>S. addBalance countCrypto 1 5 sampleState = Inr S \<and>
     w_balance (viewOf countCrypto (commit countCrypto [1] RemoveEmptyAccounts S)) 1 = 105 \<and>
     w_code (viewOf countCrypto (commit countCrypto [1] RemoveEmptyAccounts S)) 1 = [0x60, 0]"
proof -
  obtain S where S: "addBalance countCrypto 1 5 sampleState = Inr S" using sample_step by blast
  have r: "reached countCrypto S" unfolding reached_def
    using sample_opened run_step [OF run_refl state_step.intros(10), of countCrypto 1 5 sampleState S] S by blast
  let ?x = "acc_addBalance 5 (loadedAccount (3, 100, 16, 2))"
  have c: "m_cache S = [1 \<mapsto> ?x]" and db: "m_state S = m_state sampleState" "m_dbStorage S = m_dbStorage sampleState"
      "m_dbCode S = m_dbCode sampleState"
    using S by (auto simp: sample_simps)
  have ne: "\<not> acc_isEmpty countCrypto ?x" by (simp add: sample_simps)
  then have T: "removeEmptyAccounts countCrypto S = S" using c
    by (cases S) (auto simp: removeEmptyAccounts_def fun_eq_iff)
  have e: "eff S = [1 \<mapsto> ?x]" using c db by (auto simp: eff_def sampleState_def fun_eq_iff split: option.split)
  then have "live S = {?x}" by (auto simp: live_def split: if_splits)
  moreover have "storageContents S ?x = (\<lambda>k. if k = 0 then 9 else 0)"
    by (simp add: storageContents_def db fun_eq_iff sample_simps)
  moreover have "acc_code countCrypto S ?x = [0x60, 0]" by (simp add: acc_code_def db sample_simps)
  ultimately have "no_collisions countCrypto S"
    by (simp add: no_collisions_def) (simp add: db sample_simps)
  then have "no_collisions countCrypto (if RemoveEmptyAccounts = RemoveEmptyAccounts then removeEmptyAccounts countCrypto S else S)"
    by (simp add: T)
  from commit_writes_view [OF r _ this, where suicides = "[]" and order = "[1]"] c
  have "viewOf countCrypto (commit countCrypto [1] RemoveEmptyAccounts S) 1 =
      Some ((accView countCrypto S ?x)\<lparr>v_root := committedRoot countCrypto S ?x\<rparr>)"
    using ne by (simp add: e sample_simps)
  then show ?thesis using S \<open>acc_code countCrypto S ?x = [0x60, 0]\<close>
    by (auto simp: w_balance_def w_code_def loadedAccount_def acc_addBalance_def acc_changed_def)
qed

end
