(* ===== verification/Rlp_Fields.thy ===== *)
theory Rlp_Fields
  imports Rlp_Stream
begin

section \<open>Objects written as lists of fields\<close>

text \<open>
  Transactions and block headers are lists of integers and byte strings, written one field at a
  time and read by index. The appends write the encoding of the list of their items, and reading
  by index gives the items back, whatever the state of the cache.
\<close>

definition intItem :: "nat \<Rightarrow> rlp_item" where
  "intItem n = Str (toBigEndian (byteCount n) n)"

lemma append_bigint_item:
  assumes "byteCount n < 2 ^ 32"
  shows "append_bigint s n = append_item s (intItem n)"
proof -
  have n64: "byteCount n < 2 ^ 64" using assms by simp
  note brbr = byteCount_64 [OF n64] and count = bytesRequired_count [OF assms] bytesRequired_64 [OF n64]
  have e: "append_item s (intItem n) = noteAppended (s\<lparr>m_out := m_out s @ encStr (toBigEndian (byteCount n) n)\<rparr>) 1"
    using n64 by (simp add: intItem_def append_bytes_enc)
  consider (zero) "n = 0" | (small) "0 < n" "n < 128" | (mid) "128 \<le> n" "byteCount n < 56"
    | (big) "128 \<le> n" "56 \<le> byteCount n" by linarith
  then show ?thesis unfolding e
  proof cases
    case zero
    then show "append_bigint s n = noteAppended (s\<lparr>m_out := m_out s @ encStr (toBigEndian (byteCount n) n)\<rparr>) 1"
      by (simp add: append_bigint_def push_back_def encStr_def header_def)
  next
    case small
    then have "byteCount n = 1" by (simp add: byteCount_pos)
    with small show "append_bigint s n = noteAppended (s\<lparr>m_out := m_out s @ encStr (toBigEndian (byteCount n) n)\<rparr>) 1"
      by (simp add: append_bigint_def push_back_def encStr_def count)
  next
    case mid
    have "\<not> (byteCount n = 1 \<and> byteAt (toBigEndian (byteCount n) n) 0 < 128)"
    proof
      assume a: "byteCount n = 1 \<and> byteAt (toBigEndian (byteCount n) n) 0 < 128"
      then have "n < 256 ^ 1" using less_256_pow_byteCount [of n] by simp
      moreover have "byteAt (toBigEndian (Suc 0) n) 0 < 128" using a by (metis One_nat_def)
      ultimately show False using mid(1) by simp
    qed
    then have en: "encStr (toBigEndian (byteCount n) n) = header 128 183 (byteCount n) @ toBigEndian (byteCount n) n"
      by (simp only: encStr_def length_toBigEndian if_False)
    from mid show "append_bigint s n = noteAppended (s\<lparr>m_out := m_out s @ encStr (toBigEndian (byteCount n) n)\<rparr>) 1"
      unfolding en by (simp add: append_bigint_def push_back_def header_def pushInt_exact count Let_def add.commute)
  next
    case big
    with brbr show "append_bigint s n = noteAppended (s\<lparr>m_out := m_out s @ encStr (toBigEndian (byteCount n) n)\<rparr>) 1"
      by (simp add: append_bigint_def push_back_def encStr_def header_def pushInt_exact count Let_def add.commute)
  qed
qed

lemma byteCount_256: "n < 2 ^ 256 \<Longrightarrow> byteCount n \<le> 32"
proof -
  assume "n < 2 ^ 256"
  moreover have "(2::nat) ^ 256 = 256 ^ 32" by simp
  ultimately show ?thesis by (simp add: byteCount_le_iff del: power_numeral)
qed

lemma append_word_item: "append_bigint s (unat (w :: u256)) = append_item s (intItem (unat w))"
proof -
  have "byteCount (unat w) \<le> 32" using unsigned_less [of w] by (intro byteCount_256) simp
  then have "byteCount (unat w) < 2 ^ 32" by simp
  then show ?thesis by (rule append_bigint_item)
qed

lemma append_small_item: "n < 2 ^ 64 \<Longrightarrow> append_bigint s n = append_item s (intItem n)"
  by (rule append_bigint_item) (use byteCount_64 [of n] in simp)

lemma fits_intItem: "n < 2 ^ 256 \<Longrightarrow> fits (intItem n)"
  using byteCount_256 [of n] by (simp add: intItem_def)

lemma fits_unat [simp]: "fits (intItem (unat (w :: u256)))"
  using unsigned_less [of w] by (intro fits_intItem) simp

lemma toInt_intItem:
  assumes "n < 256 ^ k" "n < 2 ^ 256"
  shows "toInt (Some k) (enc (intItem n)) flags = Inr n"
proof -
  have hd: "hd (toBigEndian (byteCount n) n) \<noteq> 0" if "toBigEndian (byteCount n) n \<noteq> []"
    using that hd_toBigEndian_byteCount [of n] by (cases "n = 0") auto
  have k: "byteCount n \<le> k" using assms(1) by (simp add: byteCount_le_iff)
  have "toInt (Some k) (enc (intItem n)) flags = Inr (fromBigEndian (toBigEndian (byteCount n) n))"
    unfolding intItem_def by (rule toInt_enc_Str) (use hd k fits_intItem [OF assms(2)] in \<open>simp_all add: intItem_def\<close>)
  then show ?thesis using less_256_pow_byteCount [of n] by (simp add: fromBigEndian_toBigEndian)
qed

lemma isEmpty_Str: "fits (Str bs) \<Longrightarrow> isEmpty (enc (Str bs)) \<longleftrightarrow> bs = []"
proof -
  assume f: "fits (Str bs)"
  note p = enc_Str_payload [OF f]
  have n: "length bs < 2 ^ 64" using f by simp
  show ?thesis
  proof (cases "length bs = 1 \<and> byteAt bs 0 < 128")
    case True
    then show ?thesis by (auto simp: encStr_def isEmpty_def isNull_def)
  next
    case False
    then have e: "enc (Str bs) = header 128 183 (length bs) @ bs" by (simp only: enc.simps encStr_def if_False)
    have "\<not> isNull (enc (Str bs))" using p(2) by (simp add: isData_def)
    then show ?thesis unfolding e isEmpty_def using byteAt_header [OF n, of 128 183 bs] byteCount_64 [OF n]
      by auto
  qed
qed

lemma toHash_Str: "fits (Str bs) \<Longrightarrow> length bs = n \<Longrightarrow> toHash n (enc (Str bs)) flags = Inr bs"
  using enc_Str_payload [of bs] requireGood_enc_Str [of bs] by (simp add: toHash_def)

lemma length_encStr: "length bs < 2 ^ 64 \<Longrightarrow> length (enc (Str bs)) \<le> length bs + 9"
  using byteCount_64 [of "length bs"] by (simp add: encStr_def length_header)

lemma length_intItem: "n < 2 ^ 256 \<Longrightarrow> length (enc (intItem n)) \<le> 41"
  using length_encStr [of "toBigEndian (byteCount n) n"] byteCount_256 [of n]
  by (simp add: intItem_def del: enc.simps)

text \<open>The list itself.\<close>

lemma enc_list_facts:
  assumes "fits (Lst xs)"
  shows "mkRLP (enc (Lst xs)) VeryStrict = Inr (freshRLP (enc (Lst xs)))"
    and "isList (enc (Lst xs))"
    and "payload (enc (Lst xs)) = Inr (concat (map enc xs))"
    and "splitItems (concat (map enc xs)) = Inr (map enc xs)"
    and "itemCount (enc (Lst xs)) = Inr (length xs)"
proof -
  have sz: "actualSize (enc (Lst xs)) = Inr (length (enc (Lst xs)))" using actualSize_enc [OF assms, of "[]"] by (simp only: append_Nil2)
  show "mkRLP (enc (Lst xs)) VeryStrict = Inr (freshRLP (enc (Lst xs)))" by (simp add: mkRLP_VeryStrict sz del: enc.simps)
  have n: "length (concat (map enc xs)) < 2 ^ 64 - 257" using assms by simp
  note r = read_list_header [OF n, of "concat (map enc xs)"]
  show l: "isList (enc (Lst xs))" using r by (simp add: Let_def)
  show p: "payload (enc (Lst xs)) = Inr (concat (map enc xs))"
    using payload_exact [OF sz] r by (simp add: Let_def)
  show s: "splitItems (concat (map enc xs)) = Inr (map enc xs)" using assms by (intro splitItems_enc) simp
  show "itemCount (enc (Lst xs)) = Inr (length xs)"
    using l p s by (simp add: itemCount_def items_def countItems_splitItems)
qed

subsection \<open>Reading by index\<close>

text \<open>A field is read through \<open>operator[]\<close>, whose cache the object keeps.\<close>

definition fieldAt :: "nat \<Rightarrow> (bytes \<Rightarrow> rlp_error + 'a) \<Rightarrow> rlp \<Rightarrow> rlp_error + 'a \<times> rlp" where
  "fieldAt i conv r =
     (case rlp_at r i of
        (Inl e, _) \<Rightarrow> Inl e
      | (Inr x, r') \<Rightarrow> andThen (conv (m_data x)) (\<lambda>v. Inr (v, r')))"

definition toU256 :: "bytes \<Rightarrow> rlp_error + u256" where
  "toU256 d = andThen (toInt (Some 32) d Strict) (\<lambda>n. Inr (word_of_nat n))"

definition toAddress :: "bytes \<Rightarrow> rlp_error + address" where
  "toAddress d = andThen (toHash 20 d VeryStrict) (\<lambda>bs. Inr (word_of_nat (fromBigEndian bs)))"

definition listed :: "bytes list \<Rightarrow> rlp \<Rightarrow> bool" where
  "listed xs r \<longleftrightarrow> cache_ok xs r \<and> (\<exists>p. payload (m_data r) = Inr p \<and> splitItems p = Inr xs)"

lemma listed_enc: "fits (Lst xs) \<Longrightarrow> listed (map enc xs) (freshRLP (enc (Lst xs)))"
  using enc_list_facts(3,4) [of xs] by (simp add: listed_def cache_ok_fresh del: enc.simps)

lemma fieldAt_listed:
  assumes "listed xs r" "i < length xs" "i < 100" "conv (xs ! i) = Inr v"
  shows "\<exists>r'. fieldAt i conv r = Inr (v, r') \<and> listed xs r'"
proof -
  obtain p where p: "payload (m_data r) = Inr p" "splitItems p = Inr xs" "cache_ok xs r"
    using assms(1) by (auto simp: listed_def)
  have "i < 2 ^ 64 - 1" using assms(3) by simp
  from rlp_at_items [OF p this] assms(2) obtain r' where
    r': "rlp_at r i = (Inr (freshRLP (xs ! i)), r')" "cache_ok xs r'" "m_data r' = m_data r" by auto
  have "fieldAt i conv r = Inr (v, r')" using r'(1) assms(4) by (simp add: fieldAt_def freshRLP_def)
  moreover have "listed xs r'" using p r' by (auto simp: listed_def)
  ultimately show ?thesis by blast
qed

lemma toU256_item [simp]: "toU256 (enc (intItem (unat (w :: u256)))) = Inr w"
  using unsigned_less [of w, where ?'a = nat] by (simp add: toU256_def toInt_intItem)

end
