(* ===== verification/Transaction_Base.thy ===== *)
theory Transaction_Base
  imports Rlp_Fields Evm_Schedule
begin

section \<open>Transactions (libethcore/TransactionBase.h, TransactionBase.cpp)\<close>

text \<open>
  The transaction object: its constructor from RLP with the checks of the signature, its writer,
  its hash, its sender, and the checks the client makes of it. The elliptic curve is code of the
  library secp256k1: signing and recovering a public key are fields of the record \<open>keys\<close>, and
  the hash is an argument.
\<close>

record SignatureStruct =
  sig_r :: h256
  sig_s :: h256
  sig_v :: byte

datatype transaction_type = NullTransaction | ContractCreation | MessageCall

datatype check_transaction = CheckSigNone | CheckSigCheap | CheckSigEverything

datatype tx_exception = TxRlp rlp_error | InvalidTransactionFormat | InvalidSignature | TransactionIsUnsigned

record Transaction =
  t_type :: transaction_type
  t_nonce :: u256
  t_value :: u256
  t_receiveAddress :: address
  t_gasPrice :: u256
  t_gas :: u256
  t_data :: bytes
  t_vrs :: "SignatureStruct option"
  t_chainId :: int
  t_hashWith :: h256
  t_sender :: "address option"

record keys =
  k_recover :: "SignatureStruct \<Rightarrow> h256 \<Rightarrow> bytes"
  k_sign :: "h256 \<Rightarrow> h256 \<Rightarrow> SignatureStruct"

definition nullTransaction :: Transaction where
  "nullTransaction =
     \<lparr>t_type = NullTransaction, t_nonce = 0, t_value = 0, t_receiveAddress = 0, t_gasPrice = 0, t_gas = 0,
      t_data = [], t_vrs = None, t_chainId = - 4, t_hashWith = 0, t_sender = None\<rparr>"

definition secp256k1n :: u256 where
  "secp256k1n = 115792089237316195423570985008687907852837564279074904382605163141518161494337"

text \<open>\<open>SignatureStruct::isValid\<close>: the bound is the order of the curve.\<close>

definition sigMax :: h256 where
  "sigMax = 0xfffffffffffffffffffffffffffffffebaaedce6af48a03bbfd25e8cd0364141"

definition sig_isValid :: "SignatureStruct \<Rightarrow> bool" where
  "sig_isValid g \<longleftrightarrow> sig_v g \<le> 1 \<and> sig_r g > 0 \<and> sig_s g > 0 \<and> sig_r g < sigMax \<and> sig_s g < sigMax"

definition MaxAddress :: address where
  "MaxAddress = - 1"

text \<open>\<open>right160\<close>: the last twenty bytes.\<close>

definition right160 :: "h256 \<Rightarrow> address" where
  "right160 h = ucast h"

subsection \<open>Queries\<close>

definition isCreation :: "Transaction \<Rightarrow> bool" where
  "isCreation t \<longleftrightarrow> t_type t = ContractCreation"

definition tx_nonnull :: "Transaction \<Rightarrow> bool" where
  "tx_nonnull t \<longleftrightarrow> t_type t \<noteq> NullTransaction"

definition isZeroSignature :: "h256 \<Rightarrow> h256 \<Rightarrow> bool" where
  "isZeroSignature r s \<longleftrightarrow> r = 0 \<and> s = 0"

definition hasSignature :: "Transaction \<Rightarrow> bool" where
  "hasSignature t \<longleftrightarrow> t_vrs t \<noteq> None"

definition hasZeroSignature :: "Transaction \<Rightarrow> bool" where
  "hasZeroSignature t \<longleftrightarrow> (case t_vrs t of Some g \<Rightarrow> isZeroSignature (sig_r g) (sig_s g) | None \<Rightarrow> False)"

definition isReplayProtected :: "Transaction \<Rightarrow> bool" where
  "isReplayProtected t \<longleftrightarrow> t_chainId t \<noteq> - 4"

definition signature :: "Transaction \<Rightarrow> tx_exception + SignatureStruct" where
  "signature t = (case t_vrs t of None \<Rightarrow> Inl TransactionIsUnsigned | Some g \<Rightarrow> Inr g)"

definition checkLowS :: "Transaction \<Rightarrow> tx_exception + unit" where
  "checkLowS t =
     (case t_vrs t of
        None \<Rightarrow> Inl TransactionIsUnsigned
      | Some g \<Rightarrow> throwIf (sig_s g > secp256k1n div 2) InvalidSignature)"

definition checkChainId :: "int \<Rightarrow> Transaction \<Rightarrow> tx_exception + unit" where
  "checkChainId chainId t = throwIf (t_chainId t \<noteq> chainId \<and> t_chainId t \<noteq> - 4) InvalidSignature"

definition forceSender :: "address \<Rightarrow> Transaction \<Rightarrow> Transaction" where
  "forceSender a t = t\<lparr>t_sender := Some a\<rparr>"

text \<open>\<open>clearSignature\<close> assigns a default-constructed signature, not an empty optional.\<close>

definition clearSignature :: "Transaction \<Rightarrow> Transaction" where
  "clearSignature t = t\<lparr>t_vrs := Some \<lparr>sig_r = 0, sig_s = 0, sig_v = 0\<rparr>\<rparr>"

definition tx_setNonce :: "u256 \<Rightarrow> Transaction \<Rightarrow> Transaction" where
  "tx_setNonce n t = (clearSignature t)\<lparr>t_nonce := n\<rparr>"

text \<open>\<open>operator==\<close>.\<close>

definition tx_equal :: "Transaction \<Rightarrow> Transaction \<Rightarrow> bool" where
  "tx_equal t c \<longleftrightarrow>
     t_type t = t_type c \<and> (t_type t = ContractCreation \<or> t_receiveAddress t = t_receiveAddress c) \<and>
     t_value t = t_value c \<and> t_data t = t_data c"

text \<open>The gas a transaction costs before it runs; an \<open>int64_t\<close> that data of a sane length cannot overflow.\<close>

definition baseGasRequired :: "bool \<Rightarrow> bytes \<Rightarrow> EVMSchedule \<Rightarrow> int" where
  "baseGasRequired contractCreation bs es =
     foldl (\<lambda>g i. g + int (if i \<noteq> 0 then txDataNonZeroGas es else txDataZeroGas es))
       (int (if contractCreation then txCreateGas es else txGas es)) bs"

definition tx_baseGas :: "Transaction \<Rightarrow> EVMSchedule \<Rightarrow> int" where
  "tx_baseGas t es = baseGasRequired (isCreation t) (t_data t) es"

subsection \<open>Writing\<close>

text \<open>\<open>operator<<\<close> at the types used: integers go through \<open>bigint\<close>, an \<open>int\<close> first becomes \<open>unsigned\<close>.\<close>

definition append_u256 :: "u256 \<Rightarrow> rlp_stream \<Rightarrow> rlp_error + rlp_stream" where
  "append_u256 v s = append_bigint s (unat v)"

definition append_int :: "int \<Rightarrow> rlp_stream \<Rightarrow> rlp_error + rlp_stream" where
  "append_int i s = append_bigint s (nat (i mod 2 ^ 32))"

definition append_address :: "address \<Rightarrow> rlp_stream \<Rightarrow> rlp_error + rlp_stream" where
  "append_address a s = append_bytes s (toBigEndian 20 (unat a)) False"

definition append_data :: "bytes \<Rightarrow> rlp_stream \<Rightarrow> rlp_error + rlp_stream" where
  "append_data bs s = append_bytes s bs False"

definition liftRlp :: "rlp_error + 'a \<Rightarrow> tx_exception + 'a" where
  "liftRlp r = (case r of Inl e \<Rightarrow> Inl (TxRlp e) | Inr x \<Rightarrow> Inr x)"

definition vOffset :: "Transaction \<Rightarrow> int" where
  "vOffset t = t_chainId t * 2 + 35"

definition streamFields :: "Transaction \<Rightarrow> nat \<Rightarrow> rlp_stream \<Rightarrow> rlp_error + rlp_stream" where
  "streamFields t n s =
     andThen (appendList s n) (\<lambda>s.
     andThen (append_u256 (t_nonce t) s) (\<lambda>s.
     andThen (append_u256 (t_gasPrice t) s) (\<lambda>s.
     andThen (append_u256 (t_gas t) s) (\<lambda>s.
     andThen (if t_type t = MessageCall then append_address (t_receiveAddress t) s else append_data [] s) (\<lambda>s.
     andThen (append_u256 (t_value t) s) (append_data (t_data t)))))))"

definition tx_streamRLP :: "Transaction \<Rightarrow> bool \<Rightarrow> bool \<Rightarrow> rlp_stream \<Rightarrow> tx_exception + rlp_stream" where
  "tx_streamRLP t withSig forEip155hash s =
     (if t_type t = NullTransaction then Inr s
      else andThen (liftRlp (streamFields t ((if withSig \<or> forEip155hash then 3 else 0) + 6) s)) (\<lambda>s.
        if withSig
        then (case t_vrs t of
                None \<Rightarrow> Inl TransactionIsUnsigned
              | Some g \<Rightarrow> liftRlp (
                  andThen (if hasZeroSignature t then append_int (t_chainId t) s
                           else append_int (int (unat (sig_v g)) + vOffset t) s) (\<lambda>s.
                  andThen (append_u256 (sig_r g) s) (append_u256 (sig_s g)))))
        else if forEip155hash
        then liftRlp (andThen (append_int (t_chainId t) s) (\<lambda>s. andThen (append_int 0 s) (append_int 0)))
        else Inr s))"

definition tx_rlp :: "Transaction \<Rightarrow> bool \<Rightarrow> tx_exception + bytes" where
  "tx_rlp t withSig = andThen (tx_streamRLP t withSig False emptyStream) (\<lambda>s. liftRlp (stream_out s))"

text \<open>The hash with the signature is remembered; zero stands for not known.\<close>

definition tx_sha3 :: "(bytes \<Rightarrow> h256) \<Rightarrow> Transaction \<Rightarrow> bool \<Rightarrow> tx_exception + h256 \<times> Transaction" where
  "tx_sha3 sha3 t withSig =
     (if withSig \<and> t_hashWith t \<noteq> 0 then Inr (t_hashWith t, t)
      else andThen (tx_streamRLP t withSig (t_chainId t > 0 \<and> \<not> withSig) emptyStream) (\<lambda>s.
           andThen (liftRlp (stream_out s)) (\<lambda>bs.
           Inr (sha3 bs, if withSig then t\<lparr>t_hashWith := sha3 bs\<rparr> else t))))"

text \<open>\<open>sender\<close> remembers its result in \<open>m_sender\<close>; the remembered value is the one computed.\<close>

definition sender :: "(bytes \<Rightarrow> h256) \<Rightarrow> keys \<Rightarrow> Transaction \<Rightarrow> tx_exception + address" where
  "sender sha3 K t =
     (case t_sender t of
        Some a \<Rightarrow> Inr a
      | None \<Rightarrow>
          if hasZeroSignature t then Inr MaxAddress
          else (case t_vrs t of
                  None \<Rightarrow> Inl TransactionIsUnsigned
                | Some g \<Rightarrow>
                    andThen (tx_sha3 sha3 t False) (\<lambda>(h, _).
                    let p = k_recover K g h in
                    if list_all (\<lambda>b. b = 0) p then Inl InvalidSignature
                    else Inr (right160 (sha3 p)))))"

definition safeSender :: "(bytes \<Rightarrow> h256) \<Rightarrow> keys \<Rightarrow> Transaction \<Rightarrow> address" where
  "safeSender sha3 K t = (case sender sha3 K t of Inl _ \<Rightarrow> 0 | Inr a \<Rightarrow> a)"

definition tx_sign :: "(bytes \<Rightarrow> h256) \<Rightarrow> keys \<Rightarrow> h256 \<Rightarrow> Transaction \<Rightarrow> tx_exception + Transaction" where
  "tx_sign sha3 K priv t =
     andThen (tx_sha3 sha3 t False) (\<lambda>(h, _).
     let g = k_sign K priv h in Inr (if sig_isValid g then t\<lparr>t_vrs := Some g\<rparr> else t))"

subsection \<open>Reading\<close>

text \<open>\<open>toInt<int>\<close>: the 32 bits as a signed number.\<close>

definition toSigned32 :: "bytes \<Rightarrow> rlp_error + int" where
  "toSigned32 d = andThen (toInt (Some 4) d Strict) (\<lambda>n. Inr (if n < 2 ^ 31 then int n else int n - 2 ^ 32))"

definition receiverOf :: "bytes \<Rightarrow> rlp_error + transaction_type \<times> address" where
  "receiverOf d =
     (if isEmpty d then Inr (ContractCreation, 0)
      else andThen (toAddress d) (\<lambda>a. Inr (MessageCall, a)))"

definition dataOf :: "bytes \<Rightarrow> rlp_error + bytes option" where
  "dataOf d = (if \<not> isData d then Inr None else andThen (toBytes d LaissezFaire) (\<lambda>bs. Inr (Some bs)))"

text \<open>The chain id and the signature from the fields \<open>v\<close>, \<open>r\<close> and \<open>s\<close>; \<open>/\<close> truncates, of a positive number here.\<close>

definition readSignature :: "check_transaction \<Rightarrow> int \<Rightarrow> h256 \<Rightarrow> h256 \<Rightarrow> tx_exception + int \<times> SignatureStruct" where
  "readSignature check v r s =
     (if isZeroSignature r s then Inr (v, \<lparr>sig_r = r, sig_s = s, sig_v = 0\<rparr>)
      else andThen (if v > 36 then Inr ((v - 35) div 2)
                    else if v = 27 \<or> v = 28 then Inr (- 4)
                    else Inl InvalidSignature) (\<lambda>chainId.
        let g = \<lparr>sig_r = r, sig_s = s, sig_v = word_of_int (v - (chainId * 2 + 35))\<rparr> in
        if check \<noteq> CheckSigNone \<and> \<not> sig_isValid g then Inl InvalidSignature else Inr (chainId, g)))"

definition txField :: "nat \<Rightarrow> (bytes \<Rightarrow> rlp_error + 'a) \<Rightarrow> rlp \<Rightarrow> tx_exception + 'a \<times> rlp" where
  "txField i conv r = liftRlp (fieldAt i conv r)"

definition readFields :: "check_transaction \<Rightarrow> bytes \<Rightarrow> tx_exception + Transaction" where
  "readFields check d =
     andThen (liftRlp (mkRLP d VeryStrict)) (\<lambda>rlp.
     if \<not> isList (m_data rlp) then Inl InvalidTransactionFormat
     else
     andThen (txField 0 toU256 rlp) (\<lambda>(nonce, rlp).
     andThen (txField 1 toU256 rlp) (\<lambda>(gasPrice, rlp).
     andThen (txField 2 toU256 rlp) (\<lambda>(gas, rlp).
     andThen (txField 3 receiverOf rlp) (\<lambda>((ty, rcv), rlp).
     andThen (txField 4 toU256 rlp) (\<lambda>(val, rlp).
     andThen (txField 5 dataOf rlp) (\<lambda>(dat, rlp).
     case dat of
       None \<Rightarrow> Inl InvalidTransactionFormat
     | Some bs \<Rightarrow>
     andThen (txField 6 toSigned32 rlp) (\<lambda>(v, rlp).
     andThen (txField 7 toU256 rlp) (\<lambda>(r, rlp).
     andThen (txField 8 toU256 rlp) (\<lambda>(s, rlp).
     andThen (readSignature check v r s) (\<lambda>(chainId, g).
     Inr (nullTransaction\<lparr>t_nonce := nonce, t_gasPrice := gasPrice, t_gas := gas, t_type := ty,
            t_receiveAddress := rcv, t_value := val, t_data := bs, t_chainId := chainId, t_vrs := Some g\<rparr>))))))))))))"

definition txFromRLP :: "(bytes \<Rightarrow> h256) \<Rightarrow> keys \<Rightarrow> bytes \<Rightarrow> check_transaction \<Rightarrow> tx_exception + Transaction" where
  "txFromRLP sha3 K d check =
     andThen (readFields check d) (\<lambda>t.
     andThen (if check = CheckSigEverything then andThen (sender sha3 K t) (\<lambda>a. Inr (t\<lparr>t_sender := Some a\<rparr>)) else Inr t) (\<lambda>t.
     andThen (liftRlp (itemCount d)) (\<lambda>n.
     if n > 9 then Inl InvalidTransactionFormat else Inr t)))"

end
