(* ===== verification/Transaction_Codec.thy ===== *)
theory Transaction_Codec
  imports Transaction_Base
begin

section \<open>Reading back the transactions that were written\<close>

text \<open>
  The writer of a signed transaction produces the encoding of a list of nine items; reading it
  by index gives the transaction back, for every transaction that a reader accepts.
\<close>

subsection \<open>The items written\<close>

definition receiverItem :: "Transaction \<Rightarrow> rlp_item" where
  "receiverItem t = Str (if t_type t = MessageCall then toBigEndian 20 (unat (t_receiveAddress t)) else [])"

definition fieldItems :: "Transaction \<Rightarrow> rlp_item list" where
  "fieldItems t =
     [intItem (unat (t_nonce t)), intItem (unat (t_gasPrice t)), intItem (unat (t_gas t)), receiverItem t,
      intItem (unat (t_value t)), Str (t_data t)]"

definition sigV :: "Transaction \<Rightarrow> SignatureStruct \<Rightarrow> int" where
  "sigV t g = (if hasZeroSignature t then t_chainId t else int (unat (sig_v g)) + vOffset t)"

definition sigItems :: "Transaction \<Rightarrow> SignatureStruct \<Rightarrow> rlp_item list" where
  "sigItems t g =
     [intItem (nat (sigV t g mod 2 ^ 32)),
      intItem (unat (sig_r g)), intItem (unat (sig_s g))]"

definition txItem :: "Transaction \<Rightarrow> SignatureStruct \<Rightarrow> rlp_item" where
  "txItem t g = Lst (fieldItems t @ sigItems t g)"

lemma append_int_item: "append_int i = (\<lambda>s. append_item s (intItem (nat (i mod 2 ^ 32))))"
  unfolding append_int_def by (intro ext append_small_item) (simp add: nat_less_iff)

lemma append_u256_item: "append_u256 v = (\<lambda>s. append_item s (intItem (unat v)))"
  unfolding append_u256_def by (intro ext append_word_item)

lemma append_data_item: "append_data bs = (\<lambda>s. append_item s (Str bs))"
  by (intro ext) (simp add: append_data_def)

lemma streamFields_items: "streamFields t n s = andThen (appendList s n) (\<lambda>s. append_items s (fieldItems t))"
  by (simp add: streamFields_def fieldItems_def append_u256_item append_address_def append_data_item receiverItem_def
      andThen_assoc)

lemma liftRlp_andThen: "liftRlp (andThen m f) = andThen (liftRlp m) (\<lambda>x. liftRlp (f x))"
  by (cases m) (simp_all add: liftRlp_def)

lemma tx_streamRLP_item:
  assumes "t_type t \<noteq> NullTransaction" "t_vrs t = Some g"
  shows "tx_streamRLP t True False s = liftRlp (append_item s (txItem t g))"
proof -
  have "tx_streamRLP t True False s =
      liftRlp (andThen (andThen (appendList s 9) (\<lambda>s. append_items s (fieldItems t))) (\<lambda>s. append_items s (sigItems t g)))"
  proof -
    have "liftRlp (andThen (if hasZeroSignature t then append_int (t_chainId t) s
                           else append_int (int (unat (sig_v g)) + vOffset t) s) (\<lambda>s.
                  andThen (append_u256 (sig_r g) s) (append_u256 (sig_s g)))) = liftRlp (append_items s (sigItems t g))" for s
      by (simp add: sigItems_def sigV_def append_int_item append_u256_item)
    then show ?thesis using assms
      by (simp only: tx_streamRLP_def streamFields_items liftRlp_andThen if_False if_True option.case simp_thms) simp
  qed
  moreover have "length (fieldItems t @ sigItems t g) = 9" by (simp add: fieldItems_def sigItems_def)
  ultimately show ?thesis by (simp only: txItem_def append_item.simps andThen_assoc append_items_append)
qed

lemma tx_rlp_item:
  assumes "t_type t \<noteq> NullTransaction" "t_vrs t = Some g" "fits (txItem t g)"
  shows "tx_rlp t True = Inr (enc (txItem t g))"
proof -
  have "tx_rlp t True = liftRlp (rlp_of (txItem t g))"
    by (simp add: tx_rlp_def tx_streamRLP_item [OF assms(1,2)] rlp_of_def liftRlp_andThen)
  then show ?thesis by (simp add: rlp_of_enc [OF assms(3)] liftRlp_def)
qed

subsection \<open>Reading them\<close>

lemma txField_listed:
  assumes "listed xs r" "i < length xs" "i < 100" "conv (xs ! i) = Inr v"
  shows "\<exists>r'. txField i conv r = Inr (v, r') \<and> listed xs r'"
  using fieldAt_listed [where conv = conv, OF assms] by (auto simp: txField_def liftRlp_def)

lemma toSigned32_item:
  assumes "0 \<le> i" "i < 2 ^ 31"
  shows "toSigned32 (enc (intItem (nat i))) = Inr i"
proof -
  have "nat i < 2 ^ 31" using assms by (simp add: nat_less_iff)
  then show ?thesis using assms by (simp add: toSigned32_def toInt_intItem)
qed

lemma receiverOf_item:
  assumes "t_type t \<noteq> NullTransaction" "t_type t = ContractCreation \<Longrightarrow> t_receiveAddress t = 0"
  shows "receiverOf (enc (receiverItem t)) = Inr (t_type t, t_receiveAddress t)"
proof -
  let ?bs = "if t_type t = MessageCall then toBigEndian 20 (unat (t_receiveAddress t)) else []"
  have f: "fits (Str ?bs)" by simp
  have e: "isEmpty (enc (Str ?bs)) \<longleftrightarrow> ?bs = []" by (rule isEmpty_Str [OF f])
  show ?thesis
  proof (cases "t_type t = MessageCall")
    case True
    have "toHash 20 (enc (Str ?bs)) VeryStrict = Inr ?bs" by (rule toHash_Str [OF f]) (simp add: True)
    moreover have "unat (t_receiveAddress t) < 256 ^ 20" using unsigned_less [of "t_receiveAddress t"] by simp
    ultimately show ?thesis using e True
      by (simp add: receiverOf_def receiverItem_def toAddress_def fromBigEndian_toBigEndian del: enc.simps)
        (metis length_toBigEndian list.size(3) zero_neq_numeral)
  next
    case False
    with assms have "t_type t = ContractCreation" "t_receiveAddress t = 0" by (cases "t_type t"; simp)+
    with False e show ?thesis by (simp add: receiverOf_def receiverItem_def del: enc.simps)
  qed
qed

lemma dataOf_item: "length bs < 2 ^ 64 - 257 \<Longrightarrow> dataOf (enc (Str bs)) = Inr (Some bs)"
  using enc_Str_payload(2) [of bs] toBytes_enc [of bs LaissezFaire] by (simp add: dataOf_def del: enc.simps)

subsection \<open>The round trip\<close>

text \<open>
  The transactions that a writer of the client makes and a reader accepts: signed by a key (with
  a chain id from \<open>1\<close> on, or the rules before \<open>EIP155\<close>) or by the zero signature.
\<close>

definition signatureReadable :: "check_transaction \<Rightarrow> Transaction \<Rightarrow> SignatureStruct \<Rightarrow> bool" where
  "signatureReadable check t g \<longleftrightarrow>
     (if isZeroSignature (sig_r g) (sig_s g) then sig_v g = 0 \<and> 0 \<le> t_chainId t \<and> t_chainId t < 2 ^ 31
      else sig_v g \<le> 1 \<and> (t_chainId t = - 4 \<or> 1 \<le> t_chainId t \<and> t_chainId t < 2 ^ 30 - 18) \<and>
           (check \<noteq> CheckSigNone \<longrightarrow> sig_isValid g))"

definition readableTx :: "check_transaction \<Rightarrow> Transaction \<Rightarrow> bool" where
  "readableTx check t \<longleftrightarrow>
     t_type t \<noteq> NullTransaction \<and> (t_type t = ContractCreation \<longrightarrow> t_receiveAddress t = 0) \<and>
     length (t_data t) < 2 ^ 63 \<and> t_hashWith t = 0 \<and> t_sender t = None \<and>
     (case t_vrs t of None \<Rightarrow> False | Some g \<Rightarrow> signatureReadable check t g)"

lemma fits_txItem:
  assumes "length (t_data t) < 2 ^ 63"
  shows "fits (txItem t g)"
proof -
  have w: "length (enc (intItem (unat (w :: u256)))) \<le> 41" for w
    using unsigned_less [of w, where ?'a = nat] by (intro length_intItem) simp
  have i: "nat (i mod 2 ^ 32) < 2 ^ 256" for i :: int
  proof -
    have "nat (i mod 2 ^ 32) < 2 ^ 32" by (simp add: nat_less_iff)
    then show ?thesis by simp
  qed
  have v: "length (enc (intItem (nat (i mod 2 ^ 32)))) \<le> 41" for i by (rule length_intItem [OF i])
  have d: "length (enc (Str (t_data t))) \<le> length (t_data t) + 9" using assms by (intro length_encStr) simp
  have r: "length (enc (receiverItem t)) \<le> 29"
    unfolding receiverItem_def using length_encStr [of "toBigEndian 20 (unat (t_receiveAddress t))"] length_encStr [of "[]"]
    by (cases "t_type t = MessageCall") (simp_all del: enc.simps)
  have "length (concat (map enc (fieldItems t @ sigItems t g))) \<le> 41 * 7 + 29 + length (t_data t) + 9"
    unfolding fieldItems_def sigItems_def using w [of "t_nonce t"] w [of "t_gasPrice t"] w [of "t_gas t"] w [of "t_value t"]
      w [of "sig_r g"] w [of "sig_s g"] v [of "sigV t g"] d r
    by (simp del: enc.simps)
  moreover have "\<forall>x \<in> set (fieldItems t @ sigItems t g). fits x"
    using assms fits_intItem [OF i] by (auto simp: fieldItems_def sigItems_def receiverItem_def)
  ultimately show ?thesis using assms by (simp add: txItem_def)
qed

lemma readSignature_back:
  assumes t: "t_vrs t = Some g" and g: "signatureReadable check t g"
  shows "readSignature check (sigV t g) (sig_r g) (sig_s g) = Inr (t_chainId t, g) \<and> 0 \<le> sigV t g \<and> sigV t g < 2 ^ 31"
proof (cases "isZeroSignature (sig_r g) (sig_s g)")
  case True
  then have "hasZeroSignature t" by (simp add: hasZeroSignature_def t)
  with True g show ?thesis by (simp add: sigV_def readSignature_def signatureReadable_def)
next
  case False
  then have nz: "\<not> hasZeroSignature t" by (simp add: hasZeroSignature_def t)
  define c where "c = t_chainId t"
  define b where "b = int (unat (sig_v g))"
  have c: "c = - 4 \<or> 1 \<le> c \<and> c < 2 ^ 30 - 18" and valid: "check \<noteq> CheckSigNone \<longrightarrow> sig_isValid g"
    and v1: "unat (sig_v g) \<le> 1"
    using False g by (simp_all add: signatureReadable_def c_def word_le_nat_alt)
  have b: "b = 0 \<or> b = 1" using v1 unfolding b_def by linarith
  have s: "sigV t g = b + (c * 2 + 35)" using nz by (simp add: sigV_def vOffset_def c_def b_def)
  have "(if sigV t g > 36 then Inr ((sigV t g - 35) div 2)
         else if sigV t g = 27 \<or> sigV t g = 28 then Inr (- 4) else Inl InvalidSignature) = Inr c"
  proof (cases "c = - 4")
    case True
    with b show ?thesis unfolding s by auto
  next
    case False
    with c have "sigV t g > 36" "(sigV t g - 35) div 2 = c" using b unfolding s by auto
    then show ?thesis by simp
  qed
  moreover have "word_of_int (sigV t g - (c * 2 + 35)) = sig_v g"
  proof -
    have "sigV t g - (c * 2 + 35) = int (unat (sig_v g))" unfolding s b_def by simp
    then show ?thesis by simp
  qed
  moreover have "\<lparr>sig_r = sig_r g, sig_s = sig_s g, sig_v = sig_v g\<rparr> = g" by (cases g) simp
  ultimately have "readSignature check (sigV t g) (sig_r g) (sig_s g) = Inr (c, g)"
    using False valid by (simp only: readSignature_def Let_def andThen_Inr if_False) auto
  moreover have "0 \<le> sigV t g \<and> sigV t g < 2 ^ 31" using c b unfolding s by auto
  ultimately show ?thesis by (simp add: c_def)
qed

text \<open>C25: A signed transaction written by \<open>streamRLP\<close> is read back by the constructor from RLP, with
  every check of the signature: the same type, nonce, price, gas, receiver, value, data, chain id
  and signature; where the signature is checked in full the sender found is remembered.\<close>

theorem tx_roundtrip:
  assumes "readableTx check t"
  shows "\<exists>bs. tx_rlp t True = Inr bs \<and>
    txFromRLP sha3 K bs check =
      (if check = CheckSigEverything then andThen (sender sha3 K t) (\<lambda>a. Inr (t\<lparr>t_sender := Some a\<rparr>)) else Inr t)"
proof -
  obtain g where g: "t_vrs t = Some g" "signatureReadable check t g"
    using assms by (auto simp: readableTx_def split: option.splits)
  have ty: "t_type t \<noteq> NullTransaction" "t_type t = ContractCreation \<Longrightarrow> t_receiveAddress t = 0"
    and len: "length (t_data t) < 2 ^ 63" and fresh: "t_hashWith t = 0" "t_sender t = None"
    using assms by (auto simp: readableTx_def)
  note f = fits_txItem [OF len, of g, unfolded txItem_def]
  note sb = readSignature_back [OF g]
  let ?xs = "fieldItems t @ sigItems t g"
  let ?bs = "enc (txItem t g)"
  have w: "tx_rlp t True = Inr ?bs" by (rule tx_rlp_item [OF ty(1) g(1) fits_txItem [OF len]])
  have l0: "listed (map enc ?xs) (freshRLP ?bs)" unfolding txItem_def by (rule listed_enc [OF f])
  have nth: "map enc ?xs ! 0 = enc (intItem (unat (t_nonce t)))" "map enc ?xs ! 1 = enc (intItem (unat (t_gasPrice t)))"
    "map enc ?xs ! 2 = enc (intItem (unat (t_gas t)))" "map enc ?xs ! 3 = enc (receiverItem t)"
    "map enc ?xs ! 4 = enc (intItem (unat (t_value t)))" "map enc ?xs ! 5 = enc (Str (t_data t))"
    "map enc ?xs ! 6 = enc (intItem (nat (sigV t g mod 2 ^ 32)))" "map enc ?xs ! 7 = enc (intItem (unat (sig_r g)))"
    "map enc ?xs ! 8 = enc (intItem (unat (sig_s g)))"
    by (simp_all add: fieldItems_def sigItems_def del: enc.simps)
  have n: "length (map enc ?xs) = 9" by (simp add: fieldItems_def sigItems_def)
  have v: "toSigned32 (map enc ?xs ! 6) = Inr (sigV t g)"
    unfolding nth using sb toSigned32_item [of "sigV t g"] by simp
  note rd = txField_listed [where xs = "map enc ?xs", unfolded n]
  obtain r1 where r1: "txField 0 toU256 (freshRLP ?bs) = Inr (t_nonce t, r1)" "listed (map enc ?xs) r1"
    using rd [OF l0, of 0 toU256] nth(1) by auto
  obtain r2 where r2: "txField 1 toU256 r1 = Inr (t_gasPrice t, r2)" "listed (map enc ?xs) r2"
    using rd [OF r1(2), of 1 toU256] nth(2) by auto
  obtain r3 where r3: "txField 2 toU256 r2 = Inr (t_gas t, r3)" "listed (map enc ?xs) r3"
    using rd [OF r2(2), of 2 toU256] nth(3) by auto
  obtain r4 where r4: "txField 3 receiverOf r3 = Inr ((t_type t, t_receiveAddress t), r4)" "listed (map enc ?xs) r4"
    using rd [OF r3(2), of 3 receiverOf] nth(4) receiverOf_item [OF ty] by auto
  obtain r5 where r5: "txField 4 toU256 r4 = Inr (t_value t, r5)" "listed (map enc ?xs) r5"
    using rd [OF r4(2), of 4 toU256] nth(5) by auto
  obtain r6 where r6: "txField 5 dataOf r5 = Inr (Some (t_data t), r6)" "listed (map enc ?xs) r6"
    using rd [OF r5(2), of 5 dataOf] nth(6) dataOf_item [of "t_data t"] len by auto
  obtain r7 where r7: "txField 6 toSigned32 r6 = Inr (sigV t g, r7)" "listed (map enc ?xs) r7"
    using rd [OF r6(2), of 6 toSigned32] v by auto
  obtain r8 where r8: "txField 7 toU256 r7 = Inr (sig_r g, r8)" "listed (map enc ?xs) r8"
    using rd [OF r7(2), of 7 toU256] nth(8) by auto
  obtain r9 where r9: "txField 8 toU256 r8 = Inr (sig_s g, r9)"
    using rd [OF r8(2), of 8 toU256] nth(9) by auto
  have "readFields check ?bs = Inr (nullTransaction\<lparr>t_nonce := t_nonce t, t_gasPrice := t_gasPrice t, t_gas := t_gas t,
      t_type := t_type t, t_receiveAddress := t_receiveAddress t, t_value := t_value t, t_data := t_data t,
      t_chainId := t_chainId t, t_vrs := Some g\<rparr>)"
    using enc_list_facts(1,2) [OF f] r1(1) r2(1) r3(1) r4(1) r5(1) r6(1) r7(1) r8(1) r9 sb
    by (simp add: readFields_def txItem_def liftRlp_def del: enc.simps)
  also have "\<dots> = Inr t" using g(1) fresh by (cases t) (simp add: nullTransaction_def)
  finally have "readFields check ?bs = Inr t" .
  moreover have "itemCount ?bs = Inr 9" using enc_list_facts(5) [OF f] n by (simp add: txItem_def del: enc.simps)
  ultimately have "txFromRLP sha3 K ?bs check =
      (if check = CheckSigEverything then andThen (sender sha3 K t) (\<lambda>a. Inr (t\<lparr>t_sender := Some a\<rparr>)) else Inr t)"
    by (cases "sender sha3 K t") (simp_all add: txFromRLP_def liftRlp_def del: enc.simps)
  with w show ?thesis by blast
qed

definition sampleTx :: Transaction where
  "sampleTx = nullTransaction\<lparr>t_type := MessageCall, t_nonce := 9, t_gasPrice := 20, t_gas := 21000,
     t_receiveAddress := 0x35, t_value := 1000, t_data := [1, 2], t_chainId := 1,
     t_vrs := Some \<lparr>sig_r = 7, sig_s = 8, sig_v = 1\<rparr>\<rparr>"

lemma tx_roundtrip_witness:
  "\<exists>bs. tx_rlp sampleTx True = Inr bs \<and>
     txFromRLP (\<lambda>_. 0) \<lparr>k_recover = (\<lambda>_ _. []), k_sign = (\<lambda>_ _. \<lparr>sig_r = 0, sig_s = 0, sig_v = 0\<rparr>)\<rparr> bs CheckSigCheap = Inr sampleTx"
proof -
  have "readableTx CheckSigCheap sampleTx"
    by (simp add: readableTx_def sampleTx_def nullTransaction_def signatureReadable_def isZeroSignature_def
        sig_isValid_def sigMax_def)
  from tx_roundtrip [OF this, of "\<lambda>_. 0"] show ?thesis by simp
qed

subsection \<open>The signature after a change of the nonce\<close>

text \<open>C30: \<open>setNonce\<close> does not leave the transaction unsigned, as its comment says: it then carries
  the zero signature, so that \<open>hasSignature\<close> is true and, unless the sender is remembered, it
  counts as sent by the address \<open>MaxAddress\<close>; and a hash remembered before is still returned.\<close>

theorem setNonce_zero_signature:
  "hasSignature (tx_setNonce n t) \<and> hasZeroSignature (tx_setNonce n t) \<and>
   sender sha3 K (tx_setNonce n t) = Inr (case t_sender t of None \<Rightarrow> MaxAddress | Some a \<Rightarrow> a) \<and>
   (t_hashWith t = 0 \<or> tx_sha3 sha3 (tx_setNonce n t) True = Inr (t_hashWith t, tx_setNonce n t))"
  by (simp add: tx_setNonce_def clearSignature_def hasSignature_def hasZeroSignature_def isZeroSignature_def
      sender_def tx_sha3_def split: option.split)

end
