(* ===== verification/Block_Header.thy ===== *)
theory Block_Header
  imports Rlp_Fields
begin

section \<open>Block headers (libethcore/BlockHeader.h, BlockHeader.cpp)\<close>

text \<open>
  The header object: reading from RLP, writing with and without the seal, the remembered hashes,
  the header made from a parent, and the checks of \<open>verify\<close>. The hash function and the root of
  the trie over a list of transactions are arguments.
\<close>

datatype include_seal = WithoutSeal | WithSeal | OnlySeal

datatype verify_strictness = CheckEverything | QuickNonce | IgnoreSeal | CheckNothingNew

datatype block_data_type = HeaderData | BlockData

datatype header_exception =
  HeaderRlp rlp_error | InvalidBlockFormat | InvalidNumber | TooMuchGasUsed | InvalidParentHash | InvalidTimestamp
| InvalidTransactionsRoot | InvalidUnclesHash | InvalidDifficulty | InvalidGasLimit | ExtraDataTooBig
| ExtraDataIncorrect | GenesisBlockCannotBeCalculated | InvalidBlockNonce

type_synonym log_bloom = "2048 word"

text \<open>\<open>int64_t\<close> members are integers; the last two members are the remembered hashes, zero for none.\<close>

record BlockHeader =
  bh_parentHash :: h256
  bh_sha3Uncles :: h256
  bh_stateRoot :: h256
  bh_transactionsRoot :: h256
  bh_receiptsRoot :: h256
  bh_logBloom :: log_bloom
  bh_number :: int
  bh_gasLimit :: u256
  bh_gasUsed :: u256
  bh_extraData :: bytes
  bh_timestamp :: int
  bh_author :: address
  bh_difficulty :: u256
  bh_seal :: "bytes list"
  bh_hash :: h256
  bh_hashWithout :: h256

definition emptyHeader :: BlockHeader where
  "emptyHeader =
     \<lparr>bh_parentHash = 0, bh_sha3Uncles = 0, bh_stateRoot = 0, bh_transactionsRoot = 0, bh_receiptsRoot = 0,
      bh_logBloom = 0, bh_number = 0, bh_gasLimit = 0, bh_gasUsed = 0, bh_extraData = [], bh_timestamp = - 1,
      bh_author = 0, bh_difficulty = 0, bh_seal = [], bh_hash = 0, bh_hashWithout = 0\<rparr>"

definition bh_good :: "BlockHeader \<Rightarrow> bool" where
  "bh_good h \<longleftrightarrow> bh_timestamp h \<ge> 0"

definition noteDirty :: "BlockHeader \<Rightarrow> BlockHeader" where
  "noteDirty h = h\<lparr>bh_hash := 0, bh_hashWithout := 0\<rparr>"

text \<open>\<open>EmptyListSHA3\<close> and \<open>EmptyTrie\<close> are the hashes of the empty list and of the empty string.\<close>

definition EmptyListSHA3 :: "(bytes \<Rightarrow> h256) \<Rightarrow> h256" where
  "EmptyListSHA3 sha3 = sha3 [0xc0]"

definition bh_clear :: "(bytes \<Rightarrow> h256) \<Rightarrow> BlockHeader \<Rightarrow> BlockHeader" where
  "bh_clear sha3 h =
     noteDirty (h\<lparr>bh_parentHash := 0, bh_sha3Uncles := EmptyListSHA3 sha3, bh_author := 0,
       bh_stateRoot := sha3 [0x80], bh_transactionsRoot := sha3 [0x80], bh_receiptsRoot := sha3 [0x80],
       bh_logBloom := 0, bh_difficulty := 0, bh_number := 0, bh_gasLimit := 0, bh_gasUsed := 0,
       bh_timestamp := - 1, bh_extraData := [], bh_seal := []\<rparr>)"

definition bh_hasUncles :: "(bytes \<Rightarrow> h256) \<Rightarrow> BlockHeader \<Rightarrow> bool" where
  "bh_hasUncles sha3 h \<longleftrightarrow> bh_sha3Uncles h \<noteq> EmptyListSHA3 sha3"

definition setDifficulty :: "u256 \<Rightarrow> BlockHeader \<Rightarrow> BlockHeader" where
  "setDifficulty v h = noteDirty (h\<lparr>bh_difficulty := v\<rparr>)"

definition setGasLimit :: "u256 \<Rightarrow> BlockHeader \<Rightarrow> BlockHeader" where
  "setGasLimit v h = noteDirty (h\<lparr>bh_gasLimit := v\<rparr>)"

definition setTimestamp :: "int \<Rightarrow> BlockHeader \<Rightarrow> BlockHeader" where
  "setTimestamp v h = noteDirty (h\<lparr>bh_timestamp := v\<rparr>)"

definition setSeal :: "nat \<Rightarrow> bytes \<Rightarrow> BlockHeader \<Rightarrow> BlockHeader" where
  "setSeal offset v h =
     (let s = (if length (bh_seal h) \<le> offset then bh_seal h @ replicate (offset + 1 - length (bh_seal h)) [] else bh_seal h)
      in noteDirty (h\<lparr>bh_seal := s[offset := v]\<rparr>))"

subsection \<open>Writing\<close>

text \<open>
  \<open>operator<<\<close> at \<open>int64_t\<close> chooses \<open>append(unsigned)\<close>, the only overload it reaches without a
  constructor: the number is cut to 32 bits.
\<close>

definition append_int64 :: "int \<Rightarrow> rlp_stream \<Rightarrow> rlp_error + rlp_stream" where
  "append_int64 i s = append_bigint s (nat (i mod 2 ^ 32))"

definition append_h256 :: "h256 \<Rightarrow> rlp_stream \<Rightarrow> rlp_error + rlp_stream" where
  "append_h256 h s = append_bytes s (toBigEndian 32 (unat h)) False"

definition streamRLPFields :: "BlockHeader \<Rightarrow> rlp_stream \<Rightarrow> rlp_error + rlp_stream" where
  "streamRLPFields h s =
     andThen (append_h256 (bh_parentHash h) s) (\<lambda>s.
     andThen (append_h256 (bh_sha3Uncles h) s) (\<lambda>s.
     andThen (append_bytes s (toBigEndian 20 (unat (bh_author h))) False) (\<lambda>s.
     andThen (append_h256 (bh_stateRoot h) s) (\<lambda>s.
     andThen (append_h256 (bh_transactionsRoot h) s) (\<lambda>s.
     andThen (append_h256 (bh_receiptsRoot h) s) (\<lambda>s.
     andThen (append_bytes s (toBigEndian 256 (unat (bh_logBloom h))) False) (\<lambda>s.
     andThen (append_bigint s (unat (bh_difficulty h))) (\<lambda>s.
     andThen (append_int64 (bh_number h) s) (\<lambda>s.
     andThen (append_bigint s (unat (bh_gasLimit h))) (\<lambda>s.
     andThen (append_bigint s (unat (bh_gasUsed h))) (\<lambda>s.
     andThen (append_int64 (bh_timestamp h) s) (\<lambda>s.
     append_bytes s (bh_extraData h) False))))))))))))"

fun appendSeal :: "bytes list \<Rightarrow> rlp_stream \<Rightarrow> rlp_error + rlp_stream" where
  "appendSeal [] s = Inr s"
| "appendSeal (f # fs) s = andThen (appendRaw s f 1) (appendSeal fs)"

definition bh_streamRLP :: "BlockHeader \<Rightarrow> include_seal \<Rightarrow> rlp_stream \<Rightarrow> rlp_error + rlp_stream" where
  "bh_streamRLP h i s =
     andThen (if i \<noteq> OnlySeal
              then andThen (appendList s (13 + (if i = WithoutSeal then 0 else length (bh_seal h)))) (streamRLPFields h)
              else Inr s)
       (\<lambda>s. if i \<noteq> WithoutSeal then appendSeal (bh_seal h) s else Inr s)"

definition bh_rlp :: "BlockHeader \<Rightarrow> include_seal \<Rightarrow> rlp_error + bytes" where
  "bh_rlp h i = andThen (bh_streamRLP h i emptyStream) stream_out"

text \<open>The hash is remembered with and without the seal.\<close>

definition headerHash :: "(bytes \<Rightarrow> h256) \<Rightarrow> include_seal \<Rightarrow> BlockHeader \<Rightarrow> rlp_error + h256 \<times> BlockHeader" where
  "headerHash sha3 i h =
     (let memo = (case i of WithSeal \<Rightarrow> bh_hash h | WithoutSeal \<Rightarrow> bh_hashWithout h | OnlySeal \<Rightarrow> 0) in
      if memo \<noteq> 0 then Inr (memo, h)
      else andThen (bh_rlp h i) (\<lambda>bs.
        Inr (sha3 bs, case i of WithSeal \<Rightarrow> h\<lparr>bh_hash := sha3 bs\<rparr>
                      | WithoutSeal \<Rightarrow> h\<lparr>bh_hashWithout := sha3 bs\<rparr> | OnlySeal \<Rightarrow> h)))"

subsection \<open>Reading\<close>

definition toH256 :: "bytes \<Rightarrow> rlp_error + h256" where
  "toH256 d = andThen (toHash 32 d VeryStrict) (\<lambda>bs. Inr (word_of_nat (fromBigEndian bs)))"

definition toBloom :: "bytes \<Rightarrow> rlp_error + log_bloom" where
  "toBloom d = andThen (toHash 256 d VeryStrict) (\<lambda>bs. Inr (word_of_nat (fromBigEndian bs)))"

definition toInt64 :: "bytes \<Rightarrow> rlp_error + int" where
  "toInt64 d = toPositiveInt64 d Strict"

fun readSeal :: "nat list \<Rightarrow> rlp \<Rightarrow> rlp_error + bytes list" where
  "readSeal [] r = Inr []"
| "readSeal (i # is) r =
     andThen (fieldAt i Inr r) (\<lambda>(x, r). andThen (readSeal is r) (\<lambda>xs. Inr (x # xs)))"

definition populate :: "bytes \<Rightarrow> BlockHeader \<Rightarrow> rlp_error + BlockHeader" where
  "populate d h =
     andThen (fieldAt 0 toH256 (freshRLP d)) (\<lambda>(parentHash, r).
     andThen (fieldAt 1 toH256 r) (\<lambda>(sha3Uncles, r).
     andThen (fieldAt 2 toAddress r) (\<lambda>(author, r).
     andThen (fieldAt 3 toH256 r) (\<lambda>(stateRoot, r).
     andThen (fieldAt 4 toH256 r) (\<lambda>(transactionsRoot, r).
     andThen (fieldAt 5 toH256 r) (\<lambda>(receiptsRoot, r).
     andThen (fieldAt 6 toBloom r) (\<lambda>(logBloom, r).
     andThen (fieldAt 7 toU256 r) (\<lambda>(difficulty, r).
     andThen (fieldAt 8 toInt64 r) (\<lambda>(number, r).
     andThen (fieldAt 9 toU256 r) (\<lambda>(gasLimit, r).
     andThen (fieldAt 10 toU256 r) (\<lambda>(gasUsed, r).
     andThen (fieldAt 11 toInt64 r) (\<lambda>(timestamp, r).
     andThen (fieldAt 12 (\<lambda>x. toBytes x LaissezFaire) r) (\<lambda>(extraData, r).
     andThen (itemCount d) (\<lambda>n.
     andThen (readSeal [13..<n] r) (\<lambda>seal.
     Inr (h\<lparr>bh_parentHash := parentHash, bh_sha3Uncles := sha3Uncles, bh_author := author,
            bh_stateRoot := stateRoot, bh_transactionsRoot := transactionsRoot, bh_receiptsRoot := receiptsRoot,
            bh_logBloom := logBloom, bh_difficulty := difficulty, bh_number := number, bh_gasLimit := gasLimit,
            bh_gasUsed := gasUsed, bh_timestamp := timestamp, bh_extraData := extraData,
            bh_seal := seal\<rparr>))))))))))))))))"

definition liftHeader :: "rlp_error + 'a \<Rightarrow> header_exception + 'a" where
  "liftHeader r = (case r of Inl e \<Rightarrow> Inl (HeaderRlp e) | Inr x \<Rightarrow> Inr x)"

text \<open>A block is the list of its header, its transactions and its uncles.\<close>

definition extractHeader :: "bytes \<Rightarrow> header_exception + bytes" where
  "extractHeader block =
     andThen (liftHeader (mkRLP block VeryStrict)) (\<lambda>root.
     if \<not> isList block then Inl InvalidBlockFormat
     else andThen (liftHeader (fieldAt 0 Inr root)) (\<lambda>(header, root).
     if \<not> isList header then Inl InvalidBlockFormat
     else andThen (liftHeader (fieldAt 1 Inr root)) (\<lambda>(txs, root).
     if \<not> isList txs then Inl InvalidBlockFormat
     else andThen (liftHeader (fieldAt 2 Inr root)) (\<lambda>(uncles, root).
     if \<not> isList uncles then Inl InvalidBlockFormat else Inr header))))"

definition mkHeader ::
  "(bytes \<Rightarrow> h256) \<Rightarrow> bytes \<Rightarrow> block_data_type \<Rightarrow> h256 \<Rightarrow> header_exception + BlockHeader" where
  "mkHeader sha3 block bdt hashWith =
     andThen (if bdt = BlockData then extractHeader block
              else andThen (liftHeader (mkRLP block VeryStrict)) (\<lambda>_. Inr block)) (\<lambda>header.
     liftHeader (populate header (emptyHeader\<lparr>bh_hash := (if hashWith \<noteq> 0 then hashWith else sha3 header)\<rparr>)))"

subsection \<open>Making and checking\<close>

definition bh_populateFromParent :: "BlockHeader \<Rightarrow> BlockHeader \<Rightarrow> BlockHeader" where
  "bh_populateFromParent parent h =
     h\<lparr>bh_stateRoot := bh_stateRoot parent, bh_number := bh_number parent + 1, bh_parentHash := bh_hash parent,
       bh_gasLimit := bh_gasLimit parent, bh_difficulty := bh_difficulty parent, bh_gasUsed := 0\<rparr>"

text \<open>
  The transactions and the uncles of the block against the roots in the header; \<open>trieRoot\<close> is
  \<open>trieRootOver\<close>, given the transactions in order.
\<close>

definition verifyBody :: "(bytes \<Rightarrow> h256) \<Rightarrow> (bytes list \<Rightarrow> h256) \<Rightarrow> BlockHeader \<Rightarrow> bytes \<Rightarrow> header_exception + unit" where
  "verifyBody sha3 trieRoot h block =
     andThen (liftHeader (mkRLP block VeryStrict)) (\<lambda>root.
     andThen (liftHeader (fieldAt 1 Inr root)) (\<lambda>(txList, root).
     andThen (liftHeader (itemCount txList)) (\<lambda>n.
     andThen (liftHeader (readSeal [0..<n] (freshRLP txList))) (\<lambda>txs.
     andThen (throwIf (bh_transactionsRoot h \<noteq> trieRoot txs) InvalidTransactionsRoot) (\<lambda>_.
     andThen (liftHeader (fieldAt 2 Inr root)) (\<lambda>(uncles, root).
     throwIf (bh_sha3Uncles h \<noteq> sha3 uncles) InvalidUnclesHash))))))"

definition bh_verify ::
  "(bytes \<Rightarrow> h256) \<Rightarrow> (bytes list \<Rightarrow> h256) \<Rightarrow> verify_strictness \<Rightarrow> BlockHeader \<Rightarrow> BlockHeader \<Rightarrow> bytes \<Rightarrow> header_exception + unit"
  where
  "bh_verify sha3 trieRoot strict h parent block =
     andThen (throwIf (bh_number h > 2 ^ 32 - 1) InvalidNumber) (\<lambda>_.
     andThen (throwIf (strict \<noteq> CheckNothingNew \<and> bh_gasUsed h > bh_gasLimit h) TooMuchGasUsed) (\<lambda>_.
     andThen (if bh_good parent
              then andThen (liftHeader (headerHash sha3 WithSeal parent)) (\<lambda>(ph, _).
                   andThen (throwIf (bh_parentHash h \<noteq> 0 \<and> ph \<noteq> bh_parentHash h) InvalidParentHash) (\<lambda>_.
                   andThen (throwIf (bh_timestamp h \<le> bh_timestamp parent) InvalidTimestamp) (\<lambda>_.
                   throwIf (bh_number h \<noteq> bh_number parent + 1) InvalidNumber)))
              else Inr ()) (\<lambda>_.
     if block \<noteq> [] then verifyBody sha3 trieRoot h block else Inr ())))"

end
