(* ===== verification/Header_Codec.thy ===== *)
theory Header_Codec
  imports Block_Header
begin

section \<open>Reading back the headers that were written\<close>

text \<open>
  A header is written as the list of its thirteen fields and the items of its seal, and read back
  by index, with the times and numbers that fit 32 bits.
\<close>

definition headerItems :: "BlockHeader \<Rightarrow> rlp_item list" where
  "headerItems h =
     [Str (toBigEndian 32 (unat (bh_parentHash h))), Str (toBigEndian 32 (unat (bh_sha3Uncles h))),
      Str (toBigEndian 20 (unat (bh_author h))), Str (toBigEndian 32 (unat (bh_stateRoot h))),
      Str (toBigEndian 32 (unat (bh_transactionsRoot h))), Str (toBigEndian 32 (unat (bh_receiptsRoot h))),
      Str (toBigEndian 256 (unat (bh_logBloom h))), intItem (unat (bh_difficulty h)),
      intItem (nat (bh_number h mod 2 ^ 32)), intItem (unat (bh_gasLimit h)), intItem (unat (bh_gasUsed h)),
      intItem (nat (bh_timestamp h mod 2 ^ 32)), Str (bh_extraData h)]"

definition hdrItem :: "BlockHeader \<Rightarrow> rlp_item list \<Rightarrow> rlp_item" where
  "hdrItem h seal = Lst (headerItems h @ seal)"

text \<open>The headers that come back: the items of the seal are encodings, and everything is of a sane length.\<close>

definition readableHeader :: "BlockHeader \<Rightarrow> rlp_item list \<Rightarrow> bool" where
  "readableHeader h seal \<longleftrightarrow>
     0 \<le> bh_number h \<and> bh_number h < 2 ^ 32 \<and> 0 \<le> bh_timestamp h \<and> bh_timestamp h < 2 ^ 32 \<and>
     bh_seal h = map enc seal \<and> length seal < 80 \<and> fits (hdrItem h seal)"

subsection \<open>Writing\<close>

lemma append_item_Str: "append_bytes s bs False = append_item s (Str bs)"
  by simp

lemma append_int64_item: "append_int64 i s = append_item s (intItem (nat (i mod 2 ^ 32)))"
  unfolding append_int64_def by (rule append_small_item) (simp add: nat_less_iff)

lemma andThen_last: "andThen m Inr = m"
  by (cases m) simp_all

lemma streamRLPFields_items: "streamRLPFields h s = append_items s (headerItems h)"
  by (simp only: streamRLPFields_def headerItems_def append_h256_def append_int64_item append_word_item append_item_Str
      append_items.simps andThen_last)

lemma appendSeal_items: "(\<forall>x \<in> set xs. fits x) \<Longrightarrow> appendSeal (map enc xs) s = append_items s xs"
proof (induction xs arbitrary: s)
  case (Cons x xs)
  have "appendRaw s (enc x) 1 = append_item s x" using Cons.prems by (simp add: append_item_enc appendRaw_def)
  with Cons show ?case by (simp cong: andThen_cong)
qed simp

lemma bh_rlp_item:
  assumes "readableHeader h seal"
  shows "bh_rlp h WithSeal = Inr (enc (hdrItem h seal))"
proof -
  have f: "fits (hdrItem h seal)" and s: "bh_seal h = map enc seal" "\<forall>x \<in> set seal. fits x"
    using assms by (auto simp: readableHeader_def hdrItem_def)
  have n: "length (headerItems h @ seal) = 13 + length seal" by (simp add: headerItems_def)
  have "bh_streamRLP h WithSeal emptyStream = append_item emptyStream (hdrItem h seal)"
    unfolding hdrItem_def append_item.simps n append_items_append
    by (simp add: bh_streamRLP_def s appendSeal_items streamRLPFields_items andThen_assoc cong: andThen_cong)
  then have "bh_rlp h WithSeal = rlp_of (hdrItem h seal)" by (simp add: bh_rlp_def rlp_of_def)
  then show ?thesis by (simp add: rlp_of_enc [OF f])
qed

subsection \<open>Reading\<close>

lemma bind_field:
  assumes "listed xs r" "i < length xs" "i < 100" "conv (xs ! i) = Inr v"
    and "\<And>r'. listed xs r' \<Longrightarrow> k (v, r') = y"
  shows "andThen (fieldAt i conv r) k = y"
  using fieldAt_listed [where conv = conv, OF assms(1-4)] assms(5) by auto

lemma toH256_item [simp]: "toH256 (enc (Str (toBigEndian 32 (unat w)))) = Inr w"
proof -
  have "unat w < 256 ^ 32" using unsigned_less [of w, where ?'a = nat] by simp
  then show ?thesis
    by (simp add: toH256_def toHash_Str fromBigEndian_toBigEndian del: enc.simps)
qed

lemma toAddress_item [simp]: "toAddress (enc (Str (toBigEndian 20 (unat w)))) = Inr w"
proof -
  have "unat w < 256 ^ 20" using unsigned_less [of w, where ?'a = nat] by simp
  then show ?thesis
    by (simp add: toAddress_def toHash_Str fromBigEndian_toBigEndian del: enc.simps)
qed

lemma toBloom_item [simp]: "toBloom (enc (Str (toBigEndian 256 (unat w)))) = Inr w"
proof -
  have "(256::nat) ^ 256 = 2 ^ 2048" by simp
  then have "unat w < 256 ^ 256" using unsigned_less [of w, where ?'a = nat] by simp
  then show ?thesis
    by (simp add: toBloom_def toHash_Str fromBigEndian_toBigEndian del: enc.simps)
qed

lemma toInt64_item:
  assumes "0 \<le> i" "i < 2 ^ 32"
  shows "toInt64 (enc (intItem (nat (i mod 2 ^ 32)))) = Inr i"
proof -
  have n: "nat i < 2 ^ 32" and m: "i mod 2 ^ 32 = i" using assms by (simp_all add: nat_less_iff)
  have "toInt (Some 8) (enc (intItem (nat i))) Strict = Inr (nat i)" by (rule toInt_intItem) (use n in simp_all)
  then show ?thesis unfolding m using n assms by (simp add: toInt64_def toPositiveInt64_def Let_def)
qed

lemma readSeal_listed:
  assumes "listed xs r" "\<forall>i \<in> set is. i < length xs \<and> i < 100"
  shows "readSeal is r = Inr (map ((!) xs) is)"
  using assms
proof (induction "is" arbitrary: r)
  case (Cons i "is")
  show ?case unfolding readSeal.simps
  proof (rule bind_field [OF Cons.prems(1)])
    fix r' assume "listed xs r'"
    with Cons show "(\<lambda>(x, r). andThen (readSeal is r) (\<lambda>xs. Inr (x # xs))) (xs ! i, r') = Inr (map ((!) xs) (i # is))"
      by simp
  qed (use Cons.prems(2) in auto)
qed simp

subsection \<open>The round trip\<close>

lemma populate_listed:
  assumes l: "listed (map enc (headerItems h @ seal)) (freshRLP d)" and c: "itemCount d = Inr (13 + length seal)"
    and h: "readableHeader h seal"
  shows "populate d g = Inr (h\<lparr>bh_hash := bh_hash g, bh_hashWithout := bh_hashWithout g\<rparr>)"
proof -
  let ?xs = "map enc (headerItems h @ seal)"
  have n: "length ?xs = 13 + length seal" by (simp add: headerItems_def)
  have nth: "?xs ! 0 = enc (Str (toBigEndian 32 (unat (bh_parentHash h))))"
    "?xs ! 1 = enc (Str (toBigEndian 32 (unat (bh_sha3Uncles h))))"
    "?xs ! 2 = enc (Str (toBigEndian 20 (unat (bh_author h))))" "?xs ! 3 = enc (Str (toBigEndian 32 (unat (bh_stateRoot h))))"
    "?xs ! 4 = enc (Str (toBigEndian 32 (unat (bh_transactionsRoot h))))"
    "?xs ! 5 = enc (Str (toBigEndian 32 (unat (bh_receiptsRoot h))))"
    "?xs ! 6 = enc (Str (toBigEndian 256 (unat (bh_logBloom h))))" "?xs ! 7 = enc (intItem (unat (bh_difficulty h)))"
    "?xs ! 8 = enc (intItem (nat (bh_number h mod 2 ^ 32)))" "?xs ! 9 = enc (intItem (unat (bh_gasLimit h)))"
    "?xs ! 10 = enc (intItem (unat (bh_gasUsed h)))" "?xs ! 11 = enc (intItem (nat (bh_timestamp h mod 2 ^ 32)))"
    "?xs ! 12 = enc (Str (bh_extraData h))"
    by (simp_all add: headerItems_def del: enc.simps)
  have num: "toInt64 (?xs ! 8) = Inr (bh_number h)" "toInt64 (?xs ! 11) = Inr (bh_timestamp h)"
    unfolding nth by (rule toInt64_item; use h in \<open>simp add: readableHeader_def\<close>)+
  have len: "length seal < 80" "bh_seal h = map enc seal" using h by (simp_all add: readableHeader_def)
  have ext: "toBytes (?xs ! 12) LaissezFaire = Inr (bh_extraData h)"
    unfolding nth by (rule toBytes_enc) (use h in \<open>auto simp: readableHeader_def hdrItem_def headerItems_def\<close>)
  have seal: "map ((!) ?xs) [13..<13 + length seal] = bh_seal h"
    by (rule nth_equalityI) (simp_all add: len headerItems_def nth_append del: enc.simps)
  have rs: "readSeal [13..<13 + length seal] r = Inr (bh_seal h)" if "listed ?xs r" for r
  proof -
    have "\<forall>i \<in> set [13..<13 + length seal]. i < length ?xs \<and> i < 100" using len(1) unfolding n by auto
    from readSeal_listed [OF that this] show ?thesis by (simp only: seal)
  qed
  have eq: "g\<lparr>bh_parentHash := bh_parentHash h, bh_sha3Uncles := bh_sha3Uncles h, bh_author := bh_author h,
            bh_stateRoot := bh_stateRoot h, bh_transactionsRoot := bh_transactionsRoot h, bh_receiptsRoot := bh_receiptsRoot h,
            bh_logBloom := bh_logBloom h, bh_difficulty := bh_difficulty h, bh_number := bh_number h,
            bh_gasLimit := bh_gasLimit h, bh_gasUsed := bh_gasUsed h, bh_timestamp := bh_timestamp h,
            bh_extraData := bh_extraData h, bh_seal := bh_seal h\<rparr> = h\<lparr>bh_hash := bh_hash g, bh_hashWithout := bh_hashWithout g\<rparr>"
    by (cases h; cases g) simp
  note step = bind_field [where xs = ?xs, unfolded n]
  show ?thesis
    unfolding populate_def
    by (rule step [OF l], simp, simp, simp only: nth toH256_item, simp only: prod.case,
        (rule step, assumption, simp, simp,
         simp only: nth toH256_item toAddress_item toBloom_item toU256_item num [unfolded nth] ext [unfolded nth],
         simp only: prod.case)+,
        simp add: c rs eq del: upt.simps map_append)
qed

text \<open>C26: A header of a sane length with its number and time below \<open>2 ^ 32\<close> is read back from what
  \<open>streamRLP\<close> wrote, field by field and with its seal, and its hash is that of the bytes.\<close>

theorem header_roundtrip:
  assumes "readableHeader h seal"
  shows "\<exists>bs. bh_rlp h WithSeal = Inr bs \<and>
    mkHeader sha3 bs HeaderData 0 = Inr (h\<lparr>bh_hash := sha3 bs, bh_hashWithout := 0\<rparr>)"
proof -
  let ?bs = "enc (hdrItem h seal)"
  have f: "fits (Lst (headerItems h @ seal))" using assms by (simp add: readableHeader_def hdrItem_def)
  note e = enc_list_facts [OF f]
  have n: "length (headerItems h @ seal) = 13 + length seal" by (simp add: headerItems_def)
  have "populate ?bs (emptyHeader\<lparr>bh_hash := sha3 ?bs\<rparr>) = Inr (h\<lparr>bh_hash := sha3 ?bs, bh_hashWithout := 0\<rparr>)"
    using populate_listed [OF listed_enc [OF f] e(5) [unfolded n] assms, of "emptyHeader\<lparr>bh_hash := sha3 ?bs\<rparr>"]
    by (simp add: hdrItem_def emptyHeader_def del: enc.simps)
  then have "mkHeader sha3 ?bs HeaderData 0 = Inr (h\<lparr>bh_hash := sha3 ?bs, bh_hashWithout := 0\<rparr>)"
    using e(1) by (simp add: mkHeader_def liftHeader_def hdrItem_def del: enc.simps)
  with bh_rlp_item [OF assms] show ?thesis by blast
qed

definition sampleHeader :: BlockHeader where
  "sampleHeader = emptyHeader\<lparr>bh_number := 7, bh_timestamp := 1000, bh_gasLimit := 8000000, bh_difficulty := 200000,
     bh_parentHash := 5, bh_extraData := [1, 2, 3], bh_seal := [[1], [2]]\<rparr>"

lemma sample_readable: "readableHeader sampleHeader [Str [1], Str [2]]"
proof -
  have e: "length (enc (Str (toBigEndian n m))) \<le> n + 9" if "n < 2 ^ 64" for n m
    using length_encStr [of "toBigEndian n m"] that by (simp del: enc.simps)
  have i: "length (enc (intItem m)) \<le> 41" if "m < 2 ^ 256" for m by (rule length_intItem [OF that])
  have "length (concat (map enc (headerItems sampleHeader @ [Str [1], Str [2]]))) \<le> 2000"
    using e [of 32 0] e [of 32 5] e [of 20 0] e [of 256 0] i [of 200000] i [of 7] i [of 8000000] i [of 0] i [of 1000]
      length_encStr [of "[1,2,3]"] length_encStr [of "[1]"] length_encStr [of "[2]"]
    by (simp add: headerItems_def sampleHeader_def emptyHeader_def del: enc.simps)
  moreover have "\<forall>x \<in> set (headerItems sampleHeader @ [Str [1], Str [2]]). fits x"
    by (auto simp: headerItems_def sampleHeader_def emptyHeader_def intro: fits_intItem)
  ultimately have "fits (hdrItem sampleHeader [Str [1], Str [2]])" by (simp add: hdrItem_def)
  then show ?thesis by (simp add: readableHeader_def sampleHeader_def emptyHeader_def encStr_def)
qed

lemma header_roundtrip_witness:
  "\<exists>bs. bh_rlp sampleHeader WithSeal = Inr bs \<and>
     mkHeader (\<lambda>bs. of_nat (length bs)) bs HeaderData 0 = Inr (sampleHeader\<lparr>bh_hash := of_nat (length bs), bh_hashWithout := 0\<rparr>)"
  using header_roundtrip [OF sample_readable, of "\<lambda>bs. of_nat (length bs)"] .

subsection \<open>Times that do not fit 32 bits\<close>

text \<open>C29: A header is written with its number and time cut to 32 bits: headers whose times differ
  by \<open>2 ^ 32\<close> seconds have the same encoding, hence the same hash when it is computed from the
  object, with or without the seal.\<close>

theorem header_time_truncated:
  "bh_rlp (h\<lparr>bh_timestamp := t + 2 ^ 32\<rparr>) i = bh_rlp (h\<lparr>bh_timestamp := t\<rparr>) i \<and>
   bh_rlp (h\<lparr>bh_number := n + 2 ^ 32\<rparr>) i = bh_rlp (h\<lparr>bh_number := n\<rparr>) i"
  by (simp add: bh_rlp_def bh_streamRLP_def streamRLPFields_def append_int64_def cong: andThen_cong)

end
