(* ===== verification/Seal_Engine.thy ===== *)
theory Seal_Engine
  imports Block_Header Transaction_Base Common_Data "HOL-Library.Signed_Division"
begin

section \<open>Chain parameters and the seal engine (libethcore/ChainOperationParams, SealEngine)\<close>

text \<open>
  The parameters of the chain, the prices of a block, the checks of a block header and of a
  transaction that do not need the state, the difficulty and the gas limit of the next block, the
  engine \<open>NoProof\<close>, and what \<open>Ethash\<close> adds to the checks, its proof of work being a parameter.
\<close>

subsection \<open>Parameters\<close>

record PrecompiledContract =
  pc_cost :: "bytes \<Rightarrow> nat"
  pc_execute :: "bytes \<Rightarrow> bool \<times> bytes"
  pc_startingBlock :: u256

text \<open>Prices are never negative. The linear price of a contract given by \<open>_base\<close> and \<open>_word\<close>.\<close>

definition linearPrecompiled :: "nat \<Rightarrow> nat \<Rightarrow> (bytes \<Rightarrow> bool \<times> bytes) \<Rightarrow> u256 \<Rightarrow> PrecompiledContract" where
  "linearPrecompiled base word exec startingBlock =
     \<lparr>pc_cost = (\<lambda>inp. base + (length inp + 31) div 32 * word), pc_execute = exec,
      pc_startingBlock = startingBlock\<rparr>"

definition c_infiniteBlockNumber :: u256 where
  "c_infiniteBlockNumber = 2 ^ 63 - 1"

record ChainParams =
  cp_blockReward :: u256
  cp_maximumExtraDataSize :: u256
  cp_accountStartNonce :: u256
  cp_minGasLimit :: u256
  cp_maxGasLimit :: u256
  cp_gasLimitBoundDivisor :: u256
  cp_homesteadForkBlock :: u256
  cp_EIP150ForkBlock :: u256
  cp_EIP158ForkBlock :: u256
  cp_byzantiumForkBlock :: u256
  cp_eWASMForkBlock :: u256
  cp_constantinopleForkBlock :: u256
  cp_constantinopleFixForkBlock :: u256
  cp_daoHardforkBlock :: u256
  cp_experimentalForkBlock :: u256
  cp_chainID :: int
  cp_minimumDifficulty :: u256
  cp_difficultyBoundDivisor :: u256
  cp_durationLimit :: u256
  cp_precompiled :: "address \<Rightarrow> PrecompiledContract option"

definition defaultChainParams :: ChainParams where
  "defaultChainParams =
     \<lparr>cp_blockReward = 0x4563918244F40000, cp_maximumExtraDataSize = 32, cp_accountStartNonce = 0,
      cp_minGasLimit = 0x1388, cp_maxGasLimit = 0x7fffffffffffffff, cp_gasLimitBoundDivisor = 0x0400,
      cp_homesteadForkBlock = c_infiniteBlockNumber, cp_EIP150ForkBlock = c_infiniteBlockNumber,
      cp_EIP158ForkBlock = c_infiniteBlockNumber, cp_byzantiumForkBlock = c_infiniteBlockNumber,
      cp_eWASMForkBlock = c_infiniteBlockNumber, cp_constantinopleForkBlock = c_infiniteBlockNumber,
      cp_constantinopleFixForkBlock = c_infiniteBlockNumber, cp_daoHardforkBlock = c_infiniteBlockNumber,
      cp_experimentalForkBlock = c_infiniteBlockNumber, cp_chainID = 0, cp_minimumDifficulty = 0x020000,
      cp_difficultyBoundDivisor = 0x0800, cp_durationLimit = 0x0d, cp_precompiled = Map.empty\<rparr>"

text \<open>A block number, an \<open>int64_t\<close>, against the number of a fork.\<close>

definition atFork :: "int \<Rightarrow> u256 \<Rightarrow> bool" where
  "atFork number fork \<longleftrightarrow> number \<ge> uint fork"

definition scheduleForBlockNumber :: "ChainParams \<Rightarrow> u256 \<Rightarrow> EVMSchedule" where
  "scheduleForBlockNumber p n =
     (if n \<ge> cp_experimentalForkBlock p then ExperimentalSchedule
      else if n \<ge> cp_constantinopleFixForkBlock p then ConstantinopleFixSchedule
      else if n \<ge> cp_constantinopleForkBlock p then ConstantinopleSchedule
      else if n \<ge> cp_eWASMForkBlock p then EWASMSchedule
      else if n \<ge> cp_byzantiumForkBlock p then ByzantiumSchedule
      else if n \<ge> cp_EIP158ForkBlock p then EIP158Schedule
      else if n \<ge> cp_EIP150ForkBlock p then EIP150Schedule
      else if n \<ge> cp_homesteadForkBlock p then HomesteadSchedule
      else FrontierSchedule)"

definition blockRewardOf :: "ChainParams \<Rightarrow> EVMSchedule \<Rightarrow> u256" where
  "blockRewardOf p s = (case blockRewardOverwrite s of Some r \<Rightarrow> r | None \<Rightarrow> cp_blockReward p)"

definition evmSchedule :: "ChainParams \<Rightarrow> int \<Rightarrow> EVMSchedule" where
  "evmSchedule p number = scheduleForBlockNumber p (word_of_int number)"

definition engineBlockReward :: "ChainParams \<Rightarrow> u256 \<Rightarrow> u256" where
  "engineBlockReward p n = blockRewardOf p (scheduleForBlockNumber p n)"

definition isPrecompiled :: "ChainParams \<Rightarrow> address \<Rightarrow> int \<Rightarrow> bool" where
  "isPrecompiled p a number =
     (case cp_precompiled p a of None \<Rightarrow> False | Some c \<Rightarrow> word_of_int number \<ge> pc_startingBlock c)"

definition costOfPrecompiled :: "ChainParams \<Rightarrow> address \<Rightarrow> bytes \<Rightarrow> nat" where
  "costOfPrecompiled p a inp = (case cp_precompiled p a of Some c \<Rightarrow> pc_cost c inp | None \<Rightarrow> 0)"

definition executePrecompiled :: "ChainParams \<Rightarrow> address \<Rightarrow> bytes \<Rightarrow> bool \<times> bytes" where
  "executePrecompiled p a inp = (case cp_precompiled p a of Some c \<Rightarrow> pc_execute c inp | None \<Rightarrow> (False, []))"

subsection \<open>Headers\<close>

text \<open>\<open>0x64616f2d686172642d666f726b\<close> spells "dao-hard-fork".\<close>

definition daoExtraData :: bytes where
  "daoExtraData = [0x64, 0x61, 0x6f, 0x2d, 0x68, 0x61, 0x72, 0x64, 0x2d, 0x66, 0x6f, 0x72, 0x6b]"

definition verifyLimits :: "ChainParams \<Rightarrow> BlockHeader \<Rightarrow> header_exception + unit" where
  "verifyLimits p h =
     andThen (throwIf (bh_difficulty h < cp_minimumDifficulty p) InvalidDifficulty) (\<lambda>_.
     andThen (throwIf (bh_gasLimit h < cp_minGasLimit p) InvalidGasLimit) (\<lambda>_.
     andThen (throwIf (bh_gasLimit h > cp_maxGasLimit p) InvalidGasLimit) (\<lambda>_.
     andThen (throwIf (bh_number h \<noteq> 0 \<and> length (bh_extraData h) > unat (cp_maximumExtraDataSize p)) ExtraDataTooBig) (\<lambda>_.
     let dao = cp_daoHardforkBlock p in
     throwIf (dao \<noteq> 0 \<and> dao + 9 \<ge> dao \<and> atFork (bh_number h) dao \<and> bh_number h \<le> uint (dao + 9)
              \<and> bh_extraData h \<noteq> daoExtraData) ExtraDataIncorrect))))"

definition verifyGasLimit :: "ChainParams \<Rightarrow> BlockHeader \<Rightarrow> BlockHeader \<Rightarrow> header_exception + unit" where
  "verifyGasLimit p h parent =
     (let gasLimit = bh_gasLimit h; parentGasLimit = bh_gasLimit parent in
      throwIf (gasLimit < cp_minGasLimit p \<or> gasLimit > cp_maxGasLimit p
               \<or> gasLimit \<le> parentGasLimit - parentGasLimit div cp_gasLimitBoundDivisor p
               \<or> gasLimit \<ge> parentGasLimit + parentGasLimit div cp_gasLimitBoundDivisor p) InvalidGasLimit)"

definition engineVerify ::
  "(bytes \<Rightarrow> h256) \<Rightarrow> (bytes list \<Rightarrow> h256) \<Rightarrow> ChainParams \<Rightarrow> verify_strictness \<Rightarrow> BlockHeader \<Rightarrow> BlockHeader \<Rightarrow> bytes \<Rightarrow>
     header_exception + unit" where
  "engineVerify sha3 trieRoot p strict h parent block =
     andThen (bh_verify sha3 trieRoot strict h parent block) (\<lambda>_.
     andThen (if strict \<noteq> CheckNothingNew then verifyLimits p h else Inr ()) (\<lambda>_.
     if bh_good parent then verifyGasLimit p h parent else Inr ()))"

subsection \<open>Difficulty and gas limit\<close>

text \<open>
  The target before the ice age. The sums of the first branch are on 256 bits; \<open>bigint\<close> division
  truncates. In the first branch the time limit is added on 256 bits too.
\<close>

definition difficultyTarget :: "(bytes \<Rightarrow> h256) \<Rightarrow> ChainParams \<Rightarrow> BlockHeader \<Rightarrow> BlockHeader \<Rightarrow> int" where
  "difficultyTarget sha3 p h parent =
     (let d = bh_difficulty parent in
      if \<not> atFork (bh_number h) (cp_homesteadForkBlock p)
      then (if bh_timestamp h \<ge> uint (word_of_int (bh_timestamp parent) + cp_durationLimit p)
            then uint (d - d div cp_difficultyBoundDivisor p)
            else uint (d + d div cp_difficultyBoundDivisor p))
      else (let timestampDiff = bh_timestamp h - bh_timestamp parent;
                adjFactor =
                  (if \<not> atFork (bh_number h) (cp_byzantiumForkBlock p)
                   then max (1 - timestampDiff sdiv 10) (- 99)
                   else max ((if bh_hasUncles sha3 parent then 2 else 1) - timestampDiff sdiv 9) (- 99))
            in uint d + uint (d div 2048) * adjFactor))"

text \<open>The number the ice age goes by, an \<open>unsigned\<close>.\<close>

definition iceAgeNumber :: "ChainParams \<Rightarrow> BlockHeader \<Rightarrow> BlockHeader \<Rightarrow> nat" where
  "iceAgeNumber p h parent =
     (let n = nat ((bh_number parent + 1) mod 2 ^ 32) in
      if atFork (bh_number h) (cp_constantinopleForkBlock p) then n - 5000000
      else if atFork (bh_number h) (cp_byzantiumForkBlock p) then n - 3000000
      else n)"

definition iceAge :: "nat \<Rightarrow> int" where
  "iceAge n = (let periodCount = n div 100000 in if periodCount > 1 then 2 ^ (periodCount - 2) else 0)"

definition calculateEthashDifficulty ::
  "(bytes \<Rightarrow> h256) \<Rightarrow> ChainParams \<Rightarrow> BlockHeader \<Rightarrow> BlockHeader \<Rightarrow> header_exception + u256" where
  "calculateEthashDifficulty sha3 p h parent =
     (if bh_number h = 0 then Inl GenesisBlockCannotBeCalculated
      else (let o1 = difficultyTarget sha3 p h parent + iceAge (iceAgeNumber p h parent);
                o2 = max (uint (cp_minimumDifficulty p)) o1
            in Inr (word_of_int (min o2 (2 ^ 256 - 1)))))"

definition Invalid256c :: u256 where
  "Invalid256c = - 1"

definition calculateGasLimit :: "ChainParams \<Rightarrow> BlockHeader \<Rightarrow> u256 \<Rightarrow> u256" where
  "calculateGasLimit p h gasFloorTarget0 =
     (let gasFloorTarget = (if gasFloorTarget0 = Invalid256c then 3141562 else gasFloorTarget0);
          gasLimit = bh_gasLimit h; boundDivisor = cp_gasLimitBoundDivisor p in
      if gasLimit < gasFloorTarget
      then min gasFloorTarget (gasLimit + gasLimit div boundDivisor - 1)
      else max gasFloorTarget
             (gasLimit - gasLimit div boundDivisor + 1 + (bh_gasUsed h * 6 div 5) div boundDivisor))"

subsection \<open>The engines\<close>

text \<open>\<open>NoProof\<close> and \<open>Ethash\<close> make a header from its parent in the same way.\<close>

definition populateNext :: "(bytes \<Rightarrow> h256) \<Rightarrow> ChainParams \<Rightarrow> BlockHeader \<Rightarrow> BlockHeader \<Rightarrow> header_exception + BlockHeader" where
  "populateNext sha3 p h parent =
     (let h = bh_populateFromParent parent h in
      andThen (calculateEthashDifficulty sha3 p h parent) (\<lambda>d.
      let h = setDifficulty d h in
      Inr (setGasLimit (calculateGasLimit p h Invalid256c) h)))"

definition verifyDifficulty :: "(bytes \<Rightarrow> h256) \<Rightarrow> ChainParams \<Rightarrow> BlockHeader \<Rightarrow> BlockHeader \<Rightarrow> header_exception + unit" where
  "verifyDifficulty sha3 p h parent =
     (if bh_good parent
      then andThen (calculateEthashDifficulty sha3 p h parent) (\<lambda>expected.
           throwIf (bh_difficulty h \<noteq> expected) InvalidDifficulty)
      else Inr ())"

definition noProofVerify ::
  "(bytes \<Rightarrow> h256) \<Rightarrow> (bytes list \<Rightarrow> h256) \<Rightarrow> ChainParams \<Rightarrow> verify_strictness \<Rightarrow> BlockHeader \<Rightarrow> BlockHeader \<Rightarrow> bytes \<Rightarrow>
     header_exception + unit" where
  "noProofVerify sha3 trieRoot p strict h parent block =
     andThen (engineVerify sha3 trieRoot p strict h parent block) (\<lambda>_. verifyDifficulty sha3 p h parent)"

text \<open>The nonce and the mix hash of \<open>NoProof\<close> are zero: eight and thirty-two bytes.\<close>

definition noProofSeal :: "BlockHeader \<Rightarrow> rlp_error + BlockHeader" where
  "noProofSeal h =
     andThen (rlp_of (Str (replicate 8 0))) (\<lambda>n.
     andThen (rlp_of (Str (replicate 32 0))) (\<lambda>m. Inr (setSeal 0 m (setSeal 1 n h))))"

text \<open>\<open>Ethash::verify\<close>; the two predicates are the library's proof-of-work checks.\<close>

definition ethashVerify ::
  "(bytes \<Rightarrow> h256) \<Rightarrow> (bytes list \<Rightarrow> h256) \<Rightarrow> (BlockHeader \<Rightarrow> bool) \<Rightarrow> (BlockHeader \<Rightarrow> bool) \<Rightarrow>
     ChainParams \<Rightarrow> verify_strictness \<Rightarrow> BlockHeader \<Rightarrow> BlockHeader \<Rightarrow> bytes \<Rightarrow> header_exception + unit" where
  "ethashVerify sha3 trieRoot verifySeal quickVerifySeal p strict h parent block =
     andThen (engineVerify sha3 trieRoot p strict h parent block) (\<lambda>_.
     andThen (verifyDifficulty sha3 p h parent) (\<lambda>_.
     if strict = CheckEverything \<and> bh_parentHash h \<noteq> 0 \<and> \<not> verifySeal h then Inl InvalidBlockNonce
     else throwIf (strict = QuickNonce \<and> bh_parentHash h \<noteq> 0 \<and> \<not> quickVerifySeal h) InvalidBlockNonce))"

subsection \<open>Transactions\<close>

datatype tx_check_exception =
  TxInvalid tx_exception | InvalidZeroSignatureTransaction | OutOfGasIntrinsic | BlockGasLimitReached

record import_requirements =
  ir_TransactionBasic :: bool
  ir_TransactionSignatures :: bool

definition irEverything :: import_requirements where
  "irEverything = \<lparr>ir_TransactionBasic = True, ir_TransactionSignatures = True\<rparr>"

definition liftTx :: "tx_exception + 'a \<Rightarrow> tx_check_exception + 'a" where
  "liftTx r = (case r of Inl e \<Rightarrow> Inl (TxInvalid e) | Inr x \<Rightarrow> Inr x)"

text \<open>The number and the gas limit are those of the header of the block.\<close>

definition verifyTransaction ::
  "ChainParams \<Rightarrow> import_requirements \<Rightarrow> Transaction \<Rightarrow> int \<Rightarrow> u256 \<Rightarrow> u256 \<Rightarrow> tx_check_exception + unit" where
  "verifyTransaction p ir t number gasLimit gasUsed =
     andThen (throwIf (ir_TransactionSignatures ir \<and> \<not> atFork number (cp_EIP158ForkBlock p) \<and> isReplayProtected t)
                (TxInvalid InvalidSignature)) (\<lambda>_.
     andThen (throwIf (ir_TransactionSignatures ir \<and> \<not> atFork number (cp_experimentalForkBlock p) \<and> hasZeroSignature t)
                (TxInvalid InvalidSignature)) (\<lambda>_.
     andThen (throwIf (ir_TransactionBasic ir \<and> atFork number (cp_experimentalForkBlock p) \<and> hasZeroSignature t
                \<and> (t_value t \<noteq> 0 \<or> t_gasPrice t \<noteq> 0 \<or> t_nonce t \<noteq> 0)) InvalidZeroSignatureTransaction) (\<lambda>_.
     andThen (if atFork number (cp_homesteadForkBlock p) \<and> ir_TransactionSignatures ir \<and> hasSignature t
              then liftTx (checkLowS t) else Inr ()) (\<lambda>_.
     andThen (throwIf (ir_TransactionBasic ir \<and> tx_baseGas t (evmSchedule p number) > uint (t_gas t)) OutOfGasIntrinsic) (\<lambda>_.
     throwIf (uint gasUsed + uint (t_gas t) > uint gasLimit) BlockGasLimitReached)))))"

definition ethashVerifyTransaction ::
  "ChainParams \<Rightarrow> import_requirements \<Rightarrow> Transaction \<Rightarrow> int \<Rightarrow> u256 \<Rightarrow> u256 \<Rightarrow> tx_check_exception + unit" where
  "ethashVerifyTransaction p ir t number gasLimit gasUsed =
     andThen (verifyTransaction p ir t number gasLimit gasUsed) (\<lambda>_.
     if ir_TransactionSignatures ir
     then liftTx (checkChainId (if atFork number (cp_EIP158ForkBlock p) then cp_chainID p else - 4) t)
     else Inr ())"



end
