(* ===== verification/Seal_Props.thy ===== *)
theory Seal_Props
  imports Seal_Engine
begin

section \<open>What the seal engine guarantees\<close>

text \<open>
  The schedule of every block is one of the forks', the difficulty never falls below the minimum
  and never grows with the time of the block, and a header made from its parent passes the checks
  of the same engine.
\<close>

lemma schedule_of_fork: "evmSchedule p n \<in> set forkSchedules"
  by (simp add: evmSchedule_def scheduleForBlockNumber_def forkSchedules_def)

subsection \<open>Difficulty\<close>

lemma sdiv_mono:
  fixes a b c :: int
  assumes "a \<le> b" "0 < c"
  shows "a sdiv c \<le> b sdiv c"
proof -
  have e: "x sdiv c = (if 0 \<le> x then x div c else - ((- x) div c))" for x
    using assms(2) by (auto simp: signed_divide_int_def sgn_if)
  show ?thesis
  proof (cases "0 \<le> a")
    case True
    with assms show ?thesis by (simp add: e zdiv_mono1)
  next
    case False
    show ?thesis
    proof (cases "0 \<le> b")
      case True
      have "0 \<le> (- a) div c" "0 \<le> b div c" using False True assms(2) by (simp_all add: pos_imp_zdiv_nonneg_iff)
      with True False show ?thesis by (simp add: e)
    next
      case f: False
      have "(- b) div c \<le> (- a) div c" using assms by (intro zdiv_mono1) simp_all
      with f False show ?thesis by (simp add: e)
    qed
  qed
qed

lemma sdiv_pos: "0 \<le> (a::int) \<Longrightarrow> 0 < c \<Longrightarrow> 0 \<le> a sdiv c"
  using sdiv_mono [of 0 a c] by (simp add: signed_divide_int_def)

definition clampDifficulty :: "ChainParams \<Rightarrow> int \<Rightarrow> u256" where
  "clampDifficulty p o1 = word_of_int (min (max (uint (cp_minimumDifficulty p)) o1) (2 ^ 256 - 1))"

lemma uint_clamp: "uint (clampDifficulty p o1) = min (max (uint (cp_minimumDifficulty p)) o1) (2 ^ 256 - 1)"
proof -
  let ?x = "min (max (uint (cp_minimumDifficulty p)) o1) (2 ^ 256 - 1)"
  have "0 \<le> uint (cp_minimumDifficulty p)" by simp
  then have "0 \<le> ?x" "?x < 2 ^ 256" by (simp_all add: le_max_iff_disj min_less_iff_disj)
  then show ?thesis unfolding clampDifficulty_def by (simp only: uint_word_of_int) (simp add: take_bit_int_eq_self)
qed

lemma calculate_clamp:
  "calculateEthashDifficulty sha3 p h parent =
     (if bh_number h = 0 then Inl GenesisBlockCannotBeCalculated
      else Inr (clampDifficulty p (difficultyTarget sha3 p h parent + iceAge (iceAgeNumber p h parent))))"
  by (simp add: calculateEthashDifficulty_def clampDifficulty_def Let_def)

lemma clamp_mono: "a \<le> b \<Longrightarrow> clampDifficulty p a \<le> clampDifficulty p b"
  by (simp add: word_le_def uint_clamp)

lemma clamp_min: "cp_minimumDifficulty p \<le> clampDifficulty p a"
proof -
  have "uint (cp_minimumDifficulty p) < 2 ^ 256" using uint_lt2p [of "cp_minimumDifficulty p"] by simp
  then show ?thesis by (simp add: word_le_def uint_clamp)
qed

lemma difficultyTarget_homestead:
  assumes "atFork (bh_number h) (cp_homesteadForkBlock p)"
  shows "difficultyTarget sha3 p h parent =
     uint (bh_difficulty parent) + uint (bh_difficulty parent div 2048) *
       (if \<not> atFork (bh_number h) (cp_byzantiumForkBlock p)
        then max (1 - (bh_timestamp h - bh_timestamp parent) sdiv 10) (- 99)
        else max ((if bh_hasUncles sha3 parent then 2 else 1) - (bh_timestamp h - bh_timestamp parent) sdiv 9) (- 99))"
  using assms by (simp add: difficultyTarget_def Let_def)

text \<open>C27: From Homestead on, the difficulty computed for a block never falls below the minimum of the
  chain, and of two blocks of the same number over the same parent the later one is not harder;
  a block later than its parent is adjusted, before the ice age is added, by at most two steps of
  the 2048th part of the parent's difficulty upwards and ninety-nine downwards.\<close>

theorem difficulty_falls_with_time:
  assumes "atFork (bh_number h) (cp_homesteadForkBlock p)" and "bh_number h' = bh_number h"
    and "bh_timestamp parent \<le> bh_timestamp h" and "bh_timestamp h \<le> bh_timestamp h'"
    and "calculateEthashDifficulty sha3 p h parent = Inr d" and "calculateEthashDifficulty sha3 p h' parent = Inr d'"
  shows "cp_minimumDifficulty p \<le> d' \<and> d' \<le> d \<and>
    difficultyTarget sha3 p h parent \<le> uint (bh_difficulty parent) + 2 * uint (bh_difficulty parent div 2048) \<and>
    difficultyTarget sha3 p h parent \<ge> uint (bh_difficulty parent) - 99 * uint (bh_difficulty parent div 2048)"
proof -
  let ?D = "bh_difficulty parent" and ?s = "uint (bh_difficulty parent div 2048)"
  have at': "atFork (bh_number h') (cp_homesteadForkBlock p)" using assms(1,2) by simp
  note t = difficultyTarget_homestead [OF assms(1), of sha3 parent] difficultyTarget_homestead [OF at', of sha3 parent]
  have s: "0 \<le> ?s" by simp
  have m: "(bh_timestamp h - bh_timestamp parent) sdiv c \<le> (bh_timestamp h' - bh_timestamp parent) sdiv c" if "0 < c" for c
    using assms(4) by (intro sdiv_mono that) simp
  have p: "0 \<le> (bh_timestamp h - bh_timestamp parent) sdiv c" if "0 < c" for c
    using assms(3) by (intro sdiv_pos that) simp
  have le: "difficultyTarget sha3 p h' parent \<le> difficultyTarget sha3 p h parent"
    unfolding t assms(2) using m [of 9] m [of 10] by (auto intro!: mult_left_mono)
  have i: "iceAgeNumber p h' parent = iceAgeNumber p h parent" unfolding iceAgeNumber_def assms(2) ..
  have "d = clampDifficulty p (difficultyTarget sha3 p h parent + iceAge (iceAgeNumber p h parent))"
    "d' = clampDifficulty p (difficultyTarget sha3 p h' parent + iceAge (iceAgeNumber p h parent))"
    using assms(5,6) i by (auto simp: calculate_clamp split: if_splits)
  then have "cp_minimumDifficulty p \<le> d'" "d' \<le> d" using le clamp_min clamp_mono by simp_all
  moreover have "?s * max (x - (bh_timestamp h - bh_timestamp parent) sdiv c) (- 99) \<le> ?s * 2"
    "?s * (- 99) \<le> ?s * max (x - (bh_timestamp h - bh_timestamp parent) sdiv c) (- 99)" if "x \<le> 2" "0 < c" for x c
    by (rule mult_left_mono [OF _ s], use p [OF that(2)] that(1) in simp)
      (rule mult_left_mono [OF _ s], simp)
  from this [of 1 10] this [of 1 9] this [of 2 9]
  have "difficultyTarget sha3 p h parent \<le> uint ?D + 2 * ?s" "difficultyTarget sha3 p h parent \<ge> uint ?D - 99 * ?s"
    unfolding t by (auto simp: mult.commute)
  ultimately show ?thesis by simp
qed

definition sampleParams :: ChainParams where
  "sampleParams = defaultChainParams\<lparr>cp_homesteadForkBlock := 0, cp_byzantiumForkBlock := 5\<rparr>"

definition sampleParent :: BlockHeader where
  "sampleParent = emptyHeader\<lparr>bh_number := 7, bh_timestamp := 1000, bh_gasLimit := 4000000, bh_difficulty := 2048000,
     bh_hash := 77\<rparr>"

lemma difficulty_falls_with_time_witness:
  "\<exists>d d'. calculateEthashDifficulty (\<lambda>_. 0) sampleParams (emptyHeader\<lparr>bh_number := 8, bh_timestamp := 1005\<rparr>) sampleParent = Inr d \<and>
     calculateEthashDifficulty (\<lambda>_. 0) sampleParams (emptyHeader\<lparr>bh_number := 8, bh_timestamp := 1100\<rparr>) sampleParent = Inr d' \<and>
     d' \<le> d"
proof -
  let ?h = "emptyHeader\<lparr>bh_number := 8, bh_timestamp := 1005\<rparr>" and ?h' = "emptyHeader\<lparr>bh_number := 8, bh_timestamp := 1100\<rparr>"
  obtain d d' where d: "calculateEthashDifficulty (\<lambda>_. 0) sampleParams ?h sampleParent = Inr d"
    "calculateEthashDifficulty (\<lambda>_. 0) sampleParams ?h' sampleParent = Inr d'"
    by (simp add: calculate_clamp emptyHeader_def)
  have "atFork (bh_number ?h) (cp_homesteadForkBlock sampleParams)" by (simp add: atFork_def sampleParams_def)
  from difficulty_falls_with_time [OF this _ _ _ d] d show ?thesis by (auto simp: sampleParent_def)
qed

subsection \<open>A header made from its parent\<close>

text \<open>The gas limit chosen lies strictly within the bounds that \<open>verify\<close> sets.\<close>

lemma gasLimit_within:
  fixes g d f :: u256
  assumes d: "0 < d" "d \<le> g" and small: "unat g < 2 ^ 255"
  shows "(if g < f then min f (g + g div d - 1) else max f (g - g div d + 1)) > g - g div d"
    and "(if g < f then min f (g + g div d - 1) else max f (g - g div d + 1)) < g + g div d"
    and "min g f \<le> (if g < f then min f (g + g div d - 1) else max f (g - g div d + 1))"
    and "(if g < f then min f (g + g div d - 1) else max f (g - g div d + 1)) \<le> max g f"
proof -
  have q: "unat (g div d) = unat g div unat d" by (simp add: unat_div_distrib)
  have d1: "1 \<le> unat d" using d(1) by (simp add: word_less_nat_alt Suc_le_eq)
  have q1: "1 \<le> unat g div unat d" using d d1 by (simp add: word_le_nat_alt div_greater_zero_iff Suc_le_eq)
  have qg: "unat g div unat d \<le> unat g" by simp
  have plus: "unat (g + g div d) = unat g + unat g div unat d"
  proof -
    have "unat g + unat g div unat d \<le> 2 * unat g" using qg by simp
    also have "\<dots> < 2 ^ 256" using small by simp
    finally show ?thesis by (subst unat_add_lem [THEN iffD1]) (simp_all add: q)
  qed
  have plus1: "unat (g + g div d - 1) = unat g + unat g div unat d - 1"
    using plus q1 by (subst unat_sub) (simp_all add: word_le_nat_alt)
  have minus: "unat (g - g div d) = unat g - unat g div unat d"
    using qg by (subst unat_sub) (simp_all add: word_le_nat_alt q)
  have minus1: "unat (g - g div d + 1) = unat g - unat g div unat d + 1"
    using minus small q1 qg by (subst unat_add_lem [THEN iffD1]) simp_all
  define Q where "Q = unat g div unat d"
  have Q: "1 \<le> Q" "Q \<le> unat g" using q1 qg by (simp_all add: Q_def)
  note n = word_less_nat_alt word_le_nat_alt plus [folded Q_def] plus1 [folded Q_def] minus [folded Q_def] minus1 [folded Q_def]
  show "(if g < f then min f (g + g div d - 1) else max f (g - g div d + 1)) > g - g div d"
    "(if g < f then min f (g + g div d - 1) else max f (g - g div d + 1)) < g + g div d"
    "min g f \<le> (if g < f then min f (g + g div d - 1) else max f (g - g div d + 1))"
    "(if g < f then min f (g + g div d - 1) else max f (g - g div d + 1)) \<le> max g f"
    using Q by (auto simp: min_def max_def n)
qed

lemma verifyGasLimit_next:
  assumes g: "bh_gasLimit h = calculateGasLimit p (h0\<lparr>bh_gasLimit := bh_gasLimit parent, bh_gasUsed := 0\<rparr>) Invalid256c"
    and d: "0 < cp_gasLimitBoundDivisor p" "cp_gasLimitBoundDivisor p \<le> bh_gasLimit parent"
    and small: "unat (bh_gasLimit parent) < 2 ^ 255"
    and range: "cp_minGasLimit p \<le> bh_gasLimit parent" "bh_gasLimit parent \<le> cp_maxGasLimit p"
      "cp_minGasLimit p \<le> 3141562" "3141562 \<le> cp_maxGasLimit p"
  shows "verifyGasLimit p h parent = Inr ()" and "cp_minGasLimit p \<le> bh_gasLimit h" and "bh_gasLimit h \<le> cp_maxGasLimit p"
proof -
  have e: "bh_gasLimit h = (if bh_gasLimit parent < 3141562
      then min 3141562 (bh_gasLimit parent + bh_gasLimit parent div cp_gasLimitBoundDivisor p - 1)
      else max 3141562 (bh_gasLimit parent - bh_gasLimit parent div cp_gasLimitBoundDivisor p + 1))"
    unfolding g by (simp add: calculateGasLimit_def Let_def)
  note w = gasLimit_within [OF d small, of 3141562, folded e]
  have lo: "cp_minGasLimit p \<le> min (bh_gasLimit parent) 3141562" and hi: "max (bh_gasLimit parent) 3141562 \<le> cp_maxGasLimit p"
    using range by (simp_all add: min_def max_def)
  show "cp_minGasLimit p \<le> bh_gasLimit h" using order_trans [OF lo w(3)] .
  moreover show "bh_gasLimit h \<le> cp_maxGasLimit p" using order_trans [OF w(4) hi] .
  ultimately show "verifyGasLimit p h parent = Inr ()"
    using w(1,2) by (simp add: verifyGasLimit_def throwIf_def Let_def not_less [symmetric])
qed

text \<open>C24: A header that the engine makes from its parent, given only a later time, is accepted by the
  engine's own checks at every strictness: number, parent hash, time, the limits of the chain,
  the bounds on the gas limit and the difficulty. The chain's bounds on the gas limit contain the
  parent's limit and the floor the engine aims at.\<close>

theorem next_header_verifies:
  assumes "bh_good parent" and "0 \<le> bh_number parent" and "bh_number parent + 1 < 2 ^ 32"
    and "bh_hash parent \<noteq> 0" and "bh_timestamp parent < bh_timestamp h0"
    and "length (bh_extraData h0) \<le> unat (cp_maximumExtraDataSize p)"
    and "\<not> atFork (bh_number parent + 1) (cp_daoHardforkBlock p) \<or> bh_extraData h0 = daoExtraData"
    and "0 < cp_gasLimitBoundDivisor p" and "cp_gasLimitBoundDivisor p \<le> bh_gasLimit parent"
    and "unat (bh_gasLimit parent) < 2 ^ 255"
    and "cp_minGasLimit p \<le> bh_gasLimit parent" and "bh_gasLimit parent \<le> cp_maxGasLimit p"
    and "cp_minGasLimit p \<le> 3141562" and "3141562 \<le> cp_maxGasLimit p"
  shows "\<exists>h. populateNext sha3 p h0 parent = Inr h \<and> noProofVerify sha3 trieRoot p strict h parent [] = Inr ()"
proof -
  let ?h1 = "bh_populateFromParent parent h0"
  have n: "bh_number ?h1 = bh_number parent + 1" by (simp add: bh_populateFromParent_def)
  let ?d = "clampDifficulty p (difficultyTarget sha3 p ?h1 parent + iceAge (iceAgeNumber p ?h1 parent))"
  have c1: "calculateEthashDifficulty sha3 p ?h1 parent = Inr ?d" using assms(2) by (simp add: calculate_clamp n)
  let ?h2 = "setDifficulty ?d ?h1"
  let ?h = "setGasLimit (calculateGasLimit p ?h2 Invalid256c) ?h2"
  have p: "populateNext sha3 p h0 parent = Inr ?h" by (simp add: populateNext_def c1 Let_def)
  have f: "bh_number ?h = bh_number parent + 1" "bh_timestamp ?h = bh_timestamp h0" "bh_difficulty ?h = ?d"
    "bh_parentHash ?h = bh_hash parent" "bh_gasUsed ?h = 0" "bh_extraData ?h = bh_extraData h0"
    by (simp_all add: setGasLimit_def setDifficulty_def noteDirty_def bh_populateFromParent_def)
  have "difficultyTarget sha3 p ?h parent = difficultyTarget sha3 p ?h1 parent"
    "iceAgeNumber p ?h parent = iceAgeNumber p ?h1 parent"
    by (simp_all add: difficultyTarget_def iceAgeNumber_def setGasLimit_def setDifficulty_def noteDirty_def Let_def)
  then have c: "verifyDifficulty sha3 p ?h parent = Inr ()"
    using assms(2) by (simp add: verifyDifficulty_def calculate_clamp f throwIf_def)
  have gl: "bh_gasLimit ?h = calculateGasLimit p (?h2\<lparr>bh_gasLimit := bh_gasLimit parent, bh_gasUsed := 0\<rparr>) Invalid256c"
    by (simp add: setGasLimit_def setDifficulty_def noteDirty_def bh_populateFromParent_def calculateGasLimit_def Let_def)
  note v = verifyGasLimit_next [OF gl assms(8-14)]
  have "verifyLimits p ?h = Inr ()"
    using v(2,3) clamp_min [of p] assms(6,7) by (auto simp: verifyLimits_def f throwIf_def not_less [symmetric] Let_def)
  moreover have "bh_verify sha3 trieRoot strict ?h parent [] = Inr ()"
    using assms(1-5) by (simp add: bh_verify_def f throwIf_def headerHash_def liftHeader_def)
  ultimately have "noProofVerify sha3 trieRoot p strict ?h parent [] = Inr ()"
    using v(1) c by (simp add: noProofVerify_def engineVerify_def)
  with p show ?thesis by blast
qed

lemma next_header_verifies_witness:
  "\<exists>h. populateNext (\<lambda>_. 0) sampleParams (emptyHeader\<lparr>bh_timestamp := 1013\<rparr>) sampleParent = Inr h \<and>
     noProofVerify (\<lambda>_. 0) (\<lambda>_. 0) sampleParams CheckEverything h sampleParent [] = Inr ()"
  by (rule next_header_verifies)
    (simp_all add: sampleParent_def sampleParams_def defaultChainParams_def emptyHeader_def bh_good_def atFork_def
      c_infiniteBlockNumber_def)

text \<open>C28: The gas limit of the next block does not depend on the gas its parent used, nor on what the
  header held before: the term of \<open>calculateGasLimit\<close> for the gas used is always zero, since
  \<open>populateFromParent\<close> has set the gas used to zero just before.\<close>

theorem gasLimit_ignores_usage:
  "populateNext sha3 p h (parent\<lparr>bh_gasUsed := u\<rparr>) = populateNext sha3 p h parent \<and>
   populateNext sha3 p (h\<lparr>bh_gasUsed := u\<rparr>) parent = populateNext sha3 p h parent"
  by (simp add: populateNext_def bh_populateFromParent_def calculate_clamp difficultyTarget_def iceAgeNumber_def
      bh_hasUncles_def cong: if_cong)

end
