(* ===== verification/Log_Receipt.thy ===== *)
theory Log_Receipt
  imports Header_Codec Legacy_VM_State
begin

section \<open>Logs, receipts and filters (libethcore/LogEntry, libethereum/TransactionReceipt, LogFilter)\<close>

text \<open>
  A receipt holds the logs of a transaction and their bloom filter; a log filter looks at the
  bloom filter first and at the logs only where it may find something.
\<close>

subsection \<open>Bloom filters (libdevcore/FixedHash.h)\<close>

text \<open>
  \<open>bloomPart\<close>: each pair of bytes of the hash, as a big-endian number, gives the number of a bit
  of the 2048. Byte \<open>M - 1 - index / 8\<close> holds the bits \<open>index\<close> of the number read big-endian.
\<close>

definition bloomIndex :: "bytes \<Rightarrow> nat \<Rightarrow> nat" where
  "bloomIndex p i = (unat (p ! (2 * i)) * 256 + unat (p ! (2 * i + 1))) mod 2048"

definition bloomPart :: "nat \<Rightarrow> h256 \<Rightarrow> log_bloom" where
  "bloomPart P h = fold (\<lambda>i ret. ret OR push_bit (bloomIndex (toBigEndian 32 (unat h)) i) 1) [0..<P] 0"

definition shiftBloom :: "h256 \<Rightarrow> log_bloom \<Rightarrow> log_bloom" where
  "shiftBloom h b = b OR bloomPart 3 h"

definition containsBloom :: "log_bloom \<Rightarrow> h256 \<Rightarrow> bool" where
  "containsBloom b h \<longleftrightarrow> b AND bloomPart 3 h = bloomPart 3 h"

subsection \<open>Log entries\<close>

definition addressBytes :: "address \<Rightarrow> bytes" where
  "addressBytes a = toBigEndian 20 (unat a)"

definition hashBytes :: "h256 \<Rightarrow> bytes" where
  "hashBytes h = toBigEndian 32 (unat h)"

definition entryBloom :: "(bytes \<Rightarrow> h256) \<Rightarrow> LogEntry \<Rightarrow> log_bloom" where
  "entryBloom sha3 le =
     fold (\<lambda>t ret. shiftBloom (sha3 (hashBytes t)) ret) (le_topics le)
       (shiftBloom (sha3 (addressBytes (le_address le))) 0)"

definition bloomOf :: "(bytes \<Rightarrow> h256) \<Rightarrow> LogEntry list \<Rightarrow> log_bloom" where
  "bloomOf sha3 ls = fold (\<lambda>l ret. ret OR entryBloom sha3 l) ls 0"

text \<open>\<open>appendVector\<close> of the topics.\<close>

fun appendTopics :: "h256 list \<Rightarrow> rlp_stream \<Rightarrow> rlp_error + rlp_stream" where
  "appendTopics [] s = Inr s"
| "appendTopics (t # ts) s = andThen (append_h256 t s) (appendTopics ts)"

definition entry_streamRLP :: "LogEntry \<Rightarrow> rlp_stream \<Rightarrow> rlp_error + rlp_stream" where
  "entry_streamRLP le s =
     andThen (appendList s 3) (\<lambda>s.
     andThen (append_bytes s (addressBytes (le_address le)) False) (\<lambda>s.
     andThen (appendList s (length (le_topics le))) (\<lambda>s.
     andThen (appendTopics (le_topics le) s) (\<lambda>s.
     append_bytes s (le_data le) False))))"

text \<open>
  The constructor from RLP. \<open>toVector\<close> converts its elements with \<open>LaissezFaire\<close>. The loop of
  the conversion has as many iterations as the bytes it reads, and one.
\<close>

definition toTopic :: "bytes \<Rightarrow> rlp_error + h256" where
  "toTopic d = andThen (toHash 32 d LaissezFaire) (\<lambda>bs. Inr (word_of_nat (fromBigEndian bs)))"

definition toTopics :: "bytes \<Rightarrow> rlp_error + h256 list" where
  "toTopics d = (case toVector (length d + 1) toTopic d LaissezFaire of Some r \<Rightarrow> r | None \<Rightarrow> Inl RLPException)"

definition entryFromRLP :: "bytes \<Rightarrow> rlp_error + LogEntry" where
  "entryFromRLP d =
     andThen (fieldAt 0 toAddress (freshRLP d)) (\<lambda>(a, r).
     andThen (fieldAt 1 toTopics r) (\<lambda>(ts, r).
     andThen (fieldAt 2 (\<lambda>x. toBytes x LaissezFaire) r) (\<lambda>(dat, r).
     Inr \<lparr>le_address = a, le_topics = ts, le_data = dat\<rparr>)))"

subsection \<open>Receipts\<close>

datatype status_or_root = StatusCode byte | StateRoot h256

record TransactionReceipt =
  tr_statusOrRoot :: status_or_root
  tr_gasUsed :: u256
  tr_bloom :: log_bloom
  tr_log :: "LogEntry list"

datatype receipt_exception = InvalidTransactionReceiptFormat | TransactionReceiptVersionError | ReceiptRlp rlp_error

text \<open>The constructors from a state root or a status.\<close>

definition mkReceipt :: "(bytes \<Rightarrow> h256) \<Rightarrow> status_or_root \<Rightarrow> u256 \<Rightarrow> LogEntry list \<Rightarrow> TransactionReceipt" where
  "mkReceipt sha3 s g ls = \<lparr>tr_statusOrRoot = s, tr_gasUsed = g, tr_bloom = bloomOf sha3 ls, tr_log = ls\<rparr>"

definition hasStatusCode :: "TransactionReceipt \<Rightarrow> bool" where
  "hasStatusCode r = (case tr_statusOrRoot r of StatusCode _ \<Rightarrow> True | StateRoot _ \<Rightarrow> False)"

definition statusCode :: "TransactionReceipt \<Rightarrow> receipt_exception + byte" where
  "statusCode r = (case tr_statusOrRoot r of StatusCode c \<Rightarrow> Inr c | StateRoot _ \<Rightarrow> Inl TransactionReceiptVersionError)"

definition stateRoot :: "TransactionReceipt \<Rightarrow> receipt_exception + h256" where
  "stateRoot r = (case tr_statusOrRoot r of StateRoot h \<Rightarrow> Inr h | StatusCode _ \<Rightarrow> Inl TransactionReceiptVersionError)"

fun appendEntries :: "LogEntry list \<Rightarrow> rlp_stream \<Rightarrow> rlp_error + rlp_stream" where
  "appendEntries [] s = Inr s"
| "appendEntries (l # ls) s = andThen (entry_streamRLP l s) (appendEntries ls)"

definition receipt_streamRLP :: "TransactionReceipt \<Rightarrow> rlp_stream \<Rightarrow> rlp_error + rlp_stream" where
  "receipt_streamRLP r s =
     andThen (appendList s 4) (\<lambda>s.
     andThen (case tr_statusOrRoot r of StatusCode c \<Rightarrow> append_bigint s (unat c) | StateRoot h \<Rightarrow> append_h256 h s) (\<lambda>s.
     andThen (append_bigint s (unat (tr_gasUsed r))) (\<lambda>s.
     andThen (append_bytes s (toBigEndian 256 (unat (tr_bloom r))) False) (\<lambda>s.
     andThen (appendList s (length (tr_log r))) (appendEntries (tr_log r))))))"

definition receipt_rlp :: "TransactionReceipt \<Rightarrow> rlp_error + bytes" where
  "receipt_rlp r = andThen (receipt_streamRLP r emptyStream) stream_out"

definition liftReceipt :: "rlp_error + 'a \<Rightarrow> receipt_exception + 'a" where
  "liftReceipt r = (case r of Inl e \<Rightarrow> Inl (ReceiptRlp e) | Inr x \<Rightarrow> Inr x)"

text \<open>
  The first field: 32 bytes are a state root, an integer is a status. Its two readings by
  \<open>operator[]\<close> leave the cache at the same index.
\<close>

definition toStatusOrRoot :: "bytes \<Rightarrow> receipt_exception + status_or_root" where
  "toStatusOrRoot d =
     (if \<not> isData d then Inl InvalidTransactionReceiptFormat
      else andThen (liftReceipt (rlp_size d)) (\<lambda>sz.
        if sz = 32 then andThen (liftReceipt (toH256 d)) (\<lambda>h. Inr (StateRoot h))
        else andThen (liftReceipt (isInt d)) (\<lambda>int_ok.
          if int_ok then andThen (liftReceipt (toInt (Some 1) d Strict)) (\<lambda>n. Inr (StatusCode (word_of_nat n)))
          else Inl InvalidTransactionReceiptFormat)))"

definition toEntries :: "bytes \<Rightarrow> rlp_error + LogEntry list" where
  "toEntries d =
     (case rangeFor (length d + 1) d of
        Some res \<Rightarrow> andThen res (mapErr (\<lambda>r. entryFromRLP (m_data r)))
      | None \<Rightarrow> Inl RLPException)"

definition receiptFromRLP :: "bytes \<Rightarrow> receipt_exception + TransactionReceipt" where
  "receiptFromRLP d =
     andThen (liftReceipt (mkRLP d VeryStrict)) (\<lambda>r.
     if \<not> isList (m_data r) then Inl InvalidTransactionReceiptFormat
     else andThen (liftReceipt (itemCount (m_data r))) (\<lambda>n.
     if n \<noteq> 4 then Inl InvalidTransactionReceiptFormat
     else andThen (liftReceipt (fieldAt 0 Inr r)) (\<lambda>(x, r).
     andThen (toStatusOrRoot x) (\<lambda>st.
     andThen (liftReceipt (fieldAt 1 toU256 r)) (\<lambda>(g, r).
     andThen (liftReceipt (fieldAt 2 toBloom r)) (\<lambda>(b, r).
     andThen (liftReceipt (fieldAt 3 toEntries r)) (\<lambda>(ls, r).
     Inr \<lparr>tr_statusOrRoot = st, tr_gasUsed = g, tr_bloom = b, tr_log = ls\<rparr>)))))))"

subsection \<open>Filters\<close>

text \<open>The hash sets of a filter are the lists of their elements in the order they are enumerated.\<close>

record LogFilter =
  lf_addresses :: "address list"
  lf_topics :: "h256 list list"
  lf_earliest :: h256
  lf_latest :: h256

definition mkFilter :: "h256 \<Rightarrow> h256 \<Rightarrow> LogFilter" where
  "mkFilter earliest latest =
     \<lparr>lf_addresses = [], lf_topics = [[], [], [], []], lf_earliest = earliest, lf_latest = latest\<rparr>"

definition filter_address :: "address \<Rightarrow> LogFilter \<Rightarrow> LogFilter" where
  "filter_address a F = F\<lparr>lf_addresses := List.insert a (lf_addresses F)\<rparr>"

definition filter_topic :: "nat \<Rightarrow> h256 \<Rightarrow> LogFilter \<Rightarrow> LogFilter" where
  "filter_topic i t F =
     (if i < 4 then F\<lparr>lf_topics := (lf_topics F)[i := List.insert t (lf_topics F ! i)]\<rparr> else F)"

definition isRangeFilter :: "LogFilter \<Rightarrow> bool" where
  "isRangeFilter F \<longleftrightarrow> lf_addresses F = [] \<and> list_all (\<lambda>t. t = []) (lf_topics F)"

definition matchesBloom :: "(bytes \<Rightarrow> h256) \<Rightarrow> LogFilter \<Rightarrow> log_bloom \<Rightarrow> bool" where
  "matchesBloom sha3 F b \<longleftrightarrow>
     (lf_addresses F = [] \<or> list_ex (\<lambda>i. containsBloom b (sha3 (addressBytes i))) (lf_addresses F)) \<and>
     list_all (\<lambda>t. t = [] \<or> list_ex (\<lambda>i. containsBloom b (sha3 (hashBytes i))) t) (lf_topics F)"

definition groupBloom :: "(bytes \<Rightarrow> h256) \<Rightarrow> log_bloom \<Rightarrow> h256 list \<Rightarrow> log_bloom" where
  "groupBloom sha3 b t = fold (\<lambda>j b. shiftBloom (sha3 (hashBytes j)) b) t b"

definition bloomPossibilities :: "(bytes \<Rightarrow> h256) \<Rightarrow> LogFilter \<Rightarrow> log_bloom list" where
  "bloomPossibilities sha3 F =
     (let topics = filter (\<lambda>t. t \<noteq> []) (lf_topics F);
          start = (\<lambda>i. shiftBloom (sha3 (addressBytes i)) 0);
          ret = concat (map (\<lambda>i. map (groupBloom sha3 (start i)) topics) (lf_addresses F));
          ret = (if ret = [] then ret @ map start (lf_addresses F) else ret)
      in if lf_addresses F = [] then ret @ map (groupBloom sha3 0) topics else ret)"

text \<open>
  The loop over the topics of one entry leaves at the first that does not fit. Topic \<open>i\<close> is read
  unless the entry has fewer than \<open>i\<close>: with exactly \<open>i\<close> the code reads behind the end of the vector,
  through a null pointer when there are no topics at all. That is undefined in the language, and
  \<open>None\<close> here.
\<close>

fun matchesTopics :: "h256 list list \<Rightarrow> h256 list \<Rightarrow> nat list \<Rightarrow> bool option" where
  "matchesTopics m_topics topics [] = Some True"
| "matchesTopics m_topics topics (i # is) =
     (if m_topics ! i = [] then matchesTopics m_topics topics is
      else if length topics < i then Some False
      else if length topics = i then None
      else if topics ! i \<in> set (m_topics ! i) then matchesTopics m_topics topics is
      else Some False)"

definition matchesEntry :: "LogFilter \<Rightarrow> LogEntry \<Rightarrow> bool option" where
  "matchesEntry F e =
     (if lf_addresses F \<noteq> [] \<and> le_address e \<notin> set (lf_addresses F) then Some False
      else matchesTopics (lf_topics F) (le_topics e) [0..<4])"

fun matchesEntries :: "LogFilter \<Rightarrow> LogEntry list \<Rightarrow> LogEntry list option" where
  "matchesEntries F [] = Some []"
| "matchesEntries F (e # es) =
     (case matchesEntry F e of None \<Rightarrow> None
      | Some m \<Rightarrow> map_option (\<lambda>ret. if m then e # ret else ret) (matchesEntries F es))"

definition matchesReceipt :: "(bytes \<Rightarrow> h256) \<Rightarrow> LogFilter \<Rightarrow> TransactionReceipt \<Rightarrow> LogEntry list option" where
  "matchesReceipt sha3 F m =
     (if isRangeFilter F then Some (tr_log m)
      else if matchesBloom sha3 F (tr_bloom m) then matchesEntries F (tr_log m) else Some [])"

subsection \<open>Writing and reading receipts\<close>

definition hashItem :: "h256 \<Rightarrow> rlp_item" where
  "hashItem h = Str (hashBytes h)"

definition entryItem :: "LogEntry \<Rightarrow> rlp_item" where
  "entryItem le = Lst [Str (addressBytes (le_address le)), Lst (map hashItem (le_topics le)), Str (le_data le)]"

definition statusItem :: "status_or_root \<Rightarrow> rlp_item" where
  "statusItem s = (case s of StatusCode c \<Rightarrow> intItem (unat c) | StateRoot h \<Rightarrow> hashItem h)"

definition receiptItem :: "TransactionReceipt \<Rightarrow> rlp_item" where
  "receiptItem r =
     Lst [statusItem (tr_statusOrRoot r), intItem (unat (tr_gasUsed r)), Str (toBigEndian 256 (unat (tr_bloom r))),
          Lst (map entryItem (tr_log r))]"

lemma appendTopics_items: "appendTopics ts s = append_items s (map hashItem ts)"
  by (induction ts arbitrary: s) (simp_all add: hashItem_def hashBytes_def append_h256_def cong: andThen_cong)

lemma entry_item: "entry_streamRLP le s = append_item s (entryItem le)"
  by (simp add: entry_streamRLP_def entryItem_def appendTopics_items andThen_last andThen_assoc eval_nat_numeral)

lemma appendEntries_items: "appendEntries ls = (\<lambda>s. append_items s (map entryItem ls))"
  by (induction ls) (simp_all add: entry_item fun_eq_iff cong: andThen_cong)

lemma receipt_item: "receipt_streamRLP r s = append_item s (receiptItem r)"
proof -
  have four: "Suc (Suc (Suc (Suc 0))) = 4" by simp
  have c: "append_bigint s (unat (c :: byte)) = append_item s (intItem (unat c))" for s c
    by (rule append_small_item) (rule less_trans [OF unsigned_less], simp)
  show ?thesis
    by (cases "tr_statusOrRoot r")
      (simp_all add: receipt_streamRLP_def receiptItem_def statusItem_def hashItem_def hashBytes_def append_h256_def c
        append_word_item appendEntries_items andThen_last andThen_assoc four)
qed

text \<open>A list that is an item of what is read has exact bytes, and its loop ends.\<close>

lemma rangeFor_enc: "fits (Lst xs) \<Longrightarrow> rangeFor (length (enc (Lst xs)) + 1) (enc (Lst xs)) = Some (Inr (map (\<lambda>x. freshRLP (enc x)) xs))"
proof -
  assume f: "fits (Lst xs)"
  note e = enc_list_facts [OF f]
  have "actualSize (enc (Lst xs)) = Inr (length (enc (Lst xs)))" using actualSize_enc [OF f, of "[]"] by (simp only: append_Nil2)
  from rangeFor_items [OF e(2) this e(3,4), of "length (enc (Lst xs)) + 1"] show ?thesis by (simp add: comp_def del: enc.simps)
qed

lemma mapErr_Inr: "(\<And>x. x \<in> set xs \<Longrightarrow> f x = Inr (g x)) \<Longrightarrow> mapErr f xs = Inr (map g xs)"
  by (induction xs) simp_all

lemma toTopics_enc:
  assumes "fits (Lst (map hashItem ts))"
  shows "toTopics (enc (Lst (map hashItem ts))) = Inr ts"
proof -
  note e = enc_list_facts [OF assms]
  have t: "toTopic (enc (hashItem h)) = Inr h" for h
  proof -
    have "unat h < 256 ^ 32" using unsigned_less [of h, where ?'a = nat] by simp
    then show ?thesis
      by (simp add: toTopic_def hashItem_def hashBytes_def toHash_Str fromBigEndian_toBigEndian del: enc.simps)
  qed
  have "mapErr (\<lambda>r. toTopic (m_data r)) (map (\<lambda>x. freshRLP (enc x)) (map hashItem ts)) = Inr ts"
    by (simp add: mapErr_map freshRLP_def t mapErr_Inr [where g = id] del: enc.simps)
  then show ?thesis
    using e rangeFor_enc [OF assms] by (simp add: toTopics_def toVector_def del: enc.simps)
qed

lemma entryFromRLP_enc:
  assumes f: "fits (entryItem le)"
  shows "entryFromRLP (enc (entryItem le)) = Inr le"
proof -
  let ?is = "[Str (addressBytes (le_address le)), Lst (map hashItem (le_topics le)), Str (le_data le)]"
  have l: "listed (map enc ?is) (freshRLP (enc (entryItem le)))"
    unfolding entryItem_def by (rule listed_enc) (use f in \<open>simp only: entryItem_def\<close>)
  have ft: "fits (Lst (map hashItem (le_topics le)))" and fd: "fits (Str (le_data le))" using f by (simp_all add: entryItem_def)
  note step = bind_field [where xs = "map enc ?is"]
  show ?thesis unfolding entryFromRLP_def
    by (rule step [OF l], simp, simp, simp add: addressBytes_def del: enc.simps, unfold prod.case,
        rule step, assumption, simp, simp, simp add: toTopics_enc [OF ft] del: enc.simps, unfold prod.case,
        rule step, assumption, simp, simp, simp add: toBytes_enc [OF fd] del: enc.simps, simp)
qed

lemma toEntries_enc:
  assumes "fits (Lst (map entryItem ls))"
  shows "toEntries (enc (Lst (map entryItem ls))) = Inr ls"
proof -
  have "fits (entryItem l)" if "l \<in> set ls" for l using assms that by auto
  then have "mapErr (\<lambda>r. entryFromRLP (m_data r)) (map (\<lambda>x. freshRLP (enc x)) (map entryItem ls)) = Inr ls"
    by (simp add: mapErr_map freshRLP_def mapErr_Inr [where g = id] entryFromRLP_enc del: enc.simps)
  then show ?thesis using rangeFor_enc [OF assms] by (simp add: toEntries_def del: enc.simps)
qed

lemma toStatusOrRoot_enc: "toStatusOrRoot (enc (statusItem s)) = Inr s"
proof (cases s)
  case (StatusCode c)
  have b: "unat c < 2 ^ 8" using unsigned_less [of c, where ?'a = nat] by simp
  then have lt: "unat c < 256 ^ 1" "unat c < 2 ^ 256" by (simp, rule less_trans, simp)
  have f: "fits (intItem (unat c))" by (rule fits_intItem [OF lt(2)])
  let ?bs = "toBigEndian (byteCount (unat c)) (unat c)"
  have f': "fits (Str ?bs)" using f by (simp add: intItem_def)
  have sz: "rlp_size (enc (Str ?bs)) = Inr (length ?bs)"
  proof -
    have "actualSize (enc (Str ?bs)) = Inr (length (enc (Str ?bs)))" using actualSize_enc [OF f', of "[]"] by simp
    from rlp_length_payload_size [OF this] enc_Str_payload [OF f'] show ?thesis by (auto simp: rlp_size_def)
  qed
  have l: "length ?bs \<noteq> 32" using lt(1) byteCount_le_iff [of "unat c" 1] by simp
  have i: "isInt (enc (Str ?bs)) = Inr True"
    by (rule isInt_enc_Str [OF f']) (use hd_toBigEndian_byteCount [of "unat c"] in \<open>cases "unat c = 0"; auto\<close>)
  have t: "toInt (Some 1) (enc (intItem (unat c))) Strict = Inr (unat c)" by (rule toInt_intItem [OF lt])
  show ?thesis
    using enc_Str_payload(2) [OF f'] sz l i t StatusCode
    by (simp add: toStatusOrRoot_def statusItem_def intItem_def liftReceipt_def del: enc.simps)
next
  case (StateRoot h)
  have f': "fits (Str (hashBytes h))" by (simp add: hashBytes_def)
  have "rlp_size (enc (Str (hashBytes h))) = Inr 32"
  proof -
    have "actualSize (enc (Str (hashBytes h))) = Inr (length (enc (Str (hashBytes h))))" using actualSize_enc [OF f', of "[]"] by simp
    from rlp_length_payload_size [OF this] enc_Str_payload [OF f'] show ?thesis by (auto simp: rlp_size_def hashBytes_def)
  qed
  with StateRoot enc_Str_payload(2) [OF f'] show ?thesis
    by (simp add: toStatusOrRoot_def statusItem_def hashItem_def hashBytes_def liftReceipt_def del: enc.simps)
qed

lemma liftReceipt_Inr [simp]: "liftReceipt (Inr x) = Inr x"
  by (simp add: liftReceipt_def)

lemma bind_lifted:
  assumes "listed xs r" "i < length xs" "i < 100" "conv (xs ! i) = Inr v"
    and "\<And>r'. listed xs r' \<Longrightarrow> k (v, r') = y"
  shows "andThen (liftReceipt (fieldAt i conv r)) k = y"
  using fieldAt_listed [where conv = conv, OF assms(1-4)] assms(5) by (auto simp: liftReceipt_def)

text \<open>C33: A receipt, with a status or a state root, whose encoding has a length of 64 bits, is read back from
  what \<open>streamRLP\<close> wrote, with its bloom filter and all its logs.\<close>

theorem receipt_roundtrip:
  assumes "fits (receiptItem r)"
  shows "\<exists>bs. receipt_rlp r = Inr bs \<and> receiptFromRLP bs = Inr r"
proof -
  let ?is = "[statusItem (tr_statusOrRoot r), intItem (unat (tr_gasUsed r)), Str (toBigEndian 256 (unat (tr_bloom r))),
     Lst (map entryItem (tr_log r))]"
  let ?d = "enc (receiptItem r)"
  have f: "fits (Lst ?is)" using assms by (simp only: receiptItem_def)
  note e = enc_list_facts [OF f, folded receiptItem_def]
  have w: "receipt_rlp r = Inr ?d"
    using rlp_of_enc [OF assms] by (simp add: receipt_rlp_def rlp_of_def receipt_item del: enc.simps)
  have l: "listed (map enc ?is) (freshRLP ?d)" unfolding receiptItem_def by (rule listed_enc [OF f])
  have fl: "fits (Lst (map entryItem (tr_log r)))" using f by simp
  have d: "m_data (freshRLP ?d) = ?d" by (simp add: freshRLP_def)
  have n: "itemCount ?d = Inr 4" using e(5) by simp
  have nth: "map enc ?is ! 0 = enc (statusItem (tr_statusOrRoot r))" by simp
  note step = bind_lifted [where xs = "map enc ?is"]
  have "receiptFromRLP ?d = Inr r"
    unfolding receiptFromRLP_def
    by (simp only: e(1) liftReceipt_Inr andThen_Inr d e(2) simp_thms if_False n,
        rule step [OF l], simp, simp, rule refl, unfold prod.case,
        simp only: nth toStatusOrRoot_enc andThen_Inr,
        rule step, assumption, simp, simp, simp del: enc.simps, unfold prod.case,
        rule step, assumption, simp, simp, simp del: enc.simps, unfold prod.case,
        rule step, assumption, simp, simp, simp add: toEntries_enc [OF fl] del: enc.simps, simp)
  with w show ?thesis by blast
qed

lemma receipt_roundtrip_witness:
  "\<exists>bs. receipt_rlp (mkReceipt (\<lambda>_. 0) (StatusCode 1) 21000 []) = Inr bs \<and>
        receiptFromRLP bs = Inr (mkReceipt (\<lambda>_. 0) (StatusCode 1) 21000 [])"
proof (rule receipt_roundtrip)
  have 1: "length (enc (Str (toBigEndian 256 0))) \<le> 256 + 9" using length_encStr [of "toBigEndian 256 0"] by (simp del: enc.simps)
  have 2: "length (enc (intItem 21000)) \<le> 41" "length (enc (intItem 1)) \<le> 41" by (rule length_intItem; simp)+
  show "fits (receiptItem (mkReceipt (\<lambda>_. 0) (StatusCode 1) 21000 []))"
    using 1 2 fits_intItem [of 21000] fits_intItem [of 1]
    by (simp add: receiptItem_def mkReceipt_def statusItem_def bloomOf_def header_def encStr_def)
qed



subsection \<open>Filtering\<close>

lemma contains_bits: "containsBloom b h \<longleftrightarrow> (\<forall>n. bit (bloomPart 3 h) n \<longrightarrow> bit b n)"
  using bit_imp_le_length [of "bloomPart 3 h"] by (fastforce simp: containsBloom_def bit_eq_iff bit_and_iff)

lemma contains_or: "containsBloom b h \<Longrightarrow> containsBloom (b OR c) h"
  by (simp add: contains_bits bit_or_iff)

lemma contains_or2: "containsBloom b h \<Longrightarrow> containsBloom (c OR b) h"
  using contains_or [of b h c] by (simp add: or.commute)

lemma contains_shift [simp]: "containsBloom (shiftBloom h b) h"
  by (simp add: contains_bits shiftBloom_def bit_or_iff)

lemma contains_shifts: "containsBloom b h \<Longrightarrow> containsBloom (fold (\<lambda>t. shiftBloom (f t)) ts b) h"
  by (induction ts arbitrary: b) (simp_all add: shiftBloom_def contains_or)

lemma contains_folded: "t \<in> set ts \<Longrightarrow> containsBloom (fold (\<lambda>t. shiftBloom (f t)) ts b) (f t)"
  by (induction ts arbitrary: b) (auto simp: contains_shifts)

lemma entryBloom_contains:
  "containsBloom (entryBloom sha3 l) (sha3 (addressBytes (le_address l)))"
  "t \<in> set (le_topics l) \<Longrightarrow> containsBloom (entryBloom sha3 l) (sha3 (hashBytes t))"
  by (simp_all add: entryBloom_def contains_shifts contains_folded [where f = "\<lambda>t. sha3 (hashBytes t)"])

lemma contains_fold: "containsBloom b h \<Longrightarrow> containsBloom (fold (\<lambda>l ret. ret OR g l) ls b) h"
  by (induction ls arbitrary: b) (simp_all add: contains_or)

lemma bloomOf_contains: "l \<in> set ls \<Longrightarrow> containsBloom (entryBloom sha3 l) h \<Longrightarrow> containsBloom (bloomOf sha3 ls) h"
proof -
  have "l \<in> set ls \<Longrightarrow> containsBloom (entryBloom sha3 l) h \<Longrightarrow> containsBloom (fold (\<lambda>l ret. ret OR entryBloom sha3 l) ls b) h" for b
    by (induction ls arbitrary: b) (auto simp: contains_fold contains_or2)
  then show "l \<in> set ls \<Longrightarrow> containsBloom (entryBloom sha3 l) h \<Longrightarrow> containsBloom (bloomOf sha3 ls) h"
    by (simp add: bloomOf_def)
qed

text \<open>What a filter asks of an entry: its address is one of those given, and so is each topic asked for.\<close>

definition wanted :: "LogFilter \<Rightarrow> LogEntry \<Rightarrow> bool" where
  "wanted F e \<longleftrightarrow>
     (lf_addresses F = [] \<or> le_address e \<in> set (lf_addresses F)) \<and>
     (\<forall>i < 4. lf_topics F ! i = [] \<or> (i < length (le_topics e) \<and> le_topics e ! i \<in> set (lf_topics F ! i)))"

lemma wanted_bloom:
  assumes w: "wanted F e" and n: "length (lf_topics F) = 4" and e: "e \<in> set ls"
  shows "matchesBloom sha3 F (bloomOf sha3 ls)"
proof -
  have "list_ex (\<lambda>i. containsBloom (bloomOf sha3 ls) (sha3 (addressBytes i))) (lf_addresses F)" if "lf_addresses F \<noteq> []"
    using w that bloomOf_contains [OF e entryBloom_contains(1)] by (auto simp: wanted_def list_ex_iff)
  moreover have "t = [] \<or> list_ex (\<lambda>i. containsBloom (bloomOf sha3 ls) (sha3 (hashBytes i))) t" if t: "t \<in> set (lf_topics F)" for t
  proof -
    from t n obtain i where "i < 4" "t = lf_topics F ! i" by (auto simp: in_set_conv_nth)
    with w show ?thesis using bloomOf_contains [OF e entryBloom_contains(2) [OF nth_mem]] by (auto simp: wanted_def list_ex_iff)
  qed
  ultimately show ?thesis by (auto simp: matchesBloom_def list_all_iff)
qed

text \<open>
  The entries whose test leaves the vector of topics: the address is asked for, and so is every topic
  up to one that is asked for and is the first the entry does not have.
\<close>

definition runsOut :: "LogFilter \<Rightarrow> LogEntry \<Rightarrow> bool" where
  "runsOut F e \<longleftrightarrow>
     (lf_addresses F = [] \<or> le_address e \<in> set (lf_addresses F)) \<and>
     length (le_topics e) < 4 \<and> lf_topics F ! length (le_topics e) \<noteq> [] \<and>
     (\<forall>i < length (le_topics e). lf_topics F ! i = [] \<or> le_topics e ! i \<in> set (lf_topics F ! i))"

definition passes :: "h256 list list \<Rightarrow> h256 list \<Rightarrow> nat \<Rightarrow> bool" where
  "passes ms ts i \<longleftrightarrow> ms ! i = [] \<or> (i < length ts \<and> ts ! i \<in> set (ms ! i))"

lemma matchesTopics_from:
  assumes "k \<le> 4"
  shows "matchesTopics ms ts [k..<4] =
    (if k \<le> length ts \<and> length ts < 4 \<and> ms ! length ts \<noteq> [] \<and> (\<forall>i. k \<le> i \<longrightarrow> i < length ts \<longrightarrow> passes ms ts i)
     then None else Some (\<forall>i. k \<le> i \<longrightarrow> i < 4 \<longrightarrow> passes ms ts i))"
  using assms
proof (induction "4 - k" arbitrary: k)
  case (Suc n)
  then have k: "k < 4" and IH: "matchesTopics ms ts [Suc k..<4] =
    (if Suc k \<le> length ts \<and> length ts < 4 \<and> ms ! length ts \<noteq> [] \<and> (\<forall>i. Suc k \<le> i \<longrightarrow> i < length ts \<longrightarrow> passes ms ts i)
     then None else Some (\<forall>i. Suc k \<le> i \<longrightarrow> i < 4 \<longrightarrow> passes ms ts i))"
    using Suc(1) [of "Suc k"] by simp_all
  have from_k: "(\<forall>i. k \<le> i \<longrightarrow> i < m \<longrightarrow> passes ms ts i) \<longleftrightarrow> passes ms ts k \<and> (\<forall>i. Suc k \<le> i \<longrightarrow> i < m \<longrightarrow> passes ms ts i)"
    if "k < m" for m
  proof -
    have "k \<le> i \<longleftrightarrow> i = k \<or> Suc k \<le> i" for i by auto
    then show ?thesis using that by auto
  qed
  consider "length ts < k" | "length ts = k" | "k < length ts" by linarith
  then show ?case
  proof cases
    case 1
    then show ?thesis using k IH from_k [OF k] by (simp add: upt_rec [of k] passes_def)
  next
    case 2
    then show ?thesis using k IH from_k [OF k] by (simp add: upt_rec [of k] passes_def)
  next
    case 3
    then show ?thesis using k IH from_k [OF k] from_k [OF 3] by (simp add: upt_rec [of k] passes_def)
  qed
qed simp

lemma matchesEntry_exact: "matchesEntry F e = (if runsOut F e then None else Some (wanted F e))"
proof -
  have "(\<forall>i < length (le_topics e). lf_topics F ! i = [] \<or> le_topics e ! i \<in> set (lf_topics F ! i)) \<longleftrightarrow>
    (\<forall>i < length (le_topics e). passes (lf_topics F) (le_topics e) i)" by (auto simp: passes_def)
  then show ?thesis
    using matchesTopics_from [of 0 "lf_topics F" "le_topics e"]
    by (auto simp: matchesEntry_def runsOut_def wanted_def passes_def [symmetric])
qed

lemma matchesEntries_exact:
  "matchesEntries F ls = (if list_all (\<lambda>e. \<not> runsOut F e) ls then Some (filter (wanted F) ls) else None)"
  by (induction ls) (simp_all add: matchesEntry_exact)

text \<open>
  An entry without topics is enough: a filter on the first topic that does not exclude its address
  reads through the null pointer of the empty vector.
\<close>

lemma runsOut_no_topics: "le_topics e = [] \<Longrightarrow> matchesEntry (filter_topic 0 t (mkFilter a b)) e = None"
  by (simp add: matchesEntry_exact runsOut_def filter_topic_def mkFilter_def)

text \<open>C34: The bloom filter of a receipt never hides a log: filtering a receipt gives exactly its logs
  whose address and topics the filter asks for, in their order. This is for receipts on which the
  filter reads no topic that is not there; otherwise, when it is not a filter of everything and the
  bloom does not reject the receipt, the code's behaviour is undefined (\<open>None\<close>), and never else.\<close>

theorem filter_finds_all:
  assumes "length (lf_topics F) = 4"
  shows "matchesReceipt sha3 F (mkReceipt sha3 s g ls) =
    (if isRangeFilter F \<or> \<not> matchesBloom sha3 F (bloomOf sha3 ls) \<or> list_all (\<lambda>e. \<not> runsOut F e) ls
     then Some (filter (wanted F) ls) else None)"
proof (cases "isRangeFilter F")
  case True
  then have "wanted F e" for e using assms by (auto simp: isRangeFilter_def wanted_def list_all_iff)
  with True show ?thesis by (simp add: matchesReceipt_def mkReceipt_def)
next
  case False
  have "filter (wanted F) ls = []" if "\<not> matchesBloom sha3 F (bloomOf sha3 ls)"
    using that wanted_bloom [OF _ assms(1)] by (auto simp: filter_empty_conv)
  with False show ?thesis by (simp add: matchesReceipt_def mkReceipt_def matchesEntries_exact)
qed

lemma filter_finds_all_witness:
  "matchesReceipt (\<lambda>bs. of_nat (fromBigEndian bs)) (filter_topic 1 7 (filter_address 3 (mkFilter 0 0)))
     (mkReceipt (\<lambda>bs. of_nat (fromBigEndian bs)) (StatusCode 1) 0
        [\<lparr>le_address = 3, le_topics = [9, 7], le_data = []\<rparr>, \<lparr>le_address = 3, le_topics = [], le_data = []\<rparr>]) =
   Some [\<lparr>le_address = 3, le_topics = [9, 7], le_data = []\<rparr>]"
proof -
  let ?F = "filter_topic 1 7 (filter_address 3 (mkFilter 0 0))"
  have F: "?F = \<lparr>lf_addresses = [3], lf_topics = [[], [7], [], []], lf_earliest = 0, lf_latest = 0\<rparr>"
    by (simp add: filter_topic_def filter_address_def mkFilter_def)
  have four: "{..<4} = {0, 1, 2, 3 :: nat}" by auto
  have lt: "(\<forall>i < 4. P i) \<longleftrightarrow> P 0 \<and> P 1 \<and> P 2 \<and> P (3::nat)" for P
    using arg_cong [OF four, of "\<lambda>A. \<forall>i \<in> A. P i"] unfolding Ball_def lessThan_iff by auto
  show ?thesis unfolding F by (subst filter_finds_all) (simp_all add: wanted_def runsOut_def lt)
qed

end
