(* ===== verification/Execution.thy ===== *)
theory Execution
  imports Legacy_VM World_Commit Seal_Engine Log_Receipt
begin

section \<open>Executing a transaction, a call or a creation (libethereum/Executive.h, Executive.cpp)\<close>

text \<open>
  \<open>Executive\<close> runs one transaction, or one call or creation that a contract makes: it checks and
  pays for the transaction, sets up the context of the interpreter, runs it, deposits the code of
  a creation, undoes everything when the interpreter threw, and settles refunds, fees and
  suicides. The interpreter is an argument, \<open>run\<close>: theory \<open>Ext_VM\<close> ties the knot between the
  two. An exception is a value together with the object it left.
\<close>

subsection \<open>Results\<close>

datatype TransactionException =
  TE_None | TE_Unknown | TE_BadRLP | TE_InvalidFormat | TE_OutOfGasIntrinsic | TE_InvalidSignature
| TE_InvalidNonce | TE_NotEnoughCash | TE_OutOfGasBase | TE_BlockGasLimitReached | TE_BadInstruction
| TE_BadJumpDestination | TE_OutOfGas | TE_OutOfStack | TE_StackUnderflow | TE_RevertInstruction
| TE_InvalidZeroSignatureFormat | TE_AddressAlreadyUsed

datatype CodeDeposit = CD_None | CD_Failed | CD_Success

record ExecutionResult =
  r_gasUsed :: u256
  r_excepted :: TransactionException
  r_newAddress :: address
  r_output :: bytes
  r_codeDeposit :: CodeDeposit
  r_gasRefunded :: u256
  r_depositSize :: nat
  r_gasForDeposit :: u256

definition emptyResult :: ExecutionResult where
  "emptyResult =
     \<lparr>r_gasUsed = 0, r_excepted = TE_Unknown, r_newAddress = 0, r_output = [], r_codeDeposit = CD_None,
      r_gasRefunded = 0, r_depositSize = 0, r_gasForDeposit = 0\<rparr>"

text \<open>The exceptions that leave an executive: from the state, from the checks, and its own.\<close>

datatype exec_exception =
  ExState state_exception | ExCheck tx_check_exception | ExRlp rlp_error | ExInvalidNonce | ExNotEnoughCash

text \<open>\<open>toTransactionException\<close>, on the exceptions of the checks and on those of the interpreter.\<close>

fun txToTransactionException :: "tx_check_exception \<Rightarrow> TransactionException" where
  "txToTransactionException (TxInvalid (TxRlp e)) = TE_BadRLP"
| "txToTransactionException (TxInvalid InvalidSignature) = TE_InvalidSignature"
| "txToTransactionException (TxInvalid InvalidTransactionFormat) = TE_Unknown"
| "txToTransactionException (TxInvalid TransactionIsUnsigned) = TE_Unknown"
| "txToTransactionException InvalidZeroSignatureTransaction = TE_Unknown"
| "txToTransactionException OutOfGasIntrinsic = TE_OutOfGasIntrinsic"
| "txToTransactionException BlockGasLimitReached = TE_BlockGasLimitReached"

fun vmToTransactionException :: "vm_exception \<Rightarrow> TransactionException" where
  "vmToTransactionException BadInstruction = TE_BadInstruction"
| "vmToTransactionException BadJumpDestination = TE_BadJumpDestination"
| "vmToTransactionException OutOfGas = TE_OutOfGas"
| "vmToTransactionException OutOfStack = TE_OutOfStack"
| "vmToTransactionException StackUnderflow = TE_StackUnderflow"
| "vmToTransactionException DisallowedStateChange = TE_Unknown"
| "vmToTransactionException BufferOverrun = TE_Unknown"
| "vmToTransactionException (RevertInstruction bs) = TE_Unknown"

subsection \<open>The object\<close>

text \<open>
  What an executive is given besides the state and the block: the hash function and the tries,
  the signature library, the parameters of the chain, whether its seal engine is \<open>Ethash\<close>, the
  hashes of the blocks before a block with what is read behind the end of that list, the
  enumeration order of the cache, and the two values of the interpreter's build.
\<close>

record chain =
  z_crypto :: crypto
  z_keys :: keys
  z_params :: ChainParams
  z_ethash :: bool
  z_lastHashes :: "h256 \<Rightarrow> h256 list"
  z_oobHash :: h256
  z_order :: "(address \<Rightarrow> Account option) \<Rightarrow> address list"
  z_optimize :: bool
  z_oobStepGas :: nat

text \<open>
  \<open>m_s\<close> is a reference to the state, and so is that of the interpreter's context: the field
  \<open>world\<close> of \<open>x_ext\<close> is only looked at while the interpreter runs, and set before.
\<close>

record Executive =
  x_s :: State
  x_envInfo :: EnvInfo
  x_ext :: "State ext option"
  x_output :: bytes
  x_res :: "ExecutionResult option"
  x_depth :: nat
  x_excepted :: TransactionException
  x_baseGasRequired :: int
  x_gas :: u256
  x_t :: Transaction
  x_logs :: "LogEntry list"
  x_gasCost :: u256
  x_isCreation :: bool
  x_newAddress :: address
  x_savepoint :: nat

type_synonym 'a exec_result = "exec_exception \<times> Executive + 'a"

type_synonym vm_run = "State ext \<Rightarrow> u256 \<Rightarrow> (vm_exception + bytes) \<times> u256 \<times> State ext"

definition mkExecutive :: "State \<Rightarrow> EnvInfo \<Rightarrow> nat \<Rightarrow> Executive" where
  "mkExecutive S env level =
     \<lparr>x_s = S, x_envInfo = env, x_ext = None, x_output = [], x_res = None, x_depth = level,
      x_excepted = TE_None, x_baseGasRequired = 0, x_gas = 0, x_t = nullTransaction, x_logs = [],
      x_gasCost = 0, x_isCreation = False, x_newAddress = 0, x_savepoint = 0\<rparr>"

text \<open>A query of the state, and an operation of the state that may throw.\<close>

definition ask :: "(State \<Rightarrow> 'a \<times> State) \<Rightarrow> Executive \<Rightarrow> 'a \<times> Executive" where
  "ask q e = (let (v, S) = q (x_s e) in (v, e\<lparr>x_s := S\<rparr>))"

definition act :: "(State \<Rightarrow> State st_result) \<Rightarrow> Executive \<Rightarrow> Executive exec_result" where
  "act f e = (case f (x_s e) of Inl (x, S) \<Rightarrow> Inl (ExState x, e\<lparr>x_s := S\<rparr>) | Inr S \<Rightarrow> Inr (e\<lparr>x_s := S\<rparr>))"

definition onState :: "(State \<Rightarrow> State) \<Rightarrow> Executive \<Rightarrow> Executive" where
  "onState f e = e\<lparr>x_s := f (x_s e)\<rparr>"

definition gasUsed :: "Executive \<Rightarrow> u256" where
  "gasUsed e = t_gas (x_t e) - x_gas e"

definition accrueSubState :: "Executive \<Rightarrow> SubState \<Rightarrow> SubState" where
  "accrueSubState e parent = (case x_ext e of Some ext \<Rightarrow> addSubState parent (sub ext) | None \<Rightarrow> parent)"

definition revert :: "chain \<Rightarrow> Executive \<Rightarrow> Executive" where
  "revert Z e =
     onState (rollback (z_crypto Z) (x_savepoint e))
       (e\<lparr>x_ext := map_option (\<lambda>ext. ext\<lparr>sub := emptySubState\<rparr>) (x_ext e), x_newAddress := 0\<rparr>)"

definition schedule_at :: "chain \<Rightarrow> Executive \<Rightarrow> EVMSchedule" where
  "schedule_at Z e = evmSchedule (z_params Z) (env_number (x_envInfo e))"

definition forkReached :: "(ChainParams \<Rightarrow> u256) \<Rightarrow> chain \<Rightarrow> Executive \<Rightarrow> bool" where
  "forkReached fork Z e \<longleftrightarrow> atFork (env_number (x_envInfo e)) (fork (z_params Z))"

subsection \<open>Checking and paying\<close>

definition engineVerifyTransaction :: "chain \<Rightarrow> Executive \<Rightarrow> Transaction \<Rightarrow> tx_check_exception + unit" where
  "engineVerifyTransaction Z e t =
     (if z_ethash Z then ethashVerifyTransaction else verifyTransaction) (z_params Z) irEverything t
       (env_number (x_envInfo e)) (env_gasLimit (x_envInfo e)) (env_gasUsed (x_envInfo e))"

definition senderOf :: "chain \<Rightarrow> Executive \<Rightarrow> address exec_result" where
  "senderOf Z e =
     (case sender (c_sha3 (z_crypto Z)) (z_keys Z) (x_t e) of
        Inl x \<Rightarrow> Inl (ExCheck (TxInvalid x), e)
      | Inr a \<Rightarrow> Inr a)"

text \<open>
  \<open>initialize\<close>. Only the exception \<open>InvalidSignature\<close> of \<open>sender\<close> is noted before it goes on.
\<close>

definition initialize :: "chain \<Rightarrow> Transaction \<Rightarrow> Executive \<Rightarrow> Executive exec_result" where
  "initialize Z t e =
     (let e = e\<lparr>x_t := t, x_baseGasRequired := tx_baseGas t (schedule_at Z e)\<rparr> in
      case engineVerifyTransaction Z e t of
        Inl x \<Rightarrow> Inl (ExCheck x, e\<lparr>x_excepted := txToTransactionException x\<rparr>)
      | Inr _ \<Rightarrow>
          if hasZeroSignature t then Inr e
          else (case senderOf Z e of
                  Inl (x, e) \<Rightarrow>
                    Inl (x, if x = ExCheck (TxInvalid InvalidSignature)
                            then e\<lparr>x_excepted := TE_InvalidSignature\<rparr> else e)
                | Inr from \<Rightarrow>
                    (let (nonceReq, e) = ask (getNonce (z_crypto Z) from) e in
                     if t_nonce t \<noteq> nonceReq then Inl (ExInvalidNonce, e\<lparr>x_excepted := TE_InvalidNonce\<rparr>)
                     else (let gasCost = uint (t_gas t) * uint (t_gasPrice t);
                               totalCost = uint (t_value t) + gasCost;
                               (bal, e) = ask (balanceOf (z_crypto Z) from) e in
                           if uint bal < totalCost
                           then Inl (ExNotEnoughCash, e\<lparr>x_excepted := TE_NotEnoughCash\<rparr>)
                           else Inr (e\<lparr>x_gasCost := word_of_int gasCost\<rparr>)))))"

subsection \<open>Calls\<close>

definition isMaxSender :: "chain \<Rightarrow> address \<Rightarrow> Executive \<Rightarrow> bool" where
  "isMaxSender Z a e \<longleftrightarrow> a = MaxAddress \<and> forkReached cp_experimentalForkBlock Z e"

text \<open>
  The context of the code of an account. The message goes through \<open>transfer\<close> last: the value has
  not moved yet when the context is made.
\<close>

definition callContext :: "chain \<Rightarrow> CallParameters \<Rightarrow> u256 \<Rightarrow> address \<Rightarrow> bytes \<Rightarrow> h256 \<Rightarrow> Executive \<Rightarrow> State ext" where
  "callContext Z p gp orig c h e =
     \<lparr>world = x_s e, envInfo = x_envInfo e, myAddress = receiveAddress p, caller = senderAddress p,
      origin = orig, ext_value = apparentValue p, gasPrice = gp, ext_data = cp_data p, ext_code = c,
      codeHash = h, sub = emptySubState, depth = x_depth e, isCreate = False, staticCall = cp_staticCall p\<rparr>"

text \<open>The part of \<open>call\<close> that runs a precompiled contract; true when it ended the call.\<close>

definition callPrecompiled :: "chain \<Rightarrow> CallParameters \<Rightarrow> Executive \<Rightarrow> (bool \<times> Executive) exec_result" where
  "callPrecompiled Z p e =
     (let g = costOfPrecompiled (z_params Z) (codeAddress p) (cp_data p) in
      if unat (cp_gas p) < g
      then andThen
             (let e = e\<lparr>x_excepted := TE_OutOfGasBase\<rparr> in
              if forkReached cp_EIP158ForkBlock Z e then act (addBalance (z_crypto Z) (codeAddress p) 0) e else Inr e)
             (\<lambda>e. Inr (True, e))
      else (let (success, out) = executePrecompiled (z_params Z) (codeAddress p) (cp_data p);
                e = e\<lparr>x_gas := word_of_nat (unat (cp_gas p) - g), x_output := out\<rparr> in
            if success then Inr (False, e) else Inr (True, e\<lparr>x_gas := 0, x_excepted := TE_OutOfGas\<rparr>)))"

text \<open>The part of \<open>call\<close> that makes the context of the code, where there is some.\<close>

definition callCode :: "chain \<Rightarrow> CallParameters \<Rightarrow> u256 \<Rightarrow> address \<Rightarrow> Executive \<Rightarrow> Executive" where
  "callCode Z p gp orig e =
     (let (has, e) = ask (addressHasCode (z_crypto Z) (codeAddress p)) (e\<lparr>x_gas := cp_gas p\<rparr>) in
      if has
      then (let (c, e) = ask (codeOf (z_crypto Z) (codeAddress p)) e;
                (h, e) = ask (codeHashOf (z_crypto Z) (codeAddress p)) e
            in e\<lparr>x_ext := Some (callContext Z p gp orig c h e)\<rparr>)
      else e)"

text \<open>The account pays a nonce, except the system's own sender on an experimental block.\<close>

definition payNonce :: "chain \<Rightarrow> address \<Rightarrow> Executive \<Rightarrow> Executive exec_result" where
  "payNonce Z a e = (if isMaxSender Z a e then Inr e else act (incNonce (z_crypto Z) a) e)"

definition setSavepoint :: "Executive \<Rightarrow> Executive" where
  "setSavepoint e = e\<lparr>x_savepoint := savepoint (x_s e)\<rparr>"

text \<open>\<open>call\<close>: true when nothing is left to run.\<close>

definition callTarget :: "chain \<Rightarrow> CallParameters \<Rightarrow> u256 \<Rightarrow> address \<Rightarrow> Executive \<Rightarrow> (bool \<times> Executive) exec_result" where
  "callTarget Z p gp orig e =
     (if isPrecompiled (z_params Z) (codeAddress p) (env_number (x_envInfo e))
      then callPrecompiled Z p e else Inr (False, callCode Z p gp orig e))"

definition x_call :: "chain \<Rightarrow> CallParameters \<Rightarrow> u256 \<Rightarrow> address \<Rightarrow> Executive \<Rightarrow> (bool \<times> Executive) exec_result" where
  "x_call Z p gp orig e =
     andThen (if tx_nonnull (x_t e) then payNonce Z (senderAddress p) e else Inr e) (\<lambda>e.
     andThen (callTarget Z p gp orig (setSavepoint e)) (\<lambda>(ended, e).
     if ended then Inr (True, e)
     else andThen (act (transferBalance (z_crypto Z) (senderAddress p) (receiveAddress p) (valueTransfer p)) e)
            (\<lambda>e. Inr (x_ext e = None, e))))"

subsection \<open>Creations\<close>

definition createContext :: "chain \<Rightarrow> address \<Rightarrow> u256 \<Rightarrow> u256 \<Rightarrow> bytes \<Rightarrow> address \<Rightarrow> Executive \<Rightarrow> State ext" where
  "createContext Z from endowment gp ini orig e =
     \<lparr>world = x_s e, envInfo = x_envInfo e, myAddress = x_newAddress e, caller = from, origin = orig,
      ext_value = endowment, gasPrice = gp, ext_data = [], ext_code = ini, codeHash = c_sha3 (z_crypto Z) ini,
      sub = emptySubState, depth = x_depth e, isCreate = True, staticCall = False\<rparr>"

definition addressTaken :: "chain \<Rightarrow> Executive \<Rightarrow> bool \<times> Executive" where
  "addressTaken Z e =
     (let (has, e) = ask (addressHasCode (z_crypto Z) (x_newAddress e)) e in
      if has then (True, e)
      else (let (n, e) = ask (getNonce (z_crypto Z) (x_newAddress e)) e in (n > 0, e)))"

definition newContract :: "chain \<Rightarrow> u256 \<Rightarrow> Executive \<Rightarrow> Executive" where
  "newContract Z n e =
     (let newNonce = (if forkReached cp_EIP158ForkBlock Z e then n + 1 else n);
          e = onState (setNonce (z_crypto Z) (x_newAddress e) newNonce) e
      in onState (clearStorage (z_crypto Z) (x_newAddress e)) e)"

text \<open>The endowment moves, the account is set up, and the code is scheduled unless it is empty.\<close>

definition prepareCreate ::
  "chain \<Rightarrow> address \<Rightarrow> u256 \<Rightarrow> u256 \<Rightarrow> bytes \<Rightarrow> address \<Rightarrow> Executive \<Rightarrow> Executive exec_result" where
  "prepareCreate Z from endowment gp ini orig e =
     andThen (act (transferBalance (z_crypto Z) from (x_newAddress e) endowment) e) (\<lambda>e.
     case requireAccountStartNonce (x_s e) of
       Inl (x, S) \<Rightarrow> Inl (ExState x, e)
     | Inr n \<Rightarrow>
         (let e = newContract Z n e in
          Inr (if ini = [] then e else e\<lparr>x_ext := Some (createContext Z from endowment gp ini orig e)\<rparr>)))"

definition addressUsed :: "chain \<Rightarrow> Executive \<Rightarrow> Executive" where
  "addressUsed Z e = (revert Z (e\<lparr>x_gas := 0, x_excepted := TE_AddressAlreadyUsed\<rparr>))\<lparr>x_ext := None\<rparr>"

definition executeCreate ::
  "chain \<Rightarrow> address \<Rightarrow> u256 \<Rightarrow> u256 \<Rightarrow> u256 \<Rightarrow> bytes \<Rightarrow> address \<Rightarrow> Executive \<Rightarrow> (bool \<times> Executive) exec_result" where
  "executeCreate Z from endowment gp gas ini orig e =
     andThen (payNonce Z from e) (\<lambda>e.
     let (taken, e) = addressTaken Z ((setSavepoint e)\<lparr>x_isCreation := True, x_gas := gas\<rparr>) in
     if taken then Inr (True, addressUsed Z e)
     else andThen (prepareCreate Z from endowment gp ini orig e) (\<lambda>e. Inr (x_ext e = None, e)))"

text \<open>\<open>rlpList(_sender, nonce)\<close>, hashed: the address of the contract a \<open>CREATE\<close> makes.\<close>

definition rlpSenderNonce :: "address \<Rightarrow> u256 \<Rightarrow> rlp_error + bytes" where
  "rlpSenderNonce a n =
     andThen (appendList emptyStream 2) (\<lambda>s.
     andThen (append_address a s) (\<lambda>s.
     andThen (append_u256 n s) stream_out))"

definition createOpcode ::
  "chain \<Rightarrow> address \<Rightarrow> u256 \<Rightarrow> u256 \<Rightarrow> u256 \<Rightarrow> bytes \<Rightarrow> address \<Rightarrow> Executive \<Rightarrow> (bool \<times> Executive) exec_result" where
  "createOpcode Z from endowment gp gas ini orig e =
     (let (nonce, e) = ask (getNonce (z_crypto Z) from) e in
      case rlpSenderNonce from nonce of
        Inl x \<Rightarrow> Inl (ExRlp x, e)
      | Inr bs \<Rightarrow>
          executeCreate Z from endowment gp gas ini orig (e\<lparr>x_newAddress := right160 (c_sha3 (z_crypto Z) bs)\<rparr>))"

definition create2Address :: "chain \<Rightarrow> address \<Rightarrow> u256 \<Rightarrow> bytes \<Rightarrow> address" where
  "create2Address Z from salt ini =
     right160 (c_sha3 (z_crypto Z)
       ([0xff] @ toBigEndian 20 (unat from) @ toBigEndian 32 (unat salt)
         @ toBigEndian 32 (unat (c_sha3 (z_crypto Z) ini))))"

definition create2Opcode ::
  "chain \<Rightarrow> address \<Rightarrow> u256 \<Rightarrow> u256 \<Rightarrow> u256 \<Rightarrow> bytes \<Rightarrow> address \<Rightarrow> u256 \<Rightarrow> Executive \<Rightarrow> (bool \<times> Executive) exec_result" where
  "create2Opcode Z from endowment gp gas ini orig salt e =
     executeCreate Z from endowment gp gas ini orig (e\<lparr>x_newAddress := create2Address Z from salt ini\<rparr>)"

text \<open>\<open>create\<close> is \<open>createOpcode\<close>.\<close>

definition x_create ::
  "chain \<Rightarrow> address \<Rightarrow> u256 \<Rightarrow> u256 \<Rightarrow> u256 \<Rightarrow> bytes \<Rightarrow> address \<Rightarrow> Executive \<Rightarrow> (bool \<times> Executive) exec_result" where
  "x_create Z from endowment gp gas ini orig e = createOpcode Z from endowment gp gas ini orig e"

text \<open>\<open>execute\<close>: the entry point of a transaction.\<close>

definition execute :: "chain \<Rightarrow> Executive \<Rightarrow> (bool \<times> Executive) exec_result" where
  "execute Z e =
     andThen (senderOf Z e) (\<lambda>from.
     andThen (act (subBalance (z_crypto Z) from (x_gasCost e)) e) (\<lambda>e.
     let t = x_t e; gas = t_gas t - word_of_int (x_baseGasRequired e) in
     if isCreation t then x_create Z from (t_value t) (t_gasPrice t) gas (t_data t) from e
     else x_call Z
            \<lparr>senderAddress = from, codeAddress = t_receiveAddress t, receiveAddress = t_receiveAddress t,
             valueTransfer = t_value t, apparentValue = t_value t, cp_gas = gas, cp_data = t_data t,
             cp_staticCall = False\<rparr> (t_gasPrice t) from e))"

subsection \<open>Running the interpreter\<close>

definition updateResult :: "(ExecutionResult \<Rightarrow> ExecutionResult) \<Rightarrow> Executive \<Rightarrow> Executive" where
  "updateResult f e = e\<lparr>x_res := map_option f (x_res e)\<rparr>"

text \<open>The code that a creation returned is paid for and stored, or the creation fails.\<close>

definition depositCode :: "chain \<Rightarrow> State ext \<Rightarrow> bytes \<Rightarrow> Executive \<Rightarrow> vm_exception \<times> Executive + Executive" where
  "depositCode Z ext out e =
     (let sch = schedule_at Z e; cost = word_of_nat (wrap64 (length out * createDataGas sch)) :: u256;
          e = updateResult (\<lambda>r. r\<lparr>r_gasForDeposit := x_gas e, r_depositSize := length out mod 2 ^ 32\<rparr>) e;
          store = (\<lambda>code e. Inr (onState (setCode (z_crypto Z) (myAddress ext) code)
                                  (updateResult (\<lambda>r. r\<lparr>r_output := code\<rparr>) e)))
      in if length out > maxCodeSize sch then Inl (OutOfGas, e)
         else if cost \<le> x_gas e
         then store out ((updateResult (\<lambda>r. r\<lparr>r_codeDeposit := CD_Success\<rparr>) e)\<lparr>x_gas := x_gas e - cost\<rparr>)
         else if exceptionalFailedCodeDeposit sch then Inl (OutOfGas, e)
         else store [] (updateResult (\<lambda>r. r\<lparr>r_codeDeposit := CD_Failed\<rparr>) e))"

text \<open>What the handlers of \<open>go\<close> make of an exception of the interpreter.\<close>

definition handleException :: "chain \<Rightarrow> vm_exception \<Rightarrow> Executive \<Rightarrow> Executive" where
  "handleException Z x e =
     (case x of
        RevertInstruction out \<Rightarrow> (revert Z e)\<lparr>x_output := out, x_excepted := TE_RevertInstruction\<rparr>
      | _ \<Rightarrow> revert Z (e\<lparr>x_gas := 0, x_excepted := vmToTransactionException x\<rparr>))"

definition go :: "chain \<Rightarrow> vm_run \<Rightarrow> Executive \<Rightarrow> Executive" where
  "go Z run e =
     (case x_ext e of
        None \<Rightarrow> e
      | Some ext \<Rightarrow>
          (let (r, gas, ext) = run (ext\<lparr>world := x_s e\<rparr>) (x_gas e);
               e = e\<lparr>x_s := world ext, x_ext := Some ext, x_gas := gas\<rparr>;
               e = (case r of
                      Inl x \<Rightarrow> handleException Z x e
                    | Inr out \<Rightarrow>
                        if x_isCreation e
                        then (case depositCode Z ext out e of Inl (x, e) \<Rightarrow> handleException Z x e | Inr e \<Rightarrow> e)
                        else e\<lparr>x_output := out\<rparr>)
           in if x_output e = [] then e else updateResult (\<lambda>r. r\<lparr>r_output := x_output e\<rparr>) e))"

subsection \<open>Settling\<close>

text \<open>The conversion of a \<open>u256\<close> to \<open>int64_t\<close> gives the largest \<open>int64_t\<close> where the number is larger.\<close>

definition asInt64 :: "u256 \<Rightarrow> int" where
  "asInt64 v = min (uint v) (2 ^ 63 - 1)"

definition applyRefund :: "chain \<Rightarrow> Executive \<Rightarrow> Executive" where
  "applyRefund Z e =
     (case x_ext e of
        None \<Rightarrow> e
      | Some ext \<Rightarrow>
          (let total = int64 (refunds (sub ext) + int (suicideRefundGas (schedule_at Z e) * card (suicides (sub ext))));
               ext = ext\<lparr>sub := (sub ext)\<lparr>refunds := total\<rparr>\<rparr>;
               maxRefund = (asInt64 (t_gas (x_t e)) - asInt64 (x_gas e)) sdiv 2
           in e\<lparr>x_ext := Some ext, x_gas := x_gas e + word_of_int (min maxRefund total)\<rparr>))"

definition payFees :: "chain \<Rightarrow> Executive \<Rightarrow> Executive exec_result" where
  "payFees Z e =
     (if tx_nonnull (x_t e)
      then andThen (senderOf Z e) (\<lambda>from.
           andThen (act (addBalance (z_crypto Z) from (x_gas e * t_gasPrice (x_t e))) e) (\<lambda>e.
           act (addBalance (z_crypto Z) (env_author (x_envInfo e)) ((t_gas (x_t e) - x_gas e) * t_gasPrice (x_t e))) e))
      else Inr e)"

text \<open>The suicides are a \<open>std::set\<close>, enumerated in ascending order.\<close>

definition finalize :: "chain \<Rightarrow> Executive \<Rightarrow> (bool \<times> Executive) exec_result" where
  "finalize Z e =
     andThen (payFees Z (applyRefund Z e)) (\<lambda>e.
     let e = (case x_ext e of
                None \<Rightarrow> e
              | Some ext \<Rightarrow>
                  (onState (fold (killAccount (z_crypto Z)) (sorted_list_of_set (suicides (sub ext)))) e)
                    \<lparr>x_logs := logs (sub ext)\<rparr>);
         e = updateResult (\<lambda>r. r\<lparr>r_gasUsed := gasUsed e, r_excepted := x_excepted e, r_newAddress := x_newAddress e,
               r_gasRefunded := (case x_ext e of Some ext \<Rightarrow> word_of_int (refunds (sub ext)) | None \<Rightarrow> 0)\<rparr>) e
     in Inr (x_excepted e = TE_None, e))"

subsection \<open>Transactions on a state (libethereum/State.cpp)\<close>

datatype Permanence = Reverted | Committed | Uncommitted

text \<open>\<open>State::executeTransaction\<close>: the state is rolled back when an exception passes.\<close>

definition executeTransaction :: "chain \<Rightarrow> vm_run \<Rightarrow> Transaction \<Rightarrow> Executive \<Rightarrow> (bool \<times> Executive) exec_result" where
  "executeTransaction Z run t e =
     (let savept = savepoint (x_s e) in
      case andThen (initialize Z t e) (\<lambda>e.
           andThen (execute Z e) (\<lambda>(done, e).
           finalize Z (if done then e else go Z run e))) of
        Inl (x, e) \<Rightarrow> Inl (x, onState (rollback (z_crypto Z) savept) e)
      | Inr r \<Rightarrow> Inr r)"

text \<open>\<open>m_cache.clear()\<close> leaves the change log and the other members as they are.\<close>

definition settle :: "chain \<Rightarrow> EnvInfo \<Rightarrow> Permanence \<Rightarrow> State \<Rightarrow> State" where
  "settle Z env p S =
     (case p of
        Reverted \<Rightarrow> S\<lparr>m_cache := Map.empty\<rparr>
      | Committed \<Rightarrow>
          (let behaviour = (if atFork (env_number env) (cp_EIP158ForkBlock (z_params Z))
                            then RemoveEmptyAccounts else KeepEmptyAccounts);
               order = z_order Z (m_cache S)
           in commit (z_crypto Z) order behaviour S)
      | Uncommitted \<Rightarrow> S)"

definition stateExecute ::
  "chain \<Rightarrow> vm_run \<Rightarrow> EnvInfo \<Rightarrow> Transaction \<Rightarrow> Permanence \<Rightarrow> State \<Rightarrow>
   exec_exception \<times> State + (ExecutionResult \<times> TransactionReceipt) \<times> State" where
  "stateExecute Z run env t p S =
     (case executeTransaction Z run t ((mkExecutive S env 0)\<lparr>x_res := Some emptyResult\<rparr>) of
        Inl (x, e) \<Rightarrow> Inl (x, x_s e)
      | Inr (status, e) \<Rightarrow>
          (let S = settle Z env p (x_s e);
               st = (if atFork (env_number env) (cp_byzantiumForkBlock (z_params Z))
                     then StatusCode (if status then 1 else 0) else StateRoot (rootHash (z_crypto Z) S));
               receipt = mkReceipt (c_sha3 (z_crypto Z)) st (env_gasUsed env + gasUsed e) (x_logs e)
           in Inr ((the (x_res e), receipt), S)))"



end
