(* ===== verification/Ext_VM.thy ===== *)
theory Ext_VM
  imports Execution
begin

section \<open>The client's side of the interpreter (libethereum/ExtVM.h, ExtVM.cpp)\<close>

text \<open>
  \<open>ExtVM\<close> implements the interface of the interpreter on the world state: it reads and writes
  storage, and runs calls and creations through an \<open>Executive\<close> of its own, which runs the
  interpreter again. The mutual recursion is bounded by \<open>extVM\<close>'s first argument. Every level
  adds one to the depth of the context, and the interpreter neither calls nor creates at depth
  1024, so 1025 levels are enough (theory \<open>Ext_VM_Fuel\<close>) -- except for the transactions of
  \<open>BLOCKHASH\<close> on the blocks from 256 after the experimental fork on, which nest without bound.
\<close>

subsection \<open>Status codes\<close>

datatype evmc_status_code =
  EVMC_SUCCESS | EVMC_FAILURE | EVMC_REVERT | EVMC_OUT_OF_GAS | EVMC_UNDEFINED_INSTRUCTION
| EVMC_STACK_OVERFLOW | EVMC_STACK_UNDERFLOW | EVMC_BAD_JUMP_DESTINATION

fun transactionExceptionToEvmcStatusCode :: "TransactionException \<Rightarrow> evmc_status_code" where
  "transactionExceptionToEvmcStatusCode TE_None = EVMC_SUCCESS"
| "transactionExceptionToEvmcStatusCode TE_RevertInstruction = EVMC_REVERT"
| "transactionExceptionToEvmcStatusCode TE_OutOfGas = EVMC_OUT_OF_GAS"
| "transactionExceptionToEvmcStatusCode TE_BadInstruction = EVMC_UNDEFINED_INSTRUCTION"
| "transactionExceptionToEvmcStatusCode TE_OutOfStack = EVMC_STACK_OVERFLOW"
| "transactionExceptionToEvmcStatusCode TE_StackUnderflow = EVMC_STACK_UNDERFLOW"
| "transactionExceptionToEvmcStatusCode TE_BadJumpDestination = EVMC_BAD_JUMP_DESTINATION"
| "transactionExceptionToEvmcStatusCode ex = EVMC_FAILURE"

subsection \<open>Queries\<close>

text \<open>
  A query of the state may fill its caches and shows nothing of it (\<open>World_Ops.queries\<close>): the
  interface of the interpreter's model takes only the answer.
\<close>

definition ext_store :: "chain \<Rightarrow> State ext \<Rightarrow> u256 \<Rightarrow> u256" where
  "ext_store Z e n = fst (storageAt (z_crypto Z) (myAddress e) n (world e))"

definition ext_originalStorageValue :: "chain \<Rightarrow> State ext \<Rightarrow> u256 \<Rightarrow> u256" where
  "ext_originalStorageValue Z e n = fst (originalStorageAt (z_crypto Z) (myAddress e) n (world e))"

definition ext_balance :: "chain \<Rightarrow> State ext \<Rightarrow> address \<Rightarrow> u256" where
  "ext_balance Z e a = fst (balanceOf (z_crypto Z) a (world e))"

definition ext_codeAt :: "chain \<Rightarrow> State ext \<Rightarrow> address \<Rightarrow> bytes" where
  "ext_codeAt Z e a = fst (codeOf (z_crypto Z) a (world e))"

definition ext_codeSizeAt :: "chain \<Rightarrow> State ext \<Rightarrow> address \<Rightarrow> nat" where
  "ext_codeSizeAt Z e a = fst (codeSizeOf (z_crypto Z) a (world e))"

definition ext_evmSchedule :: "chain \<Rightarrow> State ext \<Rightarrow> EVMSchedule" where
  "ext_evmSchedule Z e = evmSchedule (z_params Z) (env_number (envInfo e))"

definition ext_exists :: "chain \<Rightarrow> State ext \<Rightarrow> address \<Rightarrow> bool" where
  "ext_exists Z e a =
     (if emptinessIsNonexistence (ext_evmSchedule Z e)
      then fst (accountNonemptyAndExisting (z_crypto Z) a (world e))
      else fst (addressInUse (z_crypto Z) a (world e)))"

definition ext_codeHashAt :: "chain \<Rightarrow> State ext \<Rightarrow> address \<Rightarrow> h256" where
  "ext_codeHashAt Z e a = (if ext_exists Z e a then fst (codeHashOf (z_crypto Z) a (world e)) else 0)"

subsection \<open>Changes\<close>

definition ext_setStore :: "chain \<Rightarrow> State ext \<Rightarrow> u256 \<Rightarrow> u256 \<Rightarrow> State ext" where
  "ext_setStore Z e n v = e\<lparr>world := setStorage (z_crypto Z) (myAddress e) n v (world e)\<rparr>"

text \<open>\<open>suicide\<close>, with the exception of the state, if any, next to what it leaves.\<close>

definition ext_suicide :: "chain \<Rightarrow> State ext \<Rightarrow> address \<Rightarrow> exec_exception \<times> State ext + State ext" where
  "ext_suicide Z e a =
     (let (bal, S) = balanceOf (z_crypto Z) (myAddress e) (world e) in
      case andThen (addBalance (z_crypto Z) a bal S) (setBalance (z_crypto Z) (myAddress e) 0) of
        Inl (x, S) \<Rightarrow> Inl (ExState x, e\<lparr>world := S\<rparr>)
      | Inr S \<Rightarrow> Inr (e\<lparr>world := S, sub := (sub e)\<lparr>suicides := insert (myAddress e) (suicides (sub e))\<rparr>\<rparr>))"

text \<open>What \<open>call\<close> and \<open>create\<close> do with the executive once it is set up.\<close>

definition runExecutive :: "chain \<Rightarrow> vm_run \<Rightarrow> bool \<times> Executive \<Rightarrow> State ext \<Rightarrow> Executive \<times> State ext" where
  "runExecutive Z run r e =
     (let (done, x) = r in
      if done then (x, e\<lparr>world := x_s x\<rparr>)
      else (let x = go Z run x in (x, e\<lparr>world := x_s x, sub := accrueSubState x (sub e)\<rparr>)))"

definition ext_call ::
  "chain \<Rightarrow> vm_run \<Rightarrow> State ext \<Rightarrow> CallParameters \<Rightarrow>
   exec_exception \<times> State ext + State ext \<times> u256 \<times> evmc_status_code \<times> bytes" where
  "ext_call Z run e p =
     (case x_call Z p (gasPrice e) (origin e) (mkExecutive (world e) (envInfo e) (depth e + 1)) of
        Inl (x, ex) \<Rightarrow> Inl (x, e\<lparr>world := x_s ex\<rparr>)
      | Inr r \<Rightarrow>
          (let (ex, e) = runExecutive Z run r e
           in Inr (e, x_gas ex, transactionExceptionToEvmcStatusCode (x_excepted ex), x_output ex)))"

definition ext_create ::
  "chain \<Rightarrow> vm_run \<Rightarrow> State ext \<Rightarrow> u256 \<Rightarrow> u256 \<Rightarrow> bytes \<Rightarrow> system_op \<Rightarrow> u256 \<Rightarrow>
   exec_exception \<times> State ext + State ext \<times> u256 \<times> evmc_status_code \<times> bytes \<times> address" where
  "ext_create Z run e endowment io_gas code op salt =
     (let ex = mkExecutive (world e) (envInfo e) (depth e + 1) in
      case (if op = CREATE
            then createOpcode Z (myAddress e) endowment (gasPrice e) io_gas code (origin e) ex
            else create2Opcode Z (myAddress e) endowment (gasPrice e) io_gas code (origin e) salt ex) of
        Inl (x, ex) \<Rightarrow> Inl (x, e\<lparr>world := x_s ex\<rparr>)
      | Inr r \<Rightarrow>
          (let (ex, e) = runExecutive Z run r e
           in Inr (e, x_gas ex, transactionExceptionToEvmcStatusCode (x_excepted ex), x_output ex, x_newAddress ex)))"

subsection \<open>Hashes of blocks\<close>

definition c_blockhashContractAddress :: address where
  "c_blockhashContractAddress = 0xf0"

definition blockhashTransaction :: "State ext \<Rightarrow> u256 \<Rightarrow> u256 \<Rightarrow> Transaction" where
  "blockhashTransaction e n nonce =
     forceSender (caller e)
       (nullTransaction\<lparr>t_type := MessageCall, t_gas := 1000000, t_receiveAddress := c_blockhashContractAddress,
          t_data := toBigEndian 32 (unat n), t_nonce := nonce\<rparr>)"

text \<open>
  256 blocks after the experimental fork the hash comes from a contract, called by a transaction of
  its own on the same state, reverted by emptying the cache.
\<close>

definition ext_blockHash :: "chain \<Rightarrow> vm_run \<Rightarrow> State ext \<Rightarrow> u256 \<Rightarrow> exec_exception \<times> State ext + h256 \<times> State ext" where
  "ext_blockHash Z run e n =
     (let currentNumber = word_of_int (env_number (envInfo e)) :: u256 in
      if n \<ge> currentNumber \<or> n < max 256 currentNumber - 256 then Inr (0, e)
      else if currentNumber < cp_experimentalForkBlock (z_params Z) + 256
      then (let lastHashes = z_lastHashes Z (env_parentHash (envInfo e));
                i = unat (currentNumber - 1 - n)
            in Inr (if i < length lastHashes then lastHashes ! i else z_oobHash Z, e))
      else (let (nonce, S) = getNonce (z_crypto Z) (caller e) (world e) in
            case stateExecute Z run (envInfo e) (blockhashTransaction e n nonce) Reverted S of
              Inl (x, S) \<Rightarrow> Inl (x, e\<lparr>world := S\<rparr>)
            | Inr ((res, _), S) \<Rightarrow>
                Inr (if length (r_output res) = 32 then word_of_nat (fromBigEndian (r_output res)) else 0,
                     e\<lparr>world := S\<rparr>)))"

text \<open>The blocks whose hashes come from the chain: before the contract is asked.\<close>

definition hashesKnown :: "chain \<Rightarrow> EnvInfo \<Rightarrow> bool" where
  "hashesKnown Z env \<longleftrightarrow> (word_of_int (env_number env) :: u256) < cp_experimentalForkBlock (z_params Z) + 256"

lemma ext_blockHash_known:
  "hashesKnown Z (envInfo e) \<Longrightarrow> \<exists>h. ext_blockHash Z run e n = Inr (h, e)"
  by (simp add: ext_blockHash_def hashesKnown_def Let_def)

subsection \<open>The interpreter and the client together\<close>

text \<open>
  The interface of the interpreter, filled by the operations above. An exception that leaves one
  of them passes through the interpreter to the handler of \<open>go\<close> that ends the process; the
  record has no place for it, and the model goes on in the state it left. No run on a legal world
  and a block with \<open>hashesKnown\<close> reaches one (theories \<open>Ext_VM_World\<close> and \<open>Ext_VM_Props\<close>).
  \<open>BLOCKHASH\<close> leaves what its transaction left: on the later blocks that is an emptied cache, and
  every transaction it starts begins at depth 0 again, with gas of its own. The theorems about runs
  are for blocks with \<open>hashesKnown\<close>.
\<close>

definition clientHost :: "chain \<Rightarrow> vm_run \<Rightarrow> State host" where
  "clientHost Z run =
     \<lparr>h_store = ext_store Z, h_setStore = ext_setStore Z, h_originalStorageValue = ext_originalStorageValue Z,
      h_balance = ext_balance Z, h_codeAt = ext_codeAt Z, h_codeSizeAt = ext_codeSizeAt Z,
      h_codeHashAt = ext_codeHashAt Z, h_exists = ext_exists Z,
      h_suicide = (\<lambda>e a. case ext_suicide Z e a of Inl (_, e) \<Rightarrow> e | Inr e \<Rightarrow> e),
      h_create = (\<lambda>e v g c op s.
        case ext_create Z run e v g c op s of
          Inl (_, e) \<Rightarrow> (e, 0, 0, [])
        | Inr (e, g, status, out, a) \<Rightarrow> (e, g, a, out)),
      h_call = (\<lambda>e p.
        case ext_call Z run e p of
          Inl (_, e) \<Rightarrow> (e, 0, False, [])
        | Inr (e, g, status, out) \<Rightarrow> (e, g, status = EVMC_SUCCESS, out)),
      h_blockHash = (\<lambda>e n. case ext_blockHash Z run e n of Inl (_, e) \<Rightarrow> (0, e) | Inr (h, e) \<Rightarrow> (h, e)),
      h_evmSchedule = ext_evmSchedule Z, h_sha3 = c_sha3 (z_crypto Z), evm_optimize = z_optimize Z,
      oobStepGas = z_oobStepGas Z\<rparr>"

text \<open>
  \<open>LegacyVM::exec\<close> on the client, down to \<open>n\<close> levels of calls below. The answer at level 0 is where
  the model cuts the recursion; no run reaches it that starts with enough levels on a block with
  \<open>hashesKnown\<close>.
\<close>

primrec extVM :: "chain \<Rightarrow> nat \<Rightarrow> vm_run" where
  "extVM Z 0 = (\<lambda>e g. (Inl OutOfGas, g, e))"
| "extVM Z (Suc n) = (\<lambda>e g.
     case exec (clientHost Z (extVM Z n)) e g of
       Some r \<Rightarrow> r
     | None \<Rightarrow> (Inl OutOfGas, g, e))"

definition vm_exec :: "chain \<Rightarrow> vm_run" where
  "vm_exec Z = extVM Z 1025"

end
