(* ===== verification/Ext_VM_Gas.thy ===== *)
theory Ext_VM_Gas
  imports Ext_VM Legacy_VM_Frame Seal_Props
begin

section \<open>The client keeps the contract of the interpreter\<close>

text \<open>
  The operations of \<open>ExtVM\<close> change only the world and the substate of a context, and a call or a
  creation never returns more gas than it was given, at every depth: the locale \<open>ext_vm\<close>, which
  the theory of the interpreter assumes of its surroundings, is interpreted on the client, whose
  calls run that interpreter again. So an execution of the whole client ends, with no more gas
  than it was given.
\<close>

subsection \<open>Gas of an executive\<close>

definition gas_ok :: "vm_run \<Rightarrow> bool" where
  "gas_ok run \<longleftrightarrow>
     (\<forall>e g r g' e'. run e g = (r, g', e') \<longrightarrow>
        same_context e e' \<and> (case r of Inl x \<Rightarrow> isRevert x \<longrightarrow> g' \<le> g | Inr _ \<Rightarrow> g' \<le> g))"

lemma gas_okD:
  assumes "gas_ok run" "run e g = (r, g', e')"
  shows "same_context e e'" "r = Inr out \<Longrightarrow> g' \<le> g" "r = Inl (RevertInstruction bs) \<Longrightarrow> g' \<le> g"
  using assms by (fastforce simp: gas_ok_def)+

lemma outcome_act: "outcome (act f e) (\<lambda>x e'. \<exists>S. e' = e\<lparr>x_s := S\<rparr>) (\<lambda>e'. \<exists>S. e' = e\<lparr>x_s := S\<rparr>)"
  by (auto simp: act_def split: sum.splits)

lemma ask_eq [simp]: "ask q e = (fst (q (x_s e)), e\<lparr>x_s := snd (q (x_s e))\<rparr>)"
  by (simp add: ask_def case_prod_beta)

lemma onState_fields [simp]:
  "x_gas (onState f e) = x_gas e" "x_ext (onState f e) = x_ext e" "x_isCreation (onState f e) = x_isCreation e"
  "x_excepted (onState f e) = x_excepted e" "x_envInfo (onState f e) = x_envInfo e" "x_depth (onState f e) = x_depth e"
  "x_t (onState f e) = x_t e" "x_savepoint (onState f e) = x_savepoint e" "x_s (onState f e) = f (x_s e)"
  "x_newAddress (onState f e) = x_newAddress e" "x_output (onState f e) = x_output e" "x_res (onState f e) = x_res e"
  by (simp_all add: onState_def)

lemma updateResult_fields [simp]:
  "x_gas (updateResult f e) = x_gas e" "x_ext (updateResult f e) = x_ext e" "x_isCreation (updateResult f e) = x_isCreation e"
  "x_excepted (updateResult f e) = x_excepted e" "x_envInfo (updateResult f e) = x_envInfo e"
  "x_depth (updateResult f e) = x_depth e" "x_t (updateResult f e) = x_t e" "x_savepoint (updateResult f e) = x_savepoint e"
  "x_s (updateResult f e) = x_s e" "x_newAddress (updateResult f e) = x_newAddress e" "x_output (updateResult f e) = x_output e"
  by (simp_all add: updateResult_def)

lemma revert_fields [simp]:
  "x_gas (revert Z e) = x_gas e" "x_excepted (revert Z e) = x_excepted e"
  "x_s (revert Z e) = rollback (z_crypto Z) (x_savepoint e) (x_s e)" "x_newAddress (revert Z e) = 0"
  "x_output (revert Z e) = x_output e"
  by (simp_all add: revert_def)

lemma handleException_gas: "x_gas (handleException Z x e) \<le> (if isRevert x then x_gas e else 0)"
  by (cases x) (simp_all add: handleException_def)

lemma depositCode_gas: "depositCode Z ext out e = Inr e' \<Longrightarrow> x_gas e' \<le> x_gas e"
  "depositCode Z ext out e = Inl (x, e') \<Longrightarrow> \<not> isRevert x"
  by (auto simp: depositCode_def Let_def word_sub_le split: if_splits)

lemma go_gas:
  assumes "gas_ok run"
  shows "x_gas (go Z run e) \<le> x_gas e"
proof (cases "x_ext e")
  case None
  then show ?thesis by (simp add: go_def)
next
  case (Some ext)
  obtain r g ext' where r: "run (ext\<lparr>world := x_s e\<rparr>) (x_gas e) = (r, g, ext')" by (metis prod_cases3)
  let ?e = "e\<lparr>x_s := world ext', x_ext := Some ext', x_gas := g\<rparr>"
  have "x_gas (handleException Z x ?e) \<le> x_gas e" if "r = Inl x" for x
    using handleException_gas [of Z x ?e] gas_okD(3) [OF assms r] that
    by (cases x) (auto intro: order_trans)
  moreover have "x_gas (case depositCode Z ext' out ?e of Inl (x, e) \<Rightarrow> handleException Z x e | Inr e \<Rightarrow> e) \<le> x_gas e"
    if "r = Inr out" for out
  proof (cases "depositCode Z ext' out ?e")
    case (Inl y)
    obtain x e' where y: "y = (x, e')" by (cases y)
    with Inl have "\<not> isRevert x" using depositCode_gas(2) by blast
    with handleException_gas [of Z x e'] Inl y show ?thesis by simp
  next
    case (Inr e')
    from depositCode_gas(1) [OF this] gas_okD(2) [OF assms r that] Inr show ?thesis by simp
  qed
  ultimately show ?thesis
    using Some r gas_okD(2) [OF assms r] by (cases r) (auto simp: go_def Let_def)
qed

text \<open>
  What the steps of setting up keep, for every property of the object that does not look at its
  state.
\<close>

definition blind :: "(Executive \<Rightarrow> bool) \<Rightarrow> bool" where
  "blind P \<longleftrightarrow> (\<forall>e S. P (e\<lparr>x_s := S\<rparr>) = P e)"

lemma blind_act: "blind P \<Longrightarrow> P e \<Longrightarrow> outcome (act f e) (\<lambda>_ _. True) P"
  by (auto simp: act_def blind_def split: sum.splits)

lemma blind_onState [simp]: "blind P \<Longrightarrow> P (onState f e) = P e"
  by (simp add: blind_def onState_def)

lemma blind_payNonce: "blind P \<Longrightarrow> P e \<Longrightarrow> outcome (payNonce Z a e) (\<lambda>_ _. True) P"
  by (simp add: payNonce_def blind_act)

lemma word_of_nat_sub_le: "k \<le> unat (w :: u256) \<Longrightarrow> w - word_of_nat k \<le> w"
  by (rule word_sub_le) (simp add: word_le_nat_alt unat_of_nat order_trans [OF mod_less_eq_dividend])

lemma x_call_gas:
  assumes "x_call Z p gp orig e = Inr (fin, e')" "x_gas e = 0"
  shows "x_gas e' \<le> cp_gas p"
proof -
  let ?P = "\<lambda>e :: Executive. x_gas e \<le> cp_gas p"
  have b: "blind ?P" by (simp add: blind_def)
  have "outcome (callPrecompiled Z p e) (\<lambda>_ _. True) (\<lambda>(_, e). ?P e)" if "?P e" for e
    unfolding callPrecompiled_def Let_def
    by (auto simp: word_of_nat_sub_le that intro!: outcome_bind [OF blind_act [OF b]] split: prod.splits)
  moreover have "?P (callCode Z p gp orig e)" for e
    by (auto simp: callCode_def Let_def split: prod.splits)
  ultimately have t: "outcome (callTarget Z p gp orig e) (\<lambda>_ _. True) (\<lambda>(_, e). ?P e)" if "?P e" for e
    using that by (simp add: callTarget_def)
  have "outcome (x_call Z p gp orig e) (\<lambda>_ _. True) (\<lambda>(_, e). ?P e)"
    unfolding x_call_def
    by (rule outcome_bind [where R = ?P], use blind_payNonce [OF b] assms(2) in simp, rule outcome_bind [OF t])
      (auto simp: setSavepoint_def intro!: outcome_bind [OF blind_act [OF b]])
  with assms(1) show ?thesis by simp
qed

lemma create_gas_bound:
  assumes "x_gas e = 0"
  shows "executeCreate Z from v gp g ini orig e = Inr (fin, e') \<Longrightarrow> x_gas e' \<le> g"
proof -
  let ?P = "\<lambda>e :: Executive. x_gas e \<le> g"
  have b: "blind ?P" by (simp add: blind_def)
  have p: "outcome (prepareCreate Z from v gp ini orig e) (\<lambda>_ _. True) ?P" if "?P e" for e
    unfolding prepareCreate_def
    by (rule outcome_bind [OF blind_act [OF b that]])
      (auto simp: newContract_def Let_def requireAccountStartNonce_def)
  have taken: "x_gas e' = x_gas e" if "addressTaken Z e = (b, e')" for e e' b
    using that by (auto simp: addressTaken_def Let_def split: prod.splits if_splits)
  have "outcome (executeCreate Z from v gp g ini orig e) (\<lambda>_ _. True) (\<lambda>(_, e). ?P e)"
    unfolding executeCreate_def Let_def
    by (rule outcome_bind [where R = ?P], use blind_payNonce [OF b] assms in simp)
      (auto simp: addressUsed_def dest!: taken split: prod.splits intro!: outcome_bind [OF p])
  then show "executeCreate Z from v gp g ini orig e = Inr (fin, e') \<Longrightarrow> x_gas e' \<le> g" by simp
qed

lemma opcode_gas_bound:
  assumes "x_gas e = 0"
  shows "createOpcode Z from v gp g ini orig e = Inr (fin, e') \<Longrightarrow> x_gas e' \<le> g"
    and "create2Opcode Z from v gp g ini orig salt e = Inr (fin, e') \<Longrightarrow> x_gas e' \<le> g"
proof -
  show "createOpcode Z from v gp g ini orig e = Inr (fin, e') \<Longrightarrow> x_gas e' \<le> g"
    by (auto simp: createOpcode_def assms intro!: create_gas_bound split: sum.splits)
  show "create2Opcode Z from v gp g ini orig salt e = Inr (fin, e') \<Longrightarrow> x_gas e' \<le> g"
    by (auto simp: create2Opcode_def assms intro!: create_gas_bound)
qed

subsection \<open>The contract\<close>

lemma runExecutive_facts:
  assumes "gas_ok run" "runExecutive Z run (fin, x) e = (x', e')"
  shows "same_context e e'" "x_gas x' \<le> x_gas x"
  using assms go_gas [OF assms(1), of Z x] by (auto simp: runExecutive_def Let_def same_context_def split: if_splits)

lemma mkExecutive_fields [simp]:
  "x_gas (mkExecutive S env n) = 0" "x_ext (mkExecutive S env n) = None" "x_envInfo (mkExecutive S env n) = env"
  "x_depth (mkExecutive S env n) = n" "x_t (mkExecutive S env n) = nullTransaction" "x_s (mkExecutive S env n) = S"
  "x_excepted (mkExecutive S env n) = TE_None" "x_isCreation (mkExecutive S env n) = False"
  by (simp_all add: mkExecutive_def)

lemma same_context_world [simp]: "same_context e (e\<lparr>world := w\<rparr>)" "same_context e (e\<lparr>world := w, sub := s\<rparr>)"
  by (cases e; simp add: same_context_def)+

lemma ext_call_facts:
  assumes "gas_ok run" "ext_call Z run e p = r"
  shows "case r of Inl (x, e') \<Rightarrow> same_context e e' | Inr (e', g, status, out) \<Rightarrow> same_context e e' \<and> g \<le> cp_gas p"
proof (cases "x_call Z p (gasPrice e) (origin e) (mkExecutive (world e) (envInfo e) (depth e + 1))")
  case (Inl y)
  with assms(2) show ?thesis by (cases y) (auto simp: ext_call_def)
next
  case (Inr y)
  obtain fin ex where y: "y = (fin, ex)" by (cases y)
  obtain ex' e' where r: "runExecutive Z run (fin, ex) e = (ex', e')" by fastforce
  show ?thesis
    using assms(2) Inr r y runExecutive_facts [OF assms(1) r] x_call_gas [OF Inr [unfolded y]]
    by (auto simp: ext_call_def)
qed

lemma ext_create_facts:
  assumes "gas_ok run" "ext_create Z run e v g c op s = r"
  shows "case r of Inl (x, e') \<Rightarrow> same_context e e' | Inr (e', g', status, out, a) \<Rightarrow> same_context e e' \<and> g' \<le> g"
proof -
  let ?ex = "mkExecutive (world e) (envInfo e) (depth e + 1)"
  let ?r = "if op = CREATE then createOpcode Z (myAddress e) v (gasPrice e) g c (origin e) ?ex
            else create2Opcode Z (myAddress e) v (gasPrice e) g c (origin e) s ?ex"
  show ?thesis
  proof (cases ?r)
    case (Inl y)
    with assms(2) show ?thesis by (cases y) (auto simp: ext_create_def Let_def simp del: if_split)
  next
    case (Inr y)
    obtain fin ex where y: "y = (fin, ex)" by (cases y)
    obtain ex' e' where r: "runExecutive Z run (fin, ex) e = (ex', e')" by fastforce
    have "x_gas ex \<le> g" using Inr y opcode_gas_bound [of ?ex] by (auto split: if_splits)
    then show ?thesis
      using assms(2) Inr r y runExecutive_facts [OF assms(1) r] by (auto simp: ext_create_def Let_def simp del: if_split)
  qed
qed

lemma same_contextD:
  assumes "same_context e e'"
  shows "depth e' = depth e" "envInfo e' = envInfo e" "myAddress e' = myAddress e" "staticCall e' = staticCall e"
    "caller e' = caller e" "origin e' = origin e" "gasPrice e' = gasPrice e"
  using assms [unfolded same_context_def, THEN arg_cong [of _ _ depth]]
    assms [unfolded same_context_def, THEN arg_cong [of _ _ envInfo]]
    assms [unfolded same_context_def, THEN arg_cong [of _ _ myAddress]]
    assms [unfolded same_context_def, THEN arg_cong [of _ _ staticCall]]
    assms [unfolded same_context_def, THEN arg_cong [of _ _ caller]]
    assms [unfolded same_context_def, THEN arg_cong [of _ _ origin]]
    assms [unfolded same_context_def, THEN arg_cong [of _ _ gasPrice]]
  by simp_all

lemma client_contract:
  assumes "gas_ok run"
  shows "ext_vm (clientHost Z run)"
proof
  fix e :: "State ext" and k v :: u256 and a :: address and g :: u256 and c op and s :: u256 and p
  show "same_context e (h_setStore (clientHost Z run) e k v)"
    by (simp add: clientHost_def ext_setStore_def)
  show "same_context e (h_suicide (clientHost Z run) e a)"
    by (auto simp: clientHost_def ext_suicide_def Let_def split: prod.splits sum.splits)
  show "same_context e e'" if "h_blockHash (clientHost Z run) e n = (h, e')" for n h e'
    using that by (auto simp: clientHost_def ext_blockHash_def Let_def split: prod.splits sum.splits if_splits)
  show "schedule_ok (h_evmSchedule (clientHost Z run) e)"
    using forkSchedules_ok schedule_of_fork by (auto simp: clientHost_def ext_evmSchedule_def list_all_iff)
  show "same_context e e'" "g' \<le> g" if "h_create (clientHost Z run) e v g c op s = (e', g', a', out)" for e' g' a' out
    using that ext_create_facts [where Z = Z and e = e and v = v and g = g and c = c and op = op and s = s, OF assms refl]
    by (auto simp: clientHost_def split: sum.splits prod.splits)
  show "same_context e e'" "g' \<le> cp_gas p" if "h_call (clientHost Z run) e p = (e', g', ok, out)" for e' g' ok out
    using that ext_call_facts [where Z = Z and e = e and p = p, OF assms refl]
    by (auto simp: clientHost_def split: sum.splits prod.splits)
qed

lemma extVM_gas_ok: "gas_ok (extVM Z n)"
proof (induction n)
  case 0
  then show ?case by (simp add: gas_ok_def)
next
  case (Suc n)
  note c = client_contract [OF Suc, of Z]
  show ?case
    unfolding gas_ok_def
  proof (intro allI impI)
    fix e g r g' e' assume r: "extVM Z (Suc n) e g = (r, g', e')"
    obtain s where s: "exec (clientHost Z (extVM Z n)) e g = Some s" using ext_vm.exec_returns [OF c] by fastforce
    then have s: "exec (clientHost Z (extVM Z n)) e g = Some (r, g', e')" using r by simp
    note x = ext_vm.exec_frame [OF c s]
    show "same_context e e' \<and> (case r of Inl x \<Rightarrow> isRevert x \<longrightarrow> g' \<le> g | Inr _ \<Rightarrow> g' \<le> g)"
      using x by (auto split: sum.splits)
  qed
qed

text \<open>The contract, discharged for the client at every depth.\<close>

interpretation client: ext_vm "clientHost Z (extVM Z n)" for Z n
  by (rule client_contract [OF extVM_gas_ok])

subsection \<open>What setting up leaves of the object\<close>

text \<open>The fields that setting up a call or a creation keeps, and the context it may make.\<close>

definition set_up :: "Executive \<Rightarrow> (State ext \<Rightarrow> bool) \<Rightarrow> Executive \<Rightarrow> bool" where
  "set_up e Q e' \<longleftrightarrow>
     x_envInfo e' = x_envInfo e \<and> x_depth e' = x_depth e \<and> x_t e' = x_t e \<and> x_res e' = x_res e \<and>
     x_logs e' = x_logs e \<and>
     (\<forall>ext. x_ext e' = Some ext \<longrightarrow>
        envInfo ext = x_envInfo e \<and> depth ext = x_depth e \<and> sub ext = emptySubState \<and> Q ext)"

lemma set_up_blind [simp]: "blind (set_up e Q)"
  by (simp add: blind_def set_up_def)

lemma set_up_updates [simp]:
  "set_up e Q (e'\<lparr>x_gas := g\<rparr>) = set_up e Q e'" "set_up e Q (e'\<lparr>x_excepted := x\<rparr>) = set_up e Q e'"
  "set_up e Q (e'\<lparr>x_output := out\<rparr>) = set_up e Q e'" "set_up e Q (e'\<lparr>x_savepoint := n\<rparr>) = set_up e Q e'"
  "set_up e Q (e'\<lparr>x_isCreation := c\<rparr>) = set_up e Q e'" "set_up e Q (e'\<lparr>x_newAddress := a\<rparr>) = set_up e Q e'"
  "set_up e Q (e'\<lparr>x_s := S\<rparr>) = set_up e Q e'" "set_up e Q (setSavepoint e') = set_up e Q e'"
  by (simp_all add: set_up_def setSavepoint_def)

lemma set_up_self: "x_ext e = None \<Longrightarrow> set_up e Q e"
  by (simp add: set_up_def)

lemma set_up_ext:
  "set_up e Q e' \<Longrightarrow> Q ext \<Longrightarrow> envInfo ext = x_envInfo e' \<Longrightarrow> depth ext = x_depth e' \<Longrightarrow> sub ext = emptySubState \<Longrightarrow>
   set_up e Q (e'\<lparr>x_ext := Some ext\<rparr>)"
  by (simp add: set_up_def)

lemma x_call_context:
  assumes "x_ext e = None"
  shows "outcome (x_call Z p gp orig e) (\<lambda>_ _. True)
    (\<lambda>(fin, e'). set_up e (\<lambda>ext. myAddress ext = receiveAddress p \<and> staticCall ext = cp_staticCall p \<and> caller ext = senderAddress p) e'
       \<and> x_isCreation e' = x_isCreation e \<and> fin = (x_ext e' = None))"
proof -
  let ?Q = "\<lambda>ext :: State ext. myAddress ext = receiveAddress p \<and> staticCall ext = cp_staticCall p \<and> caller ext = senderAddress p"
  let ?P = "\<lambda>e'. set_up e ?Q e' \<and> x_isCreation e' = x_isCreation e"
  have b: "blind ?P" using set_up_blind by (simp add: blind_def)
  have b0: "blind (\<lambda>e. ?P e \<and> x_ext e = None)" using b by (simp add: blind_def)
  have pre: "outcome (callPrecompiled Z p e') (\<lambda>_ _. True) (\<lambda>(fin, e'). ?P e' \<and> x_ext e' = None)"
    if "?P e'" "x_ext e' = None" for e'
    unfolding callPrecompiled_def Let_def
    by (auto simp: that intro!: outcome_bind [OF blind_act [OF b0]] split: prod.splits)
  have code: "?P (callCode Z p gp orig e')" if "?P e'" for e'
    using that by (auto simp: callCode_def callContext_def intro!: set_up_ext)
  have t: "outcome (callTarget Z p gp orig e') (\<lambda>_ _. True) (\<lambda>(fin, e'). ?P e' \<and> (fin \<longrightarrow> x_ext e' = None))"
    if "?P e'" "x_ext e' = None" for e'
    using outcome_mono [OF pre [OF that]] code that by (simp add: callTarget_def case_prod_beta)
  show ?thesis
    unfolding x_call_def
    by (rule outcome_bind [where R = "\<lambda>e'. ?P e' \<and> x_ext e' = None"],
        use blind_payNonce [OF b0] assms set_up_self in simp,
        rule outcome_bind [OF t])
      (auto simp: setSavepoint_def set_up_def intro!: outcome_bind [OF blind_act [OF b]])
qed

lemma executeCreate_context:
  assumes "x_ext e = None"
  shows "outcome (executeCreate Z from v gp g ini orig e) (\<lambda>_ _. True)
    (\<lambda>(fin, e'). set_up e (\<lambda>ext. myAddress ext = x_newAddress e \<and> \<not> staticCall ext) e'
       \<and> fin = (x_ext e' = None) \<and> (x_ext e' \<noteq> None \<longrightarrow> x_isCreation e' \<and> x_newAddress e' = x_newAddress e))"
proof -
  let ?Q = "\<lambda>ext :: State ext. myAddress ext = x_newAddress e \<and> \<not> staticCall ext"
  let ?P = "\<lambda>e'. set_up e ?Q e' \<and> x_newAddress e' = x_newAddress e \<and> x_ext e' = None"
  have b: "blind (\<lambda>e'. ?P e' \<and> x_isCreation e')" using set_up_blind by (simp add: blind_def)
  have b0: "blind ?P" using set_up_blind by (simp add: blind_def)
  have taken: "\<exists>S. addressTaken Z e' = (b, e'\<lparr>x_s := S\<rparr>)" if "addressTaken Z e' = (b, e'')" for e' e'' b
    using that by (auto simp: addressTaken_def split: if_splits)
  have used: "set_up e ?Q (addressUsed Z e') \<and> x_ext (addressUsed Z e') = None" if "?P e'" for e'
    using that by (simp add: addressUsed_def revert_def onState_def set_up_def)
  have prep: "outcome (prepareCreate Z from v gp ini orig e') (\<lambda>_ _. True)
      (\<lambda>e'. set_up e ?Q e' \<and> x_isCreation e' \<and> x_newAddress e' = x_newAddress e)"
    if "?P e' \<and> x_isCreation e'" for e'
    unfolding prepareCreate_def
    by (rule outcome_bind [OF blind_act [OF b that]])
      (auto simp: newContract_def Let_def requireAccountStartNonce_def onState_def createContext_def intro!: set_up_ext)
  show ?thesis
    unfolding executeCreate_def Let_def
  proof (rule outcome_bind [OF blind_payNonce [OF b0]])
    show "?P e" using assms set_up_self by simp
  next
    fix e1 assume e1: "?P e1"
    let ?e = "(setSavepoint e1)\<lparr>x_isCreation := True, x_gas := g\<rparr>"
    obtain b e2 where t: "addressTaken Z ?e = (b, e2)" by fastforce
    from taken [OF t] t obtain S where S: "e2 = ?e\<lparr>x_s := S\<rparr>" by auto
    have e2: "?P e2 \<and> x_isCreation e2" unfolding S using e1 by (simp add: setSavepoint_def set_up_def)
    have "outcome (andThen (prepareCreate Z from v gp ini orig e2) (\<lambda>e. Inr (x_ext e = None, e))) (\<lambda>_ _. True)
       (\<lambda>(fin, e'). set_up e ?Q e' \<and> fin = (x_ext e' = None) \<and>
          (x_ext e' \<noteq> None \<longrightarrow> x_isCreation e' \<and> x_newAddress e' = x_newAddress e))"
      by (rule outcome_bind [OF prep [OF e2]]) simp
    with used [of e2] e2 t
    show "outcome (case addressTaken Z ?e of (taken, e) \<Rightarrow> if taken then Inr (True, addressUsed Z e)
          else andThen (prepareCreate Z from v gp ini orig e) (\<lambda>e. Inr (x_ext e = None, e))) (\<lambda>_ _. True)
       (\<lambda>(fin, e'). set_up e ?Q e' \<and> fin = (x_ext e' = None) \<and>
          (x_ext e' \<noteq> None \<longrightarrow> x_isCreation e' \<and> x_newAddress e' = x_newAddress e))"
      by simp
  qed
qed

definition opcodeContext :: "Executive \<Rightarrow> bool \<times> Executive \<Rightarrow> bool" where
  "opcodeContext e = (\<lambda>(fin, e').
     set_up e (\<lambda>ext. \<not> staticCall ext) e' \<and> fin = (x_ext e' = None) \<and> (x_ext e' \<noteq> None \<longrightarrow> x_isCreation e') \<and>
     (\<forall>ext. x_ext e' = Some ext \<longrightarrow> myAddress ext = x_newAddress e'))"

lemma opcode_context:
  assumes "x_ext e = None"
  shows "outcome (createOpcode Z from v gp g ini orig e) (\<lambda>_ _. True) (opcodeContext e)"
    and "outcome (create2Opcode Z from v gp g ini orig salt e) (\<lambda>_ _. True) (opcodeContext e)"
proof -
  have *: "outcome (executeCreate Z from v gp g ini orig (e\<lparr>x_s := S, x_newAddress := a\<rparr>)) (\<lambda>_ _. True) (opcodeContext e)" for a S
    by (rule outcome_mono [OF executeCreate_context]) (use assms in \<open>auto simp: opcodeContext_def set_up_def\<close>)
  show "outcome (createOpcode Z from v gp g ini orig e) (\<lambda>_ _. True) (opcodeContext e)"
    using * by (auto simp: createOpcode_def split: sum.splits)
  show "outcome (create2Opcode Z from v gp g ini orig salt e) (\<lambda>_ _. True) (opcodeContext e)"
    using * [where S = "x_s e"] by (simp add: create2Opcode_def)
qed



end
