(* ===== verification/Ext_VM_Fuel.thy ===== *)
theory Ext_VM_Fuel
  imports Ext_VM_Gas
begin

section \<open>How deep the calls go\<close>

text \<open>
  The client's recursion is cut at a number of levels. The interpreter looks at its surroundings
  only at contexts of the depth it was started at, and neither calls nor creates at depth 1024:
  with 1025 levels, less the depth, nothing of a run changes when there are more.
\<close>

subsection \<open>Hosts that agree\<close>

text \<open>Two hosts that differ at most in calls, creations and block hashes, and not on the contexts of \<open>Q\<close>.\<close>

definition agree :: "('w ext \<Rightarrow> bool) \<Rightarrow> 'w host \<Rightarrow> 'w host \<Rightarrow> bool" where
  "agree Q H1 H2 \<longleftrightarrow>
     H2 = H1\<lparr>h_create := h_create H2, h_call := h_call H2, h_blockHash := h_blockHash H2\<rparr> \<and>
     (\<forall>e n. Q e \<longrightarrow> h_blockHash H2 e n = h_blockHash H1 e n) \<and>
     (\<forall>e. Q e \<longrightarrow> depth e < 1024 \<longrightarrow> h_create H2 e = h_create H1 e \<and> h_call H2 e = h_call H1 e)"

lemma agree_fields:
  assumes "agree Q H1 H2"
  shows "h_store H2 = h_store H1" "h_setStore H2 = h_setStore H1" "h_originalStorageValue H2 = h_originalStorageValue H1"
    "h_balance H2 = h_balance H1" "h_codeAt H2 = h_codeAt H1" "h_codeSizeAt H2 = h_codeSizeAt H1"
    "h_codeHashAt H2 = h_codeHashAt H1" "h_exists H2 = h_exists H1" "h_suicide H2 = h_suicide H1"
    "h_evmSchedule H2 = h_evmSchedule H1" "h_sha3 H2 = h_sha3 H1" "evm_optimize H2 = evm_optimize H1"
    "oobStepGas H2 = oobStepGas H1"
  using arg_cong [where f = h_store, OF conjunct1 [OF assms [unfolded agree_def]]]
    arg_cong [where f = h_setStore, OF conjunct1 [OF assms [unfolded agree_def]]]
    arg_cong [where f = h_originalStorageValue, OF conjunct1 [OF assms [unfolded agree_def]]]
    arg_cong [where f = h_balance, OF conjunct1 [OF assms [unfolded agree_def]]]
    arg_cong [where f = h_codeAt, OF conjunct1 [OF assms [unfolded agree_def]]]
    arg_cong [where f = h_codeSizeAt, OF conjunct1 [OF assms [unfolded agree_def]]]
    arg_cong [where f = h_codeHashAt, OF conjunct1 [OF assms [unfolded agree_def]]]
    arg_cong [where f = h_exists, OF conjunct1 [OF assms [unfolded agree_def]]]
    arg_cong [where f = h_suicide, OF conjunct1 [OF assms [unfolded agree_def]]]
    arg_cong [where f = h_evmSchedule, OF conjunct1 [OF assms [unfolded agree_def]]]
    arg_cong [where f = h_sha3, OF conjunct1 [OF assms [unfolded agree_def]]]
    arg_cong [where f = evm_optimize, OF conjunct1 [OF assms [unfolded agree_def]]]
    arg_cong [where f = oobStepGas, OF conjunct1 [OF assms [unfolded agree_def]]]
  by simp_all

lemma agree_outside:
  assumes "agree Q H1 H2" "Q e"
  shows "h_blockHash H2 e n = h_blockHash H1 e n"
    and "depth e < 1024 \<Longrightarrow> h_create H2 e = h_create H1 e" and "depth e < 1024 \<Longrightarrow> h_call H2 e = h_call H1 e"
  using assms by (auto simp: agree_def)

lemma andThen_eqI: "m = m' \<Longrightarrow> (\<And>x. m' = Inr x \<Longrightarrow> f x = g x) \<Longrightarrow> andThen m f = andThen m' g"
  by (cases m') simp_all

lemma silentD: "silent vm m \<Longrightarrow> m = Inr v \<Longrightarrow> m_ext v = m_ext vm"
  by (simp add: untouched_def)

lemma blockHash_agree:
  assumes "\<And>v. m_ext v = m_ext vm \<Longrightarrow> h_blockHash H2 (m_ext v) (SP v 0) = h_blockHash H1 (m_ext v) (SP v 0)"
  shows "caseBlock H2 BLOCKHASH vm = caseBlock H1 BLOCKHASH vm"
  unfolding caseBlock.simps
proof (rule andThen_eqI [OF refl], rule andThen_eqI [OF refl])
  fix v w assume "setRunGas (blockhashGas (m_schedule vm)) vm = Inr v" "updateIOGas v = Inr w"
  then have "m_ext w = m_ext vm"
    using silentD [OF silent_setRunGas] silentD [OF silent_updateIOGas] by metis
  from assms [OF this]
  show "(let (h, e) = h_blockHash H2 (m_ext w) (SP w 0) in Inr (next_op (setSPP0 h (w\<lparr>m_ext := e\<rparr>)))) =
      (let (h, e) = h_blockHash H1 (m_ext w) (SP w 0) in Inr (next_op (setSPP0 h (w\<lparr>m_ext := e\<rparr>))))" by simp
qed

lemma interpret_agree:
  assumes a: "agree Q H1 H2" and q: "Q (m_ext vm)"
  shows "interpretCases H2 P vm = interpretCases H1 P vm"
proof -
  note f = agree_fields [OF a]
  have ft: "fetchInstruction H2 P vm = fetchInstruction H1 P vm"
    by (simp only: fetchInstruction_def stepGas_def f)
  have "caseOf H2 P op v = caseOf H1 P op v" if v: "m_ext v = m_ext vm" for op v
  proof (cases op)
    case (Env eop)
    then show ?thesis by (cases eop) (simp_all add: f)
  next
    case (Block bop)
    have "caseBlock H2 BLOCKHASH v = caseBlock H1 BLOCKHASH v"
      by (rule blockHash_agree) (use agree_outside(1) [OF a q] v in simp)
    with Block show ?thesis by (cases bop) (simp_all del: caseBlock.simps(1))
  next
    case (Store sop)
    have "updateSSGas H2 = updateSSGas H1" by (rule ext) (simp only: updateSSGas_def updateSSGasEIP1283_def f)
    with Store show ?thesis by (cases sop) (simp_all add: f)
  next
    case (Synth sop)
    then show ?thesis by (cases sop) (simp_all add: f)
  next
    case (System sop)
    then show ?thesis by (cases sop) (simp_all add: f)
  qed (simp_all add: f caseSha3_def)
  moreover have "m_ext v = m_ext vm" if "fetchInstruction H1 P vm = Inr v" for v
    using that by (auto simp: fetchInstruction_def Let_def andThen_eq_Inr adjustStack_def toInt63_def throwVM_def
        split: prod.splits if_splits)
  ultimately show ?thesis unfolding interpretCases_def ft by (intro andThen_eqI [OF refl]) simp
qed

lemma caseCreate_agree:
  assumes H1: "ext_vm H1" and a: "agree Q H1 H2" and q: "Q (m_ext vm)"
  shows "caseCreate H2 vm = caseCreate H1 vm"
  unfolding caseCreate_def
proof (rule andThen_eqI [OF refl])
  fix v assume "createCharge vm = Inr v"
  then have v: "m_ext v = m_ext vm" by (rule silentD [OF ext_vm.charges_silent(1) [OF H1]])
  show "Inr (next_op (finishCreate H2 v)) = Inr (next_op (finishCreate H1 v))"
    using agree_outside(2) [OF a q] by (simp add: finishCreate_def agree_fields [OF a] v)
qed

lemma caseCall_agree:
  assumes H1: "ext_vm H1" and a: "agree Q H1 H2" and q: "Q (m_ext vm)"
  shows "caseCall H2 vm = caseCall H1 vm"
proof -
  note f = agree_fields [OF a]
  let ?vm = "vm\<lparr>m_bounce := InterpretCases, m_returnData := []\<rparr>"
  have ch: "callCharge H2 v = callCharge H1 v" for v by (simp only: callCharge_def f)
  have su: "caseCallSetup H2 v = caseCallSetup H1 v" for v by (simp only: caseCallSetup_def ch f)
  show ?thesis
    unfolding caseCall_def su
  proof (rule andThen_eqI [OF refl])
    fix r assume r: "caseCallSetup H1 ?vm = Inr r"
    obtain v p place where rv: "r = (v, p, place)" by (cases r)
    have "m_ext v = m_ext vm \<and> (place \<noteq> None \<longrightarrow> depth (m_ext v) < 1024)"
    proof -
      from r obtain v1 v2 where c: "callCharge H1 ?vm = Inr v1" "setRunGas (unat (callGasLimit v1)) v1 = Inr v2" "updateIOGas v2 = Inr v"
        and pl: "place \<noteq> None \<longrightarrow> depth (m_ext v) < 1024"
        by (auto simp: rv caseCallSetup_def Let_def andThen_eq_Inr split: if_splits)
      then have "m_ext v1 = m_ext ?vm" "m_ext v2 = m_ext v1" "m_ext v = m_ext v2"
        using silentD [OF ext_vm.charges_silent(2) [OF H1]] silentD [OF silent_setRunGas] silentD [OF silent_updateIOGas] by blast+
      with pl show ?thesis by simp
    qed
    then have "finishCall H2 r = finishCall H1 r"
      using agree_outside(3) [OF a q] by (auto simp: rv finishCall_def split: option.splits)
    then show "Inr (next_op (finishCall H2 r)) = Inr (next_op (finishCall H1 r))" by simp
  qed
qed

lemma bounceStep_agree: "ext_vm H1 \<Longrightarrow> agree Q H1 H2 \<Longrightarrow> Q (m_ext vm) \<Longrightarrow> bounceStep H2 P vm = bounceStep H1 P vm"
  by (simp add: bounceStep_def interpret_agree caseCreate_agree caseCall_agree split: bounce.splits)

subsection \<open>Runs\<close>

definition stable :: "('w ext \<Rightarrow> bool) \<Rightarrow> bool" where
  "stable Q \<longleftrightarrow> (\<forall>e e'. same_context e e' \<longrightarrow> Q e \<longrightarrow> Q e')"

lemma runVM_agree:
  assumes H1: "ext_vm H1" and a: "agree Q H1 H2" and st: "stable Q"
  shows "vm_inv vm \<Longrightarrow> Q (m_ext vm) \<Longrightarrow> m_bounce vm \<noteq> Finished \<Longrightarrow> runVM n H2 P vm = runVM n H1 P vm"
proof (induction n arbitrary: vm)
  case (Suc n)
  note b = bounceStep_agree [OF H1 a Suc.prems(2), of P]
  show ?case
  proof (cases "bounceStep H1 P vm")
    case (Inr v)
    with ext_vm.bounceStep_progress [OF H1 Suc.prems(1), of P] Suc.prems(3) have "progress vm v" by simp
    then have "vm_inv v" "same_context (m_ext vm) (m_ext v)" by (simp_all add: progress_def)
    with st Suc.prems(2) Suc.IH [of v] b Inr show ?thesis by (auto simp: stable_def)
  qed (use b in simp)
qed simp

lemma exec_agree:
  assumes "ext_vm H1" and a: "agree Q H1 H2" and "stable Q" and q: "Q e"
  shows "exec H2 e g = exec H1 e g"
proof -
  have i: "initVM H2 e g = initVM H1 e g" by (simp add: initVM_def agree_fields [OF a])
  have "m_ext (initVM H1 e g) = e" "m_bounce (initVM H1 e g) \<noteq> Finished" by (simp_all add: initVM_def)
  with runVM_agree [OF assms(1-3) ext_vm.vm_inv_init [OF assms(1)]] q show ?thesis
    by (simp add: exec_def i agree_fields [OF a] Let_def)
qed

subsection \<open>Enough levels\<close>

lemma go_agree:
  assumes "\<And>ext g. x_ext x = Some ext \<Longrightarrow> run2 (ext\<lparr>world := x_s x\<rparr>) g = run1 (ext\<lparr>world := x_s x\<rparr>) g"
  shows "go Z run2 x = go Z run1 x"
  using assms by (cases "x_ext x") (simp_all add: go_def)

lemma runExecutive_agree:
  assumes "\<And>ext g. x_ext x = Some ext \<Longrightarrow> run2 (ext\<lparr>world := x_s x\<rparr>) g = run1 (ext\<lparr>world := x_s x\<rparr>) g"
  shows "runExecutive Z run2 (fin, x) e = runExecutive Z run1 (fin, x) e"
proof -
  have "go Z run2 x = go Z run1 x" by (rule go_agree) (rule assms)
  then show ?thesis by (simp add: runExecutive_def)
qed

lemma ext_call_agree:
  assumes "\<And>e' g. depth e' = depth e + 1 \<Longrightarrow> envInfo e' = envInfo e \<Longrightarrow> run2 e' g = run1 e' g"
  shows "ext_call Z run2 e p = ext_call Z run1 e p"
proof -
  let ?x = "mkExecutive (world e) (envInfo e) (depth e + 1)"
  have m: "x_ext ?x = None" by simp
  show ?thesis
  proof (cases "x_call Z p (gasPrice e) (origin e) ?x")
    case (Inr y)
    obtain fin x where y: "y = (fin, x)" by (cases y)
    from x_call_context [OF m(1), of Z p "gasPrice e" "origin e"] Inr y
    have "runExecutive Z run2 (fin, x) e = runExecutive Z run1 (fin, x) e"
      by (intro runExecutive_agree assms) (auto simp: set_up_def)
    with Inr y show ?thesis by (simp add: ext_call_def)
  qed (simp add: ext_call_def)
qed

lemma ext_create_agree:
  assumes "\<And>e' g. depth e' = depth e + 1 \<Longrightarrow> envInfo e' = envInfo e \<Longrightarrow> run2 e' g = run1 e' g"
  shows "ext_create Z run2 e v g c op s = ext_create Z run1 e v g c op s"
proof -
  let ?x = "mkExecutive (world e) (envInfo e) (depth e + 1)"
  let ?r = "if op = CREATE then createOpcode Z (myAddress e) v (gasPrice e) g c (origin e) ?x
            else create2Opcode Z (myAddress e) v (gasPrice e) g c (origin e) s ?x"
  have m: "x_ext ?x = None" by simp
  have o: "outcome ?r (\<lambda>_ _. True) (opcodeContext ?x)" using opcode_context [OF m(1)] by simp
  show ?thesis
  proof (cases ?r)
    case (Inr y)
    obtain fin x where y: "y = (fin, x)" by (cases y)
    from o Inr y have "runExecutive Z run2 (fin, x) e = runExecutive Z run1 (fin, x) e"
      by (intro runExecutive_agree assms) (auto simp: opcodeContext_def set_up_def simp del: if_split)
    with Inr y show ?thesis by (simp only: ext_create_def Let_def sum.case)
  qed (simp only: ext_create_def Let_def sum.case)
qed

lemma blockHash_known_agree: "hashesKnown Z (envInfo e) \<Longrightarrow> ext_blockHash Z run2 e n = ext_blockHash Z run1 e n"
  by (simp add: ext_blockHash_def hashesKnown_def Let_def)

lemma client_agree:
  assumes known: "hashesKnown Z env"
    and r: "\<And>e' g. d < 1024 \<Longrightarrow> depth e' = d + 1 \<Longrightarrow> envInfo e' = env \<Longrightarrow> run2 e' g = run1 e' g"
  shows "agree (\<lambda>e. depth e = d \<and> envInfo e = env) (clientHost Z run1) (clientHost Z run2)"
proof -
  have "ext_call Z run2 e p = ext_call Z run1 e p" if "depth e = d" "envInfo e = env" "d < 1024" for e p
    by (rule ext_call_agree) (use that r in simp)
  moreover have "ext_create Z run2 e v g c op s = ext_create Z run1 e v g c op s"
    if "depth e = d" "envInfo e = env" "d < 1024" for e v g c op s
    by (rule ext_create_agree) (use that r in simp)
  moreover have "ext_blockHash Z run2 e n = ext_blockHash Z run1 e n" if "envInfo e = env" for e n
    using blockHash_known_agree known that by simp
  ultimately show ?thesis by (simp add: agree_def clientHost_def fun_eq_iff)
qed

lemma stable_context: "stable (\<lambda>e. depth e = d \<and> envInfo e = env)"
  unfolding stable_def using same_contextD(1,2) by metis

lemma clients_agree:
  assumes known: "hashesKnown Z (envInfo e)"
    and r: "\<And>e' g. depth e < 1024 \<Longrightarrow> depth e' = depth e + 1 \<Longrightarrow> envInfo e' = envInfo e \<Longrightarrow> extVM Z n e' g = extVM Z m e' g"
  shows "exec (clientHost Z (extVM Z n)) e g = exec (clientHost Z (extVM Z m)) e g"
proof -
  have "agree (\<lambda>e'. depth e' = depth e \<and> envInfo e' = envInfo e) (clientHost Z (extVM Z m)) (clientHost Z (extVM Z n))"
    by (rule client_agree [OF known r])
  from exec_agree [OF client.ext_vm_axioms this stable_context] show ?thesis by blast
qed

lemma extVM_levels:
  "\<lbrakk>hashesKnown Z (envInfo e); depth e \<le> 1024; depth e + k = 1025; k \<le> n; k \<le> m\<rbrakk> \<Longrightarrow> extVM Z n e g = extVM Z m e g"
proof (induction k arbitrary: e g n m)
  case 0
  then show ?case by linarith
next
  case (Suc k)
  obtain n' m' where nm: "n = Suc n'" "m = Suc m'" "k \<le> n'" "k \<le> m'"
    using Suc.prems(4,5) by (metis Suc_le_D Suc_le_mono)
  have "exec (clientHost Z (extVM Z n')) e g = exec (clientHost Z (extVM Z m')) e g"
  proof (rule clients_agree [OF Suc.prems(1)])
    fix e' :: "State ext" and g assume e': "depth e < 1024" "depth e' = depth e + 1" "envInfo e' = envInfo e"
    have "depth e' \<le> 1024" "depth e' + k = 1025" using e'(1,2) Suc.prems(3) by linarith+
    then show "extVM Z n' e' g = extVM Z m' e' g" using Suc.prems(1) e'(3) nm(3,4) by (intro Suc.IH) simp_all
  qed
  then show ?case by (simp only: nm extVM.simps)
qed

text \<open>C12: On every block whose hashes come from the chain, 1025 levels of calls are enough: executing
  a contract at depth \<open>d\<close> with any two numbers of levels of at least \<open>1025 - d\<close> gives the same
  result, so the cut in the recursion of the model never shows.\<close>

theorem extVM_enough:
  assumes "hashesKnown Z (envInfo e)" "depth e \<le> 1024" "1025 - depth e \<le> n" "1025 - depth e \<le> m"
  shows "extVM Z n e g = extVM Z m e g"
  by (rule extVM_levels [where k = "1025 - depth e"]) (use assms in simp_all)

text \<open>C13: Executing a contract on the client ends, on every block whose hashes come from the chain
  (\<open>hashesKnown\<close>; afterwards \<open>BLOCKHASH\<close> can nest transactions without bound): at a depth of at most
  1024, whatever the code, the state and the gas, the interpreter comes to a result -- an output or
  an exception -- within the fuel of the model. The result is one and the same for every number of
  levels of calls from \<open>1024 - depth\<close> on, so it does not come from cutting the recursion. Nothing
  of the context has changed but the world and the substate, and no more gas is left than was given
  unless the run threw, when the client takes the rest.\<close>

theorem client_exec_ends:
  assumes "hashesKnown Z (envInfo e)" "depth e \<le> 1024"
  shows "\<exists>r g' e'. (\<forall>n \<ge> 1024 - depth e. exec (clientHost Z (extVM Z n)) e g = Some (r, g', e')) \<and> same_context e e' \<and>
     (case r of Inl x \<Rightarrow> isRevert x \<longrightarrow> g' \<le> g | Inr out \<Rightarrow> g' \<le> g)"
proof -
  obtain r g' e' where r: "exec (clientHost Z (extVM Z 1024)) e g = Some (r, g', e')"
    using client.exec_returns [of Z 1024 e g] by (metis not_None_eq prod_cases3)
  have "exec (clientHost Z (extVM Z n)) e g = Some (r, g', e')" if n: "1024 - depth e \<le> n" for n
  proof -
    have "exec (clientHost Z (extVM Z n)) e g = exec (clientHost Z (extVM Z 1024)) e g"
    proof (rule clients_agree [OF assms(1)])
      fix e' :: "State ext" and g assume "depth e < 1024" "depth e' = depth e + 1" "envInfo e' = envInfo e"
      then show "extVM Z n e' g = extVM Z 1024 e' g"
        using assms(1) n by (intro extVM_levels [where k = "1024 - depth e"]) simp_all
    qed
    with r show ?thesis by simp
  qed
  with client.exec_frame [OF r] show ?thesis by (intro exI [of _ r] exI [of _ g'] exI [of _ e']) (auto split: sum.splits)
qed

text \<open>A chain with the default parameters on the counting hashes, and a context on the sample world.\<close>

definition sampleChain :: chain where
  "sampleChain =
     \<lparr>z_crypto = countCrypto, z_keys = \<lparr>k_recover = (\<lambda>_ _. [1]), k_sign = (\<lambda>_ _. \<lparr>sig_r = 1, sig_s = 1, sig_v = 0\<rparr>)\<rparr>,
      z_params = defaultChainParams, z_ethash = False, z_lastHashes = (\<lambda>_. []), z_oobHash = 0, z_order = (\<lambda>_. []),
      z_optimize = False, z_oobStepGas = 0\<rparr>"

definition sampleEnv :: EnvInfo where
  "sampleEnv = \<lparr>env_number = 1, env_author = 9, env_timestamp = 10, env_difficulty = 1, env_gasLimit = 1000000,
     env_gasUsed = 0, env_parentHash = 0\<rparr>"

definition sampleContext :: "State ext" where
  "sampleContext =
     \<lparr>world = sampleState, envInfo = sampleEnv, myAddress = 1, caller = 2, origin = 2, ext_value = 0, gasPrice = 1,
      ext_data = [], ext_code = [0], codeHash = 0, sub = emptySubState, depth = 0, isCreate = False, staticCall = False\<rparr>"

lemma sample_known: "hashesKnown sampleChain sampleEnv"
  by (simp add: hashesKnown_def sampleChain_def sampleEnv_def defaultChainParams_def c_infiniteBlockNumber_def)

lemma client_exec_ends_witness:
  "\<exists>r g' e'. exec (clientHost sampleChain (extVM sampleChain 1024)) sampleContext 100 = Some (r, g', e') \<and>
     same_context sampleContext e'"
proof -
  have k: "hashesKnown sampleChain (envInfo sampleContext)" "depth sampleContext \<le> 1024"
    using sample_known by (simp_all add: sampleContext_def)
  from client_exec_ends [OF k, of 100] show ?thesis by (fastforce simp: sampleContext_def)
qed

lemma extVM_enough_witness: "extVM sampleChain 1025 sampleContext 100 = extVM sampleChain 2000 sampleContext 100"
  by (rule extVM_enough) (use sample_known in \<open>simp_all add: sampleContext_def\<close>)



end
