(* ===== verification/Ext_VM_World.thy ===== *)
theory Ext_VM_World
  imports Ext_VM_Fuel Transaction_Codec
begin

section \<open>The world under the client\<close>

text \<open>
  Whatever code runs, the client takes the state from one good state to another: consistent, so
  that it can be rolled back to every savepoint, with the storage of every account without code
  empty. Accounts do not vanish, the storage roots stay (they change at the commit), no exception
  of the state leaves a call, a call that fails restores what the state shows, and a static call
  changes nothing of what it shows but for empty accounts it touched. This is again a contract of
  the interpreter with its surroundings, the locale \<open>ext_rel\<close>, here interpreted with a relation
  between worlds.
\<close>

subsection \<open>Good states, and how they evolve\<close>

definition plain :: "crypto \<Rightarrow> State \<Rightarrow> bool" where
  "plain C S \<longleftrightarrow> (\<forall>a v. viewOf C S a = Some v \<longrightarrow> v_codeHash v = EmptySHA3 C \<longrightarrow> v_root v = EmptyTrie C)"

definition good :: "crypto \<Rightarrow> State \<Rightarrow> bool" where
  "good C S \<longleftrightarrow> consistent C S \<and> db_empty C S \<and> plain C S \<and> m_accountStartNonce S \<noteq> Invalid256"

definition keeps :: "crypto \<Rightarrow> State \<Rightarrow> State \<Rightarrow> bool" where
  "keeps C S T \<longleftrightarrow> (\<forall>a v. viewOf C S a = Some v \<longrightarrow> (\<exists>v'. viewOf C T a = Some v' \<and> v_root v' = v_root v))"

definition alters :: "crypto \<Rightarrow> State \<Rightarrow> State \<Rightarrow> bool" where
  "alters C S T \<longleftrightarrow> (good C S \<longrightarrow> good C T \<and> grows C S T \<and> keeps C S T)"

text \<open>All the wei there are. Balances are words: below \<open>2 ^ 256\<close> in all, no sum of them wraps.\<close>

definition total :: "view \<Rightarrow> nat" where
  "total W = (\<Sum>a\<in>UNIV. unat (w_balance W a))"

definition unminted :: "view \<Rightarrow> view \<Rightarrow> bool" where
  "unminted V W \<longleftrightarrow> (total V < 2 ^ 256 \<longrightarrow> total W \<le> total V)"

definition evolves :: "crypto \<Rightarrow> State \<Rightarrow> State \<Rightarrow> bool" where
  "evolves C S T \<longleftrightarrow> alters C S T \<and> (good C S \<longrightarrow> unminted (viewOf C S) (viewOf C T))"

text \<open>Nothing shows, but for accounts touched without value.\<close>

definition calm :: "crypto \<Rightarrow> State \<Rightarrow> State \<Rightarrow> bool" where
  "calm C S T \<longleftrightarrow>
     (\<forall>a. viewOf C T a = viewOf C S a \<or>
          (viewOf C S a = None \<and> viewOf C T a = Some (freshView C (m_accountStartNonce S) 0)))"

lemma alters_trans: "alters C S T \<Longrightarrow> alters C T U \<Longrightarrow> alters C S U"
  unfolding alters_def keeps_def by (metis grows_trans)

lemma altersD:
  assumes "alters C S T" "good C S"
  shows "good C T" "grows C S T" "keeps C S T" "m_accountStartNonce T = m_accountStartNonce S"
  using assms by (auto simp: alters_def good_def grows_def sameBase_def)

lemma evolves_alters: "evolves C S T \<Longrightarrow> alters C S T"
  by (simp add: evolves_def)

lemmas evolvesD = altersD [OF evolves_alters]

lemma unminted_refl [simp]: "unminted W W"
  by (simp add: unminted_def)

lemma unminted_trans: "unminted U V \<Longrightarrow> unminted V W \<Longrightarrow> unminted U W"
  by (auto simp: unminted_def)

lemma evolves_refl [simp]: "evolves C S S"
  by (simp add: evolves_def alters_def keeps_def)

lemma evolves_trans: "evolves C S T \<Longrightarrow> evolves C T U \<Longrightarrow> evolves C S U"
  using alters_trans unminted_trans altersD(1) unfolding evolves_def by metis

lemma total_update: "total (W(a \<mapsto> x)) + unat (w_balance W a) = total W + unat (v_balance x)"
proof -
  have "total (W(a \<mapsto> x)) = unat (v_balance x) + (\<Sum>b\<in>UNIV - {a}. unat (w_balance (W(a \<mapsto> x)) b))"
    unfolding total_def by (subst sum.remove [of UNIV a]) (simp_all add: w_balance_def)
  also have "(\<Sum>b\<in>UNIV - {a}. unat (w_balance (W(a \<mapsto> x)) b)) = (\<Sum>b\<in>UNIV - {a}. unat (w_balance W b))"
    by (rule sum.cong) (simp_all add: w_balance_def)
  also have "unat (v_balance x) + \<dots> + unat (w_balance W a) = unat (v_balance x) + total W"
    unfolding total_def by (simp add: sum.remove [of UNIV a "\<lambda>b. unat (w_balance W b)"])
  finally show ?thesis by (simp add: fun_upd_def)
qed

lemma unminted_update: "v_balance x \<le> w_balance W a \<Longrightarrow> unminted W (W(a \<mapsto> x))"
  using total_update [of W a x] by (simp add: unminted_def word_le_nat_alt)

lemma goodD:
  assumes "good C S"
  shows "consistent C S" "base_ok C S" "db_empty C S" "plain C S" "m_accountStartNonce S \<noteq> Invalid256"
  using assms consistent_base by (auto simp: good_def)

lemma calm_refl [simp]: "calm C S S"
  by (simp add: calm_def)

lemma calm_trans:
  assumes "calm C S T" "calm C T U" "m_accountStartNonce T = m_accountStartNonce S"
  shows "calm C S U"
  unfolding calm_def
proof
  fix a
  show "viewOf C U a = viewOf C S a \<or>
        viewOf C S a = None \<and> viewOf C U a = Some (freshView C (m_accountStartNonce S) 0)"
    using assms(1,2) [unfolded calm_def, rule_format, of a] assms(3) by auto
qed

lemma altersI:
  assumes g: "grows C S T" and v: "viewOf C T = (viewOf C S)(a \<mapsto> x)"
    and x: "good C S \<Longrightarrow> case viewOf C S a of
        Some w \<Rightarrow> v_root x = v_root w \<and> (v_codeHash x = EmptySHA3 C \<longrightarrow> v_root x = EmptyTrie C)
      | None \<Rightarrow> v_codeHash x = EmptySHA3 C \<longrightarrow> v_root x = EmptyTrie C"
  shows "alters C S T"
  unfolding alters_def
proof (intro impI conjI g)
  assume S: "good C S"
  show "good C T"
    using goodD [OF S] account_grown [OF g] x [OF S] g
    by (auto simp: good_def plain_def v grows_def sameBase_def split: option.splits)
  show "keeps C S T" using x [OF S] by (auto simp: keeps_def v split: option.splits)
qed

lemma evolvesI:
  assumes g: "grows C S T" and v: "viewOf C T = (viewOf C S)(a \<mapsto> x)"
    and x: "good C S \<Longrightarrow> case viewOf C S a of
        Some w \<Rightarrow> v_root x = v_root w \<and> (v_codeHash x = EmptySHA3 C \<longrightarrow> v_root x = EmptyTrie C)
      | None \<Rightarrow> v_codeHash x = EmptySHA3 C \<longrightarrow> v_root x = EmptyTrie C"
    and b: "good C S \<Longrightarrow> v_balance x \<le> w_balance (viewOf C S) a"
  shows "evolves C S T"
  using altersI [OF g v x] unminted_update [OF b] by (simp add: evolves_def v)

lemma evolves_same: "grows C S T \<Longrightarrow> viewOf C T = viewOf C S \<Longrightarrow> evolves C S T"
  using account_grown [of C S T] by (auto simp: evolves_def alters_def good_def plain_def keeps_def grows_def sameBase_def)

lemma calm_same: "viewOf C T = viewOf C S \<Longrightarrow> calm C S T"
  by (simp add: calm_def)

lemma evolves_good: "(good C S \<Longrightarrow> evolves C S T) \<Longrightarrow> evolves C S T"
  by (auto simp: evolves_def alters_def)

lemma evolves_rollback:
  assumes "evolves C S T"
  shows "evolves C S (rollback C (savepoint S) T)"
    and "good C S \<Longrightarrow> viewOf C (rollback C (savepoint S) T) = viewOf C S"
proof -
  have "evolves C S (rollback C (savepoint S) T) \<and> viewOf C (rollback C (savepoint S) T) = viewOf C S" if g: "good C S"
  proof -
    have "sim C S (rollback C (savepoint S) T)" using evolvesD [OF assms g] goodD(1) [OF g] by (simp add: grows_def)
    then have "viewOf C (rollback C (savepoint S) T) = viewOf C S" by (simp add: sim_def)
    with evolves_same [OF grows_rollback [OF evolvesD(2) [OF assms g]]] show ?thesis by simp
  qed
  then show "evolves C S (rollback C (savepoint S) T)"
    and "good C S \<Longrightarrow> viewOf C (rollback C (savepoint S) T) = viewOf C S"
    using evolves_good by blast+
qed

subsection \<open>Operations of the state\<close>

lemma query_evolves:
  assumes "answers C S r v"
  shows "evolves C S (snd r)" "viewOf C (snd r) = viewOf C S" "m_changeLog (snd r) = m_changeLog S" "fst r = v"
proof -
  have s: "sim C S (snd r)" "base_ok C (snd r)" using assms by (simp_all add: answers_def)
  then show "viewOf C (snd r) = viewOf C S" "m_changeLog (snd r) = m_changeLog S" by (simp_all add: sim_def)
  with s show "evolves C S (snd r)" using evolves_same [OF grows_quiet [of C S "snd r"]] by simp
  show "fst r = v" using assms by (simp add: answers_def)
qed

lemma update_alters:
  assumes "implements C S r (w_update C n b f a)" "\<And>x. v_root (f x) = v_root x" "\<And>x. v_codeHash (f x) = v_codeHash x"
  shows "outcome r (\<lambda>_ T. evolves C S T \<and> viewOf C T = viewOf C S)
     (\<lambda>T. alters C S T \<and> viewOf C T = w_update C n b f a (viewOf C S))"
  using assms(1) unfolding implements_def
proof (rule outcome_mono)
  fix T assume T: "grows C S T \<and> viewOf C T = w_update C n b f a (viewOf C S)"
  have "alters C S T"
  proof (rule altersI)
    show "viewOf C T = (viewOf C S)(a \<mapsto> (case viewOf C S a of Some x \<Rightarrow> f x | None \<Rightarrow> freshView C n b))"
      using T by (simp add: w_update_def)
  qed (use T assms(2,3) in \<open>auto simp: good_def plain_def freshView_def split: option.splits\<close>)
  with T show "alters C S T \<and> viewOf C T = w_update C n b f a (viewOf C S)" by simp
qed (use evolves_same in blast)

lemma update_evolves:
  assumes "implements C S r (w_update C n 0 f a)" "\<And>x. v_root (f x) = v_root x" "\<And>x. v_codeHash (f x) = v_codeHash x"
    and b: "\<And>x. viewOf C S a = Some x \<Longrightarrow> v_balance (f x) \<le> v_balance x"
  shows "outcome r (\<lambda>_ T. evolves C S T \<and> viewOf C T = viewOf C S)
     (\<lambda>T. evolves C S T \<and> viewOf C T = w_update C n 0 f a (viewOf C S))"
  using update_alters [OF assms(1-3)]
proof (rule outcome_mono)
  fix T assume T: "alters C S T \<and> viewOf C T = w_update C n 0 f a (viewOf C S)"
  have "v_balance (case viewOf C S a of Some x \<Rightarrow> f x | None \<Rightarrow> freshView C n 0) \<le> w_balance (viewOf C S) a"
    using b by (simp add: w_balance_def freshView_def split: option.split)
  from unminted_update [OF this] T
  show "evolves C S T \<and> viewOf C T = w_update C n 0 f a (viewOf C S)" by (simp add: evolves_def w_update_def)
qed

text \<open>None of them throws when the start nonce is known, but for a debit beyond the balance.\<close>

lemma no_throw:
  assumes "m_accountStartNonce S \<noteq> Invalid256"
  shows "\<exists>T. addBalance C a v S = Inr T" "\<exists>T. incNonce C a S = Inr T"
  using assms by (auto simp: addBalance_def incNonce_def account_def requireAccountStartNonce_def Let_def
      split: option.split prod.split if_splits)

lemma good_addBalance:
  assumes "good C S"
  obtains T where "addBalance C a v S = Inr T" "alters C S T" "v = 0 \<Longrightarrow> evolves C S T" "viewOf C T = w_addBalance C (m_accountStartNonce S) a v (viewOf C S)"
proof -
  obtain T where T: "addBalance C a v S = Inr T" using no_throw(1) [OF goodD(5) [OF assms]] by blast
  have "implements C S (addBalance C a v S) (w_addBalance C (m_accountStartNonce S) a v)"
    using goodD [OF assms] by (intro implements_addBalance)
  note i = this [unfolded w_addBalance_def]
  show thesis
  proof (rule that [OF T])
    show "alters C S T" "viewOf C T = w_addBalance C (m_accountStartNonce S) a v (viewOf C S)"
      using update_alters [OF i] T by (simp_all add: w_addBalance_def)
    show "evolves C S T" if "v = 0"
      using update_evolves [OF i [unfolded that]] T that by simp
  qed
qed

lemma good_incNonce:
  assumes "good C S"
  obtains T where "incNonce C a S = Inr T" "evolves C S T" "viewOf C T = w_incNonce C (m_accountStartNonce S) a (viewOf C S)"
proof -
  obtain T where T: "incNonce C a S = Inr T" using no_throw(2) [OF goodD(5) [OF assms]] by blast
  have "implements C S (incNonce C a S) (w_incNonce C (m_accountStartNonce S) a)"
    using goodD [OF assms] by (intro implements_incNonce)
  from update_evolves [OF this [unfolded w_incNonce_def]] T show thesis
    by (intro that [OF T]) (simp_all add: w_incNonce_def)
qed

lemma good_setBalance:
  assumes "good C S"
  obtains T where "setBalance C a 0 S = Inr T" "evolves C S T"
    "viewOf C T = w_update C (m_accountStartNonce S) 0 (\<lambda>x. x\<lparr>v_balance := 0\<rparr>) a (viewOf C S)"
proof -
  obtain r U where a: "account C a S = (r, U)" by (cases "account C a S")
  have "m_accountStartNonce U \<noteq> Invalid256"
    using grows_account [OF a] goodD(1,5) [OF assms] by (simp add: grows_def sameBase_def)
  from no_throw(1) [OF this] obtain T where T: "setBalance C a 0 S = Inr T"
    unfolding setBalance_def a by (metis case_prod_conv Let_def)
  have "implements C S (setBalance C a 0 S) (w_update C (m_accountStartNonce S) 0 (\<lambda>x. x\<lparr>v_balance := 0\<rparr>) a)"
    using goodD [OF assms] by (intro implements_setBalance)
  from update_evolves [OF this] T show thesis by (intro that [OF T]) simp_all
qed

lemma good_setNonce:
  assumes "good C S"
  shows "evolves C S (setNonce C a n S)" "viewOf C (setNonce C a n S) = w_setNonce C a n (viewOf C S)"
proof -
  have *: "grows C S (setNonce C a n S)" "viewOf C (setNonce C a n S) = w_setNonce C a n (viewOf C S)"
    using implements_setNonce [of C S a n] goodD [OF assms] by simp_all
  then have "implements C S (Inr (setNonce C a n S)) (w_update C n 0 (\<lambda>x. x\<lparr>v_nonce := n\<rparr>) a)"
    by (simp add: implements_def w_setNonce_def)
  from update_evolves [OF this] show "evolves C S (setNonce C a n S)" by simp
  show "viewOf C (setNonce C a n S) = w_setNonce C a n (viewOf C S)" by (rule *(2))
qed

lemma good_setStorage:
  assumes "good C S" "viewOf C S a \<noteq> None"
  shows "evolves C S (setStorage C a k v S)"
proof -
  obtain w where w: "viewOf C S a = Some w" using assms(2) by blast
  note s = implements_setStorage [OF goodD(2) [OF assms(1)] w, of k v]
  show ?thesis by (rule evolvesI [OF s]) (use w goodD(4) [OF assms(1)] in \<open>simp_all add: plain_def w_balance_def\<close>)
qed

lemma good_setCode:
  assumes "good C S" "viewOf C S a = Some w" "v_root w = EmptyTrie C" "a \<in> changeAddress ` set (m_changeLog S)"
  shows "evolves C S (setCode C a c S)"
  by (rule evolvesI [OF implements_setCode [OF goodD(2) [OF assms(1)] assms(2,4)]]) (use assms(2,3) in \<open>simp_all add: w_balance_def\<close>)

text \<open>Clearing storage that is empty does nothing that shows.\<close>

lemma good_clearStorage:
  assumes "good C S" "m_cache S a \<noteq> None" "viewOf C S a = Some w" "v_root w = EmptyTrie C"
  shows "clearStorage C a S = S"
proof -
  obtain x where x: "m_cache S a = Some x" using assms(2) by blast
  then have "m_storageRoot x = EmptyTrie C" using assms(3,4) viewOf_cached [OF x, of C] by auto
  then show ?thesis using x by (simp add: clearStorage_def cacheAt_def putAccount_def Let_def fun_upd_idem)
qed

lemma total_addBalance: "total (w_addBalance C n a v W) \<le> total W + unat v"
proof -
  let ?x = "case W a of Some x \<Rightarrow> x\<lparr>v_balance := v_balance x + v\<rparr> | None \<Rightarrow> freshView C n v"
  have "unat (v_balance ?x) \<le> unat (w_balance W a) + unat v"
    by (auto simp: w_balance_def freshView_def unat_word_ariths(1) split: option.split)
  then show ?thesis using total_update [of W a ?x] by (simp add: w_addBalance_def w_update_def)
qed

lemma total_subBalance:
  assumes "v \<le> w_balance W a" "v \<noteq> 0"
  shows "total (w_addBalance C n a (- v) W) + unat v = total W"
proof -
  obtain x where x: "W a = Some x" using assms by (cases "W a") (auto simp: w_balance_def)
  have "unat (v_balance x + - v) + unat v = unat (v_balance x)"
    using assms(1) x by (simp add: w_balance_def unat_sub word_le_nat_alt)
  then show ?thesis using total_update [of W a "x\<lparr>v_balance := v_balance x + - v\<rparr>"] x
    by (simp add: w_addBalance_def w_update_def w_balance_def)
qed

lemma calm_add0:
  assumes "viewOf C T = w_addBalance C (m_accountStartNonce S) b 0 (viewOf C S)"
  shows "calm C S T"
  using assms by (auto simp: calm_def w_addBalance_def w_update_def split: option.splits)

lemma good_transfer:
  assumes g: "good C S" and bal: "v \<le> w_balance (viewOf C S) a"
  obtains T where "transferBalance C a b v S = Inr T" "evolves C S T" "viewOf C T b \<noteq> None"
    "v = 0 \<or> a = b \<Longrightarrow> calm C S T"
    "\<And>x. viewOf C S b = Some x \<Longrightarrow> \<exists>y. viewOf C T b = Some y \<and> v_codeHash y = v_codeHash x \<and> v_root y = v_root x"
    "viewOf C S b = None \<Longrightarrow> a \<noteq> b \<or> v = 0 \<Longrightarrow> viewOf C T b = Some (freshView C (m_accountStartNonce S) v)"
proof -
  note sub = implements_subBalance [OF goodD(2,3) [OF g], of a v]
  show thesis
  proof (cases "subBalance C a v S")
    case (Inl y)
    with sub(2) bal show thesis by (cases y) (force simp: not_less [symmetric])
  next
    case (Inr U)
    have U: "alters C S U \<and> viewOf C U = (if v = 0 then viewOf C S else w_addBalance C (m_accountStartNonce S) a (- v) (viewOf C S))"
    proof (cases "v = 0")
      case True
      with sub(1) Inr show ?thesis using evolves_alters [OF evolves_same] by (auto simp: implements_def)
    next
      case False
      then have "implements C S (subBalance C a v S) (w_addBalance C (m_accountStartNonce S) a (- v))" using sub(1) by simp
      from update_alters [OF this [unfolded w_addBalance_def]] Inr False show ?thesis by (simp add: w_addBalance_def)
    qed
    then have gU: "good C U" "m_accountStartNonce U = m_accountStartNonce S" using altersD g by auto
    obtain T where T: "addBalance C b v U = Inr T" "alters C U T" "viewOf C T = w_addBalance C (m_accountStartNonce U) b v (viewOf C U)"
      using good_addBalance [OF gU(1)] by metis
    have exa: "v \<noteq> 0 \<Longrightarrow> \<exists>x. viewOf C S a = Some x" using bal by (cases "viewOf C S a") (auto simp: w_balance_def)
    show thesis
    proof (rule that)
      show "transferBalance C a b v S = Inr T" using Inr T(1) by (simp add: transferBalance_def)
      have "total (viewOf C U) + unat v = total (viewOf C S)" using U total_subBalance [OF bal] by simp
      then have "total (viewOf C T) \<le> total (viewOf C S)"
        using total_addBalance [of C "m_accountStartNonce U" b v "viewOf C U"] T(3) by simp
      then show "evolves C S T" using U T(2) alters_trans by (auto simp: evolves_def unminted_def)
      show "viewOf C T b \<noteq> None" by (simp add: T(3) w_addBalance_def w_update_def)
      show "calm C S T" if "v = 0 \<or> a = b"
      proof (cases "v = 0")
        case True
        then show ?thesis using T(3) U gU(2) by (intro calm_add0) simp
      next
        case False
        with that have ab: "a = b" by simp
        obtain x where x: "viewOf C S a = Some x" using exa [OF False] by blast
        have "viewOf C T = viewOf C S"
          using T(3) U False ab x by (simp add: w_addBalance_def w_update_def fun_upd_idem)
        then show ?thesis by (rule calm_same)
      qed
      show "\<exists>y. viewOf C T b = Some y \<and> v_codeHash y = v_codeHash x \<and> v_root y = v_root x" if "viewOf C S b = Some x" for x
        using that T(3) U by (auto simp: w_addBalance_def w_update_def)
      show "viewOf C T b = Some (freshView C (m_accountStartNonce S) v)" if "viewOf C S b = None" "a \<noteq> b \<or> v = 0"
        using that T(3) U gU(2) by (auto simp: w_addBalance_def w_update_def)
    qed
  qed
qed

text \<open>What was logged stays logged.\<close>

lemma evolves_logged:
  assumes "evolves C S T" "good C S"
  shows "set (m_changeLog S) \<subseteq> set (m_changeLog T)"
proof -
  have "sim C S (rollback C (savepoint S) T)" using evolvesD(2) [OF assms] goodD(1) [OF assms(2)] by (simp add: grows_def)
  then have "m_changeLog S = take (savepoint S) (m_changeLog T)" by (simp add: sim_def)
  then show ?thesis using set_take_subset by metis
qed

lemma setNonce_logged: "m_cache (setNonce C a n S) a \<noteq> None" "a \<in> changeAddress ` set (m_changeLog (setNonce C a n S))"
  by (auto simp: setNonce_def createAccount_def logChange_def putAccount_def split: prod.splits option.splits)

subsection \<open>The executive\<close>

definition legal :: "chain \<Rightarrow> State ext \<Rightarrow> bool" where
  "legal Z e \<longleftrightarrow> good (z_crypto Z) (world e) \<and> viewOf (z_crypto Z) (world e) (myAddress e) \<noteq> None"

definition world_rel :: "chain \<Rightarrow> State ext \<Rightarrow> State ext \<Rightarrow> bool" where
  "world_rel Z e e' \<longleftrightarrow> same_context e e' \<and>
     (legal Z e \<and> hashesKnown Z (envInfo e) \<longrightarrow> evolves (z_crypto Z) (world e) (world e') \<and>
        (staticCall e \<longrightarrow> calm (z_crypto Z) (world e) (world e')))"

lemma world_rel_legal: "world_rel Z e e' \<Longrightarrow> legal Z e \<Longrightarrow> hashesKnown Z (envInfo e) \<Longrightarrow> legal Z e' \<and> hashesKnown Z (envInfo e')"
  using same_contextD(2,3) [of e e'] evolvesD(1,3) by (fastforce simp: world_rel_def legal_def keeps_def)

lemma world_rel_refl [simp]: "world_rel Z e e"
  by (simp add: world_rel_def)

lemma world_rel_trans:
  assumes 1: "world_rel Z e1 e2" and 2: "world_rel Z e2 e3"
  shows "world_rel Z e1 e3"
  unfolding world_rel_def
proof (intro conjI impI)
  show "same_context e1 e3" using 1 2 same_context_trans by (auto simp: world_rel_def)
  assume l: "legal Z e1 \<and> hashesKnown Z (envInfo e1)"
  note l2 = world_rel_legal [OF 1 conjunct1 [OF l] conjunct2 [OF l]]
  show "evolves (z_crypto Z) (world e1) (world e3)"
    using 1 2 l l2 evolves_trans by (auto simp: world_rel_def)
  assume s: "staticCall e1"
  then have "staticCall e2" using 1 same_contextD(4) by (auto simp: world_rel_def)
  with 1 2 l l2 s show "calm (z_crypto Z) (world e1) (world e3)"
    using evolvesD(4) calm_trans by (auto simp: world_rel_def legal_def)
qed

definition lawful :: "chain \<Rightarrow> vm_run \<Rightarrow> bool" where
  "lawful Z run \<longleftrightarrow> (\<forall>e g r g' e'. run e g = (r, g', e') \<longrightarrow> world_rel Z e e')"

text \<open>An object since its savepoint.\<close>

definition since :: "chain \<Rightarrow> State \<Rightarrow> Executive \<Rightarrow> bool" where
  "since Z S e \<longleftrightarrow> evolves (z_crypto Z) S (x_s e) \<and> x_savepoint e = savepoint S"

lemma since_revert:
  assumes "since Z S e" "good (z_crypto Z) S"
  shows "since Z S (revert Z e)" "viewOf (z_crypto Z) (x_s (revert Z e)) = viewOf (z_crypto Z) S"
  using evolves_rollback [of "z_crypto Z" S "x_s e"] assms by (simp_all add: since_def revert_def)

lemma since_updates [simp]:
  "since Z S (e\<lparr>x_gas := g\<rparr>) = since Z S e" "since Z S (e\<lparr>x_excepted := x\<rparr>) = since Z S e"
  "since Z S (e\<lparr>x_output := out\<rparr>) = since Z S e" "since Z S (e\<lparr>x_ext := ext\<rparr>) = since Z S e"
  "since Z S (e\<lparr>x_isCreation := c\<rparr>) = since Z S e" "since Z S (updateResult f e) = since Z S e"
  by (simp_all add: since_def)

lemma since_handle:
  assumes "since Z S e" "good (z_crypto Z) S"
  shows "since Z S (handleException Z x e)" "viewOf (z_crypto Z) (x_s (handleException Z x e)) = viewOf (z_crypto Z) S"
proof -
  have g: "since Z S (e\<lparr>x_gas := 0, x_excepted := t\<rparr>)" for t using assms(1) by simp
  show "since Z S (handleException Z x e)" "viewOf (z_crypto Z) (x_s (handleException Z x e)) = viewOf (z_crypto Z) S"
    using since_revert [OF assms] since_revert [OF g assms(2)] by (cases x; simp add: handleException_def)+
qed

lemma handle_excepted: "x_excepted (handleException Z x e) \<noteq> TE_None"
  by (cases x) (simp_all add: handleException_def)

text \<open>Where the contract that is being created stands: logged, with empty storage.\<close>

definition awaiting :: "chain \<Rightarrow> address \<Rightarrow> State \<Rightarrow> bool" where
  "awaiting Z a S \<longleftrightarrow> a \<in> changeAddress ` set (m_changeLog S) \<and>
     (\<exists>w. viewOf (z_crypto Z) S a = Some w \<and> v_root w = EmptyTrie (z_crypto Z))"

lemma awaiting_evolves: "awaiting Z a S \<Longrightarrow> evolves (z_crypto Z) S T \<Longrightarrow> good (z_crypto Z) S \<Longrightarrow> awaiting Z a T"
  using evolves_logged [of "z_crypto Z" S T] evolvesD(3) [of "z_crypto Z" S T] by (fastforce simp: awaiting_def keeps_def)

lemma since_deposit:
  assumes "since Z S e" "good (z_crypto Z) S" "awaiting Z (myAddress ext) (x_s e)"
  shows "case depositCode Z ext out e of
      Inl (x, e') \<Rightarrow> since Z S e' | Inr e' \<Rightarrow> since Z S e' \<and> x_excepted e' = x_excepted e"
proof -
  have g: "good (z_crypto Z) (x_s e)" using assms evolvesD(1) by (auto simp: since_def)
  have "evolves (z_crypto Z) (x_s e) (setCode (z_crypto Z) (myAddress ext) c (x_s e))" for c
    using assms(3) good_setCode [OF g] by (auto simp: awaiting_def)
  then have "evolves (z_crypto Z) S (setCode (z_crypto Z) (myAddress ext) c (x_s e))" for c
    using assms(1) evolves_trans unfolding since_def by blast
  with assms(1) show ?thesis by (auto simp: depositCode_def Let_def since_def)
qed

lemma go_since:
  assumes S: "good (z_crypto Z) S" and x: "since Z S x" "x_ext x = Some ext" "x_excepted x = TE_None"
    and run: "lawful Z run" "hashesKnown Z (envInfo ext)" and ex: "viewOf (z_crypto Z) (x_s x) (myAddress ext) \<noteq> None"
    and cr: "x_isCreation x \<Longrightarrow> awaiting Z (myAddress ext) (x_s x)"
  shows "since Z S (go Z run x)"
    and "x_excepted (go Z run x) \<noteq> TE_None \<Longrightarrow> viewOf (z_crypto Z) (x_s (go Z run x)) = viewOf (z_crypto Z) S"
    and "staticCall ext \<Longrightarrow> \<not> x_isCreation x \<Longrightarrow> calm (z_crypto Z) S (x_s x) \<Longrightarrow> calm (z_crypto Z) S (x_s (go Z run x))"
proof -
  let ?C = "z_crypto Z" and ?start = "ext\<lparr>world := x_s x\<rparr>"
  obtain r g ext' where r: "run ?start (x_gas x) = (r, g, ext')" by (metis prod_cases3)
  let ?e = "x\<lparr>x_s := world ext', x_ext := Some ext', x_gas := g\<rparr>"
  have gx: "good ?C (x_s x)" and st: "m_accountStartNonce (x_s x) = m_accountStartNonce S"
    using x(1) S evolvesD(1,4) by (auto simp: since_def)
  have rel: "world_rel Z ?start ext'" using run(1) r by (auto simp: lawful_def)
  have l: "legal Z ?start \<and> hashesKnown Z (envInfo ?start)" using gx ex run(2) by (simp add: legal_def)
  have ev: "evolves ?C (x_s x) (world ext')" and ca: "staticCall ext \<Longrightarrow> calm ?C (x_s x) (world ext')"
    and my: "myAddress ext' = myAddress ext"
    using rel l same_contextD(3) [of ?start ext'] by (auto simp: world_rel_def)
  have se: "since Z S ?e" using x(1) ev evolves_trans by (auto simp: since_def)
  have aw: "x_isCreation x \<Longrightarrow> awaiting Z (myAddress ext') (x_s ?e)"
    using awaiting_evolves [OF cr ev gx] my by simp
  let ?h = "case r of
      Inl y \<Rightarrow> handleException Z y ?e
    | Inr out \<Rightarrow> if x_isCreation ?e
        then (case depositCode Z ext' out ?e of Inl (y, e) \<Rightarrow> handleException Z y e | Inr e \<Rightarrow> e)
        else ?e\<lparr>x_output := out\<rparr>"
  have "since Z S ?h \<and> (x_excepted ?h \<noteq> TE_None \<longrightarrow> viewOf ?C (x_s ?h) = viewOf ?C S) \<and>
        (staticCall ext \<and> \<not> x_isCreation x \<and> calm ?C S (x_s x) \<longrightarrow> calm ?C S (x_s ?h))"
  proof (cases r)
    case (Inl y)
    with since_handle [OF se S, of y] calm_same show ?thesis by simp
  next
    case (Inr out)
    show ?thesis
    proof (cases "x_isCreation x")
      case True
      note d = since_deposit [OF se S aw [OF True], of out]
      show ?thesis
      proof (cases "depositCode Z ext' out ?e")
        case (Inl z)
        obtain y e1 where z: "z = (y, e1)" by (cases z)
        with d Inl have "since Z S e1" by simp
        from since_handle [OF this S, of y] Inl z Inr True show ?thesis by simp
      next
        case (Inr e1)
        with d \<open>r = Inr out\<close> True x(3) show ?thesis by simp
      qed
    next
      case False
      have "staticCall ext \<Longrightarrow> calm ?C S (x_s x) \<Longrightarrow> calm ?C S (world ext')" using calm_trans [OF _ ca st] by blast
      with Inr False se x(3) show ?thesis by simp
    qed
  qed
  moreover have "go Z run x = (if x_output ?h = [] then ?h else updateResult (\<lambda>r. r\<lparr>r_output := x_output ?h\<rparr>) ?h)"
    using x(2) r by (simp add: go_def Let_def)
  ultimately show "since Z S (go Z run x)"
    and "x_excepted (go Z run x) \<noteq> TE_None \<Longrightarrow> viewOf ?C (x_s (go Z run x)) = viewOf ?C S"
    and "staticCall ext \<Longrightarrow> \<not> x_isCreation x \<Longrightarrow> calm ?C S (x_s x) \<Longrightarrow> calm ?C S (x_s (go Z run x))"
    by (simp_all del: since_def split del: if_split) (simp_all split: if_splits)
qed

subsection \<open>A call\<close>

text \<open>A call that moves no value from one account to another.\<close>

definition quiet :: "CallParameters \<Rightarrow> bool" where
  "quiet p \<longleftrightarrow> valueTransfer p = 0 \<or> senderAddress p = receiveAddress p"

lemma ask_evolves:
  assumes "answers C (x_s e) (q (x_s e)) v" "ask q e = (v', e')"
  shows "v' = v" "\<exists>T. e' = e\<lparr>x_s := T\<rparr> \<and> evolves C (x_s e) T \<and> viewOf C T = viewOf C (x_s e)"
  using query_evolves [OF assms(1)] assms(2) by auto

lemma callCode_since:
  assumes "good (z_crypto Z) (x_s e)" "x_ext e = None"
  shows "\<exists>T ext. callCode Z p gp orig e = e\<lparr>x_gas := cp_gas p, x_s := T, x_ext := ext\<rparr> \<and>
    evolves (z_crypto Z) (x_s e) T \<and> viewOf (z_crypto Z) T = viewOf (z_crypto Z) (x_s e)"
proof -
  let ?C = "z_crypto Z" and ?a = "codeAddress p"
  let ?S1 = "snd (addressHasCode ?C ?a (x_s e))"
  let ?S2 = "snd (codeOf ?C ?a ?S1)"
  let ?S3 = "snd (codeHashOf ?C ?a ?S2)"
  note q1 = query_evolves [OF queries(5) [OF goodD(2) [OF assms(1)], of ?a]]
  note g1 = evolvesD(1) [OF q1(1) assms(1)]
  note q2 = query_evolves [OF queries(7) [OF goodD(2) [OF g1], of ?a]]
  note g2 = evolvesD(1) [OF q2(1) g1]
  note q3 = query_evolves [OF queries(3) [OF goodD(2) [OF g2], of ?a]]
  have ev3: "evolves ?C (x_s e) ?S3" "viewOf ?C ?S3 = viewOf ?C (x_s e)"
    using evolves_trans [OF q1(1) evolves_trans [OF q2(1) q3(1)]] q1(2) q2(2) q3(2) by simp_all
  have "\<exists>ext. callCode Z p gp orig e =
      e\<lparr>x_gas := cp_gas p, x_s := if fst (addressHasCode ?C ?a (x_s e)) then ?S3 else ?S1, x_ext := ext\<rparr>"
  proof (cases "fst (addressHasCode ?C ?a (x_s e))")
    case True
    then show ?thesis by (intro exI) (simp add: callCode_def Let_def)
  next
    case False
    then show ?thesis by (intro exI [of _ None]) (use assms(2) in \<open>simp add: callCode_def Let_def\<close>)
  qed
  then obtain ext where ext: "callCode Z p gp orig e =
      e\<lparr>x_gas := cp_gas p, x_s := if fst (addressHasCode ?C ?a (x_s e)) then ?S3 else ?S1, x_ext := ext\<rparr>" by blast
  show ?thesis by (rule exI, rule exI, rule conjI [OF ext]) (use q1(1,2) ev3 in simp)
qed

text \<open>Nothing shows, but that a precompiled contract was touched.\<close>

definition spared :: "chain \<Rightarrow> EnvInfo \<Rightarrow> CallParameters \<Rightarrow> State \<Rightarrow> State \<Rightarrow> bool" where
  "spared Z env p S T \<longleftrightarrow>
     viewOf (z_crypto Z) T = viewOf (z_crypto Z) S \<or>
     (isPrecompiled (z_params Z) (codeAddress p) (env_number env) \<and>
      viewOf (z_crypto Z) T = w_addBalance (z_crypto Z) (m_accountStartNonce S) (codeAddress p) 0 (viewOf (z_crypto Z) S))"

lemma spared_calm: "spared Z env p S T \<Longrightarrow> calm (z_crypto Z) S T"
  using calm_same calm_add0 by (auto simp: spared_def)

definition targeted :: "chain \<Rightarrow> EnvInfo \<Rightarrow> CallParameters \<Rightarrow> State \<Rightarrow> bool \<times> Executive \<Rightarrow> bool" where
  "targeted Z env p S = (\<lambda>(fin, x). since Z S x \<and> x_isCreation x = False \<and>
     (if fin then x_excepted x \<noteq> TE_None \<and> spared Z env p S (x_s x)
      else viewOf (z_crypto Z) (x_s x) = viewOf (z_crypto Z) S \<and> x_excepted x = TE_None))"

lemma callTarget_since:
  assumes "good (z_crypto Z) (x_s e)" "x_ext e = None" "x_excepted e = TE_None" "\<not> x_isCreation e"
    "x_savepoint e = savepoint (x_s e)"
  shows "outcome (callTarget Z p gp orig e) (\<lambda>_ _. False) (targeted Z (x_envInfo e) p (x_s e))"
proof (cases "isPrecompiled (z_params Z) (codeAddress p) (env_number (x_envInfo e))")
  case True
  obtain T where "addBalance (z_crypto Z) (codeAddress p) 0 (x_s e) = Inr T" "evolves (z_crypto Z) (x_s e) T"
    "viewOf (z_crypto Z) T = w_addBalance (z_crypto Z) (m_accountStartNonce (x_s e)) (codeAddress p) 0 (viewOf (z_crypto Z) (x_s e))"
    using good_addBalance [OF assms(1)] by metis
  with assms True show ?thesis
    by (auto simp: callTarget_def callPrecompiled_def Let_def act_def targeted_def since_def spared_def split: prod.splits)
next
  case False
  obtain T ext where "callCode Z p gp orig e = e\<lparr>x_gas := cp_gas p, x_s := T, x_ext := ext\<rparr>"
    "evolves (z_crypto Z) (x_s e) T" "viewOf (z_crypto Z) T = viewOf (z_crypto Z) (x_s e)"
    using callCode_since [OF assms(1,2), of p gp orig] by blast
  with False assms show ?thesis by (simp add: callTarget_def targeted_def since_def)
qed

definition called :: "chain \<Rightarrow> EnvInfo \<Rightarrow> CallParameters \<Rightarrow> State \<Rightarrow> bool \<times> Executive \<Rightarrow> bool" where
  "called Z env p S = (\<lambda>(fin, x). since Z S x \<and> \<not> x_isCreation x \<and>
     (quiet p \<longrightarrow> calm (z_crypto Z) S (x_s x)) \<and>
     (x_excepted x \<noteq> TE_None \<longrightarrow> spared Z env p S (x_s x)) \<and>
     (\<not> fin \<longrightarrow> x_excepted x = TE_None \<and> viewOf (z_crypto Z) (x_s x) (receiveAddress p) \<noteq> None))"

lemma x_call_paid:
  assumes g: "good (z_crypto Z) (x_s e)" and e: "x_ext e = None" "x_excepted e = TE_None" "\<not> x_isCreation e"
    and bal: "valueTransfer p \<le> w_balance (viewOf (z_crypto Z) (x_s e)) (senderAddress p)"
  shows "outcome (andThen (callTarget Z p gp orig (setSavepoint e)) (\<lambda>(ended, e).
     if ended then Inr (True, e)
     else andThen (act (transferBalance (z_crypto Z) (senderAddress p) (receiveAddress p) (valueTransfer p)) e)
            (\<lambda>e. Inr (x_ext e = None, e)))) (\<lambda>_ _. False) (called Z (x_envInfo e) p (x_s e))"
proof -
  let ?C = "z_crypto Z" and ?S = "x_s e"
  have t: "outcome (callTarget Z p gp orig (setSavepoint e)) (\<lambda>_ _. False) (targeted Z (x_envInfo e) p ?S)"
    using callTarget_since [of Z "setSavepoint e" p gp orig] g e by (simp add: setSavepoint_def)
  show ?thesis
  proof (rule outcome_bind [OF t])
    fix r assume r: "targeted Z (x_envInfo e) p ?S r"
    obtain fin x where rx: "r = (fin, x)" by (cases r)
    show "outcome (case r of (ended, e) \<Rightarrow>
        if ended then Inr (True, e)
        else andThen (act (transferBalance ?C (senderAddress p) (receiveAddress p) (valueTransfer p)) e)
            (\<lambda>e. Inr (x_ext e = None, e))) (\<lambda>_ _. False) (called Z (x_envInfo e) p ?S)"
    proof (cases fin)
      case True
      with r rx spared_calm show ?thesis by (auto simp: targeted_def called_def)
    next
      case False
      with r rx have x: "since Z ?S x" "\<not> x_isCreation x" "viewOf ?C (x_s x) = viewOf ?C ?S" "x_excepted x = TE_None"
        by (simp_all add: targeted_def)
      then have gx: "good ?C (x_s x)" and sn: "m_accountStartNonce (x_s x) = m_accountStartNonce ?S"
        using evolvesD g by (auto simp: since_def)
      have "valueTransfer p \<le> w_balance (viewOf ?C (x_s x)) (senderAddress p)" using bal x(3) by simp
      from good_transfer [OF gx this, of "receiveAddress p"] obtain T where
        T: "transferBalance ?C (senderAddress p) (receiveAddress p) (valueTransfer p) (x_s x) = Inr T"
        "evolves ?C (x_s x) T" "viewOf ?C T (receiveAddress p) \<noteq> None" "quiet p \<Longrightarrow> calm ?C (x_s x) T"
        unfolding quiet_def by metis
      have "quiet p \<Longrightarrow> calm ?C ?S T" using calm_trans [OF calm_same [OF x(3)] T(4) sn] .
      moreover have "since Z ?S (x\<lparr>x_s := T\<rparr>)" using x(1) T(2) evolves_trans by (auto simp: since_def)
      ultimately show ?thesis using False rx x T by (simp add: act_def called_def)
    qed
  qed
qed

lemma x_call_since:
  assumes "good (z_crypto Z) (x_s e)" "x_ext e = None" "x_excepted e = TE_None" "\<not> x_isCreation e" "\<not> tx_nonnull (x_t e)"
    and "valueTransfer p \<le> w_balance (viewOf (z_crypto Z) (x_s e)) (senderAddress p)"
  shows "outcome (x_call Z p gp orig e) (\<lambda>_ _. False) (called Z (x_envInfo e) p (x_s e))"
  using x_call_paid [OF assms(1-4,6)] assms(5) by (simp add: x_call_def)

lemma status_success [simp]: "transactionExceptionToEvmcStatusCode x = EVMC_SUCCESS \<longleftrightarrow> x = TE_None"
  by (cases x) simp_all

lemma legal_legal: "legal Z e \<Longrightarrow> good (z_crypto Z) (world e)"
  by (simp add: legal_def)

text \<open>What a call leaves, given an interpreter that keeps the relation.\<close>

lemma ext_call_world:
  assumes run: "lawful Z run" "hashesKnown Z (envInfo e)" and g: "good (z_crypto Z) (world e)"
    and bal: "valueTransfer p \<le> w_balance (viewOf (z_crypto Z) (world e)) (senderAddress p)"
  shows "outcome (ext_call Z run e p) (\<lambda>_ _. False) (\<lambda>(e', g', status, out).
      evolves (z_crypto Z) (world e) (world e') \<and>
      (status \<noteq> EVMC_SUCCESS \<longrightarrow> spared Z (envInfo e) p (world e) (world e')) \<and>
      (quiet p \<and> cp_staticCall p \<longrightarrow> calm (z_crypto Z) (world e) (world e')))"
proof -
  let ?x = "mkExecutive (world e) (envInfo e) (depth e + 1)"
  have o: "outcome (x_call Z p (gasPrice e) (origin e) ?x) (\<lambda>_ _. False) (called Z (envInfo e) p (world e))"
    using x_call_since [of Z ?x p] g bal by (simp add: nullTransaction_def tx_nonnull_def)
  then obtain fin x where x: "x_call Z p (gasPrice e) (origin e) ?x = Inr (fin, x)" "called Z (envInfo e) p (world e) (fin, x)"
    by (cases "x_call Z p (gasPrice e) (origin e) ?x") (auto simp: outcome_def)
  note c = x_call_context [of ?x Z p "gasPrice e" "origin e", unfolded x(1), simplified]
  show ?thesis
  proof (cases fin)
    case True
    with x show ?thesis by (auto simp: ext_call_def runExecutive_def called_def since_def)
  next
    case False
    then obtain ext where ext: "x_ext x = Some ext" "myAddress ext = receiveAddress p" "staticCall ext = cp_staticCall p"
      "hashesKnown Z (envInfo ext)"
      using c run(2) by (auto simp: set_up_def)
    have f: "since Z (world e) x" "\<not> x_isCreation x" "quiet p \<longrightarrow> calm (z_crypto Z) (world e) (x_s x)" "x_excepted x = TE_None"
      "viewOf (z_crypto Z) (x_s x) (receiveAddress p) \<noteq> None"
      using x(2) False by (simp_all add: called_def)
    note go = go_since [OF g f(1) ext(1) f(4) run(1) ext(4)]
    show ?thesis using go f x(1) False ext by (simp add: ext_call_def runExecutive_def Let_def since_def spared_def)
  qed
qed

subsection \<open>A creation\<close>

text \<open>The address of a new contract can always be computed.\<close>

lemma rlpSenderNonce_enc:
  "rlpSenderNonce a n = Inr (enc (Lst [Str (toBigEndian 20 (unat a)), intItem (unat n)]))"
proof -
  have "rlpSenderNonce a n = rlp_of (Lst [Str (toBigEndian 20 (unat a)), intItem (unat n)])"
    by (simp add: rlpSenderNonce_def rlp_of_def append_address_def append_u256_item andThen_assoc numeral_2_eq_2)
  moreover have u: "unat n < 2 ^ 256" by (rule order_less_le_trans [OF unsigned_less]) simp
  have "fits (Lst [Str (toBigEndian 20 (unat a)), intItem (unat n)])"
    using length_encStr [of "toBigEndian 20 (unat a)"] length_intItem [OF u] by simp
  ultimately show ?thesis by (simp add: rlp_of_enc)
qed

text \<open>The world once the sender of a creation has paid with its nonce.\<close>

definition paidView :: "chain \<Rightarrow> EnvInfo \<Rightarrow> address \<Rightarrow> State \<Rightarrow> view" where
  "paidView Z env a S =
     (if a = MaxAddress \<and> atFork (env_number env) (cp_experimentalForkBlock (z_params Z)) then viewOf (z_crypto Z) S
      else w_incNonce (z_crypto Z) (m_accountStartNonce S) a (viewOf (z_crypto Z) S))"

lemma payNonce_evolves:
  assumes "good (z_crypto Z) (x_s e)"
  obtains T where "payNonce Z a e = Inr (e\<lparr>x_s := T\<rparr>)" "evolves (z_crypto Z) (x_s e) T"
    "viewOf (z_crypto Z) T = paidView Z (x_envInfo e) a (x_s e)"
proof (cases "isMaxSender Z a e")
  case True
  then show thesis by (intro that [of "x_s e"]) (simp_all add: payNonce_def paidView_def isMaxSender_def forkReached_def)
next
  case False
  obtain T where T: "incNonce (z_crypto Z) a (x_s e) = Inr T" "evolves (z_crypto Z) (x_s e) T"
    "viewOf (z_crypto Z) T = w_incNonce (z_crypto Z) (m_accountStartNonce (x_s e)) a (viewOf (z_crypto Z) (x_s e))"
    by (rule good_incNonce [OF assms])
  with False show thesis by (intro that [of T]) (auto simp: payNonce_def act_def paidView_def isMaxSender_def forkReached_def)
qed

lemma addressTaken_since:
  assumes g: "good (z_crypto Z) (x_s e)"
  obtains b T where "addressTaken Z e = (b, e\<lparr>x_s := T\<rparr>)" "evolves (z_crypto Z) (x_s e) T"
    "viewOf (z_crypto Z) T = viewOf (z_crypto Z) (x_s e)"
    "\<not> b \<Longrightarrow> w_codeHash (z_crypto Z) (viewOf (z_crypto Z) (x_s e)) (x_newAddress e) = EmptySHA3 (z_crypto Z)"
proof -
  let ?C = "z_crypto Z" and ?a = "x_newAddress e"
  let ?S1 = "snd (addressHasCode ?C ?a (x_s e))"
  note q1 = query_evolves [OF queries(5) [OF goodD(2) [OF g], of ?a]]
  note g1 = evolvesD(1) [OF q1(1) g]
  note q2 = query_evolves [OF queries(2) [OF goodD(2) [OF g1], of ?a]]
  show thesis
  proof (cases "fst (addressHasCode ?C ?a (x_s e))")
    case True
    with q1 show thesis by (intro that [of True ?S1]) (simp_all add: addressTaken_def)
  next
    case False
    have "evolves ?C (x_s e) (snd (getNonce ?C ?a ?S1))" using evolves_trans [OF q1(1) q2(1)] .
    with False q1 q2 show thesis
      by (intro that [of "fst (getNonce ?C ?a ?S1) > 0" "snd (getNonce ?C ?a ?S1)"]) (simp_all add: addressTaken_def)
  qed
qed

lemma newContract_since:
  assumes g: "good (z_crypto Z) (x_s e)"
    and y: "viewOf (z_crypto Z) (x_s e) (x_newAddress e) = Some y" "v_root y = EmptyTrie (z_crypto Z)"
  shows "\<exists>T. newContract Z n e = e\<lparr>x_s := T\<rparr> \<and> evolves (z_crypto Z) (x_s e) T \<and> awaiting Z (x_newAddress e) T"
proof -
  let ?C = "z_crypto Z" and ?a = "x_newAddress e"
  let ?n = "if forkReached cp_EIP158ForkBlock Z e then n + 1 else n"
  let ?T = "setNonce ?C ?a ?n (x_s e)"
  note s = good_setNonce [OF g, of ?a ?n]
  have v: "viewOf ?C ?T ?a = Some (y\<lparr>v_nonce := ?n\<rparr>)" using s(2) y(1) by (simp add: w_setNonce_def w_update_def)
  have "clearStorage ?C ?a ?T = ?T"
    using setNonce_logged(1) evolvesD(1) [OF s(1) g] v y(2) by (intro good_clearStorage [where w = "y\<lparr>v_nonce := ?n\<rparr>"]) simp_all
  then have "newContract Z n e = e\<lparr>x_s := ?T\<rparr>" by (simp add: newContract_def onState_def Let_def)
  moreover have "awaiting Z ?a ?T" using v y(2) setNonce_logged(2) [of ?a ?C ?n "x_s e"] by (auto simp: awaiting_def)
  ultimately show ?thesis using s(1) by blast
qed

lemma prepareCreate_since:
  assumes g: "good (z_crypto Z) (x_s e)"
    and bal: "endowment \<le> w_balance (viewOf (z_crypto Z) (x_s e)) from"
    and free: "w_codeHash (z_crypto Z) (viewOf (z_crypto Z) (x_s e)) (x_newAddress e) = EmptySHA3 (z_crypto Z)"
  shows "\<exists>T ext. prepareCreate Z from endowment gp ini orig e = Inr (e\<lparr>x_s := T, x_ext := ext\<rparr>) \<and>
    evolves (z_crypto Z) (x_s e) T \<and> awaiting Z (x_newAddress e) T"
proof -
  let ?C = "z_crypto Z" and ?a = "x_newAddress e" and ?S = "x_s e"
  have "\<exists>T1. transferBalance ?C from ?a endowment ?S = Inr T1 \<and> evolves ?C ?S T1 \<and>
      (\<exists>y. viewOf ?C T1 ?a = Some y \<and> v_root y = EmptyTrie ?C)"
  proof (rule good_transfer [OF g bal, of ?a], goal_cases)
    case (1 T)
    have "\<exists>y. viewOf ?C T ?a = Some y \<and> v_root y = EmptyTrie ?C"
    proof (cases "viewOf ?C ?S ?a")
      case None
      then have "from \<noteq> ?a \<or> endowment = 0" using bal by (auto simp: w_balance_def)
      from 1(6) [OF None this] show ?thesis by (simp add: freshView_def)
    next
      case (Some x)
      then have "v_root x = EmptyTrie ?C" using free goodD(4) [OF g] by (simp add: w_codeHash_def plain_def)
      with 1(5) [OF Some] show ?thesis by metis
    qed
    with 1(1,2) show ?case by blast
  qed
  then obtain T1 y where T1: "transferBalance ?C from ?a endowment ?S = Inr T1" "evolves ?C ?S T1"
    and y: "viewOf ?C T1 ?a = Some y" "v_root y = EmptyTrie ?C" by blast
  let ?n = "m_accountStartNonce T1" and ?e = "e\<lparr>x_s := T1\<rparr>"
  have g1: "good ?C T1" using evolvesD(1) [OF T1(2) g] .
  have n: "requireAccountStartNonce T1 = Inr ?n" using goodD(5) [OF g1] by (simp add: requireAccountStartNonce_def)
  have "\<exists>T. newContract Z ?n ?e = ?e\<lparr>x_s := T\<rparr> \<and> evolves ?C (x_s ?e) T \<and> awaiting Z (x_newAddress ?e) T"
    by (rule newContract_since [where y = y]) (simp_all add: g1 y)
  then obtain T where T: "newContract Z ?n ?e = e\<lparr>x_s := T\<rparr>" "evolves ?C T1 T" "awaiting Z ?a T"
    by auto
  let ?ext = "if ini = [] then x_ext e else Some (createContext Z from endowment gp ini orig (e\<lparr>x_s := T\<rparr>))"
  show ?thesis
  proof (intro exI conjI)
    show "prepareCreate Z from endowment gp ini orig e = Inr (e\<lparr>x_s := T, x_ext := ?ext\<rparr>)"
      using T1(1) n T(1) by (simp add: prepareCreate_def act_def Let_def)
    show "evolves ?C ?S T" using T1(2) T(2) evolves_trans by blast
  qed (rule T(3))
qed

lemma paidView_cong:
  assumes "viewOf (z_crypto Z) T = viewOf (z_crypto Z) S" "m_accountStartNonce T = m_accountStartNonce S"
  shows "paidView Z env a T = paidView Z env a S"
  unfolding paidView_def assms ..

lemma paid_balance [simp]: "w_balance (paidView Z env a S) b = w_balance (viewOf (z_crypto Z) S) b"
  by (auto simp: paidView_def w_incNonce_def w_update_def w_balance_def freshView_def split: option.splits)

definition created :: "chain \<Rightarrow> State \<Rightarrow> bool \<times> Executive \<Rightarrow> bool" where
  "created Z S = (\<lambda>(fin, x). since Z S x \<and>
     (x_excepted x \<noteq> TE_None \<longrightarrow> viewOf (z_crypto Z) (x_s x) = viewOf (z_crypto Z) S) \<and>
     (\<not> fin \<longrightarrow> x_excepted x = TE_None \<and> awaiting Z (x_newAddress x) (x_s x)))"

lemma executeCreate_since:
  assumes g: "good (z_crypto Z) (x_s e)" and e: "x_ext e = None" "x_excepted e = TE_None"
    and bal: "endowment \<le> w_balance (viewOf (z_crypto Z) (x_s e)) from"
  obtains S r where "executeCreate Z from endowment gp gas ini orig e = Inr r"
    "evolves (z_crypto Z) (x_s e) S" "viewOf (z_crypto Z) S = paidView Z (x_envInfo e) from (x_s e)" "created Z S r"
proof -
  let ?C = "z_crypto Z"
  obtain S where S: "payNonce Z from e = Inr (e\<lparr>x_s := S\<rparr>)" "evolves ?C (x_s e) S"
    "viewOf ?C S = paidView Z (x_envInfo e) from (x_s e)"
    by (rule payNonce_evolves [OF g])
  have gS: "good ?C S" using evolvesD(1) [OF S(2) g] .
  let ?e = "(setSavepoint (e\<lparr>x_s := S\<rparr>))\<lparr>x_isCreation := True, x_gas := gas\<rparr>"
  have e': "x_s ?e = S" "x_savepoint ?e = savepoint S" "x_excepted ?e = TE_None" "x_newAddress ?e = x_newAddress e" "x_ext ?e = None"
    using e by (simp_all add: setSavepoint_def)
  obtain b T where T: "addressTaken Z ?e = (b, ?e\<lparr>x_s := T\<rparr>)" "evolves ?C S T" "viewOf ?C T = viewOf ?C S"
    "\<not> b \<Longrightarrow> w_codeHash ?C (viewOf ?C S) (x_newAddress e) = EmptySHA3 ?C"
    using addressTaken_since [of Z ?e, unfolded e'(1,4), OF gS] by blast
  have gT: "good ?C T" using evolvesD(1) [OF T(2) gS] .
  let ?e2 = "?e\<lparr>x_s := T\<rparr>"
  have s2: "since Z S ?e2" using T(2) e'(2) by (simp add: since_def)
  show thesis
  proof (cases b)
    case True
    have s3: "since Z S (?e2\<lparr>x_gas := 0, x_excepted := TE_AddressAlreadyUsed\<rparr>)" using s2 by (simp add: since_def)
    have "created Z S (True, addressUsed Z ?e2)"
      using since_revert [OF s3 gS] by (simp add: created_def addressUsed_def)
    with S T(1) True show thesis by (intro that [of "(True, addressUsed Z ?e2)" S]) (simp_all add: executeCreate_def Let_def)
  next
    case False
    have bT: "endowment \<le> w_balance (viewOf ?C (x_s ?e2)) from" using bal T(3) S(3) by simp
    have fT: "w_codeHash ?C (viewOf ?C (x_s ?e2)) (x_newAddress ?e2) = EmptySHA3 ?C" using T(3) T(4) [OF False] e'(4) by simp
    have gT2: "good ?C (x_s ?e2)" using gT by simp
    obtain U ext where U: "prepareCreate Z from endowment gp ini orig ?e2 = Inr (?e2\<lparr>x_s := U, x_ext := ext\<rparr>)"
      "evolves ?C (x_s ?e2) U" "awaiting Z (x_newAddress ?e2) U"
      using prepareCreate_since [OF gT2 bT fT, of gp ini orig] by blast
    let ?r = "(ext = None, ?e2\<lparr>x_s := U, x_ext := ext\<rparr>)"
    have "evolves ?C S U" using T(2) U(2) evolves_trans by auto
    then have "created Z S ?r" using U(3) e' by (simp add: created_def since_def)
    moreover have "executeCreate Z from endowment gp gas ini orig e = Inr ?r"
      using S(1) T(1) False U(1) by (simp add: executeCreate_def Let_def)
    ultimately show thesis by (intro that [of ?r S] S)
  qed
qed

lemma createOpcode_since:
  assumes g: "good (z_crypto Z) (x_s e)" and e: "x_ext e = None" "x_excepted e = TE_None"
    and bal: "v \<le> w_balance (viewOf (z_crypto Z) (x_s e)) from"
  obtains S r where "createOpcode Z from v gp gas ini orig e = Inr r"
    "evolves (z_crypto Z) (x_s e) S" "viewOf (z_crypto Z) S = paidView Z (x_envInfo e) from (x_s e)" "created Z S r"
proof -
  let ?C = "z_crypto Z"
  let ?S = "snd (getNonce ?C from (x_s e))" and ?n = "fst (getNonce ?C from (x_s e))"
  note q = query_evolves [OF queries(2) [OF goodD(2) [OF g], of "from"]]
  let ?a = "right160 (c_sha3 ?C (enc (Lst [Str (toBigEndian 20 (unat from)), intItem (unat ?n)])))"
  let ?x1 = "e\<lparr>x_s := ?S, x_newAddress := ?a\<rparr>"
  have c: "createOpcode Z from v gp gas ini orig e = executeCreate Z from v gp gas ini orig ?x1"
    by (simp add: createOpcode_def rlpSenderNonce_enc del: enc.simps)
  have x1: "x_s ?x1 = ?S" "x_ext ?x1 = None" "x_excepted ?x1 = TE_None" "x_envInfo ?x1 = x_envInfo e" using e by simp_all
  have g1: "good ?C (x_s ?x1)" using evolvesD(1) [OF q(1) g] by simp
  have b1: "v \<le> w_balance (viewOf ?C (x_s ?x1)) from" using bal q(2) by simp
  have p: "paidView Z (x_envInfo ?x1) from (x_s ?x1) = paidView Z (x_envInfo e) from (x_s e)"
    unfolding x1(1,4) by (rule paidView_cong [OF q(2) evolvesD(4) [OF q(1) g]])
  show thesis
  proof (rule executeCreate_since [OF g1 x1(2,3) b1])
    fix S r assume r: "executeCreate Z from v gp gas ini orig ?x1 = Inr r"
      "evolves ?C (x_s ?x1) S" "viewOf ?C S = paidView Z (x_envInfo ?x1) from (x_s ?x1)" "created Z S r"
    show thesis
      by (rule that [OF _ _ _ r(4)])
        (use c r(1) evolves_trans [OF q(1), of S] r(2) r(3) p in \<open>simp_all del: enc.simps\<close>)
  qed
qed

text \<open>The object that an opcode of the interpreter runs a creation on.\<close>

definition opcodeCreate ::
  "chain \<Rightarrow> State ext \<Rightarrow> u256 \<Rightarrow> u256 \<Rightarrow> bytes \<Rightarrow> system_op \<Rightarrow> u256 \<Rightarrow> (bool \<times> Executive) exec_result" where
  "opcodeCreate Z e v g c op s =
     (let ex = mkExecutive (world e) (envInfo e) (depth e + 1) in
      if op = CREATE then createOpcode Z (myAddress e) v (gasPrice e) g c (origin e) ex
      else create2Opcode Z (myAddress e) v (gasPrice e) g c (origin e) s ex)"

lemma opcodeCreate_since:
  assumes g: "good (z_crypto Z) (world e)"
    and bal: "v \<le> w_balance (viewOf (z_crypto Z) (world e)) (myAddress e)"
  obtains S r where "opcodeCreate Z e v g' c op s = Inr r"
    "evolves (z_crypto Z) (world e) S" "viewOf (z_crypto Z) S = paidView Z (envInfo e) (myAddress e) (world e)" "created Z S r"
proof -
  let ?C = "z_crypto Z" and ?x = "mkExecutive (world e) (envInfo e) (depth e + 1)"
  show thesis
  proof (cases "op = CREATE")
    case True
    have x: "x_s ?x = world e" "x_ext ?x = None" "x_excepted ?x = TE_None" "x_envInfo ?x = envInfo e" by simp_all
    have c: "opcodeCreate Z e v g' c op s = createOpcode Z (myAddress e) v (gasPrice e) g' c (origin e) ?x"
      using True by (simp add: opcodeCreate_def)
    show thesis
      using createOpcode_since [of Z ?x v "myAddress e", unfolded x, OF g refl refl bal] that unfolding c by blast
  next
    case False
    let ?x1 = "?x\<lparr>x_newAddress := create2Address Z (myAddress e) s c\<rparr>"
    have c: "opcodeCreate Z e v g' c op s = executeCreate Z (myAddress e) v (gasPrice e) g' c (origin e) ?x1"
      using False by (simp add: opcodeCreate_def create2Opcode_def)
    have x1: "x_s ?x1 = world e" "x_ext ?x1 = None" "x_excepted ?x1 = TE_None" "x_envInfo ?x1 = envInfo e" by simp_all
    show thesis
      using executeCreate_since [of Z ?x1 v "myAddress e", unfolded x1, OF g refl refl bal] that unfolding c by blast
  qed
qed

text \<open>What a creation leaves, given an interpreter that keeps the relation.\<close>

lemma ext_create_world:
  assumes run: "lawful Z run" "hashesKnown Z (envInfo e)" and g: "good (z_crypto Z) (world e)"
    and bal: "v \<le> w_balance (viewOf (z_crypto Z) (world e)) (myAddress e)"
  shows "outcome (ext_create Z run e v g' c op s) (\<lambda>_ _. False) (\<lambda>(e', g'', status, out, a).
      evolves (z_crypto Z) (world e) (world e') \<and>
      (status \<noteq> EVMC_SUCCESS \<longrightarrow>
        viewOf (z_crypto Z) (world e') = paidView Z (envInfo e) (myAddress e) (world e)))"
proof -
  let ?C = "z_crypto Z" and ?x = "mkExecutive (world e) (envInfo e) (depth e + 1)"
  obtain S fin x where S: "opcodeCreate Z e v g' c op s = Inr (fin, x)" "evolves ?C (world e) S"
    "viewOf ?C S = paidView Z (envInfo e) (myAddress e) (world e)" "created Z S (fin, x)"
    using opcodeCreate_since [OF g bal] by (metis surj_pair)
  have gS: "good ?C S" using evolvesD(1) [OF S(2) g] .
  have ctx: "opcodeContext ?x (fin, x)"
    using opcode_context(1) [of ?x Z "myAddress e" v "gasPrice e" g' c "origin e"]
      opcode_context(2) [of ?x Z "myAddress e" v "gasPrice e" g' c "origin e" s] S(1)
    by (cases "op = CREATE") (simp_all add: opcodeCreate_def Let_def)
  have cr: "ext_create Z run e v g' c op s =
      (let (ex, e') = runExecutive Z run (fin, x) e
       in Inr (e', x_gas ex, transactionExceptionToEvmcStatusCode (x_excepted ex), x_output ex, x_newAddress ex))"
    using S(1) by (simp add: ext_create_def opcodeCreate_def Let_def)
  show ?thesis
  proof (cases fin)
    case True
    then have "since Z S x" "x_excepted x \<noteq> TE_None \<longrightarrow> viewOf ?C (x_s x) = viewOf ?C S" using S(4) by (simp_all add: created_def)
    with True S(3) cr evolves_trans [OF S(2)] show ?thesis by (simp add: runExecutive_def since_def)
  next
    case False
    then obtain ext where ext: "x_ext x = Some ext" "myAddress ext = x_newAddress x" "x_isCreation x"
      "hashesKnown Z (envInfo ext)"
      using ctx run(2) by (auto simp: opcodeContext_def set_up_def)
    have f: "since Z S x" "x_excepted x = TE_None" "awaiting Z (myAddress ext) (x_s x)"
      using S(4) False ext(2) by (simp_all add: created_def)
    have ex: "viewOf ?C (x_s x) (myAddress ext) \<noteq> None" using f(3) by (auto simp: awaiting_def)
    note go = go_since [OF gS f(1) ext(1) f(2) run(1) ext(4) ex f(3)]
    show ?thesis using go(1,2) cr False S(3) evolves_trans [OF S(2)] by (simp add: runExecutive_def Let_def since_def)
  qed
qed

subsection \<open>The client keeps the relation\<close>

lemma ext_suicide_world:
  assumes g: "good (z_crypto Z) (world e)"
  shows "outcome (ext_suicide Z e a) (\<lambda>_ _. False) (\<lambda>e'. evolves (z_crypto Z) (world e) (world e'))"
proof -
  let ?C = "z_crypto Z" and ?a = "myAddress e"
  obtain bal S where q: "balanceOf ?C ?a (world e) = (bal, S)" by fastforce
  note q1 = query_evolves [OF queries(1) [OF goodD(2) [OF g], of ?a], unfolded q, simplified]
  have gS: "good ?C S" using evolvesD(1) [OF q1(1) g] .
  obtain T where T: "addBalance ?C a bal S = Inr T" "alters ?C S T"
    "viewOf ?C T = w_addBalance ?C (m_accountStartNonce S) a bal (viewOf ?C S)"
    using good_addBalance [OF gS] by metis
  have gT: "good ?C T" using altersD(1) [OF T(2) gS] .
  obtain U where U: "setBalance ?C ?a 0 T = Inr U" "evolves ?C T U"
    "viewOf ?C U = w_update ?C (m_accountStartNonce T) 0 (\<lambda>x. x\<lparr>v_balance := 0\<rparr>) ?a (viewOf ?C T)"
    by (rule good_setBalance [OF gT])
  have "total (viewOf ?C U) + unat (w_balance (viewOf ?C T) ?a) = total (viewOf ?C T)"
    using total_update [of "viewOf ?C T" ?a] by (simp add: U(3) w_update_def freshView_def split: option.split)
  moreover have "total (viewOf ?C T) \<le> total (viewOf ?C S) + unat (w_balance (viewOf ?C T) ?a)"
  proof (cases "a = ?a")
    case True
    let ?x = "case viewOf ?C S ?a of Some x \<Rightarrow> x\<lparr>v_balance := v_balance x + bal\<rparr> | None \<Rightarrow> freshView ?C (m_accountStartNonce S) bal"
    have v: "viewOf ?C T = (viewOf ?C S)(?a \<mapsto> ?x)" using T(3) True by (simp add: w_addBalance_def w_update_def)
    from total_update [of "viewOf ?C S" ?a ?x] show ?thesis unfolding v by (simp add: w_balance_def)
  next
    case False
    then have "w_balance (viewOf ?C T) ?a = bal"
      using T(3) q1(2,4) by (simp add: w_addBalance_def w_update_def w_balance_def)
    with total_addBalance [of ?C _ a bal "viewOf ?C S"] T(3) show ?thesis by simp
  qed
  ultimately have "total (viewOf ?C U) \<le> total (viewOf ?C S)" by simp
  then have "evolves ?C S U" using T(2) U(2) alters_trans by (auto simp: evolves_def unminted_def)
  with q T(1) U(1) evolves_trans [OF q1(1)] show ?thesis by (simp add: ext_suicide_def)
qed

lemma calm_static: "\<not> staticCall e \<Longrightarrow> same_context e e' \<Longrightarrow>
    (legal Z e \<Longrightarrow> hashesKnown Z (envInfo e) \<Longrightarrow> evolves (z_crypto Z) (world e) (world e')) \<Longrightarrow> world_rel Z e e'"
  by (simp add: world_rel_def)

lemma ext_balance_view: "good (z_crypto Z) (world e) \<Longrightarrow> ext_balance Z e a = w_balance (viewOf (z_crypto Z) (world e)) a"
  using query_evolves(4) [OF queries(1) [OF goodD(2)], of "z_crypto Z" "world e" a] by (simp add: ext_balance_def)

lemma call_world_rel:
  assumes run: "gas_ok run" "lawful Z run"
    and st: "staticCall e \<Longrightarrow> cp_staticCall p \<and> (valueTransfer p = 0 \<or> receiveAddress p = myAddress e)"
    and v: "valueTransfer p = 0 \<or> senderAddress p = myAddress e"
    and bal: "valueTransfer p \<le> ext_balance Z e (myAddress e)"
    and h: "h_call (clientHost Z run) e p = (e', g', ok, out)"
  shows "world_rel Z e e'"
  unfolding world_rel_def
proof (intro conjI impI)
  show "same_context e e'" using ext_vm.call_context [OF client_contract [OF run(1)] h] .
  assume l: "legal Z e \<and> hashesKnown Z (envInfo e)"
  then have g: "good (z_crypto Z) (world e)" and k: "hashesKnown Z (envInfo e)" by (simp_all add: legal_def)
  have b: "valueTransfer p \<le> w_balance (viewOf (z_crypto Z) (world e)) (senderAddress p)"
    using v bal ext_balance_view [OF g] by auto
  have "\<exists>status. ext_call Z run e p = Inr (e', g', status, out)"
    using ext_call_world [OF run(2) k g b] h by (auto simp: clientHost_def outcome_def split: sum.splits)
  then obtain status where x: "ext_call Z run e p = Inr (e', g', status, out)" by blast
  note w = ext_call_world [OF run(2) k g b, unfolded x, simplified]
  show "evolves (z_crypto Z) (world e) (world e')" using w by blast
  assume s: "staticCall e"
  with st v have "quiet p \<and> cp_staticCall p" by (auto simp: quiet_def)
  with w show "calm (z_crypto Z) (world e) (world e')" by blast
qed

lemma create_world_rel:
  assumes run: "gas_ok run" "lawful Z run" and st: "\<not> staticCall e"
    and bal: "v \<le> ext_balance Z e (myAddress e)"
    and h: "h_create (clientHost Z run) e v g c op s = (e', g', a, out)"
  shows "world_rel Z e e'"
proof (rule calm_static [OF st])
  show "same_context e e'" using ext_vm.create_context [OF client_contract [OF run(1)] h] .
  assume l: "legal Z e" and k: "hashesKnown Z (envInfo e)"
  then have g: "good (z_crypto Z) (world e)" by (simp add: legal_def)
  have b: "v \<le> w_balance (viewOf (z_crypto Z) (world e)) (myAddress e)" using bal ext_balance_view [OF g] by simp
  have "\<exists>status. ext_create Z run e v g c op s = Inr (e', g', status, out, a)"
    using ext_create_world [OF run(2) k g b, of g c op s] h by (auto simp: clientHost_def outcome_def split: sum.splits)
  then show "evolves (z_crypto Z) (world e) (world e')" using ext_create_world [OF run(2) k g b, of g c op s] by fastforce
qed

lemma client_world:
  assumes run: "gas_ok run" "lawful Z run"
  shows "ext_rel (clientHost Z run) (world_rel Z)"
proof -
  have hb: "h_balance (clientHost Z run) = ext_balance Z" by (simp add: clientHost_def)
  show ?thesis
  proof (intro ext_rel.intro ext_rel_axioms.intro client_contract [OF run(1)])
    fix e e1 e2 e3 e' :: "State ext" and k v :: u256 and a a' :: address and g g' :: u256 and c out bs op ts r ok and s :: u256 and p
    show "world_rel Z e e" by simp
    show "world_rel Z e1 e3" if "world_rel Z e1 e2" "world_rel Z e2 e3" using world_rel_trans [OF that] .
    show "world_rel Z e (h_setStore (clientHost Z run) e k v)" if "\<not> staticCall e"
    proof (rule calm_static [OF that])
      show "same_context e (h_setStore (clientHost Z run) e k v)" by (simp add: clientHost_def ext_setStore_def)
      show "evolves (z_crypto Z) (world e) (world (h_setStore (clientHost Z run) e k v))" if "legal Z e"
        using good_setStorage that by (simp add: clientHost_def ext_setStore_def legal_def)
    qed
    show "world_rel Z e (h_suicide (clientHost Z run) e a)" if "\<not> staticCall e"
    proof (rule calm_static [OF that])
      show "same_context e (h_suicide (clientHost Z run) e a)"
        by (auto simp: clientHost_def ext_suicide_def Let_def split: prod.splits sum.splits)
      show "evolves (z_crypto Z) (world e) (world (h_suicide (clientHost Z run) e a))" if "legal Z e"
        using ext_suicide_world [of Z e a] that by (auto simp: clientHost_def legal_def outcome_def split: sum.splits)
    qed
    show "world_rel Z e (ext_log ts bs e)" if "\<not> staticCall e"
      by (rule calm_static [OF that]) (simp_all add: ext_log_def same_context_def)
    show "world_rel Z e (addRefunds r e)" if "\<not> staticCall e"
      by (rule calm_static [OF that]) (simp_all add: addRefunds_def same_context_def)
    show "world_rel Z e e'" if "h_blockHash (clientHost Z run) e k = (h, e')" for h
      unfolding world_rel_def
    proof (intro conjI impI)
      show "same_context e e'" using ext_vm.blockHash_context [OF client_contract [OF run(1)] that] .
      assume "legal Z e \<and> hashesKnown Z (envInfo e)"
      then have "e' = e" using that ext_blockHash_known [of Z e run k] by (auto simp: clientHost_def)
      then show "evolves (z_crypto Z) (world e) (world e')" "calm (z_crypto Z) (world e) (world e')"
        by (simp_all add: evolves_same calm_same)
    qed
    show "world_rel Z e e'" if "\<not> staticCall e" "v \<le> h_balance (clientHost Z run) e (myAddress e)" "depth e < 1024"
      "op = CREATE \<or> op = CREATE2" "h_create (clientHost Z run) e v g c op s = (e', g', a', out)"
      using create_world_rel [OF run that(1) _ that(5)] that(2) by (simp add: hb)
    show "world_rel Z e e'"
      if "staticCall e \<Longrightarrow> cp_staticCall p \<and> (valueTransfer p = 0 \<or> receiveAddress p = myAddress e)"
        "valueTransfer p = 0 \<or> senderAddress p = myAddress e"
        "valueTransfer p \<le> h_balance (clientHost Z run) e (myAddress e)" "depth e < 1024"
        "h_call (clientHost Z run) e p = (e', g', ok, out)"
      using call_world_rel [OF run that(1,2) _ that(5)] that(3) by (simp add: hb)
  qed
qed

lemma extVM_lawful: "lawful Z (extVM Z n)"
proof (induction n)
  case 0
  then show ?case by (simp add: lawful_def)
next
  case (Suc n)
  show ?case
    unfolding lawful_def
  proof (intro allI impI)
    fix e g r g' e' assume r: "extVM Z (Suc n) e g = (r, g', e')"
    obtain s where "exec (clientHost Z (extVM Z n)) e g = Some s" using client.exec_returns [of Z n e g] by auto
    then have s: "exec (clientHost Z (extVM Z n)) e g = Some (r, g', e')" using r by simp
    show "world_rel Z e e'" by (rule ext_rel.exec_related(1) [OF client_world [OF extVM_gas_ok Suc] s])
  qed
qed

text \<open>The contract of \<open>ext_rel\<close>, discharged for the client at every depth.\<close>

interpretation clientw: ext_rel "clientHost Z (extVM Z n)" "world_rel Z" for Z n
  by (rule client_world [OF extVM_gas_ok extVM_lawful])

end
