(* ===== verification/Ext_VM_Props.thy ===== *)
theory Ext_VM_Props
  imports Ext_VM_World
begin

section \<open>What the world may rely on, whatever code it runs\<close>

text \<open>
  The properties of contract execution that the contracts of the interpreter give: no ether
  appears, a savepoint undoes a run, static calls write nothing, calls and creations do not
  throw and leave no trace when they fail. All of them are for blocks with \<open>hashesKnown\<close>, those
  before block 256 after the experimental fork: afterwards \<open>BLOCKHASH\<close> runs a transaction on the same
  state and empties its cache, which loses what was not committed, and none of them would hold.
\<close>

subsection \<open>A sample world\<close>

lemma sample_good: "good countCrypto sampleState"
proof -
  have "eff sampleState a = Some x \<Longrightarrow> x = loadedAccount (3, 100, 16, 2)" for a x
    by (auto simp: eff_def sampleState_def split: if_splits)
  then have "plain countCrypto sampleState"
    by (fastforce simp: plain_def viewOf_def accView_def loadedAccount_def countCrypto_def EmptySHA3_def)
  then show ?thesis
    using sample_opened opened_consistent [OF sample_opened]
    by (simp add: good_def opened_def sampleState_def Invalid256_def)
qed

lemma sample_view: "viewOf countCrypto sampleState = (viewOf countCrypto (sampleState\<lparr>m_state := Map.empty\<rparr>))(1 \<mapsto> the (viewOf countCrypto sampleState 1))"
  by (auto simp: viewOf_def eff_def sampleState_def fun_eq_iff)

lemma sample_total: "w_balance (viewOf countCrypto sampleState) 1 = 100" "total (viewOf countCrypto sampleState) = 100"
proof -
  show b: "w_balance (viewOf countCrypto sampleState) 1 = 100"
    by (simp add: w_balance_def viewOf_def eff_def sampleState_def accView_def loadedAccount_def)
  have 0: "viewOf countCrypto (sampleState\<lparr>m_state := Map.empty\<rparr>) = Map.empty"
    by (simp add: viewOf_def eff_def sampleState_def fun_eq_iff)
  have "v_balance (the (viewOf countCrypto sampleState 1)) = 100"
    by (simp add: viewOf_def eff_def sampleState_def accView_def loadedAccount_def)
  then show "total (viewOf countCrypto sampleState) = 100"
    using total_update [of Map.empty 1 "the (viewOf countCrypto sampleState 1)"]
    unfolding sample_view [unfolded 0, symmetric] by (simp add: total_def w_balance_def)
qed

lemma sample_hashes: "hashesKnown sampleChain (envInfo sampleContext)"
  using sample_known by (simp add: sampleContext_def)

lemma sample_legal: "legal sampleChain (sampleContext\<lparr>staticCall := s\<rparr>)" "legal sampleChain sampleContext"
  using sample_good by (simp_all add: legal_def sampleChain_def sampleContext_def viewOf_def eff_def sampleState_def)

subsection \<open>Ether\<close>

text \<open>C1: On a block whose hashes come from the chain (\<open>hashesKnown\<close>), running code never makes
  ether: however deep its calls and creations go, however they end,
  and whatever suicides and transfers there are among them, the balances of all accounts add up
  to no more after the run than before.\<close>

theorem no_ether_created:
  assumes "legal Z e" "hashesKnown Z (envInfo e)" "exec (clientHost Z (extVM Z n)) e g = Some (r, g', e')"
    and "total (viewOf (z_crypto Z) (world e)) < 2 ^ 256"
  shows "total (viewOf (z_crypto Z) (world e')) \<le> total (viewOf (z_crypto Z) (world e))"
  using clientw.exec_related(1) [OF assms(3)] assms(1,2,4)
  by (simp add: world_rel_def legal_def evolves_def unminted_def)

lemma no_ether_created_witness:
  "\<exists>r g' e'. exec (clientHost sampleChain (extVM sampleChain 3)) sampleContext 100 = Some (r, g', e') \<and>
     total (viewOf countCrypto (world e')) \<le> 100"
proof -
  have w: "z_crypto sampleChain = countCrypto" "world sampleContext = sampleState"
    by (simp_all add: sampleChain_def sampleContext_def)
  obtain r g' e' where x: "exec (clientHost sampleChain (extVM sampleChain 3)) sampleContext 100 = Some (r, g', e')"
    using client.exec_returns [of sampleChain 3 sampleContext 100] by auto
  from no_ether_created [OF sample_legal(2) sample_hashes x] show ?thesis using x by (simp add: w sample_total)
qed

subsection \<open>Undoing a run\<close>

text \<open>C32: On a block whose hashes come from the chain (\<open>hashesKnown\<close>), the savepoint taken before a run
  undoes it: however the run ended, rolling the state back to
  the point where it began shows what was there before, for every account.\<close>

theorem run_undone:
  assumes "legal Z e" "hashesKnown Z (envInfo e)" "exec (clientHost Z (extVM Z n)) e g = Some (r, g', e')"
  shows "viewOf (z_crypto Z) (rollback (z_crypto Z) (savepoint (world e)) (world e')) = viewOf (z_crypto Z) (world e)"
  using clientw.exec_related(1) [OF assms(3)] evolves_rollback(2) assms(1,2) by (auto simp: world_rel_def legal_def)

lemma run_undone_witness:
  "\<exists>r g' e'. exec (clientHost sampleChain (extVM sampleChain 3)) sampleContext 100 = Some (r, g', e') \<and>
     viewOf countCrypto (rollback countCrypto 0 (world e')) = viewOf countCrypto sampleState"
proof -
  have w: "z_crypto sampleChain = countCrypto" "world sampleContext = sampleState" "savepoint sampleState = 0"
    by (simp_all add: sampleChain_def sampleContext_def savepoint_def sampleState_def)
  obtain r g' e' where x: "exec (clientHost sampleChain (extVM sampleChain 3)) sampleContext 100 = Some (r, g', e')"
    using client.exec_returns [of sampleChain 3 sampleContext 100] by auto
  from run_undone [OF sample_legal(2) sample_hashes x] show ?thesis using x by (simp add: w)
qed

subsection \<open>Static calls\<close>

text \<open>C9: On a block whose hashes come from the chain (\<open>hashesKnown\<close>), a static call writes nothing:
  whatever its code does, at any depth of calls, the balance,
  nonce, code and storage of every account are afterwards what they were; at most an account that
  did not exist is there now with the start nonce and nothing else.\<close>

theorem static_call_calm:
  assumes "legal Z e" "hashesKnown Z (envInfo e)" "staticCall e" "exec (clientHost Z (extVM Z n)) e g = Some (r, g', e')"
  shows "viewOf (z_crypto Z) (world e') a = viewOf (z_crypto Z) (world e) a \<or>
    viewOf (z_crypto Z) (world e) a = None \<and>
    viewOf (z_crypto Z) (world e') a = Some (freshView (z_crypto Z) (m_accountStartNonce (world e)) 0)"
  using clientw.exec_related(1) [OF assms(4)] assms(1-3) by (auto simp: world_rel_def calm_def)

lemma static_call_calm_witness:
  "\<exists>r g' e'. exec (clientHost sampleChain (extVM sampleChain 3)) (sampleContext\<lparr>staticCall := True\<rparr>) 100 = Some (r, g', e') \<and>
     (viewOf countCrypto (world e') 1 = viewOf countCrypto sampleState 1)"
proof -
  have w: "z_crypto sampleChain = countCrypto" "world sampleContext = sampleState"
    by (simp_all add: sampleChain_def sampleContext_def)
  obtain r g' e' where x: "exec (clientHost sampleChain (extVM sampleChain 3)) (sampleContext\<lparr>staticCall := True\<rparr>) 100 = Some (r, g', e')"
    using client.exec_returns [of sampleChain 3 "sampleContext\<lparr>staticCall := True\<rparr>" 100] by auto
  have 1: "viewOf countCrypto sampleState 1 \<noteq> None" by (simp add: viewOf_def eff_def sampleState_def)
  have "viewOf countCrypto (world e') 1 = viewOf countCrypto sampleState 1"
    using static_call_calm [OF sample_legal(1) _ _ x, of 1] sample_hashes 1 by (auto simp: w)
  with x show ?thesis by blast
qed

subsection \<open>Calls and creations that fail\<close>

text \<open>C8: On a block whose hashes come from the chain (\<open>hashesKnown\<close>), a call whose value its sender has
  never throws, and a call that fails leaves no trace: all
  that can show afterwards is that the account of a precompiled contract was touched which could
  not pay for itself.\<close>

theorem failed_call_leaves_nothing:
  assumes "legal Z e" "hashesKnown Z (envInfo e)" "valueTransfer p \<le> w_balance (viewOf (z_crypto Z) (world e)) (senderAddress p)"
  shows "\<exists>e' g status out. ext_call Z (extVM Z n) e p = Inr (e', g, status, out) \<and>
    (status \<noteq> EVMC_SUCCESS \<longrightarrow>
      viewOf (z_crypto Z) (world e') = viewOf (z_crypto Z) (world e) \<or>
      (isPrecompiled (z_params Z) (codeAddress p) (env_number (envInfo e)) \<and>
       viewOf (z_crypto Z) (world e') =
         w_addBalance (z_crypto Z) (m_accountStartNonce (world e)) (codeAddress p) 0 (viewOf (z_crypto Z) (world e))))"
  using ext_call_world [OF extVM_lawful assms(2) _ assms(3), of n] assms(1)
  by (auto simp: outcome_def spared_def legal_def split: sum.splits)

definition sampleCall :: CallParameters where
  "sampleCall = \<lparr>senderAddress = 1, codeAddress = 7, receiveAddress = 7, valueTransfer = 5, apparentValue = 5,
     cp_gas = 1000, cp_data = [], cp_staticCall = False\<rparr>"

lemma failed_call_leaves_nothing_witness:
  "\<exists>e' g status out. ext_call sampleChain (extVM sampleChain 3) sampleContext sampleCall = Inr (e', g, status, out) \<and>
     (status \<noteq> EVMC_SUCCESS \<longrightarrow> viewOf countCrypto (world e') = viewOf countCrypto sampleState)"
proof -
  have w: "z_crypto sampleChain = countCrypto" "world sampleContext = sampleState"
    by (simp_all add: sampleChain_def sampleContext_def)
  have v: "valueTransfer sampleCall \<le> w_balance (viewOf (z_crypto sampleChain) (world sampleContext)) (senderAddress sampleCall)"
    by (simp add: sampleCall_def w sample_total)
  have p: "\<not> isPrecompiled (z_params sampleChain) (codeAddress sampleCall) (env_number (envInfo sampleContext))"
    by (simp add: sampleChain_def sampleCall_def isPrecompiled_def defaultChainParams_def)
  show ?thesis using failed_call_leaves_nothing [OF sample_legal(2) sample_hashes v, of 3] p by (simp add: w)
qed

text \<open>C31: On a block whose hashes come from the chain (\<open>hashesKnown\<close>), a creation whose endowment the
  creator has never throws, and one that fails leaves no trace
  but the nonce its creator paid -- except that the system's own address pays none on an
  experimental block.\<close>

theorem failed_create_leaves_nonce:
  assumes "legal Z e" "hashesKnown Z (envInfo e)" "v \<le> w_balance (viewOf (z_crypto Z) (world e)) (myAddress e)"
  shows "\<exists>e' g' status out a. ext_create Z (extVM Z n) e v g code op salt = Inr (e', g', status, out, a) \<and>
    (status \<noteq> EVMC_SUCCESS \<longrightarrow> viewOf (z_crypto Z) (world e') =
       (if myAddress e = MaxAddress \<and> atFork (env_number (envInfo e)) (cp_experimentalForkBlock (z_params Z))
        then viewOf (z_crypto Z) (world e)
        else w_incNonce (z_crypto Z) (m_accountStartNonce (world e)) (myAddress e) (viewOf (z_crypto Z) (world e))))"
  using ext_create_world [OF extVM_lawful assms(2) _ assms(3), of n g code op salt] assms(1)
  by (auto simp: outcome_def paidView_def legal_def split: sum.splits)

lemma failed_create_leaves_nonce_witness:
  "\<exists>e' g' status out a. ext_create sampleChain (extVM sampleChain 3) sampleContext 5 1000 [0xfe] CREATE 0 = Inr (e', g', status, out, a) \<and>
     (status \<noteq> EVMC_SUCCESS \<longrightarrow>
        viewOf countCrypto (world e') = w_incNonce countCrypto 0 1 (viewOf countCrypto sampleState))"
proof -
  have w: "z_crypto sampleChain = countCrypto" "world sampleContext = sampleState" "myAddress sampleContext = 1"
    "m_accountStartNonce sampleState = 0" "(1 :: address) \<noteq> MaxAddress"
    by (simp_all add: sampleChain_def sampleContext_def sampleState_def MaxAddress_def)
  have v: "5 \<le> w_balance (viewOf (z_crypto sampleChain) (world sampleContext)) (myAddress sampleContext)"
    by (simp add: w sample_total)
  show ?thesis using failed_create_leaves_nonce [OF sample_legal(2) sample_hashes v, of 3 1000 "[0xfe]" CREATE 0] by (simp add: w)
qed

end
