(* ===== verification/Ext_VM_Start.thy ===== *)
theory Ext_VM_Start
  imports Ext_VM_Gas
begin

section \<open>What no run touches: the start nonce\<close>

text \<open>
  The nonce that new accounts start with is set when a state is opened, and nothing that happens
  while transactions run changes it -- on any block, with \<open>BLOCKHASH\<close> and its transactions
  included. An operation that makes an account throws only where the start nonce is not known; so
  settling a transaction does not throw, whatever its code did.
\<close>

subsection \<open>Operations on the state\<close>

definition asksStart :: "(State \<Rightarrow> 'a \<times> State) \<Rightarrow> bool" where
  "asksStart q \<longleftrightarrow> (\<forall>S. m_accountStartNonce (snd (q S)) = m_accountStartNonce S)"

definition actsStart :: "(State \<Rightarrow> State st_result) \<Rightarrow> bool" where
  "actsStart f \<longleftrightarrow> (\<forall>S. outcome (f S) (\<lambda>_ T. m_accountStartNonce T = m_accountStartNonce S)
     (\<lambda>T. m_accountStartNonce T = m_accountStartNonce S))"

lemma actsD:
  "actsStart f \<Longrightarrow> m_accountStartNonce S = n \<Longrightarrow>
   outcome (f S) (\<lambda>_ T. m_accountStartNonce T = n) (\<lambda>T. m_accountStartNonce T = n)"
  by (auto simp: actsStart_def)

lemma start_updates [simp]:
  "m_accountStartNonce (putAccount a x S) = m_accountStartNonce S" "m_accountStartNonce (logChange c S) = m_accountStartNonce S"
  "m_accountStartNonce (createAccount a x S) = m_accountStartNonce S" "m_accountStartNonce (undo C c S) = m_accountStartNonce S"
  by (simp_all add: putAccount_def logChange_def createAccount_def undo_def Let_def split: change.split)

lemma start_clear [simp]: "m_accountStartNonce (clearCacheIfTooLarge C S) = m_accountStartNonce S"
proof (induction C S rule: clearCacheIfTooLarge.induct)
  case (1 C S)
  then show ?case by (subst clearCacheIfTooLarge.simps) (simp add: Let_def)
qed

lemma start_account: "account C a S = (r, T) \<Longrightarrow> m_accountStartNonce T = m_accountStartNonce S"
  by (auto simp: account_def Let_def split: option.splits if_splits)

lemma start_require [simp]: "requireAccountStartNonce S = Inl (x, T) \<Longrightarrow> T = S"
  by (simp add: requireAccountStartNonce_def split: if_splits)

lemma asks_start:
  "asksStart (account C a)" "asksStart (balanceOf C a)" "asksStart (getNonce C a)" "asksStart (codeHashOf C a)" "asksStart (addressHasCode C a)"
  "asksStart (addressInUse C a)" "asksStart (codeOf C a)" "asksStart (storageAt C a k)"
  by (auto simp: asksStart_def start_account [OF prod.collapse [symmetric]] balanceOf_def getNonce_def codeHashOf_def addressHasCode_def addressInUse_def codeOf_def storageAt_def
      Let_def dest!: start_account split: prod.split option.split)

lemma asks_startD: "asksStart q \<Longrightarrow> q S = (v, T) \<Longrightarrow> m_accountStartNonce T = m_accountStartNonce S"
  unfolding asksStart_def by (metis snd_conv)

lemma asks_start_simps [simp]:
  "m_accountStartNonce (snd (balanceOf C a S)) = m_accountStartNonce S" "m_accountStartNonce (snd (getNonce C a S)) = m_accountStartNonce S"
  "m_accountStartNonce (snd (codeHashOf C a S)) = m_accountStartNonce S" "m_accountStartNonce (snd (addressHasCode C a S)) = m_accountStartNonce S"
  "m_accountStartNonce (snd (codeOf C a S)) = m_accountStartNonce S"
  using asks_start by (simp_all add: asksStart_def)

lemma acts_addBalance: "actsStart (addBalance C a v)"
  by (auto simp: actsStart_def addBalance_def requireAccountStartNonce_def Let_def dest!: start_account split: prod.split option.split)

lemma acts_subBalance: "actsStart (subBalance C a v)"
  unfolding actsStart_def subBalance_def Let_def
  by (auto intro!: actsD [OF acts_addBalance] dest!: start_account split: prod.split option.split)

lemma acts_setBalance: "actsStart (setBalance C a v)"
  unfolding actsStart_def setBalance_def Let_def
  by (auto intro!: actsD [OF acts_addBalance] dest!: start_account split: prod.split)

lemma acts_bind: "actsStart f \<Longrightarrow> actsStart g \<Longrightarrow> actsStart (\<lambda>S. andThen (f S) g)"
  by (subst actsStart_def, intro allI, rule outcome_bind, rule actsD) (simp_all add: actsD)

lemma acts_transferBalance: "actsStart (transferBalance C a b v)"
  unfolding transferBalance_def using acts_bind [OF acts_subBalance acts_addBalance] .

lemma acts_incNonce: "actsStart (incNonce C a)"
  by (auto simp: actsStart_def incNonce_def requireAccountStartNonce_def Let_def dest!: start_account split: prod.split option.split)

lemma start_keeps [simp]:
  "m_accountStartNonce (setNonce C a n S) = m_accountStartNonce S" "m_accountStartNonce (setStorage C a k v S) = m_accountStartNonce S"
  "m_accountStartNonce (clearStorage C a S) = m_accountStartNonce S" "m_accountStartNonce (setCode C a c S) = m_accountStartNonce S"
  "m_accountStartNonce (killAccount C a S) = m_accountStartNonce S"
  using asks_startD [OF asks_start(8) [of C a k]] asks_startD [OF asks_start(7) [of C a]]
  by (auto simp: setNonce_def setStorage_def clearStorage_def setCode_def killAccount_def Let_def
      dest!: start_account split: prod.split option.split)

lemma start_kills [simp]: "m_accountStartNonce (fold (killAccount C) as S) = m_accountStartNonce S"
  by (induction as arbitrary: S) simp_all

lemma start_rollback [simp]: "m_accountStartNonce (rollback C n S) = m_accountStartNonce S"
proof (induction C n S rule: rollback.induct)
  case (1 C n S)
  then show ?case by (subst rollback.simps) simp
qed

lemma start_commit [simp]: "m_accountStartNonce (commit C order b S) = m_accountStartNonce S"
proof -
  have "m_accountStartNonce (commitOne C a S) = m_accountStartNonce S" for a S
    by (simp add: commitOne_def Let_def split: option.split)
  then have "m_accountStartNonce (fold (commitOne C) as S) = m_accountStartNonce S" for as S
    by (induction as arbitrary: S) simp_all
  then show ?thesis by (simp add: commit_def commitCache_def removeEmptyAccounts_def Let_def)
qed

lemma start_settle [simp]: "m_accountStartNonce (settle Z env p S) = m_accountStartNonce S"
  by (simp add: settle_def Let_def split: Permanence.split)

subsection \<open>The executive\<close>

abbreviation starts :: "u256 \<Rightarrow> Executive \<Rightarrow> bool" where
  "starts n e \<equiv> m_accountStartNonce (x_s e) = n"

abbreviation startsOn :: "u256 \<Rightarrow> (bool \<times> Executive) exec_result \<Rightarrow> bool" where
  "startsOn n r \<equiv> outcome r (\<lambda>_. starts n) (\<lambda>(_, e). starts n e)"

lemma starts_act: "actsStart f \<Longrightarrow> starts n e \<Longrightarrow> outcome (act f e) (\<lambda>_. starts n) (starts n)"
  using actsD [of f "x_s e" n] by (auto simp: act_def split: sum.split)

lemma starts_simps [simp]:
  "m_accountStartNonce (x_s (revert Z e)) = m_accountStartNonce (x_s e)"
  "m_accountStartNonce (x_s (setSavepoint e)) = m_accountStartNonce (x_s e)"
  "m_accountStartNonce (x_s (addressUsed Z e)) = m_accountStartNonce (x_s e)"
  "m_accountStartNonce (x_s (newContract Z k e)) = m_accountStartNonce (x_s e)"
  "m_accountStartNonce (x_s (handleException Z x e)) = m_accountStartNonce (x_s e)"
  by (simp_all add: revert_def setSavepoint_def addressUsed_def newContract_def onState_def Let_def handleException_def
      split: vm_exception.split)

lemma starts_payNonce: "starts n e \<Longrightarrow> outcome (payNonce Z a e) (\<lambda>_. starts n) (starts n)"
  by (simp add: payNonce_def starts_act acts_incNonce)

lemma starts_callTarget: "starts n e \<Longrightarrow> startsOn n (callTarget Z p gp orig e)"
proof -
  assume e: "starts n e"
  have "startsOn n (callPrecompiled Z p e)"
    unfolding callPrecompiled_def Let_def
    using e by (auto intro!: outcome_bind [OF starts_act [OF acts_addBalance]] split: prod.split)
  moreover have "starts n (callCode Z p gp orig e)"
    using e by (auto simp: callCode_def Let_def
        split: prod.split)
  ultimately show ?thesis by (simp add: callTarget_def)
qed

lemma starts_x_call: "starts n e \<Longrightarrow> startsOn n (x_call Z p gp orig e)"
  unfolding x_call_def
  by (rule outcome_bind [where R = "starts n"], simp add: starts_payNonce, rule outcome_bind [OF starts_callTarget])
    (auto intro!: outcome_bind [OF starts_act [OF acts_transferBalance]])

lemma starts_executeCreate: "starts n e \<Longrightarrow> startsOn n (executeCreate Z from v gp g ini orig e)"
proof -
  assume e: "starts n e"
  have taken: "m_accountStartNonce (x_s e') = m_accountStartNonce (x_s e)" if "addressTaken Z e = (b, e')" for e e' b
    using that by (auto simp: addressTaken_def
        split: prod.splits if_splits)
  have prep: "outcome (prepareCreate Z from v gp ini orig e) (\<lambda>_. starts n) (starts n)" if "starts n e" for e
    unfolding prepareCreate_def
    by (rule outcome_bind [OF starts_act [OF acts_transferBalance that]]) (auto simp: Let_def split: sum.split)
  have rest: "startsOn n (andThen (prepareCreate Z from v gp ini orig e) (\<lambda>e. Inr (x_ext e = None, e)))" if "starts n e" for e
    by (rule outcome_bind [OF prep [OF that]]) simp
  show ?thesis
    unfolding executeCreate_def Let_def
  proof (rule outcome_bind [OF starts_payNonce [OF e]])
    fix e1 assume e1: "starts n e1"
    obtain b e2 where t: "addressTaken Z ((setSavepoint e1)\<lparr>x_isCreation := True, x_gas := g\<rparr>) = (b, e2)" by fastforce
    from taken [OF t] e1 have "starts n e2" by simp
    with rest t show "startsOn n (case addressTaken Z ((setSavepoint e1)\<lparr>x_isCreation := True, x_gas := g\<rparr>) of
        (taken, e) \<Rightarrow> if taken then Inr (True, addressUsed Z e)
          else andThen (prepareCreate Z from v gp ini orig e) (\<lambda>e. Inr (x_ext e = None, e)))" by simp
  qed
qed

lemma starts_create: "starts n e \<Longrightarrow> startsOn n (createOpcode Z from v gp g ini orig e)"
  "starts n e \<Longrightarrow> startsOn n (create2Opcode Z from v gp g ini orig s e)"
  unfolding createOpcode_def create2Opcode_def Let_def
  by (auto simp: starts_executeCreate split: prod.split sum.split)

lemma starts_initialize: "starts n e \<Longrightarrow> outcome (initialize Z t e) (\<lambda>_. starts n) (starts n)"
  by (auto simp: initialize_def senderOf_def Let_def
      split: sum.split prod.split)

lemma starts_execute: "starts n e \<Longrightarrow> startsOn n (execute Z e)"
proof -
  assume e: "starts n e"
  show ?thesis
    unfolding execute_def Let_def x_create_def
    by (rule outcome_bind [where R = "\<lambda>_. True"], simp add: senderOf_def e split: sum.split,
        rule outcome_bind [OF starts_act [OF acts_subBalance e]]) (simp add: starts_x_call starts_create)
qed

text \<open>An interpreter that keeps the start nonce, and what it makes of the executive.\<close>

definition start_ok :: "vm_run \<Rightarrow> bool" where
  "start_ok run \<longleftrightarrow>
     (\<forall>e g r g' e'. run e g = (r, g', e') \<longrightarrow> m_accountStartNonce (world e') = m_accountStartNonce (world e))"

lemma starts_go: "start_ok run \<Longrightarrow> m_accountStartNonce (x_s (go Z run e)) = m_accountStartNonce (x_s e)"
proof -
  assume run: "start_ok run"
  have d: "depositCode Z ext out e = Inl (x, e') \<Longrightarrow> m_accountStartNonce (x_s e') = m_accountStartNonce (x_s e)"
    "depositCode Z ext out e = Inr e' \<Longrightarrow> m_accountStartNonce (x_s e') = m_accountStartNonce (x_s e)" for ext out e e' x
    by (auto simp: depositCode_def updateResult_def onState_def Let_def split: if_splits)
  have r: "m_accountStartNonce (world e') = m_accountStartNonce (world e)" if "run e g = (r, g', e')" for e g r g' e'
    using run that by (auto simp: start_ok_def)
  show ?thesis
    by (auto simp: go_def updateResult_def Let_def dest!: r d split: option.split prod.split sum.split)
qed

lemma finalize_returns:
  assumes "m_accountStartNonce (x_s e) \<noteq> Invalid256" "senderOf Z e = Inr a"
  shows "\<exists>b e'. finalize Z e = Inr (b, e')"
proof -
  have adds: "\<exists>T. addBalance (z_crypto Z) x v S = Inr T \<and> m_accountStartNonce T = m_accountStartNonce S"
    if "m_accountStartNonce S \<noteq> Invalid256" for x v S
  proof -
    obtain r T where a: "account (z_crypto Z) x S = (r, T)" by fastforce
    with start_account that have "m_accountStartNonce T \<noteq> Invalid256" by metis
    with a have "\<exists>T. addBalance (z_crypto Z) x v S = Inr T"
      by (cases r) (simp_all add: addBalance_def requireAccountStartNonce_def Let_def)
    with actsD [OF acts_addBalance refl, of "z_crypto Z" x v S] show ?thesis by auto
  qed
  let ?e = "applyRefund Z e"
  have e: "x_s ?e = x_s e" "x_t ?e = x_t e" by (simp_all add: applyRefund_def Let_def split: option.split)
  have s: "senderOf Z ?e = Inr a" using assms(2) e(2) by (simp add: senderOf_def split: sum.splits)
  obtain T where T: "addBalance (z_crypto Z) a (x_gas ?e * t_gasPrice (x_t e)) (x_s e) = Inr T" "m_accountStartNonce T = m_accountStartNonce (x_s e)"
    using adds assms(1) by blast
  obtain U where "addBalance (z_crypto Z) (env_author (x_envInfo ?e)) ((t_gas (x_t e) - x_gas ?e) * t_gasPrice (x_t e)) T = Inr U"
    using adds assms(1) T(2) by metis
  with T e s have "\<exists>e'. payFees Z ?e = Inr e'" by (simp add: payFees_def act_def)
  then obtain e' where "payFees Z ?e = Inr e'" by blast
  then show ?thesis unfolding finalize_def Let_def by simp
qed

lemma transaction_start:
  assumes "start_ok run"
  shows "startsOn (m_accountStartNonce (x_s e)) (executeTransaction Z run t e)"
proof -
  let ?n = "m_accountStartNonce (x_s e)"
  have fin: "startsOn ?n (finalize Z e')" if e': "starts ?n e'" for e'
  proof -
    have a: "starts ?n (applyRefund Z e')" using e' by (simp add: applyRefund_def Let_def split: option.split)
    have "outcome (payFees Z (applyRefund Z e')) (\<lambda>_. starts ?n) (starts ?n)"
      unfolding payFees_def using a
      by (auto simp: senderOf_def intro!: outcome_bind [OF starts_act [OF acts_addBalance]] starts_act acts_addBalance split: sum.split)
    then show ?thesis
      unfolding finalize_def by (rule outcome_bind) (auto simp: updateResult_def onState_def Let_def split: option.split)
  qed
  have "startsOn ?n (andThen (initialize Z t e) (\<lambda>e. andThen (execute Z e) (\<lambda>(fin, e). finalize Z (if fin then e else go Z run e))))"
    by (rule outcome_bind [OF starts_initialize [OF refl]], rule outcome_bind [OF starts_execute])
      (auto intro!: fin simp: starts_go [OF assms])
  then show ?thesis
    by (auto simp: executeTransaction_def onState_def outcome_def Let_def split: sum.splits)
qed

subsection \<open>The client\<close>

lemma stateExecute_start:
  assumes "start_ok run"
  shows "outcome (stateExecute Z run env t p S) (\<lambda>_ T. m_accountStartNonce T = m_accountStartNonce S)
    (\<lambda>(_, T). m_accountStartNonce T = m_accountStartNonce S)"
  using transaction_start [OF assms, where e = "(mkExecutive S env 0)\<lparr>x_res := Some emptyResult\<rparr>" and Z = Z and t = t]
  by (auto simp: stateExecute_def outcome_def mkExecutive_def Let_def split: sum.splits)

lemma blockHash_start:
  assumes "start_ok run"
  shows "outcome (ext_blockHash Z run e n) (\<lambda>_ e'. m_accountStartNonce (world e') = m_accountStartNonce (world e))
    (\<lambda>(_, e'). m_accountStartNonce (world e') = m_accountStartNonce (world e))"
  using stateExecute_start [OF assms, of Z "envInfo e" "blockhashTransaction e n (fst (getNonce (z_crypto Z) (caller e) (world e)))"
      Reverted "snd (getNonce (z_crypto Z) (caller e) (world e))"]
  by (auto simp: ext_blockHash_def outcome_def Let_def case_prod_beta split: sum.splits)

lemma runExecutive_start:
  "start_ok run \<Longrightarrow> runExecutive Z run (fin, x) e = (x', e') \<Longrightarrow> m_accountStartNonce (world e') = m_accountStartNonce (x_s x)"
  by (auto simp: runExecutive_def starts_go Let_def split: if_splits)

lemma call_start:
  assumes "start_ok run"
  shows "outcome (ext_call Z run e p) (\<lambda>_ e'. m_accountStartNonce (world e') = m_accountStartNonce (world e))
    (\<lambda>(e', _). m_accountStartNonce (world e') = m_accountStartNonce (world e))"
  using starts_x_call [of "mkExecutive (world e) (envInfo e) (depth e + 1)" "m_accountStartNonce (world e)" Z p "gasPrice e" "origin e"]
  by (auto simp: ext_call_def mkExecutive_def Let_def dest!: runExecutive_start [OF assms] split: sum.splits prod.split)

lemma create_start:
  assumes "start_ok run"
  shows "outcome (ext_create Z run e v g c op s) (\<lambda>_ e'. m_accountStartNonce (world e') = m_accountStartNonce (world e))
    (\<lambda>(e', _). m_accountStartNonce (world e') = m_accountStartNonce (world e))"
proof -
  let ?x = "mkExecutive (world e) (envInfo e) (depth e + 1)" and ?n = "m_accountStartNonce (world e)"
  let ?r = "if op = CREATE then createOpcode Z (myAddress e) v (gasPrice e) g c (origin e) ?x
            else create2Opcode Z (myAddress e) v (gasPrice e) g c (origin e) s ?x"
  have "startsOn ?n ?r" using starts_create [of ?x ?n] by (simp add: mkExecutive_def)
  then show ?thesis
    unfolding ext_create_def Let_def
    by (cases ?r) (auto dest!: runExecutive_start [OF assms] split: prod.split)
qed

definition start_rel :: "State ext \<Rightarrow> State ext \<Rightarrow> bool" where
  "start_rel e e' \<longleftrightarrow> m_accountStartNonce (world e') = m_accountStartNonce (world e)"

lemma suicide_start: "start_rel e (h_suicide (clientHost Z run) e a)"
proof -
  have "outcome (andThen (addBalance (z_crypto Z) a v S) (setBalance (z_crypto Z) b 0)) (\<lambda>_ T. m_accountStartNonce T = m_accountStartNonce S)
      (\<lambda>T. m_accountStartNonce T = m_accountStartNonce S)" for v b S
    by (rule actsD [OF acts_bind [OF acts_addBalance acts_setBalance] refl])
  from this [of "fst (balanceOf (z_crypto Z) (myAddress e) (world e))" "snd (balanceOf (z_crypto Z) (myAddress e) (world e))" "myAddress e"]
  show ?thesis
    by (auto simp: start_rel_def clientHost_def ext_suicide_def Let_def case_prod_beta outcome_def split: sum.splits)
qed

lemma client_start:
  assumes "gas_ok run" "start_ok run"
  shows "ext_rel (clientHost Z run) start_rel"
proof (intro ext_rel.intro ext_rel_axioms.intro client_contract [OF assms(1)])
  fix e e1 e2 e3 e' :: "State ext" and k v :: u256 and a a' :: address and g g' :: u256 and c out bs op ts r ok and s h :: u256 and p
  show "start_rel e e" "start_rel e (ext_log ts bs e)" "start_rel e (addRefunds r e)"
    by (simp_all add: start_rel_def ext_log_def addRefunds_def)
  show "start_rel e1 e3" if "start_rel e1 e2" "start_rel e2 e3" using that by (simp add: start_rel_def)
  show "start_rel e (h_setStore (clientHost Z run) e k v)" by (simp add: start_rel_def clientHost_def ext_setStore_def)
  show "start_rel e (h_suicide (clientHost Z run) e a)" by (rule suicide_start)
  show "start_rel e e'" if "h_blockHash (clientHost Z run) e k = (h, e')"
    using blockHash_start [OF assms(2), of Z e k] that by (auto simp: start_rel_def clientHost_def outcome_def split: sum.splits prod.splits)
  show "start_rel e e'" if "h_create (clientHost Z run) e v g c op s = (e', g', a', out)"
    using create_start [OF assms(2), of Z e v g c op s] that by (auto simp: start_rel_def clientHost_def outcome_def split: sum.splits prod.splits)
  show "start_rel e e'" if "h_call (clientHost Z run) e p = (e', g', ok, out)"
    using call_start [OF assms(2), of Z e p] that by (auto simp: start_rel_def clientHost_def outcome_def split: sum.splits prod.splits)
qed

lemma extVM_start_ok: "start_ok (extVM Z n)"
proof (induction n)
  case 0
  then show ?case by (simp add: start_ok_def)
next
  case (Suc n)
  show ?case
    unfolding start_ok_def
  proof (intro allI impI)
    fix e g r g' e' assume r: "extVM Z (Suc n) e g = (r, g', e')"
    obtain s where "exec (clientHost Z (extVM Z n)) e g = Some s" using client.exec_returns [of Z n e g] by auto
    then have s: "exec (clientHost Z (extVM Z n)) e g = Some (r, g', e')" using r by simp
    show "m_accountStartNonce (world e') = m_accountStartNonce (world e)"
      using ext_rel.exec_related(1) [OF client_start [OF extVM_gas_ok Suc] s] by (simp add: start_rel_def)
  qed
qed

text \<open>The contract of \<open>ext_rel\<close> once more, for a relation that holds on every block.\<close>

interpretation clients: ext_rel "clientHost Z (extVM Z n)" start_rel for Z n
  by (rule client_start [OF extVM_gas_ok extVM_start_ok])

end
