(* ===== verification/Execution_Props.thy ===== *)
theory Execution_Props
  imports Ext_VM_Props Ext_VM_Start
begin

section \<open>Transactions\<close>

text \<open>
  A whole transaction: when it is refused nothing shows of it, and when it is executed no ether
  appears -- what the sender pays for gas comes back to it or goes to the author of the block. The
  second is for blocks with \<open>hashesKnown\<close>, the first for all.
\<close>

subsection \<open>Checking\<close>

lemma andThen_Inr_iff: "andThen m f = Inr y \<longleftrightarrow> (\<exists>x. m = Inr x \<and> f x = Inr y)"
  by (cases m) simp_all

lemma throwIf_Inr [simp]: "throwIf b x = Inr y \<longleftrightarrow> \<not> b"
  by (simp add: throwIf_def)

lemma engineVerify_facts:
  assumes "engineVerifyTransaction Z e t = Inr u"
  shows "tx_baseGas t (schedule_at Z e) \<le> uint (t_gas t)"
    and "hasZeroSignature t \<Longrightarrow> t_value t = 0 \<and> t_gasPrice t = 0"
proof -
  have "verifyTransaction (z_params Z) irEverything t (env_number (x_envInfo e)) (env_gasLimit (x_envInfo e)) (env_gasUsed (x_envInfo e)) = Inr ()"
    using assms by (auto simp: engineVerifyTransaction_def ethashVerifyTransaction_def andThen_Inr_iff split: if_splits)
  then show "tx_baseGas t (schedule_at Z e) \<le> uint (t_gas t)" "hasZeroSignature t \<Longrightarrow> t_value t = 0 \<and> t_gasPrice t = 0"
    by (auto simp: verifyTransaction_def andThen_Inr_iff irEverything_def schedule_at_def)
qed

text \<open>A transaction that can be paid for, by a sender that is known.\<close>

definition affordable :: "chain \<Rightarrow> Transaction \<Rightarrow> u256 \<Rightarrow> address \<Rightarrow> view \<Rightarrow> bool" where
  "affordable Z t cost a W \<longleftrightarrow>
     sender (c_sha3 (z_crypto Z)) (z_keys Z) t = Inr a \<and> uint cost = uint (t_gas t) * uint (t_gasPrice t) \<and>
     uint (t_value t) + uint cost \<le> uint (w_balance W a)"

lemma uint_of_int256: "0 \<le> c \<Longrightarrow> c < 2 ^ 256 \<Longrightarrow> uint (word_of_int c :: u256) = c"
  by (simp add: uint_word_of_int)

lemma uint_add256:
  assumes "0 \<le> r" "uint (w :: u256) + r < 2 ^ 256"
  shows "uint (w + word_of_int r) = uint w + r"
proof -
  have "uint (word_of_int r :: u256) = r" using assms uint_ge_0 [of w] by (intro uint_of_int256) linarith+
  with assms uint_ge_0 [of w] show ?thesis by (simp add: uint_word_ariths(1))
qed

lemma initialize_since:
  assumes g: "good (z_crypto Z) (x_s e)" and c: "x_gasCost e = 0"
  shows "outcome (initialize Z t e)
    (\<lambda>_ e'. evolves (z_crypto Z) (x_s e) (x_s e') \<and> viewOf (z_crypto Z) (x_s e') = viewOf (z_crypto Z) (x_s e))
    (\<lambda>e'. \<exists>T cost a. e' = e\<lparr>x_t := t, x_baseGasRequired := tx_baseGas t (schedule_at Z e), x_s := T, x_gasCost := cost\<rparr> \<and>
       evolves (z_crypto Z) (x_s e) T \<and> viewOf (z_crypto Z) T = viewOf (z_crypto Z) (x_s e) \<and>
       tx_baseGas t (schedule_at Z e) \<le> uint (t_gas t) \<and> affordable Z t cost a (viewOf (z_crypto Z) T))"
proof -
  let ?C = "z_crypto Z" and ?e = "e\<lparr>x_t := t, x_baseGasRequired := tx_baseGas t (schedule_at Z e)\<rparr>"
  have id: "?e\<lparr>x_s := x_s e, x_gasCost := 0\<rparr> = ?e" using c by (cases e) simp
  have sch: "schedule_at Z (e\<lparr>x_t := t\<rparr>) = schedule_at Z e" "schedule_at Z ?e = schedule_at Z e"
    by (simp_all add: schedule_at_def)
  show ?thesis
  proof (cases "engineVerifyTransaction Z ?e t")
    case (Inl x)
    then show ?thesis by (simp add: initialize_def sch)
  next
    case (Inr u)
    note v = engineVerify_facts [OF Inr, unfolded sch]
    show ?thesis
    proof (cases "hasZeroSignature t")
      case True
      then have "\<exists>a. sender (c_sha3 ?C) (z_keys Z) t = Inr a" by (cases "t_sender t") (simp_all add: sender_def)
      then obtain a where "sender (c_sha3 ?C) (z_keys Z) t = Inr a" by blast
      then have "affordable Z t 0 a (viewOf ?C (x_s e))" using v(2) [OF True] by (simp add: affordable_def)
      with True Inr v(1) c show ?thesis
        by (simp add: initialize_def sch, intro exI [of _ "x_s e"] exI [of _ 0]) (use id in auto)
    next
      case False
      show ?thesis
      proof (cases "sender (c_sha3 ?C) (z_keys Z) t")
        case (Inl x)
        with False Inr show ?thesis by (simp add: initialize_def sch senderOf_def Let_def)
      next
        case (Inr a)
        let ?S1 = "snd (getNonce ?C a (x_s e))"
        let ?S2 = "snd (balanceOf ?C a ?S1)"
        note q1 = query_evolves [OF queries(2) [OF goodD(2) [OF g], of a]]
        note g1 = evolvesD(1) [OF q1(1) g]
        note q2 = query_evolves [OF queries(1) [OF goodD(2) [OF g1], of a]]
        have ev: "evolves ?C (x_s e) ?S2" using evolves_trans [OF q1(1) q2(1)] .
        have vw: "viewOf ?C ?S2 = viewOf ?C (x_s e)" using q1(2) q2(2) by simp
        let ?cost = "uint (t_gas t) * uint (t_gasPrice t)"
        have ok: "affordable Z t (word_of_int ?cost) a (viewOf ?C ?S2)" if "uint (t_value t) + ?cost \<le> uint (fst (balanceOf ?C a ?S1))"
        proof -
          have "0 \<le> ?cost" by simp
          have "uint (fst (balanceOf ?C a ?S1)) < 2 ^ 256" by (rule order_less_le_trans [OF uint_bounded]) simp
          then have "?cost < 2 ^ 256" using that uint_ge_0 [of "t_value t"] by linarith
          from \<open>0 \<le> ?cost\<close> this have "uint (word_of_int ?cost :: u256) = ?cost" by (rule uint_of_int256)
          with Inr that q2(4) vw q1(2) show ?thesis by (simp add: affordable_def)
        qed
        note run = False \<open>engineVerifyTransaction Z ?e t = Inr u\<close> Inr initialize_def sch senderOf_def Let_def
        show ?thesis
        proof (cases "t_nonce t = fst (getNonce ?C a (x_s e)) \<and> uint (t_value t) + ?cost \<le> uint (fst (balanceOf ?C a ?S1))")
          case True
          then have i: "initialize Z t e = Inr (?e\<lparr>x_s := ?S2, x_gasCost := word_of_int ?cost\<rparr>)" by (simp add: run)
          have af: "affordable Z t (word_of_int ?cost) a (viewOf ?C ?S2)" using True by (intro ok) simp
          show ?thesis
            unfolding i outcome_simps
            by (rule exI [of _ ?S2], rule exI [of _ "word_of_int ?cost"], rule exI [of _ a], intro conjI refl ev vw v(1) af)
        next
          case False
          then have "initialize Z t e = Inl (ExInvalidNonce, ?e\<lparr>x_s := ?S1, x_excepted := TE_InvalidNonce\<rparr>) \<or>
              initialize Z t e = Inl (ExNotEnoughCash, ?e\<lparr>x_s := ?S2, x_excepted := TE_NotEnoughCash\<rparr>)"
            by (auto simp: run not_le)
          then show ?thesis using q1 ev vw by auto
        qed
      qed
    qed
  qed
qed

subsection \<open>Running\<close>

text \<open>An executive that is set up: done, or ready for the interpreter.\<close>

definition ready :: "chain \<Rightarrow> State \<Rightarrow> bool \<times> Executive \<Rightarrow> bool" where
  "ready Z S = (\<lambda>(fin, x). since Z S x \<and>
     (\<not> fin \<longrightarrow> (\<exists>ext. x_ext x = Some ext \<and> x_excepted x = TE_None \<and> envInfo ext = x_envInfo x \<and>
        viewOf (z_crypto Z) (x_s x) (myAddress ext) \<noteq> None \<and>
        (x_isCreation x \<longrightarrow> awaiting Z (myAddress ext) (x_s x)))))"

lemma go_ready:
  assumes "good (z_crypto Z) S" "ready Z S (fin, x)" "lawful Z run" "hashesKnown Z (x_envInfo x)"
  shows "since Z S (if fin then x else go Z run x)"
proof (cases fin)
  case False
  then obtain ext where ext: "since Z S x" "x_ext x = Some ext" "x_excepted x = TE_None"
    "viewOf (z_crypto Z) (x_s x) (myAddress ext) \<noteq> None" "x_isCreation x \<Longrightarrow> awaiting Z (myAddress ext) (x_s x)"
    and env: "envInfo ext = x_envInfo x"
    using assms(2) by (auto simp: ready_def)
  from go_since(1) [OF assms(1) ext(1-3) assms(3) _ ext(4,5)] assms(4) env False show ?thesis by simp
qed (use assms(2) in \<open>simp add: ready_def\<close>)

lemma x_call_ready:
  assumes g: "good (z_crypto Z) (x_s e)" and e: "x_ext e = None" "x_excepted e = TE_None" "\<not> x_isCreation e" "x_gas e = 0"
    and bal: "valueTransfer p \<le> w_balance (viewOf (z_crypto Z) (x_s e)) (senderAddress p)"
  obtains S r where "x_call Z p gp orig e = Inr r" "evolves (z_crypto Z) (x_s e) S" "ready Z S r"
    "x_t (snd r) = x_t e" "x_envInfo (snd r) = x_envInfo e" "x_gas (snd r) \<le> cp_gas p"
proof -
  let ?C = "z_crypto Z"
  obtain S where S: "(if tx_nonnull (x_t e) then payNonce Z (senderAddress p) e else Inr e) = Inr (e\<lparr>x_s := S\<rparr>)"
    "evolves ?C (x_s e) S" "w_balance (viewOf ?C S) (senderAddress p) = w_balance (viewOf ?C (x_s e)) (senderAddress p)"
  proof (cases "tx_nonnull (x_t e)")
    case True
    obtain T where "payNonce Z (senderAddress p) e = Inr (e\<lparr>x_s := T\<rparr>)" "evolves ?C (x_s e) T"
      "viewOf ?C T = paidView Z (x_envInfo e) (senderAddress p) (x_s e)"
      by (rule payNonce_evolves [OF g])
    with True show thesis by (intro that [of T]) simp_all
  qed (simp add: that [of "x_s e"])
  let ?e = "e\<lparr>x_s := S\<rparr>"
  have g': "good ?C (x_s ?e)" and e': "x_ext ?e = None" "x_excepted ?e = TE_None" "\<not> x_isCreation ?e"
    and b': "valueTransfer p \<le> w_balance (viewOf ?C (x_s ?e)) (senderAddress p)"
    using evolvesD(1) [OF S(2) g] e bal S(3) by simp_all
  have "outcome (x_call Z p gp orig e) (\<lambda>_ _. False) (called Z (x_envInfo ?e) p (x_s ?e))"
    unfolding x_call_def S(1) andThen_Inr by (rule x_call_paid [OF g' e' b'])
  then obtain r where r: "x_call Z p gp orig e = Inr r" "called Z (x_envInfo ?e) p (x_s ?e) r"
    by (cases "x_call Z p gp orig e") (auto simp: outcome_def)
  obtain fin x where rx: "r = (fin, x)" by (cases r)
  note ctx = x_call_context [OF e(1), of Z p gp orig, unfolded r(1) rx, simplified]
  have "ready Z S r" using r(2) ctx rx by (auto simp: ready_def called_def set_up_def)
  moreover have "x_t (snd r) = x_t e" "x_envInfo (snd r) = x_envInfo e" using ctx rx by (simp_all add: set_up_def)
  moreover have "x_gas (snd r) \<le> cp_gas p" using x_call_gas [OF r(1) [unfolded rx] e(4)] rx by simp
  ultimately show thesis using that [OF r(1) S(2)] by blast
qed

lemma x_create_ready:
  assumes g: "good (z_crypto Z) (x_s e)" and e: "x_ext e = None" "x_excepted e = TE_None" "x_gas e = 0"
    and bal: "v \<le> w_balance (viewOf (z_crypto Z) (x_s e)) from"
  obtains S r where "x_create Z from v gp gas ini orig e = Inr r" "evolves (z_crypto Z) (x_s e) S" "ready Z S r"
    "x_t (snd r) = x_t e" "x_envInfo (snd r) = x_envInfo e" "x_gas (snd r) \<le> gas"
proof (rule createOpcode_since [OF g e(1,2) bal, where gp = gp and gas = gas and ini = ini and orig = orig])
  fix S r assume r: "createOpcode Z from v gp gas ini orig e = Inr r" "evolves (z_crypto Z) (x_s e) S"
    "viewOf (z_crypto Z) S = paidView Z (x_envInfo e) from (x_s e)" "created Z S r"
  obtain fin x where rx: "r = (fin, x)" by (cases r)
  have ctx: "opcodeContext e (fin, x)" using opcode_context(1) [OF e(1), of Z "from" v gp gas ini orig] r(1) rx by simp
  have "ready Z S r"
    using r(4) ctx rx by (auto simp: ready_def created_def opcodeContext_def awaiting_def set_up_def)
  moreover have "x_t (snd r) = x_t e" "x_envInfo (snd r) = x_envInfo e"
    using ctx rx by (simp_all add: opcodeContext_def set_up_def)
  moreover have "x_gas (snd r) \<le> gas" using opcode_gas_bound(1) [OF e(3)] r(1) rx by auto
  ultimately show thesis using that r(1,2) by (simp add: x_create_def)
qed

lemma word_sub_int_le: "0 \<le> b \<Longrightarrow> b \<le> uint (w :: u256) \<Longrightarrow> w - word_of_int b \<le> w"
  using uint_bounded [of w] by (intro word_sub_le) (simp add: word_le_def uint_word_of_int)

lemma baseGas_nonneg: "0 \<le> tx_baseGas t es"
proof -
  have "0 \<le> g \<Longrightarrow> 0 \<le> foldl (\<lambda>g i. g + int (f i)) g bs" for g :: int and f :: "byte \<Rightarrow> nat" and bs
    by (induction bs arbitrary: g) simp_all
  then show ?thesis by (simp add: tx_baseGas_def baseGasRequired_def)
qed

lemma execute_ready:
  assumes g: "good (z_crypto Z) (x_s e)" and e: "x_ext e = None" "x_excepted e = TE_None" "\<not> x_isCreation e" "x_gas e = 0"
    and a: "affordable Z (x_t e) (x_gasCost e) a (viewOf (z_crypto Z) (x_s e))"
    and base: "0 \<le> x_baseGasRequired e" "x_baseGasRequired e \<le> uint (t_gas (x_t e))"
  obtains S r where "execute Z e = Inr r" "alters (z_crypto Z) (x_s e) S" "ready Z S r" "x_t (snd r) = x_t e"
    "x_envInfo (snd r) = x_envInfo e" "x_gas (snd r) \<le> t_gas (x_t e)"
    "total (viewOf (z_crypto Z) (x_s e)) < 2 ^ 256 \<Longrightarrow>
       total (viewOf (z_crypto Z) S) + unat (x_gasCost e) \<le> total (viewOf (z_crypto Z) (x_s e))"
proof -
  let ?C = "z_crypto Z" and ?S = "x_s e" and ?t = "x_t e" and ?cost = "x_gasCost e"
  have send: "senderOf Z e = Inr a" using a by (simp add: affordable_def senderOf_def)
  have "uint ?cost \<le> uint (w_balance (viewOf ?C ?S) a)" using a uint_ge_0 [of "t_value ?t"] unfolding affordable_def by linarith
  then have le: "?cost \<le> w_balance (viewOf ?C ?S) a" by (simp add: word_le_def)
  note sub = implements_subBalance [OF goodD(2,3) [OF g], of a ?cost]
  obtain T where T: "subBalance ?C a ?cost ?S = Inr T"
    using sub(2) le by (cases "subBalance ?C a ?cost ?S") (auto simp: not_less [symmetric])
  have alt: "alters ?C ?S T \<and> viewOf ?C T = (if ?cost = 0 then viewOf ?C ?S else w_addBalance ?C (m_accountStartNonce ?S) a (- ?cost) (viewOf ?C ?S))"
  proof (cases "?cost = 0")
    case True
    with sub(1) T show ?thesis using evolves_alters [OF evolves_same] by (auto simp: implements_def)
  next
    case False
    then have "implements ?C ?S (subBalance ?C a ?cost ?S) (w_addBalance ?C (m_accountStartNonce ?S) a (- ?cost))" using sub(1) by simp
    from update_alters [OF this [unfolded w_addBalance_def]] T False show ?thesis by (simp add: w_addBalance_def)
  qed
  have gT: "good ?C T" using alt altersD(1) g by blast
  have tot: "total (viewOf ?C T) + unat ?cost = total (viewOf ?C ?S)" using alt total_subBalance [OF le] by simp
  have "w_balance (viewOf ?C T) a = w_balance (viewOf ?C ?S) a - ?cost"
    using alt le by (auto simp: w_addBalance_def w_update_def w_balance_def split: option.splits)
  then have "uint (w_balance (viewOf ?C T) a) = uint (w_balance (viewOf ?C ?S) a) - uint ?cost" using le by (simp add: uint_minus_simple_alt)
  then have bal: "t_value ?t \<le> w_balance (viewOf ?C T) a" using a by (simp add: affordable_def word_le_def)
  let ?e = "e\<lparr>x_s := T\<rparr>" and ?gas = "t_gas ?t - word_of_int (x_baseGasRequired e)"
  have gas: "?gas \<le> t_gas ?t" using word_sub_int_le [OF base] .
  have e': "good ?C (x_s ?e)" "x_ext ?e = None" "x_excepted ?e = TE_None" "\<not> x_isCreation ?e" "x_gas ?e = 0"
    using gT e by simp_all
  have "\<exists>S r. execute Z e = Inr r \<and> evolves ?C (x_s ?e) S \<and> ready Z S r \<and> x_t (snd r) = ?t \<and> x_envInfo (snd r) = x_envInfo e \<and>
      x_gas (snd r) \<le> ?gas"
  proof (cases "isCreation ?t")
    case True
    have b: "t_value ?t \<le> w_balance (viewOf ?C (x_s ?e)) a" using bal by simp
    show ?thesis
      by (rule x_create_ready [OF e'(1-3,5) b, of "t_gasPrice ?t" ?gas "t_data ?t" a])
        (use True T send in \<open>simp add: execute_def act_def Let_def; blast\<close>)
  next
    case False
    let ?p = "\<lparr>senderAddress = a, codeAddress = t_receiveAddress ?t, receiveAddress = t_receiveAddress ?t,
             valueTransfer = t_value ?t, apparentValue = t_value ?t, cp_gas = ?gas, cp_data = t_data ?t,
             cp_staticCall = False\<rparr>"
    have b: "valueTransfer ?p \<le> w_balance (viewOf ?C (x_s ?e)) (senderAddress ?p)" using bal by simp
    show ?thesis
      by (rule x_call_ready [OF e'(1-5) b, of "t_gasPrice ?t" a])
        (use False T send in \<open>simp add: execute_def act_def Let_def; blast\<close>)
  qed
  then obtain S r where S: "execute Z e = Inr r" "evolves ?C T S" "ready Z S r" "x_t (snd r) = ?t" "x_envInfo (snd r) = x_envInfo e"
    "x_gas (snd r) \<le> ?gas" by auto
  show thesis
  proof (rule that [OF S(1) _ S(3,4,5)])
    show "alters ?C ?S S" using alt S(2) alters_trans evolves_alters by blast
    show "x_gas (snd r) \<le> t_gas ?t" using S(6) gas by (rule order_trans)
    show "total (viewOf ?C S) + unat ?cost \<le> total (viewOf ?C ?S)" if "total (viewOf ?C ?S) < 2 ^ 256"
      using S(2) gT tot that by (auto simp: evolves_def unminted_def)
  qed
qed

subsection \<open>Settling\<close>

definition refundable :: "Executive \<Rightarrow> bool" where
  "refundable e \<longleftrightarrow> (case x_ext e of Some ext \<Rightarrow> 0 \<le> refunds (sub ext) | None \<Rightarrow> True)"

lemma sdiv_nonneg: "0 \<le> (k :: int) \<Longrightarrow> k sdiv 2 = k div 2"
  by (cases "k = 0") (simp_all add: signed_divide_int_def)

lemma applyRefund_fields [simp]:
  "x_s (applyRefund Z e) = x_s e" "x_t (applyRefund Z e) = x_t e" "x_envInfo (applyRefund Z e) = x_envInfo e"
  "x_excepted (applyRefund Z e) = x_excepted e"
  by (simp_all add: applyRefund_def Let_def split: option.split)

text \<open>The refund, and what it is at most.\<close>

lemma applyRefund_gas:
  assumes "x_gas e \<le> t_gas (x_t e)" "refundable (applyRefund Z e)"
  obtains r where "0 \<le> r" "2 * r \<le> uint (t_gas (x_t e)) - uint (x_gas e)" "uint (x_gas (applyRefund Z e)) = uint (x_gas e) + r"
proof (cases "x_ext e")
  case None
  with assms(1) show thesis by (intro that [of 0]) (simp_all add: applyRefund_def word_le_def)
next
  case (Some ext)
  let ?T = "uint (t_gas (x_t e))" and ?G = "uint (x_gas e)"
  let ?d = "asInt64 (t_gas (x_t e)) - asInt64 (x_gas e)"
  let ?total = "int64 (refunds (sub ext) + int (suicideRefundGas (schedule_at Z e) * card (suicides (sub ext))))"
  have GT: "?G \<le> ?T" using assms(1) by (simp add: word_le_def)
  then have d: "0 \<le> ?d" "?d \<le> ?T - ?G" by (auto simp: asInt64_def)
  have t: "0 \<le> ?total" using assms(2) Some by (simp add: refundable_def applyRefund_def Let_def)
  let ?r = "min (?d sdiv 2) ?total"
  have h: "?r \<le> ?d div 2" unfolding sdiv_nonneg [OF d(1)] by (rule min.cobounded1)
  have "2 * (d div 2) \<le> d" for d :: int by simp
  with h d(2) have "2 * ?r \<le> ?T - ?G" by (smt (verit))
  moreover have "0 \<le> ?r" unfolding sdiv_nonneg [OF d(1)] using d(1) t by simp
  ultimately have r: "0 \<le> ?r" "2 * ?r \<le> ?T - ?G" by blast+
  have T: "?T < 2 ^ 256" by (rule order_less_le_trans [OF uint_bounded]) simp
  have "?G + ?r < 2 ^ 256" using r T GT by (smt (verit))
  from uint_add256 [OF r(1) this] have "uint (x_gas e + word_of_int ?r) = ?G + ?r" .
  with r show thesis by (intro that [of ?r]) (simp_all add: applyRefund_def Some Let_def)
qed

lemma kill_total:
  assumes "base_ok C S"
  shows "total (viewOf C (killAccount C a S)) \<le> total (viewOf C S)"
proof (rule account_cases [OF assms, of a])
  fix x T assume x: "account C a S = (Some x, T)" "m_cache T a = Some x" "base_ok C T" "sim C S T" "viewOf C S a = Some (accView C S x)"
  have v: "viewOf C T = viewOf C S" using simD(1) [OF x(4)] .
  have "viewOf C (killAccount C a S) = (viewOf C S)(a \<mapsto> accView C T (acc_kill C x))"
    using x(1) v by (simp add: killAccount_def)
  moreover have "v_balance (accView C T (acc_kill C x)) = 0" by (simp add: accView_def acc_kill_def acc_changed_def)
  ultimately show ?thesis using total_update [of "viewOf C S" a "accView C T (acc_kill C x)"] by simp
next
  fix T assume "account C a S = (None, T)" "sim C S T"
  then show ?thesis using simD(1) [of C S T] by (simp add: killAccount_def)
qed

lemma kills_total: "base_ok C S \<Longrightarrow> total (viewOf C (fold (killAccount C) as S)) \<le> total (viewOf C S)"
proof (induction as arbitrary: S)
  case (Cons a as)
  from Cons.IH [OF kill_ok [OF Cons.prems, of a]] kill_total [OF Cons.prems, of a] show ?case by simp
qed simp

lemma payFees_total:
  assumes g: "good (z_crypto Z) (x_s e)" and send: "senderOf Z e = Inr a"
  obtains T where "payFees Z e = Inr (e\<lparr>x_s := T\<rparr>)" "alters (z_crypto Z) (x_s e) T"
    "x_gas e \<le> t_gas (x_t e) \<Longrightarrow> total (viewOf (z_crypto Z) T) \<le> total (viewOf (z_crypto Z) (x_s e)) + unat (t_gas (x_t e)) * unat (t_gasPrice (x_t e))"
proof (cases "tx_nonnull (x_t e)")
  case False
  then show thesis by (intro that [of "x_s e"]) (simp_all add: payFees_def evolves_alters)
next
  case True
  let ?C = "z_crypto Z" and ?p = "t_gasPrice (x_t e)" and ?G = "x_gas e" and ?T = "t_gas (x_t e)"
  obtain U where U: "addBalance ?C a (?G * ?p) (x_s e) = Inr U" "alters ?C (x_s e) U"
    "viewOf ?C U = w_addBalance ?C (m_accountStartNonce (x_s e)) a (?G * ?p) (viewOf ?C (x_s e))"
    using good_addBalance [OF g] by metis
  have gU: "good ?C U" using altersD(1) [OF U(2) g] .
  obtain T where T: "addBalance ?C (env_author (x_envInfo e)) ((?T - ?G) * ?p) U = Inr T" "alters ?C U T"
    "viewOf ?C T = w_addBalance ?C (m_accountStartNonce U) (env_author (x_envInfo e)) ((?T - ?G) * ?p) (viewOf ?C U)"
    using good_addBalance [OF gU] by metis
  have mul: "unat (v * w) \<le> unat v * unat w" for v w :: u256 by (simp add: unat_word_ariths(2))
  have tot: "total (viewOf ?C T) \<le> total (viewOf ?C (x_s e)) + unat ?T * unat ?p" if gas: "?G \<le> ?T"
  proof -
    have "unat (?T - ?G) = unat ?T - unat ?G" using gas by (simp add: unat_sub)
    moreover have "unat ?G \<le> unat ?T" using gas by (simp add: word_le_nat_alt)
    ultimately have "unat ?G * unat ?p + unat (?T - ?G) * unat ?p = unat ?T * unat ?p"
      by (metis add_mult_distrib le_add_diff_inverse)
    then have "unat (?G * ?p) + unat ((?T - ?G) * ?p) \<le> unat ?T * unat ?p"
      using mul [of ?G ?p] mul [of "?T - ?G" ?p] by linarith
    moreover have "total (viewOf ?C T) \<le> total (viewOf ?C (x_s e)) + unat (?G * ?p) + unat ((?T - ?G) * ?p)"
      using total_addBalance [of ?C "m_accountStartNonce U" "env_author (x_envInfo e)" "(?T - ?G) * ?p" "viewOf ?C U"]
        total_addBalance [of ?C "m_accountStartNonce (x_s e)" a "?G * ?p" "viewOf ?C (x_s e)"] U(3) T(3) by simp
    ultimately show ?thesis by linarith
  qed
  moreover have "payFees Z e = Inr (e\<lparr>x_s := T\<rparr>)"
    using True send U(1) T(1) by (simp add: payFees_def act_def)
  ultimately show thesis using that alters_trans [OF U(2) T(2)] by blast
qed

subsection \<open>The whole transaction\<close>

text \<open>The executive \<open>State::execute\<close> starts with, whatever its result recipient.\<close>

definition startExecutive :: "State \<Rightarrow> EnvInfo \<Rightarrow> ExecutionResult option \<Rightarrow> Executive" where
  "startExecutive S env res = (mkExecutive S env 0)\<lparr>x_res := res\<rparr>"

lemma startExecutive_fields [simp]:
  "x_s (startExecutive S env res) = S" "x_ext (startExecutive S env res) = None" "x_excepted (startExecutive S env res) = TE_None"
  "x_isCreation (startExecutive S env res) = False" "x_gas (startExecutive S env res) = 0" "x_gasCost (startExecutive S env res) = 0"
  by (simp_all add: startExecutive_def mkExecutive_def)

lemma go_fields: "x_t (go Z run e) = x_t e"
proof -
  have h: "x_t (handleException Z x e) = x_t e" for x e by (cases x) (simp_all add: handleException_def revert_def)
  have d: "depositCode Z ext out e = Inl (x, e') \<Longrightarrow> x_t e' = x_t e" "depositCode Z ext out e = Inr e' \<Longrightarrow> x_t e' = x_t e" for ext out e e' x
    by (auto simp: depositCode_def Let_def split: if_splits)
  show ?thesis
    by (auto simp: go_def Let_def h dest: d split: option.splits prod.splits sum.splits)
qed

lemma executed:
  assumes g: "good (z_crypto Z) S" and run: "lawful Z run" "gas_ok run" "hashesKnown Z env"
    and i: "initialize Z t (startExecutive S env res) = Inr e"
  obtains a e1 where "andThen (execute Z e) (\<lambda>(fin, e). finalize Z (if fin then e else go Z run e)) = finalize Z e1"
    "alters (z_crypto Z) S (x_s e1)" "senderOf Z e1 = Inr a" "x_gas e1 \<le> t_gas (x_t e1)"
    "total (viewOf (z_crypto Z) S) < 2 ^ 256 \<Longrightarrow>
       total (viewOf (z_crypto Z) (x_s e1)) + unat (t_gas (x_t e1)) * unat (t_gasPrice (x_t e1)) \<le> total (viewOf (z_crypto Z) S)"
proof -
  let ?C = "z_crypto Z" and ?e = "startExecutive S env res"
  obtain T cost a where e: "e = ?e\<lparr>x_t := t, x_baseGasRequired := tx_baseGas t (schedule_at Z ?e), x_s := T, x_gasCost := cost\<rparr>"
    and T: "evolves ?C S T" "viewOf ?C T = viewOf ?C S" "tx_baseGas t (schedule_at Z ?e) \<le> uint (t_gas t)"
    and a: "affordable Z t cost a (viewOf ?C T)"
    using initialize_since [of Z ?e t, unfolded i outcome_simps startExecutive_fields, OF g refl] by blast
  have gT: "good ?C T" using evolvesD(1) [OF T(1) g] .
  have f: "x_s e = T" "x_ext e = None" "x_excepted e = TE_None" "\<not> x_isCreation e" "x_gas e = 0" "x_t e = t" "x_gasCost e = cost"
    "x_baseGasRequired e = tx_baseGas t (schedule_at Z ?e)" "x_envInfo e = env"
    using e by (simp_all add: startExecutive_def mkExecutive_def)
  have cost: "unat cost = unat (t_gas t) * unat (t_gasPrice t)"
  proof -
    have "uint cost = uint (t_gas t) * uint (t_gasPrice t)" using a by (simp add: affordable_def)
    then have "int (unat cost) = int (unat (t_gas t) * unat (t_gasPrice t))" by simp
    then show ?thesis by (simp only: of_nat_eq_iff)
  qed
  show thesis
  proof (rule execute_ready [of Z e a, unfolded f, OF gT refl refl _ refl a baseGas_nonneg T(3)])
    fix U r assume U: "execute Z e = Inr r" "alters ?C T U" "ready Z U r" "x_t (snd r) = t" "x_envInfo (snd r) = env" "x_gas (snd r) \<le> t_gas t"
      "total (viewOf ?C T) < 2 ^ 256 \<Longrightarrow> total (viewOf ?C U) + unat cost \<le> total (viewOf ?C T)"
    obtain fin x where r: "r = (fin, x)" by (cases r)
    let ?x = "if fin then x else go Z run x"
    have gU: "good ?C U" using altersD(1) [OF U(2) gT] .
    have s: "since Z U ?x" using go_ready [OF gU _ run(1)] U(3,5) run(3) r by simp
    have tx: "x_t ?x = t" using go_fields U(4) r by simp
    show thesis
    proof (rule that)
      show "andThen (execute Z e) (\<lambda>(fin, e). finalize Z (if fin then e else go Z run e)) = finalize Z ?x"
        using U(1) r by simp
      show "alters ?C S (x_s ?x)"
        using s evolves_alters [OF T(1)] U(2) evolves_alters alters_trans unfolding since_def by blast
      show "senderOf Z ?x = Inr a" using a tx by (simp add: senderOf_def affordable_def)
      show "x_gas ?x \<le> t_gas (x_t ?x)"
        using U(6) go_gas [OF run(2), of Z x] r unfolding tx by (auto intro: order_trans)
      show "total (viewOf ?C (x_s ?x)) + unat (t_gas (x_t ?x)) * unat (t_gasPrice (x_t ?x)) \<le> total (viewOf ?C S)"
        if lt: "total (viewOf ?C S) < 2 ^ 256"
      proof -
        have 1: "total (viewOf ?C U) + unat cost \<le> total (viewOf ?C S)" using U(7) T(2) lt by simp
        then have "total (viewOf ?C U) < 2 ^ 256" using lt by linarith
        then have "total (viewOf ?C (x_s ?x)) \<le> total (viewOf ?C U)"
          using s gU unfolding since_def evolves_def unminted_def by blast
        with 1 show ?thesis unfolding tx cost by linarith
      qed
    qed
  qed (rule f(4))
qed

lemma finalized:
  assumes g: "good (z_crypto Z) (x_s e)" and send: "senderOf Z e = Inr a" and gas: "x_gas e \<le> t_gas (x_t e)"
  obtains b e' where "finalize Z e = Inr (b, e')" "x_ext e' = x_ext (applyRefund Z e)"
    "refundable e' \<Longrightarrow> total (viewOf (z_crypto Z) (x_s e'))
       \<le> total (viewOf (z_crypto Z) (x_s e)) + unat (t_gas (x_t e)) * unat (t_gasPrice (x_t e))"
proof -
  let ?C = "z_crypto Z" and ?e = "applyRefund Z e"
  have g': "good ?C (x_s ?e)" and s': "senderOf Z ?e = Inr a"
    using g send by (simp_all add: senderOf_def split: sum.splits)
  let ?kill = "\<lambda>e. case x_ext e of None \<Rightarrow> e
    | Some ext \<Rightarrow> (onState (fold (killAccount ?C) (sorted_list_of_set (suicides (sub ext)))) e)\<lparr>x_logs := logs (sub ext)\<rparr>"
  have fin: "\<exists>b e'. finalize Z e = Inr (b, e') \<and> x_ext e' = x_ext ?e \<and> x_s e' = x_s (?kill (?e\<lparr>x_s := T\<rparr>))"
    if "payFees Z ?e = Inr (?e\<lparr>x_s := T\<rparr>)" for T
    using that by (cases "x_ext ?e") (simp_all add: finalize_def Let_def)
  have killed: "total (viewOf ?C (x_s (?kill (?e\<lparr>x_s := T\<rparr>)))) \<le> total (viewOf ?C T)" if "base_ok C T" "C = ?C" for T C
    using kills_total that by (cases "x_ext ?e") simp_all
  obtain T where T: "payFees Z ?e = Inr (?e\<lparr>x_s := T\<rparr>)" "alters ?C (x_s ?e) T"
    "x_gas ?e \<le> t_gas (x_t ?e) \<Longrightarrow>
       total (viewOf ?C T) \<le> total (viewOf ?C (x_s ?e)) + unat (t_gas (x_t ?e)) * unat (t_gasPrice (x_t ?e))"
    using payFees_total [OF g' s'] by blast
  obtain b e' where e': "finalize Z e = Inr (b, e')" "x_ext e' = x_ext ?e" "x_s e' = x_s (?kill (?e\<lparr>x_s := T\<rparr>))"
    using fin [OF T(1)] by blast
  show thesis
  proof (rule that [OF e'(1,2)])
    assume "refundable e'"
    then have "refundable ?e" using e'(2) by (simp add: refundable_def)
    then obtain r where r: "2 * r \<le> uint (t_gas (x_t e)) - uint (x_gas e)" "uint (x_gas ?e) = uint (x_gas e) + r" "0 \<le> r"
      using applyRefund_gas [OF gas] by blast
    then have "x_gas ?e \<le> t_gas (x_t ?e)" by (simp add: word_le_def)
    from T(3) [OF this] killed [OF goodD(2) [OF altersD(1) [OF T(2) g']] refl] e'(3)
    show "total (viewOf ?C (x_s e')) \<le> total (viewOf ?C (x_s e)) + unat (t_gas (x_t e)) * unat (t_gasPrice (x_t e))" by simp
  qed
qed

lemma transaction_executed:
  assumes g: "good (z_crypto Z) S" and run: "lawful Z run" "gas_ok run" "hashesKnown Z env"
    and x: "executeTransaction Z run t (startExecutive S env res) = Inr (b, e')" and rf: "refundable e'"
    and lt: "total (viewOf (z_crypto Z) S) < 2 ^ 256"
  shows "total (viewOf (z_crypto Z) (x_s e')) \<le> total (viewOf (z_crypto Z) S)"
proof -
  obtain e where i: "initialize Z t (startExecutive S env res) = Inr e"
    using x by (cases "initialize Z t (startExecutive S env res)") (auto simp: executeTransaction_def Let_def)
  show ?thesis
  proof (rule executed [OF g run i])
    fix a e1 assume e1: "andThen (execute Z e) (\<lambda>(fin, e). finalize Z (if fin then e else go Z run e)) = finalize Z e1"
      "alters (z_crypto Z) S (x_s e1)" "senderOf Z e1 = Inr a" "x_gas e1 \<le> t_gas (x_t e1)"
      "total (viewOf (z_crypto Z) S) < 2 ^ 256 \<Longrightarrow>
         total (viewOf (z_crypto Z) (x_s e1)) + unat (t_gas (x_t e1)) * unat (t_gasPrice (x_t e1)) \<le> total (viewOf (z_crypto Z) S)"
    obtain b1 e2 where f: "finalize Z e1 = Inr (b1, e2)"
      "refundable e2 \<Longrightarrow> total (viewOf (z_crypto Z) (x_s e2))
         \<le> total (viewOf (z_crypto Z) (x_s e1)) + unat (t_gas (x_t e1)) * unat (t_gasPrice (x_t e1))"
      using finalized [OF altersD(1) [OF e1(2) g] e1(3,4)] by blast
    have "e2 = e'" using x i e1(1) f(1) by (simp add: executeTransaction_def Let_def)
    with f(2) e1(5) [OF lt] rf show ?thesis by simp
  qed
qed

text \<open>Only the checks refuse, on every block: the start nonce, which settling needs, is left alone.\<close>

lemma transaction_refused:
  assumes g: "good (z_crypto Z) S" and run: "start_ok run"
    and x: "executeTransaction Z run t (startExecutive S env res) = Inl (x, e')"
  shows "(\<exists>e. initialize Z t (startExecutive S env res) = Inl (x, e)) \<and> viewOf (z_crypto Z) (x_s e') = viewOf (z_crypto Z) S"
proof (cases "initialize Z t (startExecutive S env res)")
  case (Inl y)
  obtain z e where y: "y = (z, e)" by (cases y)
  have "evolves (z_crypto Z) S (x_s e)"
    using initialize_since [of Z "startExecutive S env res" t] g Inl y by simp
  from evolves_rollback(2) [OF this g] show ?thesis using x Inl y by (auto simp: executeTransaction_def onState_def Let_def)
next
  case (Inr e)
  let ?C = "z_crypto Z" and ?e = "startExecutive S env res"
  obtain T cost a where e: "e = ?e\<lparr>x_t := t, x_baseGasRequired := tx_baseGas t (schedule_at Z ?e), x_s := T, x_gasCost := cost\<rparr>"
    and T: "evolves ?C S T" "tx_baseGas t (schedule_at Z ?e) \<le> uint (t_gas t)" "affordable Z t cost a (viewOf ?C T)"
    using initialize_since [of Z ?e t, unfolded Inr outcome_simps startExecutive_fields, OF g refl] by blast
  have gT: "good ?C T" using evolvesD(1) [OF T(1) g] .
  have f: "x_s e = T" "x_ext e = None" "x_excepted e = TE_None" "\<not> x_isCreation e" "x_gas e = 0" "x_t e = t" "x_gasCost e = cost"
    "x_baseGasRequired e = tx_baseGas t (schedule_at Z ?e)"
    using e by simp_all
  obtain fin u where u: "execute Z e = Inr (fin, u)" "x_t u = t"
    using execute_ready [of Z e a, unfolded f, OF gT refl refl _ refl T(3) baseGas_nonneg T(2)] f(4) by (metis prod.collapse)
  let ?u = "if fin then u else go Z run u"
  have "m_accountStartNonce (x_s u) = m_accountStartNonce T"
    using starts_execute [of e "m_accountStartNonce T" Z] u(1) f(1) by simp
  then have "m_accountStartNonce (x_s ?u) \<noteq> Invalid256" using goodD(5) [OF gT] starts_go [OF run] by simp
  moreover have "senderOf Z ?u = Inr a" using T(3) u(2) go_fields by (simp add: senderOf_def affordable_def)
  ultimately obtain b e2 where "finalize Z ?u = Inr (b, e2)" using finalize_returns by blast
  with x Inr u(1) show ?thesis by (simp add: executeTransaction_def Let_def)
qed

lemma vm_exec_ok: "lawful Z (vm_exec Z)" "gas_ok (vm_exec Z)" "start_ok (vm_exec Z)"
  by (simp_all add: vm_exec_def extVM_lawful extVM_gas_ok extVM_start_ok)

text \<open>C2: On a block whose hashes come from the chain (\<open>hashesKnown\<close>: afterwards \<open>BLOCKHASH\<close> empties
  the cache, and with it the sender's payment), no transaction makes ether: when one is executed --
  a transfer, a call or a creation, however it ends --, the balances of all accounts together, with
  the sender's refund, the fees of the author and the suicided accounts settled, are no more than
  before, provided the counter of refunds is not negative, which the code asserts.\<close>

theorem transaction_mints_nothing:
  assumes "good (z_crypto Z) S" "total (viewOf (z_crypto Z) S) < 2 ^ 256" and "hashesKnown Z env"
    and "executeTransaction Z (vm_exec Z) t (startExecutive S env res) = Inr (b, e')"
    and "\<And>ext. x_ext e' = Some ext \<Longrightarrow> 0 \<le> refunds (sub ext)"
  shows "total (viewOf (z_crypto Z) (x_s e')) \<le> total (viewOf (z_crypto Z) S)"
proof -
  have "refundable e'" using assms(5) by (simp add: refundable_def split: option.split)
  from transaction_executed [OF assms(1) vm_exec_ok(1,2) assms(3,4) this assms(2)] show ?thesis .
qed

text \<open>C10: A transaction is refused only by its checks -- nothing throws once it has been accepted --,
  and a refused transaction leaves every account as it was.\<close>

theorem refused_transaction_restores:
  assumes "good (z_crypto Z) S"
    and "executeTransaction Z (vm_exec Z) t (startExecutive S env res) = Inl (x, e')"
  shows "(\<exists>e. initialize Z t (startExecutive S env res) = Inl (x, e)) \<and>
    viewOf (z_crypto Z) (x_s e') = viewOf (z_crypto Z) S"
  by (rule transaction_refused [OF assms(1) vm_exec_ok(3) assms(2)])

text \<open>C35: The refund is at most half of the gas used: what counts as used falls by it to no less than
  half, and never rises.\<close>

theorem refund_at_most_half:
  assumes "x_gas e \<le> t_gas (x_t e)" "x_ext (applyRefund Z e) = Some ext" "0 \<le> refunds (sub ext)"
  shows "gasUsed (applyRefund Z e) \<le> gasUsed e \<and> uint (gasUsed e) \<le> 2 * uint (gasUsed (applyRefund Z e))"
proof -
  have "refundable (applyRefund Z e)" using assms(2,3) by (simp add: refundable_def)
  then obtain r where r: "0 \<le> r" "2 * r \<le> uint (t_gas (x_t e)) - uint (x_gas e)" "uint (x_gas (applyRefund Z e)) = uint (x_gas e) + r"
    using applyRefund_gas [OF assms(1)] by blast
  have le: "x_gas (applyRefund Z e) \<le> t_gas (x_t e)" using r by (simp add: word_le_def)
  have u: "uint (gasUsed e) = uint (t_gas (x_t e)) - uint (x_gas e)"
    "uint (gasUsed (applyRefund Z e)) = uint (t_gas (x_t e)) - uint (x_gas (applyRefund Z e))"
    using assms(1) le by (simp_all add: gasUsed_def uint_minus_simple_alt)
  show ?thesis using r u by (simp add: word_le_def)
qed


subsection \<open>A sample transaction\<close>

definition sampleTx :: Transaction where
  "sampleTx = forceSender 1 (nullTransaction\<lparr>t_type := MessageCall, t_nonce := 3, t_value := 5, t_receiveAddress := 2, t_gas := 30000\<rparr>)"

lemmas sample_run_simps = initialize_def sampleTx_def forceSender_def nullTransaction_def sampleChain_def sampleEnv_def
  startExecutive_def mkExecutive_def engineVerifyTransaction_def verifyTransaction_def irEverything_def atFork_def
  defaultChainParams_def c_infiniteBlockNumber_def isReplayProtected_def hasZeroSignature_def hasSignature_def tx_baseGas_def
  baseGasRequired_def isCreation_def schedule_at_def evmSchedule_def scheduleForBlockNumber_def FrontierSchedule_def
  DefaultSchedule_def throwIf_def senderOf_def sender_def getNonce_def balanceOf_def sample_simps mkSchedule_def word_le_def
  execute_def act_def x_call_def payNonce_def incNonce_def callTarget_def callCode_def isPrecompiled_def addressHasCode_def
  isMaxSender_def MaxAddress_def forkReached_def tx_nonnull_def setSavepoint_def acc_incNonce_def executeTransaction_def
  finalize_def applyRefund_def payFees_def

lemma sample_transaction:
  "\<exists>b e'. executeTransaction sampleChain run sampleTx (startExecutive sampleState sampleEnv None) = Inr (b, e') \<and> x_ext e' = None"
  "\<exists>e'. executeTransaction sampleChain run (sampleTx\<lparr>t_nonce := 4\<rparr>) (startExecutive sampleState sampleEnv None) = Inl (ExInvalidNonce, e')"
proof -
  show "\<exists>b e'. executeTransaction sampleChain run sampleTx (startExecutive sampleState sampleEnv None) = Inr (b, e') \<and> x_ext e' = None"
    by (simp add: sample_run_simps) blast
  show "\<exists>e'. executeTransaction sampleChain run (sampleTx\<lparr>t_nonce := 4\<rparr>) (startExecutive sampleState sampleEnv None) = Inl (ExInvalidNonce, e')"
    by (simp add: sample_run_simps)
qed

lemma transaction_mints_nothing_witness:
  "\<exists>b e'. executeTransaction sampleChain (vm_exec sampleChain) sampleTx (startExecutive sampleState sampleEnv None) = Inr (b, e') \<and>
     total (viewOf countCrypto (x_s e')) \<le> 100"
proof -
  have w: "z_crypto sampleChain = countCrypto" by (simp add: sampleChain_def)
  obtain b e' where x: "executeTransaction sampleChain (vm_exec sampleChain) sampleTx (startExecutive sampleState sampleEnv None) = Inr (b, e')"
    and n: "x_ext e' = None"
    using sample_transaction(1) by blast
  have "total (viewOf (z_crypto sampleChain) (x_s e')) \<le> total (viewOf (z_crypto sampleChain) sampleState)"
    by (rule transaction_mints_nothing [OF _ _ sample_known x]) (use sample_good sample_total n in \<open>simp_all add: w\<close>)
  with x show ?thesis by (auto simp: w sample_total)
qed

lemma refused_transaction_restores_witness:
  "\<exists>e'. executeTransaction sampleChain (vm_exec sampleChain) (sampleTx\<lparr>t_nonce := 4\<rparr>) (startExecutive sampleState sampleEnv None) = Inl (ExInvalidNonce, e') \<and>
     viewOf countCrypto (x_s e') = viewOf countCrypto sampleState"
proof -
  have w: "z_crypto sampleChain = countCrypto" by (simp add: sampleChain_def)
  obtain e' where x: "executeTransaction sampleChain (vm_exec sampleChain) (sampleTx\<lparr>t_nonce := 4\<rparr>) (startExecutive sampleState sampleEnv None) = Inl (ExInvalidNonce, e')"
    using sample_transaction(2) by blast
  from refused_transaction_restores [OF _ x] x sample_good show ?thesis by (auto simp: w)
qed

lemma refund_at_most_half_witness:
  "let e = (mkExecutive sampleState sampleEnv 0)\<lparr>x_t := sampleTx, x_gas := 10000,
         x_ext := Some (sampleContext\<lparr>sub := emptySubState\<lparr>refunds := 15000\<rparr>\<rparr>)\<rparr>;
       e' = applyRefund sampleChain e
   in gasUsed e = 20000 \<and> gasUsed e' \<le> gasUsed e \<and> uint (gasUsed e) \<le> 2 * uint (gasUsed e')"
proof -
  let ?e = "(mkExecutive sampleState sampleEnv 0)\<lparr>x_t := sampleTx, x_gas := 10000,
         x_ext := Some (sampleContext\<lparr>sub := emptySubState\<lparr>refunds := 15000\<rparr>\<rparr>)\<rparr>"
  have t: "t_gas sampleTx = 30000" by (simp add: sampleTx_def forceSender_def)
  have x: "x_ext (applyRefund sampleChain ?e) = Some (sampleContext\<lparr>sub := emptySubState\<lparr>refunds := 15000\<rparr>\<rparr>)"
    by (simp add: applyRefund_def Let_def emptySubState_def int64_def)
  have "gasUsed (applyRefund sampleChain ?e) \<le> gasUsed ?e \<and> uint (gasUsed ?e) \<le> 2 * uint (gasUsed (applyRefund sampleChain ?e))"
    by (rule refund_at_most_half [OF _ x]) (simp_all add: t)
  moreover have "gasUsed ?e = 20000" by (simp add: gasUsed_def t)
  ultimately show ?thesis by (simp add: Let_def)
qed

end
