(* ===== verification/Tx_Queue.thy ===== *)
theory Tx_Queue
  imports Transaction_Codec "HOL-Library.Tree"
begin

section \<open>The transaction queue (libethereum/TransactionQueue.h, TransactionQueue.cpp)\<close>

text \<open>
  Transactions wait in \<open>m_current\<close>, a \<open>std::multiset\<close> ordered by height -- the distance of the nonce
  from the lowest waiting nonce of the sender -- and price, or in \<open>m_future\<close>, by sender and nonce.
  Two indexes point into \<open>m_current\<close>. Its elements are modelled with a number each, and an iterator
  is that number, or \<open>None\<close> for a default-constructed one. The locks make every operation one
  step; the handlers of the signals belong to the callers, and the signals are noted in
  \<open>m_events\<close>.
\<close>

subsection \<open>Sorted maps\<close>

text \<open>\<open>std::map\<close>, as the list of its entries in ascending order of the keys.\<close>

type_synonym ('k, 'v) smap = "('k \<times> 'v) list"

text \<open>\<open>insert\<close> and \<open>emplace\<close>: an entry already there stays.\<close>

fun sm_insert :: "'k::linorder \<Rightarrow> 'v \<Rightarrow> ('k, 'v) smap \<Rightarrow> ('k, 'v) smap" where
  "sm_insert k v [] = [(k, v)]"
| "sm_insert k v ((k', v') # m) =
     (if k < k' then (k, v) # (k', v') # m
      else if k = k' then (k', v') # m
      else (k', v') # sm_insert k v m)"

definition sm_assign :: "'k \<Rightarrow> 'v \<Rightarrow> ('k, 'v) smap \<Rightarrow> ('k, 'v) smap" where
  "sm_assign k v m = map (\<lambda>(k', v'). if k' = k then (k', v) else (k', v')) m"

definition sm_erase :: "'k \<Rightarrow> ('k, 'v) smap \<Rightarrow> ('k, 'v) smap" where
  "sm_erase k m = filter (\<lambda>e. fst e \<noteq> k) m"

text \<open>The entries before and from \<open>lower_bound\<close> of a key.\<close>

definition sm_below :: "'k::linorder \<Rightarrow> ('k, 'v) smap \<Rightarrow> ('k, 'v) smap" where
  "sm_below k m = takeWhile (\<lambda>e. fst e < k) m"

definition sm_from :: "'k::linorder \<Rightarrow> ('k, 'v) smap \<Rightarrow> ('k, 'v) smap" where
  "sm_from k m = dropWhile (\<lambda>e. fst e < k) m"

subsection \<open>The queue\<close>

datatype ImportResult =
  ImportSuccess | UnknownParent | FutureTimeKnown | FutureTimeUnknown | AlreadyInChain | AlreadyKnown
| ImportMalformed | OverbidGasPrice | BadChain | ZeroSignature

datatype IfDropped = IgnoreDropped | RetryDropped

datatype queue_event = Ready | Replaced h256 | Imported ImportResult h256 bytes

record queue =
  m_known :: "h256 set"
  m_dropped :: "h256 set"
  m_current :: "(nat \<times> Transaction) list"
  m_nextIterator :: nat
  m_currentByHash :: "h256 \<Rightarrow> nat option"
  m_currentByAddressAndNonce :: "address \<Rightarrow> (u256, nat option) smap option"
  m_future :: "address \<Rightarrow> (u256, Transaction) smap option"
  m_limit :: "32 word"
  m_futureLimit :: "32 word"
  m_futureSize :: "32 word"
  m_unverified :: "(bytes \<times> bytes) list"
  m_events :: "queue_event list"

text \<open>
  What the queue is given: the hash function and the signature library, the shape of the search
  tree in which \<open>std::multiset\<close> holds its elements, and which account \<open>m_future\<close>, a hash map,
  enumerates first.
\<close>

record queue_env =
  q_sha3 :: "bytes \<Rightarrow> h256"
  q_keys :: keys
  q_tree :: "(nat \<times> Transaction) list \<Rightarrow> (nat \<times> Transaction) tree"
  q_begin :: "(address \<Rightarrow> (u256, Transaction) smap option) \<Rightarrow> address"

text \<open>
  What stops an operation: an exception, the use of an iterator that points nowhere (undefined
  behaviour), or a loop that never ends; with the queue it leaves.
\<close>

datatype queue_failure = Thrown tx_exception | Wild | Endless

type_synonym 'a q_result = "queue_failure \<times> queue + 'a"

definition mkQueue :: "32 word \<Rightarrow> 32 word \<Rightarrow> queue" where
  "mkQueue limit futureLimit =
     \<lparr>m_known = {}, m_dropped = {}, m_current = [], m_nextIterator = 0, m_currentByHash = Map.empty,
      m_currentByAddressAndNonce = Map.empty, m_future = Map.empty, m_limit = limit, m_futureLimit = futureLimit,
      m_futureSize = 0, m_unverified = [], m_events = []\<rparr>"

definition signal :: "queue_event \<Rightarrow> queue \<Rightarrow> queue" where
  "signal ev q = q\<lparr>m_events := m_events q @ [ev]\<rparr>"

definition hashTx :: "queue_env \<Rightarrow> Transaction \<Rightarrow> queue \<Rightarrow> h256 q_result" where
  "hashTx P t q = (case tx_sha3 (q_sha3 P) t True of Inl x \<Rightarrow> Inl (Thrown x, q) | Inr (h, _) \<Rightarrow> Inr h)"

definition fromTx :: "queue_env \<Rightarrow> Transaction \<Rightarrow> address" where
  "fromTx P t = safeSender (q_sha3 P) (q_keys P) t"

definition byNonce :: "queue \<Rightarrow> address \<Rightarrow> (u256, nat option) smap" where
  "byNonce q a = (case m_currentByAddressAndNonce q a of Some m \<Rightarrow> m | None \<Rightarrow> [])"

definition deref :: "nat option \<Rightarrow> queue \<Rightarrow> Transaction q_result" where
  "deref i q =
     (case i of
        None \<Rightarrow> Inl (Wild, q)
      | Some k \<Rightarrow> (case map_of (m_current q) k of None \<Rightarrow> Inl (Wild, q) | Some t \<Rightarrow> Inr t))"

subsection \<open>The order\<close>

text \<open>\<open>PriorityCompare\<close>. It takes the sender from \<open>sender\<close>, which may throw.\<close>

definition height :: "queue_env \<Rightarrow> queue \<Rightarrow> Transaction \<Rightarrow> u256 q_result" where
  "height P q t =
     (case sender (q_sha3 P) (q_keys P) t of
        Inl x \<Rightarrow> Inl (Thrown x, q)
      | Inr a \<Rightarrow> (case byNonce q a of [] \<Rightarrow> Inl (Wild, q) | (n, _) # _ \<Rightarrow> Inr (t_nonce t - n)))"

definition priorityLess :: "queue_env \<Rightarrow> queue \<Rightarrow> Transaction \<Rightarrow> Transaction \<Rightarrow> bool q_result" where
  "priorityLess P q t u =
     andThen (height P q t) (\<lambda>h1. andThen (height P q u) (\<lambda>h2.
     Inr (h1 < h2 \<or> (h1 = h2 \<and> t_gasPrice t > t_gasPrice u))))"

text \<open>The place of a new element: \<open>multiset::emplace\<close> goes down to the left of what it is less than.\<close>

fun descend :: "('a \<Rightarrow> 'e + bool) \<Rightarrow> 'a tree \<Rightarrow> 'e + nat" where
  "descend lt Leaf = Inr 0"
| "descend lt (Node l x r) =
     andThen (lt x) (\<lambda>b. if b then descend lt l else andThen (descend lt r) (\<lambda>k. Inr (size l + 1 + k)))"

definition emplace :: "queue_env \<Rightarrow> Transaction \<Rightarrow> queue \<Rightarrow> (nat \<times> queue) q_result" where
  "emplace P t q =
     andThen (descend (\<lambda>e. priorityLess P q t (snd e)) (q_tree P (m_current q))) (\<lambda>k.
     let i = m_nextIterator q in
     Inr (i, q\<lparr>m_current := take k (m_current q) @ (i, t) # drop k (m_current q), m_nextIterator := i + 1\<rparr>))"

text \<open>A transaction enters \<open>m_current\<close> and both indexes.\<close>

definition enterCurrent :: "queue_env \<Rightarrow> address \<Rightarrow> Transaction \<Rightarrow> queue \<Rightarrow> (nat \<times> queue) q_result" where
  "enterCurrent P a t q =
     (let q = q\<lparr>m_currentByAddressAndNonce := (m_currentByAddressAndNonce q)(a \<mapsto> sm_insert (t_nonce t) None (byNonce q a))\<rparr> in
      andThen (emplace P t q) (\<lambda>(i, q).
      Inr (i, q\<lparr>m_currentByAddressAndNonce := (m_currentByAddressAndNonce q)(a \<mapsto> sm_assign (t_nonce t) (Some i) (byNonce q a))\<rparr>)))"

subsection \<open>Moving transactions\<close>

text \<open>
  The loop of \<open>makeCurrent\<close> over the future transactions from the one that follows. An exception
  out of \<open>emplace\<close> would leave the entry moved from; the model keeps what it held.
\<close>

fun promote :: "queue_env \<Rightarrow> address \<Rightarrow> u256 \<Rightarrow> (u256, Transaction) smap \<Rightarrow> queue \<Rightarrow> ((u256, Transaction) smap \<times> queue) q_result" where
  "promote P a nonce [] q = Inr ([], q)"
| "promote P a nonce ((n, t) # ft) q =
     (if t_nonce t = nonce
      then andThen (enterCurrent P a t q) (\<lambda>(i, q).
           andThen (hashTx P t q) (\<lambda>h.
           promote P a (nonce + 1) ft
             (q\<lparr>m_currentByHash := (m_currentByHash q)(h \<mapsto> i), m_futureSize := m_futureSize q - 1\<rparr>)))
      else Inr ((n, t) # ft, q))"

definition putFuture :: "address \<Rightarrow> (u256, Transaction) smap \<Rightarrow> queue \<Rightarrow> queue" where
  "putFuture a m q = q\<lparr>m_future := (m_future q)(a := if m = [] then None else Some m)\<rparr>"

text \<open>Dropping chain ends while there are too many future transactions.\<close>

definition dropFutureEnd :: "queue_env \<Rightarrow> queue \<Rightarrow> queue q_result" where
  "dropFutureEnd P q =
     (let a = q_begin P (m_future q) in
      case m_future q a of
        None \<Rightarrow> Inl (Wild, q)
      | Some [] \<Rightarrow> Inl (Wild, q)
      | Some m \<Rightarrow> Inr (putFuture a (butlast m) (q\<lparr>m_futureSize := m_futureSize q - 1\<rparr>)))"

primrec trimFuture :: "nat \<Rightarrow> queue_env \<Rightarrow> queue \<Rightarrow> queue q_result" where
  "trimFuture 0 P q = Inr q"
| "trimFuture (Suc k) P q = andThen (dropFutureEnd P q) (trimFuture k P)"

definition makeCurrent :: "queue_env \<Rightarrow> Transaction \<Rightarrow> queue \<Rightarrow> queue q_result" where
  "makeCurrent P t q =
     (let a = fromTx P t; nonce = t_nonce t + 1 in
      andThen (case m_future q a of
          None \<Rightarrow> Inr (False, q)
        | Some m \<Rightarrow>
            if map_of m nonce = None then Inr (False, q)
            else andThen (promote P a nonce (sm_from nonce m) q) (\<lambda>(rest, q).
                 Inr (True, putFuture a (sm_below nonce m @ rest) q))) (\<lambda>(newCurrent, q).
      andThen (trimFuture (unat (m_futureSize q) - unat (m_futureLimit q)) P q) (\<lambda>q.
      Inr (if newCurrent then signal Ready q else q))))"

definition insertCurrent :: "queue_env \<Rightarrow> h256 \<Rightarrow> Transaction \<Rightarrow> queue \<Rightarrow> queue q_result" where
  "insertCurrent P h t q =
     (if m_currentByHash q h \<noteq> None then Inr q
      else andThen (enterCurrent P (fromTx P t) t q) (\<lambda>(i, q).
           andThen (makeCurrent P t (q\<lparr>m_currentByHash := (m_currentByHash q)(h \<mapsto> i)\<rparr>)) (\<lambda>q.
           Inr (q\<lparr>m_known := insert h (m_known q)\<rparr>))))"

definition putByNonce :: "address \<Rightarrow> (u256, nat option) smap \<Rightarrow> queue \<Rightarrow> queue" where
  "putByNonce a m q =
     q\<lparr>m_currentByAddressAndNonce := (m_currentByAddressAndNonce q)(a := if m = [] then None else Some m)\<rparr>"

definition eraseCurrent :: "nat \<Rightarrow> queue \<Rightarrow> queue" where
  "eraseCurrent i q = q\<lparr>m_current := filter (\<lambda>e. fst e \<noteq> i) (m_current q)\<rparr>"

definition removeTx :: "queue_env \<Rightarrow> h256 \<Rightarrow> queue \<Rightarrow> (bool \<times> queue) q_result" where
  "removeTx P h q =
     (case m_currentByHash q h of
        None \<Rightarrow> Inr (False, q)
      | Some i \<Rightarrow>
          andThen (deref (Some i) q) (\<lambda>t.
          let a = fromTx P t in
          case m_currentByAddressAndNonce q a of
            None \<Rightarrow> Inl (Wild, q)
          | Some m \<Rightarrow>
              (let q = putByNonce a (sm_erase (t_nonce t) m) (eraseCurrent i q) in
               Inr (True, q\<lparr>m_currentByHash := (m_currentByHash q)(h := None), m_known := m_known q - {h}\<rparr>))))"

subsection \<open>Importing\<close>

definition check :: "queue \<Rightarrow> h256 \<Rightarrow> IfDropped \<Rightarrow> ImportResult" where
  "check q h ik =
     (if h \<in> m_known q then AlreadyKnown
      else if h \<in> m_dropped q \<and> ik = IgnoreDropped then AlreadyInChain
      else ImportSuccess)"

text \<open>The part of \<open>manageImport\<close> before the insertion: true when a dearer transaction has the nonce.\<close>

definition replaceCurrent :: "queue_env \<Rightarrow> Transaction \<Rightarrow> queue \<Rightarrow> (bool \<times> queue) q_result" where
  "replaceCurrent P t q =
     (case map_of (byNonce q (fromTx P t)) (t_nonce t) of
        None \<Rightarrow> Inr (False, q)
      | Some i \<Rightarrow>
          andThen (deref i q) (\<lambda>u.
          if t_gasPrice t < t_gasPrice u then Inr (True, q)
          else andThen (hashTx P u q) (\<lambda>dropped.
               andThen (removeTx P dropped q) (\<lambda>(_, q). Inr (False, signal (Replaced dropped) q)))))"

definition replaceFuture :: "queue_env \<Rightarrow> Transaction \<Rightarrow> queue \<Rightarrow> bool \<times> queue" where
  "replaceFuture P t q =
     (let a = fromTx P t in
      case m_future q a of
        None \<Rightarrow> (False, q)
      | Some m \<Rightarrow>
          (case map_of m (t_nonce t) of
             None \<Rightarrow> (False, q)
           | Some u \<Rightarrow>
               if t_gasPrice t < t_gasPrice u then (True, q)
               else (False, putFuture a (sm_erase (t_nonce t) m) (q\<lparr>m_futureSize := m_futureSize q - 1\<rparr>))))"

text \<open>
  Removing the last element while there are too many; were its hash not in the index, the loop
  would go on forever. Each turn takes one element away, so the turns are counted.
\<close>

primrec trimCurrent :: "nat \<Rightarrow> queue_env \<Rightarrow> queue \<Rightarrow> queue q_result" where
  "trimCurrent 0 P q = Inr q"
| "trimCurrent (Suc k) P q =
     andThen (hashTx P (snd (last (m_current q))) q) (\<lambda>h.
     andThen (removeTx P h q) (\<lambda>(removed, q).
     if removed then trimCurrent k P q else Inl (Endless, q)))"

definition manageBody :: "queue_env \<Rightarrow> h256 \<Rightarrow> Transaction \<Rightarrow> queue \<Rightarrow> (ImportResult \<times> queue) q_result" where
  "manageBody P h t q =
     andThen (replaceCurrent P t q) (\<lambda>(overbid, q).
     if overbid then Inr (OverbidGasPrice, q)
     else (let (overbid, q) = replaceFuture P t q in
           if overbid then Inr (OverbidGasPrice, q)
           else andThen (insertCurrent P h t q) (\<lambda>q.
                andThen (trimCurrent (length (m_current q) - unat (m_limit q)) P q) (\<lambda>q.
                Inr (ImportSuccess, signal Ready q)))))"

definition manageImport :: "queue_env \<Rightarrow> h256 \<Rightarrow> Transaction \<Rightarrow> queue \<Rightarrow> (ImportResult \<times> queue) q_result" where
  "manageImport P h t q =
     (case manageBody P h t q of
        Inl (Thrown x, q) \<Rightarrow> Inr (ImportMalformed, q)
      | r \<Rightarrow> r)"

text \<open>\<open>import\<close>; the hash, once computed, stays with the transaction.\<close>

definition importTx :: "queue_env \<Rightarrow> Transaction \<Rightarrow> IfDropped \<Rightarrow> queue \<Rightarrow> (ImportResult \<times> queue) q_result" where
  "importTx P t ik q =
     (if hasZeroSignature t then Inr (ZeroSignature, q)
      else case tx_sha3 (q_sha3 P) t True of
             Inl x \<Rightarrow> Inl (Thrown x, q)
           | Inr (h, t) \<Rightarrow>
               (let ir = check q h ik in
                if ir \<noteq> ImportSuccess then Inr (ir, q) else manageImport P h t q))"

definition importRLP :: "queue_env \<Rightarrow> bytes \<Rightarrow> IfDropped \<Rightarrow> queue \<Rightarrow> (ImportResult \<times> queue) q_result" where
  "importRLP P bs ik q =
     (case txFromRLP (q_sha3 P) (q_keys P) bs CheckSigEverything of
        Inl _ \<Rightarrow> Inr (ImportMalformed, q)
      | Inr t \<Rightarrow> (case importTx P t ik q of Inl (Thrown x, q) \<Rightarrow> Inr (ImportMalformed, q) | r \<Rightarrow> r))"

subsection \<open>Other operations\<close>

definition dropTx :: "queue_env \<Rightarrow> h256 \<Rightarrow> queue \<Rightarrow> queue q_result" where
  "dropTx P h q =
     (if h \<notin> m_known q then Inr q
      else andThen (removeTx P h (q\<lparr>m_dropped := insert h (m_dropped q)\<rparr>)) (\<lambda>(_, q). Inr q))"

definition dropGood :: "queue_env \<Rightarrow> Transaction \<Rightarrow> queue \<Rightarrow> queue q_result" where
  "dropGood P t q =
     andThen (makeCurrent P t q) (\<lambda>q.
     andThen (hashTx P t q) (\<lambda>h.
     if h \<notin> m_known q then Inr q else andThen (removeTx P h q) (\<lambda>(_, q). Inr q)))"

text \<open>The loop of \<open>setFuture\<close>, over the entries from the transaction on.\<close>

fun demote :: "queue_env \<Rightarrow> (u256, nat option) smap \<Rightarrow> (u256, Transaction) smap \<Rightarrow> queue \<Rightarrow> ((u256, Transaction) smap \<times> queue) q_result" where
  "demote P [] target q = Inr (target, q)"
| "demote P ((n, i) # m) target q =
     andThen (deref i q) (\<lambda>t.
     andThen (hashTx P t q) (\<lambda>h.
     demote P m (sm_insert (t_nonce t) t target)
       (eraseCurrent (the i) (q\<lparr>m_currentByHash := (m_currentByHash q)(h := None), m_futureSize := m_futureSize q + 1\<rparr>))))"

definition setFuture :: "queue_env \<Rightarrow> h256 \<Rightarrow> queue \<Rightarrow> queue q_result" where
  "setFuture P h q =
     (case m_currentByHash q h of
        None \<Rightarrow> Inr q
      | Some i \<Rightarrow>
          andThen (deref (Some i) q) (\<lambda>t.
          let a = fromTx P t; m = byNonce q a;
              target = (case m_future q a of Some f \<Rightarrow> f | None \<Rightarrow> []) in
          andThen (demote P (sm_from (t_nonce t) m) target q) (\<lambda>(target, q).
          Inr (putByNonce a (sm_below (t_nonce t) m) (q\<lparr>m_future := (m_future q)(a \<mapsto> target)\<rparr>)))))"

definition clearQueue :: "queue \<Rightarrow> queue" where
  "clearQueue q =
     q\<lparr>m_known := {}, m_current := [], m_dropped := {}, m_currentByAddressAndNonce := Map.empty,
       m_currentByHash := Map.empty, m_future := Map.empty, m_futureSize := 0\<rparr>"

definition maxNonce :: "queue \<Rightarrow> address \<Rightarrow> u256" where
  "maxNonce q a =
     (let ret = (case m_currentByAddressAndNonce q a of
                   Some m \<Rightarrow> if m = [] then 0 else fst (last m) + 1 | None \<Rightarrow> 0)
      in case m_future q a of
           Some m \<Rightarrow> if m = [] then ret else max ret (fst (last m) + 1)
         | None \<Rightarrow> ret)"

definition waiting :: "queue \<Rightarrow> address \<Rightarrow> nat" where
  "waiting q a =
     (case m_currentByAddressAndNonce q a of Some m \<Rightarrow> length m | None \<Rightarrow> 0)
       + (case m_future q a of Some m \<Rightarrow> length m | None \<Rightarrow> 0)"

fun topLoop :: "queue_env \<Rightarrow> nat \<Rightarrow> h256 set \<Rightarrow> (nat \<times> Transaction) list \<Rightarrow> queue \<Rightarrow> Transaction list q_result" where
  "topLoop P 0 avoid ts q = Inr []"
| "topLoop P (Suc n) avoid [] q = Inr []"
| "topLoop P (Suc n) avoid ((i, t) # ts) q =
     andThen (hashTx P t q) (\<lambda>h.
     if h \<in> avoid then topLoop P (Suc n) avoid ts q
     else andThen (topLoop P n avoid ts q) (\<lambda>ret. Inr (t # ret)))"

definition topTransactions :: "queue_env \<Rightarrow> nat \<Rightarrow> h256 set \<Rightarrow> queue \<Rightarrow> Transaction list q_result" where
  "topTransactions P limit avoid q = topLoop P limit avoid (m_current q) q"

subsection \<open>Verification\<close>

definition c_maxVerificationQueueSize :: nat where
  "c_maxVerificationQueueSize = 8192"

text \<open>\<open>enqueue\<close>: the items of a list, until the verification queue is full.\<close>

fun enqueueItems :: "bytes list \<Rightarrow> bytes \<Rightarrow> queue \<Rightarrow> queue" where
  "enqueueItems [] node q = q"
| "enqueueItems (d # ds) node q =
     (if length (m_unverified q) \<ge> c_maxVerificationQueueSize then q
      else enqueueItems ds node (q\<lparr>m_unverified := m_unverified q @ [(d, node)]\<rparr>))"

text \<open>One round of a verifier thread, when there is work.\<close>

definition verifierStep :: "queue_env \<Rightarrow> queue \<Rightarrow> queue q_result" where
  "verifierStep P q =
     (case m_unverified q of
        [] \<Rightarrow> Inr q
      | (bs, node) # rest \<Rightarrow>
          (let q = q\<lparr>m_unverified := rest\<rparr> in
           case txFromRLP (q_sha3 P) (q_keys P) bs CheckSigCheap of
             Inl _ \<Rightarrow> Inr q
           | Inr t \<Rightarrow>
               (case andThen (importTx P t IgnoreDropped q) (\<lambda>(ir, q).
                     andThen (hashTx P t q) (\<lambda>h. Inr (signal (Imported ir h node) q))) of
                  Inl (Thrown x, q) \<Rightarrow> Inr q
                | r \<Rightarrow> r)))"

end
