(* ===== verification/Tx_Queue_Flaws.thy ===== *)
theory Tx_Queue_Flaws
  imports Tx_Queue
begin

section \<open>What can go wrong in the transaction queue\<close>

text \<open>
  Three runs of the queue, for any hash function and signature library: a transaction that poisons
  it, a transaction it never takes again, and an order that is no longer one.
\<close>

lemma tree_single: "inorder t = [x] \<Longrightarrow> t = Node Leaf x Leaf"
  by (cases t) (auto simp: append_eq_Cons_conv)

lemma tree_empty: "inorder t = [] \<Longrightarrow> t = Leaf"
  by (cases t) simp_all

text \<open>A transaction whose hash is known, and whether its sender is.\<close>

definition hashed :: "queue_env \<Rightarrow> Transaction \<Rightarrow> h256 \<Rightarrow> bool" where
  "hashed P t h \<longleftrightarrow> \<not> hasZeroSignature t \<and> tx_sha3 (q_sha3 P) t True = Inr (h, t)"

lemmas queue_simps = importTx_def manageImport_def manageBody_def replaceCurrent_def replaceFuture_def insertCurrent_def
  enterCurrent_def emplace_def makeCurrent_def check_def byNonce_def fromTx_def safeSender_def hashTx_def deref_def
  priorityLess_def height_def sm_assign_def signal_def removeTx_def putByNonce_def eraseCurrent_def sm_erase_def
  putFuture_def setFuture_def sm_from_def sm_below_def dropFutureEnd_def dropTx_def Let_def

lemma unat32_ge: "0 < (l :: 32 word) \<Longrightarrow> Suc 0 - unat l = 0"
  by (simp add: word_less_nat_alt)

lemma import_first:
  assumes "inorder (q_tree P []) = []" "hashed P t h" "0 < l"
  shows "importTx P t ik (mkQueue l f) =
    Inr (ImportSuccess, (mkQueue l f)\<lparr>m_known := {h}, m_current := [(0, t)], m_nextIterator := 1,
       m_currentByHash := [h \<mapsto> 0], m_currentByAddressAndNonce := [fromTx P t \<mapsto> [(t_nonce t, Some 0)]],
       m_events := [Ready]\<rparr>)"
  using assms tree_empty [OF assms(1)] unat32_ge [OF assms(3)]
  by (simp add: queue_simps hashed_def mkQueue_def)

text \<open>C36: One transaction poisons the queue: its signature has numbers in range but no public key can be
  recovered from it, and it comes when the queue is empty. It is taken in; the next transaction of
  anybody is refused as malformed, since comparing it with the first throws, and leaves an entry
  without an element in the index; and when that transaction comes again, the queue follows the
  iterator that points nowhere.\<close>

theorem bad_signature_poisons:
  assumes tree: "\<And>ts. inorder (q_tree P ts) = ts" and l: "0 < l"
    and bad: "hashed P b hb" "sender (q_sha3 P) (q_keys P) b = Inl InvalidSignature"
    and fine: "hashed P t ht" "sender (q_sha3 P) (q_keys P) t = Inr a" "a \<noteq> 0" "ht \<noteq> hb"
  shows "\<exists>q1 q2. importTx P b IgnoreDropped (mkQueue l f) = Inr (ImportSuccess, q1) \<and>
    importTx P t IgnoreDropped q1 = Inr (ImportMalformed, q2) \<and>
    importTx P t IgnoreDropped q2 = Inl (Wild, q2)"
proof -
  let ?q1 = "(mkQueue l f)\<lparr>m_known := {hb}, m_current := [(0, b)], m_nextIterator := 1, m_currentByHash := [hb \<mapsto> 0],
       m_currentByAddressAndNonce := [fromTx P b \<mapsto> [(t_nonce b, Some 0)]], m_events := [Ready]\<rparr>"
  have 1: "importTx P b IgnoreDropped (mkQueue l f) = Inr (ImportSuccess, ?q1)" by (rule import_first [OF tree bad(1) l])
  have from_b: "fromTx P b = 0" using bad(2) by (simp add: fromTx_def safeSender_def)
  have from_t: "fromTx P t = a" using fine(2) by (simp add: fromTx_def safeSender_def)
  have tr: "q_tree P [(0, b)] = Node Leaf (0, b) Leaf" by (rule tree_single [OF tree])
  let ?q2 = "?q1\<lparr>m_currentByAddressAndNonce := [0 \<mapsto> [(t_nonce b, Some 0)], a \<mapsto> [(t_nonce t, None)]]\<rparr>"
  have 2: "importTx P t IgnoreDropped ?q1 = Inr (ImportMalformed, ?q2)"
    using fine bad from_b from_t tr by (simp add: queue_simps hashed_def mkQueue_def)
  have 3: "importTx P t IgnoreDropped ?q2 = Inl (Wild, ?q2)"
    using fine bad from_b from_t by (simp add: queue_simps hashed_def mkQueue_def)
  from 1 2 3 show ?thesis by blast
qed

text \<open>C37: A transaction the queue loses is refused ever after: put off to the future, it is dropped when
  there are too many future transactions -- here when the next transaction comes and the limit is
  zero --, but its hash stays among the known ones, and importing it again answers that it is
  already there, though no transaction of its sender waits.\<close>

theorem lost_transaction_stays_known:
  assumes tree: "\<And>ts. inorder (q_tree P ts) = ts" and l: "1 < l"
    and first: "q_begin P [a \<mapsto> [(t_nonce t, t)]] = a"
    and t: "hashed P t ht" "sender (q_sha3 P) (q_keys P) t = Inr a"
    and u: "hashed P u hu" "sender (q_sha3 P) (q_keys P) u = Inr b" "a \<noteq> b" "ht \<noteq> hu"
  shows "\<exists>q1 q2 q3. importTx P t IgnoreDropped (mkQueue l 0) = Inr (ImportSuccess, q1) \<and>
    setFuture P ht q1 = Inr q2 \<and> waiting q2 a = 1 \<and>
    importTx P u IgnoreDropped q2 = Inr (ImportSuccess, q3) \<and> waiting q3 a = 0 \<and>
    importTx P t IgnoreDropped q3 = Inr (AlreadyKnown, q3)"
proof -
  have l0: "0 < l" using l by (simp add: word_less_nat_alt)
  have from_t: "fromTx P t = a" "fromTx P u = b" using t(2) u(2) by (simp_all add: fromTx_def safeSender_def)
  have tr: "q_tree P [] = Leaf" by (rule tree_empty [OF tree])
  let ?q1 = "(mkQueue l 0)\<lparr>m_known := {ht}, m_current := [(0, t)], m_nextIterator := 1, m_currentByHash := [ht \<mapsto> 0],
       m_currentByAddressAndNonce := [a \<mapsto> [(t_nonce t, Some 0)]], m_events := [Ready]\<rparr>"
  have 1: "importTx P t IgnoreDropped (mkQueue l 0) = Inr (ImportSuccess, ?q1)"
    using import_first [OF tree t(1) l0, of IgnoreDropped 0] from_t by simp
  let ?q2 = "?q1\<lparr>m_current := [], m_currentByHash := Map.empty, m_currentByAddressAndNonce := Map.empty,
       m_future := [a \<mapsto> [(t_nonce t, t)]], m_futureSize := 1\<rparr>"
  have 2: "setFuture P ht ?q1 = Inr ?q2"
    using t from_t by (simp add: queue_simps hashed_def mkQueue_def)
  let ?q3 = "?q2\<lparr>m_known := {ht, hu}, m_current := [(1, u)], m_nextIterator := 2, m_currentByHash := [hu \<mapsto> 1],
       m_currentByAddressAndNonce := [b \<mapsto> [(t_nonce u, Some 1)]], m_future := Map.empty, m_futureSize := 0,
       m_events := [Ready, Ready]\<rparr>"
  have 3: "importTx P u IgnoreDropped ?q2 = Inr (ImportSuccess, ?q3)"
    using t u from_t tr first unat32_ge [OF l0] by (simp add: queue_simps hashed_def mkQueue_def insert_commute)
  have 4: "importTx P t IgnoreDropped ?q3 = Inr (AlreadyKnown, ?q3)"
    using t by (simp add: queue_simps hashed_def)
  from 1 2 3 4 show ?thesis
    by (intro exI [of _ ?q1] exI [of _ ?q2] exI [of _ ?q3]) (use u(3) in \<open>simp add: waiting_def mkQueue_def\<close>)
qed

subsection \<open>The order\<close>

text \<open>Where the tree sends an element that some front part of the elements is not less than.\<close>

lemma descend_sorted:
  assumes "\<And>x. x \<in> set xs \<Longrightarrow> lt x = Inr False" "\<And>y. y \<in> set ys \<Longrightarrow> lt y = Inr True" "inorder t = xs @ ys"
  shows "descend lt t = Inr (length xs)"
  using assms
proof (induction t arbitrary: xs ys)
  case (Node l x r)
  have e: "inorder l @ x # inorder r = xs @ ys" using Node.prems(3) by simp
  show ?case
  proof (cases "length xs \<le> length (inorder l)")
    case True
    then obtain zs where z: "inorder l = xs @ zs" "ys = zs @ x # inorder r"
      using e by (auto simp: append_eq_append_conv2)
    have "descend lt l = Inr (length xs)"
      by (rule Node.IH(1) [OF _ _ z(1)]) (use Node.prems(1,2) z(2) in auto)
    moreover have "lt x = Inr True" using Node.prems(2) z(2) by simp
    ultimately show ?thesis by simp
  next
    case False
    then have "\<nexists>us. inorder l = xs @ us" by (metis le_add1 length_append)
    then obtain us where "inorder l @ us = xs" "x # inorder r = us @ ys" "us \<noteq> []"
      using e by (metis append_Nil2 append_eq_append_conv2)
    then obtain zs where z: "xs = inorder l @ x # zs" "inorder r = zs @ ys"
      by (auto simp: Cons_eq_append_conv)
    have "descend lt r = Inr (length zs)"
      by (rule Node.IH(2) [OF _ _ z(2)]) (use Node.prems(1,2) z(1) in auto)
    moreover have "lt x = Inr False" using Node.prems(1) z(1) by simp
    moreover have "length (inorder l) = size l" by simp
    ultimately show ?thesis by (simp add: z(1))
  qed
qed simp

definition sampleQueued :: "h256 \<Rightarrow> address \<Rightarrow> u256 \<Rightarrow> Transaction" where
  "sampleQueued h a n = nullTransaction\<lparr>t_type := MessageCall, t_hashWith := h, t_sender := Some a, t_nonce := n, t_gasPrice := 1\<rparr>"

lemma sampleQueued_facts [simp]:
  "sender s K (sampleQueued h a n) = Inr a" "h \<noteq> 0 \<Longrightarrow> tx_sha3 s (sampleQueued h a n) True = Inr (h, sampleQueued h a n)"
  "\<not> hasZeroSignature (sampleQueued h a n)" "t_nonce (sampleQueued h a n) = n" "t_gasPrice (sampleQueued h a n) = 1"
  by (simp_all add: sampleQueued_def nullTransaction_def hasZeroSignature_def tx_sha3_def sender_def)

text \<open>An import that displaces nothing and comes last in the order.\<close>

definition appended :: "Transaction \<Rightarrow> h256 \<Rightarrow> address \<Rightarrow> queue \<Rightarrow> queue" where
  "appended t h a q =
     q\<lparr>m_known := insert h (m_known q), m_current := m_current q @ [(m_nextIterator q, t)],
       m_nextIterator := m_nextIterator q + 1, m_currentByHash := (m_currentByHash q)(h \<mapsto> m_nextIterator q),
       m_currentByAddressAndNonce := (m_currentByAddressAndNonce q)
         (a \<mapsto> sm_assign (t_nonce t) (Some (m_nextIterator q)) (sm_insert (t_nonce t) None (byNonce q a))),
       m_events := m_events q @ [Ready]\<rparr>"

lemma import_appends:
  assumes tree: "inorder (q_tree P (m_current q)) = m_current q"
    and t: "hashed P t h" "sender (q_sha3 P) (q_keys P) t = Inr a"
    and new: "h \<notin> m_known q" "h \<notin> m_dropped q" "m_currentByHash q h = None" "map_of (byNonce q a) (t_nonce t) = None"
    and fut: "m_future q a = None" "m_futureSize q \<le> m_futureLimit q" and room: "length (m_current q) < unat (m_limit q)"
    and last: "\<And>e. e \<in> set (m_current q) \<Longrightarrow>
      priorityLess P (q\<lparr>m_currentByAddressAndNonce := (m_currentByAddressAndNonce q)(a \<mapsto> sm_insert (t_nonce t) None (byNonce q a))\<rparr>) t (snd e) = Inr False"
  shows "importTx P t IgnoreDropped q = Inr (ImportSuccess, appended t h a q)"
proof -
  have from_t: "fromTx P t = a" using t(2) by (simp add: fromTx_def safeSender_def)
  let ?q = "q\<lparr>m_currentByAddressAndNonce := (m_currentByAddressAndNonce q)(a \<mapsto> sm_insert (t_nonce t) None (byNonce q a))\<rparr>"
  have "descend (\<lambda>e. priorityLess P ?q t (snd e)) (q_tree P (m_current ?q)) = Inr (length (m_current q))"
    by (rule descend_sorted [where ys = "[]"]) (use last tree in auto)
  then have em: "emplace P t ?q = Inr (m_nextIterator q, ?q\<lparr>m_current := m_current q @ [(m_nextIterator q, t)], m_nextIterator := m_nextIterator q + 1\<rparr>)"
    by (simp add: emplace_def Let_def)
  let ?q1 = "?q\<lparr>m_current := m_current q @ [(m_nextIterator q, t)], m_nextIterator := m_nextIterator q + 1,
     m_currentByAddressAndNonce := (m_currentByAddressAndNonce q)
         (a \<mapsto> sm_assign (t_nonce t) (Some (m_nextIterator q)) (sm_insert (t_nonce t) None (byNonce q a)))\<rparr>"
  have en: "enterCurrent P a t q = Inr (m_nextIterator q, ?q1)" using em by (simp add: enterCurrent_def Let_def byNonce_def)
  have ic: "insertCurrent P h t q = Inr (?q1\<lparr>m_currentByHash := (m_currentByHash q)(h \<mapsto> m_nextIterator q), m_known := insert h (m_known q)\<rparr>)"
    using en from_t new(3) fut by (simp add: insertCurrent_def makeCurrent_def Let_def word_le_nat_alt)
  have "replaceCurrent P t q = Inr (False, q)" "replaceFuture P t q = (False, q)"
    using from_t new(4) fut(1) by (simp_all add: replaceCurrent_def replaceFuture_def Let_def)
  then show ?thesis
    using t(1) new(1,2) ic room by (simp add: importTx_def hashed_def check_def manageImport_def manageBody_def Let_def appended_def signal_def)
qed

fun importAll :: "queue_env \<Rightarrow> Transaction list \<Rightarrow> queue \<Rightarrow> queue q_result" where
  "importAll P [] q = Inr q"
| "importAll P (t # ts) q = andThen (importTx P t IgnoreDropped q) (\<lambda>(_, q). importAll P ts q)"

text \<open>C38: The order of the queue goes stale: the heights are counted from the lowest waiting nonce, so
  when that transaction goes, the others of its sender move up -- but their elements stay where
  they are. After one transaction is dropped, an element that the order puts first comes after
  one it puts later, in a search tree that relies on the order.\<close>

theorem order_goes_stale:
  assumes tree: "\<And>ts. inorder (q_tree P ts) = ts"
  shows "\<exists>q q'. importAll P [sampleQueued 1 7 0, sampleQueued 2 8 0, sampleQueued 3 8 1, sampleQueued 4 7 5] (mkQueue 1024 1024) = Inr q \<and>
    map snd (m_current q) = [sampleQueued 1 7 0, sampleQueued 2 8 0, sampleQueued 3 8 1, sampleQueued 4 7 5] \<and>
    priorityLess P q (sampleQueued 3 8 1) (sampleQueued 4 7 5) = Inr True \<and>
    dropTx P 1 q = Inr q' \<and>
    map snd (m_current q') = [sampleQueued 2 8 0, sampleQueued 3 8 1, sampleQueued 4 7 5] \<and>
    priorityLess P q' (sampleQueued 4 7 5) (sampleQueued 3 8 1) = Inr True"
proof -
  let ?A0 = "sampleQueued 1 7 0" and ?B0 = "sampleQueued 2 8 0" and ?B1 = "sampleQueued 3 8 1" and ?A5 = "sampleQueued 4 7 5"
  have last: "descend lt (q_tree P ts) = Inr (length ts)" if "\<And>x. x \<in> set ts \<Longrightarrow> lt x = Inr False" for lt :: "nat \<times> Transaction \<Rightarrow> (queue_failure \<times> queue) + bool" and ts
    by (rule descend_sorted [where ys = "[]"]) (use that tree in auto)
  have h: "hashed P (sampleQueued k x n) k" if "k \<noteq> 0" for k x n using that by (simp add: hashed_def)
  let ?q0 = "mkQueue 1024 1024"
  let ?q1 = "appended ?A0 1 7 ?q0" let ?q2 = "appended ?B0 2 8 ?q1" let ?q3 = "appended ?B1 3 8 ?q2" let ?q4 = "appended ?A5 4 7 ?q3"
  note ap = appended_def mkQueue_def byNonce_def sm_assign_def priorityLess_def height_def
  have 1: "importTx P ?A0 IgnoreDropped ?q0 = Inr (ImportSuccess, ?q1)"
    by (rule import_appends [OF tree h]) (simp_all add: ap)
  have 2: "importTx P ?B0 IgnoreDropped ?q1 = Inr (ImportSuccess, ?q2)"
    by (rule import_appends [OF tree h]) (simp_all add: ap)
  have 3: "importTx P ?B1 IgnoreDropped ?q2 = Inr (ImportSuccess, ?q3)"
    by (rule import_appends [OF tree h]) (auto simp: ap)
  have 4: "importTx P ?A5 IgnoreDropped ?q3 = Inr (ImportSuccess, ?q4)"
    by (rule import_appends [OF tree h]) (auto simp: ap)
  let ?q5 = "?q4\<lparr>m_dropped := {1}, m_current := [(1, ?B0), (2, ?B1), (3, ?A5)], m_known := {2, 3, 4},
     m_currentByHash := (m_currentByHash ?q4)(1 := None), m_currentByAddressAndNonce := (m_currentByAddressAndNonce ?q4)(7 \<mapsto> [(5, Some 3)])\<rparr>"
  have 5: "dropTx P 1 ?q4 = Inr ?q5"
    by (auto simp: ap dropTx_def removeTx_def deref_def fromTx_def safeSender_def putByNonce_def eraseCurrent_def sm_erase_def Let_def)
  show ?thesis
  proof (intro exI conjI)
    show "importAll P [?A0, ?B0, ?B1, ?A5] ?q0 = Inr ?q4" using 1 2 3 4 by simp
    show "dropTx P 1 ?q4 = Inr ?q5" by (rule 5)
  qed (simp_all add: ap)
qed

subsection \<open>Instances\<close>

text \<open>A library that recovers no key, and search trees that lean to the right.\<close>

fun leaning :: "'a list \<Rightarrow> 'a tree" where
  "leaning [] = Leaf"
| "leaning (x # xs) = Node Leaf x (leaning xs)"

lemma inorder_leaning [simp]: "inorder (leaning xs) = xs"
  by (induction xs) simp_all

definition sampleQueueEnv :: queue_env where
  "sampleQueueEnv =
     \<lparr>q_sha3 = (\<lambda>_. 1), q_keys = \<lparr>k_recover = (\<lambda>_ _. []), k_sign = (\<lambda>_ _. \<lparr>sig_r = 1, sig_s = 1, sig_v = 0\<rparr>)\<rparr>,
      q_tree = leaning, q_begin = (\<lambda>_. 7)\<rparr>"

definition badTx :: Transaction where
  "badTx = nullTransaction\<lparr>t_type := MessageCall, t_hashWith := 9, t_vrs := Some \<lparr>sig_r = 1, sig_s = 1, sig_v = 0\<rparr>\<rparr>"

lemma badTx_facts:
  "sender (\<lambda>_. 1) \<lparr>k_recover = (\<lambda>_ _. []), k_sign = (\<lambda>_ _. \<lparr>sig_r = 1, sig_s = 1, sig_v = 0\<rparr>)\<rparr> badTx = Inl InvalidSignature"
  "hasZeroSignature badTx = False" "tx_sha3 s badTx True = Inr (9, badTx)"
proof -
  show z: "hasZeroSignature badTx = False" by code_simp
  have "case tx_streamRLP badTx False False emptyStream of Inl _ \<Rightarrow> False
    | Inr st \<Rightarrow> (case stream_out st of Inl _ \<Rightarrow> False | Inr _ \<Rightarrow> True)" by code_simp
  then obtain st out where s: "tx_streamRLP badTx False False emptyStream = Inr st" "stream_out st = Inr out"
    by (auto split: sum.splits)
  have c: "t_chainId badTx = - 4" "t_sender badTx = None" "t_vrs badTx = Some \<lparr>sig_r = 1, sig_s = 1, sig_v = 0\<rparr>" "t_hashWith badTx = 9"
    by (simp_all add: badTx_def nullTransaction_def)
  have "tx_sha3 (\<lambda>_. 1) badTx False = Inr (1, badTx)" using s c by (simp add: tx_sha3_def liftRlp_def)
  then show "sender (\<lambda>_. 1) \<lparr>k_recover = (\<lambda>_ _. []), k_sign = (\<lambda>_ _. \<lparr>sig_r = 1, sig_s = 1, sig_v = 0\<rparr>)\<rparr> badTx = Inl InvalidSignature"
    using z c by (simp add: sender_def)
  show "tx_sha3 s badTx True = Inr (9, badTx)" using c by (simp add: tx_sha3_def)
qed

lemma sample_env [simp]: "inorder (q_tree sampleQueueEnv ts) = ts" "q_begin sampleQueueEnv F = 7" "q_sha3 sampleQueueEnv = (\<lambda>_. 1)"
  by (simp_all add: sampleQueueEnv_def)

lemma bad_signature_poisons_witness:
  "\<exists>q1 q2. importTx sampleQueueEnv badTx IgnoreDropped (mkQueue 10 10) = Inr (ImportSuccess, q1) \<and>
    importTx sampleQueueEnv (sampleQueued 5 7 0) IgnoreDropped q1 = Inr (ImportMalformed, q2) \<and>
    importTx sampleQueueEnv (sampleQueued 5 7 0) IgnoreDropped q2 = Inl (Wild, q2)"
  by (rule bad_signature_poisons [where hb = 9 and ht = 5 and a = 7])
    (use badTx_facts in \<open>simp_all add: hashed_def sampleQueueEnv_def\<close>)

lemma lost_transaction_stays_known_witness:
  "\<exists>q1 q2 q3. importTx sampleQueueEnv (sampleQueued 5 7 0) IgnoreDropped (mkQueue 10 0) = Inr (ImportSuccess, q1) \<and>
    setFuture sampleQueueEnv 5 q1 = Inr q2 \<and> waiting q2 7 = 1 \<and>
    importTx sampleQueueEnv (sampleQueued 6 8 0) IgnoreDropped q2 = Inr (ImportSuccess, q3) \<and> waiting q3 7 = 0 \<and>
    importTx sampleQueueEnv (sampleQueued 5 7 0) IgnoreDropped q3 = Inr (AlreadyKnown, q3)"
  by (rule lost_transaction_stays_known [where hu = 6 and b = 8]) (simp_all add: hashed_def)

lemma order_goes_stale_witness:
  "\<exists>q q'. importAll sampleQueueEnv [sampleQueued 1 7 0, sampleQueued 2 8 0, sampleQueued 3 8 1, sampleQueued 4 7 5] (mkQueue 1024 1024) = Inr q \<and>
    dropTx sampleQueueEnv 1 q = Inr q' \<and>
    priorityLess sampleQueueEnv q' (sampleQueued 4 7 5) (sampleQueued 3 8 1) = Inr True"
  using order_goes_stale [of sampleQueueEnv] by (simp del: importAll.simps) blast

end
