(* ===== verification/Tx_Queue_Inv.thy ===== *)
theory Tx_Queue_Inv
  imports Tx_Queue_Flaws
begin

section \<open>The invariant of the transaction queue\<close>

text \<open>
  As long as every transaction that comes in has a sender and a hash, the two indexes and the
  future transactions stay consistent with \<open>m_current\<close>, no operation throws or follows an iterator
  that points nowhere, and every loop ends.
\<close>

subsection \<open>Sorted maps\<close>

definition sm_ok :: "('k::linorder, 'v) smap \<Rightarrow> bool" where
  "sm_ok m \<longleftrightarrow> sorted_wrt (<) (map fst m)"

lemma sm_ok_distinct: "sm_ok m \<Longrightarrow> distinct (map fst m)"
  unfolding sm_ok_def by (rule strict_sorted_iff [THEN iffD1, THEN conjunct2])

lemma sm_ok_Nil [simp]: "sm_ok []"
  by (simp add: sm_ok_def)

lemma sm_ok_Cons: "sm_ok (e # m) \<longleftrightarrow> (\<forall>x\<in>set m. fst e < fst x) \<and> sm_ok m"
  by (simp add: sm_ok_def)

lemma sm_insert_new: "k \<notin> fst ` set m \<Longrightarrow> set (sm_insert k v m) = insert (k, v) (set m)"
  by (induction k v m rule: sm_insert.induct) auto

lemma sm_insert_keys: "fst ` set (sm_insert k v m) = insert k (fst ` set m)"
  by (induction k v m rule: sm_insert.induct) auto

lemma sm_insert_ok: "sm_ok m \<Longrightarrow> sm_ok (sm_insert k v m)"
proof (induction k v m rule: sm_insert.induct)
  case (2 k v k' v' m)
  have keys: "\<forall>x\<in>set (sm_insert k v m). k' < fst x" if "k' < k" "\<forall>x\<in>set m. k' < fst x"
    using that sm_insert_keys [of k v m] by (metis imageE image_eqI insert_iff)
  consider "k < k'" | "k = k'" | "k' < k" by (rule linorder_cases)
  then show ?case
  proof cases
    case 1
    with 2 show ?thesis by (auto simp: sm_ok_Cons intro: less_trans)
  next
    case 3
    with 2 keys show ?thesis by (auto simp: sm_ok_Cons)
  qed (use 2 in simp)
qed (simp add: sm_ok_Cons)

lemma sm_insert_ne [simp]: "sm_insert k v m \<noteq> []"
  by (cases "(k, v, m)" rule: sm_insert.cases) auto

lemma sm_insert_length: "k \<notin> fst ` set m \<Longrightarrow> length (sm_insert k v m) = length m + 1"
  by (induction k v m rule: sm_insert.induct) auto

lemma sm_assign_keys [simp]: "map fst (sm_assign k v m) = map fst m"
  by (induction m) (auto simp: sm_assign_def)

lemma sm_assign_ok [simp]: "sm_ok (sm_assign k v m) = sm_ok m"
  by (simp add: sm_ok_def)

lemma sm_assign_ne [simp]: "sm_assign k v m = [] \<longleftrightarrow> m = []"
  by (simp add: sm_assign_def)

lemma sm_assign_new:
  assumes "k \<notin> fst ` set m"
  shows "set (sm_assign k v (sm_insert k w m)) = insert (k, v) (set m)"
  using assms by (auto simp: sm_assign_def sm_insert_new image_iff split: prod.splits) force+

lemma sm_filter_ok: "sm_ok m \<Longrightarrow> sm_ok (filter p m)"
  by (induction m) (auto simp: sm_ok_Cons)

lemma sm_erase_ok: "sm_ok m \<Longrightarrow> sm_ok (sm_erase k m)"
  by (simp add: sm_erase_def sm_filter_ok)

lemma sm_erase_set: "set (sm_erase k m) = {e \<in> set m. fst e \<noteq> k}"
  by (auto simp: sm_erase_def)

lemma sm_erase_length: "sm_ok m \<Longrightarrow> (k, v) \<in> set m \<Longrightarrow> length (sm_erase k m) + 1 = length m"
proof (induction m)
  case (Cons e m)
  show ?case
  proof (cases "fst e = k")
    case True
    then have "sm_erase k (e # m) = m" using Cons.prems(1) by (force simp: sm_erase_def sm_ok_Cons intro!: filter_True)
    then show ?thesis by simp
  next
    case False
    with Cons show ?thesis by (auto simp: sm_erase_def sm_ok_Cons)
  qed
qed simp

lemma sm_split: "sm_below k m @ sm_from k m = m"
  by (simp add: sm_below_def sm_from_def)

lemma sm_below_from:
  assumes "sm_ok m"
  shows "set (sm_below k m) = {e \<in> set m. fst e < k}" "set (sm_from k m) = {e \<in> set m. k \<le> fst e}"
    "sm_ok (sm_below k m)" "sm_ok (sm_from k m)"
proof -
  have "sm_below k m = filter (\<lambda>e. fst e < k) m \<and> sm_from k m = filter (\<lambda>e. k \<le> fst e) m"
    using assms
  proof (induction m)
    case (Cons e m)
    show ?case
    proof (cases "fst e < k")
      case True
      with Cons show ?thesis by (auto simp: sm_below_def sm_from_def sm_ok_Cons)
    next
      case False
      with Cons.prems have "\<forall>x\<in>set m. \<not> fst x < k" by (force simp: sm_ok_Cons)
      with False show ?thesis by (auto simp: sm_below_def sm_from_def intro!: filter_True [symmetric] filter_False [symmetric])
    qed
  qed (simp add: sm_below_def sm_from_def)
  with sm_filter_ok [OF assms] show "set (sm_below k m) = {e \<in> set m. fst e < k}" "set (sm_from k m) = {e \<in> set m. k \<le> fst e}"
    "sm_ok (sm_below k m)" "sm_ok (sm_from k m)" by auto
qed

lemma sm_lookup: "sm_ok m \<Longrightarrow> map_of m k = Some v \<longleftrightarrow> (k, v) \<in> set m"
  by (rule map_of_eq_Some_iff [OF sm_ok_distinct])

subsection \<open>The invariant\<close>

definition hashOf :: "queue_env \<Rightarrow> Transaction \<Rightarrow> h256" where
  "hashOf P t = (case tx_sha3 (q_sha3 P) t True of Inr (h, _) \<Rightarrow> h | Inl _ \<Rightarrow> 0)"

definition tx_ok :: "queue_env \<Rightarrow> Transaction \<Rightarrow> bool" where
  "tx_ok P t \<longleftrightarrow> sender (q_sha3 P) (q_keys P) t = Inr (fromTx P t) \<and> tx_sha3 (q_sha3 P) t True = Inr (hashOf P t, t)"

definition futureOf :: "queue \<Rightarrow> address \<Rightarrow> (u256, Transaction) smap" where
  "futureOf q a = (case m_future q a of Some m \<Rightarrow> m | None \<Rightarrow> [])"

text \<open>The elements and the two indexes into them.\<close>

definition cur_ok :: "queue_env \<Rightarrow> queue \<Rightarrow> bool" where
  "cur_ok P q \<longleftrightarrow>
     distinct (map fst (m_current q)) \<and> (\<forall>e\<in>set (m_current q). fst e < m_nextIterator q \<and> tx_ok P (snd e)) \<and>
     (\<forall>h i. m_currentByHash q h = Some i \<longleftrightarrow> (\<exists>t. (i, t) \<in> set (m_current q) \<and> hashOf P t = h)) \<and>
     (\<forall>a. sm_ok (byNonce q a) \<and> m_currentByAddressAndNonce q a \<noteq> Some [] \<and>
        (\<forall>n v. (n, v) \<in> set (byNonce q a) \<longleftrightarrow>
           (\<exists>i t. v = Some i \<and> (i, t) \<in> set (m_current q) \<and> fromTx P t = a \<and> t_nonce t = n)))"

text \<open>The transactions of the two parts, and how many the second has.\<close>

definition waits :: "queue \<Rightarrow> Transaction set" where
  "waits q = snd ` set (m_current q)"

definition later :: "queue \<Rightarrow> Transaction set" where
  "later q = (\<Union>a. snd ` set (futureOf q a))"

definition futureCount :: "queue \<Rightarrow> nat" where
  "futureCount q = (\<Sum>a\<in>UNIV. length (futureOf q a))"

definition fut_ok :: "queue_env \<Rightarrow> queue \<Rightarrow> bool" where
  "fut_ok P q \<longleftrightarrow>
     (\<forall>a. sm_ok (futureOf q a) \<and> m_future q a \<noteq> Some [] \<and>
        (\<forall>n t. (n, t) \<in> set (futureOf q a) \<longrightarrow> tx_ok P t \<and> fromTx P t = a \<and> t_nonce t = n)) \<and>
     m_futureSize q = word_of_nat (futureCount q)"

text \<open>No two transactions of the queue have one hash, or one sender and nonce.\<close>

definition differ :: "queue_env \<Rightarrow> Transaction \<Rightarrow> Transaction \<Rightarrow> bool" where
  "differ P t u \<longleftrightarrow> hashOf P t \<noteq> hashOf P u \<and> \<not> (fromTx P t = fromTx P u \<and> t_nonce t = t_nonce u)"

definition apart :: "queue_env \<Rightarrow> queue \<Rightarrow> bool" where
  "apart P q \<longleftrightarrow>
     (\<forall>t\<in>waits q \<union> later q. \<forall>u\<in>waits q \<union> later q. t \<noteq> u \<longrightarrow> differ P t u) \<and> waits q \<inter> later q = {}"

definition core_ok :: "queue_env \<Rightarrow> queue \<Rightarrow> bool" where
  "core_ok P q \<longleftrightarrow> cur_ok P q \<and> fut_ok P q \<and> apart P q"

definition known_ok :: "queue_env \<Rightarrow> queue \<Rightarrow> bool" where
  "known_ok P q \<longleftrightarrow> hashOf P ` (waits q \<union> later q) \<subseteq> m_known q"

definition queue_ok :: "queue_env \<Rightarrow> queue \<Rightarrow> bool" where
  "queue_ok P q \<longleftrightarrow> core_ok P q \<and> known_ok P q"

text \<open>What is assumed of the search tree and of the hash map.\<close>

definition env_ok :: "queue_env \<Rightarrow> bool" where
  "env_ok P \<longleftrightarrow> (\<forall>ts. inorder (q_tree P ts) = ts) \<and> (\<forall>F. F \<noteq> Map.empty \<longrightarrow> F (q_begin P F) \<noteq> None)"

lemma hashTx_ok: "tx_ok P t \<Longrightarrow> hashTx P t q = Inr (hashOf P t)"
  by (simp add: tx_ok_def hashTx_def)

subsection \<open>Entering\<close>

lemma descend_total:
  assumes "\<And>x. x \<in> set_tree t \<Longrightarrow> \<exists>b. lt x = Inr b"
  shows "\<exists>k. descend lt t = Inr k \<and> k \<le> size t"
  using assms
proof (induction t)
  case (Node l x r)
  obtain b where b: "lt x = Inr b" using Node.prems by auto
  obtain i j where "descend lt l = Inr i" "i \<le> size l" "descend lt r = Inr j" "j \<le> size r"
    using Node.IH Node.prems by auto
  with b show ?case by (cases b) auto
qed simp

lemma cur_deref:
  assumes "cur_ok P q" "(i, t) \<in> set (m_current q)"
  shows "deref (Some i) q = Inr t"
  using assms map_of_eq_Some_iff [of "m_current q" i t] by (simp add: deref_def cur_ok_def)

lemma byHash_waits:
  assumes "cur_ok P q"
  shows "m_currentByHash q h = None \<longleftrightarrow> (\<forall>t\<in>waits q. hashOf P t \<noteq> h)"
proof -
  have "m_currentByHash q h = None \<longleftrightarrow> (\<forall>i. m_currentByHash q h \<noteq> Some i)" by auto
  also have "\<dots> \<longleftrightarrow> (\<forall>i t. (i, t) \<in> set (m_current q) \<longrightarrow> hashOf P t \<noteq> h)" using assms by (simp add: cur_ok_def)
  finally show ?thesis by (force simp: waits_def)
qed

lemma byNonce_waits:
  assumes "cur_ok P q"
  shows "n \<in> fst ` set (byNonce q a) \<longleftrightarrow> (\<exists>t\<in>waits q. fromTx P t = a \<and> t_nonce t = n)"
proof -
  have "n \<in> fst ` set (byNonce q a) \<longleftrightarrow> (\<exists>v. (n, v) \<in> set (byNonce q a))" by force
  also have "\<dots> \<longleftrightarrow> (\<exists>i t. (i, t) \<in> set (m_current q) \<and> fromTx P t = a \<and> t_nonce t = n)"
    using assms by (simp add: cur_ok_def)
  finally show ?thesis by (force simp: waits_def)
qed

lemma byNonce_ne: "cur_ok P q \<Longrightarrow> m_currentByAddressAndNonce q a = None \<longleftrightarrow> byNonce q a = []"
  by (auto simp: cur_ok_def byNonce_def split: option.split)

lemma priorityLess_total:
  assumes "tx_ok P t" "tx_ok P u" "byNonce q (fromTx P t) \<noteq> []" "byNonce q (fromTx P u) \<noteq> []"
  shows "\<exists>b. priorityLess P q t u = Inr b"
  using assms by (auto simp: priorityLess_def height_def tx_ok_def neq_Nil_conv)

definition entered :: "queue_env \<Rightarrow> Transaction \<Rightarrow> nat \<Rightarrow> queue \<Rightarrow> queue" where
  "entered P t k q =
     q\<lparr>m_current := take k (m_current q) @ (m_nextIterator q, t) # drop k (m_current q),
       m_nextIterator := m_nextIterator q + 1,
       m_currentByAddressAndNonce := (m_currentByAddressAndNonce q)
         (fromTx P t \<mapsto> sm_assign (t_nonce t) (Some (m_nextIterator q)) (sm_insert (t_nonce t) None (byNonce q (fromTx P t))))\<rparr>"

lemma entered_current: "set (m_current (entered P t k q)) = insert (m_nextIterator q, t) (set (m_current q))"
proof -
  have "set (take k xs) \<union> set (drop k xs) = set xs" for xs :: "(nat \<times> Transaction) list"
    by (metis append_take_drop_id set_append)
  then show ?thesis by (auto simp: entered_def)
qed

lemma entered_fields [simp]:
  "m_future (entered P t k q) = m_future q" "m_futureSize (entered P t k q) = m_futureSize q"
  "m_known (entered P t k q) = m_known q" "m_limit (entered P t k q) = m_limit q"
  "m_futureLimit (entered P t k q) = m_futureLimit q" "m_currentByHash (entered P t k q) = m_currentByHash q"
  by (simp_all add: entered_def)

lemma waits_ne:
  assumes "cur_ok P q" "e \<in> set (m_current q)"
  shows "tx_ok P (snd e)" "byNonce q (fromTx P (snd e)) \<noteq> []"
proof -
  show "tx_ok P (snd e)" using assms by (simp add: cur_ok_def)
  have "(fst e, snd e) \<in> set (m_current q)" using assms(2) by simp
  then have "(t_nonce (snd e), Some (fst e)) \<in> set (byNonce q (fromTx P (snd e)))"
    using assms(1) unfolding cur_ok_def by blast
  then show "byNonce q (fromTx P (snd e)) \<noteq> []" by auto
qed

lemma enter_runs:
  assumes env: "env_ok P" and cur: "cur_ok P q" and t: "tx_ok P t"
  obtains k where "enterCurrent P (fromTx P t) t q = Inr (m_nextIterator q, entered P t k q)"
proof -
  let ?a = "fromTx P t" and ?n = "t_nonce t"
  let ?q = "q\<lparr>m_currentByAddressAndNonce := (m_currentByAddressAndNonce q)(?a \<mapsto> sm_insert ?n None (byNonce q ?a))\<rparr>"
  have bn: "byNonce ?q b = (if b = ?a then sm_insert ?n None (byNonce q ?a) else byNonce q b)" for b
    by (simp add: byNonce_def)
  have tree: "inorder (q_tree P (m_current q)) = m_current q" using env by (simp add: env_ok_def)
  have less: "\<exists>b. priorityLess P ?q t (snd e) = Inr b" if "e \<in> set (m_current q)" for e
    by (rule priorityLess_total [OF t]) (use waits_ne [OF cur that] bn in simp_all)
  have "set_tree (q_tree P (m_current q)) = set (m_current q)" using tree by (metis set_inorder)
  with less have less': "\<And>e. e \<in> set_tree (q_tree P (m_current q)) \<Longrightarrow> \<exists>b. priorityLess P ?q t (snd e) = Inr b" by blast
  obtain k where k: "descend (\<lambda>e. priorityLess P ?q t (snd e)) (q_tree P (m_current q)) = Inr k"
    using descend_total [of "q_tree P (m_current q)" "\<lambda>e. priorityLess P ?q t (snd e)", OF less'] by blast
  have "enterCurrent P ?a t q = Inr (m_nextIterator q, entered P t k q)"
    using k by (simp add: enterCurrent_def emplace_def entered_def Let_def byNonce_def)
  with that show thesis .
qed

lemma entered_byNonce:
  "byNonce (entered P t k q) b =
     (if b = fromTx P t then sm_assign (t_nonce t) (Some (m_nextIterator q)) (sm_insert (t_nonce t) None (byNonce q (fromTx P t)))
      else byNonce q b)"
  by (simp add: byNonce_def entered_def)

definition indexed :: "h256 \<Rightarrow> nat \<Rightarrow> queue \<Rightarrow> queue" where
  "indexed h i q = q\<lparr>m_currentByHash := (m_currentByHash q)(h \<mapsto> i)\<rparr>"

lemma indexed_fields [simp]:
  "m_future (indexed h i q) = m_future q" "m_futureSize (indexed h i q) = m_futureSize q"
  "m_known (indexed h i q) = m_known q" "m_limit (indexed h i q) = m_limit q"
  "m_futureLimit (indexed h i q) = m_futureLimit q" "m_currentByHash (indexed h i q) = (m_currentByHash q)(h \<mapsto> i)"
  "m_current (indexed h i q) = m_current q" "m_nextIterator (indexed h i q) = m_nextIterator q"
  "m_currentByAddressAndNonce (indexed h i q) = m_currentByAddressAndNonce q" "byNonce (indexed h i q) a = byNonce q a"
  by (simp_all add: indexed_def byNonce_def)

lemma entered_cur_ok:
  assumes cur: "cur_ok P q" and t: "tx_ok P t"
    and apart: "\<And>u. u \<in> waits q \<Longrightarrow> differ P t u"
  shows "cur_ok P (indexed (hashOf P t) (m_nextIterator q) (entered P t k q))" (is "cur_ok P ?r")
proof -
  let ?a = "fromTx P t" and ?n = "t_nonce t" and ?i = "m_nextIterator q"
  have new: "?n \<notin> fst ` set (byNonce q ?a)" "m_currentByHash q (hashOf P t) = None"
    using apart unfolding byNonce_waits [OF cur] byHash_waits [OF cur] differ_def by metis+
  have W: "set (m_current ?r) = insert (?i, t) (set (m_current q))" using entered_current by simp
  have fresh: "?i \<notin> fst ` set (m_current q)" using cur by (auto simp: cur_ok_def)
  let ?xs = "map fst (take k (m_current q))" and ?ys = "map fst (drop k (m_current q))"
  have "?xs @ ?ys = map fst (m_current q)" by (metis append_take_drop_id map_append)
  then have "distinct (?xs @ ?ys)" "?i \<notin> set (?xs @ ?ys)" using cur fresh by (simp_all add: cur_ok_def)
  then have d: "distinct (map fst (m_current ?r))" by (auto simp: entered_def)
  have ids: "\<forall>e\<in>set (m_current ?r). fst e < m_nextIterator ?r \<and> tx_ok P (snd e)"
    using cur t unfolding W by (auto simp: cur_ok_def entered_def less_SucI)
  have H: "\<And>h j. m_currentByHash q h = Some j \<longleftrightarrow> (\<exists>u. (j, u) \<in> set (m_current q) \<and> hashOf P u = h)"
    using cur by (simp add: cur_ok_def)
  have hash: "m_currentByHash ?r h = Some j \<longleftrightarrow> (\<exists>u. (j, u) \<in> set (m_current ?r) \<and> hashOf P u = h)" for h j
  proof (cases "h = hashOf P t")
    case True
    have none: "(j, u) \<in> set (m_current q) \<Longrightarrow> hashOf P u \<noteq> hashOf P t" for j u using H [of "hashOf P t" j] new(2) by auto
    show ?thesis unfolding W using True none by auto
  next
    case False
    then show ?thesis using H [of h j] unfolding W by auto
  qed
  have B: "\<And>a n v. (n, v) \<in> set (byNonce q a) \<longleftrightarrow> (\<exists>i u. v = Some i \<and> (i, u) \<in> set (m_current q) \<and> fromTx P u = a \<and> t_nonce u = n)"
    and S: "\<And>a. sm_ok (byNonce q a)" "\<And>a. m_currentByAddressAndNonce q a \<noteq> Some []"
    using cur unfolding cur_ok_def by blast+
  have s: "sm_ok (byNonce ?r b)" for b by (simp add: entered_byNonce S(1) sm_insert_ok)
  have e: "m_currentByAddressAndNonce ?r b \<noteq> Some []" for b using S(2) [of b] by (simp add: entered_def)
  have bn: "(n, v) \<in> set (byNonce ?r b) \<longleftrightarrow> (n, v) \<in> set (byNonce q b) \<or> (b = ?a \<and> n = ?n \<and> v = Some ?i)" for n v b
    using sm_assign_new [OF new(1)] by (simp add: entered_byNonce) blast
  have b: "(n, v) \<in> set (byNonce ?r b) \<longleftrightarrow> (\<exists>i u. v = Some i \<and> (i, u) \<in> set (m_current ?r) \<and> fromTx P u = b \<and> t_nonce u = n)" for n v b
    unfolding W bn B by blast
  show ?thesis unfolding cur_ok_def using d ids hash s e b by blast
qed

lemma entered_waits: "waits (indexed h i (entered P t k q)) = insert t (waits q)"
  by (simp add: waits_def entered_current)

lemma entered_length: "length (m_current (indexed h i (entered P t k q))) = length (m_current q) + 1"
  by (simp add: entered_def)

subsection \<open>From the future to the present\<close>

lemma cur_ok_cong:
  assumes "m_current q' = m_current q" "m_nextIterator q' = m_nextIterator q" "m_currentByHash q' = m_currentByHash q"
    "m_currentByAddressAndNonce q' = m_currentByAddressAndNonce q"
  shows "cur_ok P q' = cur_ok P q" "waits q' = waits q"
  using assms by (simp_all add: cur_ok_def byNonce_def waits_def)

lemma promote_ok:
  assumes env: "env_ok P"
  shows "cur_ok P q \<Longrightarrow> (\<And>n t. (n, t) \<in> set ft \<Longrightarrow> tx_ok P t \<and> fromTx P t = a) \<Longrightarrow> distinct (map snd ft) \<Longrightarrow>
    (\<And>t u. t \<in> snd ` set ft \<Longrightarrow> u \<in> waits q \<union> snd ` set ft \<Longrightarrow> t \<noteq> u \<Longrightarrow> differ P t u) \<Longrightarrow>
    waits q \<inter> snd ` set ft = {} \<Longrightarrow>
    \<exists>moved rest q'. promote P a nonce ft q = Inr (rest, q') \<and> ft = moved @ rest \<and> cur_ok P q' \<and>
      waits q' = waits q \<union> snd ` set moved \<and> length (m_current q') = length (m_current q) + length moved \<and>
      m_futureSize q' = m_futureSize q - word_of_nat (length moved) \<and>
      m_future q' = m_future q \<and> m_known q' = m_known q \<and> m_limit q' = m_limit q \<and> m_futureLimit q' = m_futureLimit q"
proof (induction ft arbitrary: nonce q)
  case Nil
  then show ?case by (intro exI [of _ "[]"]) simp
next
  case (Cons e ft)
  obtain n t where e: "e = (n, t)" by (cases e)
  show ?case
  proof (cases "t_nonce t = nonce")
    case False
    then show ?thesis using Cons.prems(1) by (intro exI [of _ "[]"] exI [of _ "e # ft"] exI [of _ q]) (simp add: e)
  next
    case True
    have t: "tx_ok P t" "fromTx P t = a" using Cons.prems(2) [of n t] by (simp_all add: e)
    have new: "differ P t u" if "u \<in> waits q" for u
      using Cons.prems(4) [of t u] Cons.prems(5) that by (auto simp: e)
    obtain k where k: "enterCurrent P a t q = Inr (m_nextIterator q, entered P t k q)"
      using enter_runs [OF env Cons.prems(1) t(1)] unfolding t(2) by blast
    let ?r = "(indexed (hashOf P t) (m_nextIterator q) (entered P t k q))\<lparr>m_futureSize := m_futureSize q - 1\<rparr>"
    have cur: "cur_ok P ?r" and w: "waits ?r = insert t (waits q)"
      using entered_cur_ok [OF Cons.prems(1) t(1) new] entered_waits
      by (subst cur_ok_cong [where q = "indexed (hashOf P t) (m_nextIterator q) (entered P t k q)"], simp_all)+
    have step: "promote P a nonce (e # ft) q = promote P a (nonce + 1) ft ?r"
      by (simp add: e True k hashTx_ok [OF t(1)] indexed_def)
    have "\<exists>moved rest q'. promote P a (nonce + 1) ft ?r = Inr (rest, q') \<and> ft = moved @ rest \<and> cur_ok P q' \<and>
      waits q' = waits ?r \<union> snd ` set moved \<and> length (m_current q') = length (m_current ?r) + length moved \<and>
      m_futureSize q' = m_futureSize ?r - word_of_nat (length moved) \<and>
      m_future q' = m_future ?r \<and> m_known q' = m_known ?r \<and> m_limit q' = m_limit ?r \<and> m_futureLimit q' = m_futureLimit ?r"
    proof (rule Cons.IH [OF cur])
      show "tx_ok P u \<and> fromTx P u = a" if "(m, u) \<in> set ft" for m u using Cons.prems(2) [of m u] that by simp
      show "distinct (map snd ft)" using Cons.prems(3) by simp
      show "differ P u v" if "u \<in> snd ` set ft" "v \<in> waits ?r \<union> snd ` set ft" "u \<noteq> v" for u v
        using Cons.prems(4) [of u v] that unfolding w by (auto simp: e)
      show "waits ?r \<inter> snd ` set ft = {}" using Cons.prems(3,5) unfolding w by (auto simp: e)
    qed
    then obtain moved rest q' where p: "promote P a (nonce + 1) ft ?r = Inr (rest, q')" "ft = moved @ rest" "cur_ok P q'"
      "waits q' = waits ?r \<union> snd ` set moved" "length (m_current q') = length (m_current ?r) + length moved"
      "m_futureSize q' = m_futureSize ?r - word_of_nat (length moved)"
      "m_future q' = m_future ?r \<and> m_known q' = m_known ?r \<and> m_limit q' = m_limit ?r \<and> m_futureLimit q' = m_futureLimit ?r"
      by blast
    show ?thesis unfolding step
      by (rule exI [of _ "e # moved"], rule exI [of _ rest], rule exI [of _ q'])
        (use p w in \<open>simp add: e entered_length [of "hashOf P t" "m_nextIterator q" P t k q, simplified]\<close>)
  qed
qed

subsection \<open>Removing\<close>

definition removed :: "queue_env \<Rightarrow> nat \<Rightarrow> Transaction \<Rightarrow> queue \<Rightarrow> queue" where
  "removed P i t q =
     (putByNonce (fromTx P t) (sm_erase (t_nonce t) (byNonce q (fromTx P t))) (eraseCurrent i q))
       \<lparr>m_currentByHash := (m_currentByHash q)(hashOf P t := None), m_known := m_known q - {hashOf P t}\<rparr>"

lemma removed_fields [simp]:
  "m_future (removed P i t q) = m_future q" "m_futureSize (removed P i t q) = m_futureSize q"
  "m_known (removed P i t q) = m_known q - {hashOf P t}" "m_limit (removed P i t q) = m_limit q"
  "m_futureLimit (removed P i t q) = m_futureLimit q"
  "m_current (removed P i t q) = filter (\<lambda>e. fst e \<noteq> i) (m_current q)" "m_nextIterator (removed P i t q) = m_nextIterator q"
  "m_currentByHash (removed P i t q) = (m_currentByHash q)(hashOf P t := None)"
  by (simp_all add: removed_def putByNonce_def eraseCurrent_def)

lemma byNonce_removed:
  "byNonce (removed P i t q) b = (if b = fromTx P t then sm_erase (t_nonce t) (byNonce q b) else byNonce q b)"
  by (simp add: removed_def putByNonce_def eraseCurrent_def byNonce_def)

lemma cur_unique:
  assumes "cur_ok P q" "(i, t) \<in> set (m_current q)"
  shows "(i, u) \<in> set (m_current q) \<Longrightarrow> u = t" "(j, u) \<in> set (m_current q) \<Longrightarrow> hashOf P u = hashOf P t \<Longrightarrow> j = i"
    "(j, u) \<in> set (m_current q) \<Longrightarrow> fromTx P u = fromTx P t \<Longrightarrow> t_nonce u = t_nonce t \<Longrightarrow> j = i"
proof -
  show "(i, u) \<in> set (m_current q) \<Longrightarrow> u = t"
    using assms by (auto simp: cur_ok_def dest: eq_key_imp_eq_value)
  have H: "\<And>h j. m_currentByHash q h = Some j \<longleftrightarrow> (\<exists>u. (j, u) \<in> set (m_current q) \<and> hashOf P u = h)"
    using assms(1) by (simp add: cur_ok_def)
  show "j = i" if "(j, u) \<in> set (m_current q)" "hashOf P u = hashOf P t"
    using H [of "hashOf P t" i] H [of "hashOf P t" j] assms(2) that by (metis option.inject)
  have B: "\<And>a n v. (n, v) \<in> set (byNonce q a) \<longleftrightarrow> (\<exists>i u. v = Some i \<and> (i, u) \<in> set (m_current q) \<and> fromTx P u = a \<and> t_nonce u = n)"
    and S: "\<And>a. sm_ok (byNonce q a)"
    using assms(1) unfolding cur_ok_def by blast+
  show "j = i" if "(j, u) \<in> set (m_current q)" "fromTx P u = fromTx P t" "t_nonce u = t_nonce t"
  proof -
    have "(t_nonce t, Some i) \<in> set (byNonce q (fromTx P t))" "(t_nonce t, Some j) \<in> set (byNonce q (fromTx P t))"
      using that assms(2) unfolding B by blast+
    from eq_key_imp_eq_value [OF sm_ok_distinct [OF S] this] show ?thesis by simp
  qed
qed

lemma removed_set:
  assumes "cur_ok P q" "(i, t) \<in> set (m_current q)"
  shows "set (m_current (removed P i t q)) = set (m_current q) - {(i, t)}"
proof -
  have "fst e \<noteq> i \<longleftrightarrow> e \<noteq> (i, t)" if "e \<in> set (m_current q)" for e
  proof (cases e)
    case (Pair j u)
    then show ?thesis using cur_unique(1) [OF assms, of u] that by (cases "j = i") auto
  qed
  then show ?thesis by auto
qed

lemma removed_waits:
  assumes "cur_ok P q" "(i, t) \<in> set (m_current q)"
  shows "waits (removed P i t q) = waits q - {t}"
proof -
  have "u \<noteq> t" if "(j, u) \<in> set (m_current q) - {(i, t)}" for j u
    using that cur_unique(2) [OF assms, of j u] by auto
  then show ?thesis unfolding waits_def removed_set [OF assms] by force
qed

lemma removed_cur_ok:
  assumes cur: "cur_ok P q" and it: "(i, t) \<in> set (m_current q)"
  shows "cur_ok P (removed P i t q)" (is "cur_ok P ?r")
proof -
  let ?a = "fromTx P t" and ?n = "t_nonce t"
  note W = removed_set [OF cur it]
  have H: "\<And>h j. m_currentByHash q h = Some j \<longleftrightarrow> (\<exists>u. (j, u) \<in> set (m_current q) \<and> hashOf P u = h)"
    and B: "\<And>a n v. (n, v) \<in> set (byNonce q a) \<longleftrightarrow> (\<exists>i u. v = Some i \<and> (i, u) \<in> set (m_current q) \<and> fromTx P u = a \<and> t_nonce u = n)"
    and S: "\<And>a. sm_ok (byNonce q a)" "\<And>a. m_currentByAddressAndNonce q a \<noteq> Some []"
    and d: "distinct (map fst (m_current q))"
    and ids: "\<forall>e\<in>set (m_current q). fst e < m_nextIterator q \<and> tx_ok P (snd e)"
    using cur unfolding cur_ok_def by blast+
  have d': "distinct (map fst (m_current ?r))" using distinct_map_filter [OF d] by simp
  have ids': "\<forall>e\<in>set (m_current ?r). fst e < m_nextIterator ?r \<and> tx_ok P (snd e)" using ids by simp
  have h: "m_currentByHash ?r h = Some j \<longleftrightarrow> (\<exists>u. (j, u) \<in> set (m_current ?r) \<and> hashOf P u = h)" for h j
  proof (cases "h = hashOf P t")
    case True
    have "\<not> (\<exists>u. (j, u) \<in> set (m_current ?r) \<and> hashOf P u = h)"
      unfolding W True using cur_unique(1,2) [OF cur it] by blast
    then show ?thesis using True by simp
  next
    case False
    then have "(\<exists>u. (j, u) \<in> set (m_current ?r) \<and> hashOf P u = h) \<longleftrightarrow> (\<exists>u. (j, u) \<in> set (m_current q) \<and> hashOf P u = h)"
      unfolding W by blast
    with False show ?thesis by (simp add: H)
  qed
  have s: "sm_ok (byNonce ?r b)" for b by (simp add: byNonce_removed S(1) sm_erase_ok)
  have e: "m_currentByAddressAndNonce ?r b \<noteq> Some []" for b
    using S(2) [of b] by (simp add: removed_def putByNonce_def eraseCurrent_def)
  have b: "(n, v) \<in> set (byNonce ?r b) \<longleftrightarrow> (\<exists>j u. v = Some j \<and> (j, u) \<in> set (m_current ?r) \<and> fromTx P u = b \<and> t_nonce u = n)" for n v b
  proof -
    have "(n, v) \<in> set (byNonce ?r b) \<longleftrightarrow> (n, v) \<in> set (byNonce q b) \<and> \<not> (b = ?a \<and> n = ?n)"
      by (simp add: byNonce_removed sm_erase_set)
    also have "\<dots> \<longleftrightarrow> (\<exists>j u. v = Some j \<and> (j, u) \<in> set (m_current ?r) \<and> fromTx P u = b \<and> t_nonce u = n)"
      unfolding B W using cur_unique(1,3) [OF cur it] by blast
    finally show ?thesis .
  qed
  show ?thesis unfolding cur_ok_def using d' ids' h s e b by blast
qed

lemma remove_runs:
  assumes cur: "cur_ok P q" and i: "m_currentByHash q h = Some i"
  obtains t where "(i, t) \<in> set (m_current q)" "hashOf P t = h" "removeTx P h q = Inr (True, removed P i t q)"
proof -
  obtain t where t: "(i, t) \<in> set (m_current q)" "hashOf P t = h" using cur i unfolding cur_ok_def by blast
  have "(t_nonce t, Some i) \<in> set (byNonce q (fromTx P t))" using cur t unfolding cur_ok_def by blast
  then obtain m where m: "m_currentByAddressAndNonce q (fromTx P t) = Some m" "byNonce q (fromTx P t) = m"
    by (cases "m_currentByAddressAndNonce q (fromTx P t)") (auto simp: byNonce_def)
  have "removeTx P h q = Inr (True, removed P i t q)"
    by (simp add: removeTx_def i cur_deref [OF cur t(1)] m removed_def Let_def t(2) putByNonce_def eraseCurrent_def)
  with t that show thesis by blast
qed

text \<open>What no operation touches, and how much of the queue an operation keeps.\<close>

definition frame :: "queue \<Rightarrow> queue \<Rightarrow> bool" where
  "frame q q' \<longleftrightarrow> m_limit q' = m_limit q \<and> m_futureLimit q' = m_futureLimit q"

definition total :: "queue \<Rightarrow> nat" where
  "total q = length (m_current q) + futureCount q"

lemma later_cong: "m_future q' = m_future q \<Longrightarrow> futureOf q' = futureOf q \<and> later q' = later q \<and> futureCount q' = futureCount q"
  by (simp add: futureOf_def [abs_def] later_def futureCount_def)

lemma fut_ok_cong: "m_future q' = m_future q \<Longrightarrow> m_futureSize q' = m_futureSize q \<Longrightarrow> fut_ok P q' = fut_ok P q"
  using later_cong [of q' q] by (simp add: fut_ok_def)

lemma apart_sub:
  assumes "apart P q" "waits q' \<union> later q' \<subseteq> waits q \<union> later q" "waits q' \<inter> later q' = {}"
  shows "apart P q'"
proof -
  have "differ P t u" if "t \<in> waits q' \<union> later q'" "u \<in> waits q' \<union> later q'" "t \<noteq> u" for t u
  proof -
    have "t \<in> waits q \<union> later q" "u \<in> waits q \<union> later q" using assms(2) that by blast+
    then show ?thesis using assms(1) that(3) unfolding apart_def by blast
  qed
  then show ?thesis using assms(3) unfolding apart_def by blast
qed

lemma removed_ok:
  assumes ok: "queue_ok P q" and it: "(i, t) \<in> set (m_current q)"
  shows "queue_ok P (removed P i t q)" "later (removed P i t q) = later q"
    "futureCount (removed P i t q) = futureCount q" "length (m_current (removed P i t q)) + 1 = length (m_current q)"
proof -
  let ?r = "removed P i t q"
  have cur: "cur_ok P q" and fut: "fut_ok P q" and ap: "apart P q" and kn: "known_ok P q"
    using ok by (simp_all add: queue_ok_def core_ok_def)
  note W = removed_waits [OF cur it]
  show L: "later ?r = later q" "futureCount ?r = futureCount q" using later_cong [of ?r q] by simp_all
  have "fut_ok P ?r" using fut fut_ok_cong [of ?r q P] by simp
  moreover have "apart P ?r" by (rule apart_sub [OF ap]) (use ap in \<open>auto simp: W L apart_def\<close>)
  moreover have "known_ok P ?r"
  proof -
    have t: "t \<in> waits q" using it by (force simp: waits_def)
    have "hashOf P u \<noteq> hashOf P t" if "u \<in> waits ?r \<union> later ?r" for u
    proof -
      have "u \<in> waits q \<union> later q" "u \<noteq> t" using that t ap by (auto simp: W L apart_def)
      then show ?thesis using ap t unfolding apart_def differ_def by blast
    qed
    moreover have "hashOf P u \<in> m_known q" if "u \<in> waits ?r \<union> later ?r" for u
      using that kn by (auto simp: W L known_ok_def)
    ultimately show ?thesis by (auto simp: known_ok_def)
  qed
  ultimately show "queue_ok P ?r" using removed_cur_ok [OF cur it] by (simp add: queue_ok_def core_ok_def)
  have d: "distinct (map fst (m_current q))" using cur by (simp add: cur_ok_def)
  have "set (m_current ?r) = set (m_current q) - {(i, t)}" by (rule removed_set [OF cur it])
  moreover have "distinct (m_current ?r)" "distinct (m_current q)" using d by (simp_all add: distinct_map)
  ultimately have "length (m_current ?r) = card (set (m_current q) - {(i, t)})" "length (m_current q) = card (set (m_current q))"
    by (metis distinct_card)+
  then show "length (m_current ?r) + 1 = length (m_current q)"
    using it card_Suc_Diff1 [of "set (m_current q)" "(i, t)"] by simp
qed

lemma remove_ok:
  assumes ok: "queue_ok P q"
  obtains (absent) "m_currentByHash q h = None" "removeTx P h q = Inr (False, q)"
  | (present) i t where "(i, t) \<in> set (m_current q)" "hashOf P t = h" "removeTx P h q = Inr (True, removed P i t q)"
      "queue_ok P (removed P i t q)" "total (removed P i t q) + 1 = total q"
proof (cases "m_currentByHash q h")
  case None
  then show thesis using absent by (simp add: removeTx_def)
next
  case (Some i)
  have "cur_ok P q" using ok by (simp add: queue_ok_def core_ok_def)
  from remove_runs [OF this Some] obtain t where t: "(i, t) \<in> set (m_current q)" "hashOf P t = h"
    "removeTx P h q = Inr (True, removed P i t q)" .
  show thesis using present [OF t] removed_ok [OF ok t(1)] by (simp add: total_def)
qed

lemma frame_removed [simp]: "frame q (removed P i t q)"
  by (simp add: frame_def)

lemma frame_trans: "frame q q' \<Longrightarrow> frame q' q'' \<Longrightarrow> frame q q''"
  by (simp add: frame_def)

lemma trimCurrent_ok:
  "queue_ok P q \<Longrightarrow> k \<le> length (m_current q) \<Longrightarrow>
     \<exists>q'. trimCurrent k P q = Inr q' \<and> queue_ok P q' \<and> m_future q' = m_future q \<and> frame q q' \<and>
       length (m_current q') + k = length (m_current q)"
proof (induction k arbitrary: q)
  case 0
  then show ?case by (simp add: frame_def)
next
  case (Suc k)
  have cur: "cur_ok P q" using Suc.prems(1) by (simp add: queue_ok_def core_ok_def)
  obtain i t where it: "last (m_current q) = (i, t)" by (cases "last (m_current q)")
  have mem: "(i, t) \<in> set (m_current q)" using it Suc.prems(2) last_in_set [of "m_current q"] by fastforce
  have t: "tx_ok P t" and h: "m_currentByHash q (hashOf P t) = Some i" using cur mem unfolding cur_ok_def by auto
  obtain u where u: "(i, u) \<in> set (m_current q)" "removeTx P (hashOf P t) q = Inr (True, removed P i u q)"
    using remove_runs [OF cur h] by blast
  have step: "trimCurrent (Suc k) P q = trimCurrent k P (removed P i u q)"
    by (simp add: it hashTx_ok [OF t] u(2))
  have r: "queue_ok P (removed P i u q)" "length (m_current (removed P i u q)) + 1 = length (m_current q)"
    by (rule removed_ok [OF Suc.prems(1) u(1)])+
  then have "k \<le> length (m_current (removed P i u q))" using Suc.prems(2) by linarith
  from Suc.IH [OF r(1) this] obtain q' where q': "trimCurrent k P (removed P i u q) = Inr q'" "queue_ok P q'"
    "m_future q' = m_future q" "frame (removed P i u q) q'" "length (m_current q') + k = length (m_current (removed P i u q))"
    by auto
  show ?case unfolding step using q' r(2) frame_trans [OF frame_removed q'(4)] by (intro exI [of _ q']) linarith
qed

subsection \<open>The future transactions\<close>

lemma fut_shrink:
  assumes fut: "fut_ok P q" and F: "m_future q' = (m_future q)(a := if m = [] then None else Some m)"
    and m: "sm_ok m" "set m \<subseteq> set (futureOf q a)" "length m + k = length (futureOf q a)"
    and size: "m_futureSize q' = m_futureSize q - word_of_nat k"
  shows "fut_ok P q'" "futureCount q' + k = futureCount q"
    "u \<in> later q' \<longleftrightarrow> u \<in> later q \<and> (fromTx P u = a \<longrightarrow> u \<in> snd ` set m)"
proof -
  have f: "futureOf q' b = (if b = a then m else futureOf q b)" for b by (simp add: futureOf_def F)
  have "futureCount q = length (futureOf q a) + (\<Sum>b\<in>UNIV - {a}. length (futureOf q b))"
    unfolding futureCount_def by (rule sum.remove) simp_all
  moreover have "futureCount q' = length (futureOf q' a) + (\<Sum>b\<in>UNIV - {a}. length (futureOf q' b))"
    unfolding futureCount_def by (rule sum.remove) simp_all
  moreover have "(\<Sum>b\<in>UNIV - {a}. length (futureOf q' b)) = (\<Sum>b\<in>UNIV - {a}. length (futureOf q b))"
    by (rule sum.cong) (simp_all add: f)
  ultimately show count: "futureCount q' + k = futureCount q" using m(3) by (simp add: f)
  have E: "\<And>b n t. (n, t) \<in> set (futureOf q b) \<Longrightarrow> tx_ok P t \<and> fromTx P t = b \<and> t_nonce t = n"
    and S: "\<And>b. sm_ok (futureOf q b)" "\<And>b. m_future q b \<noteq> Some []" and n: "m_futureSize q = word_of_nat (futureCount q)"
    using fut by (simp_all add: fut_ok_def)
  have "m_futureSize q' = word_of_nat (futureCount q')"
    unfolding size n count [symmetric] by (simp add: of_nat_add)
  moreover have "sm_ok (futureOf q' b)" "m_future q' b \<noteq> Some []" for b using S m(1) by (simp_all add: f F)
  moreover have "tx_ok P t \<and> fromTx P t = b \<and> t_nonce t = n" if "(n, t) \<in> set (futureOf q' b)" for b n t
    using E [of n t b] m(2) that by (auto simp: f split: if_splits)
  ultimately show "fut_ok P q'" by (simp add: fut_ok_def)
  show "u \<in> later q' \<longleftrightarrow> u \<in> later q \<and> (fromTx P u = a \<longrightarrow> u \<in> snd ` set m)"
  proof
    assume "u \<in> later q'"
    then obtain b n where b: "(n, u) \<in> set (futureOf q' b)" by (auto simp: later_def)
    then have "(n, u) \<in> set (futureOf q b)" using m(2) by (auto simp: f split: if_splits)
    then show "u \<in> later q \<and> (fromTx P u = a \<longrightarrow> u \<in> snd ` set m)"
      using E [of n u b] b by (force simp: later_def f)
  next
    assume u: "u \<in> later q \<and> (fromTx P u = a \<longrightarrow> u \<in> snd ` set m)"
    then obtain b n where b: "(n, u) \<in> set (futureOf q b)" by (auto simp: later_def)
    then have "u \<in> snd ` set (futureOf q' b)" using E [of n u b] u by (force simp: f)
    then show "u \<in> later q'" unfolding later_def by blast
  qed
qed

lemma putFuture_fields [simp]:
  "m_future (putFuture a m q) = (m_future q)(a := if m = [] then None else Some m)" "m_futureSize (putFuture a m q) = m_futureSize q"
  "m_known (putFuture a m q) = m_known q" "m_limit (putFuture a m q) = m_limit q" "m_futureLimit (putFuture a m q) = m_futureLimit q"
  "m_current (putFuture a m q) = m_current q" "m_nextIterator (putFuture a m q) = m_nextIterator q"
  "m_currentByHash (putFuture a m q) = m_currentByHash q" "m_currentByAddressAndNonce (putFuture a m q) = m_currentByAddressAndNonce q"
  by (simp_all add: putFuture_def)

lemma core_shrink:
  assumes core: "core_ok P q" and F: "m_future q' = (m_future q)(a := if m = [] then None else Some m)"
    and m: "sm_ok m" "set m \<subseteq> set (futureOf q a)" "length m + k = length (futureOf q a)"
    and size: "m_futureSize q' = m_futureSize q - word_of_nat k"
    and same: "m_current q' = m_current q" "m_nextIterator q' = m_nextIterator q" "m_currentByHash q' = m_currentByHash q"
      "m_currentByAddressAndNonce q' = m_currentByAddressAndNonce q"
  shows "core_ok P q'" "waits q' = waits q" "later q' \<subseteq> later q" "total q' + k = total q"
proof -
  have cur: "cur_ok P q" and fut: "fut_ok P q" and ap: "apart P q" using core by (simp_all add: core_ok_def)
  show w: "waits q' = waits q" by (rule cur_ok_cong(2) [OF same])
  show l: "later q' \<subseteq> later q" using fut_shrink(3) [OF fut F m size] by blast
  have "apart P q'" by (rule apart_sub [OF ap]) (use l ap in \<open>auto simp: w apart_def\<close>)
  then show "core_ok P q'" using fut_shrink(1) [OF fut F m size] cur cur_ok_cong(1) [OF same] by (simp add: core_ok_def)
  show "total q' + k = total q" using fut_shrink(2) [OF fut F m size] by (simp add: total_def same)
qed

lemma sm_butlast: "sm_ok m \<Longrightarrow> sm_ok (butlast m)"
proof (cases "m = []")
  case False
  assume "sm_ok m"
  then have "sorted_wrt (<) (map fst (butlast m @ [last m]))" using False by (simp add: sm_ok_def)
  then show ?thesis by (simp add: sm_ok_def sorted_wrt_append)
qed simp

lemma dropFutureEnd_ok:
  assumes env: "env_ok P" and core: "core_ok P q" and some: "m_futureSize q \<noteq> 0"
  obtains q' where "dropFutureEnd P q = Inr q'" "core_ok P q'" "waits q' = waits q" "later q' \<subseteq> later q" "total q' + 1 = total q"
    "m_futureSize q' = m_futureSize q - 1" "m_known q' = m_known q" "frame q q'" "m_current q' = m_current q"
proof -
  have fut: "fut_ok P q" using core by (simp add: core_ok_def)
  then have "m_futureSize q = word_of_nat (futureCount q)" by (simp add: fut_ok_def)
  then have "futureCount q \<noteq> 0" using some by (cases "futureCount q = 0") simp_all
  then obtain b where "length (futureOf q b) \<noteq> 0"
    unfolding futureCount_def by (meson sum.not_neutral_contains_not_neutral)
  then have "m_future q \<noteq> Map.empty" by (auto simp: futureOf_def)
  then have "m_future q (q_begin P (m_future q)) \<noteq> None" using env by (simp add: env_ok_def)
  then obtain m where "m_future q (q_begin P (m_future q)) = Some m" by auto
  then obtain a where a: "a = q_begin P (m_future q)" "m_future q a = Some m" by simp
  have f: "futureOf q a = m" using a by (simp add: futureOf_def)
  have m: "m \<noteq> []" "sm_ok m" using fut a(2) unfolding fut_ok_def f [symmetric] by metis+
  let ?q = "putFuture a (butlast m) (q\<lparr>m_futureSize := m_futureSize q - 1\<rparr>)"
  have run: "dropFutureEnd P q = Inr ?q" using m(1) by (cases m) (simp_all add: dropFutureEnd_def a(1) [symmetric] a(2) Let_def)
  have sub: "set (butlast m) \<subseteq> set (futureOf q a)" unfolding f by (auto dest: in_set_butlastD)
  have len: "length (butlast m) + 1 = length (futureOf q a)" unfolding f using m(1) by (cases m) simp_all
  have F: "m_future ?q = (m_future q)(a := if butlast m = [] then None else Some (butlast m))"
    "m_futureSize ?q = m_futureSize q - word_of_nat 1" by simp_all
  have same: "m_current ?q = m_current q" "m_nextIterator ?q = m_nextIterator q" "m_currentByHash ?q = m_currentByHash q"
    "m_currentByAddressAndNonce ?q = m_currentByAddressAndNonce q" by simp_all
  note s = core_shrink [OF core F(1) sm_butlast [OF m(2)] sub len F(2) same]
  show thesis by (rule that [OF run s]) (simp_all add: frame_def)
qed

lemma trimFuture_ok:
  assumes env: "env_ok P"
  shows "core_ok P q \<Longrightarrow> k \<le> unat (m_futureSize q) \<Longrightarrow>
    \<exists>q'. trimFuture k P q = Inr q' \<and> core_ok P q' \<and> waits q' = waits q \<and> later q' \<subseteq> later q \<and> total q' + k = total q \<and>
      unat (m_futureSize q') + k = unat (m_futureSize q) \<and> m_known q' = m_known q \<and> frame q q' \<and> m_current q' = m_current q"
proof (induction k arbitrary: q)
  case 0
  then show ?case by (simp add: frame_def)
next
  case (Suc k)
  have "m_futureSize q \<noteq> 0" using Suc.prems(2) by auto
  from dropFutureEnd_ok [OF env Suc.prems(1) this] obtain q1 where q1: "dropFutureEnd P q = Inr q1" "core_ok P q1"
    "waits q1 = waits q" "later q1 \<subseteq> later q" "total q1 + 1 = total q" "m_futureSize q1 = m_futureSize q - 1"
    "m_known q1 = m_known q" "frame q q1" "m_current q1 = m_current q" .
  have u: "unat (m_futureSize q1) + 1 = unat (m_futureSize q)"
    using \<open>m_futureSize q \<noteq> 0\<close> unfolding q1(6) by (simp add: unat_minus_one unat_gt_0 word_neq_0_conv)
  then have "k \<le> unat (m_futureSize q1)" using Suc.prems(2) by simp
  from Suc.IH [OF q1(2) this] obtain q' where q': "trimFuture k P q1 = Inr q'" "core_ok P q'"
    "waits q' = waits q1" "later q' \<subseteq> later q1" "total q' + k = total q1" "unat (m_futureSize q') + k = unat (m_futureSize q1)"
    "m_known q' = m_known q1" "frame q1 q'" "m_current q' = m_current q1" by blast
  have "trimFuture (Suc k) P q = Inr q'" using q1(1) q'(1) by simp
  moreover have "later q' \<subseteq> later q" using q1(4) q'(4) by blast
  moreover have "total q' + Suc k = total q" "unat (m_futureSize q') + Suc k = unat (m_futureSize q)"
    using q1(5) q'(5,6) u by linarith+
  ultimately show ?case using q1(3,7,9) q'(2,3,7,9) frame_trans [OF q1(8) q'(8)] by (intro exI [of _ q']) simp
qed

text \<open>The part of \<open>makeCurrent\<close> before the trimming.\<close>

definition promoteAll :: "queue_env \<Rightarrow> Transaction \<Rightarrow> queue \<Rightarrow> (bool \<times> queue) q_result" where
  "promoteAll P t q =
     (let a = fromTx P t; nonce = t_nonce t + 1 in
      case m_future q a of
        None \<Rightarrow> Inr (False, q)
      | Some m \<Rightarrow>
          if map_of m nonce = None then Inr (False, q)
          else andThen (promote P a nonce (sm_from nonce m) q) (\<lambda>(rest, q). Inr (True, putFuture a (sm_below nonce m @ rest) q)))"

lemma makeCurrent_parts:
  "makeCurrent P t q =
     andThen (promoteAll P t q) (\<lambda>(newCurrent, q).
     andThen (trimFuture (unat (m_futureSize q) - unat (m_futureLimit q)) P q) (\<lambda>q.
     Inr (if newCurrent then signal Ready q else q)))"
  by (simp add: makeCurrent_def promoteAll_def Let_def)

lemma promoteAll_ok:
  assumes env: "env_ok P" and core: "core_ok P q"
  obtains n q' where "promoteAll P t q = Inr (n, q')" "core_ok P q'" "waits q \<subseteq> waits q'"
    "waits q' \<union> later q' \<subseteq> waits q \<union> later q" "total q' = total q" "m_known q' = m_known q" "frame q q'"
    "length (m_current q) \<le> length (m_current q')"
proof (cases "\<exists>m. m_future q (fromTx P t) = Some m \<and> map_of m (t_nonce t + 1) \<noteq> None")
  case False
  then have "promoteAll P t q = Inr (False, q)" by (cases "m_future q (fromTx P t)") (simp_all add: promoteAll_def Let_def)
  then show thesis using that [of False q] core by (simp add: frame_def)
next
  case True
  let ?a = "fromTx P t" and ?n = "t_nonce t + 1"
  obtain m where m: "m_future q ?a = Some m" "map_of m ?n \<noteq> None" using True by blast
  have f: "futureOf q ?a = m" using m by (simp add: futureOf_def)
  have cur: "cur_ok P q" and fut: "fut_ok P q" and ap: "apart P q" using core by (simp_all add: core_ok_def)
  have sm: "sm_ok m" and E: "\<And>n u. (n, u) \<in> set m \<Longrightarrow> tx_ok P u \<and> fromTx P u = ?a \<and> t_nonce u = n"
    using fut unfolding fut_ok_def f [symmetric] by blast+
  note below = sm_below_from [OF sm, of ?n]
  have split: "m = sm_below ?n m @ sm_from ?n m" by (rule sm_split [symmetric])
  have inj: "t_nonce (snd e) = fst e" if "e \<in> set m" for e using E [of "fst e" "snd e"] that by simp
  have "map fst m = map t_nonce (map snd m)" using inj by simp
  then have dm: "distinct (map snd m)" using sm_ok_distinct [OF sm] by (metis distinct_map)
  then have ds: "distinct (map snd (sm_below ?n m @ sm_from ?n m))" unfolding sm_split .
  have ml: "snd ` set m \<subseteq> later q" unfolding f [symmetric] later_def by blast
  have sub: "set (sm_from ?n m) \<subseteq> set m" using below(2) by blast
  have "\<exists>moved rest q'. promote P ?a ?n (sm_from ?n m) q = Inr (rest, q') \<and> sm_from ?n m = moved @ rest \<and> cur_ok P q' \<and>
      waits q' = waits q \<union> snd ` set moved \<and> length (m_current q') = length (m_current q) + length moved \<and>
      m_futureSize q' = m_futureSize q - word_of_nat (length moved) \<and>
      m_future q' = m_future q \<and> m_known q' = m_known q \<and> m_limit q' = m_limit q \<and> m_futureLimit q' = m_futureLimit q"
  proof (rule promote_ok [OF env cur])
    show "tx_ok P u \<and> fromTx P u = ?a" if "(n, u) \<in> set (sm_from ?n m)" for n u using E [of n u] sub that by blast
    show "distinct (map snd (sm_from ?n m))" using ds by simp
    show "differ P u v" if "u \<in> snd ` set (sm_from ?n m)" "v \<in> waits q \<union> snd ` set (sm_from ?n m)" "u \<noteq> v" for u v
    proof -
      have "u \<in> later q" "v \<in> waits q \<union> later q" using that ml sub by blast+
      then show ?thesis using ap that(3) unfolding apart_def by blast
    qed
    show "waits q \<inter> snd ` set (sm_from ?n m) = {}" using ap ml sub unfolding apart_def by blast
  qed
  then obtain moved rest q1 where p: "promote P ?a ?n (sm_from ?n m) q = Inr (rest, q1)" "sm_from ?n m = moved @ rest" "cur_ok P q1"
      "waits q1 = waits q \<union> snd ` set moved" "length (m_current q1) = length (m_current q) + length moved"
      "m_futureSize q1 = m_futureSize q - word_of_nat (length moved)"
      "m_future q1 = m_future q" "m_known q1 = m_known q" "m_limit q1 = m_limit q" "m_futureLimit q1 = m_futureLimit q"
    by blast
  let ?m = "sm_below ?n m @ rest" and ?q = "putFuture ?a (sm_below ?n m @ rest) q1"
  have all: "m = sm_below ?n m @ moved @ rest" using split p(2) by simp
  have run: "promoteAll P t q = Inr (True, ?q)" using m by (auto simp: promoteAll_def Let_def p(1))
  have sm': "sm_ok ?m" using sm using arg_cong [OF all, of sm_ok] by (simp add: sm_ok_def sorted_wrt_append)
  have F: "m_future ?q = (m_future q)(?a := if ?m = [] then None else Some ?m)" by (simp add: p(7))
  have size: "m_futureSize ?q = m_futureSize q - word_of_nat (length moved)" by (simp add: p(6))
  have set: "set ?m \<subseteq> set (futureOf q ?a)" unfolding f using arg_cong [OF all, of set] by auto
  have len: "length ?m + length moved = length (futureOf q ?a)" unfolding f using arg_cong [OF all, of length] by simp
  note shrink = fut_shrink [OF fut F sm' set len size]
  have w: "waits ?q = waits q \<union> snd ` set moved" using p(4) by (simp add: waits_def)
  have mv: "snd ` set moved \<subseteq> later q" using ml arg_cong [OF all, of set] by auto
  have l: "later ?q \<subseteq> later q" using shrink(3) by blast
  have disj: "waits ?q \<inter> later ?q = {}"
  proof -
    have "u \<notin> later ?q" if "u \<in> snd ` set moved" for u
    proof -
      have "u \<in> snd ` set moved" by (rule that)
      then obtain n where n: "(n, u) \<in> set moved" by auto
      have "distinct (map snd (sm_below ?n m @ moved @ rest))" using dm all by metis
      then have "u \<notin> snd ` set ?m" using n by force
      moreover have "fromTx P u = ?a" using n E [of n u] arg_cong [OF all, of set] by auto
      ultimately show ?thesis using shrink(3) by blast
    qed
    moreover have "waits q \<inter> later ?q = {}" using ap l unfolding apart_def by blast
    ultimately show ?thesis unfolding w by blast
  qed
  have incl: "waits ?q \<union> later ?q \<subseteq> waits q \<union> later q" using w mv l by blast
  have "cur_ok P ?q" using p(3) by (simp add: cur_ok_def byNonce_def)
  then have core': "core_ok P ?q" using shrink(1) apart_sub [OF ap incl disj] by (simp add: core_ok_def)
  show thesis by (rule that [OF run core' _ incl]) (use w shrink(2) p in \<open>auto simp: total_def frame_def\<close>)
qed

lemma signal_fields [simp]:
  "core_ok P (signal ev q) = core_ok P q" "queue_ok P (signal ev q) = queue_ok P q" "waits (signal ev q) = waits q"
  "later (signal ev q) = later q" "total (signal ev q) = total q" "m_futureSize (signal ev q) = m_futureSize q"
  "m_known (signal ev q) = m_known q" "m_current (signal ev q) = m_current q" "frame r (signal ev q) = frame r q"
  "m_limit (signal ev q) = m_limit q" "m_futureLimit (signal ev q) = m_futureLimit q" "futureCount (signal ev q) = futureCount q"
  by (simp_all add: signal_def core_ok_def queue_ok_def known_ok_def cur_ok_def fut_ok_def apart_def waits_def later_def byNonce_def
    futureOf_def futureCount_def total_def frame_def)

lemma makeCurrent_ok:
  assumes env: "env_ok P" and core: "core_ok P q"
  obtains q' where "makeCurrent P t q = Inr q'" "core_ok P q'" "waits q \<subseteq> waits q'"
    "waits q' \<union> later q' \<subseteq> waits q \<union> later q" "total q' \<le> total q" "m_known q' = m_known q" "frame q q'"
    "length (m_current q) \<le> length (m_current q')" "m_futureSize q' \<le> m_futureLimit q"
proof -
  from promoteAll_ok [OF env core, of t] obtain n q1 where p: "promoteAll P t q = Inr (n, q1)" "core_ok P q1" "waits q \<subseteq> waits q1"
    "waits q1 \<union> later q1 \<subseteq> waits q \<union> later q" "total q1 = total q" "m_known q1 = m_known q" "frame q q1"
    "length (m_current q) \<le> length (m_current q1)" .
  let ?k = "unat (m_futureSize q1) - unat (m_futureLimit q1)"
  from trimFuture_ok [OF env p(2), of ?k] obtain q2 where r: "trimFuture ?k P q1 = Inr q2" "core_ok P q2" "waits q2 = waits q1"
    "later q2 \<subseteq> later q1" "total q2 + ?k = total q1" "unat (m_futureSize q2) + ?k = unat (m_futureSize q1)"
    "m_known q2 = m_known q1" "frame q1 q2" "m_current q2 = m_current q1"
    by auto
  let ?q = "if n then signal Ready q2 else q2"
  have run: "makeCurrent P t q = Inr ?q" by (simp add: makeCurrent_parts p(1) r(1))
  have "unat (m_futureSize q2) \<le> unat (m_futureLimit q1)" using r(6) by linarith
  then have "m_futureSize q2 \<le> m_futureLimit q" using p(7) by (simp add: frame_def word_le_nat_alt)
  then show thesis
    by (intro that [OF run]) (use p r frame_trans [OF p(7) r(8)] in auto)
qed

subsection \<open>Importing and dropping\<close>

definition slotFree :: "queue_env \<Rightarrow> Transaction \<Rightarrow> Transaction set \<Rightarrow> bool" where
  "slotFree P t us \<longleftrightarrow> (\<forall>u\<in>us. \<not> (fromTx P u = fromTx P t \<and> t_nonce u = t_nonce t))"

lemma replaceCurrent_ok:
  assumes ok: "queue_ok P q"
  obtains b q' where "replaceCurrent P t q = Inr (b, q')" "queue_ok P q'" "m_known q' \<subseteq> m_known q" "total q' \<le> total q"
    "frame q q'" "b \<or> slotFree P t (waits q')"
proof (cases "map_of (byNonce q (fromTx P t)) (t_nonce t)")
  case None
  have cur: "cur_ok P q" using ok by (simp add: queue_ok_def core_ok_def)
  have "t_nonce t \<notin> fst ` set (byNonce q (fromTx P t))" using None by (simp add: map_of_eq_None_iff)
  then have "slotFree P t (waits q)" unfolding byNonce_waits [OF cur] slotFree_def by blast
  then show thesis using that [of False q] None ok by (simp add: replaceCurrent_def frame_def)
next
  case (Some v)
  let ?a = "fromTx P t" and ?n = "t_nonce t"
  have cur: "cur_ok P q" using ok by (simp add: queue_ok_def core_ok_def)
  have "(?n, v) \<in> set (byNonce q ?a)" using Some by (rule map_of_SomeD)
  then obtain i u where u: "v = Some i" "(i, u) \<in> set (m_current q)" "fromTx P u = ?a" "t_nonce u = ?n"
    using cur unfolding cur_ok_def by blast
  have tx: "tx_ok P u" using cur u(2) unfolding cur_ok_def by auto
  note start = replaceCurrent_def Some u(1) cur_deref [OF cur u(2)]
  show thesis
  proof (cases "t_gasPrice t < t_gasPrice u")
    case True
    then show thesis using that [of True q] ok by (simp add: start frame_def)
  next
    case False
    have h: "m_currentByHash q (hashOf P u) \<noteq> None" using byHash_waits [OF cur] u(2) by (force simp: waits_def)
    show thesis
    proof (cases rule: remove_ok [OF ok, of "hashOf P u", case_names absent present])
      case absent
      with h show thesis by simp
    next
      case (present j w)
      let ?q = "removed P j w q"
      have "j = i" "w = u" using cur_unique(2) [OF cur u(2) present(1)] cur_unique(1) [OF cur u(2), of w] present(1,2) by auto
      then have w: "waits ?q = waits q - {u}" using removed_waits [OF cur u(2)] by simp
      have "slotFree P t (waits ?q)"
      proof -
        have "x = u" if "x \<in> waits q" "fromTx P x = ?a" "t_nonce x = ?n" for x
        proof -
          obtain k where k: "(k, x) \<in> set (m_current q)" using \<open>x \<in> waits q\<close> by (auto simp: waits_def)
          then have "k = i" using cur_unique(3) [OF cur u(2)] that u(3,4) by simp
          then show ?thesis using cur_unique(1) [OF cur u(2)] k by simp
        qed
        then show ?thesis unfolding w slotFree_def by blast
      qed
      then show thesis
        using that [of False "signal (Replaced (hashOf P u)) ?q"] present False by (simp add: start hashTx_ok [OF tx] frame_def)
    qed
  qed
qed

lemma known_sub:
  assumes "known_ok P q" "waits q' \<union> later q' \<subseteq> waits q \<union> later q" "m_known q' = m_known q"
  shows "known_ok P q'"
  using assms unfolding known_ok_def by blast

lemma replaceFuture_ok:
  assumes ok: "queue_ok P q"
  obtains b q' where "replaceFuture P t q = (b, q')" "queue_ok P q'" "m_known q' = m_known q" "total q' \<le> total q"
    "frame q q'" "waits q' = waits q" "b \<or> slotFree P t (later q')"
proof -
  let ?a = "fromTx P t" and ?n = "t_nonce t"
  have core: "core_ok P q" and fut: "fut_ok P q" and kn: "known_ok P q" using ok by (simp_all add: queue_ok_def core_ok_def)
  have S: "sm_ok (futureOf q ?a)" and E: "\<And>b n u. (n, u) \<in> set (futureOf q b) \<Longrightarrow> fromTx P u = b \<and> t_nonce u = n"
    using fut unfolding fut_ok_def by blast+
  show thesis
  proof (cases "map_of (futureOf q ?a) ?n")
    case None
    then have n: "?n \<notin> fst ` set (futureOf q ?a)" by (simp add: map_of_eq_None_iff)
    have "slotFree P t (later q)"
    proof -
      have False if u: "u \<in> later q" "fromTx P u = ?a" "t_nonce u = ?n" for u
      proof -
        obtain b m where bm: "(m, u) \<in> set (futureOf q b)" using u(1) by (auto simp: later_def)
        then have "(?n, u) \<in> set (futureOf q ?a)" using E [OF bm] u by simp
        then show False using n by force
      qed
      then show ?thesis unfolding slotFree_def by blast
    qed
    moreover have "replaceFuture P t q = (False, q)" using None
      by (cases "m_future q ?a") (simp_all add: replaceFuture_def futureOf_def Let_def)
    ultimately show thesis using that [of False q] ok by (simp add: frame_def)
  next
    case (Some u)
    then have m: "m_future q ?a = Some (futureOf q ?a)" by (cases "m_future q ?a") (simp_all add: futureOf_def)
    have nu: "(?n, u) \<in> set (futureOf q ?a)" using Some by (rule map_of_SomeD)
    show thesis
    proof (cases "t_gasPrice t < t_gasPrice u")
      case True
      then show thesis using that [of True q] ok m Some by (simp add: replaceFuture_def frame_def)
    next
      case False
      let ?m = "sm_erase ?n (futureOf q ?a)"
      let ?q = "putFuture ?a ?m (q\<lparr>m_futureSize := m_futureSize q - 1\<rparr>)"
      have run: "replaceFuture P t q = (False, ?q)" using m Some False by (simp add: replaceFuture_def Let_def)
      have F: "m_future ?q = (m_future q)(?a := if ?m = [] then None else Some ?m)"
        "m_futureSize ?q = m_futureSize q - word_of_nat 1" by simp_all
      have same: "m_current ?q = m_current q" "m_nextIterator ?q = m_nextIterator q" "m_currentByHash ?q = m_currentByHash q"
        "m_currentByAddressAndNonce ?q = m_currentByAddressAndNonce q" by simp_all
      have sub: "set ?m \<subseteq> set (futureOf q ?a)" by (auto simp: sm_erase_set)
      have len: "length ?m + 1 = length (futureOf q ?a)" by (rule sm_erase_length [OF S nu])
      note s = core_shrink [OF core F(1) sm_erase_ok [OF S] sub len F(2) same]
      have "known_ok P ?q" by (rule known_sub [OF kn]) (use s(2,3) in auto)
      moreover have "slotFree P t (later ?q)"
      proof -
        have "t_nonce x \<noteq> ?n" if "x \<in> later ?q" "fromTx P x = ?a" for x
        proof -
          have "x \<in> snd ` set ?m" using fut_shrink(3) [OF fut F(1) sm_erase_ok [OF S] sub len F(2)] that by blast
          then obtain m where "(m, x) \<in> set (futureOf q ?a)" "m \<noteq> ?n" by (auto simp: sm_erase_set)
          then show ?thesis using E by blast
        qed
        then show ?thesis unfolding slotFree_def by blast
      qed
      ultimately show thesis using that [OF run] s(1,2,4) by (simp add: queue_ok_def frame_def)
    qed
  qed
qed

lemma insertCurrent_ok:
  assumes env: "env_ok P" and ok: "queue_ok P q" and t: "tx_ok P t" and new: "hashOf P t \<notin> m_known q"
    and free: "slotFree P t (waits q)" "slotFree P t (later q)"
  obtains q' where "insertCurrent P (hashOf P t) t q = Inr q'" "queue_ok P q'" "total q' \<le> total q + 1" "frame q q'"
    "m_futureSize q' \<le> m_futureLimit q" "t \<in> waits q'"
proof -
  let ?h = "hashOf P t" and ?i = "m_nextIterator q"
  have cur: "cur_ok P q" and fut: "fut_ok P q" and ap: "apart P q" and kn: "known_ok P q"
    using ok by (simp_all add: queue_ok_def core_ok_def)
  have d: "differ P t u" "differ P u t" "u \<noteq> t" if "u \<in> waits q \<union> later q" for u
  proof -
    have "hashOf P u \<in> m_known q" using kn that by (auto simp: known_ok_def)
    then have "hashOf P u \<noteq> ?h" using new by auto
    moreover have "\<not> (fromTx P u = fromTx P t \<and> t_nonce u = t_nonce t)" using free that unfolding slotFree_def by blast
    ultimately show "differ P t u" "differ P u t" "u \<noteq> t" unfolding differ_def by auto
  qed
  have none: "m_currentByHash q ?h = None" using d(1) unfolding byHash_waits [OF cur] differ_def by (metis UnI1)
  obtain k where k: "enterCurrent P (fromTx P t) t q = Inr (?i, entered P t k q)" using enter_runs [OF env cur t] by blast
  let ?q = "indexed ?h ?i (entered P t k q)"
  have w: "waits ?q = insert t (waits q)" by (rule entered_waits)
  have l: "later ?q = later q" "futureCount ?q = futureCount q" using later_cong [of ?q q] by simp_all
  have "cur_ok P ?q" by (rule entered_cur_ok [OF cur t]) (use d(1) in simp)
  moreover have "fut_ok P ?q" using fut fut_ok_cong [of ?q q] by simp
  moreover have "apart P ?q"
  proof -
    have "differ P x y" if "x \<in> insert t (waits q \<union> later q)" "y \<in> insert t (waits q \<union> later q)" "x \<noteq> y" for x y
      using that d ap unfolding apart_def by blast
    moreover have "insert t (waits q) \<inter> later q = {}" using d(3) ap unfolding apart_def by blast
    ultimately show ?thesis unfolding apart_def w l by simp
  qed
  ultimately have core: "core_ok P ?q" by (simp add: core_ok_def)
  have tot: "total ?q = total q + 1" using entered_length by (simp add: total_def l(2))
  from makeCurrent_ok [OF env core, of t] obtain q1 where q1: "makeCurrent P t ?q = Inr q1" "core_ok P q1" "waits ?q \<subseteq> waits q1"
    "waits q1 \<union> later q1 \<subseteq> waits ?q \<union> later ?q" "total q1 \<le> total ?q" "m_known q1 = m_known ?q" "frame ?q q1"
    "m_futureSize q1 \<le> m_futureLimit ?q" by metis
  let ?r = "q1\<lparr>m_known := insert ?h (m_known q1)\<rparr>"
  have run: "insertCurrent P ?h t q = Inr ?r" using q1(1) by (simp add: insertCurrent_def none k indexed_def)
  have same: "waits ?r = waits q1" "later ?r = later q1" "total ?r = total q1" "core_ok P ?r = core_ok P q1"
    by (simp_all add: waits_def later_def total_def futureCount_def futureOf_def core_ok_def cur_ok_def fut_ok_def apart_def byNonce_def)
  have "known_ok P ?r"
  proof -
    have "hashOf P u \<in> insert ?h (m_known q)" if "u \<in> waits q1 \<union> later q1" for u
    proof -
      have "u \<in> insert t (waits q \<union> later q)" using that q1(4) unfolding w l by blast
      then show ?thesis using kn unfolding known_ok_def by blast
    qed
    then show ?thesis unfolding known_ok_def same using q1(6) by auto
  qed
  then have "queue_ok P ?r" using q1(2) same by (simp add: queue_ok_def)
  then show thesis by (rule that [OF run]) (use q1 tot w same in \<open>auto simp: frame_def\<close>)
qed

text \<open>Within the limits, as after an import.\<close>

definition within :: "queue \<Rightarrow> bool" where
  "within q \<longleftrightarrow> length (m_current q) \<le> unat (m_limit q) \<and> m_futureSize q \<le> m_futureLimit q"

lemma within_cong [simp]: "within (signal ev q) = within q"
  by (simp add: within_def)

lemma manageBody_ok:
  assumes env: "env_ok P" and ok: "queue_ok P q" and t: "tx_ok P t" and new: "hashOf P t \<notin> m_known q"
  obtains r q' where "manageBody P (hashOf P t) t q = Inr (r, q')" "queue_ok P q'" "frame q q'"
    "r = OverbidGasPrice \<and> total q' \<le> total q \<or> r = ImportSuccess \<and> within q' \<and> total q' \<le> total q + 1"
proof -
  from replaceCurrent_ok [OF ok, of t] obtain b q1 where q1: "replaceCurrent P t q = Inr (b, q1)" "queue_ok P q1"
    "m_known q1 \<subseteq> m_known q" "total q1 \<le> total q" "frame q q1" "b \<or> slotFree P t (waits q1)" .
  show thesis
  proof (cases b)
    case True
    then show thesis using that [of OverbidGasPrice q1] q1 by (simp add: manageBody_def)
  next
    case False
    from replaceFuture_ok [OF q1(2), of t] obtain c q2 where q2: "replaceFuture P t q1 = (c, q2)" "queue_ok P q2"
      "m_known q2 = m_known q1" "total q2 \<le> total q1" "frame q1 q2" "waits q2 = waits q1" "c \<or> slotFree P t (later q2)" .
    show thesis
    proof (cases c)
      case True
      then show thesis
        using that [of OverbidGasPrice q2] q1 q2 False frame_trans [OF q1(5) q2(5)] by (simp add: manageBody_def)
    next
      case c: False
      have new2: "hashOf P t \<notin> m_known q2" using new q1(3) q2(3) by auto
      have free: "slotFree P t (waits q2)" "slotFree P t (later q2)" using q1(6) False q2(6,7) c by simp_all
      from insertCurrent_ok [OF env q2(2) t new2 free] obtain q3 where q3: "insertCurrent P (hashOf P t) t q2 = Inr q3" "queue_ok P q3"
        "total q3 \<le> total q2 + 1" "frame q2 q3" "m_futureSize q3 \<le> m_futureLimit q2" "t \<in> waits q3" .
      let ?k = "length (m_current q3) - unat (m_limit q3)"
      obtain q4 where q4: "trimCurrent ?k P q3 = Inr q4" "queue_ok P q4" "m_future q4 = m_future q3" "frame q3 q4"
        "length (m_current q4) + ?k = length (m_current q3)"
        using trimCurrent_ok [OF q3(2), of ?k] by auto
      let ?q = "signal Ready q4"
      have run: "manageBody P (hashOf P t) t q = Inr (ImportSuccess, ?q)"
        by (simp add: manageBody_def q1(1) q2(1) q3(1) q4(1) False c)
      have "length (m_current q4) \<le> unat (m_limit q3)" using q4(5) by linarith
      moreover have "m_futureSize q4 = m_futureSize q3"
        using q4(2,3) q3(2) later_cong [OF q4(3)] by (simp add: queue_ok_def core_ok_def fut_ok_def)
      ultimately have "within q4" using q3(4,5) q4(4) by (simp add: within_def frame_def)
      moreover have "total q4 \<le> total q + 1"
        using q4(5) later_cong [OF q4(3)] q3(3) q2(4) q1(4) by (simp add: total_def)
      ultimately show thesis
        using that [OF run] q4(2) frame_trans [OF frame_trans [OF q1(5) q2(5)] frame_trans [OF q3(4) q4(4)]] by simp
    qed
  qed
qed

text \<open>A transaction that may come in: it has a sender and a hash.\<close>

definition sound_tx :: "queue_env \<Rightarrow> Transaction \<Rightarrow> bool" where
  "sound_tx P t \<longleftrightarrow> (case tx_sha3 (q_sha3 P) t True of Inl _ \<Rightarrow> False | Inr (h, u) \<Rightarrow> hashOf P u = h \<and> tx_ok P u)"

lemma importTx_ok:
  assumes env: "env_ok P" and ok: "queue_ok P q" and t: "sound_tx P t"
  obtains r q' where "importTx P t ik q = Inr (r, q')" "queue_ok P q'" "frame q q'"
    "r \<noteq> ImportSuccess \<and> total q' \<le> total q \<or> r = ImportSuccess \<and> within q' \<and> total q' \<le> total q + 1"
proof -
  obtain u where u: "tx_sha3 (q_sha3 P) t True = Inr (hashOf P u, u)" "tx_ok P u"
    using t by (auto simp: sound_tx_def split: sum.splits)
  have here: thesis if "importTx P t ik q = Inr (r, q)" "r \<noteq> ImportSuccess" for r
    using \<open>\<And>r q'. \<lbrakk>importTx P t ik q = Inr (r, q'); queue_ok P q'; frame q q';
      r \<noteq> ImportSuccess \<and> total q' \<le> total q \<or> r = ImportSuccess \<and> within q' \<and> total q' \<le> total q + 1\<rbrakk> \<Longrightarrow> thesis\<close> [of r q] that ok
    by (simp add: frame_def)
  show thesis
  proof (cases "hasZeroSignature t \<or> check q (hashOf P u) ik \<noteq> ImportSuccess")
    case True
    then show thesis using here [of "if hasZeroSignature t then ZeroSignature else check q (hashOf P u) ik"]
      by (auto simp: importTx_def u(1) Let_def)
  next
    case False
    then have new: "hashOf P u \<notin> m_known q" by (auto simp: check_def)
    from manageBody_ok [OF env ok u(2) new] obtain r q' where q': "manageBody P (hashOf P u) u q = Inr (r, q')" "queue_ok P q'" "frame q q'"
      "r = OverbidGasPrice \<and> total q' \<le> total q \<or> r = ImportSuccess \<and> within q' \<and> total q' \<le> total q + 1" .
    have run: "importTx P t ik q = Inr (r, q')" using False by (simp add: importTx_def u(1) manageImport_def q'(1))
    show thesis by (rule that [OF run q'(2,3)]) (use q'(4) in auto)
  qed
qed

lemma dropTx_ok:
  assumes ok: "queue_ok P q"
  obtains q' where "dropTx P h q = Inr q'" "queue_ok P q'" "frame q q'" "total q' \<le> total q"
proof (cases "h \<in> m_known q")
  case False
  then show thesis using that [of q] ok by (simp add: dropTx_def frame_def)
next
  case True
  let ?q = "q\<lparr>m_dropped := insert h (m_dropped q)\<rparr>"
  have ok': "queue_ok P ?q" and tot: "total ?q = total q"
    using ok by (simp_all add: queue_ok_def core_ok_def known_ok_def cur_ok_def fut_ok_def apart_def waits_def later_def byNonce_def
      futureOf_def futureCount_def total_def)
  show thesis
  proof (cases rule: remove_ok [OF ok', of h, case_names absent present])
    case absent
    then show thesis using that [of ?q] ok' True tot by (simp add: dropTx_def frame_def)
  next
    case (present i t)
    then show thesis using that [of "removed P i t ?q"] True tot by (simp add: dropTx_def frame_def)
  qed
qed

lemma dropGood_ok:
  assumes env: "env_ok P" and ok: "queue_ok P q" and t: "tx_ok P t"
  obtains q' where "dropGood P t q = Inr q'" "queue_ok P q'" "frame q q'" "total q' \<le> total q"
proof -
  have core: "core_ok P q" and kn: "known_ok P q" using ok by (simp_all add: queue_ok_def)
  from makeCurrent_ok [OF env core, of t] obtain q1 where q1: "makeCurrent P t q = Inr q1" "core_ok P q1"
    "waits q1 \<union> later q1 \<subseteq> waits q \<union> later q" "total q1 \<le> total q" "m_known q1 = m_known q" "frame q q1" by metis
  have ok1: "queue_ok P q1" using q1(2) known_sub [OF kn q1(3,5)] by (simp add: queue_ok_def)
  have start: "dropGood P t q = (if hashOf P t \<notin> m_known q1 then Inr q1 else andThen (removeTx P (hashOf P t) q1) (\<lambda>(_, q). Inr q))"
    by (simp add: dropGood_def q1(1) hashTx_ok [OF t])
  show thesis
  proof (cases rule: remove_ok [OF ok1, of "hashOf P t", case_names absent present])
    case absent
    then show thesis using that [of q1] ok1 q1(4,6) by (simp add: start)
  next
    case (present i u)
    have "hashOf P t \<in> m_known q1 \<Longrightarrow> thesis" 
      using that [of "removed P i u q1"] present q1(4) frame_trans [OF q1(6) frame_removed] by (simp add: start)
    then show thesis using that [of q1] ok1 q1(4,6) by (cases "hashOf P t \<in> m_known q1") (simp_all add: start)
  qed
qed

subsection \<open>Putting off\<close>

abbreviation idxEntry :: "nat \<times> Transaction \<Rightarrow> u256 \<times> nat option" where
  "idxEntry e \<equiv> (t_nonce (snd e), Some (fst e))"

abbreviation futEntry :: "nat \<times> Transaction \<Rightarrow> u256 \<times> Transaction" where
  "futEntry e \<equiv> (t_nonce (snd e), snd e)"

lemma deref_entry: "distinct (map fst (m_current q)) \<Longrightarrow> e \<in> set (m_current q) \<Longrightarrow> deref (Some (fst e)) q = Inr (snd e)"
proof -
  assume "distinct (map fst (m_current q))" "e \<in> set (m_current q)"
  then have "map_of (m_current q) (fst e) = Some (snd e)" by (intro map_of_is_SomeI) simp_all
  then show ?thesis by (simp add: deref_def)
qed

definition put_off :: "queue_env \<Rightarrow> (nat \<times> Transaction) list \<Rightarrow> queue \<Rightarrow> queue \<Rightarrow> bool" where
  "put_off P es q q' \<longleftrightarrow>
     m_current q' = filter (\<lambda>e. fst e \<notin> fst ` set es) (m_current q) \<and>
     m_currentByHash q' = (\<lambda>h. if h \<in> hashOf P ` snd ` set es then None else m_currentByHash q h) \<and>
     m_futureSize q' = m_futureSize q + word_of_nat (length es) \<and> m_future q' = m_future q \<and> m_known q' = m_known q \<and> frame q q' \<and>
     m_nextIterator q' = m_nextIterator q \<and> m_currentByAddressAndNonce q' = m_currentByAddressAndNonce q"

lemma demote_runs:
  "distinct (map fst (m_current q)) \<Longrightarrow> set es \<subseteq> set (m_current q) \<Longrightarrow> (\<And>e. e \<in> set es \<Longrightarrow> tx_ok P (snd e)) \<Longrightarrow>
   distinct (map fst es) \<Longrightarrow> distinct (map (\<lambda>e. t_nonce (snd e)) es) \<Longrightarrow> sm_ok target \<Longrightarrow>
   (\<And>e. e \<in> set es \<Longrightarrow> t_nonce (snd e) \<notin> fst ` set target) \<Longrightarrow>
   \<exists>target' q'. demote P (map idxEntry es) target q = Inr (target', q') \<and> sm_ok target' \<and>
     set target' = set target \<union> futEntry ` set es \<and> length target' = length target + length es \<and> put_off P es q q'"
proof (induction es arbitrary: target q)
  case Nil
  then show ?case by (simp add: put_off_def frame_def)
next
  case (Cons e es)
  let ?t = "sm_insert (t_nonce (snd e)) (snd e) target"
  let ?q = "eraseCurrent (fst e) (q\<lparr>m_currentByHash := (m_currentByHash q)(hashOf P (snd e) := None), m_futureSize := m_futureSize q + 1\<rparr>)"
  have tx: "tx_ok P (snd e)" using Cons.prems(3) by simp
  have free: "t_nonce (snd e) \<notin> fst ` set target" using Cons.prems(7) by simp
  have step: "demote P (map idxEntry (e # es)) target q = demote P (map idxEntry es) ?t ?q"
    using deref_entry [OF Cons.prems(1), of e] Cons.prems(2) by (simp add: hashTx_ok [OF tx])
  have "\<exists>target' q'. demote P (map idxEntry es) ?t ?q = Inr (target', q') \<and> sm_ok target' \<and>
     set target' = set ?t \<union> futEntry ` set es \<and> length target' = length ?t + length es \<and> put_off P es ?q q'"
  proof (rule Cons.IH)
    show "distinct (map fst (m_current ?q))" using distinct_map_filter [OF Cons.prems(1)] by (simp add: eraseCurrent_def)
    show "set es \<subseteq> set (m_current ?q)"
    proof
      fix x
      assume "x \<in> set es"
      moreover from this have "fst x \<noteq> fst e" using Cons.prems(4) by (metis distinct.simps(2) image_eqI list.map(2) list.set_map)
      moreover have "set es \<subseteq> set (m_current q)" using Cons.prems(2) by simp
      ultimately show "x \<in> set (m_current ?q)" by (auto simp: eraseCurrent_def)
    qed
    show "tx_ok P (snd x)" if "x \<in> set es" for x using Cons.prems(3) that by simp
    show "distinct (map fst es)" "distinct (map (\<lambda>e. t_nonce (snd e)) es)" using Cons.prems(4,5) by simp_all
    show "sm_ok ?t" by (rule sm_insert_ok [OF Cons.prems(6)])
    show "t_nonce (snd x) \<notin> fst ` set ?t" if "x \<in> set es" for x
    proof -
      have "t_nonce (snd x) \<in> set (map (\<lambda>e. t_nonce (snd e)) es)" using that by simp
      then have "t_nonce (snd x) \<noteq> t_nonce (snd e)" using Cons.prems(5) by (metis distinct.simps(2) list.map(2))
      then show ?thesis using Cons.prems(7) [of x] that unfolding sm_insert_keys by simp
    qed
  qed
  then obtain target' q' where r: "demote P (map idxEntry es) ?t ?q = Inr (target', q')" "sm_ok target'"
     "set target' = set ?t \<union> futEntry ` set es" "length target' = length ?t + length es" "put_off P es ?q q'" by blast
  have "filter (\<lambda>x. fst x \<notin> fst ` set es) (filter (\<lambda>x. fst x \<noteq> fst e) xs) = filter (\<lambda>x. fst x \<notin> fst ` set (e # es)) xs" for xs :: "(nat \<times> Transaction) list"
    unfolding filter_filter by (rule filter_cong) auto
  moreover have "(\<lambda>h. if h \<in> hashOf P ` snd ` set es then None else ((m_currentByHash q)(hashOf P (snd e) := None)) h) =
      (\<lambda>h. if h \<in> hashOf P ` snd ` set (e # es) then None else m_currentByHash q h)"
    by (rule ext) simp
  ultimately have "put_off P (e # es) q q'" using r(5) by (simp add: put_off_def eraseCurrent_def frame_def cong: if_cong)
  then show ?case unfolding step using r(1-4) by (simp add: sm_insert_new [OF free] sm_insert_length [OF free])
qed

lemma list_as_map: "(\<And>x. x \<in> set xs \<Longrightarrow> \<exists>e\<in>A. x = f e) \<Longrightarrow> \<exists>es. xs = map f es \<and> set es \<subseteq> A"
proof (induction xs)
  case (Cons x xs)
  then obtain e es where "e \<in> A" "x = f e" "xs = map f es" "set es \<subseteq> A" by fastforce
  then show ?case by (intro exI [of _ "e # es"]) simp
qed simp

text \<open>The queue after some transactions of one sender, the last by nonce, were put off.\<close>

definition putOff :: "queue_env \<Rightarrow> address \<Rightarrow> u256 \<Rightarrow> (u256, Transaction) smap \<Rightarrow> queue \<Rightarrow> queue \<Rightarrow> queue" where
  "putOff P a n target q q' = putByNonce a (sm_below n (byNonce q a)) (q'\<lparr>m_future := (m_future q')(a \<mapsto> target)\<rparr>)"

lemma putOff_fields [simp]:
  "m_future (putOff P a n target q q') = (m_future q')(a \<mapsto> target)" "m_futureSize (putOff P a n target q q') = m_futureSize q'"
  "m_known (putOff P a n target q q') = m_known q'" "m_limit (putOff P a n target q q') = m_limit q'"
  "m_futureLimit (putOff P a n target q q') = m_futureLimit q'" "m_current (putOff P a n target q q') = m_current q'"
  "m_nextIterator (putOff P a n target q q') = m_nextIterator q'" "m_currentByHash (putOff P a n target q q') = m_currentByHash q'"
  by (simp_all add: putOff_def putByNonce_def)

lemma putOff_cur_ok:
  assumes cur: "cur_ok P q" and off: "put_off P es q q'"
    and es: "\<And>e. e \<in> set es \<longleftrightarrow> e \<in> set (m_current q) \<and> fromTx P (snd e) = a \<and> n \<le> t_nonce (snd e)"
  shows "cur_ok P (putOff P a n target q q')" (is "cur_ok P ?r")
    "set (m_current (putOff P a n target q q')) = set (m_current q) - set es"
proof -
  have H: "\<And>h j. m_currentByHash q h = Some j \<longleftrightarrow> (\<exists>u. (j, u) \<in> set (m_current q) \<and> hashOf P u = h)"
    and B: "\<And>a n v. (n, v) \<in> set (byNonce q a) \<longleftrightarrow> (\<exists>i u. v = Some i \<and> (i, u) \<in> set (m_current q) \<and> fromTx P u = a \<and> t_nonce u = n)"
    and S: "\<And>a. sm_ok (byNonce q a)" "\<And>a. m_currentByAddressAndNonce q a \<noteq> Some []"
    and d: "distinct (map fst (m_current q))"
    and ids: "\<forall>e\<in>set (m_current q). fst e < m_nextIterator q \<and> tx_ok P (snd e)"
    using cur by (simp_all add: cur_ok_def)
  have C: "m_current ?r = filter (\<lambda>e. fst e \<notin> fst ` set es) (m_current q)"
    "m_currentByHash ?r = (\<lambda>h. if h \<in> hashOf P ` snd ` set es then None else m_currentByHash q h)" "m_nextIterator ?r = m_nextIterator q"
    using off by (simp_all add: put_off_def)
  have "fst e \<in> fst ` set es \<longleftrightarrow> e \<in> set es" if "e \<in> set (m_current q)" for e
  proof
    assume "fst e \<in> fst ` set es"
    then obtain x where x: "x \<in> set es" "fst x = fst e" by auto
    then have "(fst e, snd x) \<in> set (m_current q)" using es [of x] by (metis prod.collapse)
    moreover have "(fst e, snd e) \<in> set (m_current q)" using that by simp
    ultimately have "snd x = snd e" by (rule cur_unique(1) [OF cur, rotated])
    with x show "e \<in> set es" by (metis prod.collapse)
  qed simp
  then show W: "set (m_current ?r) = set (m_current q) - set es" unfolding C by auto
  have d': "distinct (map fst (m_current ?r))" unfolding C by (rule distinct_map_filter [OF d])
  have ids': "\<forall>e\<in>set (m_current ?r). fst e < m_nextIterator ?r \<and> tx_ok P (snd e)" using ids unfolding C(1,3) by simp
  have h: "m_currentByHash ?r h = Some j \<longleftrightarrow> (\<exists>u. (j, u) \<in> set (m_current ?r) \<and> hashOf P u = h)" for h j
  proof (cases "h \<in> hashOf P ` snd ` set es")
    case True
    then obtain e where e: "e \<in> set es" "h = hashOf P (snd e)" by auto
    then have m: "(fst e, snd e) \<in> set (m_current q)" using es by simp
    have "(j, u) \<in> set es" if "(j, u) \<in> set (m_current q)" "hashOf P u = h" for u
      using cur_unique(2) [OF cur m, of j u] cur_unique(1) [OF cur m, of u] that e by (metis prod.collapse)
    then have "\<not> (\<exists>u. (j, u) \<in> set (m_current ?r) \<and> hashOf P u = h)" unfolding W by blast
    moreover have "m_currentByHash ?r h = None" unfolding C(2) using True by simp
    ultimately show ?thesis by simp
  next
    case False
    have "(\<exists>u. (j, u) \<in> set (m_current ?r) \<and> hashOf P u = h) \<longleftrightarrow> (\<exists>u. (j, u) \<in> set (m_current q) \<and> hashOf P u = h)"
      unfolding W using False by force
    moreover have "m_currentByHash ?r h = m_currentByHash q h" unfolding C(2) using False by simp
    ultimately show ?thesis by (simp only: H)
  qed
  have bn: "byNonce ?r b = (if b = a then sm_below n (byNonce q a) else byNonce q b)" for b
    using off by (simp add: putOff_def putByNonce_def byNonce_def put_off_def)
  have s: "sm_ok (byNonce ?r b)" for b by (simp add: bn S(1) sm_below_from(3) [OF S(1)])
  have e: "m_currentByAddressAndNonce ?r b \<noteq> Some []" for b
    using S(2) [of b] off by (simp add: putOff_def putByNonce_def put_off_def)
  have b: "(k, v) \<in> set (byNonce ?r b) \<longleftrightarrow> (\<exists>j u. v = Some j \<and> (j, u) \<in> set (m_current ?r) \<and> fromTx P u = b \<and> t_nonce u = k)" for k v b
  proof -
    have "(k, v) \<in> set (byNonce ?r b) \<longleftrightarrow> (k, v) \<in> set (byNonce q b) \<and> (b = a \<longrightarrow> k < n)"
      by (simp add: bn sm_below_from(1) [OF S(1)])
    also have "\<dots> \<longleftrightarrow> (\<exists>j u. v = Some j \<and> (j, u) \<in> set (m_current ?r) \<and> fromTx P u = b \<and> t_nonce u = k)"
    proof -
      have "(j, u) \<in> set (m_current q) - set es \<longleftrightarrow> (j, u) \<in> set (m_current q) \<and> (fromTx P u = a \<longrightarrow> t_nonce u < n)" for j u
        by (auto simp: es not_le)
      then show ?thesis unfolding B W by blast
    qed
    finally show ?thesis .
  qed
  show "cur_ok P ?r" unfolding cur_ok_def using d' ids' h s e b by blast
qed

lemma putOff_fut_ok:
  assumes fut: "fut_ok P q" and off: "put_off P es q q'" and ne: "es \<noteq> []"
    and tg: "sm_ok target" "set target = set (futureOf q a) \<union> futEntry ` set es" "length target = length (futureOf q a) + length es"
    and tx: "\<And>e. e \<in> set es \<Longrightarrow> tx_ok P (snd e) \<and> fromTx P (snd e) = a"
  shows "fut_ok P (putOff P a n target q q')" (is "fut_ok P ?r")
    "later (putOff P a n target q q') = later q \<union> snd ` set es"
    "futureCount (putOff P a n target q q') = futureCount q + length es"
proof -
  have M: "m_future q' = m_future q" "m_futureSize q' = m_futureSize q + word_of_nat (length es)"
    using off by (simp_all add: put_off_def)
  have F: "m_future ?r = (m_future q)(a \<mapsto> target)" "m_futureSize ?r = m_futureSize q + word_of_nat (length es)"
    by (simp_all add: M)
  have f: "futureOf ?r b = (if b = a then target else futureOf q b)" for b unfolding futureOf_def F(1) by simp
  have "futureCount q = length (futureOf q a) + (\<Sum>b\<in>UNIV - {a}. length (futureOf q b))"
    unfolding futureCount_def by (rule sum.remove) simp_all
  moreover have "futureCount ?r = length (futureOf ?r a) + (\<Sum>b\<in>UNIV - {a}. length (futureOf ?r b))"
    unfolding futureCount_def by (rule sum.remove) simp_all
  moreover have "(\<Sum>b\<in>UNIV - {a}. length (futureOf ?r b)) = (\<Sum>b\<in>UNIV - {a}. length (futureOf q b))"
    by (rule sum.cong) (simp_all add: f)
  ultimately show count: "futureCount ?r = futureCount q + length es" using tg(3) by (simp add: f)
  have E: "\<And>b n t. (n, t) \<in> set (futureOf q b) \<Longrightarrow> tx_ok P t \<and> fromTx P t = b \<and> t_nonce t = n"
    and S: "\<And>b. sm_ok (futureOf q b)" "\<And>b. m_future q b \<noteq> Some []" and n: "m_futureSize q = word_of_nat (futureCount q)"
    using fut by (simp_all add: fut_ok_def)
  have "m_futureSize ?r = word_of_nat (futureCount ?r)" unfolding F(2) n count by simp
  moreover have "target \<noteq> []" using ne tg(3) by auto
  then have "sm_ok (futureOf ?r b)" "m_future ?r b \<noteq> Some []" for b unfolding f F(1) using S tg(1) by simp_all
  moreover have "tx_ok P t \<and> fromTx P t = b \<and> t_nonce t = n" if "(n, t) \<in> set (futureOf ?r b)" for b n t
    using E [of n t b] tx that by (auto simp: f tg(2) split: if_splits)
  ultimately show "fut_ok P ?r" by (simp add: fut_ok_def)
  have "later ?r = (\<Union>b. if b = a then snd ` set (futureOf q a) \<union> snd ` set es else snd ` set (futureOf q b))"
    unfolding later_def by (rule SUP_cong) (auto simp: f tg(2) image_Un image_image)
  also have "\<dots> = later q \<union> snd ` set es" unfolding later_def by (auto split: if_splits)
  finally show "later ?r = later q \<union> snd ` set es" .
qed

lemma toPutOff:
  assumes cur: "cur_ok P q"
  obtains es where "sm_from n (byNonce q a) = map idxEntry es"
    "distinct (map fst es)" "distinct (map (\<lambda>e. t_nonce (snd e)) es)"
    "set es = {e \<in> set (m_current q). fromTx P (snd e) = a \<and> n \<le> t_nonce (snd e)}"
proof -
  have B: "\<And>a n v. (n, v) \<in> set (byNonce q a) \<longleftrightarrow> (\<exists>i u. v = Some i \<and> (i, u) \<in> set (m_current q) \<and> fromTx P u = a \<and> t_nonce u = n)"
    and S: "\<And>a. sm_ok (byNonce q a)"
    using cur by (simp_all add: cur_ok_def)
  note below = sm_below_from [OF S, of n a]
  let ?A = "{e \<in> set (m_current q). fromTx P (snd e) = a \<and> n \<le> t_nonce (snd e)}"
  have "\<exists>es. sm_from n (byNonce q a) = map idxEntry es \<and> set es \<subseteq> ?A"
  proof (rule list_as_map)
    fix x
    assume "x \<in> set (sm_from n (byNonce q a))"
    then have x: "(fst x, snd x) \<in> set (byNonce q a)" "n \<le> fst x" using below(2) by auto
    then obtain j u where "snd x = Some j" "(j, u) \<in> set (m_current q)" "fromTx P u = a" "t_nonce u = fst x" unfolding B by blast
    then show "\<exists>e\<in>?A. x = idxEntry e" using x(2) by (intro bexI [of _ "(j, u)"]) (simp_all add: prod_eq_iff)
  qed
  then obtain es where es: "sm_from n (byNonce q a) = map idxEntry es" "set es \<subseteq> ?A" by blast
  have eq: "x = y" if "x \<in> set (m_current q)" "y \<in> set (m_current q)" "fst x = fst y" for x y
    using that cur unfolding cur_ok_def by (metis eq_key_imp_eq_value prod.collapse)
  have mem: "e \<in> set es \<longleftrightarrow> e \<in> set (m_current q) \<and> fromTx P (snd e) = a \<and> n \<le> t_nonce (snd e)" for e
  proof
    assume e: "e \<in> set (m_current q) \<and> fromTx P (snd e) = a \<and> n \<le> t_nonce (snd e)"
    then have c: "(fst e, snd e) \<in> set (m_current q)" by simp
    then have "idxEntry e \<in> set (byNonce q a)" unfolding B using e by blast
    then have "idxEntry e \<in> set (map idxEntry es)" unfolding es(1) [symmetric] below(2) using e by simp
    then obtain x where x: "x \<in> set es" "fst x = fst e" by auto
    then have "x = e" using es(2) e eq [of x e] by blast
    with x show "e \<in> set es" by simp
  qed (use es(2) in blast)
  have sme: "sm_ok (map idxEntry es)" using below(4) by (simp add: es(1))
  then have dn: "distinct (map (\<lambda>e. t_nonce (snd e)) es)" using sm_ok_distinct [OF sme] by (simp add: comp_def)
  have "inj_on fst (set es)" using eq mem by (intro inj_onI) blast
  moreover have "distinct es" using dn by (simp add: distinct_map)
  ultimately have "distinct (map fst es)" by (simp add: distinct_map)
  moreover have "set es = ?A" using mem by blast
  ultimately show thesis by (intro that [OF es(1) _ dn])
qed

end
