(* ===== verification/Tx_Queue_Safe.thy ===== *)
theory Tx_Queue_Safe
  imports Tx_Queue_Inv
begin

section \<open>The transaction queue stays consistent\<close>

text \<open>
  The last operation, \<open>setFuture\<close>, and what follows for every sequence of operations.
\<close>

lemma moved_sets:
  assumes "A' \<union> M = A" "M \<inter> A' = {}" "A \<inter> L = {}"
  shows "A' \<union> (L \<union> M) = A \<union> L" "A' \<inter> (L \<union> M) = {}"
  using assms by blast+

lemma putOff_ok:
  assumes ok: "queue_ok P q" and off: "put_off P es q q'" and ne: "es \<noteq> []"
    and mem: "\<And>e. e \<in> set es \<longleftrightarrow> e \<in> set (m_current q) \<and> fromTx P (snd e) = a \<and> n \<le> t_nonce (snd e)"
    and de: "distinct (map fst es)"
    and tg: "sm_ok target" "set target = set (futureOf q a) \<union> futEntry ` set es" "length target = length (futureOf q a) + length es"
  shows "queue_ok P (putOff P a n target q q')" (is "queue_ok P ?q") "total (putOff P a n target q q') \<le> total q"
proof -
  have cur: "cur_ok P q" and fut: "fut_ok P q" and ap: "apart P q" and kn: "known_ok P q"
    using ok by (simp_all add: queue_ok_def core_ok_def)
  have txc: "\<forall>e\<in>set (m_current q). tx_ok P (snd e)" and dc: "distinct (map fst (m_current q))"
    using cur by (simp_all add: cur_ok_def)
  have tx: "tx_ok P (snd e) \<and> fromTx P (snd e) = a" if "e \<in> set es" for e using that mem txc by blast
  have f: "fut_ok P ?q" "later ?q = later q \<union> snd ` set es" "futureCount ?q = futureCount q + length es"
    using putOff_fut_ok [OF fut off ne tg] tx by blast+
  note c = putOff_cur_ok [OF cur off mem, of target]
  have sub: "set es \<subseteq> set (m_current q)" using mem by blast
  have w: "waits ?q \<union> snd ` set es = waits q"
    unfolding waits_def c(2) using sub by (simp add: image_Un [symmetric] Un_absorb2)
  have differ: "snd x \<noteq> snd y" if x: "x \<in> set es" and y: "y \<in> set (m_current q) - set es" for x y
  proof
    assume s: "snd x = snd y"
    have xy: "(fst x, snd x) \<in> set (m_current q)" "(fst y, snd y) \<in> set (m_current q)" using x y sub by auto
    have "fst y = fst x" by (rule cur_unique(2) [OF cur xy]) (simp add: s)
    then have "x = y" using s by (simp add: prod_eq_iff)
    with x y show False by blast
  qed
  have "u \<notin> waits ?q" if u: "u \<in> snd ` set es" for u
  proof
    assume "u \<in> waits ?q"
    then have "u \<in> snd ` (set (m_current q) - set es)" by (simp only: waits_def c(2))
    then obtain y where y: "u = snd y" "y \<in> set (m_current q) - set es" by (rule imageE)
    obtain x where "u = snd x" "x \<in> set es" using u by (rule imageE)
    then show False using differ [of x y] y by simp
  qed
  then have w2: "snd ` set es \<inter> waits ?q = {}" by (simp only: disjoint_iff) simp
  have "waits q \<inter> later q = {}" using ap unfolding apart_def by (rule conjunct2)
  note moved = moved_sets [OF w w2 this, folded f(2)]
  note union = moved(1)
  have "waits ?q \<inter> later ?q = {}" by (rule moved(2))
  then have "apart P ?q" by (rule apart_sub [OF ap, rotated]) (simp only: union order_refl)
  moreover have "m_known ?q = m_known q" using off by (simp add: put_off_def)
  then have "known_ok P ?q" by (rule known_sub [OF kn, rotated]) (simp only: union order_refl)
  ultimately show "queue_ok P ?q" using c(1) f(1) by (simp add: queue_ok_def core_ok_def)
  have "distinct (map fst (m_current ?q))" using c(1) unfolding cur_ok_def by (rule conjunct1)
  then have dq: "distinct (m_current q)" "distinct (m_current ?q)" "distinct es"
    using dc de unfolding distinct_map by simp_all
  have "length (m_current ?q) = card (set (m_current q) - set es)" unfolding c(2) [symmetric] by (rule distinct_card [OF dq(2), symmetric])
  also have "\<dots> = length (m_current q) - length es"
    using sub by (subst card_Diff_subset) (simp_all add: distinct_card [OF dq(1)] distinct_card [OF dq(3)])
  finally have "length (m_current ?q) = length (m_current q) - length es" .
  moreover have "length es \<le> length (m_current q)"
    using card_mono [OF _ sub] by (simp add: distinct_card [OF dq(1)] distinct_card [OF dq(3)])
  ultimately show "total ?q \<le> total q" unfolding total_def f(3) by linarith
qed

lemma setFuture_ok:
  assumes ok: "queue_ok P q"
  obtains q' where "setFuture P h q = Inr q'" "queue_ok P q'" "frame q q'" "total q' \<le> total q"
proof (cases "m_currentByHash q h")
  case None
  then show thesis using that [of q] ok by (simp add: setFuture_def frame_def)
next
  case (Some i)
  have cur: "cur_ok P q" and fut: "fut_ok P q" and ap: "apart P q" using ok by (simp_all add: queue_ok_def core_ok_def)
  obtain t where t: "(i, t) \<in> set (m_current q)" using cur Some unfolding cur_ok_def by blast
  let ?a = "fromTx P t" and ?n = "t_nonce t"
  have d: "distinct (map fst (m_current q))" and tx: "\<And>e. e \<in> set (m_current q) \<Longrightarrow> tx_ok P (snd e)"
    using cur by (simp_all add: cur_ok_def)
  obtain es where es: "sm_from ?n (byNonce q ?a) = map idxEntry es" "distinct (map fst es)" "distinct (map (\<lambda>e. t_nonce (snd e)) es)"
    and ess: "set es = {e \<in> set (m_current q). fromTx P (snd e) = ?a \<and> ?n \<le> t_nonce (snd e)}"
    by (rule toPutOff [OF cur, of ?n ?a])
  have mem: "e \<in> set es \<longleftrightarrow> e \<in> set (m_current q) \<and> fromTx P (snd e) = ?a \<and> ?n \<le> t_nonce (snd e)" for e
    unfolding ess by blast
  have tgo: "sm_ok (futureOf q ?a)" and E: "\<And>n u. (n, u) \<in> set (futureOf q ?a) \<Longrightarrow> fromTx P u = ?a \<and> t_nonce u = n"
    using fut unfolding fut_ok_def by blast+
  have free: "t_nonce (snd e) \<notin> fst ` set (futureOf q ?a)" if e: "e \<in> set es" for e
  proof
    assume "t_nonce (snd e) \<in> fst ` set (futureOf q ?a)"
    then obtain u where u: "(t_nonce (snd e), u) \<in> set (futureOf q ?a)" by auto
    then have "u \<in> later q" unfolding later_def by force
    moreover have m: "e \<in> set (m_current q)" "fromTx P (snd e) = ?a" using e by (simp_all add: mem)
    moreover have "snd e \<in> waits q" unfolding waits_def using m(1) by (rule imageI)
    moreover have "waits q \<inter> later q = {}" using ap unfolding apart_def by (rule conjunct2)
    ultimately have "snd e \<noteq> u" "snd e \<in> waits q \<union> later q" "u \<in> waits q \<union> later q" by blast+
    then have "differ P (snd e) u" using ap unfolding apart_def by blast
    then show False using E [OF u] m(2) by (simp add: differ_def)
  qed
  have "\<exists>target' q'. demote P (map idxEntry es) (futureOf q ?a) q = Inr (target', q') \<and> sm_ok target' \<and>
     set target' = set (futureOf q ?a) \<union> futEntry ` set es \<and> length target' = length (futureOf q ?a) + length es \<and> put_off P es q q'"
  proof (rule demote_runs [OF d _ _ es(2,3) tgo free])
    show "set es \<subseteq> set (m_current q)" unfolding ess by blast
    show "tx_ok P (snd e)" if "e \<in> set es" for e using that tx unfolding ess by blast
  qed
  then obtain target q1 where r: "demote P (map idxEntry es) (futureOf q ?a) q = Inr (target, q1)" "sm_ok target"
     "set target = set (futureOf q ?a) \<union> futEntry ` set es" "length target = length (futureOf q ?a) + length es" "put_off P es q q1" by blast
  let ?q = "putOff P ?a ?n target q q1"
  have run: "setFuture P h q = Inr ?q"
    using r(1) by (simp add: setFuture_def Some cur_deref [OF cur t] Let_def es(1) putOff_def futureOf_def)
  have "(i, t) \<in> set es" using mem [of "(i, t)"] t by simp
  then have ne: "es \<noteq> []" by auto
  note done_ok = putOff_ok [OF ok r(5) ne mem es(2) r(2-4)]
  have "frame q ?q" using r(5) by (simp add: put_off_def frame_def)
  then show thesis by (intro that [OF run] done_ok)
qed

subsection \<open>Every sequence of operations\<close>

datatype queue_op = Import Transaction IfDropped | Drop h256 | DropGood Transaction | PutOff h256 | ClearAll

fun runOp :: "queue_env \<Rightarrow> queue_op \<Rightarrow> queue \<Rightarrow> queue q_result" where
  "runOp P (Import t ik) q = andThen (importTx P t ik q) (\<lambda>(_, q). Inr q)"
| "runOp P (Drop h) q = dropTx P h q"
| "runOp P (DropGood t) q = dropGood P t q"
| "runOp P (PutOff h) q = setFuture P h q"
| "runOp P ClearAll q = Inr (clearQueue q)"

primrec runOps :: "queue_env \<Rightarrow> queue_op list \<Rightarrow> queue \<Rightarrow> queue q_result" where
  "runOps P [] q = Inr q"
| "runOps P (x # xs) q = andThen (runOp P x q) (runOps P xs)"

text \<open>The transactions that come in have a sender and a hash.\<close>

fun opSound :: "queue_env \<Rightarrow> queue_op \<Rightarrow> bool" where
  "opSound P (Import t ik) = sound_tx P t"
| "opSound P (DropGood t) = tx_ok P t"
| "opSound P _ = True"

definition holds :: "queue_env \<Rightarrow> 32 word \<Rightarrow> 32 word \<Rightarrow> queue \<Rightarrow> bool" where
  "holds P l f q \<longleftrightarrow> queue_ok P q \<and> m_limit q = l \<and> m_futureLimit q = f \<and> total q \<le> unat l + unat f"

lemma empty_ok: "m_current q = [] \<Longrightarrow> m_currentByHash q = Map.empty \<Longrightarrow> m_currentByAddressAndNonce q = Map.empty \<Longrightarrow>
    m_future q = Map.empty \<Longrightarrow> m_futureSize q = 0 \<Longrightarrow> queue_ok P q \<and> total q = 0"
  by (simp add: queue_ok_def core_ok_def known_ok_def cur_ok_def fut_ok_def apart_def waits_def later_def byNonce_def
    futureOf_def futureCount_def total_def)

lemma within_counts:
  assumes "queue_ok P q" "within q" "total q < 2 ^ 32"
  shows "futureCount q \<le> unat (m_futureLimit q)" "total q \<le> unat (m_limit q) + unat (m_futureLimit q)"
proof -
  have "m_futureSize q = word_of_nat (futureCount q)" using assms(1) by (simp add: queue_ok_def core_ok_def fut_ok_def)
  moreover have "futureCount q < 2 ^ 32" using assms(3) by (simp add: total_def)
  ultimately have "unat (m_futureSize q) = futureCount q" by (simp add: unat_of_nat)
  then show "futureCount q \<le> unat (m_futureLimit q)" using assms(2) by (simp add: within_def word_le_nat_alt)
  then show "total q \<le> unat (m_limit q) + unat (m_futureLimit q)" using assms(2) by (simp add: total_def within_def)
qed

lemma runOp_holds:
  assumes env: "env_ok P" and L: "unat l + unat f + 1 < 2 ^ 32" and h: "holds P l f q" and s: "opSound P x"
  obtains q' where "runOp P x q = Inr q'" "holds P l f q'"
proof -
  have ok: "queue_ok P q" and lim: "m_limit q = l" "m_futureLimit q = f" "total q \<le> unat l + unat f" using h by (simp_all add: holds_def)
  have keep: thesis if "runOp P x q = Inr q'" "queue_ok P q'" "frame q q'" "total q' \<le> total q" for q'
    using \<open>\<And>q'. \<lbrakk>runOp P x q = Inr q'; holds P l f q'\<rbrakk> \<Longrightarrow> thesis\<close> [of q'] that lim by (simp add: holds_def frame_def)
  show thesis
  proof (cases x)
    case (Import t ik)
    then have t: "sound_tx P t" using s by simp
    from importTx_ok [OF env ok t, of ik] obtain r q' where q': "importTx P t ik q = Inr (r, q')" "queue_ok P q'" "frame q q'"
      "r \<noteq> ImportSuccess \<and> total q' \<le> total q \<or> r = ImportSuccess \<and> within q' \<and> total q' \<le> total q + 1" .
    have run: "runOp P x q = Inr q'" using q'(1) by (simp add: Import)
    show thesis
    proof (cases "r = ImportSuccess")
      case True
      then have w: "within q'" "total q' < 2 ^ 32" using q'(4) lim(3) L by simp_all
      have "holds P l f q'" using within_counts(2) [OF q'(2) w] q'(2,3) lim by (simp add: holds_def frame_def)
      with run show thesis by (rule that)
    qed (use keep [OF run q'(2,3)] q'(4) in blast)
  next
    case (Drop h)
    from dropTx_ok [OF ok, of h] show thesis using keep by (simp add: Drop) blast
  next
    case (DropGood t)
    then have "tx_ok P t" using s by simp
    from dropGood_ok [OF env ok this] show thesis using keep by (simp add: DropGood) blast
  next
    case (PutOff h)
    from setFuture_ok [OF ok, of h] show thesis using keep by (simp add: PutOff) blast
  next
    case ClearAll
    have "queue_ok P (clearQueue q) \<and> total (clearQueue q) = 0" by (rule empty_ok) (simp_all add: clearQueue_def)
    then show thesis using keep [of "clearQueue q"] by (simp add: ClearAll frame_def clearQueue_def)
  qed
qed

lemma runOps_holds:
  assumes "env_ok P" "unat l + unat f + 1 < 2 ^ 32"
  shows "holds P l f q \<Longrightarrow> list_all (opSound P) xs \<Longrightarrow> \<exists>q'. runOps P xs q = Inr q' \<and> holds P l f q'"
proof (induction xs arbitrary: q)
  case (Cons x xs)
  from Cons.prems(2) have x: "opSound P x" "list_all (opSound P) xs" by simp_all
  from runOp_holds [OF assms Cons.prems(1) x(1)] obtain q1 where q1: "runOp P x q = Inr q1" "holds P l f q1" .
  from Cons.IH [OF q1(2) x(2)] show ?case by (simp add: q1(1))
qed simp

lemma mkQueue_holds: "holds P l f (mkQueue l f)"
  using empty_ok [of "mkQueue l f" P] by (simp add: holds_def mkQueue_def)

text \<open>C39: The queue stays consistent under every sequence of imports, drops, put-offs and clearings, as long
  as every transaction that comes in has a recoverable sender: no operation throws, follows an
  iterator that points nowhere or loops for ever; the index by hash and the index by sender and
  nonce hold exactly the waiting transactions, the future transactions are filed under their sender
  and nonce and counted right, no two transactions of the queue share a hash or a sender and nonce,
  every hash is known; and the queue never holds more transactions than the two limits together.\<close>

theorem queue_stays_consistent:
  assumes "env_ok P" "unat l + unat f + 1 < 2 ^ 32" "list_all (opSound P) ops"
  shows "\<exists>q. runOps P ops (mkQueue l f) = Inr q \<and> queue_ok P q \<and> length (m_current q) + futureCount q \<le> unat l + unat f"
  using runOps_holds [OF assms(1,2) mkQueue_holds assms(3)] by (auto simp: holds_def total_def)

text \<open>C40: After a successful import, at any time in the life of such a queue, the transaction counts are
  within their limits: at most \<open>m_limit\<close> transactions wait and at most \<open>m_futureLimit\<close> are put off.\<close>

theorem import_within_limits:
  assumes "env_ok P" "unat l + unat f + 1 < 2 ^ 32" "list_all (opSound P) ops" "sound_tx P t"
    and "runOps P ops (mkQueue l f) = Inr q" "importTx P t ik q = Inr (ImportSuccess, q')"
  shows "length (m_current q') \<le> unat l \<and> futureCount q' \<le> unat f \<and> unat (m_futureSize q') = futureCount q'"
proof -
  have h: "queue_ok P q" "total q \<le> unat l + unat f" "m_limit q = l" "m_futureLimit q = f"
    using runOps_holds [OF assms(1,2) mkQueue_holds assms(3)] assms(5) by (auto simp: holds_def)
  from importTx_ok [OF assms(1) h(1) assms(4), of ik] obtain r q1 where r: "importTx P t ik q = Inr (r, q1)" "queue_ok P q1" "frame q q1"
    "r \<noteq> ImportSuccess \<and> total q1 \<le> total q \<or> r = ImportSuccess \<and> within q1 \<and> total q1 \<le> total q + 1" .
  then have e: "q1 = q'" and w: "within q'" "total q' < 2 ^ 32" using assms(2,6) h(2) by simp_all
  have "m_futureSize q' = word_of_nat (futureCount q')" using r(2) e by (simp add: queue_ok_def core_ok_def fut_ok_def)
  moreover have "futureCount q' < 2 ^ 32" using w(2) by (simp add: total_def)
  ultimately have "unat (m_futureSize q') = futureCount q'" by (simp add: unat_of_nat)
  then show ?thesis using within_counts(1) [OF _ w] r(2,3) e w(1) h(3,4) by (simp add: within_def frame_def)
qed

subsection \<open>Instances\<close>

text \<open>The sampled queue again, with the least account first.\<close>

definition leastKey :: "(address \<Rightarrow> (u256, Transaction) smap option) \<Rightarrow> address" where
  "leastKey F = (case find (\<lambda>n. F (word_of_nat n) \<noteq> None) [0..<2 ^ 160] of Some n \<Rightarrow> word_of_nat n | None \<Rightarrow> 0)"

definition sampleSafeEnv :: queue_env where
  "sampleSafeEnv = sampleQueueEnv\<lparr>q_begin := leastKey\<rparr>"

lemma leastKey_finds: "F (leastKey F) \<noteq> None" if F: "F a \<noteq> None"
proof -
  let ?p = "\<lambda>n. F (word_of_nat n) \<noteq> None" and ?ns = "[0..<2 ^ 160 :: nat]"
  have a: "unat a \<in> set ?ns" "?p (unat a)" using unsigned_less [of a] F by simp_all
  show ?thesis
  proof (cases "find ?p ?ns")
    case None
    with a show ?thesis unfolding find_None_iff by blast
  next
    case (Some n)
    then have "?p n" unfolding find_Some_iff by blast
    moreover have "leastKey F = word_of_nat n" unfolding leastKey_def Some by simp
    ultimately show ?thesis by metis
  qed
qed

lemma sampleSafeEnv_fields [simp]:
  "q_sha3 sampleSafeEnv = (\<lambda>_. 1)" "q_keys sampleSafeEnv = q_keys sampleQueueEnv" "q_tree sampleSafeEnv = q_tree sampleQueueEnv"
  "q_begin sampleSafeEnv = leastKey"
  by (simp_all add: sampleSafeEnv_def)

lemma sampleSafeEnv_ok: "env_ok sampleSafeEnv"
  unfolding env_ok_def
proof (intro conjI allI impI)
  show "inorder (q_tree sampleSafeEnv ts) = ts" for ts by simp
  show "F (q_begin sampleSafeEnv F) \<noteq> None" if F: "F \<noteq> Map.empty" for F
  proof -
    obtain a where "F a \<noteq> None" using F by (auto simp: fun_eq_iff)
    then have "F (leastKey F) \<noteq> None" by (rule leastKey_finds)
    then show ?thesis by simp
  qed
qed

lemma sampleQueued_sound: "h \<noteq> 0 \<Longrightarrow> tx_ok sampleSafeEnv (sampleQueued h a n) \<and> sound_tx sampleSafeEnv (sampleQueued h a n)"
  by (simp add: tx_ok_def sound_tx_def hashOf_def fromTx_def safeSender_def)

lemma queue_stays_consistent_witness:
  "\<exists>q. runOps sampleSafeEnv [Import (sampleQueued 1 7 0) IgnoreDropped, Import (sampleQueued 2 8 0) IgnoreDropped,
       PutOff 1, DropGood (sampleQueued 3 8 1), Drop 2, ClearAll] (mkQueue 10 10) = Inr q \<and>
     queue_ok sampleSafeEnv q \<and> length (m_current q) + futureCount q \<le> unat (10 :: 32 word) + unat (10 :: 32 word)"
  by (rule queue_stays_consistent) (simp_all add: sampleSafeEnv_ok sampleQueued_sound)

lemma import_within_limits_witness:
  "\<exists>q. importTx sampleSafeEnv (sampleQueued 5 7 0) IgnoreDropped (mkQueue 10 10) = Inr (ImportSuccess, q) \<and>
     length (m_current q) \<le> unat (10 :: 32 word) \<and> futureCount q \<le> unat (10 :: 32 word) \<and> unat (m_futureSize q) = futureCount q"
proof -
  have "hashed sampleSafeEnv (sampleQueued 5 7 0) 5" by (simp add: hashed_def)
  note i = import_first [OF _ this, where l = 10 and f = 10]
  have "\<exists>q. importTx sampleSafeEnv (sampleQueued 5 7 0) IgnoreDropped (mkQueue 10 10) = Inr (ImportSuccess, q)"
    by (subst i) simp_all
  then obtain q where q: "importTx sampleSafeEnv (sampleQueued 5 7 0) IgnoreDropped (mkQueue 10 10) = Inr (ImportSuccess, q)" ..
  have "length (m_current q) \<le> unat (10 :: 32 word) \<and> futureCount q \<le> unat (10 :: 32 word) \<and> unat (m_futureSize q) = futureCount q"
    by (rule import_within_limits [OF sampleSafeEnv_ok _ _ _ _ q, where ops = "[]"]) (simp_all add: sampleQueued_sound)
  with q show ?thesis by blast
qed

end
