(* ===== verification/Trie_Common.thy ===== *)
theory Trie_Common
  imports Log_Receipt
begin

section \<open>Nibbles and the hex-prefix notation (libdevcore/TrieCommon.h, TrieCommon.cpp)\<close>

text \<open>
  A key of the trie is read nibble by nibble through a \<open>NibbleSlice\<close>, a reference into bytes with an
  offset in nibbles; the nodes keep a part of a key in the hex-prefix notation, which tells whether
  the number of nibbles is odd and whether the node is a leaf. The lemmas reduce the index loops of
  the code to lists of nibbles. Sizes and offsets, \<open>unsigned\<close> in the code, are natural numbers: keys
  are shorter than \<open>2 ^ 31\<close> bytes.
\<close>

subsection \<open>Slices\<close>

definition nibble :: "bytes \<Rightarrow> nat \<Rightarrow> byte" where
  "nibble d i = (if odd i then d ! (i div 2) AND 15 else drop_bit 4 (d ! (i div 2)))"

function sharedNibbles :: "bytes \<Rightarrow> nat \<Rightarrow> nat \<Rightarrow> bytes \<Rightarrow> nat \<Rightarrow> nat \<Rightarrow> nat" where
  "sharedNibbles x b1 e1 y b2 e2 =
     (if b1 < e1 \<and> b2 < e2 \<and> nibble x b1 = nibble y b2 then Suc (sharedNibbles x (b1 + 1) e1 y (b2 + 1) e2) else 0)"
  by auto
termination by (relation "measure (\<lambda>(x, b1, e1, y, b2, e2). e1 - b1)") auto

declare sharedNibbles.simps [simp del]

record NibbleSlice =
  ns_data :: bytes
  ns_offset :: nat

definition slice :: "bytes \<Rightarrow> nat \<Rightarrow> NibbleSlice" where
  "slice d i = \<lparr>ns_data = d, ns_offset = i\<rparr>"

definition ns_at :: "NibbleSlice \<Rightarrow> nat \<Rightarrow> byte" where
  "ns_at s i = nibble (ns_data s) (ns_offset s + i)"

definition ns_size :: "NibbleSlice \<Rightarrow> nat" where
  "ns_size s = length (ns_data s) * 2 - ns_offset s"

definition ns_mid :: "NibbleSlice \<Rightarrow> nat \<Rightarrow> NibbleSlice" where
  "ns_mid s i = slice (ns_data s) (ns_offset s + i)"

definition ns_shared :: "NibbleSlice \<Rightarrow> NibbleSlice \<Rightarrow> nat" where
  "ns_shared s k =
     sharedNibbles (ns_data s) (ns_offset s) (ns_offset s + ns_size s) (ns_data k) (ns_offset k) (ns_offset k + ns_size k)"

definition ns_contains :: "NibbleSlice \<Rightarrow> NibbleSlice \<Rightarrow> bool" where
  "ns_contains s k \<longleftrightarrow> ns_shared s k = ns_size k"

definition ns_equal :: "NibbleSlice \<Rightarrow> NibbleSlice \<Rightarrow> bool" where
  "ns_equal s k \<longleftrightarrow> ns_size k = ns_size s \<and> ns_shared s k = ns_size k"

subsection \<open>The hex-prefix notation\<close>

definition hpFlag :: "bool \<Rightarrow> bool \<Rightarrow> byte" where
  "hpFlag leaf odd' = ((if leaf then 2 else 0) OR (if odd' then 1 else 0)) * 16"

text \<open>A vector of nibbles; the end counts from behind when it is negative.\<close>

fun hexPairs :: "bytes \<Rightarrow> nat list \<Rightarrow> bytes" where
  "hexPairs v [] = []"
| "hexPairs v (i # js) = (v ! i * 16 + v ! (i + 1)) # hexPairs v js"

definition hexPrefixEncode :: "bytes \<Rightarrow> bool \<Rightarrow> nat \<Rightarrow> int \<Rightarrow> bytes" where
  "hexPrefixEncode v leaf b e =
     (let e = (if e < 0 then nat (int (length v) + 1 + e) else nat e); odd' = ((e - b) mod 2 \<noteq> 0);
          ret = hpFlag leaf odd'
      in if odd' then (ret OR v ! b) # hexPairs v (map (\<lambda>j. b + 1 + 2 * j) [0..<(e - (b + 1)) div 2])
         else ret # hexPairs v (map (\<lambda>j. b + 2 * j) [0..<(e - b) div 2]))"

text \<open>The loop over the nibbles of a slice: a nibble goes onto the back or is pushed.\<close>

fun hpeLoop :: "bytes \<Rightarrow> nat \<Rightarrow> bytes \<Rightarrow> bytes" where
  "hpeLoop [] d ret = ret"
| "hpeLoop (n # ns) d ret =
     hpeLoop ns (d + 1) (if odd d then butlast ret @ [last ret OR n] else ret @ [push_bit 4 n])"

definition hexPrefixEncode_slice :: "NibbleSlice \<Rightarrow> bool \<Rightarrow> nat \<Rightarrow> int \<Rightarrow> bytes" where
  "hexPrefixEncode_slice s leaf b e =
     (let d = ns_data s; off = ns_offset s; begin' = b + off;
          end' = (if e < 0 then nat (int (length d * 2 - off) + 1 + e) else nat e) + off;
          odd' = odd (end' - begin')
      in hpeLoop (map (nibble d) [begin'..<end']) (if odd' then 1 else 2) [hpFlag leaf odd'])"

definition hexPrefixEncode_two :: "NibbleSlice \<Rightarrow> NibbleSlice \<Rightarrow> bool \<Rightarrow> bytes" where
  "hexPrefixEncode_two s1 s2 leaf =
     (let b1 = ns_offset s1; e1 = length (ns_data s1) * 2; b2 = ns_offset s2; e2 = length (ns_data s2) * 2;
          odd' = odd (e1 - b1 + e2 - b2)
      in hpeLoop (map (nibble (ns_data s1)) [b1..<e1] @ map (nibble (ns_data s2)) [b2..<e2])
           (if odd' then 1 else 2) [hpFlag leaf odd'])"

definition keyOf :: "bytes \<Rightarrow> NibbleSlice" where
  "keyOf hpe = (if hpe = [] then slice hpe 0 else if hpe ! 0 AND 16 \<noteq> 0 then slice hpe 1 else slice hpe 2)"

definition isLeaf :: "bytes \<Rightarrow> bool" where
  "isLeaf pl \<longleftrightarrow> pl ! 0 AND 32 \<noteq> 0"

subsection \<open>Items of a node\<close>

text \<open>
  The code reads a node through \<open>RLP\<close>; strictly read, an RLP object is the tree it encodes. Beyond
  the items of a list there is the null object.
\<close>

definition it_isEmpty :: "rlp_item \<Rightarrow> bool" where
  "it_isEmpty r \<longleftrightarrow> r = Str [] \<or> r = Lst []"

fun it_isList :: "rlp_item \<Rightarrow> bool" where
  "it_isList (Lst _) = True"
| "it_isList (Str _) = False"

fun it_itemCount :: "rlp_item \<Rightarrow> nat" where
  "it_itemCount (Lst xs) = length xs"
| "it_itemCount (Str _) = 0"

fun it_payload :: "rlp_item \<Rightarrow> bytes" where
  "it_payload (Str bs) = bs"
| "it_payload (Lst xs) = concat (map enc xs)"

fun it_at :: "rlp_item \<Rightarrow> nat \<Rightarrow> rlp_item" where
  "it_at (Lst xs) i = (if i < length xs then xs ! i else Str [])"
| "it_at (Str _) i = Str []"

text \<open>The only entry in use other than \<open>except\<close>, or 255.\<close>

fun uniqueLoop :: "(nat \<times> rlp_item) list \<Rightarrow> nat \<Rightarrow> nat \<Rightarrow> nat" where
  "uniqueLoop [] except used = used"
| "uniqueLoop ((i, r) # rs) except used =
     (if i \<noteq> except \<and> \<not> it_isEmpty r
      then if used = 255 then uniqueLoop rs except i else 255
      else uniqueLoop rs except used)"

definition uniqueInUse :: "rlp_item \<Rightarrow> nat \<Rightarrow> nat" where
  "uniqueInUse r except = uniqueLoop (map (\<lambda>i. (i, it_at r i)) [0..<17]) except 255"

subsection \<open>The nibbles of a slice\<close>

definition nibs :: "NibbleSlice \<Rightarrow> bytes" where
  "nibs s = drop (ns_offset s) (asNibbles (ns_data s))"

definition nibbled :: "bytes \<Rightarrow> bool" where
  "nibbled ns \<longleftrightarrow> (\<forall>n\<in>set ns. n < 16)"

lemma byte_split:
  fixes b :: byte
  shows "word_of_nat (unat b div 16) = drop_bit 4 b" "word_of_nat (unat b mod 16) = b AND 15"
proof -
  show "word_of_nat (unat b div 16) = drop_bit 4 b" by (simp add: drop_bit_eq_div word_arith_nat_div)
  have "b AND 15 = take_bit 4 b" by (simp add: take_bit_eq_mask mask_eq_exp_minus_1)
  then show "word_of_nat (unat b mod 16) = b AND 15" by (simp add: take_bit_eq_mod word_arith_nat_mod)
qed

lemma asNibbles_Cons: "asNibbles (b # bs) = drop_bit 4 b # (b AND 15) # asNibbles bs"
  by (simp add: byte_split)

lemma nibble_nth: "i < 2 * length d \<Longrightarrow> nibble d i = asNibbles d ! i"
proof (induction d arbitrary: i)
  case (Cons b bs)
  consider "i = 0" | "i = 1" | j where "i = j + 2" by (metis One_nat_def add_2_eq_Suc' not0_implies_Suc)
  then show ?case
  proof cases
    case 3
    then have "nibble (b # bs) i = nibble bs j" by (simp add: nibble_def)
    with 3 Cons show ?thesis by (simp add: asNibbles_Cons del: asNibbles_simps)
  qed (simp_all add: nibble_def asNibbles_Cons del: asNibbles_simps)
qed simp

lemma nibs_facts [simp]:
  "length (nibs s) = ns_size s" "nibs (ns_mid s i) = drop i (nibs s)" "nibs (slice d i) = drop i (asNibbles d)"
  "nibbled (nibs s)"
proof -
  show "length (nibs s) = ns_size s" "nibs (ns_mid s i) = drop i (nibs s)" "nibs (slice d i) = drop i (asNibbles d)"
    by (simp_all add: nibs_def ns_size_def ns_mid_def slice_def mult.commute add.commute)
  show "nibbled (nibs s)"
    using asNibbles_less [of _ "ns_data s"] by (auto simp: nibbled_def nibs_def word_less_nat_alt dest: in_set_dropD)
qed

lemma ns_at_nibs: "i < ns_size s \<Longrightarrow> ns_at s i = nibs s ! i"
  by (simp add: ns_at_def nibs_def ns_size_def nibble_nth)

lemma sharedNibbles_prefix:
  "e1 \<le> 2 * length x \<Longrightarrow> e2 \<le> 2 * length y \<Longrightarrow>
     sharedNibbles x b1 e1 y b2 e2 = commonPrefix (take (e1 - b1) (drop b1 (asNibbles x))) (take (e2 - b2) (drop b2 (asNibbles y)))"
proof (induction x b1 e1 y b2 e2 rule: sharedNibbles.induct)
  case (1 x b1 e1 y b2 e2)
  show ?case
  proof (cases "b1 < e1 \<and> b2 < e2")
    case True
    have x: "take (e1 - b1) (drop b1 (asNibbles x)) = nibble x b1 # take (e1 - (b1 + 1)) (drop (b1 + 1) (asNibbles x))"
      using True 1(2) by (simp add: nibble_nth Cons_nth_drop_Suc [symmetric] take_Cons' split: nat_diff_split)
    have y: "take (e2 - b2) (drop b2 (asNibbles y)) = nibble y b2 # take (e2 - (b2 + 1)) (drop (b2 + 1) (asNibbles y))"
      using True 1(3) by (simp add: nibble_nth Cons_nth_drop_Suc [symmetric] take_Cons' split: nat_diff_split)
    show ?thesis unfolding x y using 1 True by (subst sharedNibbles.simps) simp
  next
    case False
    then show ?thesis by (subst sharedNibbles.simps) auto
  qed
qed

lemma ns_shared_prefix [simp]: "ns_shared s k = commonPrefix (nibs s) (nibs k)"
proof (cases "ns_offset s \<le> 2 * length (ns_data s) \<and> ns_offset k \<le> 2 * length (ns_data k)")
  case True
  then show ?thesis by (simp add: ns_shared_def nibs_def sharedNibbles_prefix ns_size_def)
next
  case False
  then have "nibs s = [] \<or> nibs k = []" "ns_size s = 0 \<or> ns_size k = 0" by (auto simp: nibs_def ns_size_def)
  then show ?thesis unfolding ns_shared_def by (subst sharedNibbles.simps) auto
qed

lemma commonPrefix_full: "commonPrefix xs ys = length ys \<longleftrightarrow> (\<exists>zs. xs = ys @ zs)"
  by (induction xs ys rule: commonPrefix.induct) (auto simp: neq_Nil_conv)

lemma ns_contains_nibs: "ns_contains s k \<longleftrightarrow> (\<exists>zs. nibs s = nibs k @ zs)"
  by (simp add: ns_contains_def nibs_facts(1) [symmetric] commonPrefix_full del: nibs_facts(1))

lemma ns_equal_nibs: "ns_equal s k \<longleftrightarrow> nibs s = nibs k"
proof -
  have "ns_equal s k \<longleftrightarrow> length (nibs k) = length (nibs s) \<and> (\<exists>zs. nibs s = nibs k @ zs)"
    by (simp add: ns_equal_def nibs_facts(1) [symmetric] commonPrefix_full del: nibs_facts(1))
  also have "\<dots> \<longleftrightarrow> nibs s = nibs k" by (metis append_Nil2 append_eq_append_conv)
  finally show ?thesis .
qed

subsection \<open>What the encoders compute\<close>

fun pack :: "bytes \<Rightarrow> bytes" where
  "pack [] = []"
| "pack [a] = [push_bit 4 a]"
| "pack (a # b # ns) = (push_bit 4 a OR b) # pack ns"

definition hp :: "bytes \<Rightarrow> bool \<Rightarrow> bytes" where
  "hp k leaf =
     (if odd (length k) then (hpFlag leaf True OR hd k) # pack (tl k) else hpFlag leaf False # pack k)"

lemma hpeLoop_even: "even d \<Longrightarrow> hpeLoop ns d ret = ret @ pack ns"
  by (induction ns arbitrary: d ret rule: pack.induct) simp_all

lemma hpeLoop_hp: "hpeLoop k (if odd (length k) then 1 else 2) [hpFlag leaf (odd (length k))] = hp k leaf"
proof (cases "odd (length k)")
  case True
  then obtain a r where "k = a # r" by (cases k) simp_all
  with True show ?thesis by (simp add: hpeLoop_even hp_def)
next
  case False
  then show ?thesis by (simp add: hpeLoop_even hp_def)
qed

lemma map_nibble: "e \<le> 2 * length d \<Longrightarrow> map (nibble d) [b..<e] = take (e - b) (drop b (asNibbles d))"
  by (rule nth_equalityI) (simp_all add: nibble_nth)

lemma hexPrefixEncode_slice_hp:
  assumes "ns_offset s \<le> 2 * length (ns_data s)" "b \<le> e'" "e' \<le> ns_size s"
    and "e' = (if e < 0 then nat (int (ns_size s) + 1 + e) else nat e)"
  shows "hexPrefixEncode_slice s leaf b e = hp (take (e' - b) (drop b (nibs s))) leaf"
proof -
  have m: "map (nibble (ns_data s)) [b + ns_offset s..<e' + ns_offset s] = take (e' - b) (drop b (nibs s))"
    using assms(1,3) by (subst map_nibble) (simp_all add: ns_size_def nibs_def add.commute)
  have "hexPrefixEncode_slice s leaf b e =
      hpeLoop (map (nibble (ns_data s)) [b + ns_offset s..<e' + ns_offset s]) (if odd (e' - b) then 1 else 2) [hpFlag leaf (odd (e' - b))]"
    unfolding assms(4) hexPrefixEncode_slice_def Let_def ns_size_def by (simp add: mult.commute)
  also have "e' - b = length (take (e' - b) (drop b (nibs s)))" using assms(2,3) by simp
  finally show ?thesis unfolding m by (simp only: hpeLoop_hp)
qed

lemma hexPrefixEncode_two_hp:
  assumes "ns_offset s1 \<le> 2 * length (ns_data s1)" "ns_offset s2 \<le> 2 * length (ns_data s2)"
  shows "hexPrefixEncode_two s1 s2 leaf = hp (nibs s1 @ nibs s2) leaf"
proof -
  have m: "map (nibble (ns_data s)) [ns_offset s..<length (ns_data s) * 2] = nibs s" for s
    by (subst map_nibble) (simp_all add: nibs_def)
  have l: "length (ns_data s1) * 2 - ns_offset s1 + length (ns_data s2) * 2 - ns_offset s2 = length (nibs s1 @ nibs s2)"
    using assms by (simp add: ns_size_def)
  show ?thesis unfolding hexPrefixEncode_two_def Let_def m l by (simp only: hpeLoop_hp)
qed

subsection \<open>Reading what was encoded\<close>

lemma nibble_cases:
  assumes "(n :: byte) < 16"
  shows "n \<in> set (map word_of_nat [0..<16])"
proof -
  have "unat n \<in> set [0..<16]" using assms by (simp add: word_less_nat_alt)
  moreover have "n = word_of_nat (unat n)" by simp
  ultimately show ?thesis unfolding set_map by (rule rev_image_eqI)
qed

lemma nibble_bits:
  assumes "(a :: byte) < 16" "(b :: byte) < 16"
  shows "push_bit 4 a OR b = a * 16 + b" "drop_bit 4 (push_bit 4 a OR b) = a" "(push_bit 4 a OR b) AND 15 = b"
    "drop_bit 4 (push_bit 4 a) = a" "(push_bit 4 a) AND 15 = 0"
proof -
  have "list_all (\<lambda>a. list_all (\<lambda>b. push_bit 4 a OR b = a * 16 + b \<and> drop_bit 4 (push_bit 4 a OR b) = a \<and>
      (push_bit 4 a OR b) AND 15 = b \<and> drop_bit 4 (push_bit 4 a) = a \<and> (push_bit 4 a) AND 15 = 0)
      (map (word_of_nat :: nat \<Rightarrow> byte) [0..<16])) (map (word_of_nat :: nat \<Rightarrow> byte) [0..<16])"
    by code_simp
  with nibble_cases [OF assms(1)] nibble_cases [OF assms(2)]
  show "push_bit 4 a OR b = a * 16 + b" "drop_bit 4 (push_bit 4 a OR b) = a" "(push_bit 4 a OR b) AND 15 = b"
    "drop_bit 4 (push_bit 4 a) = a" "(push_bit 4 a) AND 15 = 0"
    unfolding list_all_iff by blast+
qed

lemma flag_bits:
  assumes "(a :: byte) < 16"
  shows "(hpFlag leaf odd' OR a) AND 15 = a" "(hpFlag leaf odd' OR a) AND 16 \<noteq> 0 \<longleftrightarrow> odd'" "(hpFlag leaf odd' OR a) AND 32 \<noteq> 0 \<longleftrightarrow> leaf"
    "hpFlag leaf odd' AND 16 \<noteq> 0 \<longleftrightarrow> odd'" "hpFlag leaf odd' AND 32 \<noteq> 0 \<longleftrightarrow> leaf"
proof -
  have "list_all (\<lambda>a. list_all (\<lambda>leaf. list_all (\<lambda>odd'. (hpFlag leaf odd' OR a) AND 15 = a \<and>
      ((hpFlag leaf odd' OR a) AND 16 \<noteq> 0 \<longleftrightarrow> odd') \<and> ((hpFlag leaf odd' OR a) AND 32 \<noteq> 0 \<longleftrightarrow> leaf) \<and>
      (hpFlag leaf odd' AND 16 \<noteq> 0 \<longleftrightarrow> odd') \<and> (hpFlag leaf odd' AND 32 \<noteq> 0 \<longleftrightarrow> leaf)) [True, False]) [True, False])
      (map (word_of_nat :: nat \<Rightarrow> byte) [0..<16])"
    by code_simp
  with nibble_cases [OF assms] show "(hpFlag leaf odd' OR a) AND 15 = a" "(hpFlag leaf odd' OR a) AND 16 \<noteq> 0 \<longleftrightarrow> odd'"
    "(hpFlag leaf odd' OR a) AND 32 \<noteq> 0 \<longleftrightarrow> leaf" "hpFlag leaf odd' AND 16 \<noteq> 0 \<longleftrightarrow> odd'" "hpFlag leaf odd' AND 32 \<noteq> 0 \<longleftrightarrow> leaf"
    unfolding list_all_iff by (cases leaf; cases odd'; auto)+
qed

lemma asNibbles_pack: "nibbled ns \<Longrightarrow> even (length ns) \<Longrightarrow> asNibbles (pack ns) = ns"
proof (induction ns rule: pack.induct)
  case (3 a b ns)
  then show ?case using nibble_bits(2,3) [of a b] by (simp add: asNibbles_Cons nibbled_def del: asNibbles_simps(2))
qed simp_all

lemma hp_nonempty [simp]: "hp k leaf \<noteq> []"
  by (simp add: hp_def)

lemma keyOf_hp:
  assumes "nibbled k"
  shows "nibs (keyOf (hp k leaf)) = k" "isLeaf (hp k leaf) = leaf" "ns_offset (keyOf (hp k leaf)) \<le> 2 * length (ns_data (keyOf (hp k leaf)))"
proof -
  have "nibs (keyOf (hp k leaf)) = k \<and> isLeaf (hp k leaf) = leaf \<and> ns_offset (keyOf (hp k leaf)) \<le> 2 * length (ns_data (keyOf (hp k leaf)))"
  proof (cases "odd (length k)")
    case True
    then obtain a r where k: "k = a # r" by (cases k) simp_all
    have a: "a < 16" "nibbled r" "even (length r)" using assms True by (simp_all add: k nibbled_def)
    have h: "hp (a # r) leaf = (hpFlag leaf True OR a) # pack r" using a(3) by (simp add: hp_def)
    have "keyOf (hp (a # r) leaf) = slice (hp (a # r) leaf) 1" using flag_bits(2) [OF a(1), of leaf True] by (simp add: keyOf_def h)
    moreover have "nibs (slice (hp (a # r) leaf) 1) = a # r"
      using flag_bits(1) [OF a(1), of leaf True] asNibbles_pack [OF a(2,3)] by (simp add: h asNibbles_Cons del: asNibbles_simps(2))
    moreover have "isLeaf (hp (a # r) leaf) = leaf" using flag_bits(3) [OF a(1), of leaf True] by (simp add: isLeaf_def h)
    ultimately show ?thesis unfolding k by (simp add: slice_def h)
  next
    case False
    then have h: "hp k leaf = hpFlag leaf False # pack k" by (simp add: hp_def)
    have "keyOf (hp k leaf) = slice (hp k leaf) 2" using flag_bits(4) [of 0 leaf False] by (simp add: keyOf_def h)
    moreover have "nibs (slice (hp k leaf) 2) = k"
      using asNibbles_pack [OF assms] False by (simp add: h asNibbles_Cons del: asNibbles_simps(2))
    moreover have "isLeaf (hp k leaf) = leaf" using flag_bits(5) [of 0 leaf False] by (simp add: isLeaf_def h)
    ultimately show ?thesis by (simp add: slice_def h)
  qed
  then show "nibs (keyOf (hp k leaf)) = k" "isLeaf (hp k leaf) = leaf"
    "ns_offset (keyOf (hp k leaf)) \<le> 2 * length (ns_data (keyOf (hp k leaf)))" by blast+
qed

lemma hexPairs_pack:
  "nibbled ns \<Longrightarrow> even (length ns) \<Longrightarrow> ns = take (length ns) (drop b v) \<Longrightarrow> b + length ns \<le> length v \<Longrightarrow>
     hexPairs v (map (\<lambda>j. b + 2 * j) [0..<length ns div 2]) = pack ns"
proof (induction ns arbitrary: b rule: pack.induct)
  case (3 x y ns)
  have len: "b + 1 < length v" using 3(5) by simp
  then have "drop b v = v ! b # v ! (b + 1) # drop (b + 2) v"
    by (simp add: Cons_nth_drop_Suc [symmetric])
  then have xy: "v ! b = x" "v ! (b + 1) = y" "ns = take (length ns) (drop (b + 2) v)" using 3(4) by auto
  have "[0..<length (x # y # ns) div 2] = 0 # map Suc [0..<length ns div 2]" by (simp add: upt_conv_Cons map_Suc_upt del: upt_Suc)
  then have "hexPairs v (map (\<lambda>j. b + 2 * j) [0..<length (x # y # ns) div 2]) =
      (x * 16 + y) # hexPairs v (map (\<lambda>j. b + 2 + 2 * j) [0..<length ns div 2])"
    by (simp add: xy(1,2) [symmetric] comp_def del: upt_Suc)
  also have "hexPairs v (map (\<lambda>j. b + 2 + 2 * j) [0..<length ns div 2]) = pack ns"
  proof (rule 3(1) [OF _ _ xy(3)])
    show "nibbled ns" "even (length ns)" using 3(2,3) by (simp_all add: nibbled_def)
    show "b + 2 + length ns \<le> length v" using 3(5) by simp
  qed
  finally show ?case using nibble_bits(1) [of x y] 3(2) by (simp add: nibbled_def)
qed simp_all

lemma hexPrefixEncode_hp:
  assumes "nibbled v" "b \<le> e'" "e' \<le> length v" "e' = (if e < 0 then nat (int (length v) + 1 + e) else nat e)"
  shows "hexPrefixEncode v leaf b e = hp (take (e' - b) (drop b v)) leaf"
proof -
  let ?k = "take (e' - b) (drop b v)"
  have k: "nibbled ?k" "length ?k = e' - b" using assms(1-3) by (auto simp: nibbled_def dest: in_set_takeD in_set_dropD)
  have start: "hexPrefixEncode v leaf b e = (let ret = hpFlag leaf (odd (e' - b)) in
      if odd (e' - b) then (ret OR v ! b) # hexPairs v (map (\<lambda>j. b + 1 + 2 * j) [0..<(e' - (b + 1)) div 2])
         else ret # hexPairs v (map (\<lambda>j. b + 2 * j) [0..<(e' - b) div 2]))"
    unfolding hexPrefixEncode_def Let_def assms(4) [symmetric] not_mod_2_eq_0_eq_1 odd_iff_mod_2_eq_one [symmetric] by (rule refl)
  show ?thesis
  proof (cases "odd (e' - b)")
    case True
    then have b: "b < e'" by (cases "b < e'") auto
    then have h: "?k = v ! b # take (e' - (b + 1)) (drop (b + 1) v)"
      using assms(3) by (simp add: Cons_nth_drop_Suc [symmetric] take_Cons' split: nat_diff_split)
    let ?r = "take (e' - (b + 1)) (drop (b + 1) v)"
    have r: "nibbled ?r" "length ?r = e' - (b + 1)" "even (length ?r)" using k(1) assms(3) b True unfolding h by (simp_all add: nibbled_def)
    have "hexPairs v (map (\<lambda>j. b + 1 + 2 * j) [0..<length ?r div 2]) = pack ?r"
      by (rule hexPairs_pack) (use r b assms(3) in auto)
    then have p: "hexPairs v (map (\<lambda>j. b + 1 + 2 * j) [0..<(e' - (b + 1)) div 2]) = pack ?r" unfolding r(2) .
    have "hp ?k leaf = (hpFlag leaf True OR v ! b) # pack ?r" using True k(2) unfolding h by (simp add: hp_def)
    then show ?thesis using True p by (simp add: start)
  next
    case False
    have "hexPairs v (map (\<lambda>j. b + 2 * j) [0..<length ?k div 2]) = pack ?k"
      by (rule hexPairs_pack) (use k False assms(2,3) in auto)
    then have p: "hexPairs v (map (\<lambda>j. b + 2 * j) [0..<(e' - b) div 2]) = pack ?k" unfolding k(2) .
    show ?thesis unfolding start hp_def k(2) Let_def p using False by simp
  qed
qed

end
