(* ===== verification/Node_DB.thy ===== *)
theory Node_DB
  imports Trie_Common
begin

section \<open>Where the nodes are kept (libdevcore/StateCacheDB, OverlayDB)\<close>

text \<open>
  \<open>StateCacheDB\<close> holds nodes in memory and counts how often each was inserted and killed; a node
  killed as often as it was inserted stays until \<open>purge\<close>, and is found as long as the counts are not
  enforced. \<open>OverlayDB\<close> puts it over a database: what is not in memory is looked up there, and
  \<open>commit\<close> writes what is still referred to. The database is a map from keys to values; the retries
  of a failing write are not modelled, nor is the guard of \<open>DEV_GUARDED_DB\<close>.
\<close>

subsection \<open>In memory\<close>

record StateCacheDB =
  m_main :: "h256 \<Rightarrow> (bytes \<times> 32 word) option"
  m_aux :: "h256 \<Rightarrow> (bytes \<times> bool) option"
  m_enforceRefs :: bool

definition emptyCacheDB :: StateCacheDB where
  "emptyCacheDB = \<lparr>m_main = Map.empty, m_aux = Map.empty, m_enforceRefs = False\<rparr>"

definition sc_get :: "('a) StateCacheDB_scheme \<Rightarrow> h256 \<Rightarrow> bytes option" where
  "sc_get d h =
     (case m_main d h of
        None \<Rightarrow> None
      | Some (v, n) \<Rightarrow> if \<not> m_enforceRefs d \<or> n > 0 then Some v else None)"

definition sc_lookup :: "('a) StateCacheDB_scheme \<Rightarrow> h256 \<Rightarrow> bytes" where
  "sc_lookup d h =
     (case m_main d h of
        None \<Rightarrow> []
      | Some (v, n) \<Rightarrow> if \<not> m_enforceRefs d \<or> n > 0 then v else [])"

definition sc_exists :: "('a) StateCacheDB_scheme \<Rightarrow> h256 \<Rightarrow> bool" where
  "sc_exists d h \<longleftrightarrow> (case m_main d h of None \<Rightarrow> False | Some (v, n) \<Rightarrow> \<not> m_enforceRefs d \<or> n > 0)"

definition sc_insert :: "h256 \<Rightarrow> bytes \<Rightarrow> ('a) StateCacheDB_scheme \<Rightarrow> ('a) StateCacheDB_scheme" where
  "sc_insert h v d =
     d\<lparr>m_main := (m_main d)(h \<mapsto> (v, case m_main d h of None \<Rightarrow> 1 | Some (_, n) \<Rightarrow> n + 1))\<rparr>"

definition sc_kill :: "h256 \<Rightarrow> ('a) StateCacheDB_scheme \<Rightarrow> bool \<times> ('a) StateCacheDB_scheme" where
  "sc_kill h d =
     (case m_main d h of
        None \<Rightarrow> (False, d)
      | Some (v, n) \<Rightarrow> if n > 0 then (True, d\<lparr>m_main := (m_main d)(h \<mapsto> (v, n - 1))\<rparr>) else (False, d))"

definition sc_lookupAux :: "('a) StateCacheDB_scheme \<Rightarrow> h256 \<Rightarrow> bytes" where
  "sc_lookupAux d h =
     (case m_aux d h of None \<Rightarrow> [] | Some (v, b) \<Rightarrow> if \<not> m_enforceRefs d \<or> b then v else [])"

definition sc_removeAux :: "h256 \<Rightarrow> ('a) StateCacheDB_scheme \<Rightarrow> ('a) StateCacheDB_scheme" where
  "sc_removeAux h d =
     d\<lparr>m_aux := (m_aux d)(h \<mapsto> (case m_aux d h of None \<Rightarrow> [] | Some (v, _) \<Rightarrow> v, False))\<rparr>"

definition sc_insertAux :: "h256 \<Rightarrow> bytes \<Rightarrow> ('a) StateCacheDB_scheme \<Rightarrow> ('a) StateCacheDB_scheme" where
  "sc_insertAux h v d = d\<lparr>m_aux := (m_aux d)(h \<mapsto> (v, True))\<rparr>"

definition sc_purge :: "('a) StateCacheDB_scheme \<Rightarrow> ('a) StateCacheDB_scheme" where
  "sc_purge d =
     d\<lparr>m_main := (\<lambda>h. case m_main d h of Some (v, n) \<Rightarrow> if n \<noteq> 0 then Some (v, n) else None | None \<Rightarrow> None),
       m_aux := (\<lambda>h. case m_aux d h of Some (v, b) \<Rightarrow> if b then Some (v, b) else None | None \<Rightarrow> None)\<rparr>"

definition sc_keys :: "('a) StateCacheDB_scheme \<Rightarrow> h256 set" where
  "sc_keys d = {h. case m_main d h of Some (v, n) \<Rightarrow> n \<noteq> 0 | None \<Rightarrow> False}"

definition sc_clear :: "('a) StateCacheDB_scheme \<Rightarrow> ('a) StateCacheDB_scheme" where
  "sc_clear d = d\<lparr>m_main := Map.empty, m_aux := Map.empty\<rparr>"

subsection \<open>Over a database\<close>

type_synonym kv_store = "bytes \<Rightarrow> bytes option"

record OverlayDB = StateCacheDB +
  m_db :: "kv_store option"

definition kv_lookup :: "kv_store \<Rightarrow> bytes \<Rightarrow> bytes" where
  "kv_lookup kv k = (case kv k of None \<Rightarrow> [] | Some v \<Rightarrow> v)"

definition od_lookup :: "OverlayDB \<Rightarrow> h256 \<Rightarrow> bytes" where
  "od_lookup d h =
     (let ret = sc_lookup d h in
      case m_db d of
        None \<Rightarrow> ret
      | Some kv \<Rightarrow> if ret \<noteq> [] then ret else kv_lookup kv (hashBytes h))"

definition od_exists :: "OverlayDB \<Rightarrow> h256 \<Rightarrow> bool" where
  "od_exists d h \<longleftrightarrow> sc_exists d h \<or> (case m_db d of None \<Rightarrow> False | Some kv \<Rightarrow> kv (hashBytes h) \<noteq> None)"

text \<open>The rest of \<open>OverlayDB::kill\<close> only reports.\<close>

definition od_kill :: "h256 \<Rightarrow> OverlayDB \<Rightarrow> OverlayDB" where
  "od_kill h d = snd (sc_kill h d)"

definition od_lookupAux :: "OverlayDB \<Rightarrow> h256 \<Rightarrow> bytes" where
  "od_lookupAux d h =
     (let ret = sc_lookupAux d h in
      case m_db d of
        None \<Rightarrow> ret
      | Some kv \<Rightarrow> if ret \<noteq> [] then ret else kv_lookup kv (hashBytes h @ [255]))"

definition od_rollback :: "OverlayDB \<Rightarrow> OverlayDB" where
  "od_rollback d = d\<lparr>m_main := Map.empty\<rparr>"

text \<open>
  The write batch: the referenced nodes under their hash, the auxiliary entries under their hash and
  a byte 255. A node's key has 32 bytes and an entry's 33, so the order of the writes is no matter.
\<close>

definition batch :: "OverlayDB \<Rightarrow> kv_store \<Rightarrow> kv_store" where
  "batch d kv k =
     (if length k = 32
      then (case m_main d (word_of_nat (fromBigEndian k)) of
              Some (v, n) \<Rightarrow> if n \<noteq> 0 then Some v else kv k | None \<Rightarrow> kv k)
      else if length k = 33 \<and> last k = 255
      then (case m_aux d (word_of_nat (fromBigEndian (butlast k))) of
              Some (v, b) \<Rightarrow> if b then Some v else kv k | None \<Rightarrow> kv k)
      else kv k)"

definition od_commit :: "OverlayDB \<Rightarrow> OverlayDB" where
  "od_commit d =
     (case m_db d of
        None \<Rightarrow> d
      | Some kv \<Rightarrow> d\<lparr>m_db := Some (batch d kv), m_aux := Map.empty, m_main := Map.empty\<rparr>)"

subsection \<open>The interface of the trie\<close>

text \<open>The class parameter \<open>_DB\<close> of the trie: its operations.\<close>

record 'd node_db =
  nd_lookup :: "'d \<Rightarrow> h256 \<Rightarrow> bytes"
  nd_exists :: "'d \<Rightarrow> h256 \<Rightarrow> bool"
  nd_insert :: "h256 \<Rightarrow> bytes \<Rightarrow> 'd \<Rightarrow> 'd"
  nd_kill :: "h256 \<Rightarrow> 'd \<Rightarrow> 'd"

definition cacheNodes :: "StateCacheDB node_db" where
  "cacheNodes = \<lparr>nd_lookup = sc_lookup, nd_exists = sc_exists, nd_insert = sc_insert, nd_kill = (\<lambda>h d. snd (sc_kill h d))\<rparr>"

definition overlayNodes :: "OverlayDB node_db" where
  "overlayNodes = \<lparr>nd_lookup = od_lookup, nd_exists = od_exists, nd_insert = sc_insert, nd_kill = od_kill\<rparr>"

text \<open>
  What the trie relies on: a node inserted is found, and killing one does not hide it. It is the
  latter that lets a node that is killed and inserted again in one operation be read in between.
\<close>

locale node_store =
  fixes N :: "'d node_db" and ready :: "'d \<Rightarrow> bool"
  assumes lookup_insert: "ready d \<Longrightarrow> b \<noteq> [] \<Longrightarrow> nd_lookup N (nd_insert N h b d) h' = (if h' = h then b else nd_lookup N d h')"
    and lookup_kill: "ready d \<Longrightarrow> nd_lookup N (nd_kill N h d) h' = nd_lookup N d h'"
    and ready_insert: "ready d \<Longrightarrow> ready (nd_insert N h b d)"
    and ready_kill: "ready d \<Longrightarrow> ready (nd_kill N h d)"

definition lenient :: "('a) StateCacheDB_scheme \<Rightarrow> bool" where
  "lenient d \<longleftrightarrow> \<not> m_enforceRefs d"

lemma sc_lookup_insert: "lenient d \<Longrightarrow> sc_lookup (sc_insert h b d) h' = (if h' = h then b else sc_lookup d h')"
  by (auto simp: sc_lookup_def sc_insert_def lenient_def split: option.splits)

lemma sc_lookup_kill: "lenient d \<Longrightarrow> sc_lookup (snd (sc_kill h d)) h' = sc_lookup d h'"
  by (auto simp: sc_lookup_def sc_kill_def lenient_def split: option.splits prod.splits)

lemma lenient_ops [simp]: "lenient (sc_insert h b d) = lenient d" "lenient (snd (sc_kill h d)) = lenient d"
  by (auto simp: lenient_def sc_insert_def sc_kill_def split: option.splits prod.splits)

lemma overlay_ops [simp]: "m_db (sc_insert h b d) = m_db d" "m_db (snd (sc_kill h d)) = m_db d"
  by (auto simp: sc_insert_def sc_kill_def split: option.splits prod.splits)

interpretation cached: node_store cacheNodes lenient
  by unfold_locales (simp_all add: cacheNodes_def sc_lookup_insert sc_lookup_kill)

interpretation overlaid: node_store overlayNodes lenient
  by unfold_locales
    (auto simp: overlayNodes_def od_lookup_def od_kill_def sc_lookup_insert sc_lookup_kill Let_def split: option.splits)

end
