(* ===== verification/Trie_DB.thy ===== *)
theory Trie_DB
  imports Node_DB
begin

section \<open>The Merkle-Patricia trie (libdevcore/TrieDB.h)\<close>

text \<open>
  A node of the trie is a list of two or of seventeen items: the rest of a key in hex-prefix notation
  with a value (a leaf) or with a node, or sixteen nodes and a value. A node stands in its parent as it
  is when its encoding is shorter than 32 bytes, and otherwise as the hash under which its encoding
  is in the database. \<open>RLP\<close> objects are the items they encode; \<open>None\<close> is the null object, the \<open>RLP\<close>
  of the empty string the database returns for an unknown hash. What is read from the database is
  read whole: bytes that are not the encoding of an item throughout are refused here, where the code
  refuses the part it looks at; the trie writes no such bytes. The database is the class parameter
  \<open>_DB\<close>, the hash function an argument. A failing assertion, which a release build does not check,
  stops the model, as does reading a nibble past the end of a key. The recursion through the
  database is cut at a number of levels: in a database with a cycle the code would not come back.
\<close>

datatype trie_error = BadNode rlp_error | AssertFailed | PastTheEnd | RootNotFound | BadRoot | TooDeep

definition liftNode :: "rlp_error + 'a \<Rightarrow> trie_error + 'a" where
  "liftNode r = (case r of Inl x \<Rightarrow> Inl (BadNode x) | Inr x \<Rightarrow> Inr x)"

definition asRLP :: "bytes \<Rightarrow> trie_error + rlp_item option" where
  "asRLP bs = (if bs = [] then Inr None else andThen (liftNode (readItem bs)) (\<lambda>it. Inr (Some it)))"

definition it_toHash :: "rlp_item \<Rightarrow> trie_error + h256" where
  "it_toHash r = andThen (liftNode (toHash 32 (enc r) Strict)) (\<lambda>bs. Inr (word_of_nat (fromBigEndian bs)))"

definition it_toString :: "rlp_item \<Rightarrow> bytes" where
  "it_toString r = (case r of Str bs \<Rightarrow> bs | Lst _ \<Rightarrow> [])"

definition assertThat :: "bool \<Rightarrow> trie_error + unit" where
  "assertThat b = throwIf (\<not> b) AssertFailed"

text \<open>\<open>RLPStream\<close> of a list of items.\<close>

definition rlpList :: "rlp_item list \<Rightarrow> trie_error + bytes" where
  "rlpList xs = liftNode (rlp_of (Lst xs))"

definition RLPNull :: bytes where
  "RLPNull = [128]"

definition EmptyTrie :: "(bytes \<Rightarrow> h256) \<Rightarrow> h256" where
  "EmptyTrie sha3 = sha3 RLPNull"

text \<open>A node of two or seventeen items; the null object has none.\<close>

definition isNode :: "rlp_item \<Rightarrow> bool" where
  "isNode r \<longleftrightarrow> it_isList r \<and> (it_itemCount r = 2 \<or> it_itemCount r = 17)"

text \<open>The key part of a node of two items; an empty one has no flags to read.\<close>

definition nodeKey :: "rlp_item \<Rightarrow> trie_error + (NibbleSlice \<times> bool)" where
  "nodeKey r =
     (let p = it_payload (it_at r 0) in if p = [] then Inl PastTheEnd else Inr (keyOf p, isLeaf p))"

text \<open>The hash function and the database of a trie.\<close>

record 'd trie_env =
  te_sha3 :: "bytes \<Rightarrow> h256"
  te_nodes :: "'d node_db"

definition node :: "'d trie_env \<Rightarrow> 'd \<Rightarrow> h256 \<Rightarrow> bytes" where
  "node E d h = nd_lookup (te_nodes E) d h"

definition forceInsertNode :: "'d trie_env \<Rightarrow> bytes \<Rightarrow> 'd \<Rightarrow> h256 \<times> 'd" where
  "forceInsertNode E b d = (let h = te_sha3 E b in (h, nd_insert (te_nodes E) h b d))"

definition killNode :: "'d trie_env \<Rightarrow> rlp_item \<Rightarrow> h256 \<Rightarrow> 'd \<Rightarrow> 'd" where
  "killNode E r h d = (if length (enc r) \<ge> 32 then nd_kill (te_nodes E) h d else d)"

definition killItem :: "'d trie_env \<Rightarrow> rlp_item \<Rightarrow> 'd \<Rightarrow> 'd" where
  "killItem E r d = killNode E r (te_sha3 E (enc r)) d"

definition streamNode :: "'d trie_env \<Rightarrow> bytes \<Rightarrow> 'd \<Rightarrow> trie_error + rlp_item \<times> 'd" where
  "streamNode E b d =
     (if length b < 32 then andThen (liftNode (readItem b)) (\<lambda>it. Inr (it, d))
      else (let (h, d) = forceInsertNode E b d in Inr (Str (hashBytes h), d)))"

definition childNode :: "'d trie_env \<Rightarrow> 'd \<Rightarrow> rlp_item \<Rightarrow> trie_error + rlp_item option" where
  "childNode E d r =
     (if it_isList r then Inr (Some r) else andThen (it_toHash r) (\<lambda>h. asRLP (node E d h)))"

subsection \<open>Looking up\<close>

fun atAux :: "nat \<Rightarrow> 'd trie_env \<Rightarrow> 'd \<Rightarrow> rlp_item option \<Rightarrow> NibbleSlice \<Rightarrow> trie_error + bytes" where
  "atAux 0 E d here k = Inl TooDeep"
| "atAux (Suc n) E d None k = Inr []"
| "atAux (Suc n) E d (Some here) k =
     (if it_isEmpty here then Inr []
      else andThen (assertThat (isNode here)) (\<lambda>_.
        if it_itemCount here = 2
        then andThen (nodeKey here) (\<lambda>(k', leaf).
             if ns_equal k k' \<and> leaf then Inr (it_toString (it_at here 1))
             else if ns_contains k k' \<and> \<not> leaf
             then andThen (childNode E d (it_at here 1)) (\<lambda>r. atAux n E d r (ns_mid k (ns_size k')))
             else Inr [])
        else if ns_size k = 0 then Inr (it_toString (it_at here 16))
        else (let r = it_at here (unat (ns_at k 0)) in
              if it_isEmpty r then Inr []
              else andThen (childNode E d r) (\<lambda>r. atAux n E d r (ns_mid k 1)))))"

subsection \<open>Steps of an insertion\<close>

definition place :: "'d trie_env \<Rightarrow> rlp_item \<Rightarrow> NibbleSlice \<Rightarrow> bytes \<Rightarrow> 'd \<Rightarrow> trie_error + bytes \<times> 'd" where
  "place E orig k s d =
     (let d = killItem E orig d in
      if it_isEmpty orig
      then andThen (rlpList [Str (hexPrefixEncode_slice k True 0 (-1)), Str s]) (\<lambda>b. Inr (b, d))
      else andThen (assertThat (isNode orig)) (\<lambda>_.
           if it_itemCount orig = 2
           then andThen (rlpList [it_at orig 0, Str s]) (\<lambda>b. Inr (b, d))
           else andThen (rlpList (map (it_at orig) [0..<16] @ [Str s])) (\<lambda>b. Inr (b, d))))"

definition cleve :: "'d trie_env \<Rightarrow> rlp_item \<Rightarrow> nat \<Rightarrow> 'd \<Rightarrow> trie_error + bytes \<times> 'd" where
  "cleve E orig s d =
     (let d = killItem E orig d in
      andThen (assertThat (it_isList orig \<and> it_itemCount orig = 2)) (\<lambda>_.
      andThen (nodeKey orig) (\<lambda>(k, leaf).
      andThen (assertThat (s \<noteq> 0 \<and> s \<le> ns_size k)) (\<lambda>_.
      andThen (rlpList [Str (hexPrefixEncode_slice k leaf s (-1)), it_at orig 1]) (\<lambda>bottom.
      andThen (streamNode E bottom d) (\<lambda>(r, d).
      andThen (rlpList [Str (hexPrefixEncode_slice k False 0 (int s)), r]) (\<lambda>top. Inr (top, d))))))))"

definition branch :: "'d trie_env \<Rightarrow> rlp_item \<Rightarrow> 'd \<Rightarrow> trie_error + bytes \<times> 'd" where
  "branch E orig d =
     andThen (assertThat (it_isList orig \<and> it_itemCount orig = 2)) (\<lambda>_.
     let d = killItem E orig d in
     andThen (nodeKey orig) (\<lambda>(k, leaf).
     if ns_size k = 0
     then andThen (assertThat leaf) (\<lambda>_.
          andThen (rlpList (replicate 16 (Str []) @ [it_at orig 1])) (\<lambda>b. Inr (b, d)))
     else andThen (if leaf \<or> ns_size k > 1
                   then andThen (rlpList [Str (hexPrefixEncode_slice (ns_mid k 1) leaf 0 (-1)), it_at orig 1]) (\<lambda>b.
                        streamNode E b d)
                   else Inr (it_at orig 1, d)) (\<lambda>(r, d).
          andThen (rlpList ((replicate 16 (Str []))[unat (ns_at k 0) := r] @ [Str []])) (\<lambda>b. Inr (b, d)))))"

text \<open>What \<open>mergeAtAux\<close> merges into: the node itself or the one behind the hash.\<close>

definition mergeChild :: "'d trie_env \<Rightarrow> rlp_item \<Rightarrow> 'd \<Rightarrow> trie_error + rlp_item \<times> bool" where
  "mergeChild E orig d =
     (if \<not> it_isList orig \<and> \<not> it_isEmpty orig
      then andThen (it_toHash orig) (\<lambda>h. andThen (asRLP (node E d h)) (\<lambda>r.
           case r of None \<Rightarrow> Inl AssertFailed | Some r \<Rightarrow> Inr (r, True)))
      else Inr (orig, False))"

text \<open>Reading back what a step wrote.\<close>

definition rereadNode :: "bytes \<Rightarrow> trie_error + rlp_item" where
  "rereadNode b = liftNode (readItem b)"

fun mergeAt :: "nat \<Rightarrow> 'd trie_env \<Rightarrow> rlp_item \<Rightarrow> h256 \<Rightarrow> NibbleSlice \<Rightarrow> bytes \<Rightarrow> bool \<Rightarrow> 'd \<Rightarrow> trie_error + bytes \<times> 'd"
  and mergeAtAux :: "nat \<Rightarrow> 'd trie_env \<Rightarrow> rlp_item \<Rightarrow> NibbleSlice \<Rightarrow> bytes \<Rightarrow> 'd \<Rightarrow> trie_error + rlp_item \<times> 'd" where
  "mergeAt 0 E orig h k v inLine d = Inl TooDeep"
| "mergeAt (Suc n) E orig h k v inLine d =
     (if it_isEmpty orig then place E orig k v d
      else andThen (assertThat (isNode orig)) (\<lambda>_.
        if it_itemCount orig = 2
        then andThen (nodeKey orig) (\<lambda>(k', leaf).
             if ns_equal k' k \<and> leaf then place E orig k v d
             else if ns_contains k k' \<and> \<not> leaf
             then (let d = (if inLine then d else killNode E orig h d) in
                   andThen (mergeAtAux n E (it_at orig 1) (ns_mid k (ns_size k')) v d) (\<lambda>(r, d).
                   andThen (rlpList [it_at orig 0, r]) (\<lambda>b. Inr (b, d))))
             else (let s = ns_shared k k' in
                   if s \<noteq> 0
                   then andThen (cleve E orig s d) (\<lambda>(b, d). andThen (rereadNode b) (\<lambda>r.
                        mergeAt n E r (te_sha3 E b) k v True d))
                   else andThen (branch E orig d) (\<lambda>(b, d). andThen (rereadNode b) (\<lambda>r.
                        mergeAt n E r (te_sha3 E b) k v True d))))
        else if ns_size k = 0 then place E orig k v d
        else (let d = (if inLine then d else killNode E orig h d); i = unat (ns_at k 0) in
              andThen (mergeAtAux n E (it_at orig i) (ns_mid k 1) v d) (\<lambda>(r, d).
              andThen (rlpList ((map (it_at orig) [0..<17])[i := r])) (\<lambda>b. Inr (b, d))))))"
| "mergeAtAux 0 E orig k v d = Inl TooDeep"
| "mergeAtAux (Suc n) E orig k v d =
     andThen (mergeChild E orig d) (\<lambda>(r, isRemovable).
     andThen (mergeAt n E r (te_sha3 E (enc r)) k v (\<not> isRemovable) d) (\<lambda>(b, d). streamNode E b d))"

subsection \<open>Steps of a removal\<close>

definition isTwoItemNode :: "'d trie_env \<Rightarrow> 'd \<Rightarrow> rlp_item \<Rightarrow> trie_error + bool" where
  "isTwoItemNode E d r =
     (if it_isList r then Inr (it_itemCount r = 2)
      else andThen (it_toHash r) (\<lambda>h. andThen (asRLP (node E d h)) (\<lambda>n.
           Inr (case n of None \<Rightarrow> False | Some n \<Rightarrow> it_itemCount n = 2))))"

definition graft :: "'d trie_env \<Rightarrow> rlp_item \<Rightarrow> 'd \<Rightarrow> trie_error + bytes \<times> 'd" where
  "graft E orig d =
     andThen (assertThat (it_isList orig \<and> it_itemCount orig = 2)) (\<lambda>_.
     andThen (if it_isList (it_at orig 1) then Inr (Some (it_at orig 1), d)
              else andThen (it_toHash (it_at orig 1)) (\<lambda>h.
                   andThen (asRLP (node E d h)) (\<lambda>r. Inr (r, nd_kill (te_nodes E) h d)))) (\<lambda>(n, d).
     case n of
       None \<Rightarrow> Inl AssertFailed
     | Some n \<Rightarrow>
         andThen (assertThat (it_itemCount n = 2)) (\<lambda>_.
         andThen (nodeKey orig) (\<lambda>(k1, _). andThen (nodeKey n) (\<lambda>(k2, leaf).
         andThen (rlpList [Str (hexPrefixEncode_two k1 k2 leaf), it_at n 1]) (\<lambda>b. Inr (b, d)))))))"

definition merge :: "rlp_item \<Rightarrow> nat \<Rightarrow> trie_error + bytes" where
  "merge orig i =
     andThen (assertThat (it_isList orig \<and> it_itemCount orig = 17)) (\<lambda>_.
     if i \<noteq> 16
     then andThen (assertThat (\<not> it_isEmpty (it_at orig i))) (\<lambda>_.
          rlpList [Str (hexPrefixEncode_slice (slice [word_of_nat i] 0) False 1 2), it_at orig i])
     else rlpList [Str (hexPrefixEncode [] True 0 (-1)), it_at orig i])"

text \<open>What becomes of a branch with a single entry in use.\<close>

definition mergeUsed :: "'d trie_env \<Rightarrow> rlp_item \<Rightarrow> nat \<Rightarrow> 'd \<Rightarrow> trie_error + bytes \<times> 'd" where
  "mergeUsed E orig used d =
     andThen (isTwoItemNode E d (it_at orig used)) (\<lambda>two.
     andThen (merge orig used) (\<lambda>b.
     if two then andThen (rereadNode b) (\<lambda>r. graft E r d) else Inr (b, d)))"

text \<open>\<open>deleteAt\<close> returns no bytes when the key is not there, \<open>deleteAtAux\<close> no item.\<close>

fun deleteAt :: "nat \<Rightarrow> 'd trie_env \<Rightarrow> rlp_item option \<Rightarrow> NibbleSlice \<Rightarrow> 'd \<Rightarrow> trie_error + bytes \<times> 'd"
  and deleteAtAux :: "nat \<Rightarrow> 'd trie_env \<Rightarrow> rlp_item \<Rightarrow> NibbleSlice \<Rightarrow> 'd \<Rightarrow> trie_error + rlp_item option \<times> 'd" where
  "deleteAt 0 E orig k d = Inl TooDeep"
| "deleteAt (Suc n) E None k d = Inl AssertFailed"
| "deleteAt (Suc n) E (Some orig) k d =
     (if it_isEmpty orig then Inr ([], d)
      else andThen (assertThat (isNode orig)) (\<lambda>_.
        if it_itemCount orig = 2
        then andThen (nodeKey orig) (\<lambda>(k', leaf).
             if ns_equal k' k \<and> leaf then Inr (RLPNull, killItem E orig d)
             else if ns_contains k k'
             then andThen (deleteAtAux n E (it_at orig 1) (ns_mid k (ns_size k')) d) (\<lambda>(r, d).
                  case r of
                    None \<Rightarrow> Inr ([], d)
                  | Some r \<Rightarrow>
                      (let d = killItem E orig d in
                       andThen (rlpList [it_at orig 0, r]) (\<lambda>b.
                       andThen (isTwoItemNode E d r) (\<lambda>two.
                       if two then graft E (Lst [it_at orig 0, r]) d else Inr (b, d)))))
             else Inr ([], d))
        else if ns_size k = 0 \<and> \<not> it_isEmpty (it_at orig 16)
        then (let d = killItem E orig d; used = uniqueInUse orig 16 in
              if used \<noteq> 255 then mergeUsed E orig used d
              else andThen (rlpList (map (it_at orig) [0..<16] @ [Str []])) (\<lambda>b. Inr (b, d)))
        else if ns_size k = 0 then Inl PastTheEnd
        else (let i = unat (ns_at k 0) in
              andThen (deleteAtAux n E (it_at orig i) (ns_mid k 1) d) (\<lambda>(r, d).
              case r of
                None \<Rightarrow> Inr ([], d)
              | Some r \<Rightarrow>
                  (let d = killItem E orig d; items = (map (it_at orig) [0..<17])[i := r] in
                   andThen (rlpList items) (\<lambda>b.
                   let used = uniqueInUse (Lst items) 255 in
                   if used = 255 then Inr (b, d) else mergeUsed E (Lst items) used d))))))"
| "deleteAtAux 0 E orig k d = Inl TooDeep"
| "deleteAtAux (Suc n) E orig k d =
     (if it_isEmpty orig then Inr (None, d)
      else andThen (childNode E d orig) (\<lambda>r. andThen (deleteAt n E r k d) (\<lambda>(b, d).
           if b = [] then Inr (None, d)
           else andThen (streamNode E b d) (\<lambda>(it, d). Inr (Some it, d)))))"

subsection \<open>The trie\<close>

record 'd GenericTrieDB =
  m_root :: h256
  td_db :: 'd

definition trie_at :: "nat \<Rightarrow> 'd trie_env \<Rightarrow> 'd GenericTrieDB \<Rightarrow> bytes \<Rightarrow> trie_error + bytes" where
  "trie_at n E T key =
     andThen (asRLP (node E (td_db T) (m_root T))) (\<lambda>r. atAux n E (td_db T) r (slice key 0))"

definition trie_contains :: "nat \<Rightarrow> 'd trie_env \<Rightarrow> 'd GenericTrieDB \<Rightarrow> bytes \<Rightarrow> trie_error + bool" where
  "trie_contains n E T key = andThen (trie_at n E T key) (\<lambda>s. Inr (s \<noteq> []))"

text \<open>The root is always under its hash, whatever its length.\<close>

definition setRootNode :: "'d trie_env \<Rightarrow> 'd GenericTrieDB \<Rightarrow> bytes \<Rightarrow> bytes \<Rightarrow> 'd \<Rightarrow> 'd GenericTrieDB" where
  "setRootNode E T old b d =
     (let d = (if length old < 32 then nd_kill (te_nodes E) (m_root T) d else d);
          (h, d) = forceInsertNode E b d
      in T\<lparr>m_root := h, td_db := d\<rparr>)"

definition trie_insert :: "nat \<Rightarrow> 'd trie_env \<Rightarrow> bytes \<Rightarrow> bytes \<Rightarrow> 'd GenericTrieDB \<Rightarrow> trie_error + 'd GenericTrieDB" where
  "trie_insert n E key value T =
     (let rootValue = node E (td_db T) (m_root T) in
      andThen (asRLP rootValue) (\<lambda>r.
      case r of
        None \<Rightarrow> Inl AssertFailed
      | Some r \<Rightarrow>
          andThen (mergeAt n E r (m_root T) (slice key 0) value False (td_db T)) (\<lambda>(b, d).
          Inr (setRootNode E T rootValue b d))))"

definition trie_remove :: "nat \<Rightarrow> 'd trie_env \<Rightarrow> bytes \<Rightarrow> 'd GenericTrieDB \<Rightarrow> trie_error + 'd GenericTrieDB" where
  "trie_remove n E key T =
     (let rv = node E (td_db T) (m_root T) in
      andThen (asRLP rv) (\<lambda>r.
      andThen (deleteAt n E r (slice key 0) (td_db T)) (\<lambda>(b, d).
      Inr (if b = [] then T\<lparr>td_db := d\<rparr> else setRootNode E T rv b d))))"

definition trie_init :: "'d trie_env \<Rightarrow> 'd \<Rightarrow> trie_error + 'd GenericTrieDB" where
  "trie_init E d =
     (let (h, d) = forceInsertNode E RLPNull d in
      if node E d h = [] then Inl RootNotFound else Inr \<lparr>m_root = h, td_db = d\<rparr>)"

definition trie_open :: "'d trie_env \<Rightarrow> h256 \<Rightarrow> 'd \<Rightarrow> trie_error + 'd GenericTrieDB" where
  "trie_open E root d =
     andThen (if root = EmptyTrie (te_sha3 E) \<and> \<not> nd_exists (te_nodes E) d root
              then trie_init E d else Inr \<lparr>m_root = root, td_db = d\<rparr>) (\<lambda>T.
     if node E (td_db T) (m_root T) = [] then Inl RootNotFound else Inr T)"

definition trie_isNull :: "'d trie_env \<Rightarrow> 'd GenericTrieDB \<Rightarrow> bool" where
  "trie_isNull E T \<longleftrightarrow> node E (td_db T) (m_root T) = []"

definition trie_isEmpty :: "'d trie_env \<Rightarrow> 'd GenericTrieDB \<Rightarrow> bool" where
  "trie_isEmpty E T \<longleftrightarrow> m_root T = EmptyTrie (te_sha3 E) \<and> node E (td_db T) (m_root T) \<noteq> []"

definition trie_root :: "'d trie_env \<Rightarrow> 'd GenericTrieDB \<Rightarrow> trie_error + h256" where
  "trie_root E T = (if node E (td_db T) (m_root T) = [] then Inl BadRoot else Inr (m_root T))"

text \<open>The trie with hashed keys.\<close>

definition hashed_at :: "nat \<Rightarrow> 'd trie_env \<Rightarrow> 'd GenericTrieDB \<Rightarrow> bytes \<Rightarrow> trie_error + bytes" where
  "hashed_at n E T key = trie_at n E T (hashBytes (te_sha3 E key))"

definition hashed_contains :: "nat \<Rightarrow> 'd trie_env \<Rightarrow> 'd GenericTrieDB \<Rightarrow> bytes \<Rightarrow> trie_error + bool" where
  "hashed_contains n E T key = trie_contains n E T (hashBytes (te_sha3 E key))"

definition hashed_insert :: "nat \<Rightarrow> 'd trie_env \<Rightarrow> bytes \<Rightarrow> bytes \<Rightarrow> 'd GenericTrieDB \<Rightarrow> trie_error + 'd GenericTrieDB" where
  "hashed_insert n E key value T = trie_insert n E (hashBytes (te_sha3 E key)) value T"

definition hashed_remove :: "nat \<Rightarrow> 'd trie_env \<Rightarrow> bytes \<Rightarrow> 'd GenericTrieDB \<Rightarrow> trie_error + 'd GenericTrieDB" where
  "hashed_remove n E key T = trie_remove n E (hashBytes (te_sha3 E key)) T"

text \<open>The trie with hashed keys that remembers them.\<close>

definition fat_insert :: "nat \<Rightarrow> StateCacheDB trie_env \<Rightarrow> bytes \<Rightarrow> bytes \<Rightarrow> StateCacheDB GenericTrieDB \<Rightarrow> trie_error + StateCacheDB GenericTrieDB" where
  "fat_insert n E key value T =
     (let h = te_sha3 E key in
      andThen (trie_insert n E (hashBytes h) value T) (\<lambda>T. Inr (T\<lparr>td_db := sc_insertAux h key (td_db T)\<rparr>)))"

end
