(* ===== verification/Patricia.thy ===== *)
theory Patricia
  imports Trie_Common "HOL-Library.Sublist"
begin

section \<open>Tries as data: the specification\<close>

text \<open>
  A trie without its encoding: a leaf with the rest of a key and a value, an extension by some
  nibbles, a branch with sixteen children and a value. Looking a key up gives the empty value when
  it is absent, as in the code. Insertion and removal follow the cases of the code, without the
  database; the theory shows that they update the map, keep the normal form, and that the
  normal form is determined by the map.
\<close>

datatype ptrie = PEmpty | PLeaf bytes bytes | PExt bytes ptrie | PBranch "ptrie list" bytes

lemma size_child [termination_simp]: "i < length ts \<Longrightarrow> size (ts ! i) < Suc (size_list size ts)"
  using size_list_estimation' [of "ts ! i" ts "size (ts ! i)" size] by (simp add: less_Suc_eq_le)

function p_get :: "ptrie \<Rightarrow> bytes \<Rightarrow> bytes" where
  "p_get PEmpty k = []"
| "p_get (PLeaf l v) k = (if k = l then v else [])"
| "p_get (PExt l t) k = (if prefix l k then p_get t (drop (length l) k) else [])"
| "p_get (PBranch ts v) [] = v"
| "p_get (PBranch ts v) (n # k) = (if unat n < length ts then p_get (ts ! unat n) k else [])"
  by pat_completeness auto
termination by (relation "measure (\<lambda>(t, k). size t)") (auto simp: size_child)

definition noChildren :: "ptrie list" where
  "noChildren = replicate 16 PEmpty"

definition p_branch :: "ptrie \<Rightarrow> ptrie list \<times> bytes" where
  "p_branch t =
     (case t of
        PLeaf [] w \<Rightarrow> (noChildren, w)
      | PLeaf (n # l) w \<Rightarrow> (noChildren[unat n := PLeaf l w], [])
      | PExt (n # l) u \<Rightarrow> (noChildren[unat n := (if l = [] then u else PExt l u)], [])
      | _ \<Rightarrow> (noChildren, []))"

text \<open>A key goes into a leaf or an extension with which it shares no nibble.\<close>

definition p_split :: "ptrie \<Rightarrow> bytes \<Rightarrow> bytes \<Rightarrow> ptrie" where
  "p_split t k v =
     (let (ts, w) = p_branch t in
      case k of [] \<Rightarrow> PBranch ts v | n # k \<Rightarrow> PBranch (ts[unat n := PLeaf k v]) w)"

function p_insert :: "ptrie \<Rightarrow> bytes \<Rightarrow> bytes \<Rightarrow> ptrie" where
  "p_insert PEmpty k v = PLeaf k v"
| "p_insert (PLeaf l w) k v =
     (if l = k then PLeaf k v
      else let s = commonPrefix k l in
           if s = 0 then p_split (PLeaf l w) k v
           else PExt (take s l) (p_split (PLeaf (drop s l) w) (drop s k) v))"
| "p_insert (PExt l t) k v =
     (if prefix l k then PExt l (p_insert t (drop (length l) k) v)
      else let s = commonPrefix k l in
           if s = 0 then p_split (PExt l t) k v
           else PExt (take s l) (p_split (PExt (drop s l) t) (drop s k) v))"
| "p_insert (PBranch ts w) [] v = PBranch ts v"
| "p_insert (PBranch ts w) (n # k) v =
     (if unat n < length ts then PBranch (ts[unat n := p_insert (ts ! unat n) k v]) w else PBranch ts w)"
  by pat_completeness auto
termination by (relation "measure (\<lambda>(t, k, v). size t)") (auto simp: size_child)

text \<open>Removal, for tries in which no key is the beginning of another.\<close>

definition p_graft :: "bytes \<Rightarrow> ptrie \<Rightarrow> ptrie" where
  "p_graft l t = (case t of PLeaf m v \<Rightarrow> PLeaf (l @ m) v | PExt m u \<Rightarrow> PExt (l @ m) u | _ \<Rightarrow> PExt l t)"

definition usedChildren :: "ptrie list \<Rightarrow> nat list" where
  "usedChildren ts = filter (\<lambda>i. ts ! i \<noteq> PEmpty) [0..<length ts]"

definition p_shrink :: "ptrie list \<Rightarrow> ptrie" where
  "p_shrink ts = (case usedChildren ts of [i] \<Rightarrow> p_graft [word_of_nat i] (ts ! i) | _ \<Rightarrow> PBranch ts [])"

function p_delete :: "ptrie \<Rightarrow> bytes \<Rightarrow> ptrie option" where
  "p_delete PEmpty k = None"
| "p_delete (PLeaf l w) k = (if l = k then Some PEmpty else None)"
| "p_delete (PExt l t) k = (if prefix l k then map_option (p_graft l) (p_delete t (drop (length l) k)) else None)"
| "p_delete (PBranch ts w) [] = None"
| "p_delete (PBranch ts w) (n # k) =
     (if unat n < length ts then map_option (\<lambda>u. p_shrink (ts[unat n := u])) (p_delete (ts ! unat n) k) else None)"
  by pat_completeness auto
termination by (relation "measure (\<lambda>(t, k). size t)") (auto simp: size_child)

subsection \<open>The normal form\<close>

text \<open>Every key is of nibbles, branches have sixteen children.\<close>

fun shaped :: "ptrie \<Rightarrow> bool" where
  "shaped PEmpty = True"
| "shaped (PLeaf l v) = nibbled l"
| "shaped (PExt l t) \<longleftrightarrow> nibbled l \<and> l \<noteq> [] \<and> shaped t"
| "shaped (PBranch ts v) \<longleftrightarrow> length ts = 16 \<and> (\<forall>t\<in>set ts. shaped t)"

text \<open>No value is empty, below an extension there is a branch, and a branch has two entries in use.\<close>

definition entries :: "ptrie list \<Rightarrow> bytes \<Rightarrow> nat" where
  "entries ts v = length (filter (\<lambda>t. t \<noteq> PEmpty) ts) + (if v = [] then 0 else 1)"

fun isBranch :: "ptrie \<Rightarrow> bool" where
  "isBranch (PBranch ts v) = True"
| "isBranch _ = False"

fun normal :: "ptrie \<Rightarrow> bool" where
  "normal PEmpty = True"
| "normal (PLeaf l v) \<longleftrightarrow> v \<noteq> []"
| "normal (PExt l t) \<longleftrightarrow> isBranch t \<and> normal t"
| "normal (PBranch ts v) \<longleftrightarrow> 2 \<le> entries ts v \<and> (\<forall>t\<in>set ts. normal t)"

lemma nibbled_simps [simp]:
  "nibbled []" "nibbled (n # k) \<longleftrightarrow> n < 16 \<and> nibbled k" "nibbled (k @ k') \<longleftrightarrow> nibbled k \<and> nibbled k'"
  by (auto simp: nibbled_def)

lemma nibbled_take_drop [simp]: "nibbled k \<Longrightarrow> nibbled (take i k)" "nibbled k \<Longrightarrow> nibbled (drop i k)"
  by (auto simp: nibbled_def dest: in_set_takeD in_set_dropD)

lemma nibble_unat [simp]: "(n :: byte) < 16 \<Longrightarrow> unat n < 16"
  by (simp add: word_less_nat_alt)

lemma noChildren_simps [simp]: "length noChildren = 16" "i < 16 \<Longrightarrow> noChildren ! i = PEmpty"
  by (simp_all add: noChildren_def)

lemma all_update: "(\<forall>t\<in>set ts. Q t) \<Longrightarrow> Q u \<Longrightarrow> \<forall>t\<in>set (ts[i := u]). Q t"
  using set_update_subset_insert [of ts i u] by blast

lemma child_update [simp]: "n < 16 \<Longrightarrow> m < 16 \<Longrightarrow> noChildren[unat (m :: byte) := u] ! unat (n :: byte) = (if n = m then u else PEmpty)"
  using unsigned_word_eqI [of m n] by (auto simp: nth_list_update)

lemma shaped_update: "(\<forall>t\<in>set ts. shaped t) \<Longrightarrow> shaped u \<Longrightarrow> \<forall>t\<in>set (ts[i := u]). shaped t"
  by (rule all_update)

lemma unat_update [simp]: "n < 16 \<Longrightarrow> m < 16 \<Longrightarrow> length ts = 16 \<Longrightarrow>
    ts[unat (m :: byte) := u] ! unat (n :: byte) = (if n = m then u else ts ! unat n)"
  using unsigned_word_eqI [of m n] by (auto simp: nth_list_update)

lemma shaped_noChildren [simp]: "t \<in> set noChildren \<Longrightarrow> shaped t" "t \<in> set noChildren \<Longrightarrow> normal t"
  by (simp_all add: noChildren_def)

lemma commonPrefix_zero: "commonPrefix k l = 0 \<longleftrightarrow> k = [] \<or> l = [] \<or> hd k \<noteq> hd l"
  by (cases k; cases l) auto

text \<open>What can be branched: a leaf or an extension.\<close>

definition isPair :: "ptrie \<Rightarrow> bool" where
  "isPair t \<longleftrightarrow> t \<noteq> PEmpty \<and> \<not> isBranch t"

lemma isPair_simps [simp]: "\<not> isPair PEmpty" "isPair (PLeaf l v)" "isPair (PExt l t)" "\<not> isPair (PBranch ts v)"
  by (simp_all add: isPair_def)

lemma p_branch_simps [simp]:
  "p_branch (PLeaf [] w) = (noChildren, w)" "p_branch (PLeaf (n # l) w) = (noChildren[unat n := PLeaf l w], [])"
  "p_branch (PExt (n # l) t) = (noChildren[unat n := (if l = [] then t else PExt l t)], [])"
  by (simp_all add: p_branch_def)

lemma pair_cases:
  assumes "isPair t" "shaped t"
  obtains w where "t = PLeaf [] w" | n l w where "t = PLeaf (n # l) w" "n < 16" "nibbled l"
    | n l u where "t = PExt (n # l) u" "n < 16" "nibbled l" "shaped u"
proof (cases t)
  case (PLeaf l w)
  then show thesis using that(1,2) assms(2) by (cases l) auto
next
  case (PExt l u)
  then show thesis using that(3) assms(2) by (cases l) auto
qed (use assms(1) in simp_all)

lemma p_branch_shaped:
  assumes "shaped t" "isPair t" "p_branch t = (ts, w)"
  shows "length ts = 16" "\<forall>u\<in>set ts. shaped u"
proof -
  have n: "\<forall>u\<in>set noChildren. shaped u" by simp
  from assms(2,1) have "length (fst (p_branch t)) = 16 \<and> (\<forall>u\<in>set (fst (p_branch t)). shaped u)"
  proof (cases rule: pair_cases)
    case (2 m l w)
    then show ?thesis using shaped_update [OF n, of "PLeaf l w" "unat m"] by simp
  next
    case (3 m l u)
    then show ?thesis using shaped_update [OF n, of "if l = [] then u else PExt l u" "unat m"] by simp
  qed (use n in simp)
  then show "length ts = 16" "\<forall>u\<in>set ts. shaped u" using assms(3) by simp_all
qed

lemma p_split_shaped:
  assumes "shaped t" "isPair t" "nibbled k"
  shows "shaped (p_split t k v)"
proof -
  obtain ts w where b: "p_branch t = (ts, w)" by (cases "p_branch t")
  note s = p_branch_shaped [OF assms(1,2) b]
  show ?thesis
  proof (cases k)
    case (Cons n k')
    then have "shaped (PLeaf k' v)" using assms(3) by simp
    with s show ?thesis using shaped_update [OF s(2), of "PLeaf k' v" "unat n"] by (simp add: p_split_def b Cons)
  qed (use s in \<open>simp add: p_split_def b\<close>)
qed

lemma p_insert_shaped: "shaped t \<Longrightarrow> nibbled k \<Longrightarrow> shaped (p_insert t k v)"
proof (induction t k v rule: p_insert.induct)
  case (2 l w k v)
  let ?s = "commonPrefix k l"
  have "take ?s l \<noteq> []" if "?s \<noteq> 0" using that commonPrefix_le(2) [of k l] by (cases l) auto
  moreover have "shaped (PLeaf l w)" "shaped (PLeaf (drop ?s l) w)" "nibbled k" "nibbled (drop ?s k)" using 2 by simp_all
  then have "shaped (p_split (PLeaf l w) k v)" "shaped (p_split (PLeaf (drop ?s l) w) (drop ?s k) v)"
    by (simp_all only: p_split_shaped isPair_simps)
  ultimately show ?case using 2 by (simp add: Let_def)
next
  case (3 l t k v)
  let ?s = "commonPrefix k l"
  have l: "take ?s l \<noteq> []" if "?s \<noteq> 0" using that commonPrefix_le(2) [of k l] by (cases l) auto
  show ?case
  proof (cases "prefix l k")
    case True
    then show ?thesis using 3 by simp
  next
    case False
    have "drop ?s l \<noteq> []"
    proof
      assume "drop ?s l = []"
      then have "take ?s l = l" by simp
      then have "take ?s k = l" using commonPrefix_take [of k l] by simp
      then show False using False take_is_prefix [of ?s k] by simp
    qed
    then have "shaped (PExt l t)" "shaped (PExt (drop ?s l) t)" "nibbled k" "nibbled (drop ?s k)" using 3(2,3) by simp_all
    then have "shaped (p_split (PExt l t) k v)" "shaped (p_split (PExt (drop ?s l) t) (drop ?s k) v)"
      by (simp_all only: p_split_shaped isPair_simps)
    then show ?thesis using False l 3 by (simp add: Let_def)
  qed
next
  case (5 ts w n k v)
  then show ?case using shaped_update [of ts "p_insert (ts ! unat n) k v" "unat n"] by auto
qed simp_all

subsection \<open>Looking up what was inserted\<close>

fun pairKey :: "ptrie \<Rightarrow> bytes" where
  "pairKey (PLeaf l w) = l"
| "pairKey (PExt l t) = l"
| "pairKey _ = []"

lemma p_get_branch:
  assumes "isPair t" "shaped t" "nibbled k"
  shows "p_get (PBranch (fst (p_branch t)) (snd (p_branch t))) k = p_get t k"
  using assms(1,2)
proof (cases rule: pair_cases)
  case (1 w)
  then show ?thesis using assms(3) by (cases k) simp_all
next
  case (2 n l w)
  then show ?thesis using assms(3) by (cases k) auto
next
  case (3 n l u)
  then show ?thesis using assms(3) by (cases k) auto
qed

lemma p_get_apart:
  assumes "isPair t" "shaped t" "commonPrefix (n # k) (pairKey t) = 0" "pairKey t \<noteq> n # k"
  shows "p_get t (n # j) = []"
  using assms(1,2)
proof (cases rule: pair_cases)
  case (2 m l w)
  then show ?thesis using assms(3) by (auto split: if_splits)
next
  case (3 m l u)
  then show ?thesis using assms(3) by (auto split: if_splits)
qed simp

lemma p_get_split:
  assumes t: "isPair t" "shaped t" and k: "nibbled k" "nibbled k'"
    and apart: "commonPrefix k (pairKey t) = 0" "pairKey t \<noteq> k \<or> \<not> (\<exists>w. t = PLeaf k w)"
  shows "p_get (p_split t k v) k' = (if k' = k then v else p_get t k')"
proof -
  obtain ts w where b: "p_branch t = (ts, w)" by (cases "p_branch t")
  have len: "length ts = 16" by (rule p_branch_shaped(1) [OF t(2,1) b])
  have g: "p_get (PBranch ts w) j = p_get t j" if "nibbled j" for j using p_get_branch [OF t that] by (simp add: b)
  show ?thesis
  proof (cases k)
    case Nil
    then show ?thesis using g [OF k(2)] by (cases k') (simp_all add: p_split_def b)
  next
    case (Cons n i)
    show ?thesis
    proof (cases k')
      case Nil
      then show ?thesis using g [of "[]"] Cons by (simp add: p_split_def b)
    next
      case (Cons m j)
      have nm: "n < 16" "m < 16" using k \<open>k = n # i\<close> Cons by simp_all
      have "p_get t (n # j) = []" if "pairKey t \<noteq> n # i"
        by (rule p_get_apart [OF t _ that]) (use apart(1) \<open>k = n # i\<close> in simp)
      moreover have "pairKey t \<noteq> n # i" using apart(1) \<open>k = n # i\<close> by (cases "pairKey t") auto
      ultimately show ?thesis using g [OF k(2)] nm len
        by (auto simp: p_split_def b \<open>k = n # i\<close> Cons)
    qed
  qed
qed

lemma commonPrefix_drop: "commonPrefix (drop (commonPrefix k l) k) (drop (commonPrefix k l) l) = 0"
  by (induction k l rule: commonPrefix.induct) auto

lemma prefix_common: "prefix (take (commonPrefix k l) l) k"
  using commonPrefix_take [of k l] take_is_prefix [of "commonPrefix k l" k] by simp

lemma drop_common: "prefix p k \<Longrightarrow> prefix p k' \<Longrightarrow> drop (length p) k = drop (length p) k' \<longleftrightarrow> k = k'"
  by (auto elim!: prefixE)

text \<open>Cutting the key of a leaf or an extension does not change what it maps.\<close>

lemma prefix_cut:
  assumes "s \<le> length l"
  shows "prefix l k \<longleftrightarrow> prefix (take s l) k \<and> prefix (drop s l) (drop s k)"
    "k = l \<longleftrightarrow> prefix (take s l) k \<and> drop s k = drop s l"
proof -
  have "(prefix l k \<longleftrightarrow> prefix (take s l) k \<and> prefix (drop s l) (drop s k)) \<and>
    (k = l \<longleftrightarrow> prefix (take s l) k \<and> drop s k = drop s l)"
  proof (cases "prefix (take s l) k")
    case True
    then obtain z where z: "k = take s l @ z" by (rule prefixE)
    have "drop s k = z" using assms by (simp add: z)
    moreover have "prefix (take s l @ drop s l) (take s l @ z) \<longleftrightarrow> prefix (drop s l) z" by (rule same_prefix_prefix)
    moreover have "take s l @ z = take s l @ drop s l \<longleftrightarrow> z = drop s l" by (rule same_append_eq)
    ultimately show ?thesis using True unfolding append_take_drop_id z [symmetric] by simp
  next
    case False
    then have "\<not> prefix l k" using prefix_order.trans [OF take_is_prefix, of l k s] by blast
    moreover have "k \<noteq> l" using False take_is_prefix [of s l] by blast
    ultimately show ?thesis using False by simp
  qed
  then show "prefix l k \<longleftrightarrow> prefix (take s l) k \<and> prefix (drop s l) (drop s k)"
    "k = l \<longleftrightarrow> prefix (take s l) k \<and> drop s k = drop s l" by blast+
qed

lemma p_get_cut:
  assumes "s \<le> length l"
  shows "p_get (PExt (take s l) (PLeaf (drop s l) w)) k = p_get (PLeaf l w) k"
    "p_get (PExt (take s l) (PExt (drop s l) t)) k = p_get (PExt l t) k"
proof -
  have len: "length (take s l) = s" using assms by simp
  show "p_get (PExt (take s l) (PLeaf (drop s l) w)) k = p_get (PLeaf l w) k"
    unfolding p_get.simps len prefix_cut(2) [OF assms, of k] by simp
  show "p_get (PExt (take s l) (PExt (drop s l) t)) k = p_get (PExt l t) k"
    unfolding p_get.simps len prefix_cut(1) [OF assms, of k] using assms by simp
qed

lemma p_get_insert: "shaped t \<Longrightarrow> nibbled k \<Longrightarrow> nibbled k' \<Longrightarrow> p_get (p_insert t k v) k' = (if k' = k then v else p_get t k')"
proof (induction t k v arbitrary: k' rule: p_insert.induct)
  case (2 l w k v)
  let ?s = "commonPrefix k l"
  have s: "?s \<le> length l" "?s \<le> length k" by (rule commonPrefix_le)+
  show ?case
  proof (cases "l = k")
    case False
    let ?X = "PLeaf (drop ?s l) w"
    show ?thesis
    proof (cases "?s = 0")
      case True
      then show ?thesis using False 2 p_get_split [of "PLeaf l w" k k' v] by (auto simp: Let_def)
    next
      case s0: False
      have ne: "drop ?s k \<noteq> drop ?s l" using False commonPrefix_take [of k l] by (metis append_take_drop_id)
      have g: "p_get (p_split ?X (drop ?s k) v) (drop ?s k') = (if drop ?s k' = drop ?s k then v else p_get ?X (drop ?s k'))"
        by (rule p_get_split) (use 2 ne commonPrefix_drop in auto)
      have "p_get (p_insert (PLeaf l w) k v) k' =
          (if prefix (take ?s l) k' then p_get (p_split ?X (drop ?s k) v) (drop ?s k') else [])"
        using False s0 s by (simp add: Let_def min_def)
      also have "\<dots> = (if k' = k then v else p_get (PExt (take ?s l) ?X) k')"
        unfolding g using drop_common [of "take ?s l" k' k] prefix_common [of k l] s by (auto simp: min_def)
      also have "p_get (PExt (take ?s l) ?X) k' = p_get (PLeaf l w) k'" by (rule p_get_cut(1) [OF s(1)])
      finally show ?thesis .
    qed
  qed simp
next
  case (3 l t k v)
  let ?s = "commonPrefix k l"
  have s: "?s \<le> length l" "?s \<le> length k" by (rule commonPrefix_le)+
  show ?case
  proof (cases "prefix l k")
    case True
    have "p_get (p_insert t (drop (length l) k) v) (drop (length l) k') =
        (if drop (length l) k' = drop (length l) k then v else p_get t (drop (length l) k'))"
      using 3(1) [OF True, of "drop (length l) k'"] 3(2-4) by simp
    then show ?thesis using True drop_common [of l k' k] by auto
  next
    case False
    let ?X = "PExt (drop ?s l) t"
    have ne: "drop ?s l \<noteq> []"
    proof
      assume "drop ?s l = []"
      then have "take ?s l = l" by simp
      with False prefix_common [of k l] show False by simp
    qed
    show ?thesis
    proof (cases "?s = 0")
      case True
      then show ?thesis using False 3 p_get_split [of "PExt l t" k k' v] by (simp add: Let_def)
    next
      case s0: False
      have g: "p_get (p_split ?X (drop ?s k) v) (drop ?s k') = (if drop ?s k' = drop ?s k then v else p_get ?X (drop ?s k'))"
        by (rule p_get_split) (use 3 ne commonPrefix_drop in auto)
      have "p_get (p_insert (PExt l t) k v) k' =
          (if prefix (take ?s l) k' then p_get (p_split ?X (drop ?s k) v) (drop ?s k') else [])"
        using False s0 s by (simp add: Let_def min_def)
      also have "\<dots> = (if k' = k then v else p_get (PExt (take ?s l) ?X) k')"
        unfolding g using drop_common [of "take ?s l" k' k] prefix_common [of k l] s by (auto simp: min_def)
      also have "p_get (PExt (take ?s l) ?X) k' = p_get (PExt l t) k'" by (rule p_get_cut(2) [OF s(1)])
      finally show ?thesis .
    qed
  qed
next
  case (4 ts w v)
  then show ?case by (cases k') simp_all
next
  case (5 ts w n k v)
  then have n: "unat n < 16" "length ts = 16" "shaped (ts ! unat n)" by simp_all
  show ?case
  proof (cases k')
    case (Cons m j)
    then show ?thesis using 5 n by auto
  qed (use n in simp)
qed simp_all

end
