(* ===== verification/Patricia_Steps.thy ===== *)
theory Patricia_Steps
  imports Patricia
begin

section \<open>Insertion keeps the normal form\<close>

text \<open>A leaf or an extension as a branch with one entry, and the two parts it is cut into.\<close>

definition branched :: "ptrie \<Rightarrow> ptrie" where
  "branched t = PBranch (fst (p_branch t)) (snd (p_branch t))"

fun restAt :: "nat \<Rightarrow> ptrie \<Rightarrow> ptrie" where
  "restAt s (PLeaf l w) = PLeaf (drop s l) w"
| "restAt s (PExt l t) = PExt (drop s l) t"
| "restAt s t = t"

definition cutAt :: "nat \<Rightarrow> ptrie \<Rightarrow> ptrie" where
  "cutAt s t = PExt (take s (pairKey t)) (restAt s t)"

lemma restAt_pair [simp]: "isPair (restAt s t) \<longleftrightarrow> isPair t" "isPair t \<Longrightarrow> pairKey (restAt s t) = drop s (pairKey t)"
  by (cases t; simp)+

text \<open>A key that leaves a leaf or an extension before its end, and what the insertion makes on its way.\<close>

definition p_apart :: "ptrie \<Rightarrow> bytes \<Rightarrow> bytes \<Rightarrow> ptrie" where
  "p_apart t k v =
     (let s = commonPrefix k (pairKey t) in
      if s = 0 then p_split t k v else PExt (take s (pairKey t)) (p_split (restAt s t) (drop s k) v))"

definition apartSteps :: "ptrie \<Rightarrow> bytes \<Rightarrow> ptrie list" where
  "apartSteps t k =
     (let s = commonPrefix k (pairKey t) in
      if s = 0 then [branched t] else [cutAt s t, branched (restAt s t)])"

definition leaves :: "ptrie \<Rightarrow> bytes \<Rightarrow> bool" where
  "leaves t k \<longleftrightarrow> (case t of PLeaf l w \<Rightarrow> k \<noteq> l | PExt l u \<Rightarrow> \<not> prefix l k | _ \<Rightarrow> False)"

function insertSteps :: "ptrie \<Rightarrow> bytes \<Rightarrow> ptrie list" where
  "insertSteps PEmpty k = []"
| "insertSteps (PLeaf l w) k = (if l = k then [] else apartSteps (PLeaf l w) k)"
| "insertSteps (PExt l t) k = (if prefix l k then insertSteps t (drop (length l) k) else apartSteps (PExt l t) k)"
| "insertSteps (PBranch ts w) [] = []"
| "insertSteps (PBranch ts w) (n # k) = (if unat n < length ts then insertSteps (ts ! unat n) k else [])"
  by pat_completeness auto
termination by (relation "measure (\<lambda>(t, k). size t)") (auto simp: size_child)

lemma p_insert_apart: "leaves t k \<Longrightarrow> p_insert t k v = p_apart t k v" "leaves t k \<Longrightarrow> insertSteps t k = apartSteps t k"
  by (cases t; auto simp: leaves_def p_apart_def Let_def)+

lemma leaves_pair: "leaves t k \<Longrightarrow> isPair t"
  by (cases t) (simp_all add: leaves_def)

text \<open>A split is an insertion into the branch.\<close>

lemma p_split_insert:
  assumes "isPair t" "shaped t" "nibbled k" "commonPrefix k (pairKey t) = 0"
  shows "p_split t k v = p_insert (branched t) k v" "k = n # j \<Longrightarrow> fst (p_branch t) ! unat n = PEmpty"
proof -
  obtain ts w where b: "p_branch t = (ts, w)" by (cases "p_branch t")
  have len: "length ts = 16" by (rule p_branch_shaped(1) [OF assms(2,1) b])
  have e: "ts ! unat m = PEmpty" if "k = m # i" for m i
    using assms(1,2)
  proof (cases rule: pair_cases)
    case (1 w)
    then show ?thesis using assms(3) that b by auto
  next
    case (2 m' l w)
    then have "m \<noteq> m'" using assms(4) that by auto
    then show ?thesis using assms(3) that b 2 by auto
  next
    case (3 m' l u)
    then have "m \<noteq> m'" using assms(4) that by auto
    then show ?thesis using assms(3) that b 3 by auto
  qed
  then show "k = n # j \<Longrightarrow> fst (p_branch t) ! unat n = PEmpty" by (simp add: b)
  show "p_split t k v = p_insert (branched t) k v"
    using e assms(3) len by (cases k) (simp_all add: p_split_def branched_def b)
qed

lemma p_apart_nonempty: "p_apart t k v \<noteq> PEmpty"
  by (simp add: p_apart_def p_split_def Let_def split: prod.splits list.splits)

subsection \<open>Entries in use\<close>

lemma entries_update:
  "i < length ts \<Longrightarrow> entries (ts[i := u]) v + (if ts ! i = PEmpty then 0 else 1) = entries ts v + (if u = PEmpty then 0 else 1)"
proof (induction ts arbitrary: i)
  case (Cons a ts)
  show ?case
  proof (cases i)
    case (Suc j)
    then show ?thesis using Cons.IH [of j] Cons.prems by (simp add: entries_def split: if_splits)
  qed (simp add: entries_def)
qed simp

lemma entries_noChildren [simp]: "entries noChildren v = (if v = [] then 0 else 1)"
  by (simp add: entries_def noChildren_def)

lemma p_insert_nonempty: "t \<noteq> PEmpty \<Longrightarrow> p_insert t k v \<noteq> PEmpty"
proof (cases "leaves t k")
  case True
  then show ?thesis by (simp add: p_insert_apart p_apart_nonempty)
next
  case False
  then show "t \<noteq> PEmpty \<Longrightarrow> p_insert t k v \<noteq> PEmpty"
    by (cases "(t, k, v)" rule: p_insert.cases) (auto simp: leaves_def)
qed

text \<open>Splitting leaves two entries.\<close>

lemma normal_split:
  assumes "isPair t" "shaped t" "normal t" "nibbled k" "v \<noteq> []" "leaves t k" "commonPrefix k (pairKey t) = 0"
  shows "normal (p_split t k v)" "isBranch (p_split t k v)"
proof -
  obtain ts w where b: "p_branch t = (ts, w)" by (cases "p_branch t")
  have len: "length ts = 16" by (rule p_branch_shaped(1) [OF assms(2,1) b])
  have n0: "\<forall>u\<in>set noChildren. normal u" by simp
  have ts: "(\<forall>u\<in>set ts. normal u) \<and> entries ts w = 1 \<and> (w \<noteq> [] \<longrightarrow> k \<noteq> [])"
    using assms(1,2)
  proof (cases rule: pair_cases)
    case (1 w')
    then show ?thesis using assms(3,6) n0 b by (auto simp: leaves_def)
  next
    case (2 n l w')
    have "entries (noChildren[unat n := PLeaf l w']) [] = 1"
      using entries_update [of "unat n" noChildren "PLeaf l w'" "[]"] 2(2) by simp
    then show ?thesis using assms(3) b all_update [OF n0, of "PLeaf l w'" "unat n"] by (auto simp: 2)
  next
    case (3 n l u)
    let ?c = "if l = [] then u else PExt l u"
    have c: "?c \<noteq> PEmpty" "normal ?c" using assms(3) by (auto simp: 3)
    then have "entries (noChildren[unat n := ?c]) [] = 1"
      using entries_update [of "unat n" noChildren ?c "[]"] 3(2) by simp
    then show ?thesis using b all_update [OF n0 c(2), of "unat n"] by (auto simp: 3)
  qed
  show "normal (p_split t k v)"
  proof (cases k)
    case Nil
    then have "w = []" "entries ts w = 1" using ts by auto
    then have "entries ts v = 2" using assms(5) by (simp add: entries_def)
    then show ?thesis using ts by (simp add: p_split_def b Nil)
  next
    case (Cons n j)
    have "ts ! unat n = PEmpty" using p_split_insert(2) [OF assms(1,2,4,7) Cons] by (simp add: b)
    then have "entries (ts[unat n := PLeaf j v]) w = 2"
      using entries_update [of "unat n" ts "PLeaf j v" w] ts len assms(4) by (simp add: Cons)
    moreover have "normal (PLeaf j v)" using assms(5) by simp
    ultimately show ?thesis using all_update [of ts normal "PLeaf j v" "unat n"] ts by (simp add: p_split_def b Cons)
  qed
  show "isBranch (p_split t k v)" by (cases k) (simp_all add: p_split_def b)
qed

lemma leaves_rest:
  assumes "leaves t k" "s = commonPrefix k (pairKey t)"
  shows "leaves (restAt s t) (drop s k)" "commonPrefix (drop s k) (pairKey (restAt s t)) = 0"
proof -
  have s: "s \<le> length (pairKey t)" by (simp add: assms(2) commonPrefix_le)
  show "leaves (restAt s t) (drop s k)"
  proof (cases t)
    case (PLeaf l w)
    then show ?thesis using assms prefix_cut(2) [of s l k] prefix_common [of k l] s by (simp add: leaves_def)
  next
    case (PExt l u)
    then show ?thesis using assms prefix_cut(1) [of s l k] prefix_common [of k l] s by (simp add: leaves_def)
  qed (use assms(1) in \<open>simp_all add: leaves_def\<close>)
  show "commonPrefix (drop s k) (pairKey (restAt s t)) = 0"
    using commonPrefix_drop [of k "pairKey t"] leaves_pair [OF assms(1)] by (simp add: assms(2))
qed

lemma shaped_rest:
  assumes "leaves t k" "shaped t" "s = commonPrefix k (pairKey t)"
  shows "shaped (restAt s t)"
proof (cases t)
  case (PExt l u)
  have "drop s l \<noteq> []"
  proof
    assume "drop s l = []"
    then have "take s l = l" by simp
    with assms(1,3) prefix_common [of k l] show False by (simp add: leaves_def PExt)
  qed
  then show ?thesis using assms(2) by (simp add: PExt)
qed (use assms in simp_all)

lemma normal_apart:
  assumes "leaves t k" "shaped t" "normal t" "nibbled k" "v \<noteq> []"
  shows "normal (p_apart t k v)"
proof (cases "commonPrefix k (pairKey t) = 0")
  case True
  then show ?thesis using normal_split(1) [OF leaves_pair [OF assms(1)] assms(2-5,1)] by (simp add: p_apart_def)
next
  case False
  let ?s = "commonPrefix k (pairKey t)"
  have "normal (restAt ?s t)" using assms(3) by (cases t) simp_all
  then show ?thesis
    using normal_split [OF _ shaped_rest [OF assms(1,2) refl] _ _ assms(5) leaves_rest [OF assms(1) refl]] leaves_pair [OF assms(1)] assms(4) False
    by (simp add: p_apart_def Let_def)
qed

lemma normal_insert: "normal t \<Longrightarrow> shaped t \<Longrightarrow> nibbled k \<Longrightarrow> v \<noteq> [] \<Longrightarrow> normal (p_insert t k v)"
proof (induction t k v rule: p_insert.induct)
  case (2 l w k v)
  show ?case
  proof (cases "l = k")
    case False
    then have lv: "leaves (PLeaf l w) k" by (simp add: leaves_def)
    show ?thesis unfolding p_insert_apart [OF lv] by (rule normal_apart [OF lv 2(2,1,3,4)])
  qed (use 2 in simp)
next
  case (3 l t k v)
  show ?case
  proof (cases "prefix l k")
    case True
    have "isBranch (p_insert t (drop (length l) k) v)"
      using 3(2) by (cases "(t, drop (length l) k, v)" rule: p_insert.cases) auto
    then show ?thesis using 3 True by simp
  next
    case False
    then have lv: "leaves (PExt l t) k" by (simp add: leaves_def)
    show ?thesis unfolding p_insert_apart [OF lv] by (rule normal_apart [OF lv 3(3,2,4,5)])
  qed
next
  case (4 ts w v)
  then show ?case by (auto simp: entries_def split: if_splits)
next
  case (5 ts w n k v)
  then have n: "unat n < length ts" by simp
  then have c: "normal (ts ! unat n)" "shaped (ts ! unat n)" using 5(2,3) by simp_all
  then have i: "normal (p_insert (ts ! unat n) k v)" using 5(1) [OF n] 5(4,5) by simp
  have "p_insert (ts ! unat n) k v \<noteq> PEmpty" by (cases "ts ! unat n = PEmpty") (simp_all add: p_insert_nonempty)
  then have "entries ts w \<le> entries (ts[unat n := p_insert (ts ! unat n) k v]) w"
    using entries_update [OF n, of "p_insert (ts ! unat n) k v" w] by (simp split: if_splits)
  then show ?case using 5(2) n all_update [of ts normal, OF _ i, of "unat n"] by simp
qed simp_all

end
