(* ===== verification/Trie_Nodes.thy ===== *)
theory Trie_Nodes
  imports Trie_DB Patricia_Steps
begin

section \<open>The nodes of a trie\<close>

text \<open>
  How a trie is laid out in the database: its nodes as items and their encodings, and what it means
  that the database holds it. The steps of the code that read a child or write one are then
  reading and writing tries. A node inserted may only hide another one when the hash function
  collides: the lemmas carry a set of encodings on which it does not, which has to contain what is
  stored and what is written.
\<close>

subsection \<open>Tries as items\<close>

definition asRef :: "(bytes \<Rightarrow> h256) \<Rightarrow> rlp_item \<Rightarrow> rlp_item" where
  "asRef H it = (if length (enc it) < 32 then it else Str (hashBytes (H (enc it))))"

fun nodeItem :: "(bytes \<Rightarrow> h256) \<Rightarrow> ptrie \<Rightarrow> rlp_item" where
  "nodeItem H PEmpty = Str []"
| "nodeItem H (PLeaf l v) = Lst [Str (hp l True), Str v]"
| "nodeItem H (PExt l t) = Lst [Str (hp l False), asRef H (nodeItem H t)]"
| "nodeItem H (PBranch ts v) = Lst (map (\<lambda>t. asRef H (nodeItem H t)) ts @ [Str v])"

definition nodeRef :: "(bytes \<Rightarrow> h256) \<Rightarrow> ptrie \<Rightarrow> rlp_item" where
  "nodeRef H t = asRef H (nodeItem H t)"

definition encode :: "(bytes \<Rightarrow> h256) \<Rightarrow> ptrie \<Rightarrow> bytes" where
  "encode H t = enc (nodeItem H t)"

lemma nodeItem_ref:
  "nodeItem H (PExt l t) = Lst [Str (hp l False), nodeRef H t]"
  "nodeItem H (PBranch ts v) = Lst (map (nodeRef H) ts @ [Str v])"
  by (simp_all add: nodeRef_def)

declare nodeItem.simps(3,4) [simp del]

text \<open>Keys and values short enough for the lengths of RLP.\<close>

fun bounded :: "ptrie \<Rightarrow> bool" where
  "bounded PEmpty = True"
| "bounded (PLeaf l v) \<longleftrightarrow> length l < 2 ^ 32 \<and> length v < 2 ^ 32"
| "bounded (PExt l t) \<longleftrightarrow> length l < 2 ^ 32 \<and> bounded t"
| "bounded (PBranch ts v) \<longleftrightarrow> length v < 2 ^ 32 \<and> (\<forall>t\<in>set ts. bounded t)"

lemma length_hp: "length (hp k leaf) = 1 + length k div 2"
proof -
  have "length (pack k) = (length k + 1) div 2" for k by (induction k rule: pack.induct) auto
  then show ?thesis by (cases k) (auto simp: hp_def)
qed

lemma length_hashBytes [simp]: "length (hashBytes h) = 32"
  by (simp add: hashBytes_def)

lemma enc_Str_le: "length bs < 2 ^ 64 \<Longrightarrow> length (enc (Str bs)) \<le> 9 + length bs"
  using byteCount_64 [of "length bs"] by (simp add: encStr_def header_def)

lemma length_asRef: "length (enc (asRef H it)) \<le> 33"
  by (simp add: asRef_def encStr_def header_def)

lemma length_nodeRef: "length (enc (nodeRef H t)) \<le> 33"
  by (simp add: nodeRef_def length_asRef)

lemma length_nodeRefs: "length (concat (map enc (map (nodeRef H) ts))) \<le> 33 * length ts"
  by (induction ts) (auto intro: add_mono length_nodeRef simp del: enc.simps)

lemma fits_asRef: "fits it \<Longrightarrow> fits (asRef H it)"
  by (simp add: asRef_def)

lemma enc_hp_le: "length l < 2 ^ 32 \<Longrightarrow> length (enc (Str (hp l leaf))) \<le> 10 + 2 ^ 32 \<and> length l div 2 < 2 ^ 32"
  using enc_Str_le [of "hp l leaf"] div_le_dividend [of "length l" 2] by (simp add: length_hp del: enc.simps div_le_dividend)

lemma fits_node: "shaped t \<Longrightarrow> bounded t \<Longrightarrow> fits (nodeItem H t)"
proof (induction t)
  case (PLeaf l v)
  then show ?case using enc_hp_le [of l True] enc_Str_le [of v] by (simp add: length_hp del: enc.simps)
next
  case (PExt l t)
  moreover have "fits (nodeRef H t)" using PExt by (simp add: nodeRef_def fits_asRef)
  ultimately show ?case
    using enc_hp_le [of l False] length_nodeRef [of H t] by (simp add: nodeItem_ref length_hp del: enc.simps)
next
  case (PBranch ts v)
  have "fits (nodeRef H t)" if "t \<in> set ts" for t using PBranch that by (simp add: nodeRef_def fits_asRef)
  moreover have "length (concat (map enc (map (nodeRef H) ts))) + length (enc (Str v)) \<le> 33 * 16 + (9 + 2 ^ 32)"
    using length_nodeRefs [of H ts] enc_Str_le [of v] PBranch.prems by (simp del: enc.simps)
  ultimately show ?case using PBranch.prems by (auto simp: nodeItem_ref simp del: enc.simps)
qed simp

lemma fits_nodeRef: "shaped t \<Longrightarrow> bounded t \<Longrightarrow> fits (nodeRef H t)"
  by (simp add: nodeRef_def fits_asRef fits_node)

subsection \<open>What the database holds\<close>

text \<open>The tries below one.\<close>

fun below :: "ptrie \<Rightarrow> ptrie list" where
  "below (PExt l t) = t # below t"
| "below (PBranch ts v) = ts @ concat (map below ts)"
| "below _ = []"

definition env :: "(bytes \<Rightarrow> h256) \<Rightarrow> 'd node_db \<Rightarrow> 'd trie_env" where
  "env H N = \<lparr>te_sha3 = H, te_nodes = N\<rparr>"

lemma env_simps [simp]: "te_sha3 (env H N) = H" "te_nodes (env H N) = N"
  by (simp_all add: env_def)

definition holds :: "'d trie_env \<Rightarrow> 'd \<Rightarrow> bytes \<Rightarrow> bool" where
  "holds E d b \<longleftrightarrow> node E d (te_sha3 E b) = b"

definition present :: "'d trie_env \<Rightarrow> 'd \<Rightarrow> ptrie \<Rightarrow> bool" where
  "present E d t \<longleftrightarrow> (32 \<le> length (encode (te_sha3 E) t) \<longrightarrow> holds E d (encode (te_sha3 E) t))"

definition stored :: "'d trie_env \<Rightarrow> 'd \<Rightarrow> ptrie \<Rightarrow> bool" where
  "stored E d t \<longleftrightarrow> list_all (present E d) (below t)"

lemma stored_simps [simp]:
  "stored E d PEmpty" "stored E d (PLeaf l v)" "stored E d (PExt l t) \<longleftrightarrow> present E d t \<and> stored E d t"
  "stored E d (PBranch ts v) \<longleftrightarrow> (\<forall>t\<in>set ts. present E d t \<and> stored E d t)"
  by (auto simp: stored_def list_all_iff)

text \<open>The encodings of a trie and of what is below it are in a set.\<close>

definition within :: "(bytes \<Rightarrow> h256) \<Rightarrow> bytes set \<Rightarrow> ptrie \<Rightarrow> bool" where
  "within H U t \<longleftrightarrow> encode H t \<in> U \<and> list_all (\<lambda>u. encode H u \<in> U) (below t)"

lemma within_simps:
  "within H U PEmpty \<longleftrightarrow> encode H PEmpty \<in> U" "within H U (PLeaf l v) \<longleftrightarrow> encode H (PLeaf l v) \<in> U"
  "within H U (PExt l t) \<longleftrightarrow> encode H (PExt l t) \<in> U \<and> within H U t"
  "within H U (PBranch ts v) \<longleftrightarrow> encode H (PBranch ts v) \<in> U \<and> (\<forall>t\<in>set ts. within H U t)"
  by (auto simp: within_def list_all_iff)

text \<open>What was held for a set of encodings still is.\<close>

definition keeps :: "'d trie_env \<Rightarrow> bytes set \<Rightarrow> 'd \<Rightarrow> 'd \<Rightarrow> bool" where
  "keeps E U d d' \<longleftrightarrow> (\<forall>b\<in>U. holds E d b \<longrightarrow> holds E d' b)"

lemma keeps_refl [simp]: "keeps E U d d"
  by (simp add: keeps_def)

lemma keeps_trans: "keeps E U d d' \<Longrightarrow> keeps E U d' d'' \<Longrightarrow> keeps E U d d''"
  by (auto simp: keeps_def)

lemma keeps_present: "keeps E U d d' \<Longrightarrow> encode (te_sha3 E) t \<in> U \<Longrightarrow> present E d t \<Longrightarrow> present E d' t"
  by (auto simp: keeps_def present_def)

lemma keeps_stored: "keeps E U d d' \<Longrightarrow> within (te_sha3 E) U t \<Longrightarrow> stored E d t \<Longrightarrow> stored E d' t"
  by (auto simp: stored_def within_def list_all_iff intro: keeps_present)

subsection \<open>Reading nodes\<close>

declare enc_nonempty [simp]

lemma asRLP_enc: "fits it \<Longrightarrow> asRLP (enc it) = Inr (Some it)"
  by (simp add: asRLP_def liftNode_def readItem_enc del: enc.simps)

lemma rlpList_enc: "fits (Lst xs) \<Longrightarrow> rlpList xs = Inr (enc (Lst xs))"
  by (simp add: rlpList_def liftNode_def rlp_of_enc del: enc.simps fits.simps)

lemma rereadNode_enc: "fits it \<Longrightarrow> rereadNode (enc it) = Inr it"
  by (simp add: rereadNode_def liftNode_def readItem_enc del: enc.simps)

lemma hashBytes_back: "word_of_nat (fromBigEndian (hashBytes h)) = h"
  using unsigned_less [of h, where ?'a = nat] by (simp add: hashBytes_def fromBigEndian_toBigEndian)

lemma it_toHash_hash: "it_toHash (Str (hashBytes h)) = Inr h"
  by (simp add: it_toHash_def liftNode_def toHash_Str hashBytes_back del: enc.simps)

lemma enc_Nil: "enc (Str []) = [128]"
  by (simp add: encStr_def header_def)

lemma encode_PEmpty [simp]: "encode H PEmpty = [128]"
  by (simp add: encode_def enc_Nil del: enc.simps)

lemma it_isList_node: "it_isList (nodeItem H t) \<longleftrightarrow> t \<noteq> PEmpty"
  by (cases t) (simp_all add: nodeItem_ref)

lemma it_isEmpty_node: "it_isEmpty (nodeItem H t) \<longleftrightarrow> t = PEmpty"
  by (cases t) (simp_all add: nodeItem_ref it_isEmpty_def)

lemma nodeRef_PEmpty [simp]: "nodeRef H PEmpty = Str []"
  by (simp add: nodeRef_def asRef_def enc_Nil del: enc.simps)

lemma it_isEmpty_Nil [simp]: "it_isEmpty (Str [])"
  by (simp add: it_isEmpty_def)

lemma hashBytes_nonempty [simp]: "hashBytes h \<noteq> []"
  using length_hashBytes [of h] by (metis list.size(3) zero_neq_numeral)

lemma it_isEmpty_ref: "it_isEmpty (nodeRef H t) \<longleftrightarrow> t = PEmpty"
  using it_isEmpty_node [of H t] by (auto simp: nodeRef_def asRef_def it_isEmpty_def enc_Nil simp del: enc.simps)

lemma it_isList_ref: "it_isList (nodeRef H t) \<longleftrightarrow> t \<noteq> PEmpty \<and> length (encode H t) < 32"
  using it_isList_node [of H t] by (cases t) (simp_all add: nodeRef_def asRef_def encode_def enc_Nil del: enc.simps)

lemma nodeRef_hash: "32 \<le> length (encode H t) \<Longrightarrow> nodeRef H t = Str (hashBytes (H (encode H t)))"
  by (simp add: nodeRef_def asRef_def encode_def)

lemma nodeRef_inline: "length (encode H t) < 32 \<Longrightarrow> nodeRef H t = nodeItem H t"
  by (simp add: nodeRef_def asRef_def encode_def)

lemma childNode_ref:
  assumes "shaped t" "bounded t" "t \<noteq> PEmpty" "present E d t"
  shows "childNode E d (nodeRef (te_sha3 E) t) = Inr (Some (nodeItem (te_sha3 E) t))"
proof (cases "length (encode (te_sha3 E) t) < 32")
  case True
  with assms(3) show ?thesis by (simp add: childNode_def nodeRef_inline it_isList_node)
next
  case False
  then have "asRLP (node E d (te_sha3 E (encode (te_sha3 E) t))) = Inr (Some (nodeItem (te_sha3 E) t))"
    using assms asRLP_enc [OF fits_node, of t] by (simp add: present_def holds_def encode_def)
  then show ?thesis using False by (simp add: childNode_def nodeRef_hash it_toHash_hash)
qed

text \<open>The key of a node of two items.\<close>

lemma nodeKey_pair:
  "nibbled l \<Longrightarrow> nodeKey (Lst [Str (hp l leaf), x]) = Inr (keyOf (hp l leaf), leaf)"
  by (simp add: nodeKey_def keyOf_hp)

lemma isNode_pair [simp]: "isNode (Lst [x, y])"
  by (simp add: isNode_def)

lemma isNode_branch: "length ts = 16 \<Longrightarrow> isNode (nodeItem H (PBranch ts v))"
  by (simp add: isNode_def nodeItem_ref)

lemma it_at_branch:
  "length ts = 16 \<Longrightarrow> i < 16 \<Longrightarrow> it_at (nodeItem H (PBranch ts v)) i = nodeRef H (ts ! i)"
  "length ts = 16 \<Longrightarrow> it_at (nodeItem H (PBranch ts v)) 16 = Str v"
  "length ts = 16 \<Longrightarrow> it_itemCount (nodeItem H (PBranch ts v)) = 17"
  by (simp_all add: nodeItem_ref nth_append)

lemma assertThat_simps [simp]: "assertThat True = Inr ()" "assertThat False = Inl AssertFailed"
  by (simp_all add: assertThat_def throwIf_def)

end
