(* ===== verification/Trie_Look.thy ===== *)
theory Trie_Look
  imports Trie_Nodes
begin

section \<open>Looking up\<close>

lemma it_toString_Str [simp]: "it_toString (Str v) = v"
  by (simp add: it_toString_def)

lemma prefix_nibs: "ns_contains k (keyOf (hp l leaf)) \<longleftrightarrow> prefix l (nibs k)" if "nibbled l"
  using that by (simp add: ns_contains_nibs keyOf_hp prefix_def)

lemma equal_nibs:
  assumes "nibbled l"
  shows "ns_equal k (keyOf (hp l leaf)) \<longleftrightarrow> nibs k = l" "ns_equal (keyOf (hp l leaf)) k \<longleftrightarrow> nibs k = l"
  using assms by (auto simp: ns_equal_nibs keyOf_hp)

lemma size_keyOf: "nibbled l \<Longrightarrow> ns_size (keyOf (hp l leaf)) = length l"
  using nibs_facts(1) [of "keyOf (hp l leaf)"] by (simp add: keyOf_hp del: nibs_facts(1))

lemma nibs_first:
  assumes "ns_size k \<noteq> 0"
  shows "nibs k = ns_at k 0 # nibs (ns_mid k 1)" "ns_at k 0 < 16"
proof -
  have "nibs k \<noteq> []" using assms nibs_facts(1) [of k] by (metis list.size(3))
  then show *: "nibs k = ns_at k 0 # nibs (ns_mid k 1)"
    using ns_at_nibs [of 0 k] assms by (cases "nibs k") auto
  show "ns_at k 0 < 16" using nibs_facts(4) [of k] unfolding * by simp
qed

lemma ns_size_mid [simp]: "ns_size (ns_mid k i) = ns_size k - i"
  by (simp add: ns_size_def ns_mid_def slice_def)

lemma ns_empty: "ns_size k = 0 \<longleftrightarrow> nibs k = []"
  using nibs_facts(1) [of k] by (metis length_0_conv)

lemma atAux_get:
  "shaped t \<Longrightarrow> bounded t \<Longrightarrow> normal t \<Longrightarrow> stored E d t \<Longrightarrow> ns_size k + 2 \<le> n \<Longrightarrow>
     atAux n E d (Some (nodeItem (te_sha3 E) t)) k = Inr (p_get t (nibs k))"
proof (induction t arbitrary: k n)
  case PEmpty
  then show ?case by (cases n) (simp_all add: it_isEmpty_def)
next
  case (PLeaf l v)
  then show ?case by (cases n) (auto simp: it_isEmpty_def nodeKey_pair equal_nibs)
next
  case (PExt l t)
  then obtain m where n: "n = Suc m" by (cases n) auto
  have t: "nibbled l" "l \<noteq> []" "shaped t" "bounded t" "t \<noteq> PEmpty" "normal t" "stored E d t" "present E d t"
    using PExt.prems by auto
  show ?case
  proof (cases "prefix l (nibs k)")
    case True
    then have "length l \<le> ns_size k" using prefix_length_le by fastforce
    then have "ns_size (ns_mid k (length l)) + 2 \<le> m" using PExt.prems(5) t(2) n by (cases l) auto
    then have "atAux m E d (Some (nodeItem (te_sha3 E) t)) (ns_mid k (length l)) = Inr (p_get t (nibs (ns_mid k (length l))))"
      using PExt.IH t by blast
    with True t show ?thesis
      by (simp add: n nodeItem_ref it_isEmpty_def nodeKey_pair equal_nibs prefix_nibs size_keyOf childNode_ref)
  next
    case False
    then have "nibs k \<noteq> l" by auto
    with False t show ?thesis by (simp add: n nodeItem_ref it_isEmpty_def nodeKey_pair equal_nibs prefix_nibs)
  qed
next
  case (PBranch ts v)
  then obtain m where n: "n = Suc m" by (cases n) auto
  have len: "length ts = 16" using PBranch.prems by simp
  note node = it_at_branch [OF len] isNode_branch [OF len] it_isEmpty_node
  show ?case
  proof (cases "ns_size k = 0")
    case True
    then show ?thesis by (simp add: n node ns_empty)
  next
    case False
    let ?i = "unat (ns_at k 0)"
    have i: "?i < 16" using nibs_first(2) [OF False] by simp
    then have mem: "ts ! ?i \<in> set ts" using len by simp
    have u: "shaped (ts ! ?i)" "bounded (ts ! ?i)" "normal (ts ! ?i)" "stored E d (ts ! ?i)" "present E d (ts ! ?i)"
      using PBranch.prems mem by auto
    have "ns_size (ns_mid k 1) + 2 \<le> m" using False PBranch.prems(5) n by simp
    then have "atAux m E d (Some (nodeItem (te_sha3 E) (ts ! ?i))) (ns_mid k 1) = Inr (p_get (ts ! ?i) (nibs (ns_mid k 1)))"
      using PBranch.IH [OF mem] u by blast
    with u i len show ?thesis
      by (cases "ts ! ?i = PEmpty") (simp_all add: n node False nibs_first(1) [OF False] it_isEmpty_ref childNode_ref Let_def del: nibs_facts(2))
  qed
qed

end
