(* ===== verification/Trie_Insert.thy ===== *)
theory Trie_Insert
  imports Trie_Look
begin

section \<open>Inserting\<close>

text \<open>No extension ends in nothing.\<close>

fun solid :: "ptrie \<Rightarrow> bool" where
  "solid (PExt l t) \<longleftrightarrow> t \<noteq> PEmpty \<and> solid t"
| "solid (PBranch ts v) \<longleftrightarrow> (\<forall>t\<in>set ts. solid t)"
| "solid _ = True"

lemma normal_solid: "normal t \<Longrightarrow> solid t"
  by (induction t) auto

text \<open>What can be written under a set of encodings.\<close>

definition storable :: "(bytes \<Rightarrow> h256) \<Rightarrow> bytes set \<Rightarrow> ptrie \<Rightarrow> bool" where
  "storable H U t \<longleftrightarrow> shaped t \<and> bounded t \<and> solid t \<and> within H U t"

lemma storable_simps:
  "storable H U (PLeaf l v) \<longleftrightarrow> nibbled l \<and> length l < 2 ^ 32 \<and> length v < 2 ^ 32 \<and> encode H (PLeaf l v) \<in> U"
  "storable H U (PExt l t) \<longleftrightarrow>
     nibbled l \<and> l \<noteq> [] \<and> length l < 2 ^ 32 \<and> t \<noteq> PEmpty \<and> storable H U t \<and> encode H (PExt l t) \<in> U"
  "storable H U (PBranch ts v) \<longleftrightarrow>
     length ts = 16 \<and> length v < 2 ^ 32 \<and> (\<forall>t\<in>set ts. storable H U t) \<and> encode H (PBranch ts v) \<in> U"
  by (auto simp: storable_def within_simps)

lemma storable_parts: "storable H U t \<Longrightarrow> shaped t \<and> bounded t \<and> solid t \<and> within H U t \<and> encode H t \<in> U \<and> fits (nodeItem H t)"
  by (simp add: storable_def within_def fits_node)

text \<open>A slice that starts inside of its data.\<close>

definition sound :: "NibbleSlice \<Rightarrow> bool" where
  "sound k \<longleftrightarrow> ns_offset k \<le> 2 * length (ns_data k)"

lemma sound_mid: "sound k \<Longrightarrow> i \<le> ns_size k \<Longrightarrow> sound (ns_mid k i)"
  by (simp add: sound_def ns_mid_def slice_def ns_size_def)

lemma sound_keyOf: "nibbled l \<Longrightarrow> sound (keyOf (hp l leaf))"
  by (simp add: sound_def keyOf_hp)

lemma sound_slice [simp]: "sound (slice key 0)"
  by (simp add: sound_def slice_def)

lemma hp_from:
  assumes "sound k" "s \<le> ns_size k"
  shows "hexPrefixEncode_slice k leaf s (-1) = hp (drop s (nibs k)) leaf"
  using hexPrefixEncode_slice_hp [of k s "ns_size k" "-1" leaf] assms by (simp add: sound_def)

lemma hp_upto:
  assumes "sound k" "s \<le> ns_size k"
  shows "hexPrefixEncode_slice k leaf 0 (int s) = hp (take s (nibs k)) leaf"
  using hexPrefixEncode_slice_hp [of k 0 s "int s" leaf] assms by (simp add: sound_def)

lemma items_branch:
  assumes "length ts = 16"
  shows "map (it_at (nodeItem H (PBranch ts v))) [0..<17] = map (nodeRef H) ts @ [Str v]"
    "map (it_at (nodeItem H (PBranch ts v))) [0..<16] = map (nodeRef H) ts"
  by (rule nth_equalityI; use assms in \<open>auto simp: nodeItem_ref nth_append less_Suc_eq\<close>)+

lemma items_update:
  "length ts = 16 \<Longrightarrow> i < 16 \<Longrightarrow>
     (map (it_at (nodeItem H (PBranch ts v))) [0..<17])[i := nodeRef H u] = map (nodeRef H) (ts[i := u]) @ [Str v]"
  by (simp add: items_branch list_update_append map_update)

lemma encode_ref:
  "encode H (PExt l t) = enc (Lst [Str (hp l False), nodeRef H t])"
  "encode H (PBranch ts v) = enc (Lst (map (nodeRef H) ts @ [Str v]))"
  by (simp_all add: encode_def nodeItem_ref)

lemma map_noChildren: "map (nodeRef H) noChildren = replicate 16 (Str [])"
  by (simp add: noChildren_def)

lemma stored_noChildren [simp]: "stored E d (PBranch noChildren w)"
  by (simp add: noChildren_def present_def)

lemma stored_child:
  "present E d u \<Longrightarrow> stored E d u \<Longrightarrow> i < 16 \<Longrightarrow> stored E d (PBranch (noChildren[i := u]) w)"
  using set_update_subset_insert [of noChildren i u] by (auto simp: noChildren_def present_def)

lemma ns_at_keyOf: "nibbled (n # l) \<Longrightarrow> ns_at (keyOf (hp (n # l) leaf)) 0 = n"
  by (simp add: ns_at_nibs size_keyOf keyOf_hp)

subsection \<open>Insertion stays within the bounds\<close>

definition okay :: "ptrie \<Rightarrow> bool" where
  "okay t \<longleftrightarrow> shaped t \<and> bounded t \<and> solid t"

lemma okay_simps [simp]:
  "okay PEmpty" "okay (PLeaf l v) \<longleftrightarrow> nibbled l \<and> length l < 2 ^ 32 \<and> length v < 2 ^ 32"
  "okay (PExt l t) \<longleftrightarrow> nibbled l \<and> l \<noteq> [] \<and> length l < 2 ^ 32 \<and> t \<noteq> PEmpty \<and> okay t"
  "okay (PBranch ts v) \<longleftrightarrow> length ts = 16 \<and> length v < 2 ^ 32 \<and> (\<forall>t\<in>set ts. okay t)"
  by (auto simp: okay_def)

lemma okay_noChildren: "\<forall>t\<in>set noChildren. okay t"
  by (simp add: noChildren_def)

lemma okay_branched:
  assumes "isPair t" "okay t"
  shows "okay (branched t)"
proof -
  from assms have "isPair t" "shaped t" by (simp_all add: okay_def)
  then show ?thesis
  proof (cases rule: pair_cases)
    case (1 w)
    then show ?thesis using assms okay_noChildren by (simp add: branched_def)
  next
    case (2 n l w)
    then show ?thesis using assms all_update [OF okay_noChildren, of "PLeaf l w" "unat n"] by (simp add: branched_def)
  next
    case (3 n l u)
    then show ?thesis using assms all_update [OF okay_noChildren, of "if l = [] then u else PExt l u" "unat n"] by (simp add: branched_def)
  qed
qed

lemma okay_split:
  assumes "isPair t" "okay t" "nibbled k" "length k < 2 ^ 32" "length v < 2 ^ 32"
  shows "okay (p_split t k v)"
proof -
  obtain ts w where b: "p_branch t = (ts, w)" by (cases "p_branch t")
  have o: "length ts = 16" "length w < 2 ^ 32" "\<forall>t\<in>set ts. okay t" using okay_branched [OF assms(1,2)] by (simp_all add: branched_def b)
  show ?thesis
  proof (cases k)
    case (Cons n j)
    then have "okay (PLeaf j v)" using assms(3-5) by simp
    from all_update [OF o(3) this, of "unat n"] show ?thesis using o by (simp add: p_split_def b Cons)
  qed (use o assms(5) in \<open>simp add: p_split_def b\<close>)
qed

lemma okay_cut:
  assumes "leaves t k" "okay t" "s = commonPrefix k (pairKey t)"
  shows "okay (restAt s t)" "s \<noteq> 0 \<Longrightarrow> okay (cutAt s t)"
proof -
  have "okay (restAt s t) \<and> (s \<noteq> 0 \<longrightarrow> okay (cutAt s t))"
  proof (cases t)
    case (PLeaf l w)
    then show ?thesis using assms commonPrefix_le(2) [of k l] by (auto simp: cutAt_def)
  next
    case (PExt l u)
    have "drop s l \<noteq> []"
    proof
      assume "drop s l = []"
      then have "take s l = l" by simp
      with assms(1,3) prefix_common [of k l] show False by (simp add: leaves_def PExt)
    qed
    then show ?thesis using assms commonPrefix_le(2) [of k l] by (auto simp: PExt cutAt_def)
  qed (use assms(1) in \<open>simp_all add: leaves_def\<close>)
  then show "okay (restAt s t)" "s \<noteq> 0 \<Longrightarrow> okay (cutAt s t)" by blast+
qed

lemma okay_apart:
  assumes "leaves t k" "okay t" "nibbled k" "length k < 2 ^ 32" "length v < 2 ^ 32"
  shows "okay (p_apart t k v)" "\<forall>u\<in>set (apartSteps t k). okay u"
proof -
  let ?s = "commonPrefix k (pairKey t)"
  have p: "isPair t" by (rule leaves_pair [OF assms(1)])
  note c = okay_cut [OF assms(1,2) refl]
  have "okay (p_split (restAt ?s t) (drop ?s k) v)" by (rule okay_split) (use p c assms in auto)
  moreover have "okay (p_split t k v)" by (rule okay_split) (use p assms in auto)
  ultimately show "okay (p_apart t k v)" using c(2) by (auto simp: p_apart_def cutAt_def Let_def p_split_def split: prod.splits list.splits)
  show "\<forall>u\<in>set (apartSteps t k). okay u"
    using okay_branched [OF p assms(2)] okay_branched [OF _ c(1)] p c(2) by (auto simp: apartSteps_def Let_def)
qed

lemma okay_insert:
  "okay t \<Longrightarrow> nibbled k \<Longrightarrow> length k < 2 ^ 32 \<Longrightarrow> length v < 2 ^ 32 \<Longrightarrow>
     okay (p_insert t k v) \<and> (\<forall>u\<in>set (insertSteps t k). okay u) \<and> p_insert t k v \<noteq> PEmpty"
proof (induction t k v rule: p_insert.induct)
  case (2 l w k v)
  show ?case
  proof (cases "l = k")
    case False
    then have lv: "leaves (PLeaf l w) k" by (simp add: leaves_def)
    show ?thesis unfolding p_insert_apart [OF lv] using okay_apart [OF lv 2] p_apart_nonempty by blast
  qed (use 2 in simp)
next
  case (3 l t k v)
  show ?case
  proof (cases "prefix l k")
    case True
    then show ?thesis using 3 by simp
  next
    case False
    then have lv: "leaves (PExt l t) k" by (simp add: leaves_def)
    show ?thesis unfolding p_insert_apart [OF lv] using okay_apart [OF lv 3(2-5)] p_apart_nonempty by blast
  qed
next
  case (5 ts w n k v)
  then have n: "unat n < length ts" by simp
  then have "okay (ts ! unat n)" using 5(2) by simp
  then have "okay (p_insert (ts ! unat n) k v)" "\<forall>u\<in>set (insertSteps (ts ! unat n) k). okay u" using 5(1) [OF n] 5(3-5) by simp_all
  then show ?case using 5(2) n all_update [of ts okay "p_insert (ts ! unat n) k v" "unat n"] by simp
qed simp_all

subsection \<open>The steps of the code\<close>

context node_store
begin

definition written :: "(bytes \<Rightarrow> h256) \<Rightarrow> bytes set \<Rightarrow> 'd \<Rightarrow> ptrie \<Rightarrow> trie_error + bytes \<times> 'd \<Rightarrow> bool" where
  "written H U d t r \<longleftrightarrow>
     (\<exists>d'. r = Inr (encode H t, d') \<and> ready d' \<and> keeps (env H N) U d d' \<and> stored (env H N) d' t)"

definition linked :: "(bytes \<Rightarrow> h256) \<Rightarrow> bytes set \<Rightarrow> 'd \<Rightarrow> ptrie \<Rightarrow> trie_error + rlp_item \<times> 'd \<Rightarrow> bool" where
  "linked H U d t r \<longleftrightarrow>
     (\<exists>d'. r = Inr (nodeRef H t, d') \<and> ready d' \<and> keeps (env H N) U d d' \<and> stored (env H N) d' t \<and> present (env H N) d' t)"

lemma writtenE:
  assumes "written H U d t r"
  obtains d' where "r = Inr (encode H t, d')" "ready d'" "keeps (env H N) U d d'" "stored (env H N) d' t"
  using assms unfolding written_def by blast

lemma linkedE:
  assumes "linked H U d t r"
  obtains d' where "r = Inr (nodeRef H t, d')" "ready d'" "keeps (env H N) U d d'" "stored (env H N) d' t" "present (env H N) d' t"
  using assms unfolding linked_def by blast

lemma writtenI: "r = Inr (encode H t, d') \<Longrightarrow> ready d' \<Longrightarrow> keeps (env H N) U d d' \<Longrightarrow> stored (env H N) d' t \<Longrightarrow> written H U d t r"
  unfolding written_def by blast

lemma written_after: "keeps (env H N) U d d' \<Longrightarrow> written H U d' t r \<Longrightarrow> written H U d t r"
  unfolding written_def using keeps_trans [of "env H N" U d d'] by metis

lemma kill_keeps: "ready d \<Longrightarrow> ready (nd_kill N h d) \<and> keeps (env H N) U d (nd_kill N h d)"
  by (simp add: keeps_def holds_def node_def lookup_kill ready_kill)

lemma killNode_keeps: "ready d \<Longrightarrow> ready (killNode (env H N) r h d) \<and> keeps (env H N) U d (killNode (env H N) r h d)"
  using kill_keeps [of d] by (simp add: killNode_def)

lemma killItem_keeps: "ready d \<Longrightarrow> ready (killItem (env H N) r d) \<and> keeps (env H N) U d (killItem (env H N) r d)"
  unfolding killItem_def by (rule killNode_keeps)

lemma insert_keeps:
  assumes "ready d" "inj_on H U" "b \<in> U" "b \<noteq> []"
  shows "ready (nd_insert N (H b) b d)" "keeps (env H N) U d (nd_insert N (H b) b d)" "holds (env H N) (nd_insert N (H b) b d) b"
proof -
  show "keeps (env H N) U d (nd_insert N (H b) b d)" "holds (env H N) (nd_insert N (H b) b d) b"
    using inj_on_eq_iff [OF assms(2) _ assms(3)] by (simp_all add: keeps_def holds_def node_def lookup_insert [OF assms(1,4)])
qed (rule ready_insert [OF assms(1)])

lemma streamNode_links:
  assumes "ready d" "inj_on H U" "storable H U t" "stored (env H N) d t"
  shows "linked H U d t (streamNode (env H N) (encode H t) d)"
proof (cases "length (encode H t) < 32")
  case True
  then have "streamNode (env H N) (encode H t) d = Inr (nodeRef H t, d)"
    using storable_parts [OF assms(3)] by (simp add: streamNode_def liftNode_def encode_def readItem_enc nodeRef_def asRef_def)
  moreover have "present (env H N) d t" using True by (simp add: present_def)
  ultimately show ?thesis using assms by (simp add: linked_def)
next
  case False
  let ?b = "encode H t"
  have b: "?b \<in> U" "?b \<noteq> []" using storable_parts [OF assms(3)] by (simp_all add: encode_def)
  note i = insert_keeps [OF assms(1,2) b]
  have "streamNode (env H N) ?b d = Inr (nodeRef H t, nd_insert N (H ?b) ?b d)"
    using False by (simp add: streamNode_def forceInsertNode_def nodeRef_hash Let_def)
  moreover have "stored (env H N) (nd_insert N (H ?b) ?b d) t"
    using keeps_stored [OF i(2), of t] storable_parts [OF assms(3)] assms(4) by simp
  ultimately show ?thesis using i by (simp add: linked_def present_def)
qed

text \<open>Placing a value.\<close>

lemma place_empty:
  assumes "ready d" "sound k" "storable H U (PLeaf (nibs k) v)"
  shows "written H U d (PLeaf (nibs k) v) (place (env H N) (nodeItem H PEmpty) k v d)"
proof (rule writtenI)
  show "place (env H N) (nodeItem H PEmpty) k v d = Inr (encode H (PLeaf (nibs k) v), killItem (env H N) (Str []) d)"
    using rlpList_enc [of "[Str (hp (nibs k) True), Str v]"] storable_parts [OF assms(3)] hp_from [OF assms(2), of 0 True]
    by (simp add: place_def it_isEmpty_def encode_def Let_def del: enc.simps)
qed (use killItem_keeps [OF assms(1)] in auto)

lemma place_leaf:
  assumes "ready d" "storable H U (PLeaf l v)"
  shows "written H U d (PLeaf l v) (place (env H N) (nodeItem H (PLeaf l w)) k v d)"
proof (rule writtenI)
  let ?o = "nodeItem H (PLeaf l w)"
  show "place (env H N) ?o k v d = Inr (encode H (PLeaf l v), killItem (env H N) ?o d)"
    using rlpList_enc [of "[Str (hp l True), Str v]"] storable_parts [OF assms(2)]
    by (simp add: place_def it_isEmpty_def encode_def Let_def del: enc.simps)
qed (use killItem_keeps [OF assms(1)] in auto)

lemma place_branch:
  assumes "ready d" "storable H U (PBranch ts v)" "storable H U (PBranch ts w)" "stored (env H N) d (PBranch ts w)"
  shows "written H U d (PBranch ts v) (place (env H N) (nodeItem H (PBranch ts w)) k v d)"
proof -
  let ?o = "nodeItem H (PBranch ts w)"
  have len: "length ts = 16" using assms(2) by (simp add: storable_simps)
  have k: "ready (killItem (env H N) ?o d)" "keeps (env H N) U d (killItem (env H N) ?o d)" using killItem_keeps [OF assms(1)] by auto
  show ?thesis
  proof (rule writtenI [OF _ k])
    have f: "fits (Lst (map (nodeRef H) ts @ [Str v]))" using storable_parts [OF assms(2)] by (simp add: nodeItem_ref)
    have "place (env H N) ?o k v d = andThen (rlpList (map (it_at ?o) [0..<16] @ [Str v])) (\<lambda>b. Inr (b, killItem (env H N) ?o d))"
      using isNode_branch [OF len] it_at_branch(3) [OF len]
      by (simp add: place_def it_isEmpty_node Let_def)
    then show "place (env H N) ?o k v d = Inr (encode H (PBranch ts v), killItem (env H N) ?o d)"
      by (simp only: items_branch(2) [OF len] rlpList_enc [OF f] andThen_Inr encode_def nodeItem_ref(2) [of H ts v])
    show "stored (env H N) (killItem (env H N) ?o d) (PBranch ts v)"
      using keeps_stored [OF k(2), of "PBranch ts w"] storable_parts [OF assms(3)] assms(4) by simp
  qed
qed

text \<open>Branching and cutting.\<close>

lemma branch_writes:
  assumes "ready d" "inj_on H U" "isPair t" "storable H U t" "storable H U (branched t)" "stored (env H N) d t"
  shows "written H U d (branched t) (branch (env H N) (nodeItem H t) d)"
proof -
  define d1 where "d1 = killItem (env H N) (nodeItem H t) d"
  have k: "ready d1" "keeps (env H N) U d d1" using killItem_keeps [OF assms(1)] by (auto simp: d1_def)
  have st: "stored (env H N) d1 t" using keeps_stored [OF k(2), of t] storable_parts [OF assms(4)] assms(6) by simp
  have f: "fits (nodeItem H (branched t))" using storable_parts [OF assms(5)] by simp
  have start: "branch (env H N) (Lst [Str (hp l leaf), x]) d =
      (if l = [] then andThen (assertThat leaf) (\<lambda>_. andThen (rlpList (replicate 16 (Str []) @ [x])) (\<lambda>b. Inr (b, d1)))
       else andThen (if leaf \<or> tl l \<noteq> []
                     then andThen (rlpList [Str (hp (tl l) leaf), x]) (\<lambda>b. streamNode (env H N) b d1) else Inr (x, d1))
              (\<lambda>(r, d). andThen (rlpList ((replicate 16 (Str []))[unat (hd l) := r] @ [Str []])) (\<lambda>b. Inr (b, d))))"
    if "nodeItem H t = Lst [Str (hp l leaf), x]" "nibbled l" for l leaf x
  proof (cases l)
    case Nil
    then show ?thesis using that by (simp add: branch_def nodeKey_pair size_keyOf d1_def Let_def)
  next
    case (Cons n l')
    have s: "sound (ns_mid (keyOf (hp l leaf)) 1)"
      using that Cons by (intro sound_mid sound_keyOf) (simp_all add: size_keyOf)
    then show ?thesis
      using that hp_from [OF s, of 0 leaf]
      by (simp add: branch_def nodeKey_pair size_keyOf ns_at_keyOf keyOf_hp d1_def Let_def Cons)
  qed
  have child: "storable H U c" if "branched t = PBranch (noChildren[unat n := c]) []" "n < 16" for c and n :: byte
  proof -
    have "c \<in> set (noChildren[unat n := c])" by (rule set_update_memI) (use that(2) in simp)
    then show ?thesis using assms(5) unfolding that(1) storable_simps by blast
  qed
  have finish: "written H U d (branched t) (andThen m
      (\<lambda>(r, d). andThen (rlpList ((replicate 16 (Str []))[unat n := r] @ [Str []])) (\<lambda>b. Inr (b, d))))"
    if b: "branched t = PBranch (noChildren[unat n := c]) []" and n: "n < 16" and l: "linked H U d1 c m" for c m and n :: byte
  proof -
    obtain d2 where d2: "m = Inr (nodeRef H c, d2)" "ready d2" "keeps (env H N) U d1 d2" "stored (env H N) d2 c" "present (env H N) d2 c"
      by (rule linkedE [OF l])
    have i: "nodeItem H (branched t) = Lst ((replicate 16 (Str []))[unat n := nodeRef H c] @ [Str []])"
      by (simp add: b nodeItem_ref map_update map_noChildren)
    have "written H U d1 (branched t) (Inr (encode H (branched t), d2))"
      using d2 stored_child [OF d2(5,4), of "unat n" "[]"] n by (simp add: written_def b del: stored_simps(4))
    then show ?thesis using written_after [OF k(2)] rlpList_enc [OF f [unfolded i]] by (simp add: d2(1) encode_def i del: enc.simps)
  qed
  from assms(3) have "shaped t" "isPair t" using storable_parts [OF assms(4)] by simp_all
  from this(2,1) show ?thesis
  proof (cases rule: pair_cases)
    case (1 w)
    have f': "fits (Lst (replicate 16 (Str []) @ [Str w]))" using f by (simp add: 1 branched_def nodeItem_ref map_noChildren)
    show ?thesis
      by (rule writtenI [OF _ k])
        (use start [of "[]" True "Str w"] rlpList_enc [OF f'] stored_noChildren [of _ d1 w] in
          \<open>simp_all add: 1 branched_def nodeItem_ref encode_def map_noChildren del: enc.simps stored_simps(4)\<close>)
  next
    case (2 n l w)
    have b: "branched t = PBranch (noChildren[unat n := PLeaf l w]) []" by (simp add: 2 branched_def)
    have c: "storable H U (PLeaf l w)" by (rule child [OF b 2(2)])
    then have "rlpList [Str (hp l True), Str w] = Inr (encode H (PLeaf l w))"
      using rlpList_enc [of "[Str (hp l True), Str w]"] storable_parts [OF c] by (simp add: encode_def del: enc.simps)
    with finish [OF b 2(2) streamNode_links [OF k(1) assms(2) c stored_simps(2)]] start [of "n # l" True "Str w"] 2
    show ?thesis by (simp del: enc.simps)
  next
    case (3 n l u)
    show ?thesis
    proof (cases "l = []")
      case True
      then have b: "branched t = PBranch (noChildren[unat n := u]) []" by (simp add: 3 branched_def)
      have l: "linked H U d1 u (Inr (nodeRef H u, d1))" using k st by (simp add: 3 linked_def)
      with finish [OF b 3(2) l] start [of "n # l" False "nodeRef H u"] 3 True show ?thesis by (simp add: nodeItem_ref)
    next
      case False
      then have b: "branched t = PBranch (noChildren[unat n := PExt l u]) []" by (simp add: 3 branched_def)
      have c: "storable H U (PExt l u)" by (rule child [OF b 3(2)])
      then have "rlpList [Str (hp l False), nodeRef H u] = Inr (encode H (PExt l u))"
        using rlpList_enc [of "[Str (hp l False), nodeRef H u]"] storable_parts [OF c] by (simp add: encode_def nodeItem_ref del: enc.simps)
      moreover have "stored (env H N) d1 (PExt l u)" using st by (simp add: 3)
      ultimately show ?thesis
        using finish [OF b 3(2) streamNode_links [OF k(1) assms(2) c]] start [of "n # l" False "nodeRef H u"] 3 False
        by (simp add: nodeItem_ref del: enc.simps)
    qed
  qed
qed

lemma cleve_writes:
  assumes "ready d" "inj_on H U" "storable H U t" "storable H U (cutAt s t)" "stored (env H N) d t"
    and "isPair t" "0 < s" "s \<le> length (pairKey t)"
  shows "written H U d (cutAt s t) (cleve (env H N) (nodeItem H t) s d)"
proof -
  define d1 where "d1 = killItem (env H N) (nodeItem H t) d"
  have k: "ready d1" "keeps (env H N) U d d1" using killItem_keeps [OF assms(1)] by (auto simp: d1_def)
  have main: "written H U d (PExt (take s l) u) (cleve (env H N) (nodeItem H t) s d)"
    if t: "nodeItem H t = Lst [Str (hp l leaf), x]" "nibbled l" "s \<le> length l"
      and u: "storable H U u" "nodeItem H u = Lst [Str (hp (drop s l) leaf), x]" "stored (env H N) d1 u"
      and top: "storable H U (PExt (take s l) u)" for l leaf x u
  proof -
    have "rlpList [Str (hp (drop s l) leaf), x] = Inr (encode H u)"
      using rlpList_enc [of "[Str (hp (drop s l) leaf), x]"] storable_parts [OF u(1)] by (simp add: encode_def u(2) del: enc.simps)
    moreover have "hexPrefixEncode_slice (keyOf (hp l leaf)) leaf s (-1) = hp (drop s l) leaf"
      "hexPrefixEncode_slice (keyOf (hp l leaf)) False 0 (int s) = hp (take s l) False"
      using hp_from [OF sound_keyOf [OF t(2)], of s leaf leaf] hp_upto [OF sound_keyOf [OF t(2)], of s leaf False] t(2,3)
      by (simp_all add: size_keyOf keyOf_hp)
    moreover have "killItem (env H N) (Lst [Str (hp l leaf), x]) d = d1" by (simp add: d1_def t(1))
    ultimately have start: "cleve (env H N) (nodeItem H t) s d = andThen (streamNode (env H N) (encode H u) d1)
        (\<lambda>(r, d). andThen (rlpList [Str (hp (take s l) False), r]) (\<lambda>top. Inr (top, d)))"
      using t(3) assms(7) by (simp add: t(1) cleve_def nodeKey_pair [OF t(2)] size_keyOf [OF t(2)])
    obtain d2 where d2: "streamNode (env H N) (encode H u) d1 = Inr (nodeRef H u, d2)" "ready d2" "keeps (env H N) U d1 d2"
        "stored (env H N) d2 u" "present (env H N) d2 u"
      by (rule linkedE [OF streamNode_links [OF k(1) assms(2) u(1,3)]])
    have "rlpList [Str (hp (take s l) False), nodeRef H u] = Inr (encode H (PExt (take s l) u))"
      using rlpList_enc [of "[Str (hp (take s l) False), nodeRef H u]"] storable_parts [OF top] by (simp add: encode_def nodeItem_ref del: enc.simps)
    then have "cleve (env H N) (nodeItem H t) s d = Inr (encode H (PExt (take s l) u), d2)" by (simp add: start d2(1))
    then show ?thesis by (rule writtenI) (use d2 keeps_trans [OF k(2) d2(3)] in simp_all)
  qed
  have st: "stored (env H N) d1 t" using keeps_stored [OF k(2), of t] storable_parts [OF assms(3)] assms(5) by simp
  show ?thesis
  proof (cases t)
    case (PLeaf l w)
    then show ?thesis using main [of l True "Str w" "PLeaf (drop s l) w"] assms(3,4,8) by (simp add: cutAt_def storable_simps)
  next
    case (PExt l u)
    then show ?thesis using main [of l False "nodeRef H u" "PExt (drop s l) u"] assms(3,4,8) st by (simp add: cutAt_def storable_simps nodeItem_ref)
  qed (use assms(6) in simp_all)
qed

subsection \<open>Merging\<close>

text \<open>Merging into the node of a trie writes the trie with the entry.\<close>

definition merges :: "(bytes \<Rightarrow> h256) \<Rightarrow> bytes set \<Rightarrow> ptrie \<Rightarrow> ptrie \<Rightarrow> NibbleSlice \<Rightarrow> bytes \<Rightarrow> nat \<Rightarrow> bool" where
  "merges H U t t' k v n \<longleftrightarrow>
     (\<forall>h inLine d. ready d \<longrightarrow> stored (env H N) d t \<longrightarrow> written H U d t' (mergeAt n (env H N) (nodeItem H t) h k v inLine d))"

lemma mergesD: "merges H U t t' k v n \<Longrightarrow> ready d \<Longrightarrow> stored (env H N) d t \<Longrightarrow> written H U d t' (mergeAt n (env H N) (nodeItem H t) h k v inLine d)"
  by (simp add: merges_def)

lemma merges_below:
  assumes "merges H U t t' k v n" "inj_on H U" "storable H U t" "storable H U t'" "ready d" "present (env H N) d t" "stored (env H N) d t"
  shows "linked H U d t' (mergeAtAux (Suc n) (env H N) (nodeRef H t) k v d)"
proof -
  obtain inl where c: "mergeChild (env H N) (nodeRef H t) d = Inr (nodeItem H t, inl)"
  proof (cases "t = PEmpty \<or> length (encode H t) < 32")
    case True
    then have "mergeChild (env H N) (nodeRef H t) d = Inr (nodeItem H t, False)"
      using it_isList_ref [of H t] it_isEmpty_ref [of H t] by (auto simp: mergeChild_def nodeRef_inline)
    then show ?thesis by (rule that)
  next
    case False
    then have "asRLP (node (env H N) d (H (encode H t))) = Inr (Some (nodeItem H t))"
      using assms(6) asRLP_enc [of "nodeItem H t"] storable_parts [OF assms(3)] by (simp add: present_def holds_def encode_def)
    then have "mergeChild (env H N) (nodeRef H t) d = Inr (nodeItem H t, True)"
      using False it_isList_ref [of H t] it_isEmpty_ref [of H t] by (simp add: mergeChild_def nodeRef_hash it_toHash_hash)
    then show ?thesis by (rule that)
  qed
  have "written H U d t' (mergeAt n (env H N) (nodeItem H t) (H (enc (nodeItem H t))) k v (\<not> inl) d)"
    by (rule mergesD [OF assms(1,5,7)])
  then obtain d1 where d1: "mergeAt n (env H N) (nodeItem H t) (H (enc (nodeItem H t))) k v (\<not> inl) d = Inr (encode H t', d1)"
      "ready d1" "keeps (env H N) U d d1" "stored (env H N) d1 t'"
    by (rule writtenE)
  obtain d2 where d2: "streamNode (env H N) (encode H t') d1 = Inr (nodeRef H t', d2)" "ready d2" "keeps (env H N) U d1 d2"
      "stored (env H N) d2 t'" "present (env H N) d2 t'"
    by (rule linkedE [OF streamNode_links [OF d1(2) assms(2,4) d1(4)]])
  then show ?thesis using keeps_trans [OF d1(3) d2(3)] by (simp add: linked_def c d1(1) del: enc.simps)
qed

lemma merges_empty: "sound k \<Longrightarrow> storable H U (PLeaf (nibs k) v) \<Longrightarrow> merges H U PEmpty (PLeaf (nibs k) v) k v (Suc n)"
  using place_empty by (simp add: merges_def it_isEmpty_def)

lemma merges_branch:
  assumes "inj_on H U" "storable H U (PBranch ts w)" "storable H U (p_insert (PBranch ts w) (nibs k) v)"
    and child: "ns_size k \<noteq> 0 \<Longrightarrow>
      merges H U (ts ! unat (ns_at k 0)) (p_insert (ts ! unat (ns_at k 0)) (nibs (ns_mid k 1)) v) (ns_mid k 1) v n"
  shows "merges H U (PBranch ts w) (p_insert (PBranch ts w) (nibs k) v) k v (Suc (Suc n))"
  unfolding merges_def
proof (intro allI impI)
  fix h inl and d :: 'd
  assume d: "ready d" "stored (env H N) d (PBranch ts w)"
  have len: "length ts = 16" using assms(2) by (simp add: storable_simps)
  note node = it_isEmpty_node isNode_branch [OF len] it_at_branch(3) [OF len]
  show "written H U d (p_insert (PBranch ts w) (nibs k) v) (mergeAt (Suc (Suc n)) (env H N) (nodeItem H (PBranch ts w)) h k v inl d)"
  proof (cases "ns_size k = 0")
    case True
    then have "nibs k = []" by (simp add: ns_empty)
    then show ?thesis using place_branch [OF d(1) _ assms(2) d(2), of v k] assms(3) True by (simp add: node)
  next
    case False
    let ?i = "unat (ns_at k 0)" and ?o = "nodeItem H (PBranch ts w)"
    let ?u = "p_insert (ts ! ?i) (nibs (ns_mid k 1)) v"
    have i: "?i < 16" using nibs_first(2) [OF False] by simp
    have ins: "p_insert (PBranch ts w) (nibs k) v = PBranch (ts[?i := ?u]) w"
      using i len by (simp add: nibs_first(1) [OF False] del: nibs_facts(2))
    have mem: "ts ! ?i \<in> set ts" "?u \<in> set (ts[?i := ?u])" using i len by (simp_all add: set_update_memI)
    have c: "storable H U (ts ! ?i)" "storable H U ?u" using assms(2,3) mem unfolding ins storable_simps by blast+
    define d1 where "d1 = (if inl then d else killNode (env H N) ?o h d)"
    have k: "ready d1" "keeps (env H N) U d d1" using killNode_keeps [OF d(1)] d(1) by (auto simp: d1_def)
    have st: "stored (env H N) d1 (PBranch ts w)" using keeps_stored [OF k(2), of "PBranch ts w"] storable_parts [OF assms(2)] d(2) by simp
    then have "present (env H N) d1 (ts ! ?i)" "stored (env H N) d1 (ts ! ?i)" using mem(1) by simp_all
    then obtain d2 where d2: "mergeAtAux (Suc n) (env H N) (nodeRef H (ts ! ?i)) (ns_mid k 1) v d1 = Inr (nodeRef H ?u, d2)"
        "ready d2" "keeps (env H N) U d1 d2" "stored (env H N) d2 ?u" "present (env H N) d2 ?u"
      by (rule linkedE [OF merges_below [OF child [OF False] assms(1) c k(1)]])
    have f: "fits (Lst (map (nodeRef H) (ts[?i := ?u]) @ [Str w]))" using storable_parts [OF assms(3)] by (simp add: ins nodeItem_ref)
    have "mergeAt (Suc (Suc n)) (env H N) ?o h k v inl d = Inr (encode H (PBranch (ts[?i := ?u]) w), d2)"
      using d2(1) False rlpList_enc [OF f] i
      by (simp add: node it_at_branch(1) [OF len i] items_update [OF len i] d1_def [symmetric] encode_ref
          Let_def del: mergeAtAux.simps enc.simps)
    then show ?thesis unfolding ins
    proof (rule writtenI [OF _ d2(2) keeps_trans [OF k(2) d2(3)]])
      have "stored (env H N) d2 (PBranch ts w)" using keeps_stored [OF d2(3), of "PBranch ts w"] storable_parts [OF assms(2)] st by simp
      then have "\<forall>t\<in>set ts. present (env H N) d2 t \<and> stored (env H N) d2 t" by simp
      then show "stored (env H N) d2 (PBranch (ts[?i := ?u]) w)" unfolding stored_simps by (rule all_update) (use d2(4,5) in blast)
    qed
  qed
qed

lemma merges_ext:
  assumes "inj_on H U" "storable H U (PExt l t)" "storable H U (PExt l t')" "prefix l (nibs k)"
    and child: "merges H U t t' (ns_mid k (length l)) v n"
  shows "merges H U (PExt l t) (PExt l t') k v (Suc (Suc n))"
  unfolding merges_def
proof (intro allI impI)
  fix h inl and d :: 'd
  assume d: "ready d" "stored (env H N) d (PExt l t)"
  let ?o = "nodeItem H (PExt l t)"
  have l: "nibbled l" and c: "storable H U t" "storable H U t'" using assms(2,3) by (simp_all add: storable_simps)
  define d1 where "d1 = (if inl then d else killNode (env H N) ?o h d)"
  have k: "ready d1" "keeps (env H N) U d d1" using killNode_keeps [OF d(1)] d(1) by (auto simp: d1_def)
  have "stored (env H N) d1 (PExt l t)" using keeps_stored [OF k(2), of "PExt l t"] storable_parts [OF assms(2)] d(2) by simp
  then have "present (env H N) d1 t" "stored (env H N) d1 t" by simp_all
  then obtain d2 where d2: "mergeAtAux (Suc n) (env H N) (nodeRef H t) (ns_mid k (length l)) v d1 = Inr (nodeRef H t', d2)"
      "ready d2" "keeps (env H N) U d1 d2" "stored (env H N) d2 t'" "present (env H N) d2 t'"
    by (rule linkedE [OF merges_below [OF child assms(1) c k(1)]])
  have f: "fits (Lst [Str (hp l False), nodeRef H t'])" using storable_parts [OF assms(3)] by (simp add: nodeItem_ref)
  have i: "nodeItem H (PExt l t) = Lst [Str (hp l False), nodeRef H t]" by (rule nodeItem_ref)
  have "mergeAt (Suc (Suc n)) (env H N) ?o h k v inl d = Inr (encode H (PExt l t'), d2)"
    using d2(1) rlpList_enc [OF f] assms(4)
    by (simp add: it_isEmpty_def i nodeKey_pair [OF l] prefix_nibs [OF l] size_keyOf [OF l] d1_def [symmetric, unfolded i] encode_ref Let_def
        del: mergeAtAux.simps enc.simps)
  then show "written H U d (PExt l t') (mergeAt (Suc (Suc n)) (env H N) ?o h k v inl d)"
    by (rule writtenI [OF _ d2(2) keeps_trans [OF k(2) d2(3)]]) (use d2(4,5) in simp)
qed

text \<open>A leaf or an extension the key leaves is cut or branched, and merged into again.\<close>

lemma mergeAt_apart:
  assumes "shaped t" "leaves t (nibs k)"
  shows "mergeAt (Suc n) E (nodeItem H t) h k v inl d =
    (let s = commonPrefix (nibs k) (pairKey t) in
     if s \<noteq> 0
     then andThen (cleve E (nodeItem H t) s d) (\<lambda>(b, d). andThen (rereadNode b) (\<lambda>r. mergeAt n E r (te_sha3 E b) k v True d))
     else andThen (branch E (nodeItem H t) d) (\<lambda>(b, d). andThen (rereadNode b) (\<lambda>r. mergeAt n E r (te_sha3 E b) k v True d)))"
proof (cases t)
  case (PLeaf l w)
  then show ?thesis
    using assms by (simp add: it_isEmpty_def nodeKey_pair equal_nibs keyOf_hp leaves_def Let_def)
next
  case (PExt l u)
  then have "nibs k \<noteq> l" using assms(2) by (auto simp: leaves_def)
  with PExt show ?thesis
    using assms by (simp add: nodeItem_ref it_isEmpty_def nodeKey_pair equal_nibs prefix_nibs keyOf_hp leaves_def Let_def)
qed (use assms(2) in \<open>simp_all add: leaves_def\<close>)

lemma merges_again:
  assumes "written H U d t (m :: trie_error + bytes \<times> 'd)" "storable H U t" "merges H U t t' k v n"
  shows "written H U d t' (andThen m (\<lambda>(b, d). andThen (rereadNode b) (\<lambda>r. mergeAt n (env H N) r (H b) k v True d)))"
proof -
  obtain d1 where d1: "m = Inr (encode H t, d1)" "ready d1" "keeps (env H N) U d d1" "stored (env H N) d1 t"
    by (rule writtenE [OF assms(1)])
  have "rereadNode (encode H t) = Inr (nodeItem H t)" using storable_parts [OF assms(2)] by (simp add: encode_def rereadNode_enc)
  then show ?thesis using written_after [OF d1(3) mergesD [OF assms(3) d1(2,4)]] by (simp add: d1(1))
qed

lemma merges_split:
  assumes "inj_on H U" "sound k" "storable H U t" "storable H U (branched t)" "storable H U (p_split t (nibs k) v)"
    and "leaves t (nibs k)" "commonPrefix (nibs k) (pairKey t) = 0"
  shows "merges H U t (p_split t (nibs k) v) k v (Suc (n + 4))"
proof -
  obtain ts w where b: "branched t = PBranch ts w" "fst (p_branch t) = ts" by (simp add: branched_def)
  have t: "isPair t" "shaped t" using leaves_pair [OF assms(6)] storable_parts [OF assms(3)] by simp_all
  note s = p_split_insert [OF t nibs_facts(4) [of k] assms(7)]
  have len: "length ts = 16" using assms(4) by (simp add: b(1) storable_simps)
  have br: "merges H U (branched t) (p_split t (nibs k) v) k v (n + 4)"
  proof -
    have "merges H U (PBranch ts w) (p_insert (PBranch ts w) (nibs k) v) k v (Suc (Suc (Suc (Suc n))))"
    proof (rule merges_branch [OF assms(1)])
      show "storable H U (PBranch ts w)" "storable H U (p_insert (PBranch ts w) (nibs k) v)"
        using assms(4,5) by (simp_all add: s(1) b(1))
      assume k: "ns_size k \<noteq> 0"
      let ?i = "unat (ns_at k 0)"
      have e: "ts ! ?i = PEmpty" using s(2) [OF nibs_first(1) [OF k]] b(2) by simp
      have i: "?i < 16" using nibs_first(2) [OF k] by simp
      have p: "p_insert (PBranch ts w) (nibs k) v = PBranch (ts[?i := PLeaf (nibs (ns_mid k 1)) v]) w"
        using i len by (simp add: nibs_first(1) [OF k] e del: nibs_facts(2))
      have "PLeaf (nibs (ns_mid k 1)) v \<in> set (ts[?i := PLeaf (nibs (ns_mid k 1)) v])" by (rule set_update_memI) (use i len in simp)
      then have "storable H U (PLeaf (nibs (ns_mid k 1)) v)" using assms(5) unfolding s(1) b(1) p storable_simps(3) by blast
      moreover have "sound (ns_mid k 1)" using sound_mid [OF assms(2), of 1] k by simp
      ultimately show "merges H U (ts ! ?i) (p_insert (ts ! ?i) (nibs (ns_mid k 1)) v) (ns_mid k 1) v (Suc (Suc n))"
        using merges_empty [of "ns_mid k 1" H U v "Suc n"] by (simp only: e p_insert.simps)
    qed
    then show ?thesis by (simp add: s(1) b(1) add.commute numeral_eq_Suc)
  qed
  show ?thesis unfolding merges_def
  proof (intro allI impI)
    fix h inl and d :: 'd
    assume d: "ready d" "stored (env H N) d t"
    show "written H U d (p_split t (nibs k) v) (mergeAt (Suc (n + 4)) (env H N) (nodeItem H t) h k v inl d)"
      using merges_again [OF branch_writes [OF d(1) assms(1) t(1) assms(3,4) d(2)] assms(4) br]
      unfolding mergeAt_apart [OF t(2) assms(6)] by (simp add: assms(7) del: mergeAt.simps)
  qed
qed

lemma merges_apart:
  assumes "inj_on H U" "sound k" "storable H U t" "storable H U (p_apart t (nibs k) v)" "leaves t (nibs k)"
    and steps: "\<forall>u\<in>set (apartSteps t (nibs k)). storable H U u"
  shows "merges H U t (p_apart t (nibs k) v) k v (n + 8)"
proof (cases "commonPrefix (nibs k) (pairKey t) = 0")
  case True
  then show ?thesis using merges_split [of H U k t v "n + 3"] assms by (simp add: p_apart_def apartSteps_def add.commute)
next
  case False
  let ?s = "commonPrefix (nibs k) (pairKey t)"
  let ?u = "restAt ?s t" and ?k = "ns_mid k ?s" and ?l = "take ?s (pairKey t)"
  let ?t' = "p_split ?u (nibs ?k) v"
  have s: "?s \<le> length (nibs k)" "?s \<le> length (pairKey t)" by (rule commonPrefix_le)+
  have t: "isPair t" "shaped t" using leaves_pair [OF assms(5)] storable_parts [OF assms(3)] by simp_all
  have ap: "p_apart t (nibs k) v = PExt ?l ?t'" using False by (simp add: p_apart_def Let_def)
  have st: "storable H U (cutAt ?s t)" "storable H U (branched ?u)" using steps False by (simp_all add: apartSteps_def Let_def)
  then have u: "storable H U ?u" by (simp add: cutAt_def storable_simps)
  have t': "storable H U ?t'" using assms(4) unfolding ap by (simp add: storable_simps)
  have k: "sound ?k" using sound_mid [OF assms(2)] s(1) by simp
  have lv: "leaves ?u (nibs ?k)"
  proof (cases t)
    case (PLeaf l w)
    have "nibs k \<noteq> l" using assms(5) by (simp add: PLeaf leaves_def)
    then have "drop ?s (nibs k) \<noteq> drop ?s l"
      using prefix_cut(2) [of ?s l "nibs k"] prefix_common [of "nibs k" l] s(2) by (simp add: PLeaf)
    then show ?thesis by (simp add: PLeaf leaves_def)
  next
    case (PExt l w)
    have "\<not> prefix (drop ?s l) (drop ?s (nibs k))"
      using assms(5) prefix_cut(1) [of ?s l "nibs k"] prefix_common [of "nibs k" l] s(2) by (simp add: PExt leaves_def)
    then show ?thesis by (simp add: PExt leaves_def)
  qed (use t in simp_all)
  have c: "commonPrefix (nibs ?k) (pairKey ?u) = 0" using commonPrefix_drop [of "nibs k" "pairKey t"] t(1) by simp
  have "merges H U ?u ?t' ?k v (Suc (n + 4))" by (rule merges_split [OF assms(1) k u st(2) t' lv c])
  moreover have "prefix ?l (nibs k)" by (rule prefix_common)
  ultimately have "merges H U (PExt ?l ?u) (PExt ?l ?t') k v (Suc (Suc (Suc (n + 4))))"
    using merges_ext [OF assms(1), of ?l ?u ?t' k v "Suc (n + 4)"] st(1) assms(4) s(2) unfolding ap cutAt_def by (simp add: min_def)
  then have m: "merges H U (cutAt ?s t) (PExt ?l ?t') k v (n + 7)" by (simp add: cutAt_def add.commute numeral_eq_Suc)
  show ?thesis unfolding merges_def
  proof (intro allI impI)
    fix h inl and d :: 'd
    assume d: "ready d" "stored (env H N) d t"
    have "written H U d (cutAt ?s t) (cleve (env H N) (nodeItem H t) ?s d)"
      by (rule cleve_writes) (use d assms(1,3) st(1) t(1) False s(2) in simp_all)
    from merges_again [OF this st(1) m]
    have "written H U d (p_apart t (nibs k) v) (mergeAt (Suc (n + 7)) (env H N) (nodeItem H t) h k v inl d)"
      unfolding mergeAt_apart [OF t(2) assms(5)] using False by (simp add: ap Let_def del: mergeAt.simps)
    then show "written H U d (p_apart t (nibs k) v) (mergeAt (n + 8) (env H N) (nodeItem H t) h k v inl d)"
      by (simp only: Suc_eq_plus1 add.assoc) simp
  qed
qed

lemma merges_more:
  assumes "\<And>n. merges H U t t' k v (n + m)" "m \<le> n"
  shows "merges H U t t' k v n"
  using assms(1) [of "n - m"] assms(2) by simp

lemma merges_insert:
  "inj_on H U \<Longrightarrow> sound k \<Longrightarrow> storable H U t \<Longrightarrow> storable H U (p_insert t (nibs k) v) \<Longrightarrow>
     \<forall>u\<in>set (insertSteps t (nibs k)). storable H U u \<Longrightarrow> 2 * ns_size k + 8 \<le> n \<Longrightarrow>
     merges H U t (p_insert t (nibs k) v) k v n"
proof (induction t arbitrary: k n)
  case PEmpty
  then show ?case using merges_empty [of k H U v "n - 1"] by simp
next
  case (PLeaf l w)
  show ?case
  proof (cases "l = nibs k")
    case True
    have "merges H U (PLeaf l w) (PLeaf l v) k v (Suc (n - 1))"
      unfolding merges_def
    proof (intro allI impI)
      fix h inl and d :: 'd
      assume "ready d"
      then show "written H U d (PLeaf l v) (mergeAt (Suc (n - 1)) (env H N) (nodeItem H (PLeaf l w)) h k v inl d)"
        using place_leaf [of d H U l v w k] PLeaf.prems(4) by (simp add: True it_isEmpty_def nodeKey_pair equal_nibs)
    qed
    with True PLeaf.prems(6) show ?thesis by simp
  next
    case False
    then have lv: "leaves (PLeaf l w) (nibs k)" by (simp add: leaves_def)
    show ?thesis unfolding p_insert_apart [OF lv]
      by (rule merges_more [of _ _ _ _ _ _ 8]) (use merges_apart [OF PLeaf.prems(1-3) _ lv] PLeaf.prems(4-6) p_insert_apart [OF lv] in simp_all)
  qed
next
  case (PExt l t)
  show ?case
  proof (cases "prefix l (nibs k)")
    case True
    let ?k = "ns_mid k (length l)"
    have len: "length l \<le> ns_size k" using prefix_length_le [OF True] by simp
    have l: "l \<noteq> []" "storable H U t" using PExt.prems(3) by (simp_all add: storable_simps)
    have m: "merges H U t (p_insert t (nibs ?k) v) ?k v (n - 2)"
    proof (rule PExt.IH [OF PExt.prems(1) _ l(2)])
      show "sound ?k" using sound_mid [OF PExt.prems(2) len] .
      show "storable H U (p_insert t (nibs ?k) v)" "\<forall>u\<in>set (insertSteps t (nibs ?k)). storable H U u"
        using PExt.prems(4,5) True by (simp_all add: storable_simps)
      show "2 * ns_size ?k + 8 \<le> n - 2" using PExt.prems(6) len l(1) by (cases l) auto
    qed
    have "merges H U (PExt l t) (PExt l (p_insert t (nibs ?k) v)) k v (Suc (Suc (n - 2)))"
      by (rule merges_ext [OF PExt.prems(1,3) _ True m]) (use PExt.prems(4) True in simp)
    moreover have "Suc (Suc (n - 2)) = n" using PExt.prems(6) by simp
    ultimately show ?thesis using True by simp
  next
    case False
    then have lv: "leaves (PExt l t) (nibs k)" by (simp add: leaves_def)
    show ?thesis unfolding p_insert_apart [OF lv]
      by (rule merges_more [of _ _ _ _ _ _ 8]) (use merges_apart [OF PExt.prems(1-3) _ lv] PExt.prems(4-6) p_insert_apart [OF lv] in simp_all)
  qed
next
  case (PBranch ts w)
  have len: "length ts = 16" using PBranch.prems(3) by (simp add: storable_simps)
  have "merges H U (PBranch ts w) (p_insert (PBranch ts w) (nibs k) v) k v (Suc (Suc (n - 2)))"
  proof (rule merges_branch [OF PBranch.prems(1,3,4)])
    assume k: "ns_size k \<noteq> 0"
    let ?i = "unat (ns_at k 0)" and ?k = "ns_mid k 1"
    have i: "?i < 16" using nibs_first(2) [OF k] by simp
    have p: "p_insert (PBranch ts w) (nibs k) v = PBranch (ts[?i := p_insert (ts ! ?i) (nibs ?k) v]) w"
      "insertSteps (PBranch ts w) (nibs k) = insertSteps (ts ! ?i) (nibs ?k)"
      using i len by (simp_all add: nibs_first(1) [OF k] del: nibs_facts(2))
    have mem: "ts ! ?i \<in> set ts" "p_insert (ts ! ?i) (nibs ?k) v \<in> set (ts[?i := p_insert (ts ! ?i) (nibs ?k) v])"
      using i len by (simp_all add: set_update_memI)
    show "merges H U (ts ! ?i) (p_insert (ts ! ?i) (nibs ?k) v) ?k v (n - 2)"
    proof (rule PBranch.IH [OF mem(1) PBranch.prems(1)])
      show "sound ?k" using sound_mid [OF PBranch.prems(2), of 1] k by simp
      show "storable H U (ts ! ?i)" "storable H U (p_insert (ts ! ?i) (nibs ?k) v)"
        using PBranch.prems(3,4) mem unfolding p storable_simps by blast+
      show "\<forall>u\<in>set (insertSteps (ts ! ?i) (nibs ?k)). storable H U u" using PBranch.prems(5) unfolding p .
      show "2 * ns_size ?k + 8 \<le> n - 2" using PBranch.prems(6) k by simp
    qed
  qed
  moreover have "Suc (Suc (n - 2)) = n" using PBranch.prems(6) by simp
  ultimately show ?case by simp
qed

end

end
