(* ===== verification/Patricia_Delete.thy ===== *)
theory Patricia_Delete
  imports Patricia_Steps
begin

section \<open>Removal, for keys of one length\<close>

fun uniform :: "nat \<Rightarrow> ptrie \<Rightarrow> bool" where
  "uniform m PEmpty = True"
| "uniform m (PLeaf l v) \<longleftrightarrow> length l = m"
| "uniform m (PExt l t) \<longleftrightarrow> length l \<le> m \<and> uniform (m - length l) t"
| "uniform m (PBranch ts v) \<longleftrightarrow> 0 < m \<and> v = [] \<and> (\<forall>t\<in>set ts. uniform (m - 1) t)"

text \<open>All values satisfy a condition.\<close>

fun allValues :: "(bytes \<Rightarrow> bool) \<Rightarrow> ptrie \<Rightarrow> bool" where
  "allValues P PEmpty = True"
| "allValues P (PLeaf l v) = P v"
| "allValues P (PExt l t) = allValues P t"
| "allValues P (PBranch ts v) \<longleftrightarrow> P v \<and> (\<forall>t\<in>set ts. allValues P t)"

subsection \<open>Grafting\<close>

lemma p_graft_simps [simp]:
  "p_graft l (PLeaf m v) = PLeaf (l @ m) v" "p_graft l (PExt m u) = PExt (l @ m) u"
  "p_graft l (PBranch ts v) = PExt l (PBranch ts v)" "p_graft l PEmpty = PExt l PEmpty"
  by (simp_all add: p_graft_def)

lemma prefix_append: "prefix (l @ m) k \<longleftrightarrow> prefix l k \<and> prefix m (drop (length l) k)" "k = l @ m \<longleftrightarrow> prefix l k \<and> drop (length l) k = m"
  by (auto simp: prefix_def append_eq_append_conv2)

lemma p_get_graft: "p_get (p_graft l t) k = p_get (PExt l t) k"
  by (cases t) (auto simp: prefix_append(1) prefix_append(2) [of k] add.commute)

lemma graft_facts:
  assumes "nibbled l" "l \<noteq> []"
  shows "shaped t \<Longrightarrow> shaped (p_graft l t)" "normal t \<Longrightarrow> t \<noteq> PEmpty \<Longrightarrow> normal (p_graft l t)"
    "uniform m t \<Longrightarrow> uniform (length l + m) (p_graft l t)" "allValues P (p_graft l t) = allValues P t"
    "p_graft l t \<noteq> PEmpty"
  by (cases t; use assms in simp)+

subsection \<open>Children in use\<close>

lemma length_used: "length (usedChildren ts) = length (filter (\<lambda>t. t \<noteq> PEmpty) ts)"
proof -
  have "filter (\<lambda>t. t \<noteq> PEmpty) (map ((!) ts) [0..<length ts]) = map ((!) ts) (usedChildren ts)"
    by (simp add: filter_map usedChildren_def comp_def)
  then show ?thesis by (metis length_map map_nth)
qed

lemma entries_used: "entries ts [] = length (usedChildren ts)"
  by (simp add: entries_def length_used)

lemma used_mem: "i \<in> set (usedChildren ts) \<longleftrightarrow> i < length ts \<and> ts ! i \<noteq> PEmpty"
  by (auto simp: usedChildren_def)

lemma p_shrink_cases:
  obtains i where "usedChildren ts = [i]" "p_shrink ts = p_graft [word_of_nat i] (ts ! i)" "i < length ts" "ts ! i \<noteq> PEmpty"
      "\<forall>j<length ts. j \<noteq> i \<longrightarrow> ts ! j = PEmpty"
    | "length (usedChildren ts) \<noteq> 1" "p_shrink ts = PBranch ts []"
proof (cases "length (usedChildren ts) = 1")
  case True
  then obtain i where i: "usedChildren ts = [i]" by (auto simp: length_Suc_conv)
  then have "\<forall>j. j < length ts \<and> ts ! j \<noteq> PEmpty \<longleftrightarrow> j = i" using used_mem [of _ ts] by auto
  then show ?thesis using that(1) [OF i] i by (auto simp: p_shrink_def)
next
  case False
  then have "p_shrink ts = PBranch ts []" by (auto simp: p_shrink_def split: list.splits)
  then show ?thesis using that(2) False by blast
qed

lemma nibble_nat: "i < 16 \<Longrightarrow> (word_of_nat i :: byte) < 16" "i < 16 \<Longrightarrow> unat (word_of_nat i :: byte) = i"
  by (simp_all add: word_less_nat_alt unat_of_nat)

lemma p_get_shrink:
  assumes "length ts = 16" "nibbled k"
  shows "p_get (p_shrink ts) k = p_get (PBranch ts []) k"
proof (cases ts rule: p_shrink_cases)
  case (1 i)
  show ?thesis
  proof (cases k)
    case (Cons n j)
    have n: "unat n < length ts" "unat n < 16" using assms by (simp_all add: Cons)
    have i: "unat (word_of_nat i :: byte) = i" using 1(3) assms(1) by (simp add: nibble_nat)
    have "word_of_nat i = n \<longleftrightarrow> unat n = i" using i unsigned_word_eqI [of "word_of_nat i" n] by auto
    then show ?thesis using 1 n i by (auto simp: p_get_graft Cons)
  qed (simp add: 1 p_get_graft)
qed simp

lemma shrink_facts:
  assumes "length ts = 16" "usedChildren ts \<noteq> []"
  shows "\<forall>t\<in>set ts. shaped t \<Longrightarrow> shaped (p_shrink ts)" "\<forall>t\<in>set ts. normal t \<Longrightarrow> normal (p_shrink ts)"
    "\<forall>t\<in>set ts. uniform m t \<Longrightarrow> uniform (Suc m) (p_shrink ts)"
    "P [] \<Longrightarrow> \<forall>t\<in>set ts. allValues P t \<Longrightarrow> allValues P (p_shrink ts)" "p_shrink ts \<noteq> PEmpty"
proof -
  have *: "((\<forall>t\<in>set ts. shaped t) \<longrightarrow> shaped (p_shrink ts)) \<and> ((\<forall>t\<in>set ts. normal t) \<longrightarrow> normal (p_shrink ts)) \<and>
    ((\<forall>t\<in>set ts. uniform m t) \<longrightarrow> uniform (Suc m) (p_shrink ts)) \<and>
    (P [] \<longrightarrow> (\<forall>t\<in>set ts. allValues P t) \<longrightarrow> allValues P (p_shrink ts)) \<and> p_shrink ts \<noteq> PEmpty"
  proof (cases ts rule: p_shrink_cases)
    case (1 i)
    have n: "nibbled [word_of_nat i]" using 1(3) assms(1) by (simp add: nibble_nat)
    show ?thesis using graft_facts(1,2,5) [OF n, of "ts ! i"] graft_facts(3) [OF n, of m "ts ! i"] graft_facts(4) [OF n, where P = P and t = "ts ! i"] 1 by simp
  next
    case 2
    then have "2 \<le> entries ts []" using assms(2) by (cases "usedChildren ts") (auto simp: entries_used Suc_le_eq)
    then show ?thesis using 2 assms(1) by simp
  qed
  from * show "\<forall>t\<in>set ts. shaped t \<Longrightarrow> shaped (p_shrink ts)" by blast
  from * show "\<forall>t\<in>set ts. normal t \<Longrightarrow> normal (p_shrink ts)" by blast
  from * show "\<forall>t\<in>set ts. uniform m t \<Longrightarrow> uniform (Suc m) (p_shrink ts)" by blast
  from * show "P [] \<Longrightarrow> \<forall>t\<in>set ts. allValues P t \<Longrightarrow> allValues P (p_shrink ts)" by blast
  from * show "p_shrink ts \<noteq> PEmpty" by blast
qed

text \<open>A branch of the normal form keeps a child when one is removed.\<close>

lemma used_after:
  assumes "2 \<le> entries ts []" "i < length ts"
  shows "usedChildren (ts[i := u]) \<noteq> []"
proof
  assume "usedChildren (ts[i := u]) = []"
  then have "entries (ts[i := u]) [] = 0" by (simp add: entries_used)
  with entries_update [OF assms(2), of u "[]"] assms(1) show False by (simp split: if_splits)
qed

subsection \<open>Removal keeps the normal form\<close>

lemma delete_facts:
  "p_delete t k = Some t' \<Longrightarrow> shaped t \<Longrightarrow> normal t \<Longrightarrow> uniform m t \<Longrightarrow> length k = m \<Longrightarrow> nibbled k \<Longrightarrow>
     shaped t' \<and> normal t' \<and> uniform m t' \<and> (P [] \<longrightarrow> allValues P t \<longrightarrow> allValues P t') \<and> (isBranch t \<longrightarrow> t' \<noteq> PEmpty)"
proof (induction t k arbitrary: t' m rule: p_delete.induct)
  case (3 l t k)
  then have l: "prefix l k" by (auto split: if_splits)
  with 3(2) obtain u where u: "p_delete t (drop (length l) k) = Some u" "t' = p_graft l u" by auto
  have t: "shaped t" "normal t" "uniform (m - length l) t" "length (drop (length l) k) = m - length l" "nibbled (drop (length l) k)"
    using 3(3-7) by simp_all
  note IH = 3(1) [OF l u(1) t]
  have "nibbled l" "l \<noteq> []" "isBranch t" "length l \<le> m" using 3(3-5) by simp_all
  then show ?case using IH graft_facts(1,2,5) [of l u] graft_facts(3) [of l "m - length l" u] graft_facts(4) [where P = P and l = l and t = u] by (simp add: u(2))
next
  case (5 ts w n k)
  then have n: "unat n < length ts" "length ts = 16" by (auto split: if_splits)
  with 5(2) obtain u where u: "p_delete (ts ! unat n) k = Some u" "t' = p_shrink (ts[unat n := u])" by auto
  have t: "shaped (ts ! unat n)" "normal (ts ! unat n)" "uniform (m - 1) (ts ! unat n)" "length k = m - 1" "nibbled k" "w = []" "0 < m"
    using 5(3-7) n by auto
  note IH = 5(1) [OF n(1) u(1) t(1-5)]
  have used: "usedChildren (ts[unat n := u]) \<noteq> []" using 5(4) t(6) n by (intro used_after) simp_all
  have len: "length (ts[unat n := u]) = 16" using n(2) by simp
  note f = shrink_facts [OF len used]
  have "shaped t'" unfolding u(2) by (rule f(1) [OF all_update]) (use 5(3) IH in simp_all)
  moreover have "normal t'" unfolding u(2) by (rule f(2) [OF all_update]) (use 5(4) IH in simp_all)
  moreover have "uniform m t'" using f(3) [OF all_update, of "m - 1"] 5(5) IH t(7) by (simp add: u(2))
  moreover have "P [] \<longrightarrow> allValues P (PBranch ts w) \<longrightarrow> allValues P t'"
    unfolding u(2) allValues.simps using f(4) [OF _ all_update, of P] IH nth_mem [OF n(1)] by blast
  ultimately show ?case using f(5) u(2) by simp
qed (auto split: if_splits)

lemma delete_finds:
  "shaped t \<Longrightarrow> normal t \<Longrightarrow> uniform m t \<Longrightarrow> length k = m \<Longrightarrow> nibbled k \<Longrightarrow> p_delete t k = None \<longleftrightarrow> p_get t k = []"
proof (induction t k arbitrary: m rule: p_delete.induct)
  case (3 l t k)
  show ?case
  proof (cases "prefix l k")
    case True
    with 3(1) [OF True, of "m - length l"] 3(2-6) show ?thesis by simp
  qed simp
next
  case (5 ts w n k)
  then have n: "unat n < length ts" by simp
  then show ?case using 5(1) [OF n, of "m - 1"] 5(2-6) by simp
qed auto

lemma p_get_delete:
  "p_delete t k = Some t' \<Longrightarrow> shaped t \<Longrightarrow> normal t \<Longrightarrow> uniform m t \<Longrightarrow> length k = m \<Longrightarrow> nibbled k \<Longrightarrow> length k' = m \<Longrightarrow> nibbled k' \<Longrightarrow>
     p_get t' k' = (if k' = k then [] else p_get t k')"
proof (induction t k arbitrary: t' k' m rule: p_delete.induct)
  case (2 l w k)
  then show ?case by (auto split: if_splits)
next
  case (3 l t k)
  then have l: "prefix l k" by (auto split: if_splits)
  with 3(2) obtain u where u: "p_delete t (drop (length l) k) = Some u" "t' = p_graft l u" by auto
  have "p_get u (drop (length l) k') = (if drop (length l) k' = drop (length l) k then [] else p_get t (drop (length l) k'))"
    by (rule 3(1) [OF l u(1), of "m - length l"]) (use 3(3-9) in simp_all)
  then show ?case using l drop_common [of l k' k] by (auto simp: u(2) p_get_graft)
next
  case (5 ts w n k)
  then have n: "unat n < length ts" "length ts = 16" by (auto split: if_splits)
  with 5(2) obtain u where u: "p_delete (ts ! unat n) k = Some u" "t' = p_shrink (ts[unat n := u])" by auto
  have len: "length (ts[unat n := u]) = 16" using n(2) by simp
  have g: "p_get t' k' = p_get (PBranch (ts[unat n := u]) []) k'" unfolding u(2) by (rule p_get_shrink [OF len 5(9)])
  show ?case
  proof (cases k')
    case (Cons i j)
    have "p_get u j = (if j = k then [] else p_get (ts ! unat n) j)"
      by (rule 5(1) [OF n(1) u(1), of "m - 1"]) (use 5(3-9) n Cons in auto)
    then show ?thesis using g n 5(7,9) by (auto simp: Cons)
  next
    case Nil
    then show ?thesis using g 5(5) by simp
  qed
qed simp_all

subsection \<open>Insertion keeps keys of one length\<close>

lemma uniform_split:
  assumes "shaped t" "uniform m t" "length k = m" "nibbled k" "leaves t k" "commonPrefix k (pairKey t) = 0"
  shows "uniform m (p_split t k v)"
proof -
  have p: "isPair t" by (rule leaves_pair [OF assms(5)])
  have m: "0 < m"
  proof (rule ccontr)
    assume "\<not> 0 < m"
    then show False using assms(1-3,5) by (cases t) (auto simp: leaves_def)
  qed
  then obtain n j where k: "k = n # j" using assms(3) by (cases k) auto
  have u0: "\<forall>u\<in>set noChildren. uniform (m - 1) u" by (simp add: noChildren_def)
  obtain ts w where b: "p_branch t = (ts, w)" by (cases "p_branch t")
  have "(\<forall>u\<in>set ts. uniform (m - 1) u) \<and> w = []"
    using p assms(1)
  proof (cases rule: pair_cases)
    case (1 w')
    then show ?thesis using assms(2) m by simp
  next
    case (2 n l w')
    then show ?thesis using all_update [OF u0, of "PLeaf l w'" "unat n"] assms(2) b by auto
  next
    case (3 n l u)
    then have "uniform (m - 1) (if l = [] then u else PExt l u)" using assms(2) by auto
    from all_update [OF u0 this, of "unat n"] show ?thesis using b 3 by auto
  qed
  moreover have "uniform (m - 1) (PLeaf j v)" using assms(3) by (simp add: k)
  ultimately show ?thesis using all_update [of ts "uniform (m - 1)" "PLeaf j v" "unat n"] m by (simp add: p_split_def b k)
qed

lemma uniform_apart:
  assumes "shaped t" "uniform m t" "length k = m" "nibbled k" "leaves t k"
  shows "uniform m (p_apart t k v)"
proof (cases "commonPrefix k (pairKey t) = 0")
  case True
  then show ?thesis using uniform_split [OF assms] by (simp add: p_apart_def)
next
  case False
  let ?s = "commonPrefix k (pairKey t)"
  have s: "?s \<le> length k" "?s \<le> length (pairKey t)" by (rule commonPrefix_le)+
  have "uniform (m - ?s) (restAt ?s t)" using assms(2,5) s(2) by (cases t) (auto simp: leaves_def)
  then have "uniform (m - ?s) (p_split (restAt ?s t) (drop ?s k) v)"
    by (rule uniform_split [OF shaped_rest [OF assms(5,1) refl] _ _ _ leaves_rest [OF assms(5) refl]]) (use assms in simp_all)
  then show ?thesis using False s assms(3) by (simp add: p_apart_def Let_def min_def)
qed

lemma uniform_insert: "uniform m t \<Longrightarrow> length k = m \<Longrightarrow> shaped t \<Longrightarrow> nibbled k \<Longrightarrow> uniform m (p_insert t k v)"
proof (induction t k v arbitrary: m rule: p_insert.induct)
  case (2 l w k v)
  show ?case
  proof (cases "l = k")
    case False
    then have lv: "leaves (PLeaf l w) k" by (simp add: leaves_def)
    show ?thesis unfolding p_insert_apart [OF lv] by (rule uniform_apart [OF 2(3,1,2,4) lv])
  qed (use 2 in simp)
next
  case (3 l t k v)
  show ?case
  proof (cases "prefix l k")
    case True
    then show ?thesis using 3(1) [OF True, of "m - length l"] 3(2-5) by simp
  next
    case False
    then have lv: "leaves (PExt l t) k" by (simp add: leaves_def)
    show ?thesis unfolding p_insert_apart [OF lv] by (rule uniform_apart [OF 3(4,2,3,5) lv])
  qed
next
  case (5 ts w n k v)
  then have n: "unat n < length ts" by simp
  have "uniform (m - 1) (p_insert (ts ! unat n) k v)" using 5(1) [OF n, of "m - 1"] 5(2-5) n by simp
  then show ?case using 5(2,3) n all_update [of ts "uniform (m - 1)" _ "unat n"] by simp
qed simp_all

end
