(* ===== verification/Trie_Remove.thy ===== *)
theory Trie_Remove
  imports Trie_Insert Patricia_Delete
begin

section \<open>Removing\<close>

text \<open>What a removal makes on its way: what remains of each trie it goes down to.\<close>

function deleteSteps :: "ptrie \<Rightarrow> bytes \<Rightarrow> ptrie list" where
  "deleteSteps PEmpty k = []"
| "deleteSteps (PLeaf l w) k = []"
| "deleteSteps (PExt l t) k =
     (if prefix l k
      then case p_delete t (drop (length l) k) of None \<Rightarrow> [] | Some u \<Rightarrow> u # deleteSteps t (drop (length l) k)
      else [])"
| "deleteSteps (PBranch ts w) [] = []"
| "deleteSteps (PBranch ts w) (n # k) =
     (if unat n < length ts
      then case p_delete (ts ! unat n) k of None \<Rightarrow> [] | Some u \<Rightarrow> u # deleteSteps (ts ! unat n) k
      else [])"
  by pat_completeness auto
termination by (relation "measure (\<lambda>(t, k). size t)") (auto simp: size_child)

lemma deleteSteps_None: "p_delete t k = None \<Longrightarrow> deleteSteps t k = []"
  by (cases "(t, k)" rule: deleteSteps.cases) (auto split: if_splits)

subsection \<open>The only entry in use\<close>

lemma uniqueLoop_result:
  "\<forall>(i, r)\<in>set rs. i \<noteq> 255 \<Longrightarrow> used \<noteq> 255 \<Longrightarrow>
     uniqueLoop rs ex used = (if filter (\<lambda>(i, r). i \<noteq> ex \<and> \<not> it_isEmpty r) rs = [] then used else 255)"
  "\<forall>(i, r)\<in>set rs. i \<noteq> 255 \<Longrightarrow>
     uniqueLoop rs ex 255 = (case filter (\<lambda>(i, r). i \<noteq> ex \<and> \<not> it_isEmpty r) rs of [(i, r)] \<Rightarrow> i | _ \<Rightarrow> 255)"
proof -
  show one: "uniqueLoop rs ex used = (if filter (\<lambda>(i, r). i \<noteq> ex \<and> \<not> it_isEmpty r) rs = [] then used else 255)"
    if "\<forall>(i, r)\<in>set rs. i \<noteq> 255" "used \<noteq> 255" for rs used
    using that by (induction rs) auto
  show "uniqueLoop rs ex 255 = (case filter (\<lambda>(i, r). i \<noteq> ex \<and> \<not> it_isEmpty r) rs of [(i, r)] \<Rightarrow> i | _ \<Rightarrow> 255)"
    if "\<forall>(i, r)\<in>set rs. i \<noteq> 255"
    using that
  proof (induction rs)
    case (Cons p rs)
    obtain i r where p: "p = (i, r)" by (cases p)
    show ?case
    proof (cases "i \<noteq> ex \<and> \<not> it_isEmpty r")
      case True
      then show ?thesis using Cons.prems one [of rs i] by (auto simp: p split: list.splits)
    qed (use Cons p in auto)
  qed simp
qed

lemma uniqueInUse_children:
  assumes "length ts = 16"
  shows "uniqueInUse (Lst (map (nodeRef H) ts @ [Str []])) 255 = (case usedChildren ts of [i] \<Rightarrow> i | _ \<Rightarrow> 255)"
proof -
  let ?it = "it_at (Lst (map (nodeRef H) ts @ [Str []]))"
  let ?P = "\<lambda>(i, r). i \<noteq> 255 \<and> \<not> it_isEmpty r"
  have last: "it_isEmpty (?it 16)" using assms by (simp add: nth_append it_isEmpty_def)
  have f: "filter (?P \<circ> (\<lambda>i. (i, ?it i))) [0..<16] = usedChildren ts"
    unfolding usedChildren_def assms
    by (rule filter_cong) (use assms in \<open>auto simp: nth_append it_isEmpty_ref\<close>)
  have "[0..<17] = [0..<16] @ [16 :: nat]" by (simp add: upt_conv_Cons)
  then have "filter ?P (map (\<lambda>i. (i, ?it i)) [0..<17]) = map (\<lambda>i. (i, ?it i)) (usedChildren ts)"
    using last f by (simp add: filter_map)
  moreover have "\<forall>(i, r)\<in>set (map (\<lambda>i. (i, ?it i)) [0..<17]). i \<noteq> 255" by auto
  ultimately show ?thesis
    unfolding uniqueInUse_def by (subst uniqueLoop_result(2)) (auto split: list.splits)
qed

lemma hp_nibble:
  assumes "i < 16"
  shows "hexPrefixEncode_slice (slice [word_of_nat i] 0) False 1 2 = hp [word_of_nat i] False"
proof -
  have "hexPrefixEncode_slice (slice [word_of_nat i] 0) False 1 2 =
      hp (take (2 - 1) (drop 1 (nibs (slice [word_of_nat i] 0)))) False"
    by (rule hexPrefixEncode_slice_hp) (simp_all add: slice_def ns_size_def)
  also have "take (2 - 1) (drop 1 (nibs (slice [word_of_nat i] 0))) = [word_of_nat i :: byte]"
    using nibble_bits(3) [of 0 "word_of_nat i"] nibble_nat(1) [OF assms] by (simp add: asNibbles_Cons del: asNibbles_simps(2))
  finally show ?thesis .
qed

subsection \<open>The steps of the code\<close>

lemma two_items: "shaped t \<Longrightarrow> t \<noteq> PEmpty \<Longrightarrow> it_itemCount (nodeItem H t) = 2 \<longleftrightarrow> isPair t"
  by (cases t) (simp_all add: nodeItem_ref)

lemma isTwoItemNode_ref:
  assumes "shaped t" "bounded t" "t \<noteq> PEmpty" "present E d t"
  shows "isTwoItemNode E d (nodeRef (te_sha3 E) t) = Inr (isPair t)"
proof (cases "length (encode (te_sha3 E) t) < 32")
  case True
  with assms show ?thesis by (simp add: isTwoItemNode_def nodeRef_inline it_isList_node two_items)
next
  case False
  then have "asRLP (node E d (te_sha3 E (encode (te_sha3 E) t))) = Inr (Some (nodeItem (te_sha3 E) t))"
    using assms asRLP_enc [OF fits_node, of t] by (simp add: present_def holds_def encode_def)
  then show ?thesis using False assms by (simp add: isTwoItemNode_def nodeRef_hash it_toHash_hash two_items)
qed

context node_store
begin

lemma graft_writes:
  assumes "ready d" "nibbled l" "storable H U u" "isPair u" "present (env H N) d u" "stored (env H N) d u" "storable H U (p_graft l u)"
  shows "written H U d (p_graft l u) (graft (env H N) (Lst [Str (hp l False), nodeRef H u]) d)"
proof -
  define d1 where "d1 = (if length (encode H u) < 32 then d else nd_kill N (H (encode H u)) d)"
  have k: "ready d1" "keeps (env H N) U d d1" using kill_keeps [OF assms(1)] assms(1) by (auto simp: d1_def)
  have u: "shaped u" "u \<noteq> PEmpty" using storable_parts [OF assms(3)] assms(4) by auto
  have read: "(if it_isList (nodeRef H u) then Inr (Some (nodeRef H u), d)
      else andThen (it_toHash (nodeRef H u)) (\<lambda>h. andThen (asRLP (node (env H N) d h)) (\<lambda>r. Inr (r, nd_kill N h d)))) =
    Inr (Some (nodeItem H u), d1)"
  proof (cases "length (encode H u) < 32")
    case True
    then show ?thesis using u by (simp add: nodeRef_inline it_isList_node d1_def)
  next
    case False
    then have "asRLP (node (env H N) d (H (encode H u))) = Inr (Some (nodeItem H u))"
      using assms(5) asRLP_enc [of "nodeItem H u"] storable_parts [OF assms(3)] by (simp add: present_def holds_def encode_def)
    then show ?thesis using False by (simp add: nodeRef_hash it_toHash_hash d1_def)
  qed
  have st: "stored (env H N) d1 u" using keeps_stored [OF k(2), of u] storable_parts [OF assms(3)] assms(6) by simp
  have main: "written H U d (p_graft l u) (graft (env H N) (Lst [Str (hp l False), nodeRef H u]) d)"
    if i: "nodeItem H u = Lst [Str (hp m leaf), x]" "nibbled m" "nodeItem H (p_graft l u) = Lst [Str (hp (l @ m) leaf), x]" for m leaf x
  proof (rule writtenI [OF _ k])
    have h: "hexPrefixEncode_two (keyOf (hp l False)) (keyOf (hp m leaf)) leaf = hp (l @ m) leaf"
      using hexPrefixEncode_two_hp [of "keyOf (hp l False)" "keyOf (hp m leaf)" leaf] keyOf_hp [OF assms(2)] keyOf_hp [OF i(2)] by simp
    have f: "fits (Lst [Str (hp (l @ m) leaf), x])" using storable_parts [OF assms(7)] by (simp add: i(3))
    show "graft (env H N) (Lst [Str (hp l False), nodeRef H u]) d = Inr (encode H (p_graft l u), d1)"
      using read rlpList_enc [OF f] h i by (simp add: graft_def nodeKey_pair [OF assms(2)] nodeKey_pair [OF i(2)] encode_def del: enc.simps split del: if_split cong: if_cong)
    show "stored (env H N) d1 (p_graft l u)" using st assms(4) by (cases u) simp_all
  qed
  show ?thesis
  proof (cases u)
    case (PLeaf m v)
    then show ?thesis using main [of m True "Str v"] u(1) by simp
  next
    case (PExt m t)
    then show ?thesis using main [of m False "nodeRef H t"] u(1) by (simp add: nodeItem_ref)
  qed (use assms(4) in simp_all)
qed

text \<open>A node of two items that leads to what is left.\<close>

lemma shorten_writes:
  assumes "ready d" "nibbled l" "l \<noteq> []" "length l < 2 ^ 32" "storable H U u" "u \<noteq> PEmpty"
    and "present (env H N) d u" "stored (env H N) d u" "storable H U (p_graft l u)"
  shows "written H U d (p_graft l u)
    (andThen (isTwoItemNode (env H N) d (nodeRef H u)) (\<lambda>two.
       if two then graft (env H N) (Lst [Str (hp l False), nodeRef H u]) d
       else Inr (enc (Lst [Str (hp l False), nodeRef H u]), d)))"
proof -
  have two: "isTwoItemNode (env H N) d (nodeRef H u) = Inr (isPair u)"
    using isTwoItemNode_ref [of u "env H N" d] assms(6,7) storable_parts [OF assms(5)] by simp
  show ?thesis
  proof (cases "isPair u")
    case True
    then show ?thesis using graft_writes [OF assms(1,2,5) True assms(7-9)] by (simp add: two del: enc.simps)
  next
    case False
    then obtain ts v where u: "u = PBranch ts v" using assms(6) by (cases u) auto
    then have "written H U d (PExt l u) (Inr (enc (Lst [Str (hp l False), nodeRef H u]), d))"
      using assms(1,7,8) by (simp add: written_def encode_ref del: enc.simps)
    then show ?thesis using two by (simp add: u del: enc.simps)
  qed
qed

lemma mergeUsed_writes:
  assumes "ready d" "length ts = 16" "\<forall>u\<in>set ts. storable H U u \<and> present (env H N) d u \<and> stored (env H N) d u"
    and "usedChildren ts = [i]" "storable H U (p_shrink ts)"
  shows "written H U d (p_shrink ts) (mergeUsed (env H N) (Lst (map (nodeRef H) ts @ [Str []])) i d)"
proof -
  let ?o = "Lst (map (nodeRef H) ts @ [Str []])" and ?l = "[word_of_nat i :: byte]" and ?u = "ts ! i"
  have i: "i < 16" "?u \<noteq> PEmpty" "?u \<in> set ts" using used_mem [of i ts] assms(2,4) by auto
  have u: "storable H U ?u" "present (env H N) d ?u" "stored (env H N) d ?u" using assms(3) i(3) by simp_all
  have l: "nibbled ?l" using nibble_nat(1) [OF i(1)] by simp
  have s: "p_shrink ts = p_graft ?l ?u" by (simp add: p_shrink_def assms(4))
  have at: "it_at ?o i = nodeRef H ?u" using i(1) assms(2) by (simp add: nth_append)
  have f: "fits (Lst [Str (hp ?l False), nodeRef H ?u])"
    using fits_node [of "PExt ?l ?u" H] storable_parts [OF u(1)] l by (simp add: nodeItem_ref)
  have m: "merge ?o i = Inr (enc (Lst [Str (hp ?l False), nodeRef H ?u]))"
    using i(1,2) assms(2) rlpList_enc [OF f] by (simp add: merge_def at it_isEmpty_ref hp_nibble [OF i(1), unfolded One_nat_def] del: enc.simps it_at.simps)
  have "mergeUsed (env H N) ?o i d = andThen (isTwoItemNode (env H N) d (nodeRef H ?u)) (\<lambda>two.
      if two then graft (env H N) (Lst [Str (hp ?l False), nodeRef H ?u]) d
      else Inr (enc (Lst [Str (hp ?l False), nodeRef H ?u]), d))"
    using rereadNode_enc [OF f] by (simp add: mergeUsed_def at m del: enc.simps it_at.simps cong: if_cong)
  then show ?thesis unfolding s
    using shorten_writes [OF assms(1) l _ _ u(1) i(2) u(2,3)] assms(5) by (simp add: s del: enc.simps)
qed

definition removes :: "(bytes \<Rightarrow> h256) \<Rightarrow> bytes set \<Rightarrow> ptrie \<Rightarrow> NibbleSlice \<Rightarrow> nat \<Rightarrow> bool" where
  "removes H U t k n \<longleftrightarrow>
     (\<forall>d. ready d \<longrightarrow> stored (env H N) d t \<longrightarrow>
        (case p_delete t (nibs k) of
           None \<Rightarrow> deleteAt n (env H N) (Some (nodeItem H t)) k d = Inr ([], d)
         | Some t' \<Rightarrow> written H U d t' (deleteAt n (env H N) (Some (nodeItem H t)) k d)))"

lemma removes_below:
  assumes "removes H U t k n" "inj_on H U" "storable H U t" "ready d" "present (env H N) d t" "stored (env H N) d t"
  shows "p_delete t (nibs k) = None \<Longrightarrow> deleteAtAux (Suc n) (env H N) (nodeRef H t) k d = Inr (None, d)"
    "p_delete t (nibs k) = Some t' \<Longrightarrow> storable H U t' \<Longrightarrow>
       \<exists>d'. deleteAtAux (Suc n) (env H N) (nodeRef H t) k d = Inr (Some (nodeRef H t'), d') \<and> ready d' \<and> keeps (env H N) U d d' \<and>
         stored (env H N) d' t' \<and> present (env H N) d' t'"
proof -
  have c: "childNode (env H N) d (nodeRef H t) = Inr (Some (nodeItem H t))" if "t \<noteq> PEmpty"
    using childNode_ref [of t "env H N" d] that assms(5) storable_parts [OF assms(3)] by simp
  show "deleteAtAux (Suc n) (env H N) (nodeRef H t) k d = Inr (None, d)" if "p_delete t (nibs k) = None"
    using assms(1,4,6) that c by (cases "t = PEmpty") (simp_all add: removes_def it_isEmpty_def it_isEmpty_ref)
  show "\<exists>d'. deleteAtAux (Suc n) (env H N) (nodeRef H t) k d = Inr (Some (nodeRef H t'), d') \<and> ready d' \<and> keeps (env H N) U d d' \<and>
      stored (env H N) d' t' \<and> present (env H N) d' t'" if del: "p_delete t (nibs k) = Some t'" and t': "storable H U t'"
  proof -
    have ne: "t \<noteq> PEmpty" using del by auto
    have "written H U d t' (deleteAt n (env H N) (Some (nodeItem H t)) k d)" using assms(1,4,6) del by (simp add: removes_def)
    then obtain d1 where d1: "deleteAt n (env H N) (Some (nodeItem H t)) k d = Inr (encode H t', d1)"
        "ready d1" "keeps (env H N) U d d1" "stored (env H N) d1 t'"
      by (rule writtenE)
    obtain d2 where d2: "streamNode (env H N) (encode H t') d1 = Inr (nodeRef H t', d2)" "ready d2" "keeps (env H N) U d1 d2"
        "stored (env H N) d2 t'" "present (env H N) d2 t'"
      by (rule linkedE [OF streamNode_links [OF d1(2) assms(2) t' d1(4)]])
    have "encode H t' \<noteq> []" by (simp add: encode_def)
    with d1(1) d2(1) have "deleteAtAux (Suc n) (env H N) (nodeRef H t) k d = Inr (Some (nodeRef H t'), d2)"
      by (simp add: it_isEmpty_ref ne c [OF ne])
    then show ?thesis using d2 keeps_trans [OF d1(3) d2(3)] by blast
  qed
qed

lemma removes_ext:
  assumes "inj_on H U" "storable H U (PExt l t)" "normal (PExt l t)" "uniform (ns_size k) (PExt l t)" "prefix l (nibs k)"
    and child: "removes H U t (ns_mid k (length l)) n"
    and steps: "\<And>u. p_delete t (nibs (ns_mid k (length l))) = Some u \<Longrightarrow> storable H U u \<and> storable H U (p_graft l u) \<and> u \<noteq> PEmpty"
  shows "removes H U (PExt l t) k (Suc (Suc n))"
  unfolding removes_def
proof (intro allI impI)
  fix d assume d: "ready d" "stored (env H N) d (PExt l t)"
  let ?k = "ns_mid k (length l)" and ?o = "Lst [Str (hp l False), nodeRef H t]"
  have l: "nibbled l" "l \<noteq> []" "length l < 2 ^ 32" and c: "storable H U t" using assms(2) by (simp_all add: storable_simps)
  have st: "present (env H N) d t" "stored (env H N) d t" using d(2) by simp_all
  note below = removes_below [OF child assms(1) c d(1) st]
  have i: "nodeItem H (PExt l t) = ?o" by (rule nodeItem_ref)
  have start: "deleteAt (Suc (Suc n)) (env H N) (Some ?o) k d =
      andThen (deleteAtAux (Suc n) (env H N) (nodeRef H t) ?k d) (\<lambda>(r, d).
        case r of
          None \<Rightarrow> Inr ([], d)
        | Some r \<Rightarrow>
            (let d = killItem (env H N) ?o d in
             andThen (rlpList [Str (hp l False), r]) (\<lambda>b.
             andThen (isTwoItemNode (env H N) d r) (\<lambda>two.
             if two then graft (env H N) (Lst [Str (hp l False), r]) d else Inr (b, d)))))"
    by (simp add: it_isEmpty_def nodeKey_pair [OF l(1)] prefix_nibs [OF l(1)] size_keyOf [OF l(1)] assms(5) del: deleteAtAux.simps enc.simps cong: option.case_cong if_cong)
  show "case p_delete (PExt l t) (nibs k) of
      None \<Rightarrow> deleteAt (Suc (Suc n)) (env H N) (Some (nodeItem H (PExt l t))) k d = Inr ([], d)
    | Some t' \<Rightarrow> written H U d t' (deleteAt (Suc (Suc n)) (env H N) (Some (nodeItem H (PExt l t))) k d)"
  proof (cases "p_delete t (nibs ?k)")
    case None
    then show ?thesis unfolding i start using below(1) assms(5) by (simp del: deleteAtAux.simps)
  next
    case (Some u)
    have u: "storable H U u" "storable H U (p_graft l u)" "u \<noteq> PEmpty" using steps [OF Some] by simp_all
    from below(2) [OF Some u(1)] obtain d1 where d1: "deleteAtAux (Suc n) (env H N) (nodeRef H t) ?k d = Inr (Some (nodeRef H u), d1)"
        "ready d1" "keeps (env H N) U d d1" "stored (env H N) d1 u" "present (env H N) d1 u" by blast
    define d2 where "d2 = killItem (env H N) ?o d1"
    have k: "ready d2" "keeps (env H N) U d1 d2" using killItem_keeps [OF d1(2)] by (auto simp: d2_def)
    have s2: "stored (env H N) d2 u" "present (env H N) d2 u"
      using keeps_stored [OF k(2), of u] keeps_present [OF k(2), of u] storable_parts [OF u(1)] d1(4,5) by simp_all
    have f: "fits (Lst [Str (hp l False), nodeRef H u])"
      using fits_node [of "PExt l u" H] storable_parts [OF u(1)] l by (simp add: nodeItem_ref)
    have "deleteAt (Suc (Suc n)) (env H N) (Some ?o) k d = andThen (isTwoItemNode (env H N) d2 (nodeRef H u)) (\<lambda>two.
        if two then graft (env H N) (Lst [Str (hp l False), nodeRef H u]) d2
        else Inr (enc (Lst [Str (hp l False), nodeRef H u]), d2))"
      unfolding start d1(1) using rlpList_enc [OF f] by (simp add: d2_def [symmetric] del: enc.simps)
    moreover have "p_delete (PExt l t) (nibs k) = Some (p_graft l u)" using Some assms(5) by simp
    ultimately show ?thesis unfolding i
      using written_after [OF keeps_trans [OF d1(3) k(2)] shorten_writes [OF k(1) l u(1,3) s2(2,1) u(2)]] by (simp del: deleteAt.simps p_delete.simps)
  qed
qed

lemma removes_branch:
  assumes "inj_on H U" "storable H U (PBranch ts [])" "ns_size k \<noteq> 0"
    and child: "removes H U (ts ! unat (ns_at k 0)) (ns_mid k 1) n"
    and steps: "\<And>u. p_delete (ts ! unat (ns_at k 0)) (nibs (ns_mid k 1)) = Some u \<Longrightarrow>
      storable H U u \<and> storable H U (p_shrink (ts[unat (ns_at k 0) := u]))"
  shows "removes H U (PBranch ts []) k (Suc (Suc n))"
  unfolding removes_def
proof (intro allI impI)
  fix d assume d: "ready d" "stored (env H N) d (PBranch ts [])"
  let ?k = "ns_mid k 1" and ?o = "nodeItem H (PBranch ts [])" and ?i = "unat (ns_at k 0)"
  have i: "?i < 16" using nibs_first(2) [OF assms(3)] by simp
  have len: "length ts = 16" and ch: "\<forall>t\<in>set ts. storable H U t" using assms(2) by (simp_all add: storable_simps)
  then have mem: "ts ! ?i \<in> set ts" using i by simp
  have st: "present (env H N) d (ts ! ?i)" "stored (env H N) d (ts ! ?i)" using d(2) mem by simp_all
  note below = removes_below [OF child assms(1) bspec [OF ch mem] d(1) st]
  note node = it_isEmpty_node isNode_branch [OF len] it_at_branch(3) [OF len]
  have start: "deleteAt (Suc (Suc n)) (env H N) (Some ?o) k d =
      andThen (deleteAtAux (Suc n) (env H N) (nodeRef H (ts ! ?i)) ?k d) (\<lambda>(r, d).
        case r of
          None \<Rightarrow> Inr ([], d)
        | Some r \<Rightarrow>
            (let d = killItem (env H N) ?o d; items = (map (it_at ?o) [0..<17])[?i := r] in
             andThen (rlpList items) (\<lambda>b.
             let used = uniqueInUse (Lst items) 255 in
             if used = 255 then Inr (b, d) else mergeUsed (env H N) (Lst items) used d)))"
    using assms(3) by (simp add: node it_at_branch(1) [OF len i] Let_def del: deleteAtAux.simps enc.simps)
  have pd: "p_delete (PBranch ts []) (nibs k) = map_option (\<lambda>u. p_shrink (ts[?i := u])) (p_delete (ts ! ?i) (nibs ?k))"
    using i len by (simp add: nibs_first(1) [OF assms(3)] del: nibs_facts(2))
  show "case p_delete (PBranch ts []) (nibs k) of
      None \<Rightarrow> deleteAt (Suc (Suc n)) (env H N) (Some ?o) k d = Inr ([], d)
    | Some t' \<Rightarrow> written H U d t' (deleteAt (Suc (Suc n)) (env H N) (Some ?o) k d)"
  proof (cases "p_delete (ts ! ?i) (nibs ?k)")
    case None
    then show ?thesis unfolding pd start using below(1) [OF None] by (simp del: deleteAtAux.simps)
  next
    case (Some u)
    let ?ts = "ts[?i := u]"
    let ?items = "Lst (map (nodeRef H) ?ts @ [Str []])"
    have u: "storable H U u" "storable H U (p_shrink ?ts)" using steps [OF Some] by simp_all
    from below(2) [OF Some u(1)] obtain d1 where d1: "deleteAtAux (Suc n) (env H N) (nodeRef H (ts ! ?i)) ?k d = Inr (Some (nodeRef H u), d1)"
        "ready d1" "keeps (env H N) U d d1" "stored (env H N) d1 u" "present (env H N) d1 u" by blast
    define d2 where "d2 = killItem (env H N) ?o d1"
    have k: "ready d2" "keeps (env H N) U d1 d2" using killItem_keeps [OF d1(2)] by (auto simp: d2_def)
    have sib: "\<forall>t\<in>set ts. storable H U t \<and> present (env H N) d2 t \<and> stored (env H N) d2 t"
    proof
      fix t assume t: "t \<in> set ts"
      note p = storable_parts [OF bspec [OF ch t]] and kk = keeps_trans [OF d1(3) k(2)]
      show "storable H U t \<and> present (env H N) d2 t \<and> stored (env H N) d2 t"
        using keeps_stored [OF kk, of t] keeps_present [OF kk, of t] p d(2) t ch by simp
    qed
    have "storable H U u \<and> present (env H N) d2 u \<and> stored (env H N) d2 u"
      using keeps_stored [OF k(2), of u] keeps_present [OF k(2), of u] storable_parts [OF u(1)] u(1) d1(4,5) by simp
    note all = all_update [OF sib this, of ?i]
    have len': "length ?ts = 16" using len by simp
    have f: "fits ?items"
    proof -
      have "\<forall>t\<in>set ?ts. shaped t \<and> bounded t" using all storable_parts by blast
      then show ?thesis using fits_node [of "PBranch ?ts []" H] len' by (simp add: nodeItem_ref)
    qed
    have "deleteAt (Suc (Suc n)) (env H N) (Some ?o) k d =
        (if uniqueInUse ?items 255 = 255 then Inr (enc ?items, d2) else mergeUsed (env H N) ?items (uniqueInUse ?items 255) d2)"
      unfolding start d1(1) items_update [OF len i] using rlpList_enc [OF f]
      by (simp add: d2_def [symmetric] items_update [OF len i] Let_def del: enc.simps)
    moreover have "written H U d2 (p_shrink ?ts)
        (if uniqueInUse ?items 255 = 255 then Inr (enc ?items, d2) else mergeUsed (env H N) ?items (uniqueInUse ?items 255) d2)"
    proof (cases ?ts rule: p_shrink_cases)
      case (1 j)
      have "uniqueInUse ?items 255 = j" "j \<noteq> 255" using uniqueInUse_children [OF len', of H] 1(1,3) len' by simp_all
      then show ?thesis using mergeUsed_writes [OF k(1) len' all 1(1) u(2)] by (simp del: enc.simps)
    next
      case 2
      have "uniqueInUse ?items 255 = 255" using uniqueInUse_children [OF len', of H] 2(1) by (auto split: list.splits)
      moreover have "written H U d2 (PBranch ?ts []) (Inr (enc ?items, d2))" using k(1) all by (simp add: written_def encode_ref del: enc.simps)
      ultimately show ?thesis using 2(2) by (simp del: enc.simps)
    qed
    ultimately show ?thesis unfolding pd Some
      using written_after [OF keeps_trans [OF d1(3) k(2)]] by (simp del: deleteAt.simps)
  qed
qed

lemma removes_delete:
  "inj_on H U \<Longrightarrow> sound k \<Longrightarrow> storable H U t \<Longrightarrow> normal t \<Longrightarrow> uniform (ns_size k) t \<Longrightarrow>
     (\<And>t'. p_delete t (nibs k) = Some t' \<Longrightarrow> storable H U t') \<Longrightarrow>
     \<forall>u\<in>set (deleteSteps t (nibs k)). storable H U u \<Longrightarrow> 2 * ns_size k + 2 \<le> n \<Longrightarrow> removes H U t k n"
proof (induction t arbitrary: k n)
  case PEmpty
  then obtain m where "n = Suc m" by (cases n) auto
  then show ?case by (simp add: removes_def it_isEmpty_def)
next
  case (PLeaf l w)
  then obtain m where n: "n = Suc m" by (cases n) auto
  have l: "nibbled l" "length l = ns_size k" using PLeaf.prems(3,5) by (simp_all add: storable_simps)
  have "\<not> prefix l (nibs k)" if "nibs k \<noteq> l" using that l(2) nibs_facts(1) [of k] by (auto simp: prefix_def simp del: nibs_facts(1))
  then have e: "deleteAt n (env H N) (Some (nodeItem H (PLeaf l w))) k d =
      (if nibs k = l then Inr (RLPNull, killItem (env H N) (nodeItem H (PLeaf l w)) d) else Inr ([], d))" for d
    by (simp add: n it_isEmpty_def nodeKey_pair [OF l(1)] prefix_nibs [OF l(1)] equal_nibs [OF l(1)])
  show ?case unfolding removes_def e
    using killItem_keeps [where r = "nodeItem H (PLeaf l w)"] by (auto simp: written_def RLPNull_def)
next
  case (PExt l t)
  have Sn: "Suc (Suc (n - 2)) = n" using PExt.prems(8) by simp
  show ?case
  proof (cases "prefix l (nibs k)")
    case True
    let ?k = "ns_mid k (length l)"
    have len: "length l \<le> ns_size k" using prefix_length_le [OF True] by simp
    have l: "l \<noteq> []" "nibbled l" "storable H U t" using PExt.prems(3) by (simp_all add: storable_simps)
    have t: "isBranch t" "normal t" "uniform (ns_size ?k) t" using PExt.prems(4,5) by simp_all
    have steps: "storable H U u \<and> storable H U (p_graft l u) \<and> u \<noteq> PEmpty \<and> (\<forall>u\<in>set (deleteSteps t (nibs ?k)). storable H U u)"
      if u: "p_delete t (nibs ?k) = Some u" for u
    proof -
      have "u \<noteq> PEmpty" using delete_facts [OF u _ t(2,3)] storable_parts [OF l(3)] t(1) by simp
      moreover have "storable H U u" "\<forall>u\<in>set (deleteSteps t (nibs ?k)). storable H U u" using PExt.prems(7) True u by simp_all
      moreover have "p_delete (PExt l t) (nibs k) = Some (p_graft l u)" using True u by simp
      ultimately show ?thesis using PExt.prems(6) by blast
    qed
    have "removes H U t ?k (n - 2)"
    proof (cases "p_delete t (nibs ?k)")
      case None
      show ?thesis
        by (rule PExt.IH [OF PExt.prems(1) sound_mid [OF PExt.prems(2) len] l(3) t(2,3)])
          (use None deleteSteps_None [OF None] PExt.prems(8) len l(1) in \<open>cases l; simp\<close>)+
    next
      case (Some u)
      show ?thesis
        by (rule PExt.IH [OF PExt.prems(1) sound_mid [OF PExt.prems(2) len] l(3) t(2,3)])
          (use steps [OF Some] Some PExt.prems(8) len l(1) in \<open>cases l; simp\<close>)+
    qed
    then have "removes H U (PExt l t) k (Suc (Suc (n - 2)))"
      using removes_ext [OF PExt.prems(1,3,4,5) True] steps by blast
    then show ?thesis unfolding Sn .
  next
    case False
    then have l: "nibbled l" "nibs k \<noteq> l" using PExt.prems(3) by (auto simp: storable_simps)
    have "removes H U (PExt l t) k (Suc (n - 1))"
      using False l by (simp add: removes_def nodeItem_ref it_isEmpty_def nodeKey_pair prefix_nibs equal_nibs)
    then show ?thesis using PExt.prems(8) by simp
  qed
next
  case (PBranch ts w)
  have Sn: "Suc (Suc (n - 2)) = n" using PBranch.prems(8) by simp
  have w: "w = []" and k: "ns_size k \<noteq> 0" using PBranch.prems(5) by simp_all
  let ?i = "unat (ns_at k 0)" and ?k = "ns_mid k 1"
  have len: "length ts = 16" using PBranch.prems(3) by (simp add: storable_simps)
  have i: "?i < 16" using nibs_first(2) [OF k] by simp
  have mem: "ts ! ?i \<in> set ts" using i len by simp
  have c: "storable H U (ts ! ?i)" "normal (ts ! ?i)" "uniform (ns_size ?k) (ts ! ?i)"
    using PBranch.prems(3-5) mem by (simp_all add: storable_simps)
  have nk: "nibs k = ns_at k 0 # nibs ?k" by (rule nibs_first(1) [OF k])
  have pd: "p_delete (PBranch ts w) (nibs k) = map_option (\<lambda>u. p_shrink (ts[?i := u])) (p_delete (ts ! ?i) (nibs ?k))"
    "deleteSteps (PBranch ts w) (nibs k) = (case p_delete (ts ! ?i) (nibs ?k) of None \<Rightarrow> [] | Some u \<Rightarrow> u # deleteSteps (ts ! ?i) (nibs ?k))"
    using i len by (simp_all add: nk del: nibs_facts(2) cong: option.case_cong)
  have steps: "storable H U u \<and> storable H U (p_shrink (ts[?i := u])) \<and> (\<forall>u\<in>set (deleteSteps (ts ! ?i) (nibs ?k)). storable H U u)"
    if u: "p_delete (ts ! ?i) (nibs ?k) = Some u" for u
    using PBranch.prems(6) PBranch.prems(7) unfolding pd u by simp
  have m: "removes H U (ts ! ?i) ?k (n - 2)"
  proof (rule PBranch.IH [OF mem PBranch.prems(1) _ c])
    show "sound ?k" using sound_mid [OF PBranch.prems(2), of 1] k by simp
    show "\<And>t'. p_delete (ts ! ?i) (nibs ?k) = Some t' \<Longrightarrow> storable H U t'" using steps by blast
    show "\<forall>u\<in>set (deleteSteps (ts ! ?i) (nibs ?k)). storable H U u"
      using steps deleteSteps_None by (cases "p_delete (ts ! ?i) (nibs ?k)") (simp, blast)
    show "2 * ns_size ?k + 2 \<le> n - 2" using PBranch.prems(8) k by simp
  qed
  have "removes H U (PBranch ts []) k (Suc (Suc (n - 2)))"
    by (rule removes_branch [OF PBranch.prems(1) _ k m]) (use PBranch.prems(3) w steps in blast)+
  then show ?case unfolding Sn w .
qed

end

end
