(* ===== verification/Trie_Refine.thy ===== *)
theory Trie_Refine
  imports Trie_Remove
begin

section \<open>The trie is a map\<close>

text \<open>
  The database represents a trie when the root is the hash of its encoding, the encoding is stored
  under the root, and every node below it of at least 32 bytes is stored under its hash. An insertion
  or a removal leads from a database that represents a trie to one that represents the trie with or
  without the entry, provided that the hash function does not collide on the encodings of the tries
  that are there, are built on the way or result. A sequence of operations on an initialised trie then
  does what it does to a map.
\<close>

definition represents :: "'d trie_env \<Rightarrow> 'd GenericTrieDB \<Rightarrow> ptrie \<Rightarrow> bool" where
  "represents E T t \<longleftrightarrow>
     m_root T = te_sha3 E (encode (te_sha3 E) t) \<and> holds E (td_db T) (encode (te_sha3 E) t) \<and>
     stored E (td_db T) t \<and> okay t \<and> normal t"

definition family :: "ptrie \<Rightarrow> ptrie list" where
  "family t = t # below t"

definition insertFamily :: "ptrie \<Rightarrow> bytes \<Rightarrow> bytes \<Rightarrow> ptrie list" where
  "insertFamily t k v = concat (map family (t # p_insert t k v # insertSteps t k))"

definition deleteFamily :: "ptrie \<Rightarrow> bytes \<Rightarrow> ptrie list" where
  "deleteFamily t k =
     concat (map family (t # (case p_delete t k of None \<Rightarrow> [] | Some t' \<Rightarrow> t' # deleteSteps t k)))"

definition collisionFree :: "(bytes \<Rightarrow> h256) \<Rightarrow> ptrie list \<Rightarrow> bool" where
  "collisionFree H ts \<longleftrightarrow> distinct (map H (remdups (map (encode H) ts)))"

lemma collisionFree_inj: "collisionFree H ts \<longleftrightarrow> inj_on H (encode H ` set ts)"
  by (simp add: collisionFree_def distinct_map)

lemma collisionFree_mono: "collisionFree H ts \<Longrightarrow> set us \<subseteq> set ts \<Longrightarrow> collisionFree H us"
  unfolding collisionFree_inj by (rule inj_on_subset) auto

lemma within_family: "set (family t) \<subseteq> set ts \<Longrightarrow> within H (encode H ` set ts) t"
  by (auto simp: within_def family_def list_all_iff)

subsection \<open>What a removal makes stays within the bounds\<close>

abbreviation shortValues :: "ptrie \<Rightarrow> bool" where
  "shortValues \<equiv> allValues (\<lambda>v. length v < 2 ^ 32)"

lemma bounded_uniform: "uniform m t \<Longrightarrow> m < 2 ^ 32 \<Longrightarrow> shortValues t \<Longrightarrow> bounded t"
  by (induction t arbitrary: m) fastforce+

lemma bounded_values: "bounded t \<Longrightarrow> shortValues t"
  by (induction t) auto

lemma okay_delete:
  assumes "p_delete t k = Some t'" "okay t" "normal t" "uniform m t" "length k = m" "nibbled k" "m < 2 ^ 32"
  shows "okay t' \<and> normal t' \<and> uniform m t'"
proof -
  have "shaped t' \<and> normal t' \<and> uniform m t' \<and> shortValues t'"
    using delete_facts [OF assms(1) _ assms(3-6), where P = "\<lambda>v. length v < 2 ^ 32"] assms(2) bounded_values [of t]
    by (simp add: okay_def)
  then show ?thesis using bounded_uniform [OF _ assms(7)] normal_solid by (auto simp: okay_def)
qed

lemma okay_deleteSteps:
  "okay t \<Longrightarrow> normal t \<Longrightarrow> uniform m t \<Longrightarrow> length k = m \<Longrightarrow> nibbled k \<Longrightarrow> m < 2 ^ 32 \<Longrightarrow> \<forall>u\<in>set (deleteSteps t k). okay u"
proof (induction t k arbitrary: m rule: deleteSteps.induct)
  case (3 l t k)
  show ?case
  proof (cases "prefix l k \<and> p_delete t (drop (length l) k) \<noteq> None")
    case True
    then obtain u where u: "p_delete t (drop (length l) k) = Some u" by auto
    have t: "okay t" "normal t" "uniform (m - length l) t" "length (drop (length l) k) = m - length l" "nibbled (drop (length l) k)"
      "m - length l < 2 ^ 32" using 3(2-7) by simp_all
    have "okay u" using okay_delete [OF u t] by blast
    moreover have "\<forall>u\<in>set (deleteSteps t (drop (length l) k)). okay u" using 3(1) [OF _ u t] True by blast
    ultimately show ?thesis using True u by simp
  next
    case False
    then have "deleteSteps (PExt l t) k = []" by auto
    then show ?thesis by simp
  qed
next
  case (5 ts w n k)
  show ?case
  proof (cases "unat n < length ts \<and> p_delete (ts ! unat n) k \<noteq> None")
    case True
    then obtain u where u: "p_delete (ts ! unat n) k = Some u" by auto
    have t: "okay (ts ! unat n)" "normal (ts ! unat n)" "uniform (m - 1) (ts ! unat n)" "length k = m - 1" "nibbled k" "m - 1 < 2 ^ 32"
      using 5(2-7) True by auto
    have "okay u" using okay_delete [OF u t] by blast
    moreover have "\<forall>u\<in>set (deleteSteps (ts ! unat n) k). okay u" using 5(1) [OF _ u t] True by blast
    ultimately show ?thesis using True u by simp
  next
    case False
    then have "deleteSteps (PBranch ts w) (n # k) = []" by auto
    then show ?thesis by simp
  qed
qed simp_all

subsection \<open>The operations\<close>

lemma slice_key: "nibs (slice key 0) = asNibbles key" "ns_size (slice key 0) = 2 * length key"
  by (simp, simp add: ns_size_def slice_def)

lemma nibbled_key [simp]: "nibbled (asNibbles key)"
  using nibs_facts(4) [of "slice key 0"] by (simp add: slice_key)

lemma represents_read:
  assumes "represents E T t"
  shows "node E (td_db T) (m_root T) = encode (te_sha3 E) t"
    "asRLP (node E (td_db T) (m_root T)) = Inr (Some (nodeItem (te_sha3 E) t))"
proof -
  show n: "node E (td_db T) (m_root T) = encode (te_sha3 E) t" using assms by (simp add: represents_def holds_def)
  have "shaped t" "bounded t" using assms by (simp_all add: represents_def okay_def)
  from asRLP_enc [OF fits_node [OF this]]
  show "asRLP (node E (td_db T) (m_root T)) = Inr (Some (nodeItem (te_sha3 E) t))" unfolding n by (simp add: encode_def)
qed

lemma trie_at_get:
  assumes "represents E T t" "2 * length key + 2 \<le> n"
  shows "trie_at n E T key = Inr (p_get t (asNibbles key))"
  using represents_read(2) [OF assms(1)] atAux_get [of t E "td_db T" "slice key 0" n] assms
  by (simp add: trie_at_def represents_def okay_def slice_key)

context node_store
begin

lemma root_written:
  assumes "written H U d t r" "r = Inr (b, d1)" "inj_on H U" "storable H U t" "normal t"
  shows "ready (td_db (setRootNode (env H N) T old b d1))" "represents (env H N) (setRootNode (env H N) T old b d1) t"
proof -
  from assms(1,2) have d1: "b = encode H t" "ready d1" "stored (env H N) d1 t" by (auto simp: written_def)
  define d2 where "d2 = (if length old < 32 then nd_kill N (m_root T) d1 else d1)"
  have d2: "ready d2" "keeps (env H N) U d1 d2" using kill_keeps [OF d1(2)] d1(2) by (auto simp: d2_def)
  have b: "b \<in> U" "b \<noteq> []" using storable_parts [OF assms(4)] by (simp_all add: d1(1), simp add: encode_def)
  note i = insert_keeps [OF d2(1) assms(3) b]
  have s: "setRootNode (env H N) T old b d1 = T\<lparr>m_root := H b, td_db := nd_insert N (H b) b d2\<rparr>"
    by (simp add: setRootNode_def forceInsertNode_def d2_def Let_def)
  show "ready (td_db (setRootNode (env H N) T old b d1))" by (simp add: s i(1))
  have "stored (env H N) (nd_insert N (H b) b d2) t"
    using keeps_stored [OF keeps_trans [OF d2(2) i(2)], of t] storable_parts [OF assms(4)] d1(3) by simp
  then show "represents (env H N) (setRootNode (env H N) T old b d1) t"
    using i(3) storable_parts [OF assms(4)] assms(5) by (simp add: s [unfolded d1(1)] represents_def d1(1) okay_def)
qed

lemma insert_represents:
  assumes "ready (td_db T)" "represents (env H N) T t" "collisionFree H (insertFamily t (asNibbles key) v)"
    and "length key < 2 ^ 31" "v \<noteq> []" "length v < 2 ^ 32" "4 * length key + 8 \<le> n"
  obtains T' where "trie_insert n (env H N) key v T = Inr T'" "ready (td_db T')"
    "represents (env H N) T' (p_insert t (asNibbles key) v)"
proof -
  let ?k = "asNibbles key" and ?s = "slice key 0"
  let ?F = "insertFamily t ?k v" and ?t' = "p_insert t ?k v"
  let ?U = "encode H ` set ?F"
  have t: "okay t" "normal t" "stored (env H N) (td_db T) t" using assms(2) by (simp_all add: represents_def)
  note o = okay_insert [OF t(1) nibbled_key, of key v]
  have len: "length ?k < 2 ^ 32" using assms(4) by simp
  have U: "storable H ?U u" if "u = t \<or> u = ?t' \<or> u \<in> set (insertSteps t ?k)" for u
  proof -
    have "okay u" using that o len assms(6) t(1) by auto
    moreover have "set (family u) \<subseteq> set ?F" using that by (auto simp: insertFamily_def)
    ultimately show ?thesis using within_family [of u ?F H] by (simp add: storable_def okay_def)
  qed
  have inj: "inj_on H ?U" using assms(3) by (simp add: collisionFree_inj)
  have "merges H ?U t (p_insert t (nibs ?s) v) ?s v n"
    by (rule merges_insert [OF inj]) (use U assms(7) in \<open>simp_all add: slice_key\<close>)
  then have w: "written H ?U (td_db T) ?t' (mergeAt n (env H N) (nodeItem H t) (m_root T) ?s v False (td_db T))"
    using mergesD assms(1) t(3) by (simp add: slice_key)
  from w obtain b d1 where r: "mergeAt n (env H N) (nodeItem H t) (m_root T) ?s v False (td_db T) = Inr (b, d1)"
    by (auto simp: written_def)
  have n': "normal ?t'" using normal_insert [OF t(2) _ nibbled_key assms(5)] t(1) by (simp add: okay_def)
  have "trie_insert n (env H N) key v T = Inr (setRootNode (env H N) T (node (env H N) (td_db T) (m_root T)) b d1)"
    using represents_read [OF assms(2)] r by (simp add: trie_insert_def Let_def)
  then show ?thesis using that root_written [OF w r inj U n'] by blast
qed

lemma remove_represents:
  assumes "ready (td_db T)" "represents (env H N) T t" "uniform (2 * length key) t" "collisionFree H (deleteFamily t (asNibbles key))"
    and "length key < 2 ^ 31" "4 * length key + 2 \<le> n"
  obtains T' where "trie_remove n (env H N) key T = Inr T'" "ready (td_db T')"
    "represents (env H N) T' (case p_delete t (asNibbles key) of None \<Rightarrow> t | Some t' \<Rightarrow> t')"
proof -
  let ?k = "asNibbles key" and ?s = "slice key 0"
  let ?F = "deleteFamily t ?k"
  let ?U = "encode H ` set ?F"
  have t: "okay t" "normal t" "stored (env H N) (td_db T) t" using assms(2) by (simp_all add: represents_def)
  have len: "length ?k = 2 * length key" "2 * length key < 2 ^ 32" using assms(5) by simp_all
  have o: "okay u" if "u = t \<or> p_delete t ?k = Some u \<or> u \<in> set (deleteSteps t ?k)" for u
    using that okay_delete [OF _ t(1,2) assms(3) len(1) nibbled_key len(2)] okay_deleteSteps [OF t(1,2) assms(3) len(1) nibbled_key len(2)] t(1)
    by blast
  have U: "storable H ?U u" if u: "u = t \<or> p_delete t ?k = Some u \<or> u \<in> set (deleteSteps t ?k)" for u
  proof -
    have "set (family u) \<subseteq> set ?F"
    proof (cases "p_delete t ?k")
      case None
      then show ?thesis using u deleteSteps_None [OF None] by (auto simp: deleteFamily_def)
    next
      case (Some t')
      then show ?thesis using u by (auto simp: deleteFamily_def)
    qed
    then show ?thesis using within_family [of u ?F H] o [OF u] by (simp add: storable_def okay_def)
  qed
  have inj: "inj_on H ?U" using assms(4) by (simp add: collisionFree_inj)
  have "removes H ?U t ?s n"
    by (rule removes_delete [OF inj]) (use U t(2) assms(3,6) in \<open>simp_all add: slice_key\<close>)
  then have w: "case p_delete t ?k of None \<Rightarrow> deleteAt n (env H N) (Some (nodeItem H t)) ?s (td_db T) = Inr ([], td_db T)
      | Some t' \<Rightarrow> written H ?U (td_db T) t' (deleteAt n (env H N) (Some (nodeItem H t)) ?s (td_db T))"
    using assms(1) t(3) by (simp add: removes_def slice_key)
  show ?thesis
  proof (cases "p_delete t ?k")
    case None
    then have "trie_remove n (env H N) key T = Inr (T\<lparr>td_db := td_db T\<rparr>)"
      using represents_read [OF assms(2)] w by (simp add: trie_remove_def Let_def)
    then show ?thesis using that [of T] assms(1,2) None by simp
  next
    case (Some t')
    then have w': "written H ?U (td_db T) t' (deleteAt n (env H N) (Some (nodeItem H t)) ?s (td_db T))" using w by simp
    then obtain d1 where r: "deleteAt n (env H N) (Some (nodeItem H t)) ?s (td_db T) = Inr (encode H t', d1)"
      by (auto simp: written_def)
    have n': "normal t'" using okay_delete [OF Some t(1,2) assms(3) len(1) nibbled_key len(2)] by simp
    have "encode H t' \<noteq> []" by (simp add: encode_def)
    then have "trie_remove n (env H N) key T = Inr (setRootNode (env H N) T (node (env H N) (td_db T) (m_root T)) (encode H t') d1)"
      using represents_read [OF assms(2)] r by (simp add: trie_remove_def Let_def)
    then show ?thesis using that root_written [OF w' r inj U n'] Some by auto
  qed
qed

lemma init_represents:
  assumes "ready d"
  obtains T where "trie_init (env H N) d = Inr T" "ready (td_db T)" "represents (env H N) T PEmpty"
proof -
  let ?T = "\<lparr>m_root = H [128], td_db = nd_insert N (H [128]) [128] d\<rparr>"
  have l: "nd_lookup N (nd_insert N (H [128]) [128] d) (H [128]) = [128]" by (simp add: lookup_insert [OF assms])
  then have "trie_init (env H N) d = Inr ?T" by (simp add: trie_init_def forceInsertNode_def RLPNull_def node_def Let_def)
  moreover have "represents (env H N) ?T PEmpty" using l by (simp add: represents_def holds_def node_def)
  ultimately show ?thesis using that [of ?T] ready_insert [OF assms] by simp
qed

end

end
