(* ===== verification/Trie_Hash.thy ===== *)
theory Trie_Hash
  imports Trie_DB "HOL-Library.List_Lexorder"
begin

section \<open>The root of a map (libdevcore/TrieHash.cpp)\<close>

text \<open>
  The root a trie with given entries has, computed without a trie: from the entries in the order of
  their keys, as \<open>std::map\<close> iterates over them. A map is the sorted list of its entries, a range
  of it a list. The recursion is cut at a number of levels; every second of them reads at least one
  nibble more of the keys.
\<close>

subsection \<open>Maps\<close>

text \<open>\<open>operator[]\<close> with an assignment, and \<open>erase\<close>.\<close>

fun map_put :: "bytes \<Rightarrow> 'v \<Rightarrow> (bytes \<times> 'v) list \<Rightarrow> (bytes \<times> 'v) list" where
  "map_put k v [] = [(k, v)]"
| "map_put k v ((k', w) # m) =
     (if k < k' then (k, v) # (k', w) # m else if k = k' then (k, v) # m else (k', w) # map_put k v m)"

definition map_erase :: "bytes \<Rightarrow> (bytes \<times> 'v) list \<Rightarrow> (bytes \<times> 'v) list" where
  "map_erase k m = filter (\<lambda>(k', v). k' \<noteq> k) m"

subsection \<open>The encoding of a range\<close>

text \<open>The two loops that find how many nibbles the keys of a range share.\<close>

function sharedFrom :: "bytes \<Rightarrow> bytes \<Rightarrow> nat \<Rightarrow> nat \<Rightarrow> nat" where
  "sharedFrom b i x shared = (if shared < x \<and> b ! shared = i ! shared then sharedFrom b i x (shared + 1) else shared)"
  by auto
termination by (relation "measure (\<lambda>(b, i, x, shared). x - shared)") auto

declare sharedFrom.simps [simp del]

fun sharedPreLoop :: "bytes \<Rightarrow> nat \<Rightarrow> bytes list \<Rightarrow> nat \<Rightarrow> nat" where
  "sharedPreLoop b preLen [] sharedPre = sharedPre"
| "sharedPreLoop b preLen (i # is') sharedPre =
     (if sharedPre = 0 then sharedPre
      else (let x = min sharedPre (min (length b) (length i)) in
            sharedPreLoop b preLen is' (min (sharedFrom b i x preLen) sharedPre)))"

definition sharedPreOf :: "bytes \<Rightarrow> nat \<Rightarrow> bytes list \<Rightarrow> nat" where
  "sharedPreOf b preLen is' = sharedPreLoop b preLen is' (2 ^ 32 - 1)"

text \<open>
  A branch takes the entries nibble by nibble off the front of the range. In a map only the first
  key of the range can end at \<open>preLen\<close>, so that the others have a nibble there.
\<close>

function hash256rlp :: "nat \<Rightarrow> (bytes \<Rightarrow> h256) \<Rightarrow> (bytes \<times> bytes) list \<Rightarrow> nat \<Rightarrow> rlp_stream \<Rightarrow> trie_error + rlp_stream"
  and hash256aux :: "nat \<Rightarrow> (bytes \<Rightarrow> h256) \<Rightarrow> (bytes \<times> bytes) list \<Rightarrow> nat \<Rightarrow> rlp_stream \<Rightarrow> trie_error + rlp_stream"
  and hash256children :: "nat \<Rightarrow> (bytes \<Rightarrow> h256) \<Rightarrow> byte list \<Rightarrow> (bytes \<times> bytes) list \<Rightarrow> nat \<Rightarrow> rlp_stream \<Rightarrow> trie_error + rlp_stream" where
  "hash256rlp 0 H es preLen s = Inl TooDeep"
| "hash256rlp (Suc n) H [] preLen s = liftNode (append_bytes s [] False)"
| "hash256rlp (Suc n) H [(k, v)] preLen s =
     liftNode (andThen (appendList s 2) (\<lambda>s.
       andThen (append_bytes s (hexPrefixEncode k True preLen (-1)) False) (\<lambda>s. append_bytes s v False)))"
| "hash256rlp (Suc n) H ((k, v) # e # es) preLen s =
     (let sharedPre = sharedPreOf k preLen (map fst (e # es)) in
      if sharedPre > preLen
      then andThen (liftNode (andThen (appendList s 2) (\<lambda>s.
             append_bytes s (hexPrefixEncode k False preLen (int sharedPre)) False))) (\<lambda>s.
           hash256aux n H ((k, v) # e # es) sharedPre s)
      else andThen (liftNode (appendList s 17)) (\<lambda>s.
           andThen (hash256children n H (map word_of_nat [0..<16])
                      (if preLen = length k then e # es else (k, v) # e # es) preLen s) (\<lambda>s.
           liftNode (append_bytes s (if preLen = length k then v else []) False))))"
| "hash256aux 0 H es preLen s = Inl TooDeep"
| "hash256aux (Suc n) H es preLen s =
     andThen (hash256rlp n H es preLen emptyStream) (\<lambda>r.
     andThen (liftNode (stream_out r)) (\<lambda>out.
     if length out < 32 then liftNode (appendRaw s out 1) else liftNode (append_h256 (H out) s)))"
| "hash256children n H [] es preLen s = Inr s"
| "hash256children n H (i # is') es preLen s =
     (let b = takeWhile (\<lambda>e. fst e ! preLen = i) es in
      andThen (if b = [] then liftNode (append_bytes s [] False) else hash256aux n H b (preLen + 1) s) (\<lambda>s.
      hash256children n H is' (dropWhile (\<lambda>e. fst e ! preLen = i) es) preLen s))"

  by pat_completeness auto
termination
  by (relation "measures
      [case_sum (\<lambda>(n, _). n) (case_sum (\<lambda>(n, _). n) (\<lambda>(n, _). n)),
       case_sum (\<lambda>_. 0) (case_sum (\<lambda>_. 0) (\<lambda>(_, _, is', _). Suc (length is')))]") simp_all

definition hexMapOf :: "(bytes \<times> bytes) list \<Rightarrow> (bytes \<times> bytes) list" where
  "hexMapOf m = fold (\<lambda>(k, v). map_put (asNibbles k) v) (rev m) []"

definition rlp256 :: "nat \<Rightarrow> (bytes \<Rightarrow> h256) \<Rightarrow> (bytes \<times> bytes) list \<Rightarrow> trie_error + bytes" where
  "rlp256 n H m =
     (if m = [] then liftNode (rlp_of (Str []))
      else andThen (hash256rlp n H (hexMapOf m) 0 emptyStream) (\<lambda>s. liftNode (stream_out s)))"

definition hash256 :: "nat \<Rightarrow> (bytes \<Rightarrow> h256) \<Rightarrow> (bytes \<times> bytes) list \<Rightarrow> trie_error + h256" where
  "hash256 n H m = andThen (rlp256 n H m) (\<lambda>b. Inr (H b))"

text \<open>The root of a list: its elements under the encodings of their numbers.\<close>

fun orderedLoop :: "bytes list \<Rightarrow> nat \<Rightarrow> (bytes \<times> bytes) list \<Rightarrow> rlp_error + (bytes \<times> bytes) list" where
  "orderedLoop [] j m = Inr m"
| "orderedLoop (i # is') j m = andThen (rlp_of_int j) (\<lambda>k. orderedLoop is' (j + 1) (map_put k i m))"

definition orderedTrieRoot :: "nat \<Rightarrow> (bytes \<Rightarrow> h256) \<Rightarrow> bytes list \<Rightarrow> trie_error + h256" where
  "orderedTrieRoot n H data = andThen (liftNode (orderedLoop data 0 [])) (hash256 n H)"

end
