(* ===== verification/Trie_Hash_Nodes.thy ===== *)
theory Trie_Hash_Nodes
  imports Trie_Hash Trie_Nodes Patricia_Delete
begin

section \<open>The encoding computed from the entries\<close>

text \<open>
  The entries of a trie in the order of their keys, and the lemma that \<open>hash256rlp\<close> on them writes
  the encoding of its node.
\<close>

function entriesOf :: "ptrie \<Rightarrow> bytes \<Rightarrow> (bytes \<times> bytes) list" where
  "entriesOf PEmpty p = []"
| "entriesOf (PLeaf l v) p = [(p @ l, v)]"
| "entriesOf (PExt l t) p = entriesOf t (p @ l)"
| "entriesOf (PBranch ts v) p =
     (if v = [] then [] else [(p, v)]) @ concat (map (\<lambda>i. if i < length ts then entriesOf (ts ! i) (p @ [word_of_nat i]) else []) [0..<16])"
  by pat_completeness auto
termination by (relation "measure (\<lambda>(t, p). size t)") (auto simp: size_child)

lemma entries_branch:
  "length ts = 16 \<Longrightarrow> entriesOf (PBranch ts v) p =
     (if v = [] then [] else [(p, v)]) @ concat (map (\<lambda>i. entriesOf (ts ! i) (p @ [word_of_nat i])) [0..<16])"
  by (auto intro!: arg_cong [where f = concat])

declare entriesOf.simps(4) [simp del]

lemma entries_keys: "shaped t \<Longrightarrow> e \<in> set (entriesOf t p) \<Longrightarrow> \<exists>k. fst e = p @ k \<and> nibbled k"
proof (induction t arbitrary: p)
  case (PExt l t)
  then obtain k where "fst e = (p @ l) @ k" "nibbled k" by fastforce
  then show ?case using PExt.prems(1) by (intro exI [of _ "l @ k"]) simp
next
  case (PBranch ts v)
  then have len: "length ts = 16" by simp
  from PBranch.prems consider "e = (p, v)" | i where "i < 16" "e \<in> set (entriesOf (ts ! i) (p @ [word_of_nat i]))"
    by (auto simp: entries_branch [OF len] split: if_splits)
  then show ?case
  proof cases
    case (2 i)
    then obtain k where "fst e = (p @ [word_of_nat i]) @ k" "nibbled k"
      using PBranch.IH [of "ts ! i"] PBranch.prems(1) len by fastforce
    then show ?thesis using nibble_nat(1) [OF 2(1)] by (intro exI [of _ "word_of_nat i # k"]) simp
  qed (rule exI [of _ "[]"], simp)
qed auto

lemma entries_nonempty: "shaped t \<Longrightarrow> normal t \<Longrightarrow> t \<noteq> PEmpty \<Longrightarrow> entriesOf t p \<noteq> []"
proof (induction t arbitrary: p)
  case (PExt l t)
  then show ?case by (cases t) auto
next
  case (PBranch ts v)
  then have len: "length ts = 16" by simp
  show ?case
  proof (cases "v = []")
    case True
    then have "usedChildren ts \<noteq> []" using PBranch.prems(2) by (auto simp: entries_used)
    then obtain i where "i \<in> set (usedChildren ts)" by (cases "usedChildren ts") auto
    then have i: "i < 16" "ts ! i \<noteq> PEmpty" "ts ! i \<in> set ts" using used_mem [of i ts] len by auto
    then have "entriesOf (ts ! i) (p @ [word_of_nat i]) \<noteq> []" using PBranch.IH [of "ts ! i"] PBranch.prems by simp
    then show ?thesis using i(1) by (auto simp: entries_branch [OF len])
  qed (simp add: entries_branch [OF len])
qed simp_all

lemma commonPrefix_append: "commonPrefix (p @ k) (p @ j) = length p + commonPrefix k j"
  by (induction p) simp_all

text \<open>Two entries of a branch part at its beginning.\<close>

lemma branch_parts:
  assumes "shaped (PBranch ts v)" "normal (PBranch ts v)"
  obtains k j where "p @ k \<in> fst ` set (entriesOf (PBranch ts v) p)" "p @ j \<in> fst ` set (entriesOf (PBranch ts v) p)"
    "commonPrefix k j = 0" "k \<noteq> j"
proof -
  have len: "length ts = 16" using assms(1) by simp
  have child: "\<exists>k. p @ word_of_nat i # k \<in> fst ` set (entriesOf (PBranch ts v) p)" if i: "i \<in> set (usedChildren ts)" for i
  proof -
    have m: "i < 16" "ts ! i \<noteq> PEmpty" "ts ! i \<in> set ts" using used_mem [of i ts] i len by auto
    then have "entriesOf (ts ! i) (p @ [word_of_nat i]) \<noteq> []" using entries_nonempty [of "ts ! i"] assms by simp
    then obtain e where e: "e \<in> set (entriesOf (ts ! i) (p @ [word_of_nat i]))" by (cases "entriesOf (ts ! i) (p @ [word_of_nat i])") auto
    moreover have "shaped (ts ! i)" using assms(1) m(3) by simp
    ultimately obtain k where "fst e = (p @ [word_of_nat i]) @ k" using entries_keys by blast
    moreover have "e \<in> set (entriesOf (PBranch ts v) p)" using e m(1) by (auto simp: entries_branch [OF len])
    ultimately show ?thesis by (metis append.assoc append_Cons append_Nil imageI)
  qed
  show ?thesis
  proof (cases "v = []")
    case True
    then have "2 \<le> length (usedChildren ts)" using assms(2) by (simp add: entries_used)
    then obtain i i' us where us: "usedChildren ts = i # i' # us" by (cases "usedChildren ts"; cases "tl (usedChildren ts)") auto
    have "distinct (usedChildren ts)" by (simp add: usedChildren_def)
    then have "i \<noteq> i'" "i < 16" "i' < 16" using us used_mem [of i ts] used_mem [of i' ts] len by auto
    then have "(word_of_nat i :: byte) \<noteq> word_of_nat i'" using nibble_nat(2) [of i] nibble_nat(2) [of i'] by metis
    moreover obtain k where "p @ word_of_nat i # k \<in> fst ` set (entriesOf (PBranch ts v) p)" using child [of i] us by auto
    moreover obtain j where "p @ word_of_nat i' # j \<in> fst ` set (entriesOf (PBranch ts v) p)" using child [of i'] us by auto
    ultimately show ?thesis using that by auto
  next
    case False
    then have "usedChildren ts \<noteq> []" using assms(2) by (auto simp: entries_def length_used [symmetric])
    then obtain i where "i \<in> set (usedChildren ts)" by (cases "usedChildren ts") auto
    from child [OF this] obtain k where "p @ word_of_nat i # k \<in> fst ` set (entriesOf (PBranch ts v) p)" by blast
    moreover have "p @ [] \<in> fst ` set (entriesOf (PBranch ts v) p)" using False by (auto simp: entries_branch [OF len])
    ultimately show ?thesis using that [of "[]" "word_of_nat i # k"] by simp
  qed
qed

subsection \<open>The nibbles a range shares\<close>

lemma sharedFrom_prefix:
  "s \<le> x \<Longrightarrow> x \<le> length b \<Longrightarrow> x \<le> length i \<Longrightarrow> sharedFrom b i x s = min x (s + commonPrefix (drop s b) (drop s i))"
proof (induction b i x s rule: sharedFrom.induct)
  case (1 b i x s)
  show ?case
  proof (cases "s < x")
    case True
    then have "drop s b = b ! s # drop (s + 1) b" "drop s i = i ! s # drop (s + 1) i" using 1(3,4) by (simp_all add: Cons_nth_drop_Suc)
    then show ?thesis using 1 True by (subst sharedFrom.simps) auto
  next
    case False
    then show ?thesis using 1(2) by (subst sharedFrom.simps) auto
  qed
qed

lemma sharedPreLoop_prefix:
  "pre \<le> length p \<Longrightarrow> prefix p b \<Longrightarrow> \<forall>i\<in>set is'. prefix p i \<Longrightarrow> length p \<le> sp \<Longrightarrow>
     sharedPreLoop b pre is' sp = foldr (\<lambda>i. min (commonPrefix b i)) is' sp"
proof (induction is' arbitrary: sp)
  case (Cons i is')
  obtain b' i' where b: "b = p @ b'" "i = p @ i'" using Cons.prems(2,3) by (auto elim!: prefixE)
  let ?x = "min sp (min (length b) (length i))"
  have x: "pre \<le> ?x" "?x \<le> length b" "?x \<le> length i" using Cons.prems(1,4) by (auto simp: b)
  have d: "pre + commonPrefix (drop pre b) (drop pre i) = commonPrefix b i"
  proof -
    have "length (take pre p) = pre" using Cons.prems(1) by simp
    then have "commonPrefix (take pre p @ (drop pre p @ b')) (take pre p @ (drop pre p @ i')) = pre + commonPrefix (drop pre p @ b') (drop pre p @ i')"
      by (simp only: commonPrefix_append)
    moreover have "drop pre b = drop pre p @ b'" "drop pre i = drop pre p @ i'" using Cons.prems(1) by (simp_all add: b)
    moreover have "b = take pre p @ (drop pre p @ b')" "i = take pre p @ (drop pre p @ i')" by (simp_all add: b)
    ultimately show ?thesis by metis
  qed
  have m: "min (sharedFrom b i ?x pre) sp = min (commonPrefix b i) sp"
    using sharedFrom_prefix [OF x] commonPrefix_le [of b i] by (simp add: d)
  have "length p \<le> min (commonPrefix b i) sp" using Cons.prems(4) by (simp add: b commonPrefix_append)
  from Cons.IH [OF Cons.prems(1,2) _ this] Cons.prems(3)
  have "sharedPreLoop b pre is' (min (commonPrefix b i) sp) = foldr (\<lambda>i. min (commonPrefix b i)) is' (min (commonPrefix b i) sp)" by simp
  moreover have "foldr (\<lambda>i. min (commonPrefix b i)) is' (min c sp) = min c (foldr (\<lambda>i. min (commonPrefix b i)) is' sp)" for c
    by (induction is') (auto simp: min.left_commute)
  moreover have "foldr (\<lambda>i. min (commonPrefix b i)) js 0 = 0" for js by (induction js) simp_all
  ultimately show ?case using m by simp
qed simp

lemma foldr_min:
  fixes f :: "'a \<Rightarrow> nat"
  shows "\<forall>i\<in>set is'. m \<le> f i \<Longrightarrow> m \<le> sp \<Longrightarrow> (\<exists>i\<in>set is'. f i = m) \<or> sp = m \<Longrightarrow> foldr (\<lambda>i. min (f i)) is' sp = m"
proof (induction is')
  case (Cons i is')
  have "m \<le> foldr (\<lambda>i. min (f i)) is' sp" using Cons.prems(1,2) by (induction is') auto
  with Cons show ?case by (cases "f i = m") auto
qed simp

lemma commonPrefix_three: "commonPrefix a b \<noteq> 0 \<Longrightarrow> commonPrefix a c \<noteq> 0 \<Longrightarrow> commonPrefix b c \<noteq> 0"
  by (cases a; cases b; cases c) (auto split: if_splits)

lemma sharedPre_branch:
  assumes "shaped (PBranch ts v)" "normal (PBranch ts v)" "pre \<le> length p" "length p < 2 ^ 32"
  obtains k w e es where "entriesOf (PBranch ts v) p = (k, w) # e # es" "sharedPreOf k pre (map fst (e # es)) = length p"
proof -
  obtain i j where ij: "p @ i \<in> fst ` set (entriesOf (PBranch ts v) p)" "p @ j \<in> fst ` set (entriesOf (PBranch ts v) p)"
      "commonPrefix i j = 0" "i \<noteq> j"
    by (rule branch_parts [OF assms(1,2)])
  obtain k w es' where es: "entriesOf (PBranch ts v) p = (k, w) # es'" using ij(1) by (cases "entriesOf (PBranch ts v) p") auto
  have pre: "\<exists>q. fst e = p @ q" if "e \<in> set ((k, w) # es')" for e using entries_keys [OF assms(1), of e p] that es by auto
  then obtain q where q: "k = p @ q" using pre [of "(k, w)"] by auto
  have "\<exists>e\<in>set es'. commonPrefix k (fst e) = length p"
  proof (cases "commonPrefix q i = 0 \<and> p @ i \<noteq> k")
    case True
    then have "p @ i \<in> fst ` set es'" using ij(1) es by auto
    then obtain e where "e \<in> set es'" "fst e = p @ i" by auto
    then show ?thesis using True by (intro bexI [of _ e]) (simp_all add: q commonPrefix_append)
  next
    case False
    have "commonPrefix q j = 0 \<and> p @ j \<noteq> k"
    proof (cases "p @ i = k")
      case True
      then show ?thesis using ij(3,4) by (auto simp: q)
    next
      case n: False
      then have "commonPrefix q i \<noteq> 0" using False by simp
      then show ?thesis using commonPrefix_three [of q i j] ij(3) commonPrefix_three [of j i q] q
        by (cases q; cases i; cases j) (auto split: if_splits)
    qed
    moreover from this have "p @ j \<in> fst ` set es'" using ij(2) es by auto
    then obtain e where "e \<in> set es'" "fst e = p @ j" by auto
    ultimately show ?thesis by (intro bexI [of _ e]) (simp_all add: q commonPrefix_append)
  qed
  then have ex: "\<exists>x\<in>set (map fst es'). commonPrefix k x = length p" by auto
  have pr: "\<forall>x\<in>set (map fst es'). prefix p x"
  proof
    fix x assume "x \<in> set (map fst es')"
    then obtain e where "e \<in> set es'" "x = fst e" by auto
    then show "prefix p x" using pre [of e] by (auto simp: prefix_def)
  qed
  have "length p \<le> commonPrefix k x" if x: "x \<in> set (map fst es')" for x
  proof -
    obtain r where "x = p @ r" by (rule prefixE [OF bspec [OF pr x]])
    then show ?thesis by (simp add: q commonPrefix_append)
  qed
  then have "foldr (\<lambda>i. min (commonPrefix k i)) (map fst es') (2 ^ 32 - 1) = length p"
    using ex assms(4) by (intro foldr_min) auto
  then have "sharedPreOf k pre (map fst es') = length p"
    unfolding sharedPreOf_def using assms(4) pr by (subst sharedPreLoop_prefix [of _ p]) (simp_all add: assms(3) q)
  moreover obtain e es where "es' = e # es" using ex by (cases es') auto
  ultimately show ?thesis using that es by blast
qed

subsection \<open>Writing into a stream\<close>

lemma liftNode_andThen: "liftNode (andThen m f) = andThen (liftNode m) (\<lambda>x. liftNode (f x))"
  by (cases m) (simp_all add: liftNode_def)

lemma append_hash: "append_h256 h s = append_item s (Str (hashBytes h))"
  by (simp add: append_h256_def hashBytes_def)

fun height :: "ptrie \<Rightarrow> nat" where
  "height (PExt l t) = Suc (height t)"
| "height (PBranch ts v) = Suc (fold (\<lambda>t m. max (height t) m) ts 0)"
| "height _ = 0"

lemma height_child: "t \<in> set ts \<Longrightarrow> height t < height (PBranch ts v)"
proof -
  have "m \<le> fold (\<lambda>t m. max (height t) m) ts m \<and> (\<forall>t\<in>set ts. height t \<le> fold (\<lambda>t m. max (height t) m) ts m)" for m
  proof (induction ts arbitrary: m)
    case (Cons t ts)
    from Cons.IH [of "max (height t) m"] show ?case by auto
  qed simp
  then show "t \<in> set ts \<Longrightarrow> height t < height (PBranch ts v)" by (simp add: less_Suc_eq_le)
qed

text \<open>\<open>hash256rlp\<close> on the entries writes the node.\<close>

definition writesNode :: "nat \<Rightarrow> (bytes \<Rightarrow> h256) \<Rightarrow> ptrie \<Rightarrow> bytes \<Rightarrow> nat \<Rightarrow> bool" where
  "writesNode n H t p pre \<longleftrightarrow> (\<forall>s. hash256rlp n H (entriesOf t p) pre s = liftNode (append_item s (nodeItem H t)))"

lemma aux_writes:
  assumes "writesNode n H t p pre" "shaped t" "bounded t"
  shows "hash256aux (Suc n) H (entriesOf t p) pre s = liftNode (append_item s (nodeRef H t))"
proof -
  have f: "fits (nodeItem H t)" by (rule fits_node [OF assms(2,3)])
  have "append_item emptyStream (nodeItem H t) = Inr \<lparr>m_out = encode H t, m_listStack = []\<rparr>"
    using append_item_enc [OF f, of emptyStream] by (simp add: noteAppended_def emptyStream_def encode_def)
  moreover have "appendRaw s (encode H t) 1 = append_item s (nodeItem H t)"
    using append_item_enc [OF f, of s] by (simp add: appendRaw_def encode_def)
  ultimately show ?thesis
    using assms(1) by (simp add: writesNode_def liftNode_def stream_out_def append_hash nodeRef_def asRef_def encode_def del: append_item.simps)
qed

lemma takeWhile_first:
  assumes "\<forall>x\<in>set xs. P x" "\<forall>y\<in>set ys. \<not> P y"
  shows "takeWhile P (xs @ ys) = xs" "dropWhile P (xs @ ys) = ys"
proof -
  have "takeWhile P ys = []" "dropWhile P ys = ys" using assms(2) by (cases ys; simp)+
  then show "takeWhile P (xs @ ys) = xs" "dropWhile P (xs @ ys) = ys" using assms(1) by simp_all
qed

lemma children_write:
  assumes "\<forall>i\<in>set is'. i < 16 \<and> shaped (ts ! i) \<and> normal (ts ! i) \<and> bounded (ts ! i) \<and> writesNode n H (ts ! i) (p @ [word_of_nat i]) (Suc (length p))"
    and "distinct is'"
  shows "hash256children (Suc n) H (map word_of_nat is') (concat (map (\<lambda>i. entriesOf (ts ! i) (p @ [word_of_nat i])) is')) (length p) s =
    liftNode (append_items s (map (\<lambda>i. nodeRef H (ts ! i)) is'))"
  using assms
proof (induction is' arbitrary: s)
  case Nil
  then show ?case by (simp add: liftNode_def)
next
  case (Cons i is')
  let ?f = "\<lambda>i. entriesOf (ts ! i) (p @ [word_of_nat i])"
  let ?P = "\<lambda>e :: bytes \<times> bytes. fst e ! length p = word_of_nat i"
  have i: "i < 16" "shaped (ts ! i)" "normal (ts ! i)" "bounded (ts ! i)" "writesNode n H (ts ! i) (p @ [word_of_nat i]) (Suc (length p))"
    using Cons.prems(1) by simp_all
  have at: "fst e ! length p = word_of_nat j" if "e \<in> set (?f j)" "j \<in> set (i # is')" for e j
  proof -
    have "shaped (ts ! j)" using Cons.prems(1) that(2) by blast
    from entries_keys [OF this that(1)] show ?thesis by auto
  qed
  have ne: "(word_of_nat j :: byte) \<noteq> word_of_nat i" if "j \<in> set is'" for j
    using Cons.prems that nibble_nat(2) [of i] nibble_nat(2) [of j] by (metis distinct.simps(2) list.set_intros(1,2))
  have "\<forall>e\<in>set (?f i). ?P e" using at [of _ i] by simp
  moreover have "\<forall>e\<in>set (concat (map ?f is')). \<not> ?P e" using at ne by fastforce
  ultimately have w: "takeWhile ?P (?f i @ concat (map ?f is')) = ?f i" "dropWhile ?P (?f i @ concat (map ?f is')) = concat (map ?f is')"
    by (rule takeWhile_first)+
  have b: "(if ?f i = [] then liftNode (append_bytes s [] False) else hash256aux (Suc n) H (?f i) (length p + 1) s) =
      liftNode (append_item s (nodeRef H (ts ! i)))"
  proof (cases "ts ! i = PEmpty")
    case False
    then show ?thesis using aux_writes [OF i(5,2,4)] entries_nonempty [OF i(2,3)] by simp
  qed simp
  have "hash256children (Suc n) H (map word_of_nat is') (concat (map ?f is')) (length p) =
      (\<lambda>s. liftNode (append_items s (map (\<lambda>i. nodeRef H (ts ! i)) is')))"
    using Cons.IH Cons.prems by (intro ext) simp
  then show ?case using w b by (simp add: Let_def liftNode_andThen del: hash256aux.simps)
qed

lemma hash_writes:
  "shaped t \<Longrightarrow> normal t \<Longrightarrow> bounded t \<Longrightarrow> nibbled p \<Longrightarrow> \<forall>e\<in>set (entriesOf t p). length (fst e) < 2 ^ 32 \<Longrightarrow> 2 * height t + 1 \<le> n \<Longrightarrow>
     writesNode n H t p (length p)"
proof (induction t arbitrary: p n)
  case PEmpty
  then obtain m where "n = Suc m" by (cases n) auto
  then show ?case by (simp add: writesNode_def)
next
  case (PLeaf l v)
  then obtain m where "n = Suc m" by (cases n) auto
  moreover have "hexPrefixEncode (p @ l) True (length p) (-1) = hp l True"
    using hexPrefixEncode_hp [of "p @ l" "length p" "length (p @ l)" "-1" True] PLeaf.prems by simp
  ultimately show ?case by (simp add: writesNode_def andThen_assoc numeral_2_eq_2)
next
  case (PExt l t)
  then obtain m where n: "n = Suc (Suc m)" by (cases n; cases "n - 1") auto
  obtain ts v where t: "t = PBranch ts v" using PExt.prems(2) by (cases t) auto
  have st: "shaped t" "normal t" "bounded t" "nibbled l" "l \<noteq> []" using PExt.prems(1-3) by simp_all
  have len: "length (p @ l) < 2 ^ 32"
  proof -
    obtain e where e: "e \<in> set (entriesOf t (p @ l))" using entries_nonempty [OF st(1,2), of "p @ l"] t by (cases "entriesOf t (p @ l)") auto
    from entries_keys [OF st(1) e] obtain q where "fst e = (p @ l) @ q" by blast
    then show ?thesis using PExt.prems(5) e by fastforce
  qed
  have le: "length p \<le> length (p @ l)" by simp
  obtain k w e es where es: "entriesOf t (p @ l) = (k, w) # e # es" "sharedPreOf k (length p) (map fst (e # es)) = length (p @ l)"
    unfolding t by (rule sharedPre_branch [OF st(1,2) [unfolded t] le len])
  have "(k, w) \<in> set (entriesOf t (p @ l))" by (simp add: es(1))
  from entries_keys [OF st(1) this] obtain q where q: "k = (p @ l) @ q" "nibbled q" by auto
  have h: "hexPrefixEncode k False (length p) (int (length (p @ l))) = hp l False"
    using hexPrefixEncode_hp [of k "length p" "length (p @ l)" "int (length (p @ l))" False] PExt.prems(4) st(4) q by simp
  have "writesNode m H t (p @ l) (length (p @ l))"
    by (rule PExt.IH) (use st PExt.prems(4-6) n in simp_all)
  note aux = aux_writes [OF this st(1,3)]
  show ?case unfolding writesNode_def
  proof
    fix s
    have "hash256rlp n H (entriesOf (PExt l t) p) (length p) s =
        andThen (liftNode (andThen (appendList s 2) (\<lambda>s. append_bytes s (hp l False) False))) (\<lambda>s.
          hash256aux (Suc m) H (entriesOf t (p @ l)) (length (p @ l)) s)"
      using es(2) h st(5) by (simp add: n es(1) Let_def del: hash256aux.simps)
    then show "hash256rlp n H (entriesOf (PExt l t) p) (length p) s = liftNode (append_item s (nodeItem H (PExt l t)))"
      unfolding aux by (simp add: nodeItem_ref liftNode_andThen andThen_assoc numeral_2_eq_2)
  qed
next
  case (PBranch ts v)
  then obtain m where n: "n = Suc (Suc m)" by (cases n; cases "n - 1") auto
  have len: "length ts = 16" using PBranch.prems(1) by simp
  have lp: "length p < 2 ^ 32"
  proof -
    obtain e where e: "e \<in> set (entriesOf (PBranch ts v) p)"
      using entries_nonempty [OF PBranch.prems(1,2), of p] by (cases "entriesOf (PBranch ts v) p") auto
    from entries_keys [OF PBranch.prems(1) e] obtain q where "fst e = p @ q" by blast
    then show ?thesis using PBranch.prems(5) e by fastforce
  qed
  obtain k w e es where es: "entriesOf (PBranch ts v) p = (k, w) # e # es" "sharedPreOf k (length p) (map fst (e # es)) = length p"
    by (rule sharedPre_branch [OF PBranch.prems(1,2) le_refl lp])
  let ?c = "concat (map (\<lambda>i. entriesOf (ts ! i) (p @ [word_of_nat i])) [0..<16])"
  have eb: "(if v = [] then [] else [(p, v)]) @ ?c = (k, w) # e # es" using es(1) by (simp only: entries_branch [OF len])
  have first: "(if length p = length k then e # es else (k, w) # e # es) = ?c \<and> (if length p = length k then w else []) = v"
  proof (cases "v = []")
    case True
    then have c: "?c = (k, w) # e # es" using eb by simp
    then have "(k, w) \<in> set ?c" by simp
    then obtain i where "i < 16" "(k, w) \<in> set (entriesOf (ts ! i) (p @ [word_of_nat i]))" by auto
    then obtain q where "k = (p @ [word_of_nat i]) @ q" using entries_keys [of "ts ! i" "(k, w)"] PBranch.prems(1) len by fastforce
    then show ?thesis using c True by simp
  next
    case False
    then have "length p = length k" "w = v" "e # es = ?c" using eb by auto
    then show ?thesis by simp
  qed
  have child: "\<forall>i\<in>set [0..<16]. i < 16 \<and> shaped (ts ! i) \<and> normal (ts ! i) \<and> bounded (ts ! i) \<and>
      writesNode m H (ts ! i) (p @ [word_of_nat i]) (Suc (length p))"
  proof
    fix i :: nat assume "i \<in> set [0..<16]"
    then have i: "i < 16" "ts ! i \<in> set ts" using len by simp_all
    have "writesNode m H (ts ! i) (p @ [word_of_nat i]) (length (p @ [word_of_nat i]))"
    proof (rule PBranch.IH [OF i(2)])
      show "\<forall>e\<in>set (entriesOf (ts ! i) (p @ [word_of_nat i])). length (fst e) < 2 ^ 32"
        using PBranch.prems(5) i(1) by (auto simp: entries_branch [OF len])
      show "2 * height (ts ! i) + 1 \<le> m" using PBranch.prems(6) height_child [OF i(2), of v] n by simp
    qed (use PBranch.prems(1-4) i nibble_nat(1) in simp_all)
    then show "i < 16 \<and> shaped (ts ! i) \<and> normal (ts ! i) \<and> bounded (ts ! i) \<and> writesNode m H (ts ! i) (p @ [word_of_nat i]) (Suc (length p))"
      using PBranch.prems(1-3) i by simp
  qed
  note ch = children_write [OF child distinct_upt]
  have m: "map (\<lambda>i. nodeRef H (ts ! i)) [0..<16] = map (nodeRef H) ts" using len by (intro nth_equalityI) simp_all
  show ?case unfolding writesNode_def
  proof
    fix s
    have "hash256rlp n H (entriesOf (PBranch ts v) p) (length p) s =
        andThen (liftNode (appendList s 17)) (\<lambda>s. andThen (hash256children (Suc m) H (map word_of_nat [0..<16]) ?c (length p) s) (\<lambda>s.
          liftNode (append_bytes s v False)))"
      using es first by (simp add: n Let_def del: hash256children.simps upt_Suc)
    then show "hash256rlp n H (entriesOf (PBranch ts v) p) (length p) s = liftNode (append_item s (nodeItem H (PBranch ts v)))"
      unfolding ch m using len by (simp add: nodeItem_ref liftNode_andThen append_items_append andThen_assoc)
  qed
qed

end
