(* ===== verification/Trie_Map.thy ===== *)
theory Trie_Map
  imports Trie_Refine Trie_Hash_Nodes
begin

section \<open>Sequences of operations, and the root\<close>

text \<open>
  Insertions and removals of keys of one length, run on a trie and on a map: the trie finds what the
  map holds, and its root is the hash that \<open>hash256\<close> computes from the map. The root
  depends on nothing but the contents.
\<close>

datatype trie_op = Put bytes bytes | Del bytes

fun runTrie :: "nat \<Rightarrow> 'd trie_env \<Rightarrow> trie_op list \<Rightarrow> 'd GenericTrieDB \<Rightarrow> trie_error + 'd GenericTrieDB" where
  "runTrie n E [] T = Inr T"
| "runTrie n E (Put k v # ops) T = andThen (trie_insert n E k v T) (runTrie n E ops)"
| "runTrie n E (Del k # ops) T = andThen (trie_remove n E k T) (runTrie n E ops)"

fun runMap :: "trie_op list \<Rightarrow> (bytes \<times> bytes) list \<Rightarrow> (bytes \<times> bytes) list" where
  "runMap [] m = m"
| "runMap (Put k v # ops) m = runMap ops (map_put k v m)"
| "runMap (Del k # ops) m = runMap ops (map_erase k m)"

definition valueIn :: "(bytes \<times> bytes) list \<Rightarrow> bytes \<Rightarrow> bytes" where
  "valueIn m k = (case map_of m k of None \<Rightarrow> [] | Some v \<Rightarrow> v)"

fun opFits :: "nat \<Rightarrow> trie_op \<Rightarrow> bool" where
  "opFits L (Put k v) \<longleftrightarrow> length k = L \<and> v \<noteq> [] \<and> length v < 2 ^ 32"
| "opFits L (Del k) \<longleftrightarrow> length k = L"

text \<open>The tries the operations lead through, and all that is written for them.\<close>

definition p_remove :: "ptrie \<Rightarrow> bytes \<Rightarrow> ptrie" where
  "p_remove t k = (case p_delete t k of None \<Rightarrow> t | Some t' \<Rightarrow> t')"

fun runTries :: "trie_op list \<Rightarrow> ptrie \<Rightarrow> ptrie" where
  "runTries [] t = t"
| "runTries (Put k v # ops) t = runTries ops (p_insert t (asNibbles k) v)"
| "runTries (Del k # ops) t = runTries ops (p_remove t (asNibbles k))"

fun runFamily :: "trie_op list \<Rightarrow> ptrie \<Rightarrow> ptrie list" where
  "runFamily [] t = []"
| "runFamily (Put k v # ops) t = insertFamily t (asNibbles k) v @ runFamily ops (p_insert t (asNibbles k) v)"
| "runFamily (Del k # ops) t = deleteFamily t (asNibbles k) @ runFamily ops (p_remove t (asNibbles k))"

subsection \<open>Sorted maps\<close>

definition ordered :: "(bytes \<times> 'v) list \<Rightarrow> bool" where
  "ordered m \<longleftrightarrow> sorted_wrt (<) (map fst m)"

lemma ordered_Nil [simp]: "ordered []"
  by (simp add: ordered_def)

lemma map_of_put [simp]: "map_of (map_put k v m) = (map_of m)(k \<mapsto> v)"
  by (induction k v m rule: map_put.induct) auto

lemma keys_put: "fst ` set (map_put k v m) = insert k (fst ` set m)"
  by (induction k v m rule: map_put.induct) auto

lemma ordered_put: "ordered m \<Longrightarrow> ordered (map_put k v m)"
proof (induction k v m rule: map_put.induct)
  case (2 k v k' w m)
  have "\<forall>x\<in>fst ` set (map_put k v m). k' < x" if "k' < k" using 2(2) that unfolding keys_put by (auto simp: ordered_def)
  with 2 show ?case by (auto simp: ordered_def)
qed (simp add: ordered_def)

lemma map_of_erase [simp]: "map_of (map_erase k m) = (map_of m)(k := None)"
  by (induction m) (auto simp: map_erase_def)

lemma ordered_erase: "ordered m \<Longrightarrow> ordered (map_erase k m)"
  unfolding ordered_def map_erase_def by (induction m) auto

lemma ordered_distinct: "ordered m \<Longrightarrow> distinct (map fst m)"
  unfolding ordered_def strict_sorted_iff by blast

lemma ordered_unique:
  assumes "ordered m" "ordered m'" "map_of m = map_of m'"
  shows "m = m'"
proof -
  have "set (map fst m) = set (map fst m')" using dom_map_of_conv_image_fst [of m] dom_map_of_conv_image_fst [of m'] assms(3) by simp
  then have k: "map fst m = map fst m'" using assms(1,2) unfolding ordered_def by (intro strict_sorted_equal)
  have "m = map (\<lambda>k. (k, the (map_of m k))) (map fst m)" if "ordered m" for m :: "(bytes \<times> 'a) list"
  proof (rule nth_equalityI)
    fix i assume i: "i < length m"
    then have "map_of m (fst (m ! i)) = Some (snd (m ! i))" by (intro map_of_is_SomeI [OF ordered_distinct [OF that]]) simp
    with i show "m ! i = map (\<lambda>k. (k, the (map_of m k))) (map fst m) ! i" by simp
  qed simp
  from this [OF assms(1)] this [OF assms(2)] show ?thesis unfolding assms(3) k by simp
qed

subsection \<open>The entries of a trie are a sorted map\<close>

lemma append_less: "(p @ x :: bytes) < p @ y \<longleftrightarrow> x < y"
  by (induction p) simp_all

lemma ordered_append:
  "ordered (m @ m') \<longleftrightarrow> ordered m \<and> ordered m' \<and> (\<forall>e\<in>set m. \<forall>e'\<in>set m'. fst e < fst e')"
  by (auto simp: ordered_def sorted_wrt_append)

lemma ordered_concat:
  assumes "\<forall>i<n. ordered (f i)" "\<And>i j e e'. i < j \<Longrightarrow> j < n \<Longrightarrow> e \<in> set (f i) \<Longrightarrow> e' \<in> set (f j) \<Longrightarrow> fst e < fst e'"
  shows "ordered (concat (map f [0..<n]))"
  using assms
proof (induction n)
  case (Suc n)
  have "ordered (concat (map f [0..<n]))" using Suc.prems by (intro Suc.IH) auto
  moreover have "\<forall>e\<in>set (concat (map f [0..<n])). \<forall>e'\<in>set (f n). fst e < fst e'" using Suc.prems(2) [of _ n] by auto
  ultimately show ?case using Suc.prems(1) by (simp add: ordered_append)
qed simp

lemma nibble_less: "i < j \<Longrightarrow> j < 16 \<Longrightarrow> (word_of_nat i :: byte) < word_of_nat j"
  using nibble_nat(2) [of i] nibble_nat(2) [of j] by (simp add: word_less_nat_alt)

lemma entries_ordered: "shaped t \<Longrightarrow> ordered (entriesOf t p)"
proof (induction t arbitrary: p)
  case (PLeaf l v)
  then show ?case by (simp add: ordered_def)
next
  case (PBranch ts v)
  have len: "length ts = 16" using PBranch.prems by simp
  let ?f = "\<lambda>i. entriesOf (ts ! i) (p @ [word_of_nat i])"
  have key: "\<exists>k. fst e = p @ word_of_nat i # k" if "i < 16" "e \<in> set (?f i)" for i e
    using entries_keys [of "ts ! i" e "p @ [word_of_nat i]"] PBranch.prems that len by fastforce
  have "ordered (concat (map ?f [0..<16]))"
  proof (rule ordered_concat)
    show "\<forall>i<16. ordered (?f i)" using PBranch len by simp
    fix i j e e' assume ij: "i < j" "j < (16 :: nat)" and e: "e \<in> set (?f i)" "e' \<in> set (?f j)"
    obtain k k' where "fst e = p @ word_of_nat i # k" "fst e' = p @ word_of_nat j # k'" using key [of i e] key [of j e'] ij e by auto
    then show "fst e < fst e'" using nibble_less [OF ij] by (simp add: append_less)
  qed
  moreover have "p < fst e" if e: "e \<in> set (concat (map ?f [0..<16]))" for e
  proof -
    obtain i where "i \<in> set [0..<16]" "e \<in> set (?f i)" using e unfolding set_concat set_map by blast
    then have "i < 16" "e \<in> set (?f i)" by simp_all
    then obtain k where "fst e = p @ word_of_nat i # k" using key by blast
    then show ?thesis using append_less [of p "[]"] by simp
  qed
  then have "\<forall>e\<in>set (concat (map ?f [0..<16])). p < fst e" by blast
  ultimately show ?case unfolding entries_branch [OF len] ordered_append
    by (cases "v = []") (simp_all add: ordered_def del: set_concat set_map)
qed simp_all

lemma entries_get:
  "shaped t \<Longrightarrow> normal t \<Longrightarrow> nibbled k \<Longrightarrow> (p @ k, v) \<in> set (entriesOf t p) \<longleftrightarrow> p_get t k = v \<and> v \<noteq> []"
proof (induction t arbitrary: k p)
  case (PExt l t)
  have t: "shaped t" "normal t" using PExt.prems by simp_all
  show ?case
  proof (cases "prefix l k")
    case True
    then obtain j where k: "k = l @ j" by (rule prefixE)
    then show ?thesis using PExt.IH [OF t, of j "p @ l"] PExt.prems(3) by (simp add: k)
  next
    case False
    have "(p @ k, v) \<notin> set (entriesOf t (p @ l))"
    proof
      assume "(p @ k, v) \<in> set (entriesOf t (p @ l))"
      from entries_keys [OF t(1) this] False show False by auto
    qed
    then show ?thesis using False by simp
  qed
next
  case (PBranch ts w)
  have len: "length ts = 16" using PBranch.prems by simp
  let ?f = "\<lambda>i. entriesOf (ts ! i) (p @ [word_of_nat i])"
  have sh: "shaped (ts ! i)" "normal (ts ! i)" "ts ! i \<in> set ts" if "i < 16" for i using PBranch.prems that len by simp_all
  show ?case
  proof (cases k)
    case Nil
    have "(p, v) \<notin> set (?f i)" if "i < 16" for i using entries_keys [OF sh(1) [OF that], of "(p, v)" "p @ [word_of_nat i]"] by auto
    then show ?thesis by (auto simp: entries_branch [OF len] Nil)
  next
    case (Cons n j)
    have n: "n < 16" "unat n < 16" and j: "nibbled j" using PBranch.prems(3) by (simp_all add: Cons)
    have nw: "word_of_nat (unat n) = n" by simp
    have "(p @ n # j, v) \<in> set (?f i) \<longleftrightarrow> i = unat n \<and> p_get (ts ! unat n) j = v \<and> v \<noteq> []" if "i < 16" for i
    proof (cases "i = unat n")
      case True
      then show ?thesis using PBranch.IH [OF sh(3) sh(1,2) j, OF n(2) n(2) n(2), of "p @ [n]"] by simp
    next
      case False
      then have "word_of_nat i \<noteq> n" using nibble_nat(2) [OF that] by metis
      then show ?thesis using entries_keys [OF sh(1) [OF that], of "(p @ n # j, v)" "p @ [word_of_nat i]"] False by auto
    qed
    then show ?thesis using n len by (auto simp: entries_branch [OF len] Cons)
  qed
qed auto

subsection \<open>Operations on both\<close>

lemma p_get_length: "uniform m t \<Longrightarrow> p_get t k \<noteq> [] \<Longrightarrow> length k = m"
proof (induction t k arbitrary: m rule: p_get.induct)
  case (3 l t k)
  then have "prefix l k" by (auto split: if_splits)
  then show ?case using 3 prefix_length_le [of l k] by fastforce
next
  case (5 ts v n k)
  then have n: "unat n < length ts" "0 < m" by (auto split: if_splits)
  then have "length k = m - 1" using 5 by simp
  then show ?case using n(2) by simp
qed (auto split: if_splits)

lemma height_uniform: "uniform m t \<Longrightarrow> shaped t \<Longrightarrow> height t \<le> m"
proof (induction t arbitrary: m)
  case (PExt l t)
  then have "height t \<le> m - length l" "length l \<le> m" "0 < length l" by simp_all
  then show ?case unfolding height.simps by linarith
next
  case (PBranch ts v)
  have f: "fold (\<lambda>t m. max (height t) m) ts b \<le> max b (m - 1)" if "\<forall>t\<in>set ts. height t \<le> m - 1" for ts b
    using that
  proof (induction ts arbitrary: b)
    case (Cons a ts)
    then have "fold (\<lambda>t m. max (height t) m) ts (max (height a) b) \<le> max (max (height a) b) (m - 1)" by simp
    also have "\<dots> \<le> max b (m - 1)" using Cons.prems by auto
    finally show ?case by simp
  qed simp
  have "\<forall>t\<in>set ts. height t \<le> m - 1" using PBranch by simp
  from f [OF this, of 0] have "fold (\<lambda>t m. max (height t) m) ts 0 \<le> m - 1" by simp
  then show ?case using PBranch.prems(1) by (cases m) simp_all
qed simp_all

text \<open>A trie holds what a map holds.\<close>

definition agree :: "nat \<Rightarrow> ptrie \<Rightarrow> (bytes \<times> bytes) list \<Rightarrow> bool" where
  "agree L t m \<longleftrightarrow>
     uniform (2 * L) t \<and> ordered m \<and> (\<forall>(k, v)\<in>set m. length k = L \<and> v \<noteq> []) \<and>
     (\<forall>k. length k = L \<longrightarrow> p_get t (asNibbles k) = valueIn m k)"

lemma agree_empty: "agree L PEmpty []"
  by (simp add: agree_def valueIn_def)

lemma set_put: "set (map_put k v m) \<subseteq> insert (k, v) (set m)"
  by (induction k v m rule: map_put.induct) auto

lemma agree_put:
  assumes "agree L t m" "okay t" "length k = L" "v \<noteq> []"
  shows "agree L (p_insert t (asNibbles k) v) (map_put k v m)"
proof -
  have s: "shaped t" using assms(2) by (simp add: okay_def)
  have "p_get (p_insert t (asNibbles k) v) (asNibbles k') = valueIn (map_put k v m) k'" if "length k' = L" for k'
    using p_get_insert [OF s nibbled_key nibbled_key, of k v k'] inj_asNibbles [of k' k] assms(1) that by (auto simp: agree_def valueIn_def)
  moreover have "\<forall>(k', w)\<in>set (map_put k v m). length k' = L \<and> w \<noteq> []" using assms(1,3,4) set_put [of k v m] by (auto simp: agree_def)
  ultimately show ?thesis using assms uniform_insert [OF _ _ s nibbled_key] by (simp add: agree_def ordered_put)
qed

lemma agree_del:
  assumes "agree L t m" "okay t" "normal t" "length k = L" "2 * L < 2 ^ 32"
  shows "agree L (p_remove t (asNibbles k)) (map_erase k m)"
proof -
  have u: "uniform (2 * L) t" and s: "shaped t" and len: "length (asNibbles k) = 2 * L"
    using assms(1,2,4) by (simp_all add: agree_def okay_def)
  have g: "p_get (p_remove t (asNibbles k)) (asNibbles k') = valueIn (map_erase k m) k'" if k': "length k' = L" for k'
  proof (cases "p_delete t (asNibbles k)")
    case None
    then have "p_get t (asNibbles k) = []" using delete_finds [OF s assms(3) u len nibbled_key] by simp
    then show ?thesis using None assms(1,4) k' by (auto simp: p_remove_def agree_def valueIn_def)
  next
    case (Some t')
    have "p_get t' (asNibbles k') = (if k' = k then [] else p_get t (asNibbles k'))"
      using p_get_delete [OF Some s assms(3) u len nibbled_key, of "asNibbles k'"] k' inj_asNibbles [of k' k] by auto
    then show ?thesis using Some assms(1) k' by (auto simp: p_remove_def agree_def valueIn_def)
  qed
  have "uniform (2 * L) (p_remove t (asNibbles k))"
    using okay_delete [OF _ assms(2,3) u len nibbled_key assms(5)] u by (auto simp: p_remove_def split: option.splits)
  moreover have "\<forall>(k', w)\<in>set (map_erase k m). length k' = L \<and> w \<noteq> []" using assms(1) by (auto simp: agree_def map_erase_def)
  ultimately show ?thesis using g assms(1) by (simp add: agree_def ordered_erase)
qed

context node_store
begin

lemma run_represents:
  "ready (td_db T) \<Longrightarrow> represents (env H N) T t \<Longrightarrow> agree L t m \<Longrightarrow> list_all (opFits L) ops \<Longrightarrow>
     collisionFree H (runFamily ops t) \<Longrightarrow> L < 2 ^ 31 \<Longrightarrow> 4 * L + 8 \<le> n \<Longrightarrow>
     \<exists>T'. runTrie n (env H N) ops T = Inr T' \<and> represents (env H N) T' (runTries ops t) \<and> agree L (runTries ops t) (runMap ops m)"
proof (induction ops arbitrary: T t m)
  case (Cons op ops)
  have o: "okay t" "normal t" using Cons.prems(2) by (simp_all add: represents_def)
  show ?case
  proof (cases op)
    case (Put k v)
    have k: "length k = L" "v \<noteq> []" "length v < 2 ^ 32" using Cons.prems(4) by (simp_all add: Put)
    have c: "collisionFree H (insertFamily t (asNibbles k) v)" "collisionFree H (runFamily ops (p_insert t (asNibbles k) v))"
      using Cons.prems(5) by (auto simp: Put elim: collisionFree_mono)
    obtain T1 where T1: "trie_insert n (env H N) k v T = Inr T1" "ready (td_db T1)" "represents (env H N) T1 (p_insert t (asNibbles k) v)"
      by (rule insert_represents [OF Cons.prems(1,2) c(1) _ k(2,3)]) (use Cons.prems(6,7) k(1) in auto)
    from Cons.IH [OF T1(2,3) agree_put [OF Cons.prems(3) o(1) k(1,2)] _ c(2) Cons.prems(6,7)] Cons.prems(4)
    show ?thesis by (simp add: Put T1(1))
  next
    case (Del k)
    have k: "length k = L" and L: "2 * L < 2 ^ 32" using Cons.prems(4,6) by (simp_all add: Del)
    have c: "collisionFree H (deleteFamily t (asNibbles k))" "collisionFree H (runFamily ops (p_remove t (asNibbles k)))"
      using Cons.prems(5) by (auto simp: Del elim: collisionFree_mono)
    have u: "uniform (2 * length k) t" using Cons.prems(3) k by (simp add: agree_def)
    obtain T1 where T1: "trie_remove n (env H N) k T = Inr T1" "ready (td_db T1)" "represents (env H N) T1 (p_remove t (asNibbles k))"
      unfolding p_remove_def by (rule remove_represents [OF Cons.prems(1,2) u c(1), where n = n]) (use Cons.prems(6,7) k in auto)
    from Cons.IH [OF T1(2,3) agree_del [OF Cons.prems(3) o k L] _ c(2) Cons.prems(6,7)] Cons.prems(4)
    show ?thesis by (simp add: Del T1(1))
  qed
qed simp

end

lemma same_option: "(\<And>v. x = Some v \<longleftrightarrow> y = Some v) \<Longrightarrow> x = y"
  by (cases x; cases y) auto

lemma hexMapOf_entries:
  assumes "agree L t m" "okay t" "normal t"
  shows "hexMapOf m = entriesOf t []"
proof (rule ordered_unique)
  have s: "shaped t" using assms(2) by (simp add: okay_def)
  have hm: "hexMapOf m = foldr (\<lambda>(k, v). map_put (asNibbles k) v) m []" by (simp add: hexMapOf_def foldr_conv_fold)
  show "ordered (hexMapOf m)" unfolding hm by (induction m) (auto intro: ordered_put)
  show e: "ordered (entriesOf t [])" by (rule entries_ordered [OF s])
  have mo: "map_of (hexMapOf m) = map_of (map (\<lambda>(k, v). (asNibbles k, v)) m)" unfolding hm by (induction m) auto
  have d: "distinct (map fst (map (\<lambda>(k, v). (asNibbles k, v)) m))"
  proof -
    have "distinct (map asNibbles (map fst m))"
      using ordered_distinct [of m] assms(1) inj_asNibbles by (auto simp: distinct_map agree_def inj_on_def)
    then show ?thesis by (simp add: comp_def case_prod_beta)
  qed
  show "map_of (hexMapOf m) = map_of (entriesOf t [])"
  proof
    fix k
    have "map_of (hexMapOf m) k = Some v \<longleftrightarrow> map_of (entriesOf t []) k = Some v" for v
    proof -
      have l: "map_of (hexMapOf m) k = Some v \<longleftrightarrow> (\<exists>x. k = asNibbles x \<and> (x, v) \<in> set m)"
        unfolding mo map_of_eq_Some_iff [OF d] by auto
      have r: "map_of (entriesOf t []) k = Some v \<longleftrightarrow> nibbled k \<and> p_get t k = v \<and> v \<noteq> []"
        using entries_get [OF s assms(3), of k "[]" v] entries_keys [OF s, of "(k, v)" "[]"]
        unfolding map_of_eq_Some_iff [OF ordered_distinct [OF e]] by auto
      have mem: "(x, v) \<in> set m \<longleftrightarrow> map_of m x = Some v" for x
        using ordered_distinct [of m] assms(1) by (simp add: agree_def)
      show ?thesis
      proof
        assume "map_of (hexMapOf m) k = Some v"
        then obtain x where x: "k = asNibbles x" "(x, v) \<in> set m" using l by blast
        then have "length x = L" "v \<noteq> []" using assms(1) by (auto simp: agree_def)
        moreover have "valueIn m x = v" using mem x(2) by (simp add: valueIn_def)
        ultimately have "length x = L" "v \<noteq> []" "valueIn m x = v" by simp_all
        then show "map_of (entriesOf t []) k = Some v" unfolding r using assms(1) x(1) by (simp add: agree_def)
      next
        assume "map_of (entriesOf t []) k = Some v"
        then have k: "nibbled k" "p_get t k = v" "v \<noteq> []" using r by auto
        have len: "length k = 2 * L" using p_get_length [of "2 * L" t k] assms(1) k by (simp add: agree_def)
        then have x: "k = asNibbles (pack k)" using asNibbles_pack [OF k(1)] by simp
        then have "2 * length (pack k) = 2 * L" using len length_asNibbles [of "pack k"] by simp
        then have "valueIn m (pack k) = v" using assms(1) k(2) x by (metis agree_def nat_mult_eq_cancel1 zero_less_numeral)
        then have "(pack k, v) \<in> set m" using k(3) mem by (auto simp: valueIn_def split: option.splits)
        then show "map_of (hexMapOf m) k = Some v" using l x by blast
      qed
    qed
    then show "map_of (hexMapOf m) k = map_of (entriesOf t []) k" by (rule same_option)
  qed
qed

end
