(* ===== verification/Trie_Props.thy ===== *)
theory Trie_Props
  imports Trie_Map
begin

section \<open>What the trie promises\<close>

text \<open>A trie after its initialisation and a sequence of operations.\<close>

definition trieAfter :: "nat \<Rightarrow> 'd trie_env \<Rightarrow> 'd \<Rightarrow> trie_op list \<Rightarrow> trie_error + 'd GenericTrieDB" where
  "trieAfter n E d ops = andThen (trie_init E d) (runTrie n E ops)"

lemma trieAfter_represents:
  assumes "lenient d" "list_all (opFits L) ops" "collisionFree H (runFamily ops PEmpty)" "L < 2 ^ 31" "4 * L + 8 \<le> n"
  obtains T t where "trieAfter n (env H overlayNodes) d ops = Inr T" "represents (env H overlayNodes) T t" "agree L t (runMap ops [])"
proof -
  obtain T0 where T0: "trie_init (env H overlayNodes) d = Inr T0" "lenient (td_db T0)" "represents (env H overlayNodes) T0 PEmpty"
    by (rule overlaid.init_represents [OF assms(1)])
  from overlaid.run_represents [OF T0(2,3) agree_empty assms(2-5)] obtain T where
    "runTrie n (env H overlayNodes) ops T0 = Inr T" "represents (env H overlayNodes) T (runTries ops PEmpty)"
    "agree L (runTries ops PEmpty) (runMap ops [])" by blast
  then show ?thesis using that T0(1) by (simp add: trieAfter_def)
qed

lemma hash256_agrees:
  assumes "represents E T t" "agree L t m" "L < 2 ^ 31" "4 * L + 8 \<le> n"
  shows "hash256 n (te_sha3 E) m = Inr (m_root T)"
proof -
  have t: "okay t" "normal t" "shaped t" "bounded t" "uniform (2 * L) t" "m_root T = te_sha3 E (encode (te_sha3 E) t)"
    using assms(1,2) by (simp_all add: represents_def okay_def agree_def)
  have h: "hexMapOf m = entriesOf t []" by (rule hexMapOf_entries [OF assms(2) t(1,2)])
  have "rlp256 n (te_sha3 E) m = Inr (encode (te_sha3 E) t)"
  proof (cases "m = []")
    case True
    then have "entriesOf t [] = []" using h by (simp add: hexMapOf_def)
    then have "t = PEmpty" using entries_nonempty [OF t(3,2)] by blast
    then show ?thesis using True by (simp add: rlp256_def liftNode_def rlp_of_enc enc_Nil del: enc.simps)
  next
    case False
    have "length (fst e) < 2 ^ 32" if e: "e \<in> set (entriesOf t [])" for e
    proof -
      obtain k v where kv: "e = (k, v)" "nibbled k" using entries_keys [OF t(3) e] by (cases e) auto
      then have "p_get t k \<noteq> []" using entries_get [OF t(3,2) kv(2), of "[]" v] e by auto
      then show ?thesis using p_get_length [OF t(5)] assms(3) kv(1) by simp
    qed
    then have "writesNode n (te_sha3 E) t [] (length ([] :: bytes))"
      by (intro hash_writes [OF t(3,2,4)]) (use height_uniform [OF t(5,3)] assms(4) in auto)
    moreover have "append_item emptyStream (nodeItem (te_sha3 E) t) = Inr \<lparr>m_out = encode (te_sha3 E) t, m_listStack = []\<rparr>"
      using append_item_enc [OF fits_node [OF t(3,4)], of emptyStream] by (simp add: noteAppended_def emptyStream_def encode_def)
    ultimately show ?thesis using False
      by (simp add: rlp256_def h writesNode_def liftNode_def stream_out_def del: append_item.simps)
  qed
  then show ?thesis by (simp add: hash256_def t(6))
qed

text \<open>
  C6: The trie is a map. After any sequence of insertions of non-empty values of less than \<open>2 ^ 32\<close>
  bytes and removals, for keys of one length \<open>L\<close>, on an initialised trie over \<open>OverlayDB\<close>, looking a
  key up gives the value the same sequence leaves in a map, or the empty string, and no operation
  fails. The hash function must not collide on the nodes written on the way; the database must not
  enforce its reference counts, as it does not between commits. \<open>n\<close> is the fuel of the recursion.
\<close>

theorem trie_is_map:
  assumes "lenient d" "list_all (opFits L) ops" "collisionFree H (runFamily ops PEmpty)" "L < 2 ^ 31" "4 * L + 8 \<le> n"
    and "length key = L"
  shows "andThen (trieAfter n (env H overlayNodes) d ops) (\<lambda>T. trie_at n (env H overlayNodes) T key) =
    Inr (valueIn (runMap ops []) key)"
proof -
  obtain T t where T: "trieAfter n (env H overlayNodes) d ops = Inr T" "represents (env H overlayNodes) T t" "agree L t (runMap ops [])"
    by (rule trieAfter_represents [OF assms(1-5)])
  have "2 * length key + 2 \<le> n" using assms(5,6) by simp
  from trie_at_get [OF T(2) this] show ?thesis using T(1,3) assms(6) by (simp add: agree_def)
qed

definition sampleHash :: "bytes \<Rightarrow> h256" where
  "sampleHash b = word_of_int (foldl (\<lambda>h x. h * 257 + uint x) 1 b)"

definition sampleDB :: OverlayDB where
  "sampleDB = \<lparr>m_main = Map.empty, m_aux = Map.empty, m_enforceRefs = False, m_db = None\<rparr>"

definition sampleOps :: "trie_op list" where
  "sampleOps = [Put [0x12] [1], Put [0x13] ([2]), Del [0x12]]"

lemma collisionFree_sample:
  assumes "distinct (map (\<lambda>t. foldl (\<lambda>h x. h * 257 + uint x) 1 (encode sampleHash t) mod 2 ^ 256) (remdups ts))"
  shows "collisionFree sampleHash ts"
proof -
  have u: "uint (sampleHash b) = foldl (\<lambda>h x. h * 257 + uint x) 1 b mod 2 ^ 256" for b
    by (simp add: sampleHash_def uint_word_of_int)
  have "inj_on (\<lambda>t. uint (sampleHash (encode sampleHash t))) (set ts)"
    using assms by (simp add: distinct_map u)
  then have "inj_on sampleHash (encode sampleHash ` set ts)" unfolding inj_on_def by fastforce
  then show ?thesis by (simp add: collisionFree_inj)
qed

lemma sampleOps_fit: "lenient sampleDB" "list_all (opFits 1) sampleOps" "collisionFree sampleHash (runFamily sampleOps PEmpty)"
  "valueIn (runMap sampleOps []) [0x13] = [2]"
proof -
  show "lenient sampleDB" by (simp add: lenient_def sampleDB_def)
  show "list_all (opFits 1) sampleOps" by (simp add: sampleOps_def)
  show "collisionFree sampleHash (runFamily sampleOps PEmpty)" by (rule collisionFree_sample) code_simp
  show "valueIn (runMap sampleOps []) [0x13] = [2]" by code_simp
qed

theorem trie_is_map_witness:
  "andThen (trieAfter 12 (env sampleHash overlayNodes) sampleDB sampleOps)
     (\<lambda>T. trie_at 12 (env sampleHash overlayNodes) T [0x13]) = Inr ([2])"
  using trie_is_map [OF sampleOps_fit(1-3), of 12 "[0x13]"] by (simp add: sampleOps_fit(4))

text \<open>
  C7: The root is a function of the contents. After such a sequence the root of the trie is the hash
  that \<open>hash256\<close> computes from the entries without building a trie: it does not depend on the order
  of the operations, nor on keys that were inserted and removed again.
\<close>

theorem trie_root_hash256:
  assumes "lenient d" "list_all (opFits L) ops" "collisionFree H (runFamily ops PEmpty)" "L < 2 ^ 31" "4 * L + 8 \<le> n"
  shows "\<exists>r. andThen (trieAfter n (env H overlayNodes) d ops) (trie_root (env H overlayNodes)) = Inr r \<and>
    hash256 n H (runMap ops []) = Inr r"
proof -
  obtain T t where T: "trieAfter n (env H overlayNodes) d ops = Inr T" "represents (env H overlayNodes) T t" "agree L t (runMap ops [])"
    by (rule trieAfter_represents [OF assms(1-5)])
  have "hash256 n H (runMap ops []) = Inr (m_root T)" using hash256_agrees [OF T(2,3) assms(4,5)] by simp
  moreover have "trie_root (env H overlayNodes) T = Inr (m_root T)"
    using represents_read(1) [OF T(2)] by (simp add: trie_root_def encode_def)
  ultimately show ?thesis using T(1) by simp
qed

theorem trie_root_hash256_witness:
  "\<exists>r. andThen (trieAfter 12 (env sampleHash overlayNodes) sampleDB sampleOps) (trie_root (env sampleHash overlayNodes)) = Inr r \<and>
    hash256 12 sampleHash [([0x13], [2])] = Inr r"
proof -
  have "runMap sampleOps [] = [([0x13], [2])]" by code_simp
  then show ?thesis using trie_root_hash256 [OF sampleOps_fit(1-3), of 12] by simp
qed

end
