(* ===== verification/Spec2Isabelle.thy ===== *)
theory Spec2Isabelle
  imports Rlp_Stream Legacy_VM_Frame World_Commit Transaction_Codec Header_Codec Seal_Props Log_Receipt Execution_Props Tx_Queue_Safe Trie_Props
begin

section \<open>A verification library of the aleth client\<close>

text \<open>
  Aleth is an Ethereum client. This library models its core: how data is encoded (RLP), what a
  transaction and a block header are and when they are valid, how the Merkle-Patricia trie keeps a
  map under a hash, how the world of accounts changes and is rolled back, how the virtual machine runs code and calls back into the client, and how
  transactions wait for their block. Every definition is translated from the code under
  \<open>src/\<close>, with its names; machine integers are words of their width, exceptions are the left side
  of a sum, members of a class are fields of a record.

  Parts, from the bottom up:

  \<^item> \<open>Aleth_Prelude\<close>, \<open>Common_Data\<close>: the machine types (\<open>u256\<close>, \<open>h256\<close>, \<open>bytes\<close>, \<dots>), the sequencing
    \<open>andThen\<close> of results, shared lemmas; big-endian and hex conversions
    (\<open>libdevcore/CommonData.h\<close>), with their round trips.

  \<^item> \<open>Rlp\<close>, \<open>Rlp_Stream\<close>, \<open>Rlp_Fields\<close>: the class \<open>RLP\<close>, a reference into bytes with a cache for
    indexed access and an iterator, and the writer \<open>RLPStream\<close> with its stack of open lists
    (\<open>libdevcore/RLP.h\<close>, \<open>RLP.cpp\<close>). The encoding of trees \<open>enc\<close> is the specification of both:
    reader and writer are inverse, the cache does not show, no read is out of bounds. The iterator
    is also shown not to stop on lists with trailing bytes. A \<open>bigint\<close> is written and read with a
    length counted in 32 bits; the round trip of integers is for less than \<open>2 ^ 32\<close> bytes.

  \<^item> \<open>Trie_Common\<close>, \<open>Node_DB\<close>, \<open>Trie_DB\<close>, \<open>Trie_Hash\<close>: the trie. Slices of nibbles and the hex-prefix
    encoding (\<open>libdevcore/TrieCommon.cpp\<close>), the counted nodes over a key-value store
    (\<open>StateCacheDB.cpp\<close>, \<open>OverlayDB.cpp\<close>), insertion, removal and lookup in a \<open>GenericTrieDB\<close>, function
    by function (\<open>TrieDB.h\<close>), and the computation of a root without a trie (\<open>TrieHash.cpp\<close>). Nodes are
    read as whole RLP items; the recursion runs on fuel, twice the nibbles of a key being enough.
    The locale \<open>node_store\<close> says what the trie asks of its database, and both databases provide it
    while they do not enforce their counts. \<open>Patricia\<close>, \<open>Patricia_Steps\<close> and \<open>Patricia_Delete\<close> hold
    tries as a datatype with the same operations, their invariant and the maps they stand for;
    \<open>Trie_Nodes\<close>, \<open>Trie_Look\<close>, \<open>Trie_Insert\<close>, \<open>Trie_Remove\<close> and \<open>Trie_Refine\<close> show that the code on
    nodes does what these operations do, as long as the hash does not collide on the nodes written
    (\<open>collisionFree\<close>); \<open>Trie_Hash_Nodes\<close>, \<open>Trie_Map\<close> and \<open>Trie_Props\<close> conclude that a trie is a map,
    and that its root is what \<open>hash256\<close> computes from the entries. This is for keys of one length, as
    the hashed keys of the state are; removing absent keys of other lengths has flaws in the code.

  \<^item> \<open>Transaction_Base\<close>, \<open>Transaction_Codec\<close>, \<open>Block_Header\<close>, \<open>Header_Codec\<close>: transactions and block
    headers, their reading, writing, hashing and checks (\<open>libethcore/TransactionBase.cpp\<close>,
    \<open>BlockHeader.cpp\<close>, \<open>libethereum/Transaction.cpp\<close>) and the round trips.

  \<^item> \<open>Evm_Schedule\<close>, \<open>Seal_Engine\<close>, \<open>Seal_Props\<close>: the prices of each fork
    (\<open>libethcore/EVMSchedule.h\<close>), chain parameters, difficulty, gas limit and the checks of the seal
    engines (\<open>libethcore/SealEngine.cpp\<close>, \<open>libethashseal/Ethash.cpp\<close>): a header made from its
    parent is accepted, the difficulty stays in its bounds.

  \<^item> \<open>World_State\<close>, \<open>World_Rollback\<close>, \<open>World_Ops\<close>, \<open>World_Steps\<close>, \<open>World_Commit\<close>: \<open>State\<close> and \<open>Account\<close>
    (\<open>libethereum/State.cpp\<close>, \<open>Account.cpp\<close>): the cache over the committed trie and the change log.
    \<open>viewOf\<close> abstracts a state to the map from addresses to accounts that it shows; every operation
    refines one on the map, a rollback restores the view at its savepoint, and a commit writes the
    view. The operations form a transition relation, \<open>state_step\<close> in \<open>World_Steps\<close>, which lists the
    conditions a rollback needs: \<open>kill\<close>, which is not logged, is not among its steps,
    \<open>clearStorage\<close> only without pending writes, \<open>setStorage\<close> at existing accounts, \<open>setCode\<close> at
    existing accounts with a logged change, as the client calls them. That \<open>clearStorage\<close> loses
    pending writes otherwise is a theorem too.

  \<^item> \<open>Evm_Instruction\<close>, \<open>Legacy_VM_State\<close>, \<open>Legacy_VM_Calls\<close>, \<open>Legacy_VM_Opt\<close>, \<open>Legacy_VM_Cases\<close>,
    \<open>Legacy_VM\<close>: the interpreter \<open>LegacyVM\<close> (\<open>libevm/\<close>), one function per instruction, over an
    arbitrary client, the record \<open>host\<close> of the operations of \<open>ExtVMFace\<close>. \<open>Legacy_VM_Gas\<close> and
    \<open>Legacy_VM_Frame\<close> state contracts of the interpreter with its client as locales: \<open>ext_vm\<close>
    (operations that keep the context and the gas within bounds: every run ends) and \<open>ext_rel\<close>
    (operations that keep a relation on contexts: every run keeps it).

  \<^item> \<open>Execution\<close>, \<open>Ext_VM\<close>: \<open>Executive\<close> (\<open>libethereum/Executive.cpp\<close>), which runs a transaction, a call
    or a creation, and \<open>ExtVM\<close> (\<open>libethereum/ExtVM.cpp\<close>), the client of the interpreter. They call
    each other: \<open>extVM\<close> ties the knot at a number of levels, and \<open>Ext_VM_Fuel\<close> proves that
    \<open>1025\<close> levels are enough, since the interpreter does not call at depth 1024. \<open>Ext_VM_Gas\<close> and
    \<open>Ext_VM_World\<close> interpret the two locales with this client. \<open>Ext_VM_Props\<close> and \<open>Execution_Props\<close>
    draw the conclusions: no ether appears, failed calls and refused transactions leave nothing,
    static calls change nothing. From block \<open>experimentalForkBlock + 256\<close> on, \<open>BLOCKHASH\<close> runs a
    transaction on the state and then empties its cache, with all that was not committed; it starts
    at depth 0 each time. The model does the same (\<open>ext_blockHash\<close>), and the theorems about runs do
    not hold there: they are for the blocks before, \<open>hashesKnown\<close>. Only that a refused transaction
    leaves nothing is for every block (\<open>Ext_VM_Start\<close>). An exception that leaves the client ends
    the process in the code; the model goes on in the state it left, and no run on a legal world
    with \<open>hashesKnown\<close> reaches one.

  \<^item> \<open>Log_Receipt\<close>: bloom filters, log entries, receipts and log filters. Where a filter reads a topic
    behind the end of the vector, which is undefined, its result is \<open>None\<close>.

  \<^item> \<open>Tx_Queue\<close>, \<open>Tx_Queue_Flaws\<close>, \<open>Tx_Queue_Inv\<close>, \<open>Tx_Queue_Safe\<close>: the transaction queue
    (\<open>libethereum/TransactionQueue.cpp\<close>), three flaws, and the invariant that holds under every
    sequence of operations on transactions with a sender.

  Parameters. Keccak and secp256k1 are code of libraries: the hash function is an argument, the
  signature functions the record \<open>keys\<close>, the tries of the state the record \<open>crypto\<close> with the roots of
  contents (the world state is over the contents of tries; the tries themselves are the part above). Hash maps are maps, and where the code depends on the order in which they are
  enumerated the order is an argument. Locks are not modelled: each locked operation is one step.

  Loops. Loops that count are recursive functions; the interpreter's loop runs on fuel, the gas of
  the run, which is enough since every instruction that goes on costs gas. Iterations that need not
  end (over RLP lists with trailing bytes) are runs with a bound, and not ending is stated for
  every bound.

  Not modelled: the block chain and its queue, the client's threads and its network, the JSON
  server, the key-value stores, the iterators of the trie, the command lines; the second interpreter behind the EVMC interface of an
  external library; measurements and tracing.
\<close>

end
